(* ===== verification/Prelude.thy ===== *)
theory Prelude
  imports Main "HOL-Library.Word" "HOL-Library.Monad_Syntax"
begin

text \<open>
  Shared vocabulary of the development: bytes, C strings and the \<open>ctype.h\<close> classes the proxy
  uses, the wrap-around of the C \<open>int\<close>, checked memory access, and the C loop.

  Every operation of the program that touches memory or carries an \<open>assert\<close> returns an
  \<open>option\<close>: \<open>None\<close> is a failed assertion or an access outside the allocated
  object, \<open>Some\<close> the value and the new state. A loop that does not come back is
  \<open>None\<close> too, so a theorem of the form "the result is \<open>Some\<close>" says that the code
  returns, that no assertion fails and that no access leaves its object.

  The contract of a terminating loop is the locale \<open>c_loop_contract\<close>; each loop of the
  parsers interprets it.
\<close>

section \<open>Bytes and C strings\<close>

type_synonym byte = "8 word"

text \<open>A C string literal is the list of its characters; the terminating NUL is not listed.\<close>

definition str :: "string \<Rightarrow> byte list" where
  "str s = map of_char s"

text \<open>The C string stored at the start of a \<open>char\<close> array: up to the first NUL.\<close>

definition c_string :: "byte list \<Rightarrow> byte list" where
  "c_string a = takeWhile (\<lambda>c. c \<noteq> 0) a"

lemma str_Nil [simp]: "str [] = []"
  by (simp add: str_def)

lemma str_Cons [simp]: "str (c # s) = of_char c # str s"
  by (simp add: str_def)

lemma length_str [simp]: "length (str s) = length s"
  by (simp add: str_def)

lemma c_string_app: "0 \<notin> set xs \<Longrightarrow> c_string (xs @ 0 # ys) = xs"
  unfolding c_string_def by (induction xs) auto

section \<open>Character classes of ctype.h, C locale\<close>

definition toupper :: "byte \<Rightarrow> byte" where
  "toupper c = (if 97 \<le> c \<and> c \<le> 122 then c - 32 else c)"

definition tolower :: "byte \<Rightarrow> byte" where
  "tolower c = (if 65 \<le> c \<and> c \<le> 90 then c + 32 else c)"

definition isdigit :: "byte \<Rightarrow> bool" where
  "isdigit c \<longleftrightarrow> 48 \<le> c \<and> c \<le> 57"

definition isxdigit :: "byte \<Rightarrow> bool" where
  "isxdigit c \<longleftrightarrow> isdigit c \<or> 65 \<le> c \<and> c \<le> 70 \<or> 97 \<le> c \<and> c \<le> 102"

definition isalpha :: "byte \<Rightarrow> bool" where
  "isalpha c \<longleftrightarrow> 65 \<le> c \<and> c \<le> 90 \<or> 97 \<le> c \<and> c \<le> 122"

lemmas ctype_defs = toupper_def tolower_def isdigit_def isxdigit_def isalpha_def

lemma isdigit_nonzero: "isdigit c \<Longrightarrow> c \<noteq> 0"
  by (auto simp: isdigit_def)

lemma isxdigit_nonzero: "isxdigit c \<Longrightarrow> c \<noteq> 0"
  by (auto simp: isxdigit_def isdigit_def)

lemma toupper_eq_0 [simp]: "toupper c = 0 \<longleftrightarrow> c = 0"
proof (cases "97 \<le> c \<and> c \<le> 122")
  case True
  then have "c \<noteq> 32" by auto
  with True show ?thesis by (auto simp: toupper_def)
qed (auto simp: toupper_def)

lemma tolower_eq_0 [simp]: "tolower c = 0 \<longleftrightarrow> c = 0"
proof (cases "65 \<le> c \<and> c \<le> 90")
  case True
  have "c + 32 \<noteq> 0"
  proof
    assume "c + 32 = 0"
    then have "c = - 32" by (simp add: eq_neg_iff_add_eq_0)
    with True show False by simp
  qed
  with True show ?thesis by (auto simp: tolower_def)
qed (auto simp: tolower_def)

section \<open>The C int\<close>

text \<open>
  A 32-bit \<open>int\<close> is an \<open>int\<close> of HOL with the two's complement wrap-around written
  out. (ISO C leaves signed overflow undefined; the wrap is what the compiled code computes.)
\<close>

definition c_int :: "int \<Rightarrow> int" where
  "c_int x = (x + 2147483648) mod 4294967296 - 2147483648"

definition int_range :: "int \<Rightarrow> bool" where
  "int_range x \<longleftrightarrow> - 2147483648 \<le> x \<and> x < 2147483648"

lemma c_int_range [simp]: "int_range (c_int x)"
  unfolding int_range_def c_int_def by (auto simp: pos_mod_bound [of 4294967296])

lemma c_int_id: "int_range x \<Longrightarrow> c_int x = x"
  by (simp add: int_range_def c_int_def mod_pos_pos_trivial)

text \<open>The wrapped value is the only value in range that differs by a multiple of \<open>2^32\<close>.\<close>

lemma c_int_unique:
  assumes "int_range y" and "x = y + k * 4294967296"
  shows "c_int x = y"
proof -
  have "x + 2147483648 = (y + 2147483648) + k * 4294967296"
    using assms(2) by simp
  then have "(x + 2147483648) mod 4294967296 = (y + 2147483648) mod 4294967296"
    by (simp only: mod_mult_self1)
  also have "\<dots> = y + 2147483648"
    using assms(1) by (intro mod_pos_pos_trivial) (auto simp: int_range_def)
  finally show ?thesis by (simp add: c_int_def)
qed

lemma c_int_shift: "c_int (y + k * 4294967296) = c_int y"
proof -
  have "y + k * 4294967296 + 2147483648 = (y + 2147483648) + k * 4294967296" by simp
  then show ?thesis unfolding c_int_def by (simp only: mod_mult_self1)
qed

lemma c_int_rep: "\<exists>k. c_int x = x + k * 4294967296"
proof
  have "(x + 2147483648) mod 4294967296 = (x + 2147483648) - (x + 2147483648) div 4294967296 * 4294967296"
    by (rule minus_div_mult_eq_mod [symmetric])
  then show "c_int x = x + (- ((x + 2147483648) div 4294967296)) * 4294967296"
    by (simp add: c_int_def)
qed

text \<open>Inner wraps do not matter under an outer one.\<close>

lemma c_int_absorb: "c_int (c_int (a * c_int x) + y) = c_int (a * x + y)"
proof -
  obtain k where k: "c_int x = x + k * 4294967296" using c_int_rep by blast
  obtain l where l: "c_int (a * c_int x) = a * c_int x + l * 4294967296" using c_int_rep by blast
  have "c_int (a * c_int x) + y = (a * x + y) + (a * k + l) * 4294967296"
    unfolding l unfolding k by (simp add: algebra_simps)
  then show ?thesis by (simp only: c_int_shift)
qed

section \<open>atoi\<close>

text \<open>
  White space, a sign and digits; the value saturates as a \<open>long\<close> (\<open>strtol\<close>) and is then an
  \<open>int\<close>. The argument is the string without its NUL.
\<close>

definition isspace :: "byte \<Rightarrow> bool" where
  "isspace c \<longleftrightarrow> c = 32 \<or> 9 \<le> c \<and> c \<le> 13"

definition digits_value :: "byte list \<Rightarrow> int" where
  "digits_value ds = foldl (\<lambda>a d. a * 10 + uint (d - 48)) 0 ds"

definition c_atoi :: "byte list \<Rightarrow> int" where
  "c_atoi s =
     (let t = dropWhile isspace s;
          neg = (t \<noteq> [] \<and> hd t = 45);
          u = (if t \<noteq> [] \<and> (hd t = 45 \<or> hd t = 43) then tl t else t);
          v = digits_value (takeWhile isdigit u);
          w = (if neg then - v else v)
      in c_int (max (- 9223372036854775808) (min 9223372036854775807 w)))"

section \<open>Checked memory\<close>

definition load :: "'a list \<Rightarrow> nat \<Rightarrow> 'a option" where
  "load m i = (if i < length m then Some (m ! i) else None)"

definition store :: "'a list \<Rightarrow> nat \<Rightarrow> 'a \<Rightarrow> 'a list option" where
  "store m i x = (if i < length m then Some (m[i := x]) else None)"

text \<open>\<open>memmove(m + dst, m + src, n)\<close> inside one object, and copying a block into it.\<close>

definition memmove :: "'a list \<Rightarrow> nat \<Rightarrow> nat \<Rightarrow> nat \<Rightarrow> 'a list option" where
  "memmove m dst src n =
     (if dst + n \<le> length m \<and> src + n \<le> length m
      then Some (take dst m @ take n (drop src m) @ drop (dst + n) m) else None)"

definition store_block :: "'a list \<Rightarrow> nat \<Rightarrow> 'a list \<Rightarrow> 'a list option" where
  "store_block m dst xs =
     (if dst + length xs \<le> length m then Some (take dst m @ xs @ drop (dst + length xs) m) else None)"

lemma load_Some [simp]: "i < length m \<Longrightarrow> load m i = Some (m ! i)"
  by (simp add: load_def)

lemma store_Some [simp]: "i < length m \<Longrightarrow> store m i x = Some (m[i := x])"
  by (simp add: store_def)

text \<open>\<open>overlay i xs h\<close>: the array \<open>h\<close> after \<open>xs\<close> was stored from index \<open>i\<close> on.\<close>

definition overlay :: "nat \<Rightarrow> byte list \<Rightarrow> byte list \<Rightarrow> byte list" where
  "overlay i xs h = take i h @ xs @ drop (i + length xs) h"

lemma overlay_Nil [simp]: "overlay i [] h = h"
  by (simp add: overlay_def)

lemma overlay_Suc: "i < length h \<Longrightarrow> overlay (Suc i) xs (h[i := x]) = overlay i (x # xs) h"
  by (simp add: overlay_def take_Suc_conv_app_nth)

lemma length_overlay [simp]: "i + length xs \<le> length h \<Longrightarrow> length (overlay i xs h) = length h"
  by (simp add: overlay_def)

lemma overlay_append: "i + length xs \<le> length h \<Longrightarrow> overlay (i + length xs) ys (overlay i xs h) = overlay i (xs @ ys) h"
  by (simp add: overlay_def ac_simps)

lemma overlay_snoc: "i + length xs < length h \<Longrightarrow> (overlay i xs h)[i + length xs := x] = overlay i (xs @ [x]) h"
  by (simp add: overlay_def list_update_append upd_conv_take_nth_drop)

lemma update_overlay: "i < length h \<Longrightarrow> h[i := x] = overlay i [x] h"
  by (simp add: overlay_def upd_conv_take_nth_drop)

lemma drop_overlay: "i + length xs \<le> length h \<Longrightarrow> drop i (overlay i xs h) = xs @ drop (i + length xs) h"
  by (simp add: overlay_def)

lemma store_block_overlay: "p + length xs \<le> length m \<Longrightarrow> store_block m p xs = Some (overlay p xs m)"
  by (simp add: store_block_def overlay_def)

text \<open>A later write over the end of an earlier one.\<close>

lemma overlay_over: "ys \<noteq> [] \<Longrightarrow> i + length xs + length ys \<le> length h \<Longrightarrow>
    overlay (i + length xs) ys (overlay i (xs @ [z]) h) = overlay i (xs @ ys) h"
  by (cases ys) (simp_all add: overlay_def ac_simps)

section \<open>Operations that return\<close>

text \<open>\<open>returns f P\<close>: the operation returns, with a result that \<open>P\<close> holds of.\<close>

definition returns :: "'a option \<Rightarrow> ('a \<Rightarrow> bool) \<Rightarrow> bool" where
  "returns f P = (case f of None \<Rightarrow> False | Some x \<Rightarrow> P x)"

lemma returns_simps [simp]: "returns (Some x) P = P x" "returns None P = False"
  by (simp_all add: returns_def)

lemma returns_iff: "returns f P \<longleftrightarrow> (\<exists>x. f = Some x \<and> P x)"
  by (cases f) simp_all

lemma returns_bind: "returns f (\<lambda>x. returns (g x) P) \<Longrightarrow> returns (Option.bind f g) P"
  by (cases f) simp_all

section \<open>Loops\<close>

text \<open>
  \<open>c_loop body\<close> runs \<open>body\<close> until it reports a break; the body is the loop's
  test and statements, and says with its first component whether the loop is left.
\<close>

partial_function (option) c_loop :: "('s \<Rightarrow> (bool \<times> 's) option) \<Rightarrow> 's \<Rightarrow> 's option" where
  "c_loop body s =
     Option.bind (body s) (\<lambda>r. if fst r then Some (snd r) else c_loop body (snd r))"

declare c_loop.simps [code]

lemma c_loop_break: "body s = Some (True, t) \<Longrightarrow> c_loop body s = Some t"
  by (subst c_loop.simps) simp

lemma c_loop_continue: "body s = Some (False, t) \<Longrightarrow> c_loop body s = c_loop body t"
  by (subst c_loop.simps) simp

text \<open>A body that reproduces its state never leaves the loop: the loop does not return.\<close>

lemma c_loop_diverges:
  assumes "body s = Some (False, s)"
  shows "c_loop body s = None"
proof -
  have "c_loop body s = Some t \<Longrightarrow> False" for t
  proof -
    assume ret: "c_loop body s = Some t"
    have "s = s \<longrightarrow> body s \<noteq> Some (False, s)"
    proof (rule c_loop.raw_induct [where P = "\<lambda>f u v. u = s \<longrightarrow> f u \<noteq> Some (False, s)", OF _ ret])
      fix loop f u v
      assume IH: "\<And>f u v. loop f u = Some v \<Longrightarrow> u = s \<longrightarrow> f u \<noteq> Some (False, s)"
        and eq: "Option.bind (f u) (\<lambda>r. if fst r then Some (snd r) else loop f (snd r)) = Some v"
      show "u = s \<longrightarrow> f u \<noteq> Some (False, s)"
      proof (intro impI notI)
        assume "u = s" and body: "f u = Some (False, s)"
        with eq have "loop f s = Some v" by simp
        from IH [OF this] body \<open>u = s\<close> show False by simp
      qed
    qed
    with assms show False by simp
  qed
  then show ?thesis by (cases "c_loop body s") auto
qed

text \<open>
  The contract of a loop that terminates: an invariant, a measure that every iteration which
  does not break decreases, and a postcondition of the iterations that break.
\<close>

locale c_loop_contract =
  fixes body :: "'s \<Rightarrow> (bool \<times> 's) option"
    and inv :: "'s \<Rightarrow> bool"
    and size_of :: "'s \<Rightarrow> nat"
    and post :: "'s \<Rightarrow> bool"
  assumes body_runs: "inv s \<Longrightarrow> body s \<noteq> None"
    and body_break: "inv s \<Longrightarrow> body s = Some (True, t) \<Longrightarrow> post t"
    and body_inv: "inv s \<Longrightarrow> body s = Some (False, t) \<Longrightarrow> inv t"
    and body_size: "inv s \<Longrightarrow> body s = Some (False, t) \<Longrightarrow> size_of t < size_of s"
begin

lemma loop_returns: "inv s \<Longrightarrow> \<exists>t. c_loop body s = Some t \<and> post t"
proof (induction "size_of s" arbitrary: s rule: less_induct)
  case less
  from body_runs [OF less.prems] obtain b t where bt: "body s = Some (b, t)" by auto
  show ?case
  proof (cases b)
    case True
    with bt less.prems show ?thesis by (auto simp: c_loop_break intro: body_break)
  next
    case False
    with bt have "body s = Some (False, t)" by simp
    with less.hyps [of t] less.prems body_inv body_size have "\<exists>u. c_loop body t = Some u \<and> post u"
      by blast
    with False bt show ?thesis by (simp add: c_loop_continue)
  qed
qed

lemma loop_post: "inv s \<Longrightarrow> c_loop body s = Some t \<Longrightarrow> post t"
  using loop_returns by fastforce

end

text \<open>The contract from one statement about the body, and as a proof rule.\<close>

lemma c_loop_contractI:
  assumes "\<And>s. I s \<Longrightarrow> \<exists>b t. body s = Some (b, t)
           \<and> (b \<longrightarrow> post t) \<and> (\<not> b \<longrightarrow> I t \<and> size_of t < size_of s)"
  shows "c_loop_contract body I size_of post"
  by unfold_locales (use assms in fastforce)+

lemma c_loop_rule:
  assumes "I s"
    and "\<And>s. I s \<Longrightarrow> \<exists>b t. body s = Some (b, t)
           \<and> (b \<longrightarrow> post t) \<and> (\<not> b \<longrightarrow> I t \<and> (size_of t :: nat) < size_of s)"
  shows "\<exists>t. c_loop body s = Some t \<and> post t"
proof -
  have "c_loop_contract body I size_of post"
    using assms(2) by (rule c_loop_contractI)
  then show ?thesis using assms(1) by (rule c_loop_contract.loop_returns)
qed

text \<open>
  A loop that need not terminate: the states it passes through, and the alternative between
  returning and running into a state that reproduces itself.
\<close>

inductive c_steps :: "('s \<Rightarrow> (bool \<times> 's) option) \<Rightarrow> 's \<Rightarrow> 's \<Rightarrow> bool" for body where
  c_steps_refl: "c_steps body s s"
| c_steps_step: "body s = Some (False, t) \<Longrightarrow> c_steps body t u \<Longrightarrow> c_steps body s u"

lemma c_steps_loop: "c_steps body s t \<Longrightarrow> c_loop body s = c_loop body t"
  by (induction rule: c_steps.induct) (simp_all add: c_loop_continue)

lemma c_steps_invariant:
  assumes "c_steps body s t" and "I s" and "\<And>s t. I s \<Longrightarrow> body s = Some (False, t) \<Longrightarrow> I t"
  shows "I t"
  using assms by (induction rule: c_steps.induct) blast+

lemma c_loop_or_stuck:
  assumes "wf r" and "I s"
    and body: "\<And>s. I s \<Longrightarrow> \<exists>b t. body s = Some (b, t)
      \<and> (b \<longrightarrow> post t) \<and> (\<not> b \<longrightarrow> I t \<and> ((t, s) \<in> r \<or> t = s \<and> stuck s))"
  shows "(\<exists>t. c_loop body s = Some t \<and> post t)
    \<or> (\<exists>t. c_steps body s t \<and> I t \<and> stuck t \<and> body t = Some (False, t) \<and> c_loop body s = None)"
  using assms(1,2)
proof (induction s rule: wf_induct_rule)
  case (less s)
  obtain b t where bt: "body s = Some (b, t)" "b \<longrightarrow> post t"
    "\<not> b \<longrightarrow> I t \<and> ((t, s) \<in> r \<or> t = s \<and> stuck s)"
    using body [OF less.prems] by blast
  show ?case
  proof (cases b)
    case True
    with bt show ?thesis by (auto simp: c_loop_break)
  next
    case False
    with bt have c: "body s = Some (False, t)" and It: "I t" by auto
    from False bt consider "(t, s) \<in> r" | "t = s" "stuck s" by auto
    then show ?thesis
    proof cases
      case 1
      from less.IH [OF 1 It] show ?thesis
        using c by (auto simp: c_loop_continue intro: c_steps_step)
    next
      case 2
      with c less.prems show ?thesis
        by (auto intro: c_loop_diverges c_steps_refl)
    qed
  qed
qed

section \<open>Truth values and lists\<close>

lemma ex_bool_simps [simp]:
  "(\<exists>r. \<not> r \<and> P r) \<longleftrightarrow> P False" "(\<exists>r. r \<and> P r) \<longleftrightarrow> P True"
  "(\<exists>r. P r \<and> \<not> r) \<longleftrightarrow> P False" "(\<exists>r. P r \<and> r) \<longleftrightarrow> P True"
  by (metis (full_types))+

lemma ex_Not [simp]: "\<exists>r. \<not> r" "\<exists>r :: bool. r"
  by blast+

lemma take_butlast_Suc: "n < length xs \<Longrightarrow> take (Suc n) xs = take n xs @ [xs ! n]"
  by (rule take_Suc_conv_app_nth)

lemma take_drop_nth:
  "i < j \<Longrightarrow> j \<le> length xs \<Longrightarrow> take (j - i) (drop i xs) = xs ! i # take (j - Suc i) (drop (Suc i) xs)"
proof -
  assume "i < j" "j \<le> length xs"
  then have "drop i xs = xs ! i # drop (Suc i) xs" by (simp add: Cons_nth_drop_Suc)
  moreover from \<open>i < j\<close> have "j - i = Suc (j - Suc i)" by simp
  ultimately show ?thesis by (metis take_Suc_Cons)
qed

lemma funpow_Suc_outer: "(f ^^ Suc n) x = f ((f ^^ n) x)"
  by simp

end
