(* ===== verification/Buffer.thy ===== *)
theory Buffer
  imports Prelude
begin

text \<open>
  \<open>proxy_http/src/buffer/buffer.c\<close> and \<open>include/buffer/buffer.h\<close>: the I/O buffer with a
  read and a write pointer and a reserved zone below \<open>infLimit\<close>. The five pointers are
  offsets from \<open>data\<close>; \<open>data\<close> itself is the allocated block. After the operations
  come the invariant, the list view (\<open>pending\<close>, \<open>resv\<close>, \<open>room\<close>) and one equation
  per operation over that view; the parsers use only those.
\<close>

section \<open>State and operations\<close>

record buffer =
  data :: "byte list"
  infLimit :: nat
  limit :: nat
  rd :: nat
  wr :: nat

definition buffer_reset :: "buffer \<Rightarrow> buffer" where
  "buffer_reset b = b\<lparr>rd := infLimit b, wr := infLimit b\<rparr>"

text \<open>\<open>n0\<close> bytes are reserved and \<open>n\<close> is the size of the block \<open>mem\<close> points to.\<close>

definition buffer_init_r :: "nat \<Rightarrow> nat \<Rightarrow> byte list \<Rightarrow> buffer" where
  "buffer_init_r n0 n mem =
     (let b = \<lparr>data = mem, infLimit = n0, limit = 0, rd = 0, wr = 0\<rparr>
      in (buffer_reset b)\<lparr>limit := n\<rparr>)"

definition buffer_init :: "nat \<Rightarrow> byte list \<Rightarrow> buffer" where
  "buffer_init n mem = buffer_init_r 0 n mem"

definition buffer_can_write :: "buffer \<Rightarrow> bool" where
  "buffer_can_write b \<longleftrightarrow> int (limit b) - int (wr b) > 0"

text \<open>The pointer returned and the number of bytes that fit after it.\<close>

definition buffer_write_ptr :: "buffer \<Rightarrow> (nat \<times> nat) option" where
  "buffer_write_ptr b = (if wr b \<le> limit b then Some (wr b, limit b - wr b) else None)"

definition buffer_can_read :: "buffer \<Rightarrow> bool" where
  "buffer_can_read b \<longleftrightarrow> int (wr b) - int (rd b) > 0"

definition buffer_read_ptr :: "buffer \<Rightarrow> (nat \<times> nat) option" where
  "buffer_read_ptr b = (if rd b \<le> wr b then Some (rd b, wr b - rd b) else None)"

definition buffer_write_adv :: "buffer \<Rightarrow> int \<Rightarrow> buffer option" where
  "buffer_write_adv b bytes =
     (if bytes > -1 then
        (let b' = b\<lparr>wr := wr b + nat bytes\<rparr> in if wr b' \<le> limit b' then Some b' else None)
      else Some b)"

text \<open>
  \<open>n\<close> is a \<open>size_t\<close>: were the read pointer past the write pointer, it would be
  a huge number and the move would leave the block.
\<close>

definition buffer_compact :: "buffer \<Rightarrow> buffer option" where
  "buffer_compact b =
     (if infLimit b = rd b then Some b
      else if rd b = wr b then Some (b\<lparr>rd := infLimit b, wr := infLimit b\<rparr>)
      else if wr b < rd b then None
      else (let n = wr b - rd b in
        do {
          d \<leftarrow> memmove (data b) (infLimit b) (rd b) n;
          Some (b\<lparr>data := d, rd := infLimit b, wr := infLimit b + n\<rparr>)
        }))"

definition buffer_read_adv :: "buffer \<Rightarrow> int \<Rightarrow> buffer option" where
  "buffer_read_adv b bytes =
     (if bytes > -1 then
        (let b' = b\<lparr>rd := rd b + nat bytes\<rparr>
         in if rd b' \<le> wr b' then (if rd b' = wr b' then buffer_compact b' else Some b') else None)
      else Some b)"

definition buffer_read :: "buffer \<Rightarrow> (byte \<times> buffer) option" where
  "buffer_read b =
     (if buffer_can_read b then
        do { ret \<leftarrow> load (data b) (rd b); b' \<leftarrow> buffer_read_adv b 1; Some (ret, b') }
      else Some (0, b))"

definition buffer_peek :: "buffer \<Rightarrow> byte option" where
  "buffer_peek b = (if buffer_can_read b then load (data b) (rd b) else Some 0)"

definition buffer_can_write_reverse :: "buffer \<Rightarrow> bool" where
  "buffer_can_write_reverse b \<longleftrightarrow> int (rd b) > 0"

definition is_reserved :: "buffer \<Rightarrow> bool" where
  "is_reserved b \<longleftrightarrow> int (rd b) - int (infLimit b) < 0"

definition buffer_write_adv_reverse :: "buffer \<Rightarrow> int \<Rightarrow> buffer option" where
  "buffer_write_adv_reverse b bytes =
     (if bytes > -1 then
        (if nat bytes \<le> rd b then Some (b\<lparr>rd := rd b - nat bytes\<rparr>) else None)
      else Some b)"

definition buffer_write_reverse :: "buffer \<Rightarrow> byte \<Rightarrow> buffer option" where
  "buffer_write_reverse b c =
     (if buffer_can_write_reverse b then
        do { b' \<leftarrow> buffer_write_adv_reverse b 1;
             d \<leftarrow> store (data b') (rd b') c;
             Some (b'\<lparr>data := d\<rparr>) }
      else Some b)"

definition buffer_write :: "buffer \<Rightarrow> byte \<Rightarrow> buffer option" where
  "buffer_write b c =
     (if buffer_can_write b then
        do { d \<leftarrow> store (data b) (wr b) c; buffer_write_adv (b\<lparr>data := d\<rparr>) 1 }
      else Some b)"

section \<open>Invariant and list view\<close>

text \<open>
  The header's invariant \<open>R \<le> W \<le> limit\<close>, with the reserved zone: writing never
  happens below \<open>infLimit\<close>, and an empty buffer has been rewound to \<open>infLimit\<close>
  (the automatic compaction of \<open>buffer_read_adv\<close>).
\<close>

definition buf_inv :: "buffer \<Rightarrow> bool" where
  "buf_inv b \<longleftrightarrow> rd b \<le> wr b \<and> infLimit b \<le> wr b \<and> wr b \<le> limit b
     \<and> limit b \<le> length (data b) \<and> (rd b = wr b \<longrightarrow> rd b = infLimit b)"

definition pending :: "buffer \<Rightarrow> byte list" where
  "pending b = take (wr b - rd b) (drop (rd b) (data b))"

text \<open>How many of the pending bytes lie in the reserved zone.\<close>

definition resv :: "buffer \<Rightarrow> nat" where
  "resv b = infLimit b - rd b"

definition room :: "buffer \<Rightarrow> nat" where
  "room b = limit b - wr b"

text \<open>The effect of a successful read, write and reverse write, as total functions.\<close>

definition adv1 :: "buffer \<Rightarrow> buffer" where
  "adv1 b = (if Suc (rd b) = wr b then b\<lparr>rd := infLimit b, wr := infLimit b\<rparr>
             else b\<lparr>rd := Suc (rd b)\<rparr>)"

definition push :: "buffer \<Rightarrow> byte \<Rightarrow> buffer" where
  "push b c = (if wr b < limit b then b\<lparr>data := (data b)[wr b := c], wr := Suc (wr b)\<rparr> else b)"

definition unread :: "buffer \<Rightarrow> byte \<Rightarrow> buffer" where
  "unread b c = (if 0 < rd b then b\<lparr>data := (data b)[rd b - 1 := c], rd := rd b - 1\<rparr> else b)"

definition pushes :: "buffer \<Rightarrow> byte list \<Rightarrow> buffer" where
  "pushes b xs = foldl push b xs"

definition unreads :: "buffer \<Rightarrow> byte list \<Rightarrow> buffer" where
  "unreads b xs = foldr (\<lambda>c b. unread b c) xs b"

named_theorems buf_eqs \<open>the operations as equations over the list view\<close>

named_theorems buf_view \<open>the list view after each effect\<close>

lemma buf_invD:
  assumes "buf_inv b"
  shows "rd b \<le> wr b" "infLimit b \<le> wr b" "wr b \<le> limit b" "limit b \<le> length (data b)"
    "rd b = wr b \<Longrightarrow> rd b = infLimit b"
  using assms by (auto simp: buf_inv_def)

lemma buf_inv_init_r: "n0 \<le> n \<Longrightarrow> n \<le> length mem \<Longrightarrow> buf_inv (buffer_init_r n0 n mem)"
  by (simp add: buf_inv_def buffer_init_r_def buffer_reset_def)

lemma init_r_view:
  "pending (buffer_init_r n0 n mem) = []" "resv (buffer_init_r n0 n mem) = 0"
  "room (buffer_init_r n0 n mem) = n - n0" "infLimit (buffer_init_r n0 n mem) = n0"
  by (simp_all add: pending_def resv_def room_def buffer_init_r_def buffer_reset_def)

lemma pending_length: "buf_inv b \<Longrightarrow> length (pending b) = wr b - rd b"
  by (auto simp: pending_def buf_inv_def)

lemma pending_Nil: "buf_inv b \<Longrightarrow> pending b = [] \<longleftrightarrow> rd b = wr b"
  by (auto simp: pending_def buf_inv_def)

lemma pending_Nil_rewound: "buf_inv b \<Longrightarrow> pending b = [] \<Longrightarrow> rd b = infLimit b"
  by (auto simp: pending_Nil buf_inv_def)

lemma pending_Cons:
  assumes "buf_inv b" and "rd b < wr b"
  shows "pending b = data b ! rd b # take (wr b - Suc (rd b)) (drop (Suc (rd b)) (data b))"
  using assms by (simp add: pending_def buf_inv_def take_drop_nth)

lemma pending_hd: "buf_inv b \<Longrightarrow> rd b < wr b \<Longrightarrow> data b ! rd b = hd (pending b)"
  by (simp add: pending_Cons)

lemma resv_le_pending: "buf_inv b \<Longrightarrow> resv b \<le> length (pending b)"
  by (auto simp: pending_length resv_def buf_inv_def)

lemma can_read_iff: "buf_inv b \<Longrightarrow> buffer_can_read b \<longleftrightarrow> pending b \<noteq> []"
  by (auto simp: buffer_can_read_def pending_Nil buf_inv_def)

lemma is_reserved_iff: "is_reserved b \<longleftrightarrow> resv b \<noteq> 0"
  by (auto simp: is_reserved_def resv_def)


section \<open>One equation per operation\<close>

lemma buffer_peek_eq [buf_eqs]:
  "buf_inv b \<Longrightarrow> buffer_peek b = Some (if pending b = [] then 0 else hd (pending b))"
  by (auto simp: buffer_peek_def can_read_iff pending_Nil pending_hd buf_inv_def)

lemma buffer_read_empty [buf_eqs]:
  "buf_inv b \<Longrightarrow> pending b = [] \<Longrightarrow> buffer_read b = Some (0, b)"
  by (simp add: buffer_read_def can_read_iff)

lemma buffer_read_eq [buf_eqs]:
  "buf_inv b \<Longrightarrow> pending b \<noteq> [] \<Longrightarrow> buffer_read b = Some (hd (pending b), adv1 b)"
  by (auto simp: buffer_read_def can_read_iff pending_Nil pending_hd buffer_read_adv_def
      buffer_compact_def adv1_def buf_inv_def load_def Let_def)

lemma buffer_write_eq [buf_eqs]: "buf_inv b \<Longrightarrow> buffer_write b c = Some (push b c)"
  by (auto simp: buffer_write_def buffer_can_write_def buffer_write_adv_def push_def
      buf_inv_def store_def Let_def)

lemma buffer_write_reverse_eq [buf_eqs]:
  "buf_inv b \<Longrightarrow> buffer_write_reverse b c = Some (unread b c)"
  by (auto simp: buffer_write_reverse_def buffer_can_write_reverse_def
      buffer_write_adv_reverse_def unread_def buf_inv_def store_def)

section \<open>The effects over the list view\<close>

lemma adv1_inv [simp]: "buf_inv b \<Longrightarrow> pending b \<noteq> [] \<Longrightarrow> buf_inv (adv1 b)"
  by (auto simp: pending_Nil adv1_def buf_inv_def)

lemma pending_adv1 [buf_view]: "buf_inv b \<Longrightarrow> pending b \<noteq> [] \<Longrightarrow> pending (adv1 b) = tl (pending b)"
proof -
  assume I: "buf_inv b" and ne: "pending b \<noteq> []"
  then have lt: "rd b < wr b" by (auto simp: pending_Nil buf_inv_def)
  show ?thesis
  proof (cases "Suc (rd b) = wr b")
    case True
    with I lt show ?thesis by (simp add: pending_Cons) (simp add: pending_def adv1_def)
  next
    case False
    with I lt show ?thesis by (simp add: pending_Cons) (simp add: pending_def adv1_def)
  qed
qed

lemma resv_adv1 [buf_view]: "buf_inv b \<Longrightarrow> pending b \<noteq> [] \<Longrightarrow> resv (adv1 b) = resv b - 1"
  by (auto simp: pending_Nil adv1_def resv_def buf_inv_def)

lemma adv1_fields [buf_view]:
  "infLimit (adv1 b) = infLimit b" "limit (adv1 b) = limit b" "data (adv1 b) = data b"
  by (simp_all add: adv1_def)

lemma push_inv [simp]: "buf_inv b \<Longrightarrow> buf_inv (push b c)"
  by (auto simp: push_def buf_inv_def)

lemma push_fields [buf_view]:
  "infLimit (push b c) = infLimit b" "limit (push b c) = limit b" "rd (push b c) = rd b"
  "resv (push b c) = resv b"
  by (simp_all add: push_def resv_def)

lemma room_push [buf_view]: "room (push b c) = room b - 1"
  by (auto simp: push_def room_def)

lemma pending_push [buf_view]:
  assumes "buf_inv b"
  shows "pending (push b c) = pending b @ take (room b) [c]"
proof (cases "wr b < limit b")
  case True
  note I = buf_invD [OF assms]
  have lt: "wr b < length (data b)" using True I by simp
  have "Suc (wr b) - rd b = Suc (wr b - rd b)" using I by simp
  moreover have "wr b - rd b < length (drop (rd b) ((data b)[wr b := c]))" using lt I by simp
  ultimately have "take (Suc (wr b) - rd b) (drop (rd b) ((data b)[wr b := c]))
      = take (wr b - rd b) (drop (rd b) ((data b)[wr b := c])) @ [drop (rd b) ((data b)[wr b := c]) ! (wr b - rd b)]"
    by (simp add: take_Suc_conv_app_nth)
  moreover have "drop (rd b) ((data b)[wr b := c]) ! (wr b - rd b) = c"
    using lt I by simp
  moreover have "take (wr b - rd b) (drop (rd b) ((data b)[wr b := c])) = pending b"
    using I by (simp add: pending_def drop_update_swap)
  ultimately show ?thesis
    using True by (cases "limit b - wr b") (simp_all add: push_def pending_def room_def)
qed (simp add: push_def room_def)

lemma unread_inv [simp]: "buf_inv b \<Longrightarrow> buf_inv (unread b c)"
  by (auto simp: unread_def buf_inv_def)

lemma unread_fields [buf_view]:
  "infLimit (unread b c) = infLimit b" "limit (unread b c) = limit b"
  "rd (unread b c) = rd b - 1" "wr (unread b c) = wr b" "room (unread b c) = room b"
  by (auto simp: unread_def room_def)

lemma pending_unread [buf_view]:
  assumes "buf_inv b"
  shows "pending (unread b c) = (if 0 < rd b then c # pending b else pending b)"
proof (cases "0 < rd b")
  case True
  note I = buf_invD [OF assms]
  have "take (wr b - (rd b - 1)) (drop (rd b - 1) ((data b)[rd b - 1 := c]))
      = (data b)[rd b - 1 := c] ! (rd b - 1) # take (wr b - Suc (rd b - 1)) (drop (Suc (rd b - 1)) ((data b)[rd b - 1 := c]))"
    using True I by (intro take_drop_nth) auto
  with True I show ?thesis
    by (simp add: unread_def pending_def drop_update_cancel)
qed (simp add: unread_def)

lemma resv_unread [buf_view]:
  "resv (unread b c) = (if 0 < rd b \<and> rd b \<le> infLimit b then Suc (resv b) else resv b)"
  by (auto simp: unread_def resv_def)

text \<open>Writing a list, forwards and backwards.\<close>

lemma pushes_Nil [simp]: "pushes b [] = b"
  by (simp add: pushes_def)

lemma pushes_Cons: "pushes b (x # xs) = pushes (push b x) xs"
  by (simp add: pushes_def)

lemma pushes_append: "pushes b (xs @ ys) = pushes (pushes b xs) ys"
  by (simp add: pushes_def)

lemma pushes_inv [simp]: "buf_inv b \<Longrightarrow> buf_inv (pushes b xs)"
  by (induction xs arbitrary: b) (simp_all add: pushes_Cons)

lemma pushes_fields [buf_view]:
  "infLimit (pushes b xs) = infLimit b" "limit (pushes b xs) = limit b" "rd (pushes b xs) = rd b"
  "resv (pushes b xs) = resv b"
  by (induction xs arbitrary: b) (simp_all add: pushes_Cons buf_view)

lemma room_pushes [buf_view]: "room (pushes b xs) = room b - length xs"
  by (induction xs arbitrary: b) (simp_all add: pushes_Cons buf_view)

lemma pending_pushes [buf_view]:
  "buf_inv b \<Longrightarrow> pending (pushes b xs) = pending b @ take (room b) xs"
proof (induction xs arbitrary: b)
  case (Cons x xs)
  then show ?case
    by (cases "room b") (simp_all add: pushes_Cons buf_view)
qed simp

lemma unreads_Nil [simp]: "unreads b [] = b"
  by (simp add: unreads_def)

lemma unreads_Cons: "unreads b (x # xs) = unread (unreads b xs) x"
  by (simp add: unreads_def)

lemma unreads_snoc: "unreads b (xs @ [x]) = unreads (unread b x) xs"
  by (simp add: unreads_def)

lemma unreads_append: "unreads b (xs @ ys) = unreads (unreads b ys) xs"
  by (simp add: unreads_def)

lemma unreads_inv [simp]: "buf_inv b \<Longrightarrow> buf_inv (unreads b xs)"
  by (induction xs) (simp_all add: unreads_Cons)

lemma unreads_fields [buf_view]:
  "infLimit (unreads b xs) = infLimit b" "limit (unreads b xs) = limit b"
  "rd (unreads b xs) = rd b - length xs" "wr (unreads b xs) = wr b" "room (unreads b xs) = room b"
  by (induction xs) (simp_all add: unreads_Cons buf_view)

lemma pending_unreads [buf_view]:
  "buf_inv b \<Longrightarrow> pending (unreads b xs) = drop (length xs - rd b) xs @ pending b"
proof (induction xs)
  case (Cons x xs)
  then show ?case
    by (cases "length xs < rd b") (simp_all add: unreads_Cons buf_view Suc_diff_le)
qed simp

lemma resv_unreads [buf_view]:
  "rd b \<le> infLimit b \<Longrightarrow> resv (unreads b xs) = resv b + min (length xs) (rd b)"
  by (auto simp: resv_def buf_view)


section \<open>Block transfers and compaction\<close>

text \<open>
  The handlers fill a buffer with \<open>read(fd, ptr, space)\<close> and \<open>buffer_write_adv\<close>, and drain it
  with \<open>write(fd, ptr, size)\<close> and \<open>buffer_read_adv\<close>.
\<close>

definition skip :: "nat \<Rightarrow> buffer \<Rightarrow> buffer" where
  "skip n b = (if rd b + n = wr b then b\<lparr>rd := infLimit b, wr := infLimit b\<rparr> else b\<lparr>rd := rd b + n\<rparr>)"

lemma buffer_read_adv_eq [buf_eqs]:
  "buf_inv b \<Longrightarrow> n \<le> length (pending b) \<Longrightarrow> buffer_read_adv b (int n) = Some (skip n b)"
  by (auto simp: buffer_read_adv_def buffer_compact_def skip_def pending_length buf_inv_def Let_def)

lemma skip_inv [simp]: "buf_inv b \<Longrightarrow> n \<le> length (pending b) \<Longrightarrow> buf_inv (skip n b)"
  by (auto simp: skip_def pending_length buf_inv_def)

lemma pending_skip [buf_view]:
  "buf_inv b \<Longrightarrow> n \<le> length (pending b) \<Longrightarrow> pending (skip n b) = drop n (pending b)"
  by (auto simp: skip_def pending_length) (auto simp: pending_def drop_take add.commute)

lemma resv_skip [buf_view]:
  "buf_inv b \<Longrightarrow> n \<le> length (pending b) \<Longrightarrow> resv (skip n b) = resv b - n"
  by (auto simp: skip_def resv_def pending_length buf_inv_def)

text \<open>The bytes \<open>xs\<close> arrive at the write pointer.\<close>

definition fill :: "buffer \<Rightarrow> byte list \<Rightarrow> buffer option" where
  "fill b xs =
     do {
       (ptr, nbyte) \<leftarrow> buffer_write_ptr b;
       d \<leftarrow> store_block (data b) ptr xs;
       buffer_write_adv (b\<lparr>data := d\<rparr>) (int (length xs))
     }"

lemma pushes_closed:
  "buf_inv b \<Longrightarrow> length xs \<le> room b \<Longrightarrow>
     pushes b xs = b\<lparr>data := take (wr b) (data b) @ xs @ drop (wr b + length xs) (data b), wr := wr b + length xs\<rparr>"
proof (induction xs arbitrary: b)
  case (Cons x xs)
  then have w: "wr b < limit b" "limit b \<le> length (data b)" by (auto simp: room_def buf_inv_def)
  let ?b = "push b x"
  have b: "?b = b\<lparr>data := (data b)[wr b := x], wr := Suc (wr b)\<rparr>" using w by (simp add: push_def)
  have "take (Suc (wr b)) ((data b)[wr b := x]) = take (wr b) (data b) @ [x]"
    using w by (simp add: take_Suc_conv_app_nth)
  moreover have "pushes ?b xs = ?b\<lparr>data := take (wr ?b) (data ?b) @ xs @ drop (wr ?b + length xs) (data ?b),
      wr := wr ?b + length xs\<rparr>"
    using Cons by (intro Cons.IH) (simp_all add: buf_view)
  ultimately show ?case by (simp add: pushes_Cons b)
qed simp

lemma fill_eq [buf_eqs]: "buf_inv b \<Longrightarrow> length xs \<le> room b \<Longrightarrow> fill b xs = Some (pushes b xs)"
  by (auto simp: fill_def buffer_write_ptr_def store_block_def buffer_write_adv_def pushes_closed
      room_def buf_inv_def Let_def)

text \<open>Bytes put after the write pointer become pending; what lies after them does not matter.\<close>

lemma pending_overlay:
  assumes I: "buf_inv b" and n: "length (xs @ zs) \<le> room b"
  shows "pending (b\<lparr>data := overlay (wr b) (xs @ zs) (data b), wr := wr b + length xs\<rparr>) = pending b @ xs"
proof -
  note i = buf_invD [OF I]
  have "drop (rd b) (overlay (wr b) (xs @ zs) (data b)) =
      drop (rd b) (take (wr b) (data b)) @ xs @ zs @ drop (wr b + length (xs @ zs)) (data b)"
    using i by (simp add: overlay_def)
  moreover have "wr b + length xs - rd b = length (drop (rd b) (take (wr b) (data b))) + length xs" using i by simp
  ultimately have "take (wr b + length xs - rd b) (drop (rd b) (overlay (wr b) (xs @ zs) (data b))) =
      drop (rd b) (take (wr b) (data b)) @ xs"
    by (simp only: take_append) simp
  then show ?thesis using i by (simp add: pending_def drop_take)
qed

lemma overlay_inv:
  "buf_inv b \<Longrightarrow> length (xs @ zs) \<le> room b \<Longrightarrow>
    buf_inv (b\<lparr>data := overlay (wr b) (xs @ zs) (data b), wr := wr b + length xs\<rparr>)"
  by (auto simp: buf_inv_def room_def)

section \<open>The interface: a bounded channel of bytes\<close>

text \<open>What the clients of a buffer rely on: \<open>put\<close> appends while there is space, \<open>get\<close> takes the first.\<close>

primrec put_all :: "('b \<Rightarrow> 'c \<Rightarrow> 'b option) \<Rightarrow> 'b \<Rightarrow> 'c list \<Rightarrow> 'b option" where
  "put_all put b [] = Some b"
| "put_all put b (x # xs) = Option.bind (put b x) (\<lambda>b'. put_all put b' xs)"

primrec get_all :: "('b \<Rightarrow> ('c \<times> 'b) option) \<Rightarrow> nat \<Rightarrow> 'b \<Rightarrow> ('c list \<times> 'b) option" where
  "get_all get 0 b = Some ([], b)"
| "get_all get (Suc n) b =
     Option.bind (get b) (\<lambda>(x, b'). Option.bind (get_all get n b') (\<lambda>(xs, b''). Some (x # xs, b'')))"

locale byte_channel =
  fixes put :: "'b \<Rightarrow> 'c \<Rightarrow> 'b option"
    and get :: "'b \<Rightarrow> ('c \<times> 'b) option"
    and contents :: "'b \<Rightarrow> 'c list"
    and space :: "'b \<Rightarrow> nat"
    and ok :: "'b \<Rightarrow> bool"
  assumes put_law: "ok b \<Longrightarrow> \<exists>b'. put b x = Some b' \<and> ok b'
      \<and> contents b' = contents b @ take (space b) [x] \<and> space b' = space b - 1"
    and get_law: "ok b \<Longrightarrow> contents b = x # xs \<Longrightarrow> \<exists>b'. get b = Some (x, b') \<and> ok b' \<and> contents b' = xs"
begin

lemma put_all_contents:
  "ok b \<Longrightarrow> \<exists>b'. put_all put b xs = Some b' \<and> ok b' \<and> contents b' = contents b @ take (space b) xs"
proof (induction xs arbitrary: b)
  case (Cons x xs)
  obtain b1 where b1: "put b x = Some b1" "ok b1" "contents b1 = contents b @ take (space b) [x]"
    "space b1 = space b - 1"
    using put_law [OF Cons.prems] by blast
  obtain b2 where "put_all put b1 xs = Some b2" "ok b2" "contents b2 = contents b1 @ take (space b1) xs"
    using Cons.IH [OF b1(2)] by blast
  with b1 show ?case by (cases "space b") auto
qed simp

lemma get_all_contents:
  "ok b \<Longrightarrow> contents b = xs @ ys \<Longrightarrow> \<exists>b'. get_all get (length xs) b = Some (xs, b') \<and> ok b' \<and> contents b' = ys"
proof (induction xs arbitrary: b)
  case (Cons x xs)
  obtain b1 where b1: "get b = Some (x, b1)" "ok b1" "contents b1 = xs @ ys"
    using get_law [OF Cons.prems(1), of x "xs @ ys"] Cons.prems(2) by auto
  from Cons.IH [OF b1(2,3)] b1(1) show ?case by auto
qed simp

text \<open>First in, first out, and nothing invented: what is put beyond the space is dropped.\<close>

lemma fifo:
  assumes "ok b" and "contents b = []"
  shows "\<exists>b1 b2. put_all put b xs = Some b1
    \<and> get_all get (min (space b) (length xs)) b1 = Some (take (space b) xs, b2) \<and> contents b2 = []"
proof -
  obtain b1 where b1: "put_all put b xs = Some b1" "ok b1" "contents b1 = take (space b) xs"
    using put_all_contents [OF assms(1), of xs] assms(2) by auto
  have "length (take (space b) xs) = min (space b) (length xs)" by (simp add: min.commute)
  with get_all_contents [OF b1(2), of "take (space b) xs" "[]"] b1 show ?thesis by auto
qed

end

interpretation buf: byte_channel buffer_write buffer_read pending room buf_inv
proof
  show "\<exists>b'. buffer_write b x = Some b' \<and> buf_inv b' \<and> pending b' = pending b @ take (room b) [x]
      \<and> room b' = room b - 1" if "buf_inv b" for b x
    using that by (simp add: buf_eqs buf_view)
  show "\<exists>b'. buffer_read b = Some (x, b') \<and> buf_inv b' \<and> pending b' = xs"
    if "buf_inv b" "pending b = x # xs" for b x xs
    using that by (simp add: buf_eqs buf_view)
qed

section \<open>Properties\<close>

text \<open>
  No operation on a buffer that satisfies the header's invariant fails an assertion or touches memory
  outside the block, and each leaves the invariant true: reading, peeking, writing, writing in reverse, and
  advancing either pointer by as many bytes as are there.
\<close>

theorem buffer_ops_safe:
  assumes "buf_inv b"
  shows "(\<exists>x b'. buffer_read b = Some (x, b') \<and> buf_inv b')
    \<and> (\<exists>x. buffer_peek b = Some x)
    \<and> (\<exists>b'. buffer_write b c = Some b' \<and> buf_inv b')
    \<and> (\<exists>b'. buffer_write_reverse b c = Some b' \<and> buf_inv b')
    \<and> (\<forall>n \<le> length (pending b). \<exists>b'. buffer_read_adv b (int n) = Some b' \<and> buf_inv b')
    \<and> (\<forall>n \<in> {1..room b}. \<exists>b'. buffer_write_adv b (int n) = Some b' \<and> buf_inv b')"
proof (intro conjI)
  show "\<exists>x b'. buffer_read b = Some (x, b') \<and> buf_inv b'"
    using assms by (cases "pending b = []") (simp_all add: buf_eqs)
  show "\<forall>n \<in> {1..room b}. \<exists>b'. buffer_write_adv b (int n) = Some b' \<and> buf_inv b'"
    using assms by (auto simp: buffer_write_adv_def room_def buf_inv_def Let_def)
qed (use assms in \<open>simp_all add: buf_eqs\<close>)

theorem buffer_ops_safe_witness:
  "buf_inv (buffer_init_r 2 6 (replicate 6 0))
    \<and> (\<exists>b'. buffer_write (buffer_init_r 2 6 (replicate 6 0)) 65 = Some b' \<and> buf_inv b')"
proof -
  have "buf_inv (buffer_init_r 2 6 (replicate 6 0))" by (rule buf_inv_init_r) simp_all
  with buffer_ops_safe [of "buffer_init_r 2 6 (replicate 6 0)" 65] show ?thesis by blast
qed

text \<open>
  C30 A buffer is a bounded first-in first-out queue: a list of bytes written to an empty buffer is read
  back in order, and what exceeds the free space (the code drops it silently) is the only loss.
\<close>

theorem buffer_fifo:
  assumes "buf_inv b" and "pending b = []"
  shows "\<exists>b1 b2. put_all buffer_write b xs = Some b1
    \<and> get_all buffer_read (min (room b) (length xs)) b1 = Some (take (room b) xs, b2) \<and> pending b2 = []"
  using assms by (rule buf.fifo)

theorem buffer_fifo_witness:
  "\<exists>b1 b2. put_all buffer_write (buffer_init_r 2 4 (replicate 4 0)) [65, 66, 67] = Some b1
    \<and> get_all buffer_read 2 b1 = Some ([65, 66], b2) \<and> pending b2 = []"
  using buffer_fifo [OF buf_inv_init_r init_r_view(1), of 2 4 "replicate 4 0" "[65, 66, 67]"]
  by (simp add: init_r_view numeral_2_eq_2)

text \<open>
  Compaction on demand keeps the pending bytes, moves them to the start of the unreserved part and turns
  everything that had been read into free space, as the header's diagram shows; it needs the
  read pointer to be out of the reserved zone.
\<close>

theorem buffer_compact_spec:
  assumes "buf_inv b" and "infLimit b \<le> rd b"
  shows "\<exists>b'. buffer_compact b = Some b' \<and> buf_inv b' \<and> pending b' = pending b
    \<and> rd b' = infLimit b \<and> room b' = room b + (rd b - infLimit b)"
proof (cases "infLimit b = rd b \<or> rd b = wr b")
  case True
  with assms show ?thesis
    by (auto simp: buffer_compact_def buf_inv_def room_def pending_def)
next
  case False
  let ?n = "wr b - rd b"
  let ?d = "take (infLimit b) (data b) @ take ?n (drop (rd b) (data b)) @ drop (infLimit b + ?n) (data b)"
  have "memmove (data b) (infLimit b) (rd b) ?n = Some ?d"
    using assms False by (auto simp: memmove_def buf_inv_def)
  moreover have "take ?n (drop (infLimit b) ?d) = pending b"
  proof -
    have "length (take (infLimit b) (data b)) = infLimit b" "length (take ?n (drop (rd b) (data b))) = ?n"
      using assms by (auto simp: buf_inv_def)
    then show ?thesis by (simp add: pending_def)
  qed
  ultimately show ?thesis
    using assms False by (auto simp: buffer_compact_def buf_inv_def room_def pending_def Let_def)
qed

theorem buffer_compact_spec_witness:
  "buf_inv \<lparr>data = [0, 1, 2, 3, 4, 5], infLimit = 1, limit = 6, rd = 3, wr = 5\<rparr>
   \<and> (\<exists>b'. buffer_compact \<lparr>data = [0, 1, 2, 3, 4, 5], infLimit = 1, limit = 6, rd = 3, wr = 5\<rparr> = Some b'
        \<and> pending b' = [3, 4] \<and> room b' = 3)"
proof -
  let ?b = "\<lparr>data = [0, 1, 2, 3, 4, 5], infLimit = 1, limit = 6, rd = 3, wr = 5\<rparr> :: buffer"
  have "buf_inv ?b" "infLimit ?b \<le> rd ?b" by (simp_all add: buf_inv_def)
  moreover from buffer_compact_spec [OF this] obtain b' where
    "buffer_compact ?b = Some b'" "pending b' = pending ?b" "room b' = room ?b + 2" by auto
  ultimately show ?thesis by (simp add: pending_def room_def)
qed

end
