(* ===== verification/MyParserUtils.thy ===== *)
theory MyParserUtils
  imports Buffer
begin

text \<open>
  \<open>proxy_http/src/myParserUtils/myParserUtils.c\<close>: the reading, matching and number routines
  both HTTP parsers are made of. A function that sets flags or numbers through pointers returns
  them after its result, in the order result, out-parameters, buffers, \<open>bEmpty\<close>.
  After the operations come closed forms over the list view of \<open>Buffer\<close>.
\<close>

section \<open>Operations\<close>

datatype httpVersion = UNDEFINED | V_1_0 | V_1_1

definition readAndWrite :: "buffer \<Rightarrow> buffer \<Rightarrow> (byte \<times> buffer \<times> buffer) option" where
  "readAndWrite b bOut =
     (let isReserved = is_reserved b in
      do {
        (c, b') \<leftarrow> buffer_read b;
        if \<not> isReserved \<and> c \<noteq> 0
        then do { bOut' \<leftarrow> buffer_write bOut c; Some (c, b', bOut') }
        else Some (c, b', bOut)
      })"

definition readAndWriteWithZero ::
  "buffer \<Rightarrow> buffer \<Rightarrow> bool \<Rightarrow> (byte \<times> buffer \<times> buffer \<times> bool) option" where
  "readAndWriteWithZero b bOut bEmpty =
     (let isReserved = is_reserved b in
      if buffer_can_read b then
        do {
          (c, b') \<leftarrow> buffer_read b;
          if \<not> isReserved
          then do { bOut' \<leftarrow> buffer_write bOut c; Some (c, b', bOut', bEmpty) }
          else Some (c, b', bOut, bEmpty)
        }
      else Some (0, b, bOut, True))"

definition moveThroughSpaces_body :: "byte \<times> buffer \<Rightarrow> (bool \<times> byte \<times> buffer) option" where
  "moveThroughSpaces_body s =
     (case s of (_, b) \<Rightarrow>
      do {
        c \<leftarrow> buffer_peek b;
        if c = 32 \<or> c = 9 then do { (_, b') \<leftarrow> buffer_read b; Some (False, c, b') }
        else Some (True, c, b)
      })"

definition moveThroughSpaces :: "buffer \<Rightarrow> (byte \<times> buffer) option" where
  "moveThroughSpaces b = c_loop moveThroughSpaces_body (0, b)"

primrec writeToBuf :: "byte list \<Rightarrow> buffer \<Rightarrow> buffer option" where
  "writeToBuf [] b = Some b"
| "writeToBuf (c # cs) b = do { b' \<leftarrow> buffer_write b c; writeToBuf cs b' }"

fun writeToBufReverse :: "byte list \<Rightarrow> buffer \<Rightarrow> nat \<Rightarrow> buffer option" where
  "writeToBufReverse myBuf b 0 = Some b"
| "writeToBufReverse myBuf b (Suc n) =
     do { c \<leftarrow> load myBuf n; b' \<leftarrow> buffer_write_reverse b c; writeToBufReverse myBuf b' n }"

function writeDecLoop :: "int \<Rightarrow> buffer \<Rightarrow> buffer option" where
  "writeDecLoop number b =
     (if number > 0 then
        do { b' \<leftarrow> buffer_write_reverse b (of_int (number mod 10 + 48)); writeDecLoop (number div 10) b' }
      else Some b)"
  by pat_completeness auto
termination by (relation "measure (\<lambda>(n, b). nat n)") auto

definition writeDecToBufReverse :: "int \<Rightarrow> buffer \<Rightarrow> buffer option" where
  "writeDecToBufReverse number b =
     do {
       b' \<leftarrow> (if number = 0 then buffer_write_reverse b 48 else Some b);
       writeDecLoop number b'
     }"

definition hexCharToDec :: "byte \<Rightarrow> int" where
  "hexCharToDec c = (if isdigit c then uint c - 48 else uint (toupper c) - 65 + 10)"

definition decToHexChar :: "int \<Rightarrow> byte" where
  "decToHexChar c = (if c < 10 then of_int (c + 48) else of_int (c + 65 - 10))"

function writeHexLoop :: "int \<Rightarrow> buffer \<Rightarrow> buffer option" where
  "writeHexLoop number b =
     (if number > 0 then
        do { b' \<leftarrow> buffer_write_reverse b (decToHexChar (number mod 16)); writeHexLoop (number div 16) b' }
      else Some b)"
  by pat_completeness auto
termination by (relation "measure (\<lambda>(n, b). nat n)") auto

definition writeHexToBufReverse :: "int \<Rightarrow> buffer \<Rightarrow> buffer option" where
  "writeHexToBufReverse number b =
     do {
       b' \<leftarrow> (if number = 0 then buffer_write_reverse b 48 else Some b);
       writeHexLoop number b'
     }"

declare writeDecLoop.simps [simp del] writeHexLoop.simps [simp del]

definition writeToTransfBuf_body ::
  "int \<times> buffer \<times> buffer \<Rightarrow> (bool \<times> int \<times> buffer \<times> buffer) option" where
  "writeToTransfBuf_body s =
     (case s of (auxQuantity, b, bOut) \<Rightarrow>
      if auxQuantity > 0 then
        do {
          (c, b', bOut') \<leftarrow> readAndWrite b bOut;
          if c = 0 then Some (True, auxQuantity, b', bOut')
          else Some (False, auxQuantity - 1, b', bOut')
        }
      else Some (True, auxQuantity, b, bOut))"

definition writeToTransfBuf :: "buffer \<Rightarrow> buffer \<Rightarrow> int \<Rightarrow> (bool \<times> int \<times> buffer \<times> buffer) option" where
  "writeToTransfBuf b bOut quantity =
     do {
       (auxQuantity, b', bOut') \<leftarrow> c_loop writeToTransfBuf_body (quantity, b, bOut);
       Some (auxQuantity \<le> 0, auxQuantity, b', bOut')
     }"

definition writeToTransfBufWithZero_body ::
  "int \<times> buffer \<times> buffer \<times> bool \<Rightarrow> (bool \<times> int \<times> buffer \<times> buffer \<times> bool) option" where
  "writeToTransfBufWithZero_body s =
     (case s of (auxQuantity, b, bOut, bEmpty) \<Rightarrow>
      if auxQuantity > 0 then
        do {
          (_, b', bOut', bEmpty') \<leftarrow> readAndWriteWithZero b bOut bEmpty;
          if bEmpty' then Some (True, auxQuantity, b', bOut', bEmpty')
          else Some (False, auxQuantity - 1, b', bOut', bEmpty')
        }
      else Some (True, auxQuantity, b, bOut, bEmpty))"

definition writeToTransfBufWithZero ::
  "buffer \<Rightarrow> buffer \<Rightarrow> int \<Rightarrow> bool \<Rightarrow> (bool \<times> int \<times> buffer \<times> buffer \<times> bool) option" where
  "writeToTransfBufWithZero b bOut quantity bEmpty =
     do {
       (auxQuantity, b', bOut', bEmpty') \<leftarrow>
         c_loop writeToTransfBufWithZero_body (quantity, b, bOut, bEmpty);
       Some (auxQuantity \<le> 0, auxQuantity, b', bOut', bEmpty')
     }"

definition writePrefix :: "buffer \<Rightarrow> byte list \<Rightarrow> buffer option" where
  "writePrefix b prefix = writeToBufReverse prefix b (length prefix)"

text \<open>
  The loop of \<open>matchFormat\<close> over what is left of the format; \<open>i\<close> counts the matched
  characters and \<open>c\<close> is the last character peeked at.
\<close>

fun matchFormat_loop ::
  "byte list \<Rightarrow> nat \<Rightarrow> byte \<Rightarrow> buffer \<Rightarrow> buffer \<Rightarrow> (nat \<times> byte \<times> buffer \<times> buffer) option" where
  "matchFormat_loop [] i c b bOut = Some (i, c, b, bOut)"
| "matchFormat_loop (f # fs) i c b bOut =
     do {
       p \<leftarrow> buffer_peek b;
       if toupper p \<noteq> toupper f then Some (i, toupper p, b, bOut)
       else do {
         (_, b', bOut') \<leftarrow> readAndWrite b bOut;
         matchFormat_loop fs (Suc i) (toupper p) b' bOut'
       }
     }"

text \<open>
  \<open>c\<close> is uninitialised in the source before the loop; it is read only when the format has
  a character left, after the loop has assigned it.
\<close>

definition matchFormat ::
  "byte list \<Rightarrow> buffer \<Rightarrow> buffer \<Rightarrow> byte list \<Rightarrow> bool \<Rightarrow> (bool \<times> buffer \<times> buffer \<times> bool) option" where
  "matchFormat format b bOut prefix bEmpty =
     do {
       (i, c, b1, bOut1) \<leftarrow> matchFormat_loop format 0 0 b bOut;
       if i < length format \<and> c = 0 then
         do {
           b2 \<leftarrow> writeToBufReverse format b1 i;
           b3 \<leftarrow> writePrefix b2 prefix;
           Some (False, b3, bOut1, True)
         }
       else Some (i = length format, b1, bOut1, bEmpty)
     }"

fun simpleMatchFormat_loop ::
  "byte list \<Rightarrow> nat \<Rightarrow> byte \<Rightarrow> buffer \<Rightarrow> (nat \<times> byte \<times> buffer) option" where
  "simpleMatchFormat_loop [] i c b = Some (i, c, b)"
| "simpleMatchFormat_loop (f # fs) i c b =
     do {
       p \<leftarrow> buffer_peek b;
       if toupper p \<noteq> toupper f then Some (i, toupper p, b)
       else do { (_, b') \<leftarrow> buffer_read b; simpleMatchFormat_loop fs (Suc i) (toupper p) b' }
     }"

definition simpleMatchFormat ::
  "byte list \<Rightarrow> buffer \<Rightarrow> byte list \<Rightarrow> bool \<Rightarrow> (bool \<times> buffer \<times> bool) option" where
  "simpleMatchFormat format b prefix bEmpty =
     do {
       (i, c, b1) \<leftarrow> simpleMatchFormat_loop format 0 0 b;
       if i < length format \<and> c = 0 then
         do {
           b2 \<leftarrow> writeToBufReverse format b1 i;
           b3 \<leftarrow> writePrefix b2 prefix;
           Some (False, b3, True)
         }
       else Some (i = length format, b1, bEmpty)
     }"

definition getNumber_body ::
  "byte \<times> int \<times> buffer \<times> buffer \<Rightarrow> (bool \<times> byte \<times> int \<times> buffer \<times> buffer) option" where
  "getNumber_body s =
     (case s of (_, currentNum, b, bOut) \<Rightarrow>
      do {
        c \<leftarrow> buffer_peek b;
        if isdigit c then
          do {
            (_, b', bOut') \<leftarrow> readAndWrite b bOut;
            Some (False, c, c_int (c_int (10 * currentNum) + (uint c - 48)), b', bOut')
          }
        else Some (True, c, currentNum, b, bOut)
      })"

definition getNumber ::
  "int \<Rightarrow> buffer \<Rightarrow> buffer \<Rightarrow> byte list \<Rightarrow> bool \<Rightarrow> (bool \<times> int \<times> buffer \<times> buffer \<times> bool) option" where
  "getNumber number b bOut prefix bEmpty =
     do {
       c0 \<leftarrow> buffer_peek b;
       if c0 \<noteq> 0 \<and> \<not> isdigit c0 then Some (False, number, b, bOut, bEmpty)
       else do {
         (c, currentNum, b1, bOut1) \<leftarrow> c_loop getNumber_body (c0, 0, b, bOut);
         if c = 0 then
           do {
             b2 \<leftarrow> writeDecToBufReverse currentNum b1;
             b3 \<leftarrow> writePrefix b2 prefix;
             Some (False, number, b3, bOut1, True)
           }
         else Some (True, currentNum, b1, bOut1, bEmpty)
       }
     }"

definition getHexNumber_body ::
  "byte \<times> int \<times> buffer \<times> buffer \<Rightarrow> (bool \<times> byte \<times> int \<times> buffer \<times> buffer) option" where
  "getHexNumber_body s =
     (case s of (_, currentNum, b, bOut) \<Rightarrow>
      do {
        c \<leftarrow> buffer_peek b;
        if isxdigit c then
          do {
            (_, b', bOut') \<leftarrow> readAndWrite b bOut;
            Some (False, c, c_int (c_int (16 * currentNum) + hexCharToDec c), b', bOut')
          }
        else Some (True, c, currentNum, b, bOut)
      })"

definition getHexNumber ::
  "int \<Rightarrow> buffer \<Rightarrow> buffer \<Rightarrow> byte list \<Rightarrow> bool \<Rightarrow> (bool \<times> int \<times> buffer \<times> buffer \<times> bool) option" where
  "getHexNumber number b bOut prefix bEmpty =
     do {
       c0 \<leftarrow> buffer_peek b;
       if c0 \<noteq> 0 \<and> \<not> isxdigit c0 then Some (False, number, b, bOut, bEmpty)
       else do {
         (c, currentNum, b1, bOut1) \<leftarrow> c_loop getHexNumber_body (c0, 0, b, bOut);
         if c = 0 then
           do {
             b2 \<leftarrow> writeHexToBufReverse currentNum b1;
             b3 \<leftarrow> writePrefix b2 prefix;
             Some (False, number, b3, bOut1, True)
           }
         else Some (True, currentNum, b1, bOut1, bEmpty)
       }
     }"

definition simpleGetHexNumber_body ::
  "byte \<times> int \<times> buffer \<Rightarrow> (bool \<times> byte \<times> int \<times> buffer) option" where
  "simpleGetHexNumber_body s =
     (case s of (_, currentNum, b) \<Rightarrow>
      do {
        c \<leftarrow> buffer_peek b;
        if isxdigit c then
          do {
            (_, b') \<leftarrow> buffer_read b;
            Some (False, c, c_int (c_int (16 * currentNum) + hexCharToDec c), b')
          }
        else Some (True, c, currentNum, b)
      })"

definition simpleGetHexNumber ::
  "int \<Rightarrow> buffer \<Rightarrow> byte list \<Rightarrow> bool \<Rightarrow> (bool \<times> int \<times> buffer \<times> bool) option" where
  "simpleGetHexNumber number b prefix bEmpty =
     do {
       c0 \<leftarrow> buffer_peek b;
       if c0 \<noteq> 0 \<and> \<not> isxdigit c0 then Some (False, number, b, bEmpty)
       else do {
         (c, currentNum, b1) \<leftarrow> c_loop simpleGetHexNumber_body (c0, 0, b);
         if c = 0 then
           do {
             b2 \<leftarrow> writeHexToBufReverse currentNum b1;
             b3 \<leftarrow> writePrefix b2 prefix;
             Some (False, number, b3, True)
           }
         else Some (True, currentNum, b1, bEmpty)
       }
     }"

definition checkLF :: "buffer \<Rightarrow> buffer \<Rightarrow> byte list \<Rightarrow> bool \<Rightarrow> (bool \<times> buffer \<times> buffer \<times> bool) option" where
  "checkLF b bOut prefix bEmpty = matchFormat [10] b bOut prefix bEmpty"

definition checkCRLF :: "buffer \<Rightarrow> buffer \<Rightarrow> byte list \<Rightarrow> bool \<Rightarrow> (bool \<times> buffer \<times> buffer \<times> bool) option" where
  "checkCRLF b bOut prefix bEmpty = matchFormat [13, 10] b bOut prefix bEmpty"

definition simpleCheckCRLF :: "buffer \<Rightarrow> byte list \<Rightarrow> bool \<Rightarrow> (bool \<times> buffer \<times> bool) option" where
  "simpleCheckCRLF b prefix bEmpty = simpleMatchFormat [13, 10] b prefix bEmpty"

text \<open>\<open>writeToStdout\<close>: the result, what was printed and the buffer.\<close>

fun writeToStdout :: "nat \<Rightarrow> buffer \<Rightarrow> (bool \<times> byte list \<times> buffer) option" where
  "writeToStdout 0 b = Some (True, [], b)"
| "writeToStdout (Suc n) b =
     do {
       (c, b') \<leftarrow> buffer_read b;
       if c = 0 then Some (False, [], b')
       else do { (r, out, b'') \<leftarrow> writeToStdout n b'; Some (r, c # out, b'') }
     }"

end
