(* ===== verification/StreamView.thy ===== *)
theory StreamView
  imports MyParserUtils
begin

text \<open>
  Closed forms of the parser routines over the list view of a buffer: how many bytes each
  consumes, what it appends to the output buffer, what it pushes back into the reserved zone
  when the input runs out. \<open>advs n b\<close> is the buffer after reading \<open>n\<close> bytes,
  \<open>copies n b bo\<close> the output buffer after they were copied by \<open>readAndWrite\<close>:
  bytes of the reserved zone and NUL bytes are not copied.
\<close>

section \<open>Consuming and copying\<close>

definition advs :: "nat \<Rightarrow> buffer \<Rightarrow> buffer" where
  "advs n b = (adv1 ^^ n) b"

definition copied :: "nat \<Rightarrow> buffer \<Rightarrow> byte list" where
  "copied n b = filter (\<lambda>c. c \<noteq> 0) (drop (resv b) (take n (pending b)))"

definition copies :: "nat \<Rightarrow> buffer \<Rightarrow> buffer \<Rightarrow> buffer" where
  "copies n b bo = pushes bo (copied n b)"

text \<open>The byte \<open>buffer_peek\<close> shows: 0 for an empty buffer.\<close>

definition peekl :: "byte list \<Rightarrow> byte" where
  "peekl p = (if p = [] then 0 else hd p)"

lemma peekl_simps [simp]: "peekl [] = 0" "peekl (x # xs) = x"
  by (simp_all add: peekl_def)

lemma advs_0 [simp]: "advs 0 b = b"
  by (simp add: advs_def)

lemma advs_Suc: "advs (Suc n) b = advs n (adv1 b)"
  by (simp add: advs_def funpow_Suc_right del: funpow.simps)

lemma advs_inv [simp]: "buf_inv b \<Longrightarrow> n \<le> length (pending b) \<Longrightarrow> buf_inv (advs n b)"
proof (induction n arbitrary: b)
  case (Suc n)
  then have "pending b \<noteq> []" by auto
  with Suc show ?case by (simp add: advs_Suc buf_view)
qed simp

lemma pending_advs [buf_view]:
  "buf_inv b \<Longrightarrow> n \<le> length (pending b) \<Longrightarrow> pending (advs n b) = drop n (pending b)"
proof (induction n arbitrary: b)
  case (Suc n)
  then have "pending b \<noteq> []" by auto
  with Suc show ?case by (simp add: advs_Suc buf_view drop_Suc)
qed simp

lemma resv_advs [buf_view]:
  "buf_inv b \<Longrightarrow> n \<le> length (pending b) \<Longrightarrow> resv (advs n b) = resv b - n"
proof (induction n arbitrary: b)
  case (Suc n)
  then have "pending b \<noteq> []" by auto
  with Suc show ?case by (simp add: advs_Suc buf_view)
qed simp

lemma advs_fields [buf_view]: "infLimit (advs n b) = infLimit b" "limit (advs n b) = limit b"
  by (induction n arbitrary: b) (simp_all add: advs_Suc buf_view)

lemma advs_advs: "advs m (advs n b) = advs (n + m) b"
  by (induction n arbitrary: b) (simp_all add: advs_Suc)

lemma copied_0 [simp]: "copied 0 b = []"
  by (simp add: copied_def)

lemma copies_0 [simp]: "copies 0 b bo = bo"
  by (simp add: copies_def)

lemma copied_Suc:
  assumes "buf_inv b" and "pending b \<noteq> []"
  shows "copied (Suc n) b =
     (if resv b = 0 \<and> hd (pending b) \<noteq> 0 then [hd (pending b)] else []) @ copied n (adv1 b)"
proof -
  obtain x xs where p: "pending b = x # xs" using assms(2) by (cases "pending b") auto
  show ?thesis
    using assms p by (cases "resv b") (auto simp: copied_def buf_view)
qed

text \<open>One byte copied.\<close>

definition copy1 :: "buffer \<Rightarrow> buffer \<Rightarrow> buffer" where
  "copy1 b bo = (if resv b = 0 \<and> hd (pending b) \<noteq> 0 then push bo (hd (pending b)) else bo)"

lemma copy1_inv [simp]: "buf_inv bo \<Longrightarrow> buf_inv (copy1 b bo)"
  by (simp add: copy1_def)

lemma copies_Suc:
  "buf_inv b \<Longrightarrow> pending b \<noteq> [] \<Longrightarrow> copies (Suc n) b bo = copies n (adv1 b) (copy1 b bo)"
  by (simp add: copies_def copied_Suc pushes_Cons copy1_def)

lemma copied_add:
  "buf_inv b \<Longrightarrow> m + n \<le> length (pending b) \<Longrightarrow> copied (m + n) b = copied m b @ copied n (advs m b)"
proof (induction m arbitrary: b)
  case (Suc m)
  then have "pending b \<noteq> []" by auto
  with Suc show ?case by (simp add: copied_Suc advs_Suc buf_view)
qed simp

lemma copies_add:
  "buf_inv b \<Longrightarrow> m + n \<le> length (pending b) \<Longrightarrow> copies (m + n) b bo = copies n (advs m b) (copies m b bo)"
  by (simp add: copies_def copied_add pushes_append)

lemma copies_inv [simp]: "buf_inv bo \<Longrightarrow> buf_inv (copies n b bo)"
  by (simp add: copies_def)

lemma copies_fields [buf_view]:
  "infLimit (copies n b bo) = infLimit bo" "limit (copies n b bo) = limit bo" "resv (copies n b bo) = resv bo"
  by (simp_all add: copies_def buf_view)

lemma length_copied: "length (copied n b) \<le> n"
  unfolding copied_def by (rule order.trans [OF length_filter_le]) simp

section \<open>Closed forms\<close>

lemma readAndWrite_eq [buf_eqs]:
  "buf_inv b \<Longrightarrow> buf_inv bo \<Longrightarrow> pending b \<noteq> [] \<Longrightarrow>
     readAndWrite b bo = Some (hd (pending b), adv1 b, copy1 b bo)"
  by (simp add: readAndWrite_def buf_eqs is_reserved_iff copy1_def Let_def)

lemma readAndWrite_empty [buf_eqs]:
  "buf_inv b \<Longrightarrow> pending b = [] \<Longrightarrow> readAndWrite b bo = Some (0, b, bo)"
  by (simp add: readAndWrite_def buf_eqs Let_def)

text \<open>\<open>readAndWriteWithZero\<close> copies NUL bytes as well.\<close>

definition copiesz :: "nat \<Rightarrow> buffer \<Rightarrow> buffer \<Rightarrow> buffer" where
  "copiesz n b bo = pushes bo (drop (resv b) (take n (pending b)))"

lemma copiesz_0 [simp]: "copiesz 0 b bo = bo"
  by (simp add: copiesz_def)

definition copyz1 :: "buffer \<Rightarrow> buffer \<Rightarrow> buffer" where
  "copyz1 b bo = (if resv b = 0 then push bo (hd (pending b)) else bo)"

lemma copyz1_inv [simp]: "buf_inv bo \<Longrightarrow> buf_inv (copyz1 b bo)"
  by (simp add: copyz1_def)

lemma copiesz_Suc:
  assumes "buf_inv b" and "pending b \<noteq> []"
  shows "copiesz (Suc n) b bo = copiesz n (adv1 b) (copyz1 b bo)"
proof -
  obtain x xs where p: "pending b = x # xs" using assms(2) by (cases "pending b") auto
  show ?thesis
    using assms p by (cases "resv b") (auto simp: copiesz_def copyz1_def buf_view pushes_Cons)
qed

lemma copiesz_inv [simp]: "buf_inv bo \<Longrightarrow> buf_inv (copiesz n b bo)"
  by (simp add: copiesz_def)

lemma readAndWriteWithZero_eq [buf_eqs]:
  "buf_inv b \<Longrightarrow> buf_inv bo \<Longrightarrow> pending b \<noteq> [] \<Longrightarrow>
     readAndWriteWithZero b bo e = Some (hd (pending b), adv1 b, copyz1 b bo, e)"
  by (simp add: readAndWriteWithZero_def buf_eqs is_reserved_iff can_read_iff copyz1_def Let_def)

lemma readAndWriteWithZero_empty [buf_eqs]:
  "buf_inv b \<Longrightarrow> pending b = [] \<Longrightarrow> readAndWriteWithZero b bo e = Some (0, b, bo, True)"
  by (simp add: readAndWriteWithZero_def can_read_iff Let_def)

lemma writeToBuf_eq [buf_eqs]: "buf_inv b \<Longrightarrow> writeToBuf xs b = Some (pushes b xs)"
  by (induction xs arbitrary: b) (simp_all add: buf_eqs pushes_Cons)

lemma writeToBufReverse_eq [buf_eqs]:
  "buf_inv b \<Longrightarrow> n \<le> length xs \<Longrightarrow> writeToBufReverse xs b n = Some (unreads b (take n xs))"
proof (induction n arbitrary: b)
  case (Suc n)
  then show ?case by (simp add: buf_eqs take_Suc_conv_app_nth unreads_snoc)
qed simp

lemma writePrefix_eq [buf_eqs]: "buf_inv b \<Longrightarrow> writePrefix b xs = Some (unreads b xs)"
  by (simp add: writePrefix_def buf_eqs)

text \<open>Decimal and hexadecimal digits, most significant first; none for 0 and below.\<close>

function dec_digits :: "int \<Rightarrow> byte list" where
  "dec_digits n = (if n > 0 then dec_digits (n div 10) @ [of_int (n mod 10 + 48)] else [])"
  by pat_completeness auto
termination by (relation "measure nat") auto

function hex_digits :: "int \<Rightarrow> byte list" where
  "hex_digits n = (if n > 0 then hex_digits (n div 16) @ [decToHexChar (n mod 16)] else [])"
  by pat_completeness auto
termination by (relation "measure nat") auto

declare dec_digits.simps [simp del] hex_digits.simps [simp del]

definition dec_text :: "int \<Rightarrow> byte list" where
  "dec_text n = (if n = 0 then [48] else dec_digits n)"

definition hex_text :: "int \<Rightarrow> byte list" where
  "hex_text n = (if n = 0 then [48] else hex_digits n)"

lemma writeDecLoop_eq: "buf_inv b \<Longrightarrow> writeDecLoop n b = Some (unreads b (dec_digits n))"
proof (induction n b rule: writeDecLoop.induct)
  case (1 n b)
  then show ?case
    by (simp add: writeDecLoop.simps [of n b] dec_digits.simps [of n] buf_eqs unreads_snoc)
qed

lemma writeHexLoop_eq: "buf_inv b \<Longrightarrow> writeHexLoop n b = Some (unreads b (hex_digits n))"
proof (induction n b rule: writeHexLoop.induct)
  case (1 n b)
  then show ?case
    by (simp add: writeHexLoop.simps [of n b] hex_digits.simps [of n] buf_eqs unreads_snoc)
qed

lemma writeDec_eq [buf_eqs]: "buf_inv b \<Longrightarrow> writeDecToBufReverse n b = Some (unreads b (dec_text n))"
  by (simp add: writeDecToBufReverse_def writeDecLoop_eq buf_eqs dec_text_def
      dec_digits.simps [of 0] unreads_Cons)

lemma writeHex_eq [buf_eqs]: "buf_inv b \<Longrightarrow> writeHexToBufReverse n b = Some (unreads b (hex_text n))"
  by (simp add: writeHexToBufReverse_def writeHexLoop_eq buf_eqs hex_text_def
      hex_digits.simps [of 0] unreads_Cons)

declare buffer_peek_eq [buf_eqs del]

lemma peek_eq [buf_eqs]: "buf_inv b \<Longrightarrow> buffer_peek b = Some (peekl (pending b))"
  by (simp add: buffer_peek_eq peekl_def)


section \<open>Matching\<close>

text \<open>How many characters of the format the pending bytes match, ignoring case.\<close>

fun match_len :: "byte list \<Rightarrow> byte list \<Rightarrow> nat" where
  "match_len (f # fs) (x # xs) = (if toupper x = toupper f then Suc (match_len fs xs) else 0)"
| "match_len _ _ = 0"

lemma match_len_le: "match_len fs xs \<le> length fs" "match_len fs xs \<le> length xs"
  by (induction fs xs rule: match_len.induct) auto

lemma match_len_append:
  "match_len fs xs < length xs \<Longrightarrow> match_len fs (xs @ ys) = match_len fs xs"
  by (induction fs xs rule: match_len.induct) (auto split: if_splits)

lemma match_len_full: "match_len fs (fs @ ys) = length fs"
  by (induction fs) auto

lemma matchFormat_loop_eq:
  assumes "buf_inv b" and "buf_inv bo" and "0 \<notin> set fs"
  shows "\<exists>c'. matchFormat_loop fs i c b bo =
      Some (i + match_len fs (pending b), c', advs (match_len fs (pending b)) b,
            copies (match_len fs (pending b)) b bo)
    \<and> (match_len fs (pending b) < length fs
        \<longrightarrow> c' = toupper (peekl (drop (match_len fs (pending b)) (pending b))))"
  using assms
proof (induction fs arbitrary: i c b bo)
  case (Cons f fs)
  show ?case
  proof (cases "pending b")
    case Nil
    with Cons.prems show ?thesis by (auto simp: buf_eqs toupper_def)
  next
    case p: (Cons x xs)
    show ?thesis
    proof (cases "toupper x = toupper f")
      case False
      with p Cons.prems show ?thesis by (auto simp: buf_eqs)
    next
      case True
      from p Cons.prems have I: "buf_inv (adv1 b)" "buf_inv (copy1 b bo)" "pending (adv1 b) = xs"
        by (simp_all add: buf_view)
      obtain c' where IH: "matchFormat_loop fs (Suc i) (toupper x) (adv1 b) (copy1 b bo) =
            Some (Suc i + match_len fs xs, c', advs (match_len fs xs) (adv1 b),
              copies (match_len fs xs) (adv1 b) (copy1 b bo))"
          and c': "match_len fs xs < length fs \<longrightarrow> c' = toupper (peekl (drop (match_len fs xs) xs))"
        using Cons.IH [OF I(1,2), of "Suc i" "toupper x"] Cons.prems(3) I(3) by auto
      show ?thesis
        using True p Cons.prems IH c'
        by (auto simp: buf_eqs advs_Suc copies_Suc)
    qed
  qed
qed simp

text \<open>The input runs out of known bytes after \<open>k\<close> of them: end of data, or a NUL.\<close>

definition starved :: "byte list \<Rightarrow> nat \<Rightarrow> bool" where
  "starved p k \<longleftrightarrow> peekl (drop k p) = 0"

theorem matchFormat_eq [buf_eqs]:
  assumes "buf_inv b" and "buf_inv bo" and "0 \<notin> set fs"
  shows "matchFormat fs b bo pre e =
    (let k = match_len fs (pending b) in
     if k = length fs then Some (True, advs k b, copies k b bo, e)
     else if starved (pending b) k
       then Some (False, unreads (advs k b) (pre @ take k fs), copies k b bo, True)
     else Some (False, advs k b, copies k b bo, e))"
proof -
  let ?k = "match_len fs (pending b)"
  obtain c' where "matchFormat_loop fs 0 0 b bo = Some (?k, c', advs ?k b, copies ?k b bo)"
    and "?k < length fs \<longrightarrow> c' = toupper (peekl (drop ?k (pending b)))"
    using matchFormat_loop_eq [OF assms, of 0 0] by auto
  moreover have "?k \<le> length fs" "?k \<le> length (pending b)" by (rule match_len_le)+
  ultimately show ?thesis
    using assms by (auto simp: matchFormat_def buf_eqs starved_def unreads_append Let_def)
qed

lemma simpleMatchFormat_loop_eq:
  assumes "buf_inv b" and "0 \<notin> set fs"
  shows "\<exists>c'. simpleMatchFormat_loop fs i c b =
      Some (i + match_len fs (pending b), c', advs (match_len fs (pending b)) b)
    \<and> (match_len fs (pending b) < length fs
        \<longrightarrow> c' = toupper (peekl (drop (match_len fs (pending b)) (pending b))))"
  using assms
proof (induction fs arbitrary: i c b)
  case (Cons f fs)
  show ?case
  proof (cases "pending b")
    case Nil
    with Cons.prems show ?thesis by (auto simp: buf_eqs toupper_def)
  next
    case p: (Cons x xs)
    then have I: "buf_inv (adv1 b)" "pending (adv1 b) = xs"
      using Cons.prems by (simp_all add: buf_view)
    show ?thesis
      using p Cons.prems Cons.IH [OF I(1), of "Suc i" "toupper x"] I(2)
      by (auto simp: buf_eqs advs_Suc)
  qed
qed simp

theorem simpleMatchFormat_eq [buf_eqs]:
  assumes "buf_inv b" and "0 \<notin> set fs"
  shows "simpleMatchFormat fs b pre e =
    (let k = match_len fs (pending b) in
     if k = length fs then Some (True, advs k b, e)
     else if starved (pending b) k then Some (False, unreads (advs k b) (pre @ take k fs), True)
     else Some (False, advs k b, e))"
proof -
  let ?k = "match_len fs (pending b)"
  obtain c' where "simpleMatchFormat_loop fs 0 0 b = Some (?k, c', advs ?k b)"
    and "?k < length fs \<longrightarrow> c' = toupper (peekl (drop ?k (pending b)))"
    using simpleMatchFormat_loop_eq [OF assms, of 0 0] by auto
  moreover have "?k \<le> length fs" "?k \<le> length (pending b)" by (rule match_len_le)+
  ultimately show ?thesis
    using assms by (auto simp: simpleMatchFormat_def buf_eqs starved_def unreads_append Let_def)
qed

section \<open>Loops over a character class\<close>

text \<open>How many pending bytes a loop consumes whose guard is \<open>P\<close>.\<close>

definition span_len :: "(byte \<Rightarrow> bool) \<Rightarrow> byte list \<Rightarrow> nat" where
  "span_len P p = length (takeWhile P p)"

lemma span_len_simps [simp]:
  "span_len P [] = 0" "span_len P (x # xs) = (if P x then Suc (span_len P xs) else 0)"
  by (simp_all add: span_len_def)

lemma span_len_le: "span_len P p \<le> length p"
  by (simp add: span_len_def length_takeWhile_le)

lemma drop_span_len: "drop (span_len P p) p = dropWhile P p"
  unfolding span_len_def by (rule dropWhile_eq_drop [symmetric])

lemma take_span_len: "take (span_len P p) p = takeWhile P p"
  unfolding span_len_def by (rule takeWhile_eq_take [symmetric])

lemma moveThroughSpaces_loop:
  "buf_inv b \<Longrightarrow> c_loop moveThroughSpaces_body (c, b) =
     (let k = span_len (\<lambda>c. c = 32 \<or> c = 9) (pending b)
      in Some (peekl (drop k (pending b)), advs k b))"
proof (induction "length (pending b)" arbitrary: c b)
  case 0
  then show ?case by (simp add: c_loop_break moveThroughSpaces_body_def buf_eqs)
next
  case (Suc n)
  then obtain x xs where p: "pending b = x # xs" by (cases "pending b") auto
  show ?case
  proof (cases "x = 32 \<or> x = 9")
    case True
    with p Suc.prems have "moveThroughSpaces_body (c, b) = Some (False, x, adv1 b)"
      by (simp add: moveThroughSpaces_body_def buf_eqs)
    moreover from Suc p have "n = length (pending (adv1 b))" "buf_inv (adv1 b)" "pending (adv1 b) = xs"
      by (simp_all add: buf_view)
    ultimately show ?thesis
      using Suc.hyps(1) [of "adv1 b" x] True p by (simp add: c_loop_continue advs_Suc Let_def)
  next
    case False
    with p Suc.prems show ?thesis
      by (simp add: c_loop_break moveThroughSpaces_body_def buf_eqs)
  qed
qed

lemma moveThroughSpaces_eq [buf_eqs]:
  "buf_inv b \<Longrightarrow> moveThroughSpaces b =
     (let k = span_len (\<lambda>c. c = 32 \<or> c = 9) (pending b)
      in Some (peekl (drop k (pending b)), advs k b))"
  unfolding moveThroughSpaces_def by (rule moveThroughSpaces_loop)

text \<open>The number the code computes from the digits it reads, wrap-around included.\<close>

definition dec_val :: "int \<Rightarrow> byte list \<Rightarrow> int" where
  "dec_val = foldl (\<lambda>n c. c_int (c_int (10 * n) + (uint c - 48)))"

definition hex_val :: "int \<Rightarrow> byte list \<Rightarrow> int" where
  "hex_val = foldl (\<lambda>n c. c_int (c_int (16 * n) + hexCharToDec c))"

lemma val_simps [simp]:
  "dec_val n [] = n" "dec_val n (c # cs) = dec_val (c_int (c_int (10 * n) + (uint c - 48))) cs"
  "hex_val n [] = n" "hex_val n (c # cs) = hex_val (c_int (c_int (16 * n) + hexCharToDec c)) cs"
  by (simp_all add: dec_val_def hex_val_def)

lemma getNumber_loop:
  "buf_inv b \<Longrightarrow> buf_inv bo \<Longrightarrow> c_loop getNumber_body (c, n, b, bo) =
     (let k = span_len isdigit (pending b)
      in Some (peekl (drop k (pending b)), dec_val n (take k (pending b)), advs k b, copies k b bo))"
proof (induction "length (pending b)" arbitrary: c n b bo)
  case 0
  then show ?case by (simp add: c_loop_break getNumber_body_def buf_eqs isdigit_def)
next
  case (Suc m)
  then obtain x xs where p: "pending b = x # xs" by (cases "pending b") auto
  show ?case
  proof (cases "isdigit x")
    case True
    let ?n = "c_int (c_int (10 * n) + (uint x - 48))"
    from True p Suc.prems have "getNumber_body (c, n, b, bo) = Some (False, x, ?n, adv1 b, copy1 b bo)"
      by (simp add: getNumber_body_def buf_eqs)
    moreover from Suc p have "m = length (pending (adv1 b))" "buf_inv (adv1 b)" "pending (adv1 b) = xs"
      by (simp_all add: buf_view)
    ultimately show ?thesis
      using Suc.hyps(1) [of "adv1 b" "copy1 b bo" x ?n] Suc.prems True p
      by (simp add: c_loop_continue advs_Suc copies_Suc Let_def)
  next
    case False
    with p Suc.prems show ?thesis
      by (simp add: c_loop_break getNumber_body_def buf_eqs)
  qed
qed

theorem getNumber_eq [buf_eqs]:
  assumes "buf_inv b" and "buf_inv bo"
  shows "getNumber num b bo pre e =
    (let k = span_len isdigit (pending b); n = dec_val 0 (take k (pending b)) in
     if starved (pending b) k then Some (False, num, unreads (advs k b) (pre @ dec_text n), copies k b bo, True)
     else if k = 0 then Some (False, num, b, bo, e)
     else Some (True, n, advs k b, copies k b bo, e))"
proof -
  let ?p = "pending b" and ?k = "span_len isdigit (pending b)"
  have k: "?k \<le> length ?p" by (rule span_len_le)
  show ?thesis
  proof (cases ?p)
    case Nil
    with assms show ?thesis
      by (simp add: getNumber_def getNumber_loop buf_eqs starved_def unreads_append Let_def)
  next
    case (Cons x xs)
    with assms k show ?thesis
      by (auto simp: getNumber_def getNumber_loop buf_eqs starved_def unreads_append Let_def
          isdigit_nonzero)
  qed
qed


theorem getHexNumber_loop:
  "buf_inv b \<Longrightarrow> buf_inv bo \<Longrightarrow> c_loop getHexNumber_body (c, n, b, bo) =
     (let k = span_len isxdigit (pending b)
      in Some (peekl (drop k (pending b)), hex_val n (take k (pending b)), advs k b, copies k b bo))"
proof (induction "length (pending b)" arbitrary: c n b bo)
  case 0
  then show ?case by (simp add: c_loop_break getHexNumber_body_def buf_eqs isxdigit_def isdigit_def)
next
  case (Suc m)
  then obtain x xs where p: "pending b = x # xs" by (cases "pending b") auto
  show ?case
  proof (cases "isxdigit x")
    case True
    let ?n = "c_int (c_int (16 * n) + hexCharToDec x)"
    from True p Suc.prems have "getHexNumber_body (c, n, b, bo) = Some (False, x, ?n, adv1 b, copy1 b bo)"
      by (simp add: getHexNumber_body_def buf_eqs)
    moreover from Suc p have "m = length (pending (adv1 b))" "buf_inv (adv1 b)" "pending (adv1 b) = xs"
      by (simp_all add: buf_view)
    ultimately show ?thesis
      using Suc.hyps(1) [of "adv1 b" "copy1 b bo" x ?n] Suc.prems True p
      by (simp add: c_loop_continue advs_Suc copies_Suc Let_def)
  next
    case False
    with p Suc.prems show ?thesis
      by (simp add: c_loop_break getHexNumber_body_def buf_eqs)
  qed
qed

theorem getHexNumber_eq [buf_eqs]:
  assumes "buf_inv b" and "buf_inv bo"
  shows "getHexNumber num b bo pre e =
    (let k = span_len isxdigit (pending b); n = hex_val 0 (take k (pending b)) in
     if starved (pending b) k then Some (False, num, unreads (advs k b) (pre @ hex_text n), copies k b bo, True)
     else if k = 0 then Some (False, num, b, bo, e)
     else Some (True, n, advs k b, copies k b bo, e))"
proof -
  let ?p = "pending b" and ?k = "span_len isxdigit (pending b)"
  have k: "?k \<le> length ?p" by (rule span_len_le)
  show ?thesis
  proof (cases ?p)
    case Nil
    with assms show ?thesis
      by (simp add: getHexNumber_def getHexNumber_loop buf_eqs starved_def unreads_append Let_def)
  next
    case (Cons x xs)
    with assms k show ?thesis
      by (auto simp: getHexNumber_def getHexNumber_loop buf_eqs starved_def unreads_append Let_def
          isxdigit_nonzero)
  qed
qed

lemma simpleGetHexNumber_loop:
  "buf_inv b \<Longrightarrow> c_loop simpleGetHexNumber_body (c, n, b) =
     (let k = span_len isxdigit (pending b)
      in Some (peekl (drop k (pending b)), hex_val n (take k (pending b)), advs k b))"
proof (induction "length (pending b)" arbitrary: c n b)
  case 0
  then show ?case by (simp add: c_loop_break simpleGetHexNumber_body_def buf_eqs isxdigit_def isdigit_def)
next
  case (Suc m)
  then obtain x xs where p: "pending b = x # xs" by (cases "pending b") auto
  show ?case
  proof (cases "isxdigit x")
    case True
    let ?n = "c_int (c_int (16 * n) + hexCharToDec x)"
    from True p Suc.prems have "simpleGetHexNumber_body (c, n, b) = Some (False, x, ?n, adv1 b)"
      by (simp add: simpleGetHexNumber_body_def buf_eqs)
    moreover from Suc p have "m = length (pending (adv1 b))" "buf_inv (adv1 b)" "pending (adv1 b) = xs"
      by (simp_all add: buf_view)
    ultimately show ?thesis
      using Suc.hyps(1) [of "adv1 b" x ?n] Suc.prems True p
      by (simp add: c_loop_continue advs_Suc Let_def)
  next
    case False
    with p Suc.prems show ?thesis
      by (simp add: c_loop_break simpleGetHexNumber_body_def buf_eqs)
  qed
qed

theorem simpleGetHexNumber_eq [buf_eqs]:
  assumes "buf_inv b"
  shows "simpleGetHexNumber num b pre e =
    (let k = span_len isxdigit (pending b); n = hex_val 0 (take k (pending b)) in
     if starved (pending b) k then Some (False, num, unreads (advs k b) (pre @ hex_text n), True)
     else if k = 0 then Some (False, num, b, e)
     else Some (True, n, advs k b, e))"
proof -
  let ?p = "pending b" and ?k = "span_len isxdigit (pending b)"
  have k: "?k \<le> length ?p" by (rule span_len_le)
  show ?thesis
  proof (cases ?p)
    case Nil
    with assms show ?thesis
      by (simp add: simpleGetHexNumber_def simpleGetHexNumber_loop buf_eqs starved_def unreads_append Let_def)
  next
    case (Cons x xs)
    with assms k show ?thesis
      by (auto simp: simpleGetHexNumber_def simpleGetHexNumber_loop buf_eqs starved_def unreads_append Let_def
          isxdigit_nonzero)
  qed
qed

section \<open>Contracts\<close>

text \<open>
  What the parsers need of each routine for their own safety and termination: it returns, both
  buffers stay well formed, and unless the input ran out it has not grown.
\<close>

abbreviation io_ok :: "buffer \<Rightarrow> buffer \<Rightarrow> bool" where
  "io_ok b bo \<equiv> buf_inv b \<and> buf_inv bo"

lemma readAndWrite_spec:
  assumes "io_ok b bo"
  shows "\<exists>b' bo'. readAndWrite b bo = Some (peekl (pending b), b', bo') \<and> io_ok b' bo'
    \<and> pending b' = tl (pending b) \<and> limit b' = limit b"
  using assms by (cases "pending b") (auto simp: buf_eqs buf_view)

lemma matchFormat_spec:
  assumes "io_ok b bo" and "0 \<notin> set fs"
  shows "\<exists>r b' bo' e'. matchFormat fs b bo pre e = Some (r, b', bo', e') \<and> io_ok b' bo'
    \<and> (r \<longrightarrow> e' = e \<and> length (pending b') + length fs = length (pending b))
    \<and> (\<not> e' \<longrightarrow> \<not> e \<and> length (pending b') \<le> length (pending b))
    \<and> (e' \<longrightarrow> e \<or> \<not> r)"
  using assms match_len_le [of fs "pending b"]
  by (auto simp: matchFormat_eq buf_view Let_def)

lemma simpleMatchFormat_spec:
  assumes "buf_inv b" and "0 \<notin> set fs"
  shows "\<exists>r b' e'. simpleMatchFormat fs b pre e = Some (r, b', e') \<and> buf_inv b'
    \<and> (r \<longrightarrow> e' = e \<and> length (pending b') + length fs = length (pending b))
    \<and> (\<not> e' \<longrightarrow> \<not> e \<and> length (pending b') \<le> length (pending b))
    \<and> (e' \<longrightarrow> e \<or> \<not> r)"
  using assms match_len_le [of fs "pending b"]
  by (auto simp: simpleMatchFormat_eq buf_view Let_def)

lemma getNumber_spec:
  assumes "io_ok b bo"
  shows "\<exists>r n b' bo' e'. getNumber num b bo pre e = Some (r, n, b', bo', e') \<and> io_ok b' bo'
    \<and> (r \<longrightarrow> e' = e \<and> length (pending b') < length (pending b))
    \<and> (\<not> e' \<longrightarrow> \<not> e \<and> length (pending b') \<le> length (pending b))"
proof -
  let ?k = "span_len isdigit (pending b)"
  let ?n = "dec_val 0 (take ?k (pending b))"
  let ?u = "unreads (advs ?k b) (pre @ dec_text ?n)"
  have inv: "buf_inv b" "buf_inv bo" and k: "?k \<le> length (pending b)"
    using assms span_len_le by auto
  consider "starved (pending b) ?k" | "\<not> starved (pending b) ?k" "?k = 0" | "\<not> starved (pending b) ?k" "0 < ?k"
    by blast
  then show ?thesis
  proof cases
    case 1
    then have "getNumber num b bo pre e = Some (False, num, ?u, copies ?k b bo, True)"
      using inv by (simp add: getNumber_eq Let_def)
    moreover have "io_ok (?u) (copies ?k b bo)" using inv k by simp
    ultimately show ?thesis by blast
  next
    case 2
    then have "getNumber num b bo pre e = Some (False, num, b, bo, e)"
      using inv by (simp add: getNumber_eq Let_def)
    then show ?thesis using assms by blast
  next
    case 3
    then have "getNumber num b bo pre e = Some (True, ?n, advs ?k b, copies ?k b bo, e)"
      using inv by (simp add: getNumber_eq Let_def)
    moreover have "io_ok (advs ?k b) (copies ?k b bo)" "length (pending (advs ?k b)) < length (pending b)"
      using inv k 3 by (simp_all add: buf_view)
    ultimately show ?thesis by auto
  qed
qed

lemma getHexNumber_spec:
  assumes "io_ok b bo"
  shows "\<exists>r n b' bo' e'. getHexNumber num b bo pre e = Some (r, n, b', bo', e') \<and> io_ok b' bo'
    \<and> (r \<longrightarrow> e' = e \<and> length (pending b') < length (pending b))
    \<and> (\<not> e' \<longrightarrow> \<not> e \<and> length (pending b') \<le> length (pending b))"
proof -
  let ?k = "span_len isxdigit (pending b)"
  let ?n = "hex_val 0 (take ?k (pending b))"
  let ?u = "unreads (advs ?k b) (pre @ hex_text ?n)"
  have inv: "buf_inv b" "buf_inv bo" and k: "?k \<le> length (pending b)"
    using assms span_len_le by auto
  consider "starved (pending b) ?k" | "\<not> starved (pending b) ?k" "?k = 0" | "\<not> starved (pending b) ?k" "0 < ?k"
    by blast
  then show ?thesis
  proof cases
    case 1
    then have "getHexNumber num b bo pre e = Some (False, num, ?u, copies ?k b bo, True)"
      using inv by (simp add: getHexNumber_eq Let_def)
    moreover have "io_ok (?u) (copies ?k b bo)" using inv k by simp
    ultimately show ?thesis by blast
  next
    case 2
    then have "getHexNumber num b bo pre e = Some (False, num, b, bo, e)"
      using inv by (simp add: getHexNumber_eq Let_def)
    then show ?thesis using assms by blast
  next
    case 3
    then have "getHexNumber num b bo pre e = Some (True, ?n, advs ?k b, copies ?k b bo, e)"
      using inv by (simp add: getHexNumber_eq Let_def)
    moreover have "io_ok (advs ?k b) (copies ?k b bo)" "length (pending (advs ?k b)) < length (pending b)"
      using inv k 3 by (simp_all add: buf_view)
    ultimately show ?thesis by auto
  qed
qed

lemma simpleGetHexNumber_spec:
  assumes "buf_inv b"
  shows "\<exists>r n b' e'. simpleGetHexNumber num b pre e = Some (r, n, b', e') \<and> buf_inv b'
    \<and> (r \<longrightarrow> e' = e \<and> length (pending b') < length (pending b))
    \<and> (\<not> e' \<longrightarrow> \<not> e \<and> length (pending b') \<le> length (pending b))"
proof -
  let ?k = "span_len isxdigit (pending b)"
  let ?n = "hex_val 0 (take ?k (pending b))"
  let ?u = "unreads (advs ?k b) (pre @ hex_text ?n)"
  have inv: "buf_inv b" and k: "?k \<le> length (pending b)"
    using assms span_len_le by auto
  consider "starved (pending b) ?k" | "\<not> starved (pending b) ?k" "?k = 0" | "\<not> starved (pending b) ?k" "0 < ?k"
    by blast
  then show ?thesis
  proof cases
    case 1
    then have "simpleGetHexNumber num b pre e = Some (False, num, ?u, True)"
      using inv by (simp add: simpleGetHexNumber_eq Let_def)
    moreover have "buf_inv (?u)" using inv k by (simp)
    ultimately show ?thesis by blast
  next
    case 2
    then have "simpleGetHexNumber num b pre e = Some (False, num, b, e)"
      using inv by (simp add: simpleGetHexNumber_eq Let_def)
    then show ?thesis using assms by blast
  next
    case 3
    then have "simpleGetHexNumber num b pre e = Some (True, ?n, advs ?k b, e)"
      using inv by (simp add: simpleGetHexNumber_eq Let_def)
    moreover have "buf_inv (advs ?k b)" "length (pending (advs ?k b)) < length (pending b)"
      using inv k 3 by (simp_all add: buf_view)
    ultimately show ?thesis by auto
  qed
qed

lemma moveThroughSpaces_spec:
  assumes "buf_inv b"
  shows "\<exists>c b'. moveThroughSpaces b = Some (c, b') \<and> buf_inv b' \<and> c = peekl (pending b')
    \<and> length (pending b') \<le> length (pending b) \<and> c \<noteq> 32 \<and> c \<noteq> 9"
proof -
  let ?P = "\<lambda>c. c = 32 \<or> c = (9 :: byte)"
  let ?q = "dropWhile ?P (pending b)"
  have k: "span_len ?P (pending b) \<le> length (pending b)" by (rule span_len_le)
  have "peekl ?q \<noteq> 32 \<and> peekl ?q \<noteq> 9"
  proof (cases ?q)
    case (Cons x xs)
    then have "?q \<noteq> []" by simp
    then have "\<not> ?P (hd ?q)" by (rule hd_dropWhile)
    with Cons show ?thesis by simp
  next
    case Nil
    then have "peekl ?q = 0" by (simp only: peekl_simps)
    then show ?thesis by simp
  qed
  with assms k show ?thesis
    by (simp add: moveThroughSpaces_eq buf_view Let_def drop_span_len length_dropWhile_le)
qed

end
