(* ===== verification/Resume.thy ===== *)
theory Resume
  imports StreamView
begin

text \<open>
  The point of the reserved zone: a routine that runs out of input pushes what it had read back,
  and when it is called again with more input it ends as if the whole input had been there from
  the start. \<open>pushes b s\<close> is the buffer after the bytes \<open>s\<close> arrived. Two input
  buffers look the same to the parser when they hold the same bytes, as many of them reserved.
\<close>

definition same_view :: "buffer \<Rightarrow> buffer \<Rightarrow> bool" where
  "same_view b b' \<longleftrightarrow> pending b = pending b' \<and> resv b = resv b'"

text \<open>Buffers that hold a given text, for the witnesses.\<close>

definition holding :: "byte list \<Rightarrow> buffer" where
  "holding xs = pushes (buffer_init_r 20 100 (replicate 100 0)) xs"

lemma holding_view [simp]:
  "buf_inv (holding xs)" "resv (holding xs) = 0" "pending (holding xs) = take 80 xs"
  "rd (holding xs) = 20" "infLimit (holding xs) = 20" "room (holding xs) = 80 - length xs"
  by (simp_all add: holding_def buf_inv_init_r buf_view init_r_view)
    (simp add: buffer_init_r_def buffer_reset_def)

section \<open>Matching resumed\<close>

lemma match_len_split:
  "match_len fs p = length p \<Longrightarrow> match_len fs (p @ s) = length p + match_len (drop (length p) fs) s"
  by (induction fs p rule: match_len.induct) (auto split: if_splits)

lemma match_len_take: "k \<le> length fs \<Longrightarrow> match_len fs (take k fs) = k"
proof (induction fs arbitrary: k)
  case (Cons f fs)
  then show ?case by (cases k) auto
qed simp

lemma starved_nul_free: "0 \<notin> set p \<Longrightarrow> k \<le> length p \<Longrightarrow> starved p k \<longleftrightarrow> k = length p"
proof -
  assume "0 \<notin> set p" "k \<le> length p"
  moreover have "drop k p = 0 # ys \<Longrightarrow> 0 \<in> set p" for ys
    using in_set_dropD [of 0 k p] by simp
  ultimately show ?thesis by (cases "drop k p") (auto simp: starved_def)
qed

text \<open>A buffer read to its end is rewound, so what is pushed back lands in the reserved zone.\<close>

lemma drained:
  assumes "buf_inv b"
  shows "pending (advs (length (pending b)) b) = []"
    and "rd (advs (length (pending b)) b) = infLimit b"
    and "resv (advs (length (pending b)) b) = 0"
proof -
  let ?d = "advs (length (pending b)) b"
  have I: "buf_inv ?d" using assms by simp
  show p: "pending ?d = []" using assms by (simp add: buf_view)
  show r: "rd ?d = infLimit b" using pending_Nil_rewound [OF I p] by (simp add: buf_view)
  show "resv ?d = 0" using r by (simp add: resv_def buf_view)
qed

lemma pushed_back:
  assumes "buf_inv b" and "length xs \<le> infLimit b"
  defines "d \<equiv> unreads (advs (length (pending b)) b) xs"
  shows "buf_inv d" and "pending d = xs" and "resv d = length xs" and "room b \<le> room d"
proof -
  let ?e = "advs (length (pending b)) b"
  note D = drained [OF assms(1)]
  have I: "buf_inv ?e" using assms(1) by simp
  show "buf_inv d" using I by (simp add: d_def)
  show "pending d = xs" using I D assms(2) by (simp add: d_def buf_view)
  show "resv d = length xs" using I D assms(2) by (simp add: d_def buf_view)
  have "wr ?e = infLimit b"
    using I D(1,2) by (simp add: pending_Nil)
  then show "room b \<le> room d"
    using buf_invD [OF assms(1)] by (simp add: d_def room_def buf_view)
qed

lemma pushes_drained_view:
  assumes "buf_inv b" and "length s \<le> room b"
  shows "pending (pushes b s) = pending b @ s"
  using assms by (simp add: buf_view)

lemma copied_all:
  "0 \<notin> set (pending b) \<Longrightarrow> copied (length (pending b)) b = drop (resv b) (pending b)"
  by (auto simp: copied_def filter_id_conv dest: in_set_dropD)


lemma matchFormat_starves:
  assumes "buf_inv b" "buf_inv bo" "0 \<notin> set fs" "0 \<notin> set (pending b)"
    and "matchFormat fs b bo pre False = Some (r, b1, bo1, True)"
  shows "match_len fs (pending b) = length (pending b)" "length (pending b) < length fs" "\<not> r"
    "b1 = unreads (advs (length (pending b)) b) (pre @ take (length (pending b)) fs)"
    "bo1 = copies (length (pending b)) b bo"
proof -
  let ?k = "match_len fs (pending b)"
  have k: "?k \<le> length fs" "?k \<le> length (pending b)" by (rule match_len_le)+
  from assms(5) have st: "?k \<noteq> length fs" "starved (pending b) ?k"
    using assms by (auto simp: matchFormat_eq Let_def split: if_splits)
  then show kp: "?k = length (pending b)" using k assms(4) by (simp add: starved_nul_free)
  with st k show "length (pending b) < length fs" by simp
  show "\<not> r" "b1 = unreads (advs (length (pending b)) b) (pre @ take (length (pending b)) fs)"
    "bo1 = copies (length (pending b)) b bo"
    using assms st kp by (auto simp: matchFormat_eq Let_def)
qed

lemma copied_split:
  assumes "buf_inv b" and "length s \<le> room b" and "0 \<notin> set (pending b)" and "length (pending b) \<le> k"
  shows "copied k (pushes b s)
    = copied (length (pending b)) b @ filter (\<lambda>c. c \<noteq> 0) (take (k - length (pending b)) s)"
  using assms resv_le_pending [OF assms(1)]
  by (simp add: copied_def buf_view)

text \<open>
  C32 \<open>matchFormat\<close> can be interrupted anywhere: if the pending bytes run out in the middle of the
  format, then calling it again once more bytes \<open>s\<close> have arrived gives the same answer, the same
  output and leaves the same input as one call on the whole input would have, provided
  the reserved zone is as long as the format and no NUL byte is involved.
\<close>

theorem matchFormat_resume:
  assumes inv: "buf_inv b" "buf_inv bo" and nul: "0 \<notin> set fs" "0 \<notin> set (pending b)" "0 \<notin> set s"
    and space: "length fs \<le> infLimit b" "length s \<le> room b"
    and first: "matchFormat fs b bo [] False = Some (r1, b1, bo1, True)"
  shows "\<exists>r b2 b2' bo2 e. matchFormat fs (pushes b1 s) bo1 [] False = Some (r, b2, bo2, e)
    \<and> matchFormat fs (pushes b s) bo [] False = Some (r, b2', bo2, e) \<and> same_view b2 b2'"
proof -
  let ?p = "pending b"
  let ?n = "length ?p"
  let ?c1 = "pushes b1 s" and ?c = "pushes b s"
  note S = matchFormat_starves [OF inv nul(1,2) first]
  define k where "k = ?n + match_len (drop ?n fs) s"
  have "length (take ?n fs) \<le> infLimit b" using space(1) by simp
  note P = pushed_back [OF inv(1) this]
  have b1: "b1 = unreads (advs ?n b) (take ?n fs)" using S(4) by simp
  have I: "buf_inv b1" "pending b1 = take ?n fs" "resv b1 = ?n" "length s \<le> room b1"
    using P S(2) space(2) by (simp_all add: b1)
  have V1: "buf_inv ?c1" "pending ?c1 = take ?n fs @ s" "resv ?c1 = ?n"
    and V: "buf_inv ?c" "pending ?c = ?p @ s" "resv ?c = resv b"
    using I inv space by (simp_all add: buf_view)
  have m1: "match_len fs (take ?n fs @ s) = k" and m: "match_len fs (?p @ s) = k"
    using match_len_split [of fs "take ?n fs" s] match_len_split [of fs ?p s] S(1,2)
    by (simp_all add: k_def match_len_take)
  have kl: "k \<le> ?n + length s" "?n \<le> k" using match_len_le(2) by (simp_all add: k_def)
  have dr: "drop k (take ?n fs @ s) = drop (k - ?n) s" "drop k (?p @ s) = drop (k - ?n) s"
    using kl S(2) by simp_all
  then have st: "starved (take ?n fs @ s) k = starved (?p @ s) k" by (simp add: starved_def)
  have out: "copies k ?c1 bo1 = copies k ?c bo"
  proof -
    have "copied k ?c1 = filter (\<lambda>c. c \<noteq> 0) (take (k - ?n) s)"
      using S(2) kl V1 by (simp add: copied_def)
    moreover have "copied k ?c = copied ?n b @ filter (\<lambda>c. c \<noteq> 0) (take (k - ?n) s)"
      using inv nul space kl by (intro copied_split) auto
    ultimately show ?thesis by (simp add: copies_def S(5) pushes_append)
  qed
  have adv: "buf_inv (advs k ?c1)" "buf_inv (advs k ?c)"
    "pending (advs k ?c1) = drop (k - ?n) s" "pending (advs k ?c) = drop (k - ?n) s"
    "resv (advs k ?c1) = 0" "resv (advs k ?c) = 0"
    using V1 V kl dr S(2) resv_le_pending [OF inv(1)] by (simp_all add: buf_view)
  have same: "same_view (advs k ?c1) (advs k ?c)" using adv by (simp add: same_view_def)
  have "buf_inv bo1" using inv by (simp add: S(5))
  note E1 = matchFormat_eq [OF V1(1) this nul(1), of "[]" False, unfolded V1(2) m1 out Let_def]
  note E = matchFormat_eq [OF V(1) inv(2) nul(1), of "[]" False, unfolded V(2) m Let_def]
  show ?thesis
  proof (cases "k \<noteq> length fs \<and> starved (?p @ s) k")
    case True
    have nuls: "0 \<notin> set (?p @ s)" using nul by simp
    from True have kall: "k = length (?p @ s)"
      using starved_nul_free [OF nuls, of k] kl by simp
    have "same_view (unreads (advs k ?c1) (take k fs)) (unreads (advs k ?c) (take k fs))"
      using pushed_back [OF V1(1), of "take k fs"] pushed_back [OF V(1), of "take k fs"] space(1)
      using V1 V kall S(2) by (simp add: same_view_def buf_view b1)
    moreover have "matchFormat fs ?c1 bo1 [] False
        = Some (False, unreads (advs k ?c1) (take k fs), copies k ?c bo, True)"
      using E1 True st by simp
    moreover have "matchFormat fs ?c bo [] False
        = Some (False, unreads (advs k ?c) (take k fs), copies k ?c bo, True)"
      using E True by simp
    ultimately show ?thesis by blast
  next
    case False
    have "matchFormat fs ?c1 bo1 [] False = Some (k = length fs, advs k ?c1, copies k ?c bo, False)"
      using E1 False st by (cases "k = length fs") simp_all
    moreover have "matchFormat fs ?c bo [] False = Some (k = length fs, advs k ?c, copies k ?c bo, False)"
      using E False by (cases "k = length fs") simp_all
    ultimately show ?thesis using same by blast
  qed
qed


section \<open>Numbers\<close>

text \<open>Reading back what was printed: the decimal and the hexadecimal text of an \<open>int\<close>.\<close>

lemma uint_digit: "0 \<le> d \<Longrightarrow> d < 256 \<Longrightarrow> uint (of_int d :: byte) = d"
  by (simp add: word_of_int_inverse take_bit_int_eq_self)

lemma isdigit_of_int: "0 \<le> d \<Longrightarrow> d < 10 \<Longrightarrow> isdigit (of_int (d + 48))"
  using uint_digit [of "d + 48"] by (simp add: isdigit_def word_le_def)

lemma dec_val_append: "dec_val n (xs @ ys) = dec_val (dec_val n xs) ys"
  by (simp add: dec_val_def)

lemma hex_val_append: "hex_val n (xs @ ys) = hex_val (hex_val n xs) ys"
  by (simp add: hex_val_def)

lemma dec_digits_spec:
  "0 \<le> n \<Longrightarrow> int_range n \<Longrightarrow> dec_val 0 (dec_digits n) = n \<and> list_all isdigit (dec_digits n)"
proof (induction n rule: dec_digits.induct)
  case (1 n)
  show ?case
  proof (cases "n > 0")
    case True
    have R: "int_range (n div 10)" "0 \<le> n div 10"
      using "1.prems" by (auto simp: int_range_def)
    note IH = "1.IH" [OF True R(2,1)]
    have d: "0 \<le> n mod 10" "n mod 10 < 10" by simp_all
    have s: "10 * (n div 10) + n mod 10 = n" by simp
    have "int_range (10 * (n div 10))"
      using "1.prems" d s unfolding int_range_def by linarith
    then have "c_int (c_int (10 * (n div 10)) + (n mod 10 + 48 - 48)) = n"
      using "1.prems" s by (simp add: c_int_id)
    with IH d True show ?thesis
      using uint_digit [of "n mod 10 + 48"] isdigit_of_int [OF d]
      by (simp add: dec_digits.simps [of n] dec_val_append)
  next
    case False
    with "1.prems" have "n = 0" by simp
    then show ?thesis by (simp add: dec_digits.simps [of 0])
  qed
qed

lemma hexchar_table:
  "list_all (\<lambda>d. hexCharToDec (decToHexChar d) = d \<and> isxdigit (decToHexChar d)) [0..15]"
  by code_simp

lemma hexchar_roundtrip:
  assumes "0 \<le> d" and "d < 16"
  shows "hexCharToDec (decToHexChar d) = d" and "isxdigit (decToHexChar d)"
proof -
  have "d \<in> set [0..15]" using assms by simp
  then show "hexCharToDec (decToHexChar d) = d" "isxdigit (decToHexChar d)"
    using hexchar_table unfolding list_all_iff by blast+
qed

lemma hex_digits_spec:
  "0 \<le> n \<Longrightarrow> int_range n \<Longrightarrow> hex_val 0 (hex_digits n) = n \<and> list_all isxdigit (hex_digits n)"
proof (induction n rule: hex_digits.induct)
  case (1 n)
  show ?case
  proof (cases "n > 0")
    case True
    have R: "int_range (n div 16)" "0 \<le> n div 16"
      using "1.prems" by (auto simp: int_range_def)
    note IH = "1.IH" [OF True R(2,1)]
    have d: "0 \<le> n mod 16" "n mod 16 < 16" by simp_all
    have s: "16 * (n div 16) + n mod 16 = n" by simp
    have "int_range (16 * (n div 16))"
      using "1.prems" d s unfolding int_range_def by linarith
    then have "c_int (c_int (16 * (n div 16)) + n mod 16) = n"
      using "1.prems" s by (simp add: c_int_id)
    with IH d True show ?thesis
      using hexchar_roundtrip [OF d]
      by (simp add: hex_digits.simps [of n] hex_val_append)
  next
    case False
    with "1.prems" have "n = 0" by simp
    then show ?thesis by (simp add: hex_digits.simps [of 0])
  qed
qed

lemma isdigit_48: "isdigit 48"
  by (simp add: isdigit_def)

lemma isxdigit_48: "isxdigit 48"
  by (simp add: isxdigit_def isdigit_48)

lemma dec_text_spec:
  "0 \<le> n \<Longrightarrow> int_range n \<Longrightarrow> dec_val 0 (dec_text n) = n \<and> list_all isdigit (dec_text n)"
  using dec_digits_spec [of n] by (auto simp: dec_text_def isdigit_48 c_int_id int_range_def)

lemma hex_text_spec:
  "0 \<le> n \<Longrightarrow> int_range n \<Longrightarrow> hex_val 0 (hex_text n) = n \<and> list_all isxdigit (hex_text n)"
  using hex_digits_spec [of n]
  by (auto simp: hex_text_def isxdigit_48 hexCharToDec_def isdigit_48 c_int_id int_range_def)

lemma length_dec_digits: "0 \<le> n \<Longrightarrow> n < 10 ^ k \<Longrightarrow> length (dec_digits n) \<le> k"
proof (induction k arbitrary: n)
  case 0
  then show ?case by (simp add: dec_digits.simps [of n])
next
  case (Suc k)
  then have "n div 10 < 10 ^ k" by (simp add: div_less_iff_less_mult mult.commute)
  with Suc show ?case by (simp add: dec_digits.simps [of n])
qed

lemma length_dec_text: "int_range n \<Longrightarrow> length (dec_text n) \<le> 10"
  using length_dec_digits [of n 10] by (cases "0 \<le> n")
    (auto simp: dec_text_def int_range_def dec_digits.simps [of n])

lemma dec_text_nonempty: "0 \<le> n \<Longrightarrow> dec_text n \<noteq> []"
  by (auto simp: dec_text_def dec_digits.simps [of n])

lemma dec_val_range: "int_range n \<Longrightarrow> int_range (dec_val n xs)"
  by (induction xs arbitrary: n) simp_all

lemma hex_val_range: "int_range n \<Longrightarrow> int_range (hex_val n xs)"
  by (induction xs arbitrary: n) simp_all

lemma span_len_append: "list_all P xs \<Longrightarrow> span_len P (xs @ ys) = length xs + span_len P ys"
  by (induction xs) simp_all

lemma span_len_all: "span_len P xs = length xs \<Longrightarrow> list_all P xs"
  by (induction xs) (auto split: if_splits)

lemma digits_nul_free: "list_all isdigit xs \<Longrightarrow> 0 \<notin> set xs"
  by (auto simp: list_all_iff dest: isdigit_nonzero)

lemma getNumber_starves:
  assumes "buf_inv b" "buf_inv bo" "0 \<notin> set (pending b)"
    and "getNumber num b bo pre False = Some (r, num1, b1, bo1, True)"
  shows "list_all isdigit (pending b)" "\<not> r"
    "b1 = unreads (advs (length (pending b)) b) (pre @ dec_text (dec_val 0 (pending b)))"
    "bo1 = copies (length (pending b)) b bo"
proof -
  let ?k = "span_len isdigit (pending b)"
  have "starved (pending b) ?k"
    using assms by (auto simp: getNumber_eq Let_def split: if_splits)
  then have k: "?k = length (pending b)"
    using assms(3) by (simp add: starved_nul_free span_len_le)
  then show "list_all isdigit (pending b)" by (rule span_len_all)
  show "\<not> r" "b1 = unreads (advs (length (pending b)) b) (pre @ dec_text (dec_val 0 (pending b)))"
    "bo1 = copies (length (pending b)) b bo"
    using assms k \<open>starved (pending b) ?k\<close> by (auto simp: getNumber_eq Let_def)
qed

text \<open>
  C33 A decimal number may arrive in pieces: if the digits read so far run out, and their value has not
  overflowed into a negative \<open>int\<close>, then \<open>getNumber\<close> called again with more bytes returns the
  number, the output and the rest of the input that one call on all the digits returns. At least
  one digit must have been there at the first call (see \<open>getNumber_empty_start\<close>).
\<close>

theorem getNumber_resume:
  assumes inv: "buf_inv b" "buf_inv bo" and nul: "0 \<notin> set (pending b)" "0 \<notin> set s"
    and some: "pending b \<noteq> []" and pos: "0 \<le> dec_val 0 (pending b)"
    and space: "10 \<le> infLimit b" "length s \<le> room b"
    and first: "getNumber num b bo [] False = Some (r1, num1, b1, bo1, True)"
  shows "\<exists>r v b2 b2' bo2 e. getNumber num (pushes b1 s) bo1 [] False = Some (r, v, b2, bo2, e)
    \<and> getNumber num (pushes b s) bo [] False = Some (r, v, b2', bo2, e) \<and> same_view b2 b2'"
proof -
  let ?p = "pending b"
  let ?n = "length ?p" and ?v = "dec_val 0 (pending b)" and ?j = "span_len isdigit s"
  let ?t = "dec_text ?v" and ?c1 = "pushes b1 s" and ?c = "pushes b s"
  let ?w = "dec_val 0 (?p @ take ?j s)"
  let ?k1 = "length ?t + ?j" and ?k = "?n + ?j"
  note S = getNumber_starves [OF inv nul(1) first]
  have v: "int_range ?v" by (rule dec_val_range) (simp add: int_range_def)
  note T = dec_text_spec [OF pos v]
  have tl: "length ?t \<le> infLimit b" using length_dec_text [OF v] space(1) by simp
  note P = pushed_back [OF inv(1) tl]
  have b1: "b1 = unreads (advs ?n b) ?t" using S(3) by simp
  have V1: "buf_inv ?c1" "pending ?c1 = ?t @ s" "resv ?c1 = length ?t"
    and V: "buf_inv ?c" "pending ?c = ?p @ s" "resv ?c = resv b" and bo1: "buf_inv bo1"
    using P inv space by (simp_all add: buf_view b1 S(4))
  have k1: "span_len isdigit (?t @ s) = ?k1" and k: "span_len isdigit (?p @ s) = ?k"
    using T S(1) by (simp_all add: span_len_append)
  have j: "?j \<le> length s" by (rule span_len_le)
  have st: "starved (?t @ s) ?k1 = starved (?p @ s) ?k" by (simp add: starved_def)
  have w: "dec_val 0 (take ?k1 (?t @ s)) = ?w" "dec_val 0 (take ?k (?p @ s)) = ?w"
    using T by (simp_all add: dec_val_append)
  have out: "copies ?k1 ?c1 bo1 = copies ?k ?c bo"
  proof -
    have "copied ?k1 ?c1 = filter (\<lambda>c. c \<noteq> 0) (take ?j s)" using V1 by (simp add: copied_def)
    moreover have "copied ?k ?c = copied ?n b @ filter (\<lambda>c. c \<noteq> 0) (take ?j s)"
      using copied_split [OF inv(1) space(2) nul(1), of ?k] by simp
    ultimately show ?thesis by (simp add: copies_def S(4) pushes_append)
  qed
  have nz: "?k1 \<noteq> 0" "?k \<noteq> 0" using some dec_text_nonempty [OF pos] by simp_all
  note E1 = getNumber_eq [OF V1(1) bo1, of num "[]" False, unfolded V1(2) k1 w out Let_def]
  note E = getNumber_eq [OF V(1) inv(2), of num "[]" False, unfolded V(2) k w Let_def]
  show ?thesis
  proof (cases "starved (?p @ s) ?k")
    case True
    have "0 \<notin> set (?p @ s)" using nul by simp
    with True j have js: "?j = length s" by (simp add: starved_nul_free)
    have "int_range ?w" by (rule dec_val_range) (simp add: int_range_def)
    then have "length (dec_text ?w) \<le> infLimit b" using length_dec_text space(1) by fastforce
    then have "same_view (unreads (advs ?k1 ?c1) (dec_text ?w)) (unreads (advs ?k ?c) (dec_text ?w))"
      using pushed_back [OF V1(1), of "dec_text ?w"] pushed_back [OF V(1), of "dec_text ?w"] V1 V js
      by (simp add: same_view_def buf_view b1)
    with E1 E True st show ?thesis by auto
  next
    case False
    have "same_view (advs ?k1 ?c1) (advs ?k ?c)"
      using V1 V j resv_le_pending [OF inv(1)] by (simp add: same_view_def buf_view)
    moreover have "getNumber num ?c1 bo1 [] False = Some (True, ?w, advs ?k1 ?c1, copies ?k ?c bo, False)"
      using E1 False st nz(1) by simp
    moreover have "getNumber num ?c bo [] False = Some (True, ?w, advs ?k ?c, copies ?k ?c bo, False)"
      using E False nz(2) by simp
    ultimately show ?thesis by blast
  qed
qed

section \<open>Witnesses, round trips and the limits of the numbers\<close>

theorem matchFormat_resume_witness:
  "\<exists>r b2 b2' bo2 e.
     matchFormat (str ''HTTP'') (pushes (unreads (advs (Suc (Suc 0)) (holding (str ''ht''))) (str ''HT'')) (str ''tp/''))
       (copies (Suc (Suc 0)) (holding (str ''ht'')) (holding [])) [] False = Some (r, b2, bo2, e)
   \<and> matchFormat (str ''HTTP'') (pushes (holding (str ''ht'')) (str ''tp/'')) (holding []) [] False = Some (r, b2', bo2, e)
   \<and> same_view b2 b2'"
  by (rule matchFormat_resume [where ?r1.0 = False])
    (simp_all add: matchFormat_eq starved_def toupper_def Let_def)

theorem getNumber_resume_witness:
  "\<exists>r v b2 b2' bo2 e.
     getNumber 0 (pushes (unreads (advs (Suc (Suc 0)) (holding (str ''80''))) (str ''80'')) (str ''80 ''))
       (copies (Suc (Suc 0)) (holding (str ''80'')) (holding [])) [] False = Some (r, v, b2, bo2, e)
   \<and> getNumber 0 (pushes (holding (str ''80'')) (str ''80 '')) (holding []) [] False = Some (r, v, b2', bo2, e)
   \<and> same_view b2 b2'"
proof (rule getNumber_resume [where ?r1.0 = False and ?num1.0 = 0])
  have v: "dec_val 0 (str ''80'') = 80" by (simp add: c_int_def)
  moreover have "dec_text 80 = str ''80''" by (simp add: dec_text_def dec_digits.simps)
  ultimately show "getNumber 0 (holding (str ''80'')) (holding []) [] False =
      Some (False, 0, unreads (advs (Suc (Suc 0)) (holding (str ''80''))) (str ''80''), copies (Suc (Suc 0)) (holding (str ''80'')) (holding []), True)"
    by (simp add: getNumber_eq starved_def isdigit_def Let_def c_int_def)
  show "0 \<le> dec_val 0 (pending (holding (str ''80'')))" by (simp add: c_int_def)
qed (simp_all add:)

text \<open>
  A number the parsers push back (\<open>writeDecToBufReverse\<close>, on a reserved zone with space for its ten digits
  at most) is read by \<open>getNumber\<close> as itself, and the input is again what it was before.
\<close>

theorem dec_number_roundtrip:
  assumes "buf_inv b" "buf_inv bo" "pending b = c # ys" "c \<noteq> 0" "\<not> isdigit c"
    "0 \<le> n" "int_range n" "10 \<le> rd b"
  shows "\<exists>b1 b2 bo2. writeDecToBufReverse n b = Some b1
    \<and> getNumber num b1 bo pre e = Some (True, n, b2, bo2, e) \<and> pending b2 = pending b"
proof -
  note T = dec_text_spec [OF assms(6,7)]
  have l: "length (dec_text n) \<le> rd b" using length_dec_text [OF assms(7)] assms(8) by simp
  let ?b1 = "unreads b (dec_text n)"
  have p: "pending ?b1 = dec_text n @ c # ys" "buf_inv ?b1" using assms l by (simp_all add: buf_view)
  have k: "span_len isdigit (dec_text n @ c # ys) = length (dec_text n)"
    using T assms(5) by (simp add: span_len_append)
  have "getNumber num ?b1 bo pre e = Some (True, n, advs (length (dec_text n)) ?b1, copies (length (dec_text n)) ?b1 bo, e)"
    using assms p k T dec_text_nonempty [OF assms(6)] by (simp add: getNumber_eq Let_def starved_def)
  moreover have "pending (advs (length (dec_text n)) ?b1) = pending b" using p assms(3) by (simp add: buf_view)
  ultimately show ?thesis using assms(1) by (simp add: writeDec_eq)
qed

theorem dec_number_roundtrip_witness:
  "\<exists>b1 b2 bo2. writeDecToBufReverse 65535 (holding (str ''/'')) = Some b1
    \<and> getNumber 7 b1 (holding []) [] False = Some (True, 65535, b2, bo2, False) \<and> pending b2 = pending (holding (str ''/''))"
  by (rule dec_number_roundtrip [where c = 47 and ys = "[]"])
    (simp_all add: isdigit_def int_range_def)

lemma length_hex_digits: "0 \<le> n \<Longrightarrow> n < 16 ^ k \<Longrightarrow> length (hex_digits n) \<le> k"
proof (induction k arbitrary: n)
  case 0
  then show ?case by (simp add: hex_digits.simps [of n])
next
  case (Suc k)
  then have "n div 16 < 16 ^ k" by (simp add: div_less_iff_less_mult mult.commute)
  with Suc show ?case by (simp add: hex_digits.simps [of n])
qed

lemma length_hex_text: "int_range n \<Longrightarrow> length (hex_text n) \<le> 8"
  using length_hex_digits [of n 8] by (cases "0 \<le> n")
    (auto simp: hex_text_def int_range_def hex_digits.simps [of n])

lemma hex_text_nonempty: "0 \<le> n \<Longrightarrow> hex_text n \<noteq> []"
  by (auto simp: hex_text_def hex_digits.simps [of n])

text \<open>
  A chunk length the response parser pushes back (\<open>writeHexToBufReverse\<close>) is read again as
  itself, by the copying and by the silent reader alike.
\<close>

theorem hex_number_roundtrip:
  assumes "buf_inv b" "buf_inv bo" "pending b = c # ys" "c \<noteq> 0" "\<not> isxdigit c"
    "0 \<le> n" "int_range n" "8 \<le> rd b"
  shows "\<exists>b1 b2 bo2. writeHexToBufReverse n b = Some b1
    \<and> getHexNumber num b1 bo pre e = Some (True, n, b2, bo2, e)
    \<and> simpleGetHexNumber num b1 pre e = Some (True, n, b2, e) \<and> pending b2 = pending b"
proof -
  note T = hex_text_spec [OF assms(6,7)]
  have l: "length (hex_text n) \<le> rd b" using length_hex_text [OF assms(7)] assms(8) by simp
  let ?b1 = "unreads b (hex_text n)"
  have p: "pending ?b1 = hex_text n @ c # ys" "buf_inv ?b1" using assms l by (simp_all add: buf_view)
  have k: "span_len isxdigit (hex_text n @ c # ys) = length (hex_text n)"
    using T assms(5) by (simp add: span_len_append)
  have "getHexNumber num ?b1 bo pre e = Some (True, n, advs (length (hex_text n)) ?b1, copies (length (hex_text n)) ?b1 bo, e)"
    "simpleGetHexNumber num ?b1 pre e = Some (True, n, advs (length (hex_text n)) ?b1, e)"
    using assms p k T hex_text_nonempty [OF assms(6)]
    by (simp_all add: getHexNumber_eq simpleGetHexNumber_eq Let_def starved_def)
  moreover have "pending (advs (length (hex_text n)) ?b1) = pending b" using p assms(3) by (simp add: buf_view)
  ultimately show ?thesis using assms(1) by (simp add: writeHex_eq)
qed

theorem hex_number_roundtrip_witness:
  "\<exists>b1 b2 bo2. writeHexToBufReverse 48879 (holding (str ''/'')) = Some b1
    \<and> getHexNumber 7 b1 (holding []) [] False = Some (True, 48879, b2, bo2, False)
    \<and> simpleGetHexNumber 7 b1 [] False = Some (True, 48879, b2, False) \<and> pending b2 = pending (holding (str ''/''))"
  by (rule hex_number_roundtrip [where c = 47 and ys = "[]"])
    (simp_all add: isxdigit_def isdigit_def int_range_def)

text \<open>The number a digit string denotes, without wrap-around.\<close>

definition dec_nat :: "byte list \<Rightarrow> int" where
  "dec_nat = foldl (\<lambda>n c. 10 * n + (uint c - 48)) 0"

lemma dec_val_wraps: "dec_val (c_int m) ds = c_int (foldl (\<lambda>n c. 10 * n + (uint c - 48)) m ds)"
proof (induction ds arbitrary: m)
  case (Cons c ds)
  have "c_int (c_int (10 * c_int m) + (uint c - 48)) = c_int (10 * m + (uint c - 48))"
    by (simp add: c_int_absorb)
  with Cons [of "10 * m + (uint c - 48)"] show ?case by simp
qed simp

text \<open>
  \<open>getNumber\<close> does not check for overflow: it returns the number its digits denote wrapped to a 32-bit
  \<open>int\<close>, so it is exact below \<open>2^31\<close> and a port or a content length of \<open>4294967376\<close> is read as 80.
\<close>

theorem getNumber_wraps:
  assumes "buf_inv b" "buf_inv bo" "pending b = ds @ c # ys" "ds \<noteq> []" "list_all isdigit ds" "c \<noteq> 0" "\<not> isdigit c"
  shows "\<exists>b' bo'. getNumber num b bo pre e = Some (True, c_int (dec_nat ds), b', bo', e)
    \<and> pending b' = c # ys \<and> (int_range (dec_nat ds) \<longrightarrow> c_int (dec_nat ds) = dec_nat ds)"
proof -
  have k: "span_len isdigit (ds @ c # ys) = length ds"
    using assms(5,7) by (simp add: span_len_append)
  have v: "dec_val 0 ds = c_int (dec_nat ds)"
    using dec_val_wraps [of 0 ds] by (simp add: dec_nat_def c_int_def)
  have "getNumber num b bo pre e = Some (True, c_int (dec_nat ds), advs (length ds) b, copies (length ds) b bo, e)"
    using assms k v by (simp add: getNumber_eq Let_def starved_def)
  with assms(1,3) show ?thesis by (simp add: buf_view c_int_id)
qed

theorem getNumber_wraps_witness:
  "\<exists>b' bo'. getNumber 0 (holding (str ''4294967376/'')) (holding []) [] False = Some (True, 80, b', bo', False)
    \<and> pending b' = str ''/''"
  using getNumber_wraps [of "holding (str ''4294967376/'')" "holding []" "str ''4294967376''" 47 "[]" 0 "[]" False]
  by (auto simp: isdigit_def dec_nat_def c_int_def)

text \<open>
  The exception to resuming: called on an empty buffer, \<open>getNumber\<close> pushes the digit \<open>0\<close> back, which was not
  in the input. The next call then accepts a byte that is no digit as the number 0, where one call on
  the whole input rejects it; so a port that arrives as \<open>:\<close> and then \<open>abc\<close> is 0.
\<close>

theorem getNumber_empty_start:
  assumes "buf_inv b" "buf_inv bo" "pending b = []" "1 \<le> infLimit b" "1 \<le> room b" "c \<noteq> 0" "\<not> isdigit c"
  shows "\<exists>b1 b2. getNumber num b bo [] False = Some (False, num, b1, bo, True)
    \<and> getNumber num (push b1 c) bo [] False = Some (True, 0, b2, bo, False) \<and> pending b2 = [c]
    \<and> getNumber num (push b c) bo [] False = Some (False, num, push b c, bo, False)"
proof -
  have z: "dec_text 0 = [48]" by (simp add: dec_text_def dec_digits.simps)
  have rw: "rd b = infLimit b" using assms(1,3) by (rule pending_Nil_rewound)
  let ?b1 = "unread b 48"
  have first: "getNumber num b bo [] False = Some (False, num, ?b1, bo, True)"
    using assms z by (simp add: getNumber_eq Let_def starved_def unreads_Cons)
  have I: "buf_inv (push ?b1 c)" "pending (push ?b1 c) = [48, c]" "resv (push ?b1 c) = 1"
    using assms rw by (simp_all add: buf_view resv_unread) (simp add: resv_def)
  have k: "span_len isdigit [48, c] = 1" using assms(7) by (simp add: isdigit_48)
  have "copied 1 (push ?b1 c) = []" using I by (simp add: copied_def)
  then have second: "getNumber num (push ?b1 c) bo [] False = Some (True, 0, advs 1 (push ?b1 c), bo, False)"
    using assms I k by (simp add: getNumber_eq Let_def starved_def copies_def c_int_def)
  have third: "getNumber num (push b c) bo [] False = Some (False, num, push b c, bo, False)"
    using assms by (simp add: getNumber_eq Let_def starved_def buf_view)
  from first second third I show ?thesis by (simp add: buf_view)
qed

theorem getNumber_empty_start_witness:
  "\<exists>b1 b2. getNumber 80 (holding []) (holding []) [] False = Some (False, 80, b1, holding [], True)
    \<and> getNumber 80 (push b1 97) (holding []) [] False = Some (True, 0, b2, holding [], False) \<and> pending b2 = [97]
    \<and> getNumber 80 (push (holding []) 97) (holding []) [] False = Some (False, 80, push (holding []) 97, holding [], False)"
  by (rule getNumber_empty_start) (simp_all add: isdigit_def)

end
