(* ===== verification/RequestParser.thy ===== *)
theory RequestParser
  imports Resume
begin

text \<open>
  \<open>proxy_http/src/request_parser/requestParser.c\<close> and \<open>include/requestParser/requestParser.h\<close>:
  the request parser, which copies the request from the input to the output buffer until it has
  found the origin host. Every \<open>static\<close> function takes and returns the parser's data with
  the two buffers. The host callback is called at most once, with disjoint data, right before
  \<open>FINISHED\<close>; its calls are collected in a list, which the client handlers apply.
\<close>

section \<open>State\<close>

definition HOST_MAX_SIZE :: nat where "HOST_MAX_SIZE = 255"

definition DEFAULT_PORT :: int where "DEFAULT_PORT = 80"

datatype requestParserState =
  SPACE_TRANSITION | METHOD | URI | RELATIVE_URI | URI_HOST | VERSION | START_LINE_END
  | LOCALHOST_HEADER_CHECK | HEADERS | HOST | FINISHED

datatype httpMethod = UNDEFINED_M | GET | HEAD | POST | PUT | DELETE | CONNECT | OPTIONS | TRACE

datatype requestState =
  OK | GENERAL_ERROR | VERSION_ERROR | START_LINE_END_ERROR | GENERAL_METHOD_ERROR
  | UNSUPPORTED_METHOD_ERROR | HOST_ERROR | ALLOCATION_ERROR

record RequestData =
  rq_parserState :: requestParserState
  rq_next :: requestParserState
  rq_isBufferEmpty :: bool
  rq_state :: requestState
  rq_version :: httpVersion
  rq_method :: httpMethod
  rq_host :: "byte list"
  rq_port :: int
  rq_isLocalHost :: bool

type_synonym rq_bufs = "RequestData \<times> buffer \<times> buffer"

text \<open>\<open>next\<close> is left as it was: \<open>malloc\<close>ed and not yet assigned.\<close>

definition defaultRequestStruct :: "RequestData \<Rightarrow> RequestData" where
  "defaultRequestStruct rData =
     rData\<lparr>rq_parserState := METHOD, rq_isBufferEmpty := False, rq_state := OK,
       rq_version := UNDEFINED, rq_method := UNDEFINED_M, rq_port := DEFAULT_PORT,
       rq_isLocalHost := False, rq_host := replicate HOST_MAX_SIZE 0\<rparr>"

section \<open>Start line\<close>

definition rq_checkSpaces :: "rq_bufs \<Rightarrow> (bool \<times> rq_bufs) option" where
  "rq_checkSpaces s =
     (case s of (rData, bIn, bOut) \<Rightarrow>
      do {
        (c, bIn') \<leftarrow> moveThroughSpaces bIn;
        if c = 0 then Some (False, rData\<lparr>rq_isBufferEmpty := True\<rparr>, bIn', bOut)
        else do { bOut' \<leftarrow> buffer_write bOut 32; Some (True, rData, bIn', bOut') }
      })"

definition methodOption :: "(byte list \<times> httpMethod) list" where
  "methodOption =
     [(str ''CONNECT'', CONNECT), (str ''DELETE'', DELETE), (str ''GET'', GET), (str ''HEAD'', HEAD),
      (str ''OPTIONS'', OPTIONS), (str ''POST'', POST), (str ''PUT'', PUT), (str ''TRACE'', TRACE)]"

fun extractHttpMethod_loop :: "(byte list \<times> httpMethod) list \<Rightarrow> byte \<Rightarrow> rq_bufs \<Rightarrow> rq_bufs option" where
  "extractHttpMethod_loop [] c s = Some s"
| "extractHttpMethod_loop ((opt, ty) # rest) c (rData, bIn, bOut) =
     (if hd opt = c then
        do {
          (r, bIn', bOut', e) \<leftarrow> matchFormat (tl opt) bIn bOut [c] (rq_isBufferEmpty rData);
          if r then Some (rData\<lparr>rq_isBufferEmpty := e, rq_method := ty\<rparr>, bIn', bOut')
          else if e then Some (rData\<lparr>rq_isBufferEmpty := e\<rparr>, bIn', bOut')
          else extractHttpMethod_loop rest c (rData\<lparr>rq_isBufferEmpty := e\<rparr>, bIn', bOut')
        }
      else extractHttpMethod_loop rest c (rData, bIn, bOut))"

definition extractHttpMethod :: "rq_bufs \<Rightarrow> (bool \<times> rq_bufs) option" where
  "extractHttpMethod s =
     (case s of (rData, bIn, bOut) \<Rightarrow>
      do {
        (c0, bIn1, bOut1) \<leftarrow> readAndWrite bIn bOut;
        let c = toupper c0;
        if c = 0 then Some (False, rData\<lparr>rq_isBufferEmpty := True\<rparr>, bIn1, bOut1)
        else do {
          (rData', bIn2, bOut2) \<leftarrow> extractHttpMethod_loop methodOption c (rData, bIn1, bOut1);
          Some (rq_method rData' \<in> {GET, HEAD, POST}, rData', bIn2, bOut2)
        }
      })"

definition cleanRelativeUri_body ::
  "byte \<times> buffer \<times> buffer \<Rightarrow> (bool \<times> byte \<times> buffer \<times> buffer) option" where
  "cleanRelativeUri_body s =
     (case s of (_, bIn, bOut) \<Rightarrow>
      do {
        c \<leftarrow> buffer_peek bIn;
        if c \<noteq> 0 \<and> c \<noteq> 32 \<and> c \<noteq> 9 then
          do { (_, bIn', bOut') \<leftarrow> readAndWrite bIn bOut; Some (False, c, bIn', bOut') }
        else Some (True, c, bIn, bOut)
      })"

definition cleanRelativeUri :: "rq_bufs \<Rightarrow> (bool \<times> rq_bufs) option" where
  "cleanRelativeUri s =
     (case s of (rData, bIn, bOut) \<Rightarrow>
      do {
        (c, bIn', bOut') \<leftarrow> c_loop cleanRelativeUri_body (0, bIn, bOut);
        if c = 0 then Some (False, rData\<lparr>rq_isBufferEmpty := True\<rparr>, bIn', bOut')
        else Some (True, rData, bIn', bOut')
      })"

text \<open>The characters a host may have: lower-case letters, digits, \<open>-\<close> and \<open>.\<close>.\<close>

definition is_host_char :: "byte \<Rightarrow> bool" where
  "is_host_char c \<longleftrightarrow> 97 \<le> c \<and> c \<le> 122 \<or> 48 \<le> c \<and> c \<le> 57 \<or> c = 45 \<or> c = 46"

text \<open>
  The host loops over \<open>i\<close>, the last character and the data; \<open>c\<close> is assigned in the first
  iteration, since \<open>0 < HOST_MAX_SIZE\<close>.
\<close>

definition checkUriForHost_body :: "nat \<times> byte \<times> rq_bufs \<Rightarrow> (bool \<times> nat \<times> byte \<times> rq_bufs) option" where
  "checkUriForHost_body s =
     (case s of (i, c0, rData, bIn, bOut) \<Rightarrow>
      if i < HOST_MAX_SIZE then
        do {
          p \<leftarrow> buffer_peek bIn;
          let c = tolower p;
          if c = 0 then Some (True, i, c, rData, bIn, bOut)
          else if is_host_char c then
            do {
              h \<leftarrow> store (rq_host rData) i c;
              (_, bIn', bOut') \<leftarrow> readAndWrite bIn bOut;
              Some (False, Suc i, c, rData\<lparr>rq_host := h\<rparr>, bIn', bOut')
            }
          else if c = 64 then
            do {
              h \<leftarrow> store (rq_host rData) 0 0;
              (_, bIn', bOut') \<leftarrow> readAndWrite bIn bOut;
              Some (False, 0, c, rData\<lparr>rq_host := h\<rparr>, bIn', bOut')
            }
          else Some (True, i, c, rData, bIn, bOut)
        }
      else Some (True, i, c0, rData, bIn, bOut))"

text \<open>
  What follows the host loop in \<open>checkUriForHost\<close> and \<open>extractHost\<close> alike: the optional port,
  and the push-back when the input ran out. The result says whether to return \<open>false\<close> at
  once, and \<open>validHost\<close>.
\<close>

definition host_port :: "nat \<Rightarrow> byte \<Rightarrow> rq_bufs \<Rightarrow> (bool \<times> bool \<times> rq_bufs) option" where
  "host_port i c s =
     (case s of (rData, bIn, bOut) \<Rightarrow>
      do {
        (validHost, rData1, bIn1, bOut1) \<leftarrow>
          (if c = 58 then
             do {
               (_, bIn', bOut') \<leftarrow> readAndWrite bIn bOut;
               (v, p, bIn'', bOut'', e) \<leftarrow>
                 getNumber (rq_port rData) bIn' bOut' [58] (rq_isBufferEmpty rData);
               Some (v, rData\<lparr>rq_port := p, rq_isBufferEmpty := e\<rparr>, bIn'', bOut'')
             }
           else Some (True, rData, bIn, bOut));
        if c = 0 \<or> \<not> validHost \<and> rq_isBufferEmpty rData1 then
          do {
            bIn2 \<leftarrow> writeToBufReverse (rq_host rData1) bIn1 i;
            Some (True, validHost, rData1\<lparr>rq_isBufferEmpty := True\<rparr>, bIn2, bOut1)
          }
        else Some (False, validHost, rData1, bIn1, bOut1)
      })"

definition checkUriForHost :: "rq_bufs \<Rightarrow> (bool \<times> rq_bufs) option" where
  "checkUriForHost s =
     do {
       (i, c, s1) \<leftarrow> c_loop checkUriForHost_body (0, 0, s);
       (out, validHost, s2) \<leftarrow> host_port i c s1;
       if out then Some (False, s2) else Some (i < HOST_MAX_SIZE \<and> validHost, s2)
     }"

definition checkUri :: "rq_bufs \<Rightarrow> (bool \<times> rq_bufs) option" where
  "checkUri s =
     (let relative = (\<lambda>(rData, bIn, bOut).
            do {
              (_, s') \<leftarrow> cleanRelativeUri (rData\<lparr>rq_parserState := RELATIVE_URI\<rparr>, bIn, bOut);
              Some (False, s')
            })
      in case s of (rData, bIn, bOut) \<Rightarrow>
      do {
        (r, bIn1, bOut1, e) \<leftarrow> matchFormat (str ''HTTP'') bIn bOut [] (rq_isBufferEmpty rData);
        let rData1 = rData\<lparr>rq_isBufferEmpty := e\<rparr>;
        if r then
          do {
            (r2, bIn2, bOut2, e2) \<leftarrow> matchFormat (str ''://'') bIn1 bOut1 (str ''HTTP'') e;
            let rData2 = rData1\<lparr>rq_isBufferEmpty := e2\<rparr>;
            if r2 then
              do {
                (r3, rData3, bIn3, bOut3) \<leftarrow>
                  checkUriForHost (rData2\<lparr>rq_parserState := URI_HOST\<rparr>, bIn2, bOut2);
                if r3 then Some (True, rData3, bIn3, bOut3)
                else if rq_isBufferEmpty rData3 then Some (False, rData3, bIn3, bOut3)
                else relative (rData3, bIn3, bOut3)
              }
            else if e2 then Some (False, rData2, bIn2, bOut2)
            else relative (rData2, bIn2, bOut2)
          }
        else if e then Some (False, rData1, bIn1, bOut1)
        else relative (rData1, bIn1, bOut1)
      })"

definition rq_extractHttpVersion :: "rq_bufs \<Rightarrow> (bool \<times> rq_bufs) option" where
  "rq_extractHttpVersion s =
     (case s of (rData, bIn, bOut) \<Rightarrow>
      do {
        (r, bIn1, bOut1, e) \<leftarrow> matchFormat (str ''HTTP/1.'') bIn bOut [] (rq_isBufferEmpty rData);
        let rData1 = rData\<lparr>rq_isBufferEmpty := e\<rparr>;
        if r then
          do {
            (c, bIn2, bOut2) \<leftarrow> readAndWrite bIn1 bOut1;
            if c \<noteq> 0 then
              (let v = (if c = 48 then V_1_0 else if c = 49 then V_1_1 else rq_version rData1)
               in Some (v \<noteq> UNDEFINED, rData1\<lparr>rq_version := v\<rparr>, bIn2, bOut2))
            else do {
              bIn3 \<leftarrow> writePrefix bIn2 (str ''HTTP/1.'');
              Some (False, rData1\<lparr>rq_isBufferEmpty := True\<rparr>, bIn3, bOut2)
            }
          }
        else if e then Some (False, rData1, bIn1, bOut1)
        else Some (rq_version rData1 \<noteq> UNDEFINED, rData1, bIn1, bOut1)
      })"

definition checkStartLineEnd :: "rq_bufs \<Rightarrow> (bool \<times> rq_bufs) option" where
  "checkStartLineEnd s =
     (case s of (rData, bIn, bOut) \<Rightarrow>
      do {
        (r, bIn', bOut', e) \<leftarrow> checkCRLF bIn bOut [] (rq_isBufferEmpty rData);
        Some (r, rData\<lparr>rq_isBufferEmpty := e\<rparr>, bIn', bOut')
      })"

section \<open>Headers\<close>

definition checkLocalHost :: "rq_bufs \<Rightarrow> (bool \<times> rq_bufs) option" where
  "checkLocalHost s =
     (case s of (rData, bIn, bOut) \<Rightarrow>
      do {
        p \<leftarrow> buffer_peek bIn;
        let c = toupper p;
        if c = 0 then Some (False, rData\<lparr>rq_isBufferEmpty := True\<rparr>, bIn, bOut)
        else if c \<noteq> 88 then
          do {
            bOut' \<leftarrow> writeToBuf (str ''X-LOCALHOST: TRUE'' @ [13, 10]) bOut;
            Some (rq_isLocalHost rData, rData, bIn, bOut')
          }
        else do {
          (r, bIn', bOut', e) \<leftarrow> matchFormat (str ''X-LOCALHOST:'') bIn bOut [] (rq_isBufferEmpty rData);
          let rData' = rData\<lparr>rq_isBufferEmpty := e\<rparr>;
          if r then Some (True, rData'\<lparr>rq_isLocalHost := True\<rparr>, bIn', bOut')
          else if e then Some (False, rData', bIn', bOut')
          else Some (rq_isLocalHost rData', rData', bIn', bOut')
        }
      })"

text \<open>The loop state: \<open>hostHeader\<close>, \<open>headersEnd\<close> and the data.\<close>

definition checkHostHeader_body :: "bool \<times> bool \<times> rq_bufs \<Rightarrow> (bool \<times> bool \<times> bool \<times> rq_bufs) option" where
  "checkHostHeader_body s =
     (case s of (hostHeader, headersEnd, rData, bIn, bOut) \<Rightarrow>
      do {
        (c0, bIn1, bOut1) \<leftarrow> readAndWrite bIn bOut;
        let c = toupper c0;
        if c = 0 then Some (True, hostHeader, headersEnd, rData, bIn1, bOut1)
        else if c = 72 then
          do {
            (r, bIn2, bOut2, e) \<leftarrow> matchFormat (str ''OST:'') bIn1 bOut1 [72] (rq_isBufferEmpty rData);
            let rData' = rData\<lparr>rq_isBufferEmpty := e\<rparr>;
            if r then Some (True, True, headersEnd, rData', bIn2, bOut2)
            else Some (e, hostHeader, headersEnd, rData', bIn2, bOut2)
          }
        else if c = 13 then
          do {
            (r, bIn2, bOut2, e) \<leftarrow> checkLF bIn1 bOut1 [13] (rq_isBufferEmpty rData);
            (r', bIn3, bOut3, e') \<leftarrow>
              (if r then checkCRLF bIn2 bOut2 [13, 10] e else Some (False, bIn2, bOut2, e));
            let rData' = rData\<lparr>rq_isBufferEmpty := e'\<rparr>;
            if r' then Some (True, hostHeader, True, rData', bIn3, bOut3)
            else Some (e', hostHeader, headersEnd, rData', bIn3, bOut3)
          }
        else Some (False, hostHeader, headersEnd, rData, bIn1, bOut1)
      })"

definition checkHostHeader :: "rq_bufs \<Rightarrow> (bool \<times> rq_bufs) option" where
  "checkHostHeader s =
     do {
       (hostHeader, headersEnd, rData, bIn, bOut) \<leftarrow> c_loop checkHostHeader_body (False, False, s);
       if hostHeader then Some (True, rData, bIn, bOut)
       else if headersEnd then Some (False, rData, bIn, bOut)
       else Some (False, rData\<lparr>rq_isBufferEmpty := True\<rparr>, bIn, bOut)
     }"

definition extractHost_body :: "nat \<times> byte \<times> rq_bufs \<Rightarrow> (bool \<times> nat \<times> byte \<times> rq_bufs) option" where
  "extractHost_body s =
     (case s of (i, c0, rData, bIn, bOut) \<Rightarrow>
      if i < HOST_MAX_SIZE then
        do {
          p \<leftarrow> buffer_peek bIn;
          let c = tolower p;
          if c = 0 then Some (True, i, c, rData, bIn, bOut)
          else if is_host_char c then
            do {
              h \<leftarrow> store (rq_host rData) i c;
              (_, bIn', bOut') \<leftarrow> readAndWrite bIn bOut;
              Some (False, Suc i, c, rData\<lparr>rq_host := h\<rparr>, bIn', bOut')
            }
          else Some (True, i, c, rData, bIn, bOut)
        }
      else Some (True, i, c0, rData, bIn, bOut))"

definition extractHost :: "rq_bufs \<Rightarrow> (bool \<times> rq_bufs) option" where
  "extractHost s =
     do {
       (i, c, s1) \<leftarrow> c_loop extractHost_body (0, 0, s);
       (out, validHost, rData, bIn, bOut) \<leftarrow> host_port i c s1;
       if out then Some (False, rData, bIn, bOut)
       else do {
         c' \<leftarrow> buffer_peek bIn;
         Some (i < HOST_MAX_SIZE \<and> validHost \<and> (c' = 32 \<or> c' = 9 \<or> c' = 13), rData, bIn, bOut)
       }
     }"

section \<open>The state machine\<close>

type_synonym host_call = "byte list \<times> int"

type_synonym rq_loop = "bool \<times> bool \<times> RequestData \<times> buffer \<times> buffer \<times> host_call list"

text \<open>
  The callback reads \<open>host\<close> as a C string, which must end inside the array.
\<close>

definition hostCallback :: "RequestData \<Rightarrow> host_call list \<Rightarrow> host_call list option" where
  "hostCallback rData calls =
     (if 0 \<in> set (rq_host rData) then Some (calls @ [(c_string (rq_host rData), rq_port rData)]) else None)"

text \<open>The \<open>switch\<close>: \<open>success\<close> and \<open>active\<close> are true when it is entered.\<close>

definition rq_switch :: "RequestData \<times> buffer \<times> buffer \<times> host_call list \<Rightarrow> rq_loop option" where
  "rq_switch s =
     (case s of (rData, bIn, bOut, calls) \<Rightarrow>
      let found = (\<lambda>(aux, rData, bIn, bOut).
            if \<not> aux \<and> (rq_host rData ! 0 \<noteq> 0 \<or> rq_isBufferEmpty rData)
            then Some (False, True, rData, bIn, bOut, calls)
            else if aux then
              do {
                calls' \<leftarrow> hostCallback rData calls;
                Some (True, True, rData\<lparr>rq_parserState := FINISHED\<rparr>, bIn, bOut, calls')
              }
            else Some (True, True, rData\<lparr>rq_parserState := SPACE_TRANSITION, rq_next := VERSION\<rparr>,
              bIn, bOut, calls));
          go = (\<lambda>upd (r, rData, bIn, bOut).
            if \<not> r then Some (False, True, rData, bIn, bOut, calls)
            else Some (True, True, upd rData, bIn, bOut, calls))
      in case rq_parserState rData of
        SPACE_TRANSITION \<Rightarrow>
          Option.bind (rq_checkSpaces (rData, bIn, bOut)) (go (\<lambda>d. d\<lparr>rq_parserState := rq_next d\<rparr>))
      | METHOD \<Rightarrow>
          Option.bind (extractHttpMethod (rData, bIn, bOut))
            (go (\<lambda>d. d\<lparr>rq_parserState := SPACE_TRANSITION, rq_next := URI\<rparr>))
      | URI \<Rightarrow> Option.bind (checkUri (rData, bIn, bOut)) found
      | URI_HOST \<Rightarrow> Option.bind (checkUriForHost (rData, bIn, bOut)) found
      | RELATIVE_URI \<Rightarrow>
          Option.bind (cleanRelativeUri (rData, bIn, bOut))
            (go (\<lambda>d. d\<lparr>rq_parserState := SPACE_TRANSITION, rq_next := VERSION\<rparr>))
      | VERSION \<Rightarrow>
          Option.bind (rq_extractHttpVersion (rData, bIn, bOut)) (go (\<lambda>d. d\<lparr>rq_parserState := START_LINE_END\<rparr>))
      | START_LINE_END \<Rightarrow>
          Option.bind (checkStartLineEnd (rData, bIn, bOut)) (go (\<lambda>d. d\<lparr>rq_parserState := LOCALHOST_HEADER_CHECK\<rparr>))
      | LOCALHOST_HEADER_CHECK \<Rightarrow>
          Option.bind (checkLocalHost (rData, bIn, bOut)) (\<lambda>(r, rData, bIn, bOut).
            if r then
              do {
                calls' \<leftarrow> hostCallback rData calls;
                Some (True, True, rData\<lparr>rq_parserState := FINISHED\<rparr>, bIn, bOut, calls')
              }
            else if rq_isBufferEmpty rData then Some (False, True, rData, bIn, bOut, calls)
            else Some (True, True, rData\<lparr>rq_parserState := HEADERS\<rparr>, bIn, bOut, calls))
      | HEADERS \<Rightarrow>
          Option.bind (checkHostHeader (rData, bIn, bOut))
            (go (\<lambda>d. d\<lparr>rq_parserState := SPACE_TRANSITION, rq_next := HOST\<rparr>))
      | HOST \<Rightarrow>
          Option.bind (extractHost (rData, bIn, bOut)) (\<lambda>(aux, rData, bIn, bOut).
            if \<not> aux \<and> (rq_host rData ! 0 \<noteq> 0 \<or> rq_isBufferEmpty rData)
            then Some (False, True, rData, bIn, bOut, calls)
            else if aux then
              do {
                calls' \<leftarrow> hostCallback rData calls;
                Some (True, True, rData\<lparr>rq_parserState := FINISHED\<rparr>, bIn, bOut, calls')
              }
            else Some (True, True, rData, bIn, bOut, calls))
      | FINISHED \<Rightarrow> Some (True, False, rData, bIn, bOut, calls))"

definition checkRequestInner_body :: "rq_loop \<Rightarrow> (bool \<times> rq_loop) option" where
  "checkRequestInner_body s =
     (case s of (success, active, st) \<Rightarrow>
      if success \<and> active then do { s' \<leftarrow> rq_switch st; Some (False, s') } else Some (True, s))"

text \<open>The error that a failed run reports, by the parser state it failed in.\<close>

definition rq_error :: "RequestData \<Rightarrow> requestState" where
  "rq_error rData =
     (case rq_parserState rData of
        METHOD \<Rightarrow> (if rq_method rData = UNDEFINED_M then GENERAL_METHOD_ERROR else UNSUPPORTED_METHOD_ERROR)
      | URI \<Rightarrow> HOST_ERROR
      | URI_HOST \<Rightarrow> HOST_ERROR
      | VERSION \<Rightarrow> VERSION_ERROR
      | START_LINE_END \<Rightarrow> START_LINE_END_ERROR
      | HEADERS \<Rightarrow> HOST_ERROR
      | HOST \<Rightarrow> HOST_ERROR
      | _ \<Rightarrow> rq_state rData)"

definition checkRequestInner :: "rq_bufs \<Rightarrow> (bool \<times> RequestData \<times> buffer \<times> buffer \<times> host_call list) option" where
  "checkRequestInner s =
     (case s of (rData, bIn, bOut) \<Rightarrow>
      do {
        (success, _, rData', bIn', bOut', calls) \<leftarrow>
          c_loop checkRequestInner_body (True, True, rData\<lparr>rq_isBufferEmpty := False\<rparr>, bIn, bOut, []);
        let rData'' = (if \<not> success \<and> \<not> rq_isBufferEmpty rData'
          then rData'\<lparr>rq_state := rq_error rData'\<rparr> else rData');
        Some (success, rData'', bIn', bOut', calls)
      })"

definition checkRequest ::
  "RequestData \<Rightarrow> buffer \<Rightarrow> buffer \<Rightarrow> (bool \<times> RequestData \<times> buffer \<times> buffer \<times> host_call list) option" where
  "checkRequest rData bIn bOut = checkRequestInner (rData\<lparr>rq_version := V_1_1\<rparr>, bIn, bOut)"

end
