(* ===== verification/RequestFacts.thy ===== *)
theory RequestFacts
  imports RequestParser
begin

text \<open>
  Safety, termination and results of the request parser. First one contract per \<open>static\<close>
  function (it returns, and keeps the buffers and the host array well formed), then the state
  machine's loop, then the properties.
\<close>

section \<open>Contracts of the parser's functions\<close>

definition rq_ok :: "rq_bufs \<Rightarrow> bool" where
  "rq_ok s = (case s of (rData, bIn, bOut) \<Rightarrow> io_ok bIn bOut
     \<and> length (rq_host rData) = HOST_MAX_SIZE \<and> rq_version rData \<noteq> UNDEFINED)"

lemma rq_ok_simp [simp]:
  "rq_ok (rData, bIn, bOut) \<longleftrightarrow> io_ok bIn bOut \<and> length (rq_host rData) = HOST_MAX_SIZE
     \<and> rq_version rData \<noteq> UNDEFINED"
  by (simp add: rq_ok_def)

lemma nul_free_literals [simp]:
  "0 \<notin> set (str ''HTTP'')" "0 \<notin> set (str ''://'')" "0 \<notin> set (str ''HTTP/1.'')"
  "0 \<notin> set (str ''X-LOCALHOST:'')" "0 \<notin> set (str ''OST:'')"
  by (simp_all add: str_def)

text \<open>\<open>same_host\<close>: what a function that touches neither the host nor the state leaves unchanged.\<close>

abbreviation same_host :: "RequestData \<Rightarrow> RequestData \<Rightarrow> bool" where
  "same_host r r' \<equiv> rq_host r' = rq_host r \<and> rq_parserState r' = rq_parserState r \<and> rq_next r' = rq_next r"

abbreviation busy :: "RequestData \<Rightarrow> bool" where
  "busy r \<equiv> rq_parserState r \<noteq> SPACE_TRANSITION \<and> rq_parserState r \<noteq> FINISHED"

lemma rq_checkSpaces_spec:
  assumes "rq_ok (rData, bIn, bOut)"
  shows "\<exists>r rData' bIn' bOut'. rq_checkSpaces (rData, bIn, bOut) = Some (r, rData', bIn', bOut')
    \<and> rq_ok (rData', bIn', bOut') \<and> same_host rData rData' \<and> (r \<longrightarrow> rData' = rData)
    \<and> (\<not> r \<longrightarrow> rq_isBufferEmpty rData')"
proof -
  have I: "buf_inv bIn" "buf_inv bOut" using assms by simp_all
  from moveThroughSpaces_spec [OF I(1)] obtain c b' where
    m: "moveThroughSpaces bIn = Some (c, b')" "buf_inv b'" by blast
  show ?thesis
    using m I assms by (auto simp: rq_checkSpaces_def buf_eqs)
qed

lemma extractHttpMethod_loop_spec:
  assumes "rq_ok (rData, bIn, bOut)" and "\<forall>(opt, ty) \<in> set opts. 0 \<notin> set (tl opt)"
  shows "\<exists>rData' bIn' bOut'. extractHttpMethod_loop opts c (rData, bIn, bOut) = Some (rData', bIn', bOut')
    \<and> rq_ok (rData', bIn', bOut') \<and> same_host rData rData'"
  using assms
proof (induction opts arbitrary: rData bIn bOut)
  case (Cons ot opts)
  obtain opt ty where ot: "ot = (opt, ty)" by (cases ot)
  show ?case
  proof (cases "hd opt = c")
    case True
    have "io_ok bIn bOut" "0 \<notin> set (tl opt)" using Cons.prems ot by auto
    from matchFormat_spec [OF this, of "[c]" "rq_isBufferEmpty rData"]
    obtain r b' bo' e' where m: "matchFormat (tl opt) bIn bOut [c] (rq_isBufferEmpty rData) = Some (r, b', bo', e')"
      "io_ok b' bo'" by blast
    have "rq_ok (rData\<lparr>rq_isBufferEmpty := e'\<rparr>, b', bo')" using m Cons.prems by simp
    from Cons.IH [OF this] Cons.prems(2) show ?thesis
      using m True Cons.prems(1) ot by auto
  next
    case False
    with Cons show ?thesis by (simp add: ot)
  qed
qed simp

lemma methodOption_nul_free: "\<forall>(opt, ty) \<in> set methodOption. 0 \<notin> set (tl opt)"
  by (simp add: methodOption_def)

lemma extractHttpMethod_spec:
  assumes "rq_ok (rData, bIn, bOut)"
  shows "\<exists>r rData' bIn' bOut'. extractHttpMethod (rData, bIn, bOut) = Some (r, rData', bIn', bOut')
    \<and> rq_ok (rData', bIn', bOut') \<and> same_host rData rData'"
proof -
  from assms readAndWrite_spec [of bIn bOut] obtain b1 bo1 where
    r: "readAndWrite bIn bOut = Some (peekl (pending bIn), b1, bo1)" "io_ok b1 bo1" by auto
  have "rq_ok (rData, b1, bo1)" using assms r by simp
  from extractHttpMethod_loop_spec [OF this methodOption_nul_free, of "toupper (peekl (pending bIn))"]
  obtain rData' bIn' bOut' where
    l: "extractHttpMethod_loop methodOption (toupper (peekl (pending bIn))) (rData, b1, bo1) = Some (rData', bIn', bOut')"
      "rq_ok (rData', bIn', bOut')" "same_host rData rData'" by blast
  show ?thesis
  proof (cases "peekl (pending bIn) = 0")
    case True
    with r assms show ?thesis by (auto simp: extractHttpMethod_def)
  next
    case False
    with r l show ?thesis by (simp add: extractHttpMethod_def)
  qed
qed

interpretation relative_uri: c_loop_contract cleanRelativeUri_body
  "\<lambda>(c, b, bo). io_ok b bo" "\<lambda>(c, b, bo). length (pending b)" "\<lambda>(c, b, bo). io_ok b bo \<and> c = peekl (pending b)"
proof (rule c_loop_contractI, goal_cases)
  case (1 s)
  obtain c b bo where s: "s = (c, b, bo)" by (cases s)
  with 1 have I: "io_ok b bo" by simp
  let ?p = "peekl (pending b)"
  show ?case
  proof (cases "?p \<noteq> 0 \<and> ?p \<noteq> 32 \<and> ?p \<noteq> 9")
    case True
    then have "pending b \<noteq> []" by auto
    with True I show ?thesis by (simp add: s cleanRelativeUri_body_def buf_eqs buf_view)
  next
    case False
    with I show ?thesis by (auto simp: s cleanRelativeUri_body_def buf_eqs)
  qed
qed

lemma cleanRelativeUri_spec:
  assumes "rq_ok (rData, bIn, bOut)"
  shows "\<exists>r rData' bIn' bOut'. cleanRelativeUri (rData, bIn, bOut) = Some (r, rData', bIn', bOut')
    \<and> rq_ok (rData', bIn', bOut') \<and> same_host rData rData'
    \<and> (\<not> r \<longrightarrow> rq_isBufferEmpty rData')"
  using relative_uri.loop_returns [of "(0, bIn, bOut)"] assms
  by (auto simp: cleanRelativeUri_def)

text \<open>
  The host loops: \<open>i\<close> stays in the array, a copied host is not empty, and the array's last
  byte, once NUL, is overwritten only by a host that fills the array.
\<close>

definition host_inv :: "bool \<Rightarrow> nat \<Rightarrow> RequestData \<Rightarrow> bool" where
  "host_inv nul i rData \<longleftrightarrow> i \<le> HOST_MAX_SIZE \<and> busy rData \<and> length (rq_host rData) = HOST_MAX_SIZE
     \<and> rq_version rData \<noteq> UNDEFINED \<and> (0 < i \<longrightarrow> rq_host rData ! 0 \<noteq> 0)
     \<and> (nul \<and> i < HOST_MAX_SIZE \<longrightarrow> rq_host rData ! 254 = 0)"

lemma is_host_char_nonzero: "is_host_char c \<Longrightarrow> c \<noteq> 0"
  by (auto simp: is_host_char_def)

lemma host_inv_append:
  "host_inv nul i r \<Longrightarrow> i < HOST_MAX_SIZE \<Longrightarrow> c \<noteq> 0 \<Longrightarrow> host_inv nul (Suc i) (r\<lparr>rq_host := (rq_host r)[i := c]\<rparr>)"
  by (auto simp: host_inv_def HOST_MAX_SIZE_def nth_list_update)

lemma host_inv_restart:
  "host_inv nul i r \<Longrightarrow> i < HOST_MAX_SIZE \<Longrightarrow> host_inv nul 0 (r\<lparr>rq_host := (rq_host r)[0 := 0]\<rparr>)"
  by (auto simp: host_inv_def HOST_MAX_SIZE_def nth_list_update)

interpretation uri_host: c_loop_contract checkUriForHost_body
  "\<lambda>(i, c, rData, b, bo). io_ok b bo \<and> host_inv nul i rData \<and> rq_parserState rData = st"
  "\<lambda>(i, c, rData, b, bo). length (pending b)"
  "\<lambda>(i, c, rData, b, bo). io_ok b bo \<and> host_inv nul i rData \<and> rq_parserState rData = st
     \<and> (i < HOST_MAX_SIZE \<longrightarrow> c = tolower (peekl (pending b)))" for nul st
proof (rule c_loop_contractI, goal_cases)
  case (1 s)
  obtain i c rData b bo where s: "s = (i, c, rData, b, bo)" by (cases s)
  with 1 have I: "io_ok b bo" and H: "host_inv nul i rData" and st: "rq_parserState rData = st" by simp_all
  let ?c = "tolower (peekl (pending b))"
  show ?case
  proof (cases "i < HOST_MAX_SIZE \<and> ?c \<noteq> 0 \<and> (is_host_char ?c \<or> ?c = 64)")
    case True
    then have "pending b \<noteq> []" by auto
    moreover have "i < length (rq_host rData)" "0 < length (rq_host rData)"
      using H True by (auto simp: host_inv_def)
    ultimately show ?thesis
      using True I H st host_inv_append [OF H, of ?c] host_inv_restart [OF H]
      by (auto simp: s checkUriForHost_body_def buf_eqs buf_view Let_def)
  next
    case False
    with I H st show ?thesis by (auto simp: s checkUriForHost_body_def buf_eqs Let_def)
  qed
qed

text \<open>\<open>extractHost\<close> needs one thing more: with nothing copied, nothing was read.\<close>

interpretation header_host: c_loop_contract extractHost_body
  "\<lambda>(i, c, rData, b, bo). io_ok b bo \<and> host_inv nul i rData \<and> (i = 0 \<longrightarrow> (rData, b, bo) = start)
     \<and> rq_parserState rData = rq_parserState (fst start)"
  "\<lambda>(i, c, rData, b, bo). length (pending b)"
  "\<lambda>(i, c, rData, b, bo). io_ok b bo \<and> host_inv nul i rData \<and> (i = 0 \<longrightarrow> (rData, b, bo) = start)
     \<and> rq_parserState rData = rq_parserState (fst start) \<and> (i < HOST_MAX_SIZE \<longrightarrow> c = tolower (peekl (pending b)) \<and> \<not> is_host_char c)" for nul start
proof (rule c_loop_contractI, goal_cases)
  case (1 s)
  obtain i c rData b bo where s: "s = (i, c, rData, b, bo)" by (cases s)
  with 1 have I: "io_ok b bo" and H: "host_inv nul i rData" and z: "i = 0 \<longrightarrow> (rData, b, bo) = start"
    and st: "rq_parserState rData = rq_parserState (fst start)"
    by simp_all
  let ?c = "tolower (peekl (pending b))"
  show ?case
  proof (cases "i < HOST_MAX_SIZE \<and> is_host_char ?c")
    case True
    then have "?c \<noteq> 0" by (auto dest: is_host_char_nonzero)
    moreover from this have "pending b \<noteq> []" by auto
    moreover have "i < length (rq_host rData)" using H True by (auto simp: host_inv_def)
    ultimately show ?thesis
      using True I st host_inv_append [OF H, of ?c]
      by (auto simp: s extractHost_body_def buf_eqs buf_view Let_def)
  next
    case False
    with I H z st show ?thesis by (auto simp: s extractHost_body_def buf_eqs Let_def dest: is_host_char_nonzero)
  qed
qed

text \<open>
  The part after the loop. If it does not return at once, it has kept the host, and it has read
  something when it found a colon.
\<close>

lemma host_port_spec:
  assumes "io_ok b bo" and "host_inv nul i rData"
  shows "\<exists>out v rData' b' bo'. host_port i c (rData, b, bo) = Some (out, v, rData', b', bo')
    \<and> io_ok b' bo' \<and> same_host rData rData' \<and> rq_version rData' = rq_version rData \<and> (out \<longrightarrow> rq_isBufferEmpty rData')
    \<and> (\<not> out \<and> c \<noteq> 58 \<longrightarrow> v \<and> (rData', b', bo') = (rData, b, bo))
    \<and> (\<not> out \<and> c = 58 \<and> pending b \<noteq> [] \<and> \<not> rq_isBufferEmpty rData'
        \<longrightarrow> length (pending b') < length (pending b))"
proof (cases "c = 58")
  case True
  from readAndWrite_spec [OF assms(1)] obtain b1 bo1 where
    r: "readAndWrite b bo = Some (peekl (pending b), b1, bo1)" "io_ok b1 bo1" "pending b1 = tl (pending b)"
    by blast
  from getNumber_spec [OF r(2), of "rq_port rData" "[58]" "rq_isBufferEmpty rData"]
  obtain v p b2 bo2 e where
    n: "getNumber (rq_port rData) b1 bo1 [58] (rq_isBufferEmpty rData) = Some (v, p, b2, bo2, e)" "io_ok b2 bo2"
      "\<not> e \<longrightarrow> length (pending b2) \<le> length (pending b1)" by blast
  have i: "i \<le> length (rq_host rData)" using assms(2) by (simp add: host_inv_def)
  have l: "pending b \<noteq> [] \<longrightarrow> length (pending b1) < length (pending b)" using r(3) by simp
  show ?thesis
  proof (cases "\<not> v \<and> e")
    case True': True
    with True r n i show ?thesis by (simp add: host_port_def writeToBufReverse_eq)
  next
    case False
    then have "\<not> (\<not> v \<and> e)" by blast
    with True r n i l show ?thesis
      by (cases "pending b") (auto simp add: host_port_def simp del: de_Morgan_conj)
  qed
next
  case False
  have "i \<le> length (rq_host rData)" using assms(2) by (simp add: host_inv_def)
  with False assms(1) show ?thesis by (cases "c = 0") (auto simp: host_port_def writeToBufReverse_eq)
qed

lemma checkUriForHost_spec:
  assumes "rq_ok (rData, b, bo)" and "busy rData"
  shows "\<exists>r rData' b' bo'. checkUriForHost (rData, b, bo) = Some (r, rData', b', bo')
    \<and> rq_ok (rData', b', bo') \<and> rq_parserState rData' = rq_parserState rData
    \<and> (rq_host rData ! 254 = 0 \<and> (r \<or> rq_host rData' ! 0 = 0) \<longrightarrow> rq_host rData' ! 254 = 0)"
proof -
  let ?nul = "rq_host rData ! 254 = 0"
  have "io_ok b bo \<and> host_inv ?nul 0 rData" using assms by (simp add: host_inv_def)
  then obtain i c rData1 b1 bo1 where
    l: "c_loop checkUriForHost_body (0, 0, rData, b, bo) = Some (i, c, rData1, b1, bo1)"
      "io_ok b1 bo1" "host_inv ?nul i rData1" "rq_parserState rData1 = rq_parserState rData"
    using uri_host.loop_returns [of ?nul "rq_parserState rData" "(0, 0, rData, b, bo)"] by auto
  from host_port_spec [OF l(2,3), of c] obtain out v rData2 b2 bo2 where
    p: "host_port i c (rData1, b1, bo1) = Some (out, v, rData2, b2, bo2)" "io_ok b2 bo2" "same_host rData1 rData2"
      "rq_version rData2 = rq_version rData1"
    by blast
  have h: "?nul \<and> (i < HOST_MAX_SIZE \<or> rq_host rData1 ! 0 = 0) \<longrightarrow> rq_host rData1 ! 254 = 0"
    "length (rq_host rData1) = HOST_MAX_SIZE" "busy rData1" "rq_version rData1 \<noteq> UNDEFINED"
    using l(3) by (auto simp: host_inv_def HOST_MAX_SIZE_def)
  show ?thesis
    using l p h by (cases out) (auto simp: checkUriForHost_def)
qed

lemma checkUri_spec:
  assumes "rq_ok (rData, b, bo)" and "rq_parserState rData = URI"
  shows "\<exists>r rData' b' bo'. checkUri (rData, b, bo) = Some (r, rData', b', bo')
    \<and> rq_ok (rData', b', bo') \<and> rq_parserState rData' \<in> {URI, URI_HOST, RELATIVE_URI}
    \<and> (rq_host rData ! 254 = 0 \<and> (r \<or> rq_host rData' ! 0 = 0) \<longrightarrow> rq_host rData' ! 254 = 0)"
proof -
  let ?nul = "rq_host rData ! 254 = 0"
  have rel: "\<exists>d' c' co'. Option.bind (cleanRelativeUri (d\<lparr>rq_parserState := RELATIVE_URI\<rparr>, c, co))
        (\<lambda>(_, s'). Some (False, s')) = Some (False, d', c', co')
      \<and> rq_ok (d', c', co') \<and> rq_parserState d' = RELATIVE_URI \<and> rq_host d' = rq_host d"
    if "rq_ok (d, c, co)" for d c co
    using cleanRelativeUri_spec [of "d\<lparr>rq_parserState := RELATIVE_URI\<rparr>" c co] that by auto
  have I: "io_ok b bo" using assms by simp
  from matchFormat_spec [OF I, of "str ''HTTP''" "[]" "rq_isBufferEmpty rData"] obtain r b1 bo1 e where
    m1: "matchFormat (str ''HTTP'') b bo [] (rq_isBufferEmpty rData) = Some (r, b1, bo1, e)" "io_ok b1 bo1"
    by auto
  from matchFormat_spec [OF m1(2), of "str ''://''" "str ''HTTP''" e] obtain r2 b2 bo2 e2 where
    m2: "matchFormat (str ''://'') b1 bo1 (str ''HTTP'') e = Some (r2, b2, bo2, e2)" "io_ok b2 bo2"
    by auto
  let ?d1 = "rData\<lparr>rq_isBufferEmpty := e\<rparr>"
  let ?d2 = "rData\<lparr>rq_isBufferEmpty := e2\<rparr>"
  have ok: "rq_ok (?d1, b1, bo1)" "rq_ok (?d2, b2, bo2)" "rq_ok (?d2\<lparr>rq_parserState := URI_HOST\<rparr>, b2, bo2)"
    using m1 m2 assms by simp_all
  from checkUriForHost_spec [OF ok(3)] obtain r3 d3 b3 bo3 where
    m3: "checkUriForHost (?d2\<lparr>rq_parserState := URI_HOST\<rparr>, b2, bo2) = Some (r3, d3, b3, bo3)"
      "rq_ok (d3, b3, bo3)" "rq_parserState d3 = URI_HOST"
      "?nul \<and> (r3 \<or> rq_host d3 ! 0 = 0) \<longrightarrow> rq_host d3 ! 254 = 0"
    by auto
  consider "r" "r2" "r3 \<or> rq_isBufferEmpty d3" | "r" "r2" "\<not> r3" "\<not> rq_isBufferEmpty d3"
    | "r" "\<not> r2" | "\<not> r" by blast
  then show ?thesis
  proof cases
    case 1 with m1 m2 m3 show ?thesis by (cases r3) (simp_all add: checkUri_def)
  next
    case 2 with m1 m2 m3 rel [OF m3(2)] show ?thesis by (auto simp: checkUri_def)
  next
    case 3 with m1 m2 ok assms rel [OF ok(2)] show ?thesis by (cases e2) (auto simp: checkUri_def)
  next
    case 4 with m1 ok assms rel [OF ok(1)] show ?thesis by (cases e) (auto simp: checkUri_def)
  qed
qed

lemma rq_extractHttpVersion_spec:
  assumes "rq_ok (rData, b, bo)"
  shows "\<exists>r rData' b' bo'. rq_extractHttpVersion (rData, b, bo) = Some (r, rData', b', bo')
    \<and> rq_ok (rData', b', bo') \<and> same_host rData rData'
    \<and> (\<not> r \<longrightarrow> rq_isBufferEmpty rData')"
proof -
  have I: "io_ok b bo" using assms by simp
  from matchFormat_spec [OF I, of "str ''HTTP/1.''" "[]" "rq_isBufferEmpty rData"] obtain r b1 bo1 e where
    m1: "matchFormat (str ''HTTP/1.'') b bo [] (rq_isBufferEmpty rData) = Some (r, b1, bo1, e)" "io_ok b1 bo1"
    by auto
  from readAndWrite_spec [OF m1(2)] obtain b2 bo2 where
    r: "readAndWrite b1 bo1 = Some (peekl (pending b1), b2, bo2)" "io_ok b2 bo2" by blast
  show ?thesis
    using m1 r assms
    by (cases r; cases "peekl (pending b1) = 0") (auto simp: rq_extractHttpVersion_def writePrefix_eq Let_def)
qed

lemma checkStartLineEnd_spec:
  assumes "rq_ok (rData, b, bo)"
  shows "\<exists>r rData' b' bo'. checkStartLineEnd (rData, b, bo) = Some (r, rData', b', bo')
    \<and> rq_ok (rData', b', bo') \<and> same_host rData rData'"
  using matchFormat_spec [of b bo "[13, 10]" "[]" "rq_isBufferEmpty rData"] assms
  by (auto simp: checkStartLineEnd_def checkCRLF_def)

lemma checkLocalHost_spec:
  assumes "rq_ok (rData, b, bo)"
  shows "\<exists>r rData' b' bo'. checkLocalHost (rData, b, bo) = Some (r, rData', b', bo')
    \<and> rq_ok (rData', b', bo') \<and> same_host rData rData'"
proof -
  have I: "io_ok b bo" using assms by simp
  from matchFormat_spec [OF I, of "str ''X-LOCALHOST:''" "[]" "rq_isBufferEmpty rData"] obtain r b1 bo1 e where
    m1: "matchFormat (str ''X-LOCALHOST:'') b bo [] (rq_isBufferEmpty rData) = Some (r, b1, bo1, e)" "io_ok b1 bo1"
    by auto
  show ?thesis
    using m1 assms by (auto simp: checkLocalHost_def peek_eq writeToBuf_eq Let_def simp del: writeToBuf.simps)
qed

interpretation host_header: c_loop_contract checkHostHeader_body
  "\<lambda>(h, e, rData, b, bo). rq_ok (rData, b, bo) \<and> same_host r0 rData"
  "\<lambda>(h, e, rData, b, bo). length (pending b)"
  "\<lambda>(h, e, rData, b, bo). rq_ok (rData, b, bo) \<and> same_host r0 rData" for r0
proof (rule c_loop_contractI, goal_cases)
  case (1 s)
  obtain h he rData b bo where s: "s = (h, he, rData, b, bo)" by (cases s)
  with 1 have O: "rq_ok (rData, b, bo)" and S: "same_host r0 rData" by auto
  let ?e = "rq_isBufferEmpty rData"
  from O have I: "io_ok b bo" by simp
  from readAndWrite_spec [OF I] obtain b1 bo1 where
    r: "readAndWrite b bo = Some (peekl (pending b), b1, bo1)" "io_ok b1 bo1" "pending b1 = tl (pending b)"
    by blast
  from matchFormat_spec [OF r(2), of "str ''OST:''" "[72]" ?e] obtain q b2 bo2 e2 where
    m1: "matchFormat (str ''OST:'') b1 bo1 [72] ?e = Some (q, b2, bo2, e2)" "io_ok b2 bo2"
      "\<not> e2 \<longrightarrow> length (pending b2) \<le> length (pending b1)" by auto
  from matchFormat_spec [OF r(2), of "[10]" "[13]" ?e] obtain q3 b3 bo3 e3 where
    m3: "matchFormat [10] b1 bo1 [13] ?e = Some (q3, b3, bo3, e3)" "io_ok b3 bo3"
      "\<not> e3 \<longrightarrow> length (pending b3) \<le> length (pending b1)" by auto
  from matchFormat_spec [OF m3(2), of "[13, 10]" "[13, 10]" e3] obtain q4 b4 bo4 e4 where
    m4: "matchFormat [13, 10] b3 bo3 [13, 10] e3 = Some (q4, b4, bo4, e4)" "io_ok b4 bo4"
      "\<not> e4 \<longrightarrow> \<not> e3 \<and> length (pending b4) \<le> length (pending b3)" by auto
  have l: "length (pending b1) < length (pending b)" if "toupper (peekl (pending b)) \<noteq> 0"
    using that r(3) by (cases "pending b") auto
  consider "toupper (peekl (pending b)) = 0" | "toupper (peekl (pending b)) = 72"
    | "toupper (peekl (pending b)) = 13"
    | "toupper (peekl (pending b)) \<noteq> 0" "toupper (peekl (pending b)) \<noteq> 72" "toupper (peekl (pending b)) \<noteq> 13"
    by blast
  then show ?case
  proof cases
    case 1 with r O S show ?thesis by (auto simp: s checkHostHeader_body_def)
  next
    case 2 with r m1 O S l show ?thesis
      by (cases q; cases e2) (auto simp: s checkHostHeader_body_def)
  next
    case 3 with r m3 m4 O S l show ?thesis
      by (cases q3; cases q4; cases e4; cases e3)
        (auto simp: s checkHostHeader_body_def checkLF_def checkCRLF_def)
  next
    case 4 with r O S l show ?thesis by (auto simp: s checkHostHeader_body_def)
  qed
qed

lemma checkHostHeader_spec:
  assumes "rq_ok (rData, b, bo)"
  shows "\<exists>r rData' b' bo'. checkHostHeader (rData, b, bo) = Some (r, rData', b', bo')
    \<and> rq_ok (rData', b', bo') \<and> same_host rData rData'"
  using host_header.loop_returns [of rData "(False, False, rData, b, bo)"] assms
  by (auto simp: checkHostHeader_def)

text \<open>
  \<open>extractHost\<close>, when it fails with the host still empty and data left, has either read
  something or changed nothing: then the next byte can never start a host.
\<close>

definition no_host_byte :: "byte \<Rightarrow> bool" where
  "no_host_byte c \<longleftrightarrow> c \<noteq> 0 \<and> c \<noteq> 58 \<and> c \<noteq> 32 \<and> c \<noteq> 9 \<and> c \<noteq> 13 \<and> \<not> is_host_char (tolower c)"

lemma extractHost_spec:
  assumes "rq_ok (rData, b, bo)" and "busy rData"
  shows "\<exists>r rData' b' bo'. extractHost (rData, b, bo) = Some (r, rData', b', bo')
    \<and> rq_ok (rData', b', bo') \<and> rq_parserState rData' = rq_parserState rData
    \<and> (rq_host rData ! 254 = 0 \<and> (r \<or> rq_host rData' ! 0 = 0) \<longrightarrow> rq_host rData' ! 254 = 0)
    \<and> (\<not> r \<and> rq_host rData' ! 0 = 0 \<and> \<not> rq_isBufferEmpty rData' \<longrightarrow>
        length (pending b') < length (pending b)
        \<or> (rData', b', bo') = (rData, b, bo) \<and> no_host_byte (peekl (pending b)))"
proof -
  let ?nul = "rq_host rData ! 254 = 0"
  have "io_ok b bo \<and> host_inv ?nul 0 rData" using assms by (simp add: host_inv_def)
  then obtain i c rData1 b1 bo1 where
    l: "c_loop extractHost_body (0, 0, rData, b, bo) = Some (i, c, rData1, b1, bo1)"
      "io_ok b1 bo1" "host_inv ?nul i rData1" "i = 0 \<longrightarrow> (rData1, b1, bo1) = (rData, b, bo)"
      "rq_parserState rData1 = rq_parserState rData"
      "i < HOST_MAX_SIZE \<longrightarrow> c = tolower (peekl (pending b1)) \<and> \<not> is_host_char c"
    using header_host.loop_returns [of ?nul "(rData, b, bo)" "(0, 0, rData, b, bo)"] by auto
  have f: "?nul \<and> (i < HOST_MAX_SIZE \<or> rq_host rData1 ! 0 = 0) \<longrightarrow> rq_host rData1 ! 254 = 0"
    "length (rq_host rData1) = HOST_MAX_SIZE" "0 < i \<longrightarrow> rq_host rData1 ! 0 \<noteq> 0"
    "busy rData1" "rq_version rData1 \<noteq> UNDEFINED"
    using l(3) by (auto simp: host_inv_def HOST_MAX_SIZE_def)
  from host_port_spec [OF l(2,3), of c] obtain out v rData2 b2 bo2 where
    p: "host_port i c (rData1, b1, bo1) = Some (out, v, rData2, b2, bo2)" "io_ok b2 bo2" "same_host rData1 rData2"
      "rq_version rData2 = rq_version rData1"
      "out \<longrightarrow> rq_isBufferEmpty rData2"
      "\<not> out \<and> c \<noteq> 58 \<longrightarrow> v \<and> (rData2, b2, bo2) = (rData1, b1, bo1)"
      "\<not> out \<and> c = 58 \<and> pending b1 \<noteq> [] \<and> \<not> rq_isBufferEmpty rData2 \<longrightarrow> length (pending b2) < length (pending b1)"
    by blast
  show ?thesis
  proof (cases out)
    case True
    with l(1,5) p f show ?thesis by (simp add: extractHost_def)
  next
    case False
    let ?c = "peekl (pending b2)"
    let ?r = "i < HOST_MAX_SIZE \<and> v \<and> (?c = 32 \<or> ?c = 9 \<or> ?c = 13)"
    have run: "extractHost (rData, b, bo) = Some (?r, rData2, b2, bo2)"
      using l(1) p(1,2) False by (simp add: extractHost_def peek_eq)
    have "length (pending b2) < length (pending b) \<or> (rData2, b2, bo2) = (rData, b, bo) \<and> no_host_byte ?c"
      if z: "\<not> ?r" "rq_host rData2 ! 0 = 0" "\<not> rq_isBufferEmpty rData2"
    proof -
      have i: "i = 0" using f(3) p(3) z(2) by auto
      with l(4,6) have s: "(rData1, b1, bo1) = (rData, b, bo)" and c: "c = tolower (peekl (pending b1))"
        "\<not> is_host_char c" by (auto simp: HOST_MAX_SIZE_def)
      show ?thesis
      proof (cases "c = 58")
        case True
        with c(1) have "pending b1 \<noteq> []" by (auto simp: tolower_def)
        with True False p(7) z(3) s show ?thesis by auto
      next
        case c58: False
        with False p(6) have e: "v" "(rData2, b2, bo2) = (rData1, b1, bo1)" by auto
        have "c \<noteq> 0"
          using p(1) False l(2) f(2) i by (cases "c = 0") (auto simp: host_port_def writeToBufReverse_eq)
        moreover have "?c \<noteq> 58" using c58 c(1) e(2) by (auto simp: tolower_def)
        ultimately show ?thesis
          using e s c z(1) i by (auto simp: no_host_byte_def HOST_MAX_SIZE_def)
      qed
    qed
    with run p f False l(5) show ?thesis by auto
  qed
qed

section \<open>The state machine\<close>

text \<open>
  The loop invariant. \<open>started\<close> says that the parser had not finished when the loop was
  entered; then the callback has been called, once and with the host and port, exactly when the
  state is \<open>FINISHED\<close>.
\<close>

definition rq_calls :: "RequestData \<Rightarrow> host_call list" where
  "rq_calls rData = [(c_string (rq_host rData), rq_port rData)]"

text \<open>The stages a request can be rejected in with data left.\<close>

definition rq_rejects :: "RequestData \<Rightarrow> bool" where
  "rq_rejects rData \<longleftrightarrow> rq_parserState rData \<in> {METHOD, URI, URI_HOST, RELATIVE_URI, START_LINE_END, HEADERS, HOST}"

fun rq_inv :: "bool \<Rightarrow> rq_loop \<Rightarrow> bool" where
  "rq_inv started (success, active, rData, bIn, bOut, calls) \<longleftrightarrow>
     rq_ok (rData, bIn, bOut)
     \<and> (rq_parserState rData = SPACE_TRANSITION \<longrightarrow> rq_next rData \<in> {URI, VERSION, HOST})
     \<and> (success \<longrightarrow> rq_host rData ! 254 = 0)
     \<and> (\<not> success \<or> active \<longrightarrow> \<not> started \<or> (if rq_parserState rData = FINISHED then calls = rq_calls rData else calls = []))
     \<and> (\<not> success \<longrightarrow> rq_parserState rData \<noteq> FINISHED
          \<and> (rq_isBufferEmpty rData \<or> rq_rejects rData))
     \<and> (\<not> active \<longrightarrow> success \<and> rq_parserState rData = FINISHED
          \<and> (started \<longrightarrow> calls = rq_calls rData))"

text \<open>Stages only go up; the one state that repeats is \<open>HOST\<close>.\<close>

definition rq_stage :: "RequestData \<Rightarrow> nat" where
  "rq_stage rData =
     (case rq_parserState rData of
        METHOD \<Rightarrow> 1
      | SPACE_TRANSITION \<Rightarrow> (case rq_next rData of URI \<Rightarrow> 2 | VERSION \<Rightarrow> 6 | _ \<Rightarrow> 11)
      | URI \<Rightarrow> 3 | URI_HOST \<Rightarrow> 4 | RELATIVE_URI \<Rightarrow> 5 | VERSION \<Rightarrow> 7 | START_LINE_END \<Rightarrow> 8
      | LOCALHOST_HEADER_CHECK \<Rightarrow> 9 | HEADERS \<Rightarrow> 10 | HOST \<Rightarrow> 12 | FINISHED \<Rightarrow> 13)"

fun rq_rank :: "rq_loop \<Rightarrow> nat" where
  "rq_rank (success, active, rData, _) = (if success \<and> active then 14 - rq_stage rData else 0)"

fun rq_left :: "rq_loop \<Rightarrow> nat" where
  "rq_left (_, _, _, bIn, _) = length (pending bIn)"

definition rq_order :: "(rq_loop \<times> rq_loop) set" where
  "rq_order = measures [rq_rank, rq_left]"

lemma wf_rq_order: "wf rq_order"
  by (simp add: rq_order_def)

lemma rq_order_iff [simp]:
  "(t, s) \<in> rq_order \<longleftrightarrow> rq_rank t < rq_rank s \<or> rq_rank t = rq_rank s \<and> rq_left t < rq_left s"
  by (auto simp: rq_order_def)

text \<open>The states that repeat for ever: an empty host in front of a byte that no host has.\<close>

fun rq_stuck :: "rq_loop \<Rightarrow> bool" where
  "rq_stuck (success, active, rData, bIn, _) \<longleftrightarrow> success \<and> active \<and> rq_parserState rData = HOST
     \<and> rq_host rData ! 0 = 0 \<and> no_host_byte (peekl (pending bIn))"

definition rq_progress :: "bool \<Rightarrow> rq_loop \<Rightarrow> rq_loop \<Rightarrow> bool" where
  "rq_progress st s t \<longleftrightarrow> rq_inv st t \<and> ((t, s) \<in> rq_order \<or> t = s \<and> rq_stuck s)"

lemma rq_stage_le: "rq_stage rData < 14"
  by (auto simp: rq_stage_def split: requestParserState.splits)

lemma hostCallback_runs:
  assumes "length (rq_host rData) = HOST_MAX_SIZE" and "rq_host rData ! 254 = 0"
  shows "hostCallback rData calls = Some (calls @ rq_calls rData)"
proof -
  have "0 \<in> set (rq_host rData)"
    using assms nth_mem [of 254 "rq_host rData"] by (simp add: HOST_MAX_SIZE_def)
  then show ?thesis by (simp add: hostCallback_def rq_calls_def)
qed

lemma rq_switch_space:
  assumes "rq_inv st (True, True, rData, b, bo, calls)" and "rq_parserState rData = SPACE_TRANSITION"
  shows "returns (rq_switch (rData, b, bo, calls)) (rq_progress st (True, True, rData, b, bo, calls))"
proof -
  from rq_checkSpaces_spec [of rData b bo] assms obtain r rData' b' bo' where
    "rq_checkSpaces (rData, b, bo) = Some (r, rData', b', bo')" "rq_ok (rData', b', bo')"
    "same_host rData rData'" "r \<longrightarrow> rData' = rData" "\<not> r \<longrightarrow> rq_isBufferEmpty rData'" by auto
  with assms show ?thesis
    by (cases r) (auto simp: rq_switch_def rq_progress_def rq_rejects_def rq_stage_def rq_calls_def)
qed

lemma rq_switch_plain:
  assumes "rq_inv st (True, True, rData, b, bo, calls)"
    and "rq_parserState rData \<in> {METHOD, RELATIVE_URI, VERSION, START_LINE_END, LOCALHOST_HEADER_CHECK, HEADERS}"
  shows "returns (rq_switch (rData, b, bo, calls)) (rq_progress st (True, True, rData, b, bo, calls))"
proof -
  have ok: "rq_ok (rData, b, bo)" using assms by simp
  from assms(2) consider "rq_parserState rData = METHOD" | "rq_parserState rData = RELATIVE_URI"
    | "rq_parserState rData = VERSION" | "rq_parserState rData = START_LINE_END"
    | "rq_parserState rData = LOCALHOST_HEADER_CHECK" | "rq_parserState rData = HEADERS" by blast
  then show ?thesis
  proof cases
    case 1 with assms extractHttpMethod_spec [OF ok] show ?thesis
      by (auto simp: rq_switch_def rq_progress_def rq_rejects_def rq_stage_def)
  next
    case 2 with assms cleanRelativeUri_spec [OF ok] show ?thesis
      by (auto simp: rq_switch_def rq_progress_def rq_rejects_def rq_stage_def)
  next
    case 3 with assms rq_extractHttpVersion_spec [OF ok] show ?thesis
      by (auto simp: rq_switch_def rq_progress_def rq_rejects_def rq_stage_def)
  next
    case 4 with assms checkStartLineEnd_spec [OF ok] show ?thesis
      by (auto simp: rq_switch_def rq_progress_def rq_rejects_def rq_stage_def)
  next
    case 5 with assms checkLocalHost_spec [OF ok] show ?thesis
      by (auto simp: rq_switch_def rq_progress_def rq_rejects_def rq_stage_def hostCallback_runs rq_calls_def)
  next
    case 6 with assms checkHostHeader_spec [OF ok] show ?thesis
      by (auto simp: rq_switch_def rq_progress_def rq_rejects_def rq_stage_def)
  qed
qed

lemma rq_switch_uri:
  assumes "rq_inv st (True, True, rData, b, bo, calls)" and "rq_parserState rData \<in> {URI, URI_HOST}"
  shows "returns (rq_switch (rData, b, bo, calls)) (rq_progress st (True, True, rData, b, bo, calls))"
proof -
  define f where "f = (if rq_parserState rData = URI then checkUri else checkUriForHost)"
  have I: "rq_ok (rData, b, bo)" "rq_host rData ! 254 = 0" using assms by auto
  have "\<exists>r rData' b' bo'. f (rData, b, bo) = Some (r, rData', b', bo') \<and> rq_ok (rData', b', bo') \<and> rq_parserState rData' \<in> {URI, URI_HOST, RELATIVE_URI}
    \<and> (r \<or> rq_host rData' ! 0 = 0 \<longrightarrow> rq_host rData' ! 254 = 0)"
    using checkUri_spec [OF I(1)] checkUriForHost_spec [OF I(1)] I(2) assms(2) by (auto simp: f_def)
  then obtain r rData' b' bo' where
    "f (rData, b, bo) = Some (r, rData', b', bo')" "rq_ok (rData', b', bo')" "rq_parserState rData' \<in> {URI, URI_HOST, RELATIVE_URI}"
    "r \<or> rq_host rData' ! 0 = 0 \<longrightarrow> rq_host rData' ! 254 = 0"
    by blast
  with assms show ?thesis
    by (cases r) (auto simp: f_def rq_switch_def rq_progress_def rq_rejects_def rq_stage_def hostCallback_runs rq_calls_def)
qed

lemma rq_switch_host:
  assumes "rq_inv st (True, True, rData, b, bo, calls)" and "rq_parserState rData = HOST"
  shows "returns (rq_switch (rData, b, bo, calls)) (rq_progress st (True, True, rData, b, bo, calls))"
proof -
  have "rq_ok (rData, b, bo)" "busy rData" "rq_host rData ! 254 = 0" using assms by auto
  then obtain r rData' b' bo' where
    "extractHost (rData, b, bo) = Some (r, rData', b', bo')" "rq_ok (rData', b', bo')"
    "rq_parserState rData' = rq_parserState rData"
    "r \<or> rq_host rData' ! 0 = 0 \<longrightarrow> rq_host rData' ! 254 = 0"
    "\<not> r \<and> rq_host rData' ! 0 = 0 \<and> \<not> rq_isBufferEmpty rData' \<longrightarrow> length (pending b') < length (pending b)
      \<or> (rData', b', bo') = (rData, b, bo) \<and> no_host_byte (peekl (pending b))"
    using extractHost_spec [of rData b bo] by fastforce
  with assms show ?thesis
    by (cases r) (auto simp: rq_switch_def rq_progress_def rq_rejects_def rq_stage_def hostCallback_runs rq_calls_def)
qed

text \<open>One iteration, from any state of the invariant.\<close>

lemma rq_iteration:
  assumes "rq_inv st s"
  shows "\<exists>b t. checkRequestInner_body s = Some (b, t) \<and> (b \<longrightarrow> t = s \<and> \<not> (fst s \<and> fst (snd s)))
    \<and> (\<not> b \<longrightarrow> rq_progress st s t)"
proof -
  obtain succ act rData b bo calls where s: "s = (succ, act, rData, b, bo, calls)" by (cases s)
  show ?thesis
  proof (cases "succ \<and> act")
    case True
    have "returns (rq_switch (rData, b, bo, calls)) (rq_progress st (True, True, rData, b, bo, calls))"
    proof (cases "rq_parserState rData")
      case FINISHED
      with assms s True show ?thesis
        by (auto simp: rq_switch_def rq_progress_def rq_rejects_def rq_stage_def)
    qed (use assms s True rq_switch_space rq_switch_plain rq_switch_uri rq_switch_host in auto)
    with True s show ?thesis by (auto simp: checkRequestInner_body_def returns_iff)
  next
    case False
    with s show ?thesis by (auto simp: checkRequestInner_body_def)
  qed
qed

lemma rq_loop_result:
  assumes "rq_inv st s"
  shows "(\<exists>t. c_loop checkRequestInner_body s = Some t \<and> rq_inv st t \<and> \<not> (fst t \<and> fst (snd t)))
    \<or> (\<exists>t. c_steps checkRequestInner_body s t \<and> rq_stuck t \<and> c_loop checkRequestInner_body s = None)"
  using c_loop_or_stuck [where I = "rq_inv st", OF wf_rq_order assms,
      of checkRequestInner_body "\<lambda>t. rq_inv st t \<and> \<not> (fst t \<and> fst (snd t))" rq_stuck]
    rq_iteration unfolding rq_progress_def by blast

section \<open>Properties\<close>

text \<open>
  A parser between two calls: its buffers are well formed, the host array has its size and its
  last byte is still NUL, and a space transition knows where it leads.
\<close>

definition rq_wf :: "RequestData \<Rightarrow> buffer \<Rightarrow> buffer \<Rightarrow> bool" where
  "rq_wf rData bIn bOut \<longleftrightarrow> buf_inv bIn \<and> buf_inv bOut
     \<and> length (rq_host rData) = HOST_MAX_SIZE \<and> rq_host rData ! 254 = 0
     \<and> (rq_parserState rData = SPACE_TRANSITION \<longrightarrow> rq_next rData \<in> {URI, VERSION, HOST})"

definition rq_start :: "RequestData \<Rightarrow> buffer \<Rightarrow> buffer \<Rightarrow> rq_loop" where
  "rq_start rData bIn bOut =
     (True, True, rData\<lparr>rq_version := V_1_1, rq_isBufferEmpty := False\<rparr>, bIn, bOut, [])"

lemma rq_start_inv: "rq_wf rData bIn bOut \<Longrightarrow> rq_inv (rq_parserState rData \<noteq> FINISHED) (rq_start rData bIn bOut)"
  by (auto simp: rq_wf_def rq_start_def)

lemma checkRequest_loop:
  "checkRequest rData bIn bOut =
    map_option (\<lambda>(success, active, d, b, bo, calls).
      (success, if \<not> success \<and> \<not> rq_isBufferEmpty d then d\<lparr>rq_state := rq_error d\<rparr> else d, b, bo, calls))
      (c_loop checkRequestInner_body (rq_start rData bIn bOut))"
  by (cases "c_loop checkRequestInner_body (rq_start rData bIn bOut)")
    (auto simp: checkRequest_def checkRequestInner_def rq_start_def Let_def)

lemma rq_error_again [simp]: "rq_error (d\<lparr>rq_state := rq_error d\<rparr>) = rq_error d"
  by (simp add: rq_error_def split: requestParserState.splits)

lemma checkRequest_result:
  assumes "rq_wf rData bIn bOut"
  shows "returns (checkRequest rData bIn bOut) (\<lambda>(ok, rData', bIn', bOut', calls).
      buf_inv bIn' \<and> buf_inv bOut' \<and> length (rq_host rData') = HOST_MAX_SIZE
      \<and> (ok \<longrightarrow> rq_wf rData' bIn' bOut')
      \<and> (rq_parserState rData' = SPACE_TRANSITION \<longrightarrow> rq_next rData' \<in> {URI, VERSION, HOST})
      \<and> (ok \<longleftrightarrow> rq_parserState rData' = FINISHED)
      \<and> (rq_parserState rData \<noteq> FINISHED \<longrightarrow> calls = (if ok then rq_calls rData' else []))
      \<and> (\<not> ok \<and> \<not> rq_isBufferEmpty rData' \<longrightarrow> rq_state rData' = rq_error rData' \<and> rq_rejects rData'))
    \<or> (\<exists>t. c_steps checkRequestInner_body (rq_start rData bIn bOut) t \<and> rq_stuck t
         \<and> checkRequest rData bIn bOut = None)"
proof -
  from rq_loop_result [OF rq_start_inv [OF assms]] show ?thesis
  proof
    assume "\<exists>t. c_loop checkRequestInner_body (rq_start rData bIn bOut) = Some t
      \<and> rq_inv (rq_parserState rData \<noteq> FINISHED) t \<and> \<not> (fst t \<and> fst (snd t))"
    then obtain t where t: "c_loop checkRequestInner_body (rq_start rData bIn bOut) = Some t"
      "rq_inv (rq_parserState rData \<noteq> FINISHED) t" "\<not> (fst t \<and> fst (snd t))"
      by blast
    obtain succ act d b bo calls where "t = (succ, act, d, b, bo, calls)" by (cases t)
    with t show ?thesis
      by (cases succ) (auto simp: checkRequest_loop rq_wf_def rq_rejects_def rq_calls_def)
  next
    assume "\<exists>t. c_steps checkRequestInner_body (rq_start rData bIn bOut) t \<and> rq_stuck t
      \<and> c_loop checkRequestInner_body (rq_start rData bIn bOut) = None"
    then show ?thesis by (auto simp: checkRequest_loop)
  qed
qed

end
