(* ===== verification/RequestProperties.thy ===== *)
theory RequestProperties
  imports RequestFacts
begin

text \<open>
  What the request parser makes of concrete shapes of requests: an absolute URI, a \<open>Host\<close>
  header, user information in front of the host, and a host that is no host.
\<close>

section \<open>Runs of the parser's functions on a known prefix\<close>

definition host_chars :: "byte list \<Rightarrow> bool" where
  "host_chars h \<longleftrightarrow> (\<forall>x \<in> set h. is_host_char (tolower x))"

lemma host_chars_simps [simp]:
  "host_chars []" "host_chars (x # h) \<longleftrightarrow> is_host_char (tolower x) \<and> host_chars h"
  by (auto simp: host_chars_def)

lemma uri_host_run:
  assumes "buf_inv b" "buf_inv bo" "pending b = xs @ ys" "host_chars xs"
    "i + length xs \<le> HOST_MAX_SIZE" "length (rq_host d) = HOST_MAX_SIZE"
  shows "c_loop checkUriForHost_body (i, c0, d, b, bo) =
    c_loop checkUriForHost_body (i + length xs, if xs = [] then c0 else tolower (last xs),
      d\<lparr>rq_host := overlay i (map tolower xs) (rq_host d)\<rparr>, advs (length xs) b, copies (length xs) b bo)"
  using assms
proof (induction xs arbitrary: i c0 d b bo)
  case (Cons x xs)
  let ?d = "d\<lparr>rq_host := (rq_host d)[i := tolower x]\<rparr>"
  have nz: "tolower x \<noteq> 0" using Cons.prems by (auto dest: is_host_char_nonzero)
  have step: "checkUriForHost_body (i, c0, d, b, bo) = Some (False, Suc i, tolower x, ?d, adv1 b, copy1 b bo)"
    using Cons.prems nz by (simp add: checkUriForHost_body_def buf_eqs copy1_def Let_def)
  have "c_loop checkUriForHost_body (Suc i, tolower x, ?d, adv1 b, copy1 b bo) =
    c_loop checkUriForHost_body (Suc i + length xs, if xs = [] then tolower x else tolower (last xs),
      ?d\<lparr>rq_host := overlay (Suc i) (map tolower xs) (rq_host ?d)\<rparr>, advs (length xs) (adv1 b),
      copies (length xs) (adv1 b) (copy1 b bo))"
    using Cons.prems by (intro Cons.IH) (simp_all add: buf_view)
  with step Cons.prems show ?case
    by (simp add: c_loop_continue advs_Suc copies_Suc overlay_Suc)
qed simp

text \<open>The same loop in \<open>extractHost\<close>.\<close>

lemma header_host_run:
  assumes "buf_inv b" "buf_inv bo" "pending b = xs @ ys" "host_chars xs"
    "i + length xs \<le> HOST_MAX_SIZE" "length (rq_host d) = HOST_MAX_SIZE"
  shows "c_loop extractHost_body (i, c0, d, b, bo) =
    c_loop extractHost_body (i + length xs, if xs = [] then c0 else tolower (last xs),
      d\<lparr>rq_host := overlay i (map tolower xs) (rq_host d)\<rparr>, advs (length xs) b, copies (length xs) b bo)"
  using assms
proof (induction xs arbitrary: i c0 d b bo)
  case (Cons x xs)
  let ?d = "d\<lparr>rq_host := (rq_host d)[i := tolower x]\<rparr>"
  have nz: "tolower x \<noteq> 0" using Cons.prems by (auto dest: is_host_char_nonzero)
  have step: "extractHost_body (i, c0, d, b, bo) = Some (False, Suc i, tolower x, ?d, adv1 b, copy1 b bo)"
    using Cons.prems nz by (simp add: extractHost_body_def buf_eqs copy1_def Let_def)
  have "c_loop extractHost_body (Suc i, tolower x, ?d, adv1 b, copy1 b bo) =
    c_loop extractHost_body (Suc i + length xs, if xs = [] then tolower x else tolower (last xs),
      ?d\<lparr>rq_host := overlay (Suc i) (map tolower xs) (rq_host ?d)\<rparr>, advs (length xs) (adv1 b),
      copies (length xs) (adv1 b) (copy1 b bo))"
    using Cons.prems by (intro Cons.IH) (simp_all add: buf_view)
  with step Cons.prems show ?case
    by (simp add: c_loop_continue advs_Suc copies_Suc overlay_Suc)
qed simp

text \<open>A byte that ends a host: no host character, no NUL, no port and no user information.\<close>

definition ends_host :: "byte \<Rightarrow> bool" where
  "ends_host c \<longleftrightarrow> \<not> is_host_char (tolower c) \<and> c \<noteq> 0 \<and> c \<noteq> 58 \<and> c \<noteq> 64"

lemma tolower_add: "c + 32 = (d :: byte) \<Longrightarrow> c = d - 32"
  by (simp add: eq_diff_eq)

lemma tolower_punct: "c \<noteq> 58 \<Longrightarrow> tolower c \<noteq> 58" "c \<noteq> 64 \<Longrightarrow> tolower c \<noteq> 64"
  by (auto simp: tolower_def dest: tolower_add)

text \<open>An optional port: nothing, or a colon and decimal digits.\<close>

definition port_text :: "byte list \<Rightarrow> int \<Rightarrow> bool" where
  "port_text p n \<longleftrightarrow> p = [] \<and> n = DEFAULT_PORT
     \<or> (\<exists>ds. p = 58 # ds \<and> ds \<noteq> [] \<and> (\<forall>x \<in> set ds. isdigit x) \<and> n = dec_val 0 ds)"

lemma tolower_digit: "isdigit c \<Longrightarrow> tolower c = c"
proof -
  assume "isdigit c"
  then have "\<not> 65 \<le> c" by (auto simp: isdigit_def dest: order.trans)
  then show ?thesis by (simp add: tolower_def)
qed

lemma ends_host_not_digit: "ends_host c \<Longrightarrow> \<not> isdigit c"
  using tolower_digit [of c] by (auto simp: ends_host_def is_host_char_def isdigit_def)

lemma host_port_run:
  assumes "buf_inv b" "buf_inv bo" "pending b = p @ c # ys" "port_text p n" "ends_host c"
    "rq_port d = DEFAULT_PORT"
  shows "host_port i (tolower (peekl (pending b))) (d, b, bo) =
    Some (False, True, d\<lparr>rq_port := n\<rparr>, advs (length p) b, copies (length p) b bo)"
proof (cases "p = []")
  case True
  with assms show ?thesis
    by (auto simp: host_port_def ends_host_def port_text_def tolower_punct)
next
  case False
  then obtain ds where p: "p = 58 # ds" "ds \<noteq> []" "\<forall>x \<in> set ds. isdigit x" "n = dec_val 0 ds"
    using assms(4) by (auto simp: port_text_def)
  then have pd: "pending b = 58 # ds @ c # ys" using assms(3) by simp
  have rw: "readAndWrite b bo = Some (58, adv1 b, copy1 b bo)"
    using assms pd by (simp add: buf_eqs copy1_def)
  have I: "buf_inv (adv1 b)" "buf_inv (copy1 b bo)" "pending (adv1 b) = ds @ c # ys"
    using assms pd by (simp_all add: buf_view)
  have "takeWhile isdigit (ds @ c # ys) = ds"
    using p(3) ends_host_not_digit [OF assms(5)] by (simp add: takeWhile_append)
  then have k: "span_len isdigit (pending (adv1 b)) = length ds"
    using I by (simp add: span_len_def)
  have gn: "getNumber (rq_port d) (adv1 b) (copy1 b bo) [58] (rq_isBufferEmpty d) =
      Some (True, n, advs (length ds) (adv1 b), copies (length ds) (adv1 b) (copy1 b bo), rq_isBufferEmpty d)"
    using I k p(2,4) assms(5) by (simp add: getNumber_eq Let_def starved_def ends_host_def)
  have "tolower (58 :: byte) = 58" by (simp add: tolower_def)
  with rw gn pd p(1) assms(1) show ?thesis
    by (simp add: host_port_def advs_Suc copies_Suc)
qed

lemma checkUriForHost_run:
  assumes "buf_inv b" "buf_inv bo" "pending b = h @ p @ c # ys" "host_chars h" "port_text p n" "ends_host c"
    "length h < HOST_MAX_SIZE" "length (rq_host d) = HOST_MAX_SIZE" "rq_port d = DEFAULT_PORT"
  shows "checkUriForHost (d, b, bo) =
    Some (True, d\<lparr>rq_host := overlay 0 (map tolower h) (rq_host d), rq_port := n\<rparr>,
      advs (length h + length p) b, copies (length h + length p) b bo)"
proof -
  let ?d = "d\<lparr>rq_host := overlay 0 (map tolower h) (rq_host d)\<rparr>"
  let ?s = "(length h, if h = [] then 0 else tolower (last h), ?d, advs (length h) b, copies (length h) b bo)"
  have run: "c_loop checkUriForHost_body (0, 0, d, b, bo) = c_loop checkUriForHost_body ?s"
    using uri_host_run [of b bo h "p @ c # ys" 0 d 0] assms by simp
  have I: "buf_inv (advs (length h) b)" "buf_inv (copies (length h) b bo)"
    "pending (advs (length h) b) = p @ c # ys"
    using assms by (simp_all add: buf_view)
  have nh: "\<not> is_host_char (tolower (peekl (p @ c # ys)))" "tolower (peekl (p @ c # ys)) \<noteq> 64"
    using assms(5,6) by (auto simp: port_text_def ends_host_def tolower_punct)
      (simp_all add: is_host_char_def tolower_def)
  have brk: "checkUriForHost_body ?s = Some (True, length h, tolower (peekl (p @ c # ys)),
      ?d, advs (length h) b, copies (length h) b bo)"
    using assms(7) I nh by (simp add: checkUriForHost_body_def peek_eq Let_def)
  have "host_port (length h) (tolower (peekl (p @ c # ys))) (?d, advs (length h) b, copies (length h) b bo) =
      Some (False, True, ?d\<lparr>rq_port := n\<rparr>, advs (length h + length p) b, copies (length h + length p) b bo)"
    using host_port_run [OF I assms(5,6), of ?d "length h"] assms(1,3,9) I(3) copies_add [of b "length h" "length p" bo]
    by (simp add: advs_advs)
  with run brk assms(7) show ?thesis by (simp add: checkUriForHost_def c_loop_break)
qed

text \<open>Matching, ignoring case.\<close>

definition same_text :: "byte list \<Rightarrow> byte list \<Rightarrow> bool" where
  "same_text xs ys \<longleftrightarrow> map toupper xs = map toupper ys"

lemma same_text_match: "same_text xs fs \<Longrightarrow> match_len fs (xs @ ys) = length fs"
proof (induction fs arbitrary: xs)
  case (Cons f fs)
  then show ?case by (cases xs) (auto simp: same_text_def)
qed (simp add: same_text_def)

lemma same_text_length: "same_text xs fs \<Longrightarrow> length xs = length fs"
  unfolding same_text_def by (rule map_eq_imp_length_eq)

lemma matchFormat_run:
  assumes "buf_inv b" "buf_inv bo" "pending b = xs @ ys" "same_text xs fs" "0 \<notin> set fs"
    "length fs = n"
  shows "matchFormat fs b bo pre e = Some (True, advs n b, copies n b bo, e)"
  using assms by (auto simp: matchFormat_eq same_text_match Let_def)

definition supported :: "(byte list \<times> httpMethod) list" where
  "supported = [(str ''GET'', GET), (str ''HEAD'', HEAD), (str ''POST'', POST)]"

lemma extractHttpMethod_run:
  assumes "buf_inv b" "buf_inv bo" "pending b = m @ ys" "(m, ty) \<in> set supported"
  shows "extractHttpMethod (d, b, bo) =
    Some (True, d\<lparr>rq_method := ty\<rparr>, advs (length m) b, copies (length m) b bo)"
proof -
  obtain x xs where m: "m = x # xs" and nul: "0 \<notin> set xs"
    using assms(4) by (auto simp: supported_def)
  with assms(3) have p: "pending b = x # xs @ ys" by simp
  have rw: "readAndWrite b bo = Some (x, adv1 b, copy1 b bo)"
    using assms p by (simp add: buf_eqs copy1_def)
  have "matchFormat xs (adv1 b) (copy1 b bo) [x] (rq_isBufferEmpty d) =
      Some (True, advs (length xs) (adv1 b), copies (length xs) (adv1 b) (copy1 b bo), rq_isBufferEmpty d)"
    using assms p nul by (intro matchFormat_run [of _ _ xs ys]) (simp_all add: buf_view same_text_def)
  then have mf: "matchFormat xs (adv1 b) (copy1 b bo) [x] (rq_isBufferEmpty d) =
      Some (True, advs (length m) b, copies (length m) b bo, rq_isBufferEmpty d)"
    using assms p m by (simp add: advs_Suc copies_Suc)
  have "extractHttpMethod_loop methodOption x (d, adv1 b, copy1 b bo) =
      Some (d\<lparr>rq_method := ty\<rparr>, advs (length m) b, copies (length m) b bo)"
    using mf m assms(4) unfolding supported_def methodOption_def 
    by (auto simp: advs_Suc)
  with rw m assms(4) show ?thesis
    by (auto simp: extractHttpMethod_def supported_def toupper_def)
qed

lemma rq_checkSpaces_run:
  assumes "buf_inv b" "buf_inv bo" "pending b = sp @ x # ys" "set sp \<subseteq> {32, 9}" "x \<noteq> 32" "x \<noteq> 9" "x \<noteq> 0"
  shows "rq_checkSpaces (d, b, bo) = Some (True, d, advs (length sp) b, push bo 32)"
proof -
  have tw: "takeWhile (\<lambda>c. c = 32 \<or> c = 9) (sp @ x # ys) = sp"
    using assms by (auto simp: takeWhile_append)
  then have "span_len (\<lambda>c. c = 32 \<or> c = 9) (pending b) = length sp"
    using assms by (simp add: span_len_def)
  with assms show ?thesis
    by (simp add: rq_checkSpaces_def moveThroughSpaces_eq buffer_write_eq Let_def)
qed

lemma checkUri_run:
  assumes "buf_inv b" "buf_inv bo" "pending b = sch @ str ''://'' @ h @ p @ c # ys"
    "same_text sch (str ''HTTP'')" "host_chars h" "port_text p n" "ends_host c"
    "length h < HOST_MAX_SIZE" "length (rq_host d) = HOST_MAX_SIZE" "rq_port d = DEFAULT_PORT"
  shows "checkUri (d, b, bo) =
    Some (True, d\<lparr>rq_parserState := URI_HOST, rq_host := overlay 0 (map tolower h) (rq_host d), rq_port := n\<rparr>,
      advs (7 + length h + length p) b, copies (7 + length h + length p) b bo)"
proof -
  let ?e = "rq_isBufferEmpty d"
  have l: "length sch = 4" using same_text_length [OF assms(4)] by simp
  have m1: "matchFormat (str ''HTTP'') b bo [] ?e = Some (True, advs 4 b, copies 4 b bo, ?e)"
    by (rule matchFormat_run [OF assms(1-4)]) simp_all
  have I: "buf_inv (advs 4 b)" "buf_inv (copies 4 b bo)" "pending (advs 4 b) = str ''://'' @ h @ p @ c # ys"
    using assms l by (simp_all add: buf_view)
  have m2: "matchFormat (str ''://'') (advs 4 b) (copies 4 b bo) (str ''HTTP'') ?e =
      Some (True, advs 7 b, copies 7 b bo, ?e)"
    using matchFormat_run [OF I, of "str ''://''" 3] copies_add [of b 4 3 bo] assms(1,3) l
    by (simp add: same_text_def advs_advs)
  have J: "buf_inv (advs 7 b)" "buf_inv (copies 7 b bo)" "pending (advs 7 b) = h @ p @ c # ys"
    using assms l by (simp_all add: buf_view)
  from checkUriForHost_run [OF J assms(5-8), of "d\<lparr>rq_parserState := URI_HOST\<rparr>"] assms(9,10)
  have "checkUriForHost (d\<lparr>rq_parserState := URI_HOST\<rparr>, advs 7 b, copies 7 b bo) =
    Some (True, d\<lparr>rq_parserState := URI_HOST, rq_host := overlay 0 (map tolower h) (rq_host d), rq_port := n\<rparr>,
      advs (7 + length h + length p) b, copies (7 + length h + length p) b bo)"
    using copies_add [of b 7 "length h + length p" bo] assms(1,3) l by (simp add: advs_advs add.assoc)
  with m1 m2 show ?thesis by (simp add: checkUri_def)
qed

section \<open>The state machine on an absolute URI\<close>

lemma c_string_overlay:
  assumes "host_chars h" and "length h < n"
  shows "c_string (overlay 0 (map tolower h) (replicate n 0)) = map tolower h"
proof -
  have "tolower x \<noteq> 0" if "x \<in> set h" for x
    using assms(1) that is_host_char_nonzero [of "tolower x"] by (auto simp: host_chars_def)
  then have "0 \<notin> set h" by auto
  moreover obtain k where "n - length h = Suc k" using assms(2) by (cases "n - length h") auto
  ultimately show ?thesis
    by (auto simp: c_string_def overlay_def takeWhile_append)
qed

lemma overlay_last:
  assumes "length h < 255"
  shows "overlay 0 (map tolower h) (replicate 255 0) ! 254 = 0"
  using assms by (simp add: overlay_def nth_append)

lemma rq_step:
  "rq_switch (d, b, bo, calls) = Some t \<Longrightarrow>
     c_loop checkRequestInner_body (True, True, d, b, bo, calls) = c_loop checkRequestInner_body t"
  by (rule c_loop_continue) (simp add: checkRequestInner_body_def)

lemma rq_stop: "c_loop checkRequestInner_body (True, False, s) = Some (True, False, s)"
  by (rule c_loop_break) (simp add: checkRequestInner_body_def)

lemma rq_finish:
  "rq_parserState d = FINISHED \<Longrightarrow>
     c_loop checkRequestInner_body (True, True, d, b, bo, calls) = Some (True, False, d, b, bo, calls)"
  by (subst rq_step [of d b bo calls "(True, False, d, b, bo, calls)"]) (simp_all add: rq_switch_def rq_stop)

lemma method_literals: "(m, ty) \<in> set supported \<Longrightarrow> 0 \<notin> set m"
  by (auto simp: supported_def)

text \<open>What the parser has copied of a request up to its host: the separators become one space.\<close>

lemma absolute_uri_run:
  assumes "buf_inv b" "buf_inv bo" "pending b = m @ sp @ sch @ str ''://'' @ h @ p @ c # ys"
    "(m, ty) \<in> set supported" "set sp \<subseteq> {32, 9}" "same_text sch (str ''HTTP'')"
    "host_chars h" "port_text p n" "ends_host c" "length h < HOST_MAX_SIZE"
    "d = defaultRequestStruct r"
  shows "\<exists>d' b' bo'. c_loop checkRequestInner_body (True, True, d\<lparr>rq_version := V_1_1, rq_isBufferEmpty := False\<rparr>, b, bo, [])
      = Some (True, False, d', b', bo', [(map tolower h, n)])
    \<and> rq_method d' = ty \<and> rq_state d' = OK \<and> rq_parserState d' = FINISHED \<and> buf_inv b' \<and> buf_inv bo'
    \<and> pending b' = c # ys \<and> b' = advs (length m + length sp + (7 + length h + length p)) b
    \<and> bo' = copies (7 + length h + length p) (advs (length m + length sp) b) (push (copies (length m) b bo) 32)"
proof -
  let ?d0 = "d\<lparr>rq_version := V_1_1, rq_isBufferEmpty := False\<rparr>"
  let ?d1 = "?d0\<lparr>rq_method := ty, rq_parserState := SPACE_TRANSITION, rq_next := URI\<rparr>"
  let ?d2 = "?d0\<lparr>rq_method := ty, rq_parserState := URI, rq_next := URI\<rparr>"
  let ?h = "overlay 0 (map tolower h) (replicate 255 0)"
  let ?d3 = "?d2\<lparr>rq_parserState := FINISHED, rq_host := ?h, rq_port := n\<rparr>"
  let ?n = "7 + length h + length p"
  let ?b1 = "advs (length m) b" and ?bo1 = "copies (length m) b bo"
  let ?b2 = "advs (length m + length sp) b" and ?bo2 = "push ?bo1 32"
  obtain x xs where sch: "sch = x # xs" "x \<noteq> 32" "x \<noteq> 9" "x \<noteq> 0"
  proof (cases sch)
    case (Cons x xs)
    then have u: "toupper x = 72" using assms(6) by (simp add: same_text_def toupper_def)
    show thesis
      by (rule that [OF Cons]) (use u in \<open>auto simp: toupper_def\<close>)
  qed (use assms(6) in \<open>simp add: same_text_def\<close>)
  have I1: "buf_inv ?b1" "buf_inv ?bo1" "pending ?b1 = sp @ sch @ str ''://'' @ h @ p @ c # ys"
    using assms(1-3) by (simp_all add: buf_view)
  have I2: "buf_inv ?b2" "buf_inv ?bo2" "pending ?b2 = sch @ str ''://'' @ h @ p @ c # ys"
    using assms(1-3) by (simp_all add: buf_view)
  have l: "length sch = 4" using same_text_length [OF assms(6)] by simp
  have "rq_switch (?d0, b, bo, []) = Some (True, True, ?d1, ?b1, ?bo1, [])"
    using extractHttpMethod_run [OF assms(1-4), of ?d0] assms(11)
    by (simp add: rq_switch_def defaultRequestStruct_def)
  note s1 = rq_step [OF this]
  have "rq_switch (?d1, ?b1, ?bo1, []) = Some (True, True, ?d2, ?b2, ?bo2, [])"
    using rq_checkSpaces_run [OF I1(1,2), of sp x "xs @ str ''://'' @ h @ p @ c # ys" ?d1] I1(3) assms(5) sch
    by (simp add: rq_switch_def advs_advs)
  note s2 = rq_step [OF this]
  have host: "rq_host d = replicate 255 0" "rq_port d = DEFAULT_PORT"
    using assms(11) by (simp_all add: defaultRequestStruct_def HOST_MAX_SIZE_def)
  have "checkUri (?d2, ?b2, ?bo2) =
      Some (True, ?d2\<lparr>rq_parserState := URI_HOST, rq_host := ?h, rq_port := n\<rparr>, advs ?n ?b2, copies ?n ?b2 ?bo2)"
    using checkUri_run [OF I2 assms(6-10), of ?d2] host by (simp add: HOST_MAX_SIZE_def)
  moreover have "hostCallback (?d2\<lparr>rq_parserState := URI_HOST, rq_host := ?h, rq_port := n\<rparr>) []
      = Some [(map tolower h, n)]"
    using assms(7,10) overlay_last [of h]
    by (subst hostCallback_runs) (simp_all add: HOST_MAX_SIZE_def rq_calls_def c_string_overlay)
  ultimately have "rq_switch (?d2, ?b2, ?bo2, []) =
      Some (True, True, ?d3, advs ?n ?b2, copies ?n ?b2 ?bo2, [(map tolower h, n)])"
    by (simp add: rq_switch_def)
  note s3 = rq_step [OF this]
  have s4: "c_loop checkRequestInner_body (True, True, ?d3, advs ?n ?b2, copies ?n ?b2 ?bo2, [(map tolower h, n)])
      = Some (True, False, ?d3, advs ?n ?b2, copies ?n ?b2 ?bo2, [(map tolower h, n)])"
    by (rule rq_finish) simp
  have "pending ?b2 = (sch @ str ''://'' @ h @ p) @ c # ys" "length (sch @ str ''://'' @ h @ p) = ?n"
    using I2(3) l by simp_all
  then have dr: "drop ?n (pending ?b2) = c # ys" "?n \<le> length (pending ?b2)"
    by (metis append_eq_conv_conj, simp)
  then have e: "buf_inv (advs ?n ?b2)" "pending (advs ?n ?b2) = c # ys"
    using I2(1) by (simp_all add: buf_view)
  show ?thesis
    using s1 s2 s3 s4 e I2 assms(11) by (simp add: defaultRequestStruct_def advs_advs)
qed

lemma copied_prefix:
  assumes "resv b = 0" "pending b = xs @ ys" "0 \<notin> set xs"
  shows "copied (length xs) b = xs"
proof -
  have "filter (\<lambda>c. c \<noteq> 0) xs = xs" using assms(3) by (intro filter_True) auto
  with assms show ?thesis by (simp add: copied_def)
qed

lemma host_text_nul_free: "host_chars h \<Longrightarrow> 0 \<notin> set h"
  using is_host_char_nonzero [of "tolower 0"] by (auto simp: host_chars_def)

lemma port_text_nul_free: "port_text p n \<Longrightarrow> 0 \<notin> set p"
  by (auto simp: port_text_def dest: isdigit_nonzero)

lemma scheme_nul_free: "same_text sch (str ''HTTP'') \<Longrightarrow> 0 \<notin> set sch"
proof
  assume t: "same_text sch (str ''HTTP'')" and "0 \<in> set sch"
  then have "toupper 0 \<in> set (map toupper sch)" by auto
  also have "map toupper sch = map toupper (str ''HTTP'')" using t by (simp only: same_text_def)
  finally have "toupper 0 \<in> set (map toupper (str ''HTTP''))" .
  then show False by (simp add: toupper_def)
qed

lemma extractHost_run:
  assumes "buf_inv b" "buf_inv bo" "pending b = h @ p @ c # ys" "host_chars h" "port_text p n" "c \<in> {32, 9, 13}"
    "length h < HOST_MAX_SIZE" "length (rq_host d) = HOST_MAX_SIZE" "rq_port d = DEFAULT_PORT"
  shows "extractHost (d, b, bo) =
    Some (True, d\<lparr>rq_host := overlay 0 (map tolower h) (rq_host d), rq_port := n\<rparr>,
      advs (length h + length p) b, copies (length h + length p) b bo)"
proof -
  let ?d = "d\<lparr>rq_host := overlay 0 (map tolower h) (rq_host d)\<rparr>"
  let ?s = "(length h, if h = [] then 0 else tolower (last h), ?d, advs (length h) b, copies (length h) b bo)"
  have c: "ends_host c" using assms(6) by (auto simp: ends_host_def is_host_char_def tolower_def)
  have run: "c_loop extractHost_body (0, 0, d, b, bo) = c_loop extractHost_body ?s"
    using header_host_run [of b bo h "p @ c # ys" 0 d 0] assms by simp
  have I: "buf_inv (advs (length h) b)" "buf_inv (copies (length h) b bo)"
    "pending (advs (length h) b) = p @ c # ys"
    using assms by (simp_all add: buf_view)
  have nh: "\<not> is_host_char (tolower (peekl (p @ c # ys)))"
    using assms(5) c by (auto simp: port_text_def ends_host_def)
      (simp_all add: is_host_char_def tolower_def)
  have brk: "extractHost_body ?s = Some (True, length h, tolower (peekl (p @ c # ys)),
      ?d, advs (length h) b, copies (length h) b bo)"
    using assms(7) I nh by (simp add: extractHost_body_def peek_eq Let_def)
  have port: "host_port (length h) (tolower (peekl (p @ c # ys))) (?d, advs (length h) b, copies (length h) b bo) =
      Some (False, True, ?d\<lparr>rq_port := n\<rparr>, advs (length h + length p) b, copies (length h + length p) b bo)"
    using host_port_run [OF I assms(5) c, of ?d "length h"] assms(1,3,9) I(3) copies_add [of b "length h" "length p" bo]
    by (simp add: advs_advs)
  have "buffer_peek (advs (length h + length p) b) = Some c"
    using assms(1,3) by (simp add: peek_eq buf_view)
  with run brk port assms(6,7) show ?thesis by (auto simp: extractHost_def c_loop_break)
qed

text \<open>
  User information: the host is collected again from index 0, over what is there.
\<close>

lemma checkUriForHost_userinfo_run:
  assumes "buf_inv b" "buf_inv bo" "pending b = u @ [64] @ h @ p @ c # ys" "host_chars u" "host_chars h"
    "port_text p n" "ends_host c" "length u < HOST_MAX_SIZE" "length h < HOST_MAX_SIZE"
    "length (rq_host d) = HOST_MAX_SIZE" "rq_port d = DEFAULT_PORT"
  shows "\<exists>b' bo'. checkUriForHost (d, b, bo) =
    Some (True, d\<lparr>rq_host := overlay 0 (map tolower h) ((overlay 0 (map tolower u) (rq_host d))[0 := 0]),
      rq_port := n\<rparr>, b', bo')"
proof -
  let ?d = "d\<lparr>rq_host := overlay 0 (map tolower u) (rq_host d)\<rparr>"
  let ?d' = "d\<lparr>rq_host := (overlay 0 (map tolower u) (rq_host d))[0 := 0]\<rparr>"
  let ?b = "advs (length u) b" and ?bo = "copies (length u) b bo"
  have run: "c_loop checkUriForHost_body (0, 0, d, b, bo) =
      c_loop checkUriForHost_body (length u, if u = [] then 0 else tolower (last u), ?d, ?b, ?bo)"
    using uri_host_run [of b bo u "[64] @ h @ p @ c # ys" 0 d 0] assms by simp
  have I: "buf_inv ?b" "buf_inv ?bo" "pending ?b = 64 # h @ p @ c # ys"
    using assms by (simp_all add: buf_view)
  have J: "buf_inv (adv1 ?b)" "buf_inv (copy1 ?b ?bo)" "pending (adv1 ?b) = h @ p @ c # ys"
    using I by (simp_all add: buf_view)
  have t: "tolower (64 :: byte) = 64" "\<not> is_host_char 64" by (simp_all add: tolower_def is_host_char_def)
  have "0 < length (overlay 0 (map tolower u) (rq_host d))" using assms by (simp add: HOST_MAX_SIZE_def)
  then have bd: "checkUriForHost_body (length u, if u = [] then 0 else tolower (last u), ?d, ?b, ?bo) =
      Some (False, 0, 64, ?d', adv1 ?b, copy1 ?b ?bo)"
    using assms(8) I t by (simp add: checkUriForHost_body_def buf_eqs copy1_def Let_def)
  have again: "c_loop checkUriForHost_body (length u, if u = [] then 0 else tolower (last u), ?d, ?b, ?bo) =
      c_loop checkUriForHost_body (0, 64, ?d', adv1 ?b, copy1 ?b ?bo)"
    by (rule c_loop_continue) (rule bd)
  have restart: "c_loop checkUriForHost_body (0, c0, d0, adv1 ?b, copy1 ?b ?bo) =
      c_loop checkUriForHost_body (0, 0, d0, adv1 ?b, copy1 ?b ?bo)" for c0 d0
    by (subst (1 2) c_loop.simps) (simp add: checkUriForHost_body_def HOST_MAX_SIZE_def)
  have "checkUriForHost (d, b, bo) = checkUriForHost (?d', adv1 ?b, copy1 ?b ?bo)"
    using run again restart [of 64 ?d'] by (simp add: checkUriForHost_def)
  also have "\<dots> = Some (True, ?d'\<lparr>rq_host := overlay 0 (map tolower h) (rq_host ?d'), rq_port := n\<rparr>,
      advs (length h + length p) (adv1 ?b), copies (length h + length p) (adv1 ?b) (copy1 ?b ?bo))"
    using assms by (intro checkUriForHost_run [OF J assms(5-7,9)]) simp_all
  finally show ?thesis by simp
qed

lemma c_string_userinfo:
  assumes "host_chars u" "host_chars h" "length u < n" "length h < n"
  shows "c_string (overlay 0 (map tolower h) ((overlay 0 (map tolower u) (replicate n 0))[0 := 0])) =
    map tolower (if h = [] then [] else h @ drop (length h) u)"
proof (cases "h = []")
  case True
  with assms(3) show ?thesis by (cases u; cases n) (simp_all add: c_string_def overlay_def)
next
  case False
  let ?a = "overlay 0 (map tolower u) (replicate n 0)"
  have nz: "0 \<notin> set (map tolower h)" "0 \<notin> set (map tolower (drop (length h) u))"
    using host_text_nul_free [OF assms(2)] host_text_nul_free [OF assms(1)] by (auto dest: in_set_dropD)
  have "overlay 0 (map tolower h) (?a[0 := 0]) = map tolower h @ drop (length h) ?a"
    using False by (simp add: overlay_def drop_update_cancel)
  also have "drop (length h) ?a = map tolower (drop (length h) u) @ replicate (n - max (length u) (length h)) 0"
    using assms(3,4) by (auto simp: overlay_def drop_map max_def)
  finally have "overlay 0 (map tolower h) (?a[0 := 0]) =
      map tolower (h @ drop (length h) u) @ replicate (n - max (length u) (length h)) 0" by simp
  moreover have "0 < n - max (length u) (length h)" using assms(3,4) by simp
  then obtain k where "n - max (length u) (length h) = Suc k" by (cases "n - max (length u) (length h)") auto
  ultimately show ?thesis
    using nz False by (auto simp: c_string_def takeWhile_append)
qed

section \<open>Properties\<close>

lemma checkRequest_absolute_uri_run:
  assumes "buf_inv bIn" "buf_inv bOut" "resv bIn = 0"
    "pending bIn = m @ sp @ sch @ str ''://'' @ h @ p @ c # ys"
    "(m, ty) \<in> set supported" "set sp \<subseteq> {32, 9}" "same_text sch (str ''HTTP'')"
    "host_chars h" "port_text p n" "ends_host c" "length h < HOST_MAX_SIZE"
  shows "\<exists>d' bIn' bOut'. checkRequest (defaultRequestStruct r) bIn bOut =
      Some (True, d', bIn', bOut', [(map tolower h, n)])
    \<and> rq_method d' = ty \<and> rq_state d' = OK \<and> rq_parserState d' = FINISHED
    \<and> pending bIn' = c # ys \<and> buf_inv bIn' \<and> resv bIn' = 0
    \<and> bOut' = pushes bOut (m @ [32] @ sch @ str ''://'' @ h @ p)"
proof -
  obtain d' b' bo' where run:
    "c_loop checkRequestInner_body (True, True,
       (defaultRequestStruct r)\<lparr>rq_version := V_1_1, rq_isBufferEmpty := False\<rparr>, bIn, bOut, [])
      = Some (True, False, d', b', bo', [(map tolower h, n)])"
    "rq_method d' = ty" "rq_state d' = OK" "rq_parserState d' = FINISHED" "pending b' = c # ys" "buf_inv b'"
    and b': "b' = advs (length m + length sp + (7 + length h + length p)) bIn"
    and bo': "bo' = copies (7 + length h + length p) (advs (length m + length sp) bIn) (push (copies (length m) bIn bOut) 32)"
    using absolute_uri_run [OF assms(1,2,4-11) refl] by blast
  let ?t = "sch @ str ''://'' @ h @ p"
  have l: "length ?t = 7 + length h + length p" using same_text_length [OF assms(7)] by simp
  have c1: "copied (length m) bIn = m"
    using assms(3,4) method_literals [OF assms(5)] by (intro copied_prefix) auto
  have p2: "pending (advs (length m + length sp) bIn) = ?t @ c # ys"
    "resv (advs (length m + length sp) bIn) = 0"
    using assms(1,3,4) by (simp_all add: buf_view)
  have "0 \<notin> set ?t"
    using scheme_nul_free [OF assms(7)] host_text_nul_free [OF assms(8)] port_text_nul_free [OF assms(9)] by auto
  from copied_prefix [OF p2(2,1) this]
  have "copied (7 + length h + length p) (advs (length m + length sp) bIn) = ?t" by (simp only: l)
  with bo' c1 have "bo' = pushes bOut (m @ [32] @ ?t)"
    by (simp add: copies_def pushes_append pushes_Cons)
  moreover have "resv b' = 0" using b' assms(1,3,4) l by (simp add: buf_view)
  ultimately show ?thesis using run by (auto simp: checkRequest_def checkRequestInner_def)
qed

text \<open>A parser that was never set up, for the witnesses.\<close>

definition no_request :: RequestData where
  "no_request = \<lparr>rq_parserState = METHOD, rq_next = METHOD, rq_isBufferEmpty = False, rq_state = OK,
     rq_version = UNDEFINED, rq_method = UNDEFINED_M, rq_host = replicate HOST_MAX_SIZE 0,
     rq_port = 0, rq_isLocalHost = False\<rparr>"

text \<open>C8
  A request whose target is an absolute URI without user information, in any case and with any run of spaces and tabs after
  the method, finishes the parser in one call: the callback is called once, with the lower-cased
  host and the port of the URI or 80, what follows the host is left in the input buffer, and the
  output buffer holds the start of the request with one space as the separator, as far as it has
  room. (The host may be empty: the parser does not reject \<open>http:///\<close>.)\<close>

theorem checkRequest_absolute_uri:
  assumes "buf_inv bIn" "buf_inv bOut" "resv bIn = 0"
    "pending bIn = m @ sp @ sch @ str ''://'' @ h @ p @ c # ys"
    "(m, ty) \<in> set supported" "set sp \<subseteq> {32, 9}" "same_text sch (str ''HTTP'')"
    "host_chars h" "port_text p n" "ends_host c" "length h < HOST_MAX_SIZE"
  shows "\<exists>d' bIn' bOut'. checkRequest (defaultRequestStruct r) bIn bOut =
      Some (True, d', bIn', bOut', [(map tolower h, n)])
    \<and> rq_method d' = ty \<and> rq_state d' = OK \<and> pending bIn' = c # ys
    \<and> pending bOut' = pending bOut @ take (room bOut) (m @ [32] @ sch @ str ''://'' @ h @ p)"
  using checkRequest_absolute_uri_run [OF assms, of r] pending_pushes [OF assms(2)] by auto

theorem checkRequest_absolute_uri_witness:
  "\<exists>d' bIn' bOut'. checkRequest (defaultRequestStruct no_request)
      (holding (str ''GET Http://Ab.org:81/x'')) (holding []) =
      Some (True, d', bIn', bOut', [(str ''ab.org'', 81)])
    \<and> rq_method d' = GET \<and> rq_state d' = OK \<and> pending bIn' = str ''/x''
    \<and> pending bOut' = pending (holding []) @ take (room (holding [])) (str ''GET Http://Ab.org:81'')"
proof -
  let ?b = "holding (str ''GET Http://Ab.org:81/x'')"
  have "\<exists>d' bIn' bOut'. checkRequest (defaultRequestStruct no_request) ?b (holding []) =
      Some (True, d', bIn', bOut', [(map tolower (str ''Ab.org''), 81)])
    \<and> rq_method d' = GET \<and> rq_state d' = OK \<and> pending bIn' = 47 # str ''x''
    \<and> pending bOut' = pending (holding []) @ take (room (holding []))
        (str ''GET'' @ [32] @ str ''Http'' @ str ''://'' @ str ''Ab.org'' @ str '':81'')"
  proof (rule checkRequest_absolute_uri [where sp = "[32]"])
    have "dec_val 0 (str ''81'') = 81" by (simp add: c_int_def)
    then show "port_text (str '':81'') 81" by (simp add: port_text_def isdigit_def)
  qed (simp_all add: supported_def same_text_def is_host_char_def toupper_def tolower_def
      ends_host_def HOST_MAX_SIZE_def)
  then show ?thesis by (simp add: tolower_def)
qed

text \<open>A step that finishes the parser is its last.\<close>

lemma checkRequest_last:
  assumes "rq_switch (rData\<lparr>rq_version := V_1_1, rq_isBufferEmpty := False\<rparr>, b, bo, []) = Some (True, True, d', b', bo', calls)"
    and "rq_parserState d' = FINISHED"
  shows "checkRequest rData b bo = Some (True, d', b', bo', calls)"
  using rq_step [OF assms(1)] rq_finish [OF assms(2)] by (simp add: checkRequest_def checkRequestInner_def)

text \<open>C35
  A parser waiting for the value of the \<open>Host\<close> header, with the host not yet filled, finishes on
  a host, an optional port and a space, tab or carriage return: the callback gets the lower-cased
  host and the port (80 without one), the delimiter stays in the input and exactly the value is
  copied to the output, as far as it has room.\<close>

theorem checkRequest_host_header:
  assumes "buf_inv bIn" "buf_inv bOut" "resv bIn = 0" "pending bIn = h @ p @ c # ys"
    "host_chars h" "port_text p n" "c \<in> {32, 9, 13}" "length h < HOST_MAX_SIZE"
    "rq_parserState rData = HOST" "rq_host rData = replicate HOST_MAX_SIZE 0" "rq_port rData = DEFAULT_PORT"
  shows "\<exists>d' bIn' bOut'. checkRequest rData bIn bOut = Some (True, d', bIn', bOut', [(map tolower h, n)])
    \<and> rq_state d' = rq_state rData \<and> pending bIn' = c # ys
    \<and> pending bOut' = pending bOut @ take (room bOut) (h @ p)"
proof -
  let ?d = "rData\<lparr>rq_version := V_1_1, rq_isBufferEmpty := False\<rparr>"
  let ?d' = "?d\<lparr>rq_host := overlay 0 (map tolower h) (replicate 255 0), rq_port := n\<rparr>"
  let ?n = "length h + length p"
  have ex: "extractHost (?d, bIn, bOut) = Some (True, ?d', advs ?n bIn, copies ?n bIn bOut)"
    using extractHost_run [OF assms(1,2,4-8), of ?d] assms(10,11) by (simp add: HOST_MAX_SIZE_def)
  have cb: "hostCallback ?d' [] = Some [(map tolower h, n)]"
    using assms(5,8) overlay_last [of h]
    by (subst hostCallback_runs) (simp_all add: HOST_MAX_SIZE_def rq_calls_def c_string_overlay)
  have "rq_switch (?d, bIn, bOut, []) =
      Some (True, True, ?d'\<lparr>rq_parserState := FINISHED\<rparr>, advs ?n bIn, copies ?n bIn bOut, [(map tolower h, n)])"
    using ex cb assms(9) by (simp add: rq_switch_def)
  from checkRequest_last [OF this] have run: "checkRequest rData bIn bOut =
      Some (True, ?d'\<lparr>rq_parserState := FINISHED\<rparr>, advs ?n bIn, copies ?n bIn bOut, [(map tolower h, n)])"
    by simp
  have "pending bIn = (h @ p) @ c # ys" "0 \<notin> set (h @ p)"
    using assms(4) host_text_nul_free [OF assms(5)] port_text_nul_free [OF assms(6)] by simp_all
  from copied_prefix [OF assms(3) this] have "copies ?n bIn bOut = pushes bOut (h @ p)"
    by (simp add: copies_def)
  with run assms(1,2,4) show ?thesis by (simp add: buf_view)
qed

theorem checkRequest_host_header_witness:
  "\<exists>d' bIn' bOut'. checkRequest ((defaultRequestStruct no_request)\<lparr>rq_parserState := HOST\<rparr>)
      (holding (str ''A-1.x:8080'' @ [13, 10])) (holding []) = Some (True, d', bIn', bOut', [(str ''a-1.x'', 8080)])
    \<and> rq_state d' = OK \<and> pending bIn' = [13, 10]
    \<and> pending bOut' = pending (holding []) @ take (room (holding [])) (str ''A-1.x:8080'')"
proof -
  let ?d = "(defaultRequestStruct no_request)\<lparr>rq_parserState := HOST\<rparr>"
  have "\<exists>d' bIn' bOut'. checkRequest ?d
      (holding (str ''A-1.x:8080'' @ [13, 10])) (holding []) = Some (True, d', bIn', bOut', [(map tolower (str ''A-1.x''), 8080)])
    \<and> rq_state d' = rq_state ?d \<and> pending bIn' = 13 # [10]
    \<and> pending bOut' = pending (holding []) @ take (room (holding [])) (str ''A-1.x'' @ str '':8080'')"
  proof (rule checkRequest_host_header)
    have "dec_val 0 (str ''8080'') = 8080" by (simp add: c_int_def)
    then show "port_text (str '':8080'') 8080" by (simp add: port_text_def isdigit_def)
  qed (simp_all add: is_host_char_def tolower_def HOST_MAX_SIZE_def defaultRequestStruct_def)
  then show ?thesis by (simp add: tolower_def defaultRequestStruct_def)
qed

text \<open>
  User information in an absolute URI is not removed reliably: the host array is filled again from
  index 0 over the characters of the user, and nothing terminates the new host. The callback gets
  the host followed by the tail of a longer user name, as for \<open>username@ab.com\<close>.\<close>

theorem checkRequest_userinfo_leaks:
  assumes "buf_inv bIn" "buf_inv bOut" "pending bIn = u @ [64] @ h @ p @ c # ys"
    "host_chars u" "host_chars h" "port_text p n" "ends_host c"
    "length u < HOST_MAX_SIZE" "length h < HOST_MAX_SIZE"
    "rq_parserState rData = URI_HOST" "rq_host rData = replicate HOST_MAX_SIZE 0" "rq_port rData = DEFAULT_PORT"
  shows "\<exists>d' bIn' bOut'. checkRequest rData bIn bOut =
    Some (True, d', bIn', bOut', [(map tolower (if h = [] then [] else h @ drop (length h) u), n)])"
proof -
  let ?d = "rData\<lparr>rq_version := V_1_1, rq_isBufferEmpty := False\<rparr>"
  let ?a = "overlay 0 (map tolower h) ((overlay 0 (map tolower u) (replicate 255 0))[0 := 0])"
  let ?d' = "?d\<lparr>rq_host := ?a, rq_port := n\<rparr>"
  let ?cs = "[(map tolower (if h = [] then [] else h @ drop (length h) u), n)]"
  obtain b' bo' where run: "checkUriForHost (?d, bIn, bOut) = Some (True, ?d', b', bo')"
    using checkUriForHost_userinfo_run [OF assms(1-9), of ?d] assms(11,12) by (auto simp: HOST_MAX_SIZE_def)
  have "?a ! 254 = 0" "length ?a = 255"
    using assms(8,9) by (auto simp: overlay_def nth_append HOST_MAX_SIZE_def nth_list_update)
  then have "hostCallback ?d' [] = Some ?cs"
    using c_string_userinfo [OF assms(4,5), of 255] assms(8,9)
    by (subst hostCallback_runs) (simp_all add: HOST_MAX_SIZE_def rq_calls_def)
  with run assms(10) have "rq_switch (?d, bIn, bOut, []) =
      Some (True, True, ?d'\<lparr>rq_parserState := FINISHED\<rparr>, b', bo', ?cs)"
    by (simp add: rq_switch_def)
  from checkRequest_last [OF this] show ?thesis by simp
qed

theorem checkRequest_userinfo_leaks_witness:
  "\<exists>d' bIn' bOut'. checkRequest ((defaultRequestStruct no_request)\<lparr>rq_parserState := URI_HOST\<rparr>)
      (holding (str ''username@ab.com/'')) (holding []) = Some (True, d', bIn', bOut', [(str ''ab.comme'', 80)])"
proof -
  have "\<exists>d' bIn' bOut'. checkRequest ((defaultRequestStruct no_request)\<lparr>rq_parserState := URI_HOST\<rparr>)
      (holding (str ''username@ab.com/'')) (holding []) = Some (True, d', bIn', bOut',
        [(map tolower (if str ''ab.com'' = [] then [] else str ''ab.com'' @ drop (length (str ''ab.com'')) (str ''username'')), DEFAULT_PORT)])"
    by (rule checkRequest_userinfo_leaks [where p = "[]" and c = 47 and ys = "[]"])
      (simp_all add: is_host_char_def tolower_def ends_host_def port_text_def HOST_MAX_SIZE_def defaultRequestStruct_def)
  then show ?thesis by (simp add: tolower_def DEFAULT_PORT_def)
qed

text \<open>C22
  On a well-formed parser state \<open>checkRequest\<close> fails no assertion and leaves no object: it returns
  with well-formed buffers and a host array of the right size, and its answer is true exactly when
  the parser has finished - unless the state machine reaches \<open>HOST\<close> with an empty host in front
  of a byte that can neither start nor end a host; then it does not return.\<close>

theorem checkRequest_returns_or_spins:
  assumes "rq_wf rData bIn bOut"
  shows "(\<exists>ok d' bIn' bOut' calls. checkRequest rData bIn bOut = Some (ok, d', bIn', bOut', calls)
      \<and> buf_inv bIn' \<and> buf_inv bOut' \<and> length (rq_host d') = HOST_MAX_SIZE
      \<and> (ok \<longleftrightarrow> rq_parserState d' = FINISHED))
    \<or> (\<exists>d' bIn' bOut' calls. c_steps checkRequestInner_body (rq_start rData bIn bOut) (True, True, d', bIn', bOut', calls)
         \<and> rq_parserState d' = HOST \<and> rq_host d' ! 0 = 0 \<and> no_host_byte (peekl (pending bIn'))
         \<and> checkRequest rData bIn bOut = None)"
  using checkRequest_result [OF assms] by (auto simp: returns_iff) blast

theorem checkRequest_returns_or_spins_witness:
  "(\<exists>ok d' bIn' bOut' calls. checkRequest (defaultRequestStruct no_request) (holding (str ''GET'')) (holding []) =
        Some (ok, d', bIn', bOut', calls)
      \<and> buf_inv bIn' \<and> buf_inv bOut' \<and> length (rq_host d') = HOST_MAX_SIZE
      \<and> (ok \<longleftrightarrow> rq_parserState d' = FINISHED))
    \<or> (\<exists>d' bIn' bOut' calls. c_steps checkRequestInner_body
           (rq_start (defaultRequestStruct no_request) (holding (str ''GET'')) (holding [])) (True, True, d', bIn', bOut', calls)
         \<and> rq_parserState d' = HOST \<and> rq_host d' ! 0 = 0 \<and> no_host_byte (peekl (pending bIn'))
         \<and> checkRequest (defaultRequestStruct no_request) (holding (str ''GET'')) (holding []) = None)"
  by (rule checkRequest_returns_or_spins) (simp add: rq_wf_def defaultRequestStruct_def HOST_MAX_SIZE_def)

text \<open>C34
  The loop that does not return: in state \<open>HOST\<close>, with no host collected and a byte such as
  \<open>/\<close> or \<open>[\<close> next, \<open>checkRequest\<close> consumes nothing and never comes back, so one request with
  \<open>Host: /\<close> stops the proxy.\<close>

theorem checkRequest_spins:
  assumes "rq_wf rData bIn bOut" "rq_parserState rData = HOST" "rq_host rData ! 0 = 0"
    "no_host_byte (peekl (pending bIn))"
  shows "checkRequest rData bIn bOut = None"
proof -
  let ?d = "rData\<lparr>rq_version := V_1_1, rq_isBufferEmpty := False\<rparr>"
  let ?c = "peekl (pending bIn)"
  have I: "buf_inv bIn" "buf_inv bOut" using assms(1) by (simp_all add: rq_wf_def)
  have c: "\<not> is_host_char (tolower ?c)" "?c \<noteq> 0" "tolower ?c \<noteq> 58" "?c \<notin> {32, 9, 13}"
    using assms(4) by (auto simp: no_host_byte_def tolower_punct)
  have "extractHost_body (0, 0, ?d, bIn, bOut) = Some (True, 0, tolower ?c, ?d, bIn, bOut)"
    using I c by (simp add: extractHost_body_def peek_eq HOST_MAX_SIZE_def Let_def)
  then have l: "c_loop extractHost_body (0, 0, ?d, bIn, bOut) = Some (0, tolower ?c, ?d, bIn, bOut)"
    by (rule c_loop_break)
  have ex: "extractHost (?d, bIn, bOut) = Some (False, ?d, bIn, bOut)"
    using l I c by (simp add: extractHost_def host_port_def peek_eq)
  have "checkRequestInner_body (True, True, ?d, bIn, bOut, []) = Some (False, True, True, ?d, bIn, bOut, [])"
    using ex assms(2,3) by (simp add: checkRequestInner_body_def rq_switch_def)
  then have "c_loop checkRequestInner_body (True, True, ?d, bIn, bOut, []) = None"
    by (rule c_loop_diverges)
  then show ?thesis by (simp add: checkRequest_def checkRequestInner_def)
qed

theorem checkRequest_spins_witness:
  "checkRequest ((defaultRequestStruct no_request)\<lparr>rq_parserState := HOST\<rparr>) (holding (str ''/'')) (holding []) = None"
  by (rule checkRequest_spins)
    (simp_all add: rq_wf_def defaultRequestStruct_def HOST_MAX_SIZE_def no_host_byte_def is_host_char_def tolower_def)

text \<open>C23
  The callback is called exactly once when a call of \<open>checkRequest\<close> finishes the parser, with the
  C string in the host array and the port, and not at all when it does not.\<close>

theorem checkRequest_callback_once:
  assumes "rq_wf rData bIn bOut" "rq_parserState rData \<noteq> FINISHED"
    "checkRequest rData bIn bOut = Some (ok, d', bIn', bOut', calls)"
  shows "calls = (if ok then [(c_string (rq_host d'), rq_port d')] else [])"
  using checkRequest_result [OF assms(1)] assms(2,3) by (auto simp: rq_calls_def)

theorem checkRequest_callback_once_witness:
  "rq_wf (defaultRequestStruct no_request) (holding []) (holding []) \<and>
   (\<exists>ok d' bIn' bOut' calls. checkRequest (defaultRequestStruct no_request) (holding []) (holding []) = Some (ok, d', bIn', bOut', calls)
     \<and> calls = (if ok then [(c_string (rq_host d'), rq_port d')] else []))"
proof -
  have w: "rq_wf (defaultRequestStruct no_request) (holding []) (holding [])"
    by (simp add: rq_wf_def defaultRequestStruct_def HOST_MAX_SIZE_def)
  let ?d = "(defaultRequestStruct no_request)\<lparr>rq_version := V_1_1, rq_isBufferEmpty := False\<rparr>"
  have "readAndWrite (holding []) (holding []) = Some (0, holding [], holding [])"
    by (simp add: buf_eqs)
  then have sw: "rq_switch (?d, holding [], holding [], []) =
      Some (False, True, ?d\<lparr>rq_isBufferEmpty := True\<rparr>, holding [], holding [], [])"
    by (simp add: rq_switch_def extractHttpMethod_def defaultRequestStruct_def toupper_def)
  have "c_loop checkRequestInner_body (False, True, x) = Some (False, True, x)" for x
    by (rule c_loop_break) (simp add: checkRequestInner_body_def)
  with rq_step [OF sw] have run: "checkRequest (defaultRequestStruct no_request) (holding []) (holding []) =
      Some (False, ?d\<lparr>rq_isBufferEmpty := True\<rparr>, holding [], holding [], [])"
    by (simp add: checkRequest_def checkRequestInner_def)
  have "[] = (if False then [(c_string (rq_host (?d\<lparr>rq_isBufferEmpty := True\<rparr>)), rq_port (?d\<lparr>rq_isBufferEmpty := True\<rparr>))] else [])"
    by (rule checkRequest_callback_once [OF w _ run]) (simp add: defaultRequestStruct_def)
  with w run show ?thesis by blast
qed

text \<open>
  A request rejected with data left gets an error for its method, its host or the end of its start
  line, or was in a relative URI, where the parser keeps the state it had. No version is ever
  rejected: \<open>VERSION_ERROR\<close> is not reachable, because every call presets the version.\<close>

theorem checkRequest_never_version_error:
  assumes "rq_wf rData bIn bOut" "checkRequest rData bIn bOut = Some (False, d', bIn', bOut', calls)"
    "\<not> rq_isBufferEmpty d'" "rq_parserState d' \<noteq> RELATIVE_URI"
  shows "rq_state d' \<in> {GENERAL_METHOD_ERROR, UNSUPPORTED_METHOD_ERROR, HOST_ERROR, START_LINE_END_ERROR}"
proof -
  have "rq_rejects d'" "rq_state d' = rq_error d'"
    using checkRequest_result [OF assms(1)] assms(2,3) by auto
  with assms(4) show ?thesis by (auto simp: rq_error_def rq_rejects_def split: if_splits)
qed

theorem checkRequest_never_version_error_witness:
  "\<exists>d' bIn' bOut' calls. checkRequest (defaultRequestStruct no_request) (holding (str ''XY'')) (holding []) =
      Some (False, d', bIn', bOut', calls)
    \<and> rq_state d' \<in> {GENERAL_METHOD_ERROR, UNSUPPORTED_METHOD_ERROR, HOST_ERROR, START_LINE_END_ERROR}"
proof -
  let ?b = "holding (str ''XY'')"
  let ?d = "(defaultRequestStruct no_request)\<lparr>rq_version := V_1_1, rq_isBufferEmpty := False\<rparr>"
  let ?d' = "?d\<lparr>rq_state := GENERAL_METHOD_ERROR\<rparr>"
  have "readAndWrite ?b (holding []) = Some (88, adv1 ?b, push (holding []) 88)"
    by (simp add: buf_eqs copy1_def)
  then have sw: "rq_switch (?d, ?b, holding [], []) =
      Some (False, True, ?d, adv1 ?b, push (holding []) 88, [])"
    by (simp add: rq_switch_def extractHttpMethod_def defaultRequestStruct_def toupper_def methodOption_def)
  have "c_loop checkRequestInner_body (False, True, x) = Some (False, True, x)" for x
    by (rule c_loop_break) (simp add: checkRequestInner_body_def)
  with rq_step [OF sw] have run: "checkRequest (defaultRequestStruct no_request) ?b (holding []) =
      Some (False, ?d', adv1 ?b, push (holding []) 88, [])"
    by (simp add: checkRequest_def checkRequestInner_def rq_error_def defaultRequestStruct_def)
  have "rq_state ?d' \<in> {GENERAL_METHOD_ERROR, UNSUPPORTED_METHOD_ERROR, HOST_ERROR, START_LINE_END_ERROR}"
    by (rule checkRequest_never_version_error [OF _ run])
      (simp_all add: rq_wf_def defaultRequestStruct_def HOST_MAX_SIZE_def)
  with run show ?thesis by blast
qed

end
