(* ===== verification/ResponseParser.thy ===== *)
theory ResponseParser
  imports RequestParser
begin

text \<open>
  \<open>proxy_http/src/response_parser/responseParser.c\<close> and \<open>include/responseParser/responseParser.h\<close>:
  the response parser. Head and body go to \<open>bOut\<close>, or, with a transformation, the head to
  \<open>bOut\<close> and the de-chunked body to \<open>bTransf\<close>. The names that the request parser has too
  carry the prefix \<open>rs_\<close>.
\<close>

section \<open>State\<close>

datatype responseParserState =
  RES_SPACE_TRANSITION | RES_VERSION | STATUS | RES_HEADERS | LENGTH_CHECK | ENCODING_CHECK
  | CHUNKED_CHECK | CONNECTION_CHECK | TYPE_CHECK | BODY_NORMAL | BODY_TRANSFORMATION | RES_FINISHED

datatype contentEncoding = IDENTITY | GZIP

datatype responseState =
  RES_OK | RES_GENERAL_ERROR | START_LINE_FORMAT_ERROR | RES_VERSION_ERROR | STATUS_ERROR
  | HEADERS_END_ERROR | CHUNKS_ERROR | RES_ALLOCATION_ERROR

definition NO_BODY_LENGTH :: int where "NO_BODY_LENGTH = - 1"

record ResponseData =
  rs_parserState :: responseParserState
  rs_next :: responseParserState
  rs_isBufferEmpty :: bool
  rs_state :: responseState
  rs_version :: httpVersion
  rs_status :: int
  rs_isClose :: bool
  rs_bodyLength :: int
  rs_cEncoding :: contentEncoding
  rs_isChunked :: bool
  rs_withTransf :: bool

type_synonym rs_bufs = "ResponseData \<times> buffer \<times> buffer"

definition defaultResponseStruct :: "ResponseData \<Rightarrow> ResponseData" where
  "defaultResponseStruct rData =
     rData\<lparr>rs_parserState := RES_VERSION, rs_isBufferEmpty := False, rs_state := RES_OK,
       rs_version := UNDEFINED, rs_status := 0, rs_bodyLength := NO_BODY_LENGTH,
       rs_cEncoding := IDENTITY, rs_isClose := False, rs_isChunked := False, rs_withTransf := False\<rparr>"

section \<open>Start line\<close>

definition rs_checkSpaces :: "rs_bufs \<Rightarrow> (bool \<times> rs_bufs) option" where
  "rs_checkSpaces s =
     (case s of (rData, bIn, bOut) \<Rightarrow>
      do {
        (c, bIn') \<leftarrow> moveThroughSpaces bIn;
        if c = 0 then Some (False, rData\<lparr>rs_isBufferEmpty := True\<rparr>, bIn', bOut)
        else do { bOut' \<leftarrow> buffer_write bOut 32; Some (True, rData, bIn', bOut') }
      })"

definition rs_extractHttpVersion :: "rs_bufs \<Rightarrow> (bool \<times> rs_bufs) option" where
  "rs_extractHttpVersion s =
     (case s of (rData, bIn, bOut) \<Rightarrow>
      do {
        (r, bIn1, bOut1, e) \<leftarrow> matchFormat (str ''HTTP/1.'') bIn bOut [] (rs_isBufferEmpty rData);
        let rData1 = rData\<lparr>rs_isBufferEmpty := e\<rparr>;
        if r then
          do {
            (c, bIn2, bOut2) \<leftarrow> readAndWrite bIn1 bOut1;
            if c \<noteq> 0 then
              (let v = (if c = 48 then V_1_0 else if c = 49 then V_1_1 else rs_version rData1)
               in Some (v \<noteq> UNDEFINED, rData1\<lparr>rs_version := v\<rparr>, bIn2, bOut2))
            else do {
              bIn3 \<leftarrow> writePrefix bIn2 (str ''HTTP/1.'');
              Some (False, rData1\<lparr>rs_isBufferEmpty := True\<rparr>, bIn3, bOut2)
            }
          }
        else if e then Some (False, rData1, bIn1, bOut1)
        else Some (rs_version rData1 \<noteq> UNDEFINED, rData1, bIn1, bOut1)
      })"

definition isValidStatus :: "int \<Rightarrow> bool" where
  "isValidStatus status = True"

definition extractStatus :: "rs_bufs \<Rightarrow> (bool \<times> rs_bufs) option" where
  "extractStatus s =
     (case s of (rData, bIn, bOut) \<Rightarrow>
      do {
        (r, n, bIn', bOut', e) \<leftarrow> getNumber (rs_status rData) bIn bOut [] (rs_isBufferEmpty rData);
        Some (r \<and> isValidStatus n, rData\<lparr>rs_status := n, rs_isBufferEmpty := e\<rparr>, bIn', bOut')
      })"

section \<open>Headers\<close>

text \<open>
  The branches of the header loop, by the first character of the header: each says whether it
  leaves the loop. After \<open>CONTENT-\<close>, the next character selects the header.
\<close>

definition content_header ::
  "byte list \<Rightarrow> byte list \<Rightarrow> responseParserState \<Rightarrow> rs_bufs \<Rightarrow> (bool \<times> rs_bufs) option" where
  "content_header format prefix check s =
     (case s of (rData, bIn, bOut) \<Rightarrow>
      do {
        (r, bIn', bOut', e) \<leftarrow> matchFormat format bIn bOut prefix (rs_isBufferEmpty rData);
        let rData' = rData\<lparr>rs_isBufferEmpty := e\<rparr>;
        if r then Some (True, rData'\<lparr>rs_next := check\<rparr>, bIn', bOut')
        else Some (e, rData', bIn', bOut')
      })"

definition checkHeaders_content :: "rs_bufs \<Rightarrow> (bool \<times> rs_bufs) option" where
  "checkHeaders_content s =
     (case s of (rData, bIn, bOut) \<Rightarrow>
      do {
        (c, bIn1, bOut1) \<leftarrow> readAndWrite bIn bOut;
        let aux = toupper c;
        if aux = 76 then content_header (str ''ENGTH:'') (str ''CONTENT-L'') LENGTH_CHECK (rData, bIn1, bOut1)
        else if aux = 69 then content_header (str ''NCODING:'') (str ''CONTENT-E'') ENCODING_CHECK (rData, bIn1, bOut1)
        else if aux = 84 then content_header (str ''YPE:'') (str ''CONTENT-T'') TYPE_CHECK (rData, bIn1, bOut1)
        else if aux = 0 then
          do {
            bIn2 \<leftarrow> writePrefix bIn1 (str ''CONTENT-'');
            Some (True, rData\<lparr>rs_isBufferEmpty := True\<rparr>, bIn2, bOut1)
          }
        else Some (False, rData, bIn1, bOut1)
      })"

definition checkHeaders_C :: "rs_bufs \<Rightarrow> (bool \<times> rs_bufs) option" where
  "checkHeaders_C s =
     (case s of (rData, bIn, bOut) \<Rightarrow>
      do {
        (r1, bIn1, bOut1, e1) \<leftarrow> matchFormat (str ''ON'') bIn bOut (str ''C'') (rs_isBufferEmpty rData);
        if r1 then
          do {
            (r2, bIn2, bOut2, e2) \<leftarrow> matchFormat (str ''TENT-'') bIn1 bOut1 (str ''CON'') e1;
            if r2 then checkHeaders_content (rData\<lparr>rs_isBufferEmpty := e2\<rparr>, bIn2, bOut2)
            else content_header (str ''NECTION:'') (str ''CON'') CONNECTION_CHECK
              (rData\<lparr>rs_isBufferEmpty := e2\<rparr>, bIn2, bOut2)
          }
        else Some (e1, rData\<lparr>rs_isBufferEmpty := e1\<rparr>, bIn1, bOut1)
      })"

text \<open>The two lines that the proxy adds at the end of the headers, and the empty line.\<close>

definition header_end :: "ResponseData \<Rightarrow> byte list" where
  "header_end rData =
     (if \<not> rs_isChunked rData \<and> rs_withTransf rData then str ''Transfer-Encoding: chunked'' @ [13, 10] else [])
     @ (if \<not> rs_isClose rData then str ''Connection: close'' @ [13, 10] else [])
     @ [13, 10]"

definition checkHeaders_CR :: "rs_bufs \<Rightarrow> (bool \<times> rs_bufs) option" where
  "checkHeaders_CR s =
     (case s of (rData, bIn, bOut) \<Rightarrow>
      do {
        (r, bIn1, bOut1, e) \<leftarrow> checkLF bIn bOut [13] (rs_isBufferEmpty rData);
        let rData1 = rData\<lparr>rs_isBufferEmpty := e\<rparr>;
        if r then
          do {
            aux \<leftarrow> buffer_peek bIn1;
            if aux = 13 then
              do {
                (_, bIn2) \<leftarrow> buffer_read bIn1;
                aux' \<leftarrow> buffer_peek bIn2;
                if aux' = 10 then
                  do {
                    (_, bIn3) \<leftarrow> buffer_read bIn2;
                    bOut2 \<leftarrow> writeToBuf (header_end rData1) bOut1;
                    Some (True, rData1\<lparr>rs_next := RES_FINISHED\<rparr>, bIn3, bOut2)
                  }
                else if aux' = 0 then
                  do {
                    bIn3 \<leftarrow> writePrefix bIn2 [13, 10, 13];
                    Some (True, rData1\<lparr>rs_isBufferEmpty := True\<rparr>, bIn3, bOut1)
                  }
                else Some (False, rData1, bIn2, bOut1)
              }
            else if aux = 0 then
              do {
                bIn2 \<leftarrow> writePrefix bIn1 [13, 10];
                Some (True, rData1\<lparr>rs_isBufferEmpty := True\<rparr>, bIn2, bOut1)
              }
            else Some (False, rData1, bIn1, bOut1)
          }
        else Some (e, rData1, bIn1, bOut1)
      })"

definition checkHeaders_body :: "rs_bufs \<Rightarrow> (bool \<times> rs_bufs) option" where
  "checkHeaders_body s =
     (case s of (rData, bIn, bOut) \<Rightarrow>
      do {
        (c0, bIn1, bOut1) \<leftarrow> readAndWrite bIn bOut;
        let c = toupper c0;
        if c = 0 then Some (True, rData, bIn1, bOut1)
        else if c = 67 then checkHeaders_C (rData, bIn1, bOut1)
        else if c = 84 then
          content_header (str ''RANSFER-ENCODING:'') (str ''T'') CHUNKED_CHECK (rData, bIn1, bOut1)
        else if c = 13 then checkHeaders_CR (rData, bIn1, bOut1)
        else Some (False, rData, bIn1, bOut1)
      })"

definition checkHeaders :: "rs_bufs \<Rightarrow> (bool \<times> rs_bufs) option" where
  "checkHeaders s =
     (case s of (rData, bIn, bOut) \<Rightarrow>
      do {
        (rData', bIn', bOut') \<leftarrow> c_loop checkHeaders_body (rData\<lparr>rs_next := RES_HEADERS\<rparr>, bIn, bOut);
        if rs_next rData' = RES_HEADERS
        then Some (False, rData'\<lparr>rs_isBufferEmpty := True\<rparr>, bIn', bOut')
        else Some (True, rData', bIn', bOut')
      })"

definition checkLength :: "rs_bufs \<Rightarrow> (bool \<times> rs_bufs) option" where
  "checkLength s =
     (case s of (rData, bIn, bOut) \<Rightarrow>
      do {
        (r, n, bIn', bOut', e) \<leftarrow> getNumber (rs_bodyLength rData) bIn bOut [] (rs_isBufferEmpty rData);
        Some (r, rData\<lparr>rs_bodyLength := n, rs_isBufferEmpty := e\<rparr>, bIn', bOut')
      })"

definition checkEncoding :: "rs_bufs \<Rightarrow> (bool \<times> rs_bufs) option" where
  "checkEncoding s =
     (case s of (rData, bIn, bOut) \<Rightarrow>
      do {
        (r, bIn', bOut', e) \<leftarrow> matchFormat (str ''GZIP'') bIn bOut [] (rs_isBufferEmpty rData);
        let rData' = rData\<lparr>rs_isBufferEmpty := e\<rparr>;
        if r then Some (True, rData'\<lparr>rs_cEncoding := GZIP\<rparr>, bIn', bOut')
        else Some (False, rData', bIn', bOut')
      })"

definition checkChunked :: "rs_bufs \<Rightarrow> (bool \<times> rs_bufs) option" where
  "checkChunked s =
     (case s of (rData, bIn, bOut) \<Rightarrow>
      do {
        (r, bIn', bOut', e) \<leftarrow> matchFormat (str ''CHUNKED'') bIn bOut [] (rs_isBufferEmpty rData);
        let rData' = rData\<lparr>rs_isBufferEmpty := e\<rparr>;
        if r then Some (True, rData'\<lparr>rs_isChunked := True\<rparr>, bIn', bOut')
        else Some (False, rData', bIn', bOut')
      })"

definition checkConnection_body :: "byte \<times> buffer \<Rightarrow> (bool \<times> byte \<times> buffer) option" where
  "checkConnection_body s =
     (case s of (_, b) \<Rightarrow>
      do {
        c \<leftarrow> buffer_peek b;
        if c \<noteq> 0 \<and> c \<noteq> 13 then do { (_, b') \<leftarrow> buffer_read b; Some (False, c, b') }
        else Some (True, c, b)
      })"

definition checkConnection :: "rs_bufs \<Rightarrow> (bool \<times> rs_bufs) option" where
  "checkConnection s =
     (case s of (rData, bIn, bOut) \<Rightarrow>
      do {
        (c, bIn') \<leftarrow> c_loop checkConnection_body (0, bIn);
        if c = 0 then Some (False, rData\<lparr>rs_isBufferEmpty := True\<rparr>, bIn', bOut)
        else do {
          bOut' \<leftarrow> writeToBuf (str ''close'') bOut;
          Some (True, rData\<lparr>rs_isClose := True\<rparr>, bIn', bOut')
        }
      })"

definition checkType :: "rs_bufs \<Rightarrow> (bool \<times> rs_bufs) option" where
  "checkType s = Some (True, s)"

section \<open>Body\<close>

text \<open>\<open>while (buffer_can_read(bIn)) readAndWriteWithZero(...)\<close>: a body that ends with the connection.\<close>

definition copy_rest_body :: "rs_bufs \<Rightarrow> (bool \<times> rs_bufs) option" where
  "copy_rest_body s =
     (case s of (rData, bIn, bOut) \<Rightarrow>
      if buffer_can_read bIn then
        do {
          (_, bIn', bOut', e) \<leftarrow> readAndWriteWithZero bIn bOut (rs_isBufferEmpty rData);
          Some (False, rData\<lparr>rs_isBufferEmpty := e\<rparr>, bIn', bOut')
        }
      else Some (True, s))"

text \<open>
  One iteration over a chunk: whether the loop is left, and the function's result. The two
  variants differ in the routines that copy the framing and those that drop it.
\<close>

definition extractChunkedBody_body :: "bool \<times> rs_bufs \<Rightarrow> (bool \<times> bool \<times> rs_bufs) option" where
  "extractChunkedBody_body s =
     (case s of (_, rData, bIn, bOut) \<Rightarrow>
      do {
        (r1, n1, bIn1, bOut1, e1) \<leftarrow> getHexNumber (rs_bodyLength rData) bIn bOut [] (rs_isBufferEmpty rData);
        let rData1 = rData\<lparr>rs_bodyLength := n1, rs_isBufferEmpty := e1\<rparr>;
        if \<not> r1 then Some (True, False, rData1, bIn1, bOut1)
        else do {
          (r2, bIn2, bOut2, e2) \<leftarrow> checkCRLF bIn1 bOut1 [] e1;
          let rData2 = rData1\<lparr>rs_isBufferEmpty := e2\<rparr>;
          if \<not> r2 then
            do {
              bIn3 \<leftarrow> (if e2 then writeHexToBufReverse n1 bIn2 else Some bIn2);
              Some (True, False, rData2, bIn3, bOut2)
            }
          else do {
            (r3, n3, bIn3, bOut3, e3) \<leftarrow> writeToTransfBufWithZero bIn2 bOut2 n1 e2;
            let rData3 = rData2\<lparr>rs_bodyLength := n3, rs_isBufferEmpty := e3\<rparr>;
            if \<not> r3 then
              do {
                bIn4 \<leftarrow> (if n3 > 0 then
                    do { b' \<leftarrow> writePrefix bIn3 [13, 10]; writeHexToBufReverse n3 b' }
                  else Some bIn3);
                Some (True, False, rData3, bIn4, bOut3)
              }
            else do {
              (r4, bIn4, bOut4, e4) \<leftarrow> checkCRLF bIn3 bOut3 [] e3;
              let rData4 = rData3\<lparr>rs_isBufferEmpty := e4\<rparr>;
              if \<not> r4 then
                do {
                  bIn5 \<leftarrow> writePrefix bIn4 (if n1 > 0 then [49, 13, 10, 49] else [48, 13, 10]);
                  Some (True, False, rData4, bIn5, bOut4)
                }
              else Some (\<not> n1 > 0, True, rData4, bIn4, bOut4)
            }
          }
        }
      })"

definition extractChunkedBody :: "rs_bufs \<Rightarrow> (bool \<times> rs_bufs) option" where
  "extractChunkedBody s = c_loop extractChunkedBody_body (True, s)"

definition extractChunkedBodyTransf_body :: "bool \<times> rs_bufs \<Rightarrow> (bool \<times> bool \<times> rs_bufs) option" where
  "extractChunkedBodyTransf_body s =
     (case s of (_, rData, bIn, bTransf) \<Rightarrow>
      do {
        (r1, n1, bIn1, e1) \<leftarrow> simpleGetHexNumber (rs_bodyLength rData) bIn [] (rs_isBufferEmpty rData);
        let rData1 = rData\<lparr>rs_bodyLength := n1, rs_isBufferEmpty := e1\<rparr>;
        if \<not> r1 then Some (True, False, rData1, bIn1, bTransf)
        else do {
          (r2, bIn2, e2) \<leftarrow> simpleCheckCRLF bIn1 [] e1;
          let rData2 = rData1\<lparr>rs_isBufferEmpty := e2\<rparr>;
          if \<not> r2 then
            do {
              bIn3 \<leftarrow> (if e2 then writeHexToBufReverse n1 bIn2 else Some bIn2);
              Some (True, False, rData2, bIn3, bTransf)
            }
          else do {
            (r3, n3, bIn3, bTransf3, e3) \<leftarrow> writeToTransfBufWithZero bIn2 bTransf n1 e2;
            let rData3 = rData2\<lparr>rs_bodyLength := n3, rs_isBufferEmpty := e3\<rparr>;
            if \<not> r3 then
              do {
                bIn4 \<leftarrow> (if n3 > 0 then
                    do { b' \<leftarrow> writePrefix bIn3 [13, 10]; writeHexToBufReverse n3 b' }
                  else Some bIn3);
                Some (True, False, rData3, bIn4, bTransf3)
              }
            else do {
              (r4, bIn4, e4) \<leftarrow> simpleCheckCRLF bIn3 [] e3;
              let rData4 = rData3\<lparr>rs_isBufferEmpty := e4\<rparr>;
              if \<not> r4 then
                do {
                  bIn5 \<leftarrow> writePrefix bIn4 (if n1 > 0 then [49, 13, 10, 49] else [48, 13, 10]);
                  Some (True, False, rData4, bIn5, bTransf3)
                }
              else Some (\<not> n1 > 0, True, rData4, bIn4, bTransf3)
            }
          }
        }
      })"

definition extractChunkedBodyTransf :: "rs_bufs \<Rightarrow> (bool \<times> rs_bufs) option" where
  "extractChunkedBodyTransf s = c_loop extractChunkedBodyTransf_body (True, s)"

definition extractBody :: "rs_bufs \<Rightarrow> (bool \<times> rs_bufs) option" where
  "extractBody s =
     (case s of (rData, bIn, bOut) \<Rightarrow>
      if \<not> rs_isChunked rData \<and> rs_bodyLength rData < 0 \<and> rs_status rData \<noteq> 200 then
        Some (False, rData\<lparr>rs_isBufferEmpty := True, rs_parserState := RES_FINISHED\<rparr>, bIn, bOut)
      else if rs_isChunked rData then extractChunkedBody (rData, bIn, bOut)
      else if rs_bodyLength rData \<ge> 0 then
        do {
          (r, n, bIn', bOut', e) \<leftarrow>
            writeToTransfBufWithZero bIn bOut (rs_bodyLength rData) (rs_isBufferEmpty rData);
          Some (r, rData\<lparr>rs_bodyLength := n, rs_isBufferEmpty := e\<rparr>, bIn', bOut')
        }
      else do { s' \<leftarrow> c_loop copy_rest_body s; Some (False, s') })"

definition extractBodyTransf :: "rs_bufs \<Rightarrow> (bool \<times> rs_bufs) option" where
  "extractBodyTransf s =
     (case s of (rData, bIn, bTransf) \<Rightarrow>
      if rs_isChunked rData then extractChunkedBodyTransf (rData, bIn, bTransf)
      else if rs_bodyLength rData \<ge> 0 then
        do {
          (r, n, bIn', bTransf', e) \<leftarrow>
            writeToTransfBufWithZero bIn bTransf (rs_bodyLength rData) (rs_isBufferEmpty rData);
          Some (r, rData\<lparr>rs_bodyLength := n, rs_isBufferEmpty := e\<rparr>, bIn', bTransf')
        }
      else do { s' \<leftarrow> c_loop copy_rest_body s; Some (False, s') })"

section \<open>The state machine\<close>

type_synonym rs_all = "ResponseData \<times> buffer \<times> buffer \<times> buffer"

type_synonym rs_loop = "bool \<times> bool \<times> rs_all"

text \<open>The \<open>switch\<close>: \<open>success\<close> and \<open>active\<close> are true when it is entered.\<close>

definition rs_switch :: "rs_all \<Rightarrow> rs_loop option" where
  "rs_switch s =
     (case s of (rData, bIn, bOut, bTransf) \<Rightarrow>
      let go = (\<lambda>upd (r, rData, bIn, bOut). if \<not> r then Some (False, True, rData, bIn, bOut, bTransf)
              else Some (True, True, upd rData, bIn, bOut, bTransf));
          check = (\<lambda>(r, rData, bIn, bOut). if \<not> r \<and> rs_isBufferEmpty rData
              then Some (False, True, rData, bIn, bOut, bTransf)
              else Some (True, True, rData\<lparr>rs_parserState := RES_HEADERS\<rparr>, bIn, bOut, bTransf));
          t = (rData, bIn, bOut)
      in case rs_parserState rData of
        RES_SPACE_TRANSITION \<Rightarrow> Option.bind (rs_checkSpaces t) (go (\<lambda>d. d\<lparr>rs_parserState := rs_next d\<rparr>))
      | RES_VERSION \<Rightarrow> Option.bind (rs_extractHttpVersion t)
          (go (\<lambda>d. d\<lparr>rs_parserState := RES_SPACE_TRANSITION, rs_next := STATUS\<rparr>))
      | STATUS \<Rightarrow> Option.bind (extractStatus t) (go (\<lambda>d. d\<lparr>rs_parserState := RES_HEADERS\<rparr>))
      | RES_HEADERS \<Rightarrow> Option.bind (checkHeaders t)
          (go (\<lambda>d. if rs_next d = RES_FINISHED
                    then d\<lparr>rs_parserState := (if rs_withTransf d then BODY_TRANSFORMATION else BODY_NORMAL)\<rparr>
                    else d\<lparr>rs_parserState := RES_SPACE_TRANSITION\<rparr>))
      | LENGTH_CHECK \<Rightarrow> Option.bind (checkLength t) check
      | ENCODING_CHECK \<Rightarrow> Option.bind (checkEncoding t) check
      | CHUNKED_CHECK \<Rightarrow> Option.bind (checkChunked t) check
      | CONNECTION_CHECK \<Rightarrow> Option.bind (checkConnection t) check
      | TYPE_CHECK \<Rightarrow> Option.bind (checkType t) check
      | BODY_NORMAL \<Rightarrow> Option.bind (extractBody t) (go (\<lambda>d. d\<lparr>rs_parserState := RES_FINISHED\<rparr>))
      | BODY_TRANSFORMATION \<Rightarrow> Option.bind (extractBodyTransf (rData, bIn, bTransf))
          (\<lambda>(r, rData, bIn, bTransf). if \<not> r then Some (False, True, rData, bIn, bOut, bTransf)
            else Some (True, True, rData\<lparr>rs_parserState := RES_FINISHED\<rparr>, bIn, bOut, bTransf))
      | RES_FINISHED \<Rightarrow> Some (True, False, s))"

definition checkResponseInner_body :: "rs_loop \<Rightarrow> (bool \<times> rs_loop) option" where
  "checkResponseInner_body s =
     (case s of (success, active, st) \<Rightarrow>
      if success \<and> active then do { s' \<leftarrow> rs_switch st; Some (False, s') } else Some (True, s))"

definition rs_error :: "ResponseData \<Rightarrow> responseState" where
  "rs_error rData =
     (case rs_parserState rData of
        RES_VERSION \<Rightarrow> RES_VERSION_ERROR
      | STATUS \<Rightarrow> STATUS_ERROR
      | BODY_NORMAL \<Rightarrow> (if rs_isChunked rData then CHUNKS_ERROR else rs_state rData)
      | BODY_TRANSFORMATION \<Rightarrow> (if rs_isChunked rData then CHUNKS_ERROR else rs_state rData)
      | _ \<Rightarrow> rs_state rData)"

definition checkResponseInner :: "rs_all \<Rightarrow> (bool \<times> rs_all) option" where
  "checkResponseInner s =
     (case s of (rData, bIn, bOut, bTransf) \<Rightarrow>
      do {
        (success, _, rData', bIn', bOut', bTransf') \<leftarrow>
          c_loop checkResponseInner_body (True, True, rData\<lparr>rs_isBufferEmpty := False\<rparr>, bIn, bOut, bTransf);
        let rData'' = (if \<not> success \<and> \<not> rs_isBufferEmpty rData'
          then rData'\<lparr>rs_state := rs_error rData'\<rparr> else rData');
        Some (success, rData'', bIn', bOut', bTransf')
      })"

definition checkResponse ::
  "ResponseData \<Rightarrow> buffer \<Rightarrow> buffer \<Rightarrow> buffer \<Rightarrow> (bool \<times> rs_all) option" where
  "checkResponse rData bIn bOut bTransf = checkResponseInner (rData, bIn, bOut, bTransf)"

end
