(* ===== verification/ResponseFacts.thy ===== *)
theory ResponseFacts
  imports ResponseParser RequestFacts
begin

text \<open>
  Safety and termination of the response parser: the closed form of the block copy, one contract
  per \<open>static\<close> function, and the state machine, which always returns.
\<close>

section \<open>Copying a given number of bytes\<close>

lemma writeToTransfBufWithZero_loop:
  "buf_inv b \<Longrightarrow> buf_inv bo \<Longrightarrow> c_loop writeToTransfBufWithZero_body (q, b, bo, False) =
     (let k = min (nat q) (length (pending b))
      in Some (q - int k, advs k b, copiesz k b bo, int (length (pending b)) < q))"
proof (induction "nat q" arbitrary: q b bo)
  case 0
  then show ?case by (simp add: c_loop_break writeToTransfBufWithZero_body_def)
next
  case (Suc m)
  show ?case
  proof (cases "pending b")
    case Nil
    with Suc show ?thesis
      by (simp add: c_loop_break writeToTransfBufWithZero_body_def buf_eqs)
  next
    case (Cons x xs)
    have step: "writeToTransfBufWithZero_body (q, b, bo, False) = Some (False, q - 1, adv1 b, copyz1 b bo, False)"
      using Suc Cons by (simp add: writeToTransfBufWithZero_body_def buf_eqs)
    have I: "buf_inv (adv1 b)" "buf_inv (copyz1 b bo)" "pending (adv1 b) = xs"
      using Suc Cons by (simp_all add: buf_view)
    have k: "min (nat q) (length (pending b)) = Suc (min (nat (q - 1)) (length xs))"
      using Suc(2) Cons by (simp add: nat_diff_distrib min_def) linarith
    show ?thesis
      using Suc(1) [of "q - 1" "adv1 b" "copyz1 b bo"] Suc(2-) I step k Cons
      by (simp add: c_loop_continue advs_Suc copiesz_Suc Let_def) auto
  qed
qed

lemma writeToTransfBufWithZero_eq:
  assumes "buf_inv b" "buf_inv bo"
  shows "writeToTransfBufWithZero b bo q False =
     (let k = min (nat q) (length (pending b))
      in Some (q \<le> int (length (pending b)), q - int k, advs k b, copiesz k b bo, int (length (pending b)) < q))"
  using assms by (auto simp: writeToTransfBufWithZero_def writeToTransfBufWithZero_loop Let_def min_def)

lemma writeToTransfBufWithZero_spec:
  assumes "io_ok b bo"
  shows "\<exists>r n b' bo' e'. writeToTransfBufWithZero b bo q e = Some (r, n, b', bo', e') \<and> io_ok b' bo'
    \<and> length (pending b') \<le> length (pending b)"
proof (cases e)
  case False
  with assms show ?thesis by (simp add: writeToTransfBufWithZero_eq Let_def buf_view)
next
  case True
  have "\<exists>n b' bo' e'. c_loop writeToTransfBufWithZero_body (q, b, bo, True) = Some (n, b', bo', e')
      \<and> io_ok b' bo' \<and> length (pending b') \<le> length (pending b)"
    using assms
    by (cases "q > 0"; cases "pending b = []")
      (simp_all add: c_loop_break writeToTransfBufWithZero_body_def buf_eqs buf_view)
  with True show ?thesis by (auto simp: writeToTransfBufWithZero_def)
qed

section \<open>Contracts of the parser's functions\<close>

definition rs_ok :: "rs_bufs \<Rightarrow> bool" where
  "rs_ok s = (case s of (rData, bIn, bOut) \<Rightarrow> io_ok bIn bOut)"

lemma rs_ok_simp [simp]: "rs_ok (rData, bIn, bOut) \<longleftrightarrow> io_ok bIn bOut"
  by (simp add: rs_ok_def)

text \<open>What no function but \<open>checkHeaders\<close> and \<open>extractBody\<close> touches.\<close>

abbreviation same_stage :: "ResponseData \<Rightarrow> ResponseData \<Rightarrow> bool" where
  "same_stage r r' \<equiv> rs_parserState r' = rs_parserState r \<and> rs_next r' = rs_next r"

text \<open>The pending bytes may only have grown when the function failed for want of input.\<close>

abbreviation shrinks :: "bool \<Rightarrow> ResponseData \<Rightarrow> buffer \<Rightarrow> buffer \<Rightarrow> bool" where
  "shrinks r rData' b b' \<equiv> r \<or> \<not> rs_isBufferEmpty rData' \<longrightarrow> length (pending b') \<le> length (pending b)"

lemma rs_checkSpaces_spec:
  assumes "io_ok b bo"
  shows "\<exists>r rData' b' bo'. rs_checkSpaces (rData, b, bo) = Some (r, rData', b', bo')
    \<and> io_ok b' bo' \<and> same_stage rData rData' \<and> (r \<longrightarrow> length (pending b') \<le> length (pending b))"
proof -
  from moveThroughSpaces_spec [of b] assms obtain c b' where
    "moveThroughSpaces b = Some (c, b')" "buf_inv b'" "length (pending b') \<le> length (pending b)" by blast
  with assms show ?thesis by (auto simp: rs_checkSpaces_def buffer_write_eq)
qed

lemma rs_extractHttpVersion_spec:
  assumes "io_ok b bo"
  shows "\<exists>r rData' b' bo'. rs_extractHttpVersion (rData, b, bo) = Some (r, rData', b', bo')
    \<and> io_ok b' bo' \<and> same_stage rData rData'"
proof -
  from matchFormat_spec [OF assms, of "str ''HTTP/1.''" "[]" "rs_isBufferEmpty rData"] obtain r b1 bo1 e where
    m1: "matchFormat (str ''HTTP/1.'') b bo [] (rs_isBufferEmpty rData) = Some (r, b1, bo1, e)" "io_ok b1 bo1"
    by auto
  from readAndWrite_spec [OF m1(2)] obtain b2 bo2 where
    r: "readAndWrite b1 bo1 = Some (peekl (pending b1), b2, bo2)" "io_ok b2 bo2" by blast
  show ?thesis
    using m1 r assms
    by (cases r; cases "peekl (pending b1) = 0") (auto simp: rs_extractHttpVersion_def writePrefix_eq Let_def)
qed

lemma extractStatus_spec:
  assumes "io_ok b bo"
  shows "\<exists>r rData' b' bo'. extractStatus (rData, b, bo) = Some (r, rData', b', bo')
    \<and> io_ok b' bo' \<and> same_stage rData rData'"
  using getNumber_spec [OF assms, of "rs_status rData" "[]" "rs_isBufferEmpty rData"]
  by (auto simp: extractStatus_def)

lemma checkLength_spec:
  assumes "io_ok b bo"
  shows "\<exists>r rData' b' bo'. checkLength (rData, b, bo) = Some (r, rData', b', bo')
    \<and> io_ok b' bo' \<and> same_stage rData rData' \<and> shrinks r rData' b b'"
proof -
  from getNumber_spec [OF assms, of "rs_bodyLength rData" "[]" "rs_isBufferEmpty rData"] obtain r n b' bo' e where
    "getNumber (rs_bodyLength rData) b bo [] (rs_isBufferEmpty rData) = Some (r, n, b', bo', e)" "io_ok b' bo'"
    "r \<longrightarrow> length (pending b') < length (pending b)" "\<not> e \<longrightarrow> length (pending b') \<le> length (pending b)" by blast
  then show ?thesis by (auto simp: checkLength_def)
qed

lemma matchFormat_shrinks:
  assumes "io_ok b bo" and "0 \<notin> set fs"
  shows "\<exists>r b' bo' e'. matchFormat fs b bo pre e = Some (r, b', bo', e') \<and> io_ok b' bo'
    \<and> (r \<or> \<not> e' \<longrightarrow> length (pending b') \<le> length (pending b))
    \<and> length (pending b') \<le> length (pending b) + length pre
    \<and> (r \<longrightarrow> length (pending b') + length fs = length (pending b))"
  using assms match_len_le [of fs "pending b"]
  by (auto simp: matchFormat_eq buf_view Let_def)

lemma checkEncoding_spec:
  assumes "io_ok b bo"
  shows "\<exists>r rData' b' bo'. checkEncoding (rData, b, bo) = Some (r, rData', b', bo')
    \<and> io_ok b' bo' \<and> same_stage rData rData' \<and> shrinks r rData' b b'"
proof -
  from matchFormat_shrinks [OF assms, of "str ''GZIP''" "[]" "rs_isBufferEmpty rData"] obtain r b' bo' e where
    "matchFormat (str ''GZIP'') b bo [] (rs_isBufferEmpty rData) = Some (r, b', bo', e)" "io_ok b' bo'"
    "r \<or> \<not> e \<longrightarrow> length (pending b') \<le> length (pending b)" by (auto simp del: str_Cons) (auto simp: str_def)
  then show ?thesis by (cases r) (auto simp: checkEncoding_def)
qed

lemma checkChunked_spec:
  assumes "io_ok b bo"
  shows "\<exists>r rData' b' bo'. checkChunked (rData, b, bo) = Some (r, rData', b', bo')
    \<and> io_ok b' bo' \<and> same_stage rData rData' \<and> shrinks r rData' b b'"
proof -
  from matchFormat_shrinks [OF assms, of "str ''CHUNKED''" "[]" "rs_isBufferEmpty rData"] obtain r b' bo' e where
    "matchFormat (str ''CHUNKED'') b bo [] (rs_isBufferEmpty rData) = Some (r, b', bo', e)" "io_ok b' bo'"
    "r \<or> \<not> e \<longrightarrow> length (pending b') \<le> length (pending b)" by (auto simp del: str_Cons) (auto simp: str_def)
  then show ?thesis by (cases r) (auto simp: checkChunked_def)
qed

interpretation connection_value: c_loop_contract checkConnection_body
  "\<lambda>(c, b). buf_inv b \<and> length (pending b) \<le> n" "\<lambda>(c, b). length (pending b)"
  "\<lambda>(c, b). buf_inv b \<and> length (pending b) \<le> n" for n
proof (rule c_loop_contractI, goal_cases)
  case (1 s)
  obtain c b where s: "s = (c, b)" by (cases s)
  with 1 have I: "buf_inv b" "length (pending b) \<le> n" by simp_all
  show ?case
  proof (cases "peekl (pending b) \<noteq> 0 \<and> peekl (pending b) \<noteq> 13")
    case True
    then have "pending b \<noteq> []" by auto
    with True I show ?thesis by (simp add: s checkConnection_body_def buf_eqs buf_view)
  next
    case False
    with I show ?thesis by (auto simp: s checkConnection_body_def buf_eqs)
  qed
qed

lemma checkConnection_spec:
  assumes "io_ok b bo"
  shows "\<exists>r rData' b' bo'. checkConnection (rData, b, bo) = Some (r, rData', b', bo')
    \<and> io_ok b' bo' \<and> same_stage rData rData' \<and> shrinks r rData' b b'"
proof -
  from connection_value.loop_returns [of "length (pending b)" "(0, b)"] assms obtain c b' where
    "c_loop checkConnection_body (0, b) = Some (c, b')" "buf_inv b'" "length (pending b') \<le> length (pending b)"
    by auto
  with assms show ?thesis
    by (cases "c = 0") (auto simp: checkConnection_def writeToBuf_eq simp del: writeToBuf.simps)
qed

lemma checkType_spec:
  "io_ok b bo \<Longrightarrow> \<exists>r rData' b' bo'. checkType (rData, b, bo) = Some (r, rData', b', bo')
    \<and> io_ok b' bo' \<and> same_stage rData rData' \<and> shrinks r rData' b b'"
  by (simp add: checkType_def)

section \<open>The header loop\<close>

definition header_states :: "responseParserState set" where
  "header_states = {LENGTH_CHECK, ENCODING_CHECK, TYPE_CHECK, CHUNKED_CHECK, CONNECTION_CHECK, RES_FINISHED}"

lemma header_states_simps [simp]:
  "LENGTH_CHECK \<in> header_states" "ENCODING_CHECK \<in> header_states" "TYPE_CHECK \<in> header_states"
  "CHUNKED_CHECK \<in> header_states" "CONNECTION_CHECK \<in> header_states" "RES_FINISHED \<in> header_states"
  "RES_HEADERS \<notin> header_states"
  by (simp_all add: header_states_def)

text \<open>
  The contract of a branch on an input of at most \<open>n\<close> bytes: it goes on with no more than
  that, and leaves the loop either with a header found and no more than that, or without one.
\<close>

fun branch_post :: "ResponseData \<Rightarrow> nat \<Rightarrow> bool \<times> rs_bufs \<Rightarrow> bool" where
  "branch_post rData n (brk, rData', b', bo') \<longleftrightarrow> io_ok b' bo' \<and> rs_parserState rData' = rs_parserState rData
     \<and> (rs_next rData' = rs_next rData \<or> brk \<and> rs_next rData' \<in> header_states \<and> length (pending b') \<le> n)
     \<and> (\<not> brk \<longrightarrow> length (pending b') \<le> n)"

lemma content_header_post:
  assumes "io_ok b bo" "0 \<notin> set format" "check \<in> header_states" "length (pending b) \<le> n"
  shows "returns (content_header format pre check (rData, b, bo)) (branch_post rData n)"
proof -
  from matchFormat_shrinks [OF assms(1,2), of pre "rs_isBufferEmpty rData"] obtain r b' bo' e where
    "matchFormat format b bo pre (rs_isBufferEmpty rData) = Some (r, b', bo', e)" "io_ok b' bo'"
    "r \<or> \<not> e \<longrightarrow> length (pending b') \<le> length (pending b)" by auto
  with assms show ?thesis by (cases r) (auto simp: content_header_def)
qed

lemma literal_nuls [simp]:
  "0 \<notin> set (str ''ENGTH:'')" "0 \<notin> set (str ''NCODING:'')" "0 \<notin> set (str ''YPE:'')"
  "0 \<notin> set (str ''NECTION:'')" "0 \<notin> set (str ''TENT-'')" "0 \<notin> set (str ''ON'')"
  "0 \<notin> set (str ''RANSFER-ENCODING:'')"
  by (simp_all add: str_def)

lemma checkHeaders_content_post:
  assumes "io_ok b bo" "length (pending b) \<le> n"
  shows "returns (checkHeaders_content (rData, b, bo)) (branch_post rData n)"
proof -
  from readAndWrite_spec [OF assms(1)] obtain b1 bo1 where
    r: "readAndWrite b bo = Some (peekl (pending b), b1, bo1)" "io_ok b1 bo1" "pending b1 = tl (pending b)" by blast
  then have l: "length (pending b1) \<le> n" using assms(2) by simp
  note P = content_header_post [OF r(2) _ _ l]
  from r l show ?thesis
    by (auto simp: checkHeaders_content_def Let_def writePrefix_eq simp del: str_Cons intro!: P)
qed

lemma checkHeaders_C_post:
  assumes "io_ok b bo"
  shows "returns (checkHeaders_C (rData, b, bo)) (branch_post rData (length (pending b)))"
proof -
  from matchFormat_shrinks [OF assms literal_nuls(6), of "str ''C''" "rs_isBufferEmpty rData"] obtain r1 b1 bo1 e1 where
    m1: "matchFormat (str ''ON'') b bo (str ''C'') (rs_isBufferEmpty rData) = Some (r1, b1, bo1, e1)" "io_ok b1 bo1"
      "r1 \<or> \<not> e1 \<longrightarrow> length (pending b1) \<le> length (pending b)"
      "r1 \<longrightarrow> length (pending b1) + length (str ''ON'') = length (pending b)"
    by blast
  from matchFormat_shrinks [OF m1(2) literal_nuls(5), of "str ''CON''" e1] obtain r2 b2 bo2 e2 where
    m2: "matchFormat (str ''TENT-'') b1 bo1 (str ''CON'') e1 = Some (r2, b2, bo2, e2)" "io_ok b2 bo2"
      "r2 \<or> \<not> e2 \<longrightarrow> length (pending b2) \<le> length (pending b1)"
      "length (pending b2) \<le> length (pending b1) + length (str ''CON'')"
    by blast
  from matchFormat_spec [OF m2(2) literal_nuls(4), of "str ''CON''" e2] obtain r3 b3 bo3 e3 where
    m3: "matchFormat (str ''NECTION:'') b2 bo2 (str ''CON'') e2 = Some (r3, b3, bo3, e3)" "io_ok b3 bo3"
      "r3 \<longrightarrow> e3 = e2 \<and> length (pending b3) + length (str ''NECTION:'') = length (pending b2)"
      "\<not> e3 \<longrightarrow> \<not> e2 \<and> length (pending b3) \<le> length (pending b2)"
    by blast
  note C = checkHeaders_content_post [OF m2(2), of "length (pending b)" "rData\<lparr>rs_isBufferEmpty := e2\<rparr>"]
  consider "\<not> r1" | "r1" "r2" | "r1" "\<not> r2" "r3" | "r1" "\<not> r2" "\<not> r3" by blast
  then show ?thesis
  proof cases
    case 1 with m1 assms show ?thesis by (auto simp: checkHeaders_C_def simp del: str_Cons)
  next
    case 2
    with m1 m2 have "length (pending b2) \<le> length (pending b)" by simp
    from C [OF this] 2 m1 m2 show ?thesis
      by (auto simp: checkHeaders_C_def returns_iff simp del: str_Cons)
  next
    case 3
    with m1 m2 m3 have "length (pending b3) \<le> length (pending b)" by simp
    with 3 m1 m2 m3 show ?thesis by (simp add: checkHeaders_C_def content_header_def del: str_Cons)
  next
    case 4
    with m1 m2 m3 have "\<not> e3 \<longrightarrow> length (pending b3) \<le> length (pending b)" by auto
    with 4 m1 m2 m3 show ?thesis by (auto simp: checkHeaders_C_def content_header_def simp del: str_Cons)
  qed
qed

lemma checkHeaders_CR_post:
  assumes "io_ok b bo"
  shows "returns (checkHeaders_CR (rData, b, bo)) (branch_post rData (length (pending b)))"
proof -
  from matchFormat_shrinks [OF assms, of "[10]" "[13]" "rs_isBufferEmpty rData"] obtain r b1 bo1 e where
    m: "matchFormat [10] b bo [13] (rs_isBufferEmpty rData) = Some (r, b1, bo1, e)" "io_ok b1 bo1"
      "r \<or> \<not> e \<longrightarrow> length (pending b1) \<le> length (pending b)" by auto
  show ?thesis
  proof (cases "r \<and> peekl (pending b1) = 13")
    case False
    with m show ?thesis by (cases r) (auto simp: checkHeaders_CR_def checkLF_def peek_eq writePrefix_eq Let_def)
  next
    case True
    then obtain ys where p: "pending b1 = 13 # ys" by (cases "pending b1") auto
    let ?b2 = "adv1 b1"
    have I: "buf_inv ?b2" "pending ?b2 = ys" using m p by (simp_all add: buf_view)
    show ?thesis
    proof (cases "peekl ys = 10")
      case ten: True
      then obtain zs where "ys = 10 # zs" by (cases ys) auto
      with I m p True show ?thesis
        by (simp add: checkHeaders_CR_def checkLF_def buf_eqs buf_view Let_def)
    next
      case False
      with I m p True show ?thesis
        by (auto simp: checkHeaders_CR_def checkLF_def buf_eqs buf_view Let_def)
    qed
  qed
qed

interpretation header_lines: c_loop_contract checkHeaders_body
  "\<lambda>(rData, b, bo). io_ok b bo \<and> rs_parserState rData = st \<and> rs_next rData = RES_HEADERS \<and> length (pending b) \<le> n"
  "\<lambda>(rData, b, bo). length (pending b)"
  "\<lambda>(rData, b, bo). io_ok b bo \<and> rs_parserState rData = st
     \<and> (rs_next rData = RES_HEADERS \<or> rs_next rData \<in> header_states \<and> length (pending b) < n)" for st n
proof (rule c_loop_contractI, goal_cases)
  case (1 s)
  obtain rData b bo where s: "s = (rData, b, bo)" by (cases s)
  with 1 have I: "io_ok b bo" and st: "rs_parserState rData = st" "rs_next rData = RES_HEADERS"
    and n: "length (pending b) \<le> n" by auto
  from readAndWrite_spec [OF I] obtain b1 bo1 where
    r: "readAndWrite b bo = Some (peekl (pending b), b1, bo1)" "io_ok b1 bo1" "pending b1 = tl (pending b)" by blast
  let ?c = "toupper (peekl (pending b))"
  show ?case
  proof (cases "?c = 0")
    case True
    with r I st show ?thesis by (simp add: s checkHeaders_body_def)
  next
    case False
    then have l: "length (pending b1) < length (pending b)" using r(3) by (cases "pending b") auto
    let ?f = "if ?c = 67 then checkHeaders_C (rData, b1, bo1)
      else if ?c = 84 then content_header (str ''RANSFER-ENCODING:'') (str ''T'') CHUNKED_CHECK (rData, b1, bo1)
      else if ?c = 13 then checkHeaders_CR (rData, b1, bo1) else Some (False, rData, b1, bo1)"
    have "returns ?f (branch_post rData (length (pending b1)))"
      using checkHeaders_C_post [OF r(2)] checkHeaders_CR_post [OF r(2)] r(2)
        content_header_post [OF r(2), of "str ''RANSFER-ENCODING:''" CHUNKED_CHECK "length (pending b1)"]
      by (auto simp del: str_Cons)
    then obtain brk rData' b' bo' where
      f: "?f = Some (brk, rData', b', bo')" "branch_post rData (length (pending b1)) (brk, rData', b', bo')"
      unfolding returns_iff by (metis prod.exhaust)
    have "checkHeaders_body s = Some (brk, rData', b', bo')"
      using r(1) False f(1) by (simp add: s checkHeaders_body_def del: str_Cons)
    with f(2) l n st show ?thesis by (auto simp: s)
  qed
qed

lemma checkHeaders_spec:
  assumes "io_ok b bo"
  shows "\<exists>r rData' b' bo'. checkHeaders (rData, b, bo) = Some (r, rData', b', bo')
    \<and> io_ok b' bo' \<and> rs_parserState rData' = rs_parserState rData
    \<and> (r \<longrightarrow> rs_next rData' \<in> header_states \<and> length (pending b') < length (pending b))
    \<and> (\<not> r \<longrightarrow> rs_next rData' = RES_HEADERS)"
  using header_lines.loop_returns [of "rs_parserState rData" "length (pending b)" "(rData\<lparr>rs_next := RES_HEADERS\<rparr>, b, bo)"] assms
  by (auto simp: checkHeaders_def)

section \<open>Bodies\<close>

interpretation rest_of_input: c_loop_contract copy_rest_body
  "\<lambda>(rData, b, bo). io_ok b bo \<and> same_stage r0 rData" "\<lambda>(rData, b, bo). length (pending b)"
  "\<lambda>(rData, b, bo). io_ok b bo \<and> same_stage r0 rData" for r0
proof (rule c_loop_contractI, goal_cases)
  case (1 s)
  obtain rData b bo where s: "s = (rData, b, bo)" by (cases s)
  with 1 show ?case
    by (cases "pending b = []") (auto simp: s copy_rest_body_def buf_eqs buf_view can_read_iff)
qed

lemma chunk_iteration:
  assumes "io_ok b bo"
  shows "returns (extractChunkedBody_body (x, rData, b, bo)) (\<lambda>(brk, r, rData', b', bo').
    io_ok b' bo' \<and> same_stage rData rData' \<and> (\<not> brk \<longrightarrow> length (pending b') < length (pending b)))"
proof -
  from getHexNumber_spec [OF assms, of "rs_bodyLength rData" "[]" "rs_isBufferEmpty rData"] obtain r1 n1 b1 bo1 e1 where
    c1: "getHexNumber (rs_bodyLength rData) b bo [] (rs_isBufferEmpty rData) = Some (r1, n1, b1, bo1, e1)"
      "io_ok b1 bo1" "r1 \<longrightarrow> length (pending b1) < length (pending b)" by blast
  from matchFormat_shrinks [OF c1(2), of "[13, 10]" "[]" e1] obtain r2 b2 bo2 e2 where
    c2: "checkCRLF b1 bo1 [] e1 = Some (r2, b2, bo2, e2)" "io_ok b2 bo2"
      "r2 \<longrightarrow> length (pending b2) \<le> length (pending b1)" by (auto simp: checkCRLF_def)
  from writeToTransfBufWithZero_spec [OF c2(2), of n1 e2] obtain r3 n3 b3 bo3 e3 where
    c3: "writeToTransfBufWithZero b2 bo2 n1 e2 = Some (r3, n3, b3, bo3, e3)" "io_ok b3 bo3"
      "length (pending b3) \<le> length (pending b2)" by blast
  from matchFormat_shrinks [OF c3(2), of "[13, 10]" "[]" e3] obtain r4 b4 bo4 e4 where
    c4: "checkCRLF b3 bo3 [] e3 = Some (r4, b4, bo4, e4)" "io_ok b4 bo4"
      "r4 \<longrightarrow> length (pending b4) \<le> length (pending b3)" by (auto simp: checkCRLF_def)
  note W = writeHex_eq writePrefix_eq
  consider "\<not> r1" | "r1" "\<not> r2" | "r1" "r2" "\<not> r3" | "r1" "r2" "r3" "\<not> r4" | "r1" "r2" "r3" "r4" by blast
  then show ?thesis
  proof cases
    case 1 with c1 show ?thesis by (simp add: extractChunkedBody_body_def)
  next
    case 2 with c1 c2 show ?thesis by (auto simp: extractChunkedBody_body_def W)
  next
    case 3 with c1 c2 c3 show ?thesis by (auto simp: extractChunkedBody_body_def W)
  next
    case 4 with c1 c2 c3 c4 show ?thesis by (simp add: extractChunkedBody_body_def W)
  next
    case 5 with c1 c2 c3 c4 show ?thesis by (simp add: extractChunkedBody_body_def)
  qed
qed

lemma chunk_iteration_transf:
  assumes "io_ok b bt"
  shows "returns (extractChunkedBodyTransf_body (x, rData, b, bt)) (\<lambda>(brk, r, rData', b', bt').
    io_ok b' bt' \<and> same_stage rData rData' \<and> (\<not> brk \<longrightarrow> length (pending b') < length (pending b)))"
proof -
  have b: "buf_inv b" using assms by simp
  from simpleGetHexNumber_spec [OF b, of "rs_bodyLength rData" "[]" "rs_isBufferEmpty rData"] obtain r1 n1 b1 e1 where
    c1: "simpleGetHexNumber (rs_bodyLength rData) b [] (rs_isBufferEmpty rData) = Some (r1, n1, b1, e1)"
      "buf_inv b1" "r1 \<longrightarrow> length (pending b1) < length (pending b)" by blast
  have crlf: "\<exists>r b' e'. simpleCheckCRLF d [] e = Some (r, b', e') \<and> buf_inv b'
      \<and> (r \<longrightarrow> length (pending b') \<le> length (pending d))" if "buf_inv d" for d e
    using simpleMatchFormat_spec [OF that, of "[13, 10]" "[]" e] by (auto simp: simpleCheckCRLF_def)
  from crlf [OF c1(2), of e1] obtain r2 b2 e2 where
    c2: "simpleCheckCRLF b1 [] e1 = Some (r2, b2, e2)" "buf_inv b2"
      "r2 \<longrightarrow> length (pending b2) \<le> length (pending b1)" by blast
  with assms have "io_ok b2 bt" by simp
  from writeToTransfBufWithZero_spec [OF this, of n1 e2] obtain r3 n3 b3 bt3 e3 where
    c3: "writeToTransfBufWithZero b2 bt n1 e2 = Some (r3, n3, b3, bt3, e3)" "io_ok b3 bt3"
      "length (pending b3) \<le> length (pending b2)" by blast
  then have "buf_inv b3" by simp
  from crlf [OF this, of e3] obtain r4 b4 e4 where
    c4: "simpleCheckCRLF b3 [] e3 = Some (r4, b4, e4)" "buf_inv b4"
      "r4 \<longrightarrow> length (pending b4) \<le> length (pending b3)" by blast
  note W = writeHex_eq writePrefix_eq
  consider "\<not> r1" | "r1" "\<not> r2" | "r1" "r2" "\<not> r3" | "r1" "r2" "r3" "\<not> r4" | "r1" "r2" "r3" "r4" by blast
  then show ?thesis
  proof cases
    case 1 with c1 assms show ?thesis by (simp add: extractChunkedBodyTransf_body_def)
  next
    case 2 with c1 c2 assms show ?thesis by (auto simp: extractChunkedBodyTransf_body_def W)
  next
    case 3 with c1 c2 c3 show ?thesis by (auto simp: extractChunkedBodyTransf_body_def W)
  next
    case 4 with c1 c2 c3 c4 show ?thesis by (simp add: extractChunkedBodyTransf_body_def W)
  next
    case 5 with c1 c2 c3 c4 show ?thesis by (simp add: extractChunkedBodyTransf_body_def)
  qed
qed

interpretation chunks: c_loop_contract extractChunkedBody_body
  "\<lambda>(x, rData, b, bo). io_ok b bo \<and> same_stage r0 rData" "\<lambda>(x, rData, b, bo). length (pending b)"
  "\<lambda>(x, rData, b, bo). io_ok b bo \<and> same_stage r0 rData" for r0
proof (rule c_loop_contractI, goal_cases)
  case (1 s)
  obtain x rData b bo where s: "s = (x, rData, b, bo)" by (cases s)
  with 1 chunk_iteration [of b bo x rData] show ?case by (auto simp: returns_iff)
qed

interpretation chunks_transf: c_loop_contract extractChunkedBodyTransf_body
  "\<lambda>(x, rData, b, bt). io_ok b bt \<and> same_stage r0 rData" "\<lambda>(x, rData, b, bt). length (pending b)"
  "\<lambda>(x, rData, b, bt). io_ok b bt \<and> same_stage r0 rData" for r0
proof (rule c_loop_contractI, goal_cases)
  case (1 s)
  obtain x rData b bt where s: "s = (x, rData, b, bt)" by (cases s)
  with 1 chunk_iteration_transf [of b bt x rData] show ?case by (auto simp: returns_iff)
qed

lemma extractBody_spec:
  assumes "io_ok b bo"
  shows "\<exists>r rData' b' bo'. extractBody (rData, b, bo) = Some (r, rData', b', bo')
    \<and> io_ok b' bo' \<and> (r \<longrightarrow> same_stage rData rData')
    \<and> (rs_parserState rData' = rs_parserState rData \<or> \<not> r \<and> rs_parserState rData' = RES_FINISHED)"
proof -
  from writeToTransfBufWithZero_spec [OF assms, of "rs_bodyLength rData" "rs_isBufferEmpty rData"] obtain r n b1 bo1 e where
    w: "writeToTransfBufWithZero b bo (rs_bodyLength rData) (rs_isBufferEmpty rData) = Some (r, n, b1, bo1, e)" "io_ok b1 bo1"
    by blast
  show ?thesis
    using chunks.loop_returns [of rData "(True, rData, b, bo)"] rest_of_input.loop_returns [of rData "(rData, b, bo)"] assms w
    by (auto simp: extractBody_def extractChunkedBody_def)
qed

lemma extractBodyTransf_spec:
  assumes "io_ok b bt"
  shows "\<exists>r rData' b' bt'. extractBodyTransf (rData, b, bt) = Some (r, rData', b', bt')
    \<and> io_ok b' bt' \<and> same_stage rData rData'"
proof -
  from writeToTransfBufWithZero_spec [OF assms, of "rs_bodyLength rData" "rs_isBufferEmpty rData"] obtain r n b1 bt1 e where
    w: "writeToTransfBufWithZero b bt (rs_bodyLength rData) (rs_isBufferEmpty rData) = Some (r, n, b1, bt1, e)" "io_ok b1 bt1"
    by blast
  show ?thesis
    using chunks_transf.loop_returns [of rData "(True, rData, b, bt)"] rest_of_input.loop_returns [of rData "(rData, b, bt)"] assms w
    by (auto simp: extractBodyTransf_def extractChunkedBodyTransf_def)
qed

section \<open>The state machine\<close>

fun rs_inv :: "rs_loop \<Rightarrow> bool" where
  "rs_inv (success, active, rData, bIn, bOut, bTransf) \<longleftrightarrow>
     buf_inv bIn \<and> buf_inv bOut \<and> buf_inv bTransf
     \<and> (rs_parserState rData = RES_SPACE_TRANSITION \<longrightarrow> rs_next rData \<in> insert STATUS (header_states - {RES_FINISHED}))
     \<and> (\<not> active \<longrightarrow> success \<and> rs_parserState rData = RES_FINISHED)"

text \<open>
  The phases only go up; within the header phase every round through \<open>RES_HEADERS\<close> uses input up.
\<close>

definition rs_phase :: "ResponseData \<Rightarrow> nat" where
  "rs_phase rData =
     (case rs_parserState rData of
        RES_VERSION \<Rightarrow> 1
      | RES_SPACE_TRANSITION \<Rightarrow> (if rs_next rData = STATUS then 2 else 4)
      | STATUS \<Rightarrow> 3
      | BODY_NORMAL \<Rightarrow> 5 | BODY_TRANSFORMATION \<Rightarrow> 5 | RES_FINISHED \<Rightarrow> 6
      | _ \<Rightarrow> 4)"

definition rs_round :: "ResponseData \<Rightarrow> nat" where
  "rs_round rData = (case rs_parserState rData of RES_HEADERS \<Rightarrow> 0 | RES_SPACE_TRANSITION \<Rightarrow> 2 | _ \<Rightarrow> 1)"

definition rs_order :: "(rs_loop \<times> rs_loop) set" where
  "rs_order = measures
    [\<lambda>(success, active, rData, _). if success \<and> active then 7 - rs_phase rData else 0,
     \<lambda>(_, _, _, bIn, _). length (pending bIn),
     \<lambda>(_, _, rData, _). rs_round rData]"

lemma wf_rs_order: "wf rs_order"
  by (simp add: rs_order_def)

definition rs_progress :: "rs_loop \<Rightarrow> rs_loop \<Rightarrow> bool" where
  "rs_progress s t \<longleftrightarrow> rs_inv t \<and> (t, s) \<in> rs_order"

lemmas rs_step_defs = rs_switch_def rs_progress_def rs_order_def rs_phase_def rs_round_def

lemma rs_switch_line:
  assumes "rs_inv (True, True, rData, b, bo, bt)"
    and "rs_parserState rData \<in> {RES_SPACE_TRANSITION, RES_VERSION, STATUS}"
  shows "returns (rs_switch (rData, b, bo, bt)) (rs_progress (True, True, rData, b, bo, bt))"
proof -
  have I: "io_ok b bo" using assms by simp
  from assms(2) consider "rs_parserState rData = RES_SPACE_TRANSITION" | "rs_parserState rData = RES_VERSION"
    | "rs_parserState rData = STATUS" by blast
  then show ?thesis
  proof cases
    case 1
    from rs_checkSpaces_spec [OF I, of rData] obtain r d b' bo' where
      "rs_checkSpaces (rData, b, bo) = Some (r, d, b', bo')" "io_ok b' bo'" "same_stage rData d"
      "r \<longrightarrow> length (pending b') \<le> length (pending b)" by blast
    with 1 assms show ?thesis by (cases r) (auto simp: rs_step_defs header_states_def)
  next
    case 2 with assms rs_extractHttpVersion_spec [OF I, of rData] show ?thesis
      by (auto simp: rs_step_defs)
  next
    case 3 with assms extractStatus_spec [OF I, of rData] show ?thesis
      by (auto simp: rs_step_defs)
  qed
qed

lemma rs_switch_headers:
  assumes "rs_inv (True, True, rData, b, bo, bt)" and "rs_parserState rData = RES_HEADERS"
  shows "returns (rs_switch (rData, b, bo, bt)) (rs_progress (True, True, rData, b, bo, bt))"
proof -
  from checkHeaders_spec [of b bo rData] assms obtain r d b' bo' where
    c: "checkHeaders (rData, b, bo) = Some (r, d, b', bo')" "io_ok b' bo'" "rs_parserState d = rs_parserState rData"
      "r \<longrightarrow> rs_next d \<in> header_states \<and> length (pending b') < length (pending b)" by auto
  show ?thesis
  proof (cases r)
    case True
    then have "rs_next d \<noteq> STATUS" using c(4) by (auto simp: header_states_def)
    with True assms c show ?thesis
      by (cases "rs_next d = RES_FINISHED"; cases "rs_withTransf d") (simp_all add: rs_step_defs)
  next
    case False
    with assms c show ?thesis by (simp add: rs_step_defs)
  qed
qed

lemma rs_switch_check:
  assumes "rs_inv (True, True, rData, b, bo, bt)"
    and "rs_parserState rData \<in> {LENGTH_CHECK, ENCODING_CHECK, CHUNKED_CHECK, CONNECTION_CHECK, TYPE_CHECK}"
  shows "returns (rs_switch (rData, b, bo, bt)) (rs_progress (True, True, rData, b, bo, bt))"
proof -
  define f where "f = (case rs_parserState rData of LENGTH_CHECK \<Rightarrow> checkLength | ENCODING_CHECK \<Rightarrow> checkEncoding
    | CHUNKED_CHECK \<Rightarrow> checkChunked | CONNECTION_CHECK \<Rightarrow> checkConnection | _ \<Rightarrow> checkType)"
  have I: "io_ok b bo" using assms by simp
  have "\<exists>r d b' bo'. f (rData, b, bo) = Some (r, d, b', bo') \<and> io_ok b' bo' \<and> same_stage rData d \<and> shrinks r d b b'"
    using assms(2) checkLength_spec [OF I, of rData] checkEncoding_spec [OF I, of rData] checkChunked_spec [OF I, of rData]
      checkConnection_spec [OF I, of rData] checkType_spec [OF I, of rData]
    unfolding f_def by (elim insertE emptyE) (simp_all only: responseParserState.case)
  then obtain r d b' bo' where
    c: "f (rData, b, bo) = Some (r, d, b', bo')" "io_ok b' bo'" "same_stage rData d" "shrinks r d b b'" by blast
  show ?thesis
  proof (cases "\<not> r \<and> rs_isBufferEmpty d")
    case True
    with assms c show ?thesis by (elim insertE emptyE) (simp_all add: f_def rs_step_defs)
  next
    case False
    then have "length (pending b') \<le> length (pending b)" using c(4) by blast
    with False assms c show ?thesis by (elim insertE emptyE) (auto simp: f_def rs_step_defs)
  qed
qed

lemma rs_switch_body:
  assumes "rs_inv (True, True, rData, b, bo, bt)"
    and "rs_parserState rData \<in> {BODY_NORMAL, BODY_TRANSFORMATION, RES_FINISHED}"
  shows "returns (rs_switch (rData, b, bo, bt)) (rs_progress (True, True, rData, b, bo, bt))"
proof -
  have I: "io_ok b bo" "io_ok b bt" using assms by simp_all
  from assms(2) consider "rs_parserState rData = BODY_NORMAL" | "rs_parserState rData = BODY_TRANSFORMATION"
    | "rs_parserState rData = RES_FINISHED" by blast
  then show ?thesis
  proof cases
    case 1
    from extractBody_spec [OF I(1), of rData] obtain r d b' bo' where
      "extractBody (rData, b, bo) = Some (r, d, b', bo')" "io_ok b' bo'"
      "rs_parserState d = rs_parserState rData \<or> \<not> r \<and> rs_parserState d = RES_FINISHED" by blast
    with 1 assms show ?thesis by (cases r) (auto simp: rs_step_defs)
  next
    case 2 with assms extractBodyTransf_spec [OF I(2), of rData] show ?thesis by (auto simp: rs_step_defs)
  next
    case 3 with assms show ?thesis by (simp add: rs_step_defs)
  qed
qed

lemma rs_iteration:
  assumes "rs_inv s"
  shows "\<exists>b t. checkResponseInner_body s = Some (b, t) \<and> (b \<longrightarrow> rs_inv t \<and> \<not> (fst t \<and> fst (snd t)))
    \<and> (\<not> b \<longrightarrow> rs_inv t \<and> ((t, s) \<in> rs_order \<or> t = s \<and> False))"
proof -
  obtain succ act rData b bo bt where s: "s = (succ, act, rData, b, bo, bt)" by (cases s)
  show ?thesis
  proof (cases "succ \<and> act")
    case True
    have I: "rs_inv (True, True, rData, b, bo, bt)" using assms s True by simp
    have "rs_parserState rData \<in> {RES_SPACE_TRANSITION, RES_VERSION, STATUS} \<union> {RES_HEADERS}
        \<union> {LENGTH_CHECK, ENCODING_CHECK, CHUNKED_CHECK, CONNECTION_CHECK, TYPE_CHECK}
        \<union> {BODY_NORMAL, BODY_TRANSFORMATION, RES_FINISHED}"
      by (cases "rs_parserState rData") simp_all
    then have "returns (rs_switch (rData, b, bo, bt)) (rs_progress (True, True, rData, b, bo, bt))"
      using rs_switch_line [OF I] rs_switch_headers [OF I] rs_switch_check [OF I] rs_switch_body [OF I] by blast
    with True s show ?thesis by (auto simp: checkResponseInner_body_def returns_iff rs_progress_def)
  next
    case False
    with s assms show ?thesis by (auto simp: checkResponseInner_body_def)
  qed
qed

lemma rs_loop_returns:
  assumes "rs_inv s"
  shows "\<exists>t. c_loop checkResponseInner_body s = Some t \<and> rs_inv t \<and> \<not> (fst t \<and> fst (snd t))"
  using c_loop_or_stuck [where I = rs_inv, OF wf_rs_order assms,
      of checkResponseInner_body "\<lambda>t. rs_inv t \<and> \<not> (fst t \<and> fst (snd t))" "\<lambda>_. False"] rs_iteration
  by blast

end
