(* ===== verification/ResponseProperties.thy ===== *)
theory ResponseProperties
  imports ResponseFacts RequestProperties
begin

text \<open>
  What the response parser does with bodies and with the end of the headers.
\<close>

section \<open>One call of the parser\<close>

definition rs_wf :: "ResponseData \<Rightarrow> buffer \<Rightarrow> buffer \<Rightarrow> buffer \<Rightarrow> bool" where
  "rs_wf rData bIn bOut bTransf \<longleftrightarrow> buf_inv bIn \<and> buf_inv bOut \<and> buf_inv bTransf
     \<and> (rs_parserState rData = RES_SPACE_TRANSITION \<longrightarrow> rs_next rData \<in> insert STATUS (header_states - {RES_FINISHED}))"

lemma rs_step:
  "rs_switch st = Some t \<Longrightarrow>
     c_loop checkResponseInner_body (True, True, st) = c_loop checkResponseInner_body t"
  by (rule c_loop_continue) (simp add: checkResponseInner_body_def)

lemma rs_stop: "\<not> (success \<and> active) \<Longrightarrow>
    c_loop checkResponseInner_body (success, active, st) = Some (success, active, st)"
  by (rule c_loop_break) (auto simp: checkResponseInner_body_def)

lemma checkResponse_finish:
  assumes "rs_switch (rData\<lparr>rs_isBufferEmpty := False\<rparr>, bIn, bOut, bTransf) = Some (True, True, d, b, bo, bt)"
    and "rs_parserState d = RES_FINISHED"
  shows "checkResponse rData bIn bOut bTransf = Some (True, d, b, bo, bt)"
proof -
  have "rs_switch (d, b, bo, bt) = Some (True, False, d, b, bo, bt)"
    using assms(2) by (simp add: rs_switch_def)
  with rs_step [OF assms(1)] rs_step [of "(d, b, bo, bt)"] show ?thesis
    by (simp add: checkResponse_def checkResponseInner_def rs_stop)
qed

lemma checkResponse_fail:
  assumes "rs_switch (rData\<lparr>rs_isBufferEmpty := False\<rparr>, bIn, bOut, bTransf) = Some (False, True, d, b, bo, bt)"
  shows "checkResponse rData bIn bOut bTransf =
    Some (False, if rs_isBufferEmpty d then d else d\<lparr>rs_state := rs_error d\<rparr>, b, bo, bt)"
  using rs_step [OF assms] by (simp add: checkResponse_def checkResponseInner_def rs_stop)

lemma checkResponse_result:
  assumes "rs_wf rData bIn bOut bTransf"
  shows "\<exists>ok d bIn' bOut' bTransf'. checkResponse rData bIn bOut bTransf = Some (ok, d, bIn', bOut', bTransf')
    \<and> rs_wf d bIn' bOut' bTransf' \<and> (ok \<longrightarrow> rs_parserState d = RES_FINISHED)"
proof -
  let ?s = "(True, True, rData\<lparr>rs_isBufferEmpty := False\<rparr>, bIn, bOut, bTransf)"
  have "rs_inv ?s" using assms by (simp add: rs_wf_def)
  from rs_loop_returns [OF this] obtain t where
    t: "c_loop checkResponseInner_body ?s = Some t" "rs_inv t" "\<not> (fst t \<and> fst (snd t))" by blast
  obtain succ act d b bo bt where "t = (succ, act, d, b, bo, bt)" by (cases t)
  with t show ?thesis
    by (cases succ) (auto simp: checkResponse_def checkResponseInner_def rs_wf_def Let_def)
qed

section \<open>Copied blocks\<close>

lemma copiesz_block:
  assumes "resv b = 0" "pending b = xs @ ys"
  shows "copiesz (length xs) b bo = pushes bo xs"
  using assms by (simp add: copiesz_def)

text \<open>A chunk as its hexadecimal length and its data; the last one has length 0.\<close>

type_synonym chunk = "byte list \<times> byte list"

definition chunk_ok :: "chunk \<Rightarrow> bool" where
  "chunk_ok ch \<longleftrightarrow> (case ch of (hs, d) \<Rightarrow>
     hs \<noteq> [] \<and> list_all isxdigit hs \<and> hex_val 0 hs = int (length d))"

definition chunk_text :: "chunk \<Rightarrow> byte list" where
  "chunk_text ch = (case ch of (hs, d) \<Rightarrow> hs @ [13, 10] @ d @ [13, 10])"

lemma not_isxdigit_13 [simp]: "\<not> isxdigit 13"
  by (simp add: isxdigit_def isdigit_def)

lemma span_hex: "list_all isxdigit hs \<Longrightarrow> span_len isxdigit (hs @ 13 # ys) = length hs"
  by (simp add: span_len_append)

lemma match_crlf [simp]: "match_len [13, 10] (13 # 10 # ys) = 2"
  by (simp add: eval_nat_numeral)

lemma chunk_transf_step:
  assumes "buf_inv b" "buf_inv bt" "resv b = 0" "pending b = chunk_text (hs, d) @ ys" "chunk_ok (hs, d)"
    "\<not> rs_isBufferEmpty rData"
  shows "extractChunkedBodyTransf_body (x, rData, b, bt) =
    Some (d = [], True, rData\<lparr>rs_bodyLength := 0, rs_isBufferEmpty := False\<rparr>,
      advs (length (chunk_text (hs, d))) b, pushes bt d)"
proof -
  let ?h = "length hs" and ?n = "length d"
  have hs: "hs \<noteq> []" "list_all isxdigit hs" "hex_val 0 hs = int ?n" using assms(5) by (simp_all add: chunk_ok_def)
  have p: "pending b = hs @ 13 # 10 # d @ 13 # 10 # ys" using assms(4) by (simp add: chunk_text_def)
  have sp: "span_len isxdigit (pending b) = ?h" using span_hex [OF hs(2)] by (simp add: p)
  have c1: "simpleGetHexNumber (rs_bodyLength rData) b [] False = Some (True, int ?n, advs ?h b, False)"
    using assms(1) hs sp by (simp add: simpleGetHexNumber_eq Let_def starved_def p)
  let ?b1 = "advs ?h b" and ?b2 = "advs (?h + 2) b"
  have I1: "buf_inv ?b1" "pending ?b1 = 13 # 10 # d @ 13 # 10 # ys" using assms(1) p by (simp_all add: buf_view)
  have c2: "simpleCheckCRLF ?b1 [] False = Some (True, ?b2, False)"
    using I1 by (simp add: simpleCheckCRLF_def simpleMatchFormat_eq advs_advs)
  have I2: "buf_inv ?b2" "pending ?b2 = d @ 13 # 10 # ys" "resv ?b2 = 0"
    using assms(1,3) p by (simp_all add: buf_view)
  let ?b3 = "advs (?h + 2 + ?n) b"
  have c3: "writeToTransfBufWithZero ?b2 bt (int ?n) False = Some (True, 0, ?b3, pushes bt d, False)"
    using I2 assms(2) copiesz_block [OF I2(3,2), of bt] by (simp add: writeToTransfBufWithZero_eq advs_advs)
  have I3: "buf_inv ?b3" "pending ?b3 = 13 # 10 # ys" using assms(1) p by (simp_all add: buf_view)
  have c4: "simpleCheckCRLF ?b3 [] False = Some (True, advs (?h + 2 + ?n + 2) b, False)"
    using I3 by (simp add: simpleCheckCRLF_def simpleMatchFormat_eq advs_advs)
  have "length (chunk_text (hs, d)) = ?h + 2 + ?n + 2" by (simp add: chunk_text_def)
  with c1 c2 c3 c4 assms(6) show ?thesis by (simp add: extractChunkedBodyTransf_body_def)
qed

lemma chunks_transf_run:
  assumes "buf_inv b" "buf_inv bt" "resv b = 0" "pending b = concat (map chunk_text chs) @ chunk_text (zs, []) @ ys"
    "\<forall>ch \<in> set chs. chunk_ok ch \<and> snd ch \<noteq> []" "chunk_ok (zs, [])" "\<not> rs_isBufferEmpty rData"
  shows "\<exists>b'. c_loop extractChunkedBodyTransf_body (x, rData, b, bt) =
      Some (True, rData\<lparr>rs_bodyLength := 0, rs_isBufferEmpty := False\<rparr>, b', pushes bt (concat (map snd chs)))
    \<and> buf_inv b' \<and> pending b' = ys"
  using assms
proof (induction chs arbitrary: x rData b bt)
  case Nil
  then have "extractChunkedBodyTransf_body (x, rData, b, bt) =
    Some (True, True, rData\<lparr>rs_bodyLength := 0, rs_isBufferEmpty := False\<rparr>, advs (length (chunk_text (zs, []))) b, bt)"
    using chunk_transf_step [of b bt zs "[]" ys rData x] by simp
  with Nil show ?case by (simp add: c_loop_break buf_view)
next
  case (Cons ch chs)
  obtain hs d where ch: "ch = (hs, d)" "d \<noteq> []" "chunk_ok (hs, d)" using Cons.prems(5) by (cases ch) auto
  let ?d = "rData\<lparr>rs_bodyLength := 0, rs_isBufferEmpty := False\<rparr>"
  let ?b = "advs (length (chunk_text (hs, d))) b"
  have p: "pending b = chunk_text (hs, d) @ concat (map chunk_text chs) @ chunk_text (zs, []) @ ys"
    using Cons.prems(4) by (simp add: ch)
  have step: "extractChunkedBodyTransf_body (x, rData, b, bt) = Some (False, True, ?d, ?b, pushes bt d)"
    using chunk_transf_step [OF Cons.prems(1-3) p ch(3) Cons.prems(7)] ch(2) by simp
  have "buf_inv ?b" "resv ?b = 0" "pending ?b = concat (map chunk_text chs) @ chunk_text (zs, []) @ ys"
    using Cons.prems(1,3) p by (simp_all add: buf_view)
  then obtain b' where "c_loop extractChunkedBodyTransf_body (True, ?d, ?b, pushes bt d) =
      Some (True, ?d\<lparr>rs_bodyLength := 0, rs_isBufferEmpty := False\<rparr>, b', pushes (pushes bt d) (concat (map snd chs)))"
    "buf_inv b'" "pending b' = ys"
    using Cons.IH [of ?b "pushes bt d" ?d True] Cons.prems by auto
  with step ch(1) show ?case by (simp add: c_loop_continue pushes_append)
qed

text \<open>The copying variant forwards the framing too.\<close>

lemma copies_block:
  assumes "resv b = 0" "pending b = xs @ ys" "0 \<notin> set xs" "n = length xs"
  shows "copies n b bo = pushes bo xs"
  using copied_prefix [OF assms(1-3)] assms(4) by (simp add: copies_def)

lemma hex_nul_free: "list_all isxdigit hs \<Longrightarrow> 0 \<notin> set hs"
  by (auto simp: list_all_iff dest: isxdigit_nonzero)

lemma chunk_copy_step:
  assumes "buf_inv b" "buf_inv bo" "resv b = 0" "pending b = chunk_text (hs, d) @ ys" "chunk_ok (hs, d)"
    "\<not> rs_isBufferEmpty rData"
  shows "extractChunkedBody_body (x, rData, b, bo) =
    Some (d = [], True, rData\<lparr>rs_bodyLength := 0, rs_isBufferEmpty := False\<rparr>,
      advs (length (chunk_text (hs, d))) b, pushes bo (chunk_text (hs, d)))"
proof -
  let ?h = "length hs" and ?n = "length d"
  have hs: "hs \<noteq> []" "list_all isxdigit hs" "hex_val 0 hs = int ?n" using assms(5) by (simp_all add: chunk_ok_def)
  have p: "pending b = hs @ 13 # 10 # d @ 13 # 10 # ys" using assms(4) by (simp add: chunk_text_def)
  have sp: "span_len isxdigit (pending b) = ?h" using span_hex [OF hs(2)] by (simp add: p)
  let ?o1 = "pushes bo hs"
  have "copies ?h b bo = ?o1" using copies_block [OF assms(3) p hex_nul_free [OF hs(2)] refl] .
  then have c1: "getHexNumber (rs_bodyLength rData) b bo [] False = Some (True, int ?n, advs ?h b, ?o1, False)"
    using assms(1,2) hs sp by (simp add: getHexNumber_eq Let_def starved_def p)
  let ?b1 = "advs ?h b" and ?b2 = "advs (?h + 2) b"
  have I1: "buf_inv ?b1" "pending ?b1 = [13, 10] @ d @ 13 # 10 # ys" "resv ?b1 = 0" "buf_inv ?o1"
    using assms(1-3) p by (simp_all add: buf_view)
  let ?o2 = "pushes ?o1 [13, 10]"
  have "copies 2 ?b1 ?o1 = ?o2" by (rule copies_block [OF I1(3,2)]) simp_all
  then have c2: "checkCRLF ?b1 ?o1 [] False = Some (True, ?b2, ?o2, False)"
    using I1 by (simp add: checkCRLF_def matchFormat_eq advs_advs flip: numeral_2_eq_2)
  have I2: "buf_inv ?b2" "pending ?b2 = d @ 13 # 10 # ys" "resv ?b2 = 0" "buf_inv ?o2"
    using assms(1-3) p by (simp_all add: buf_view)
  let ?b3 = "advs (?h + 2 + ?n) b" and ?o3 = "pushes ?o2 d"
  have c3: "writeToTransfBufWithZero ?b2 ?o2 (int ?n) False = Some (True, 0, ?b3, ?o3, False)"
    using I2 copiesz_block [OF I2(3,2), of ?o2] by (simp add: writeToTransfBufWithZero_eq advs_advs)
  have I3: "buf_inv ?b3" "pending ?b3 = [13, 10] @ ys" "resv ?b3 = 0" "buf_inv ?o3"
    using assms(1-3) p by (simp_all add: buf_view)
  have "copies 2 ?b3 ?o3 = pushes ?o3 [13, 10]" by (rule copies_block [OF I3(3,2)]) simp_all
  then have c4: "checkCRLF ?b3 ?o3 [] False = Some (True, advs (?h + 2 + ?n + 2) b, pushes ?o3 [13, 10], False)"
    using I3 by (simp add: checkCRLF_def matchFormat_eq advs_advs flip: numeral_2_eq_2)
  have l: "length (chunk_text (hs, d)) = ?h + 2 + ?n + 2" by (simp add: chunk_text_def)
  have o: "pushes ?o3 [13, 10] = pushes bo (chunk_text (hs, d))"
    by (simp only: chunk_text_def prod.case pushes_append)
  show ?thesis unfolding l o [symmetric]
    using c1 c2 c3 c4 assms(6) by (simp add: extractChunkedBody_body_def)
qed

lemma chunks_copy_run:
  assumes "buf_inv b" "buf_inv bo" "resv b = 0" "pending b = concat (map chunk_text chs) @ chunk_text (zs, []) @ ys"
    "\<forall>ch \<in> set chs. chunk_ok ch \<and> snd ch \<noteq> []" "chunk_ok (zs, [])" "\<not> rs_isBufferEmpty rData"
  shows "\<exists>b'. c_loop extractChunkedBody_body (x, rData, b, bo) =
      Some (True, rData\<lparr>rs_bodyLength := 0, rs_isBufferEmpty := False\<rparr>, b',
        pushes bo (concat (map chunk_text chs) @ chunk_text (zs, [])))
    \<and> buf_inv b' \<and> pending b' = ys"
  using assms
proof (induction chs arbitrary: x rData b bo)
  case Nil
  then have "extractChunkedBody_body (x, rData, b, bo) =
    Some (True, True, rData\<lparr>rs_bodyLength := 0, rs_isBufferEmpty := False\<rparr>, advs (length (chunk_text (zs, []))) b,
      pushes bo (chunk_text (zs, [])))"
    using chunk_copy_step [of b bo zs "[]" ys rData x] by simp
  with Nil show ?case by (simp add: c_loop_break buf_view)
next
  case (Cons ch chs)
  obtain hs d where ch: "ch = (hs, d)" "d \<noteq> []" "chunk_ok (hs, d)" using Cons.prems(5) by (cases ch) auto
  let ?d = "rData\<lparr>rs_bodyLength := 0, rs_isBufferEmpty := False\<rparr>"
  let ?b = "advs (length (chunk_text (hs, d))) b" and ?o = "pushes bo (chunk_text (hs, d))"
  have p: "pending b = chunk_text (hs, d) @ concat (map chunk_text chs) @ chunk_text (zs, []) @ ys"
    using Cons.prems(4) by (simp add: ch)
  have step: "extractChunkedBody_body (x, rData, b, bo) = Some (False, True, ?d, ?b, ?o)"
    using chunk_copy_step [OF Cons.prems(1-3) p ch(3) Cons.prems(7)] ch(2) by simp
  have "buf_inv ?b" "resv ?b = 0" "pending ?b = concat (map chunk_text chs) @ chunk_text (zs, []) @ ys"
    using Cons.prems(1,3) p by (simp_all add: buf_view)
  then obtain b' where "c_loop extractChunkedBody_body (True, ?d, ?b, ?o) =
      Some (True, ?d\<lparr>rs_bodyLength := 0, rs_isBufferEmpty := False\<rparr>, b',
        pushes ?o (concat (map chunk_text chs) @ chunk_text (zs, [])))"
    "buf_inv b'" "pending b' = ys"
    using Cons.IH [of ?b ?o ?d True] Cons.prems by auto
  with step ch(1) show ?case by (simp add: c_loop_continue pushes_append)
qed

section \<open>Header lines the parser passes through\<close>

definition plain_header :: "byte list \<Rightarrow> bool" where
  "plain_header xs \<longleftrightarrow> (\<forall>x \<in> set xs. toupper x \<notin> {0, 67, 84, 13})"

lemma plain_header_simps [simp]:
  "plain_header []" "plain_header (x # xs) \<longleftrightarrow> toupper x \<notin> {0, 67, 84, 13} \<and> plain_header xs"
  by (auto simp: plain_header_def)

lemma plain_nul_free: "plain_header xs \<Longrightarrow> 0 \<notin> set xs"
  by (auto simp: plain_header_def)

lemma plain_header_run:
  assumes "buf_inv b" "buf_inv bo" "pending b = xs @ ys" "plain_header xs"
  shows "c_loop checkHeaders_body (rData, b, bo) =
    c_loop checkHeaders_body (rData, advs (length xs) b, copies (length xs) b bo)"
  using assms
proof (induction xs arbitrary: b bo)
  case (Cons x xs)
  have "checkHeaders_body (rData, b, bo) = Some (False, rData, adv1 b, copy1 b bo)"
    using Cons.prems by (simp add: checkHeaders_body_def buf_eqs)
  moreover have "buf_inv (adv1 b)" "buf_inv (copy1 b bo)" "pending (adv1 b) = xs @ ys"
    using Cons.prems by (simp_all add: buf_view)
  ultimately show ?case
    using Cons.IH [of "adv1 b" "copy1 b bo"] Cons.prems by (simp add: c_loop_continue advs_Suc copies_Suc)
qed simp

lemma headers_end_step:
  assumes "buf_inv b" "buf_inv bo" "resv b = 0" "pending b = [13, 10, 13, 10] @ ys" "\<not> rs_isBufferEmpty rData"
  shows "checkHeaders_body (rData, b, bo) =
    Some (True, rData\<lparr>rs_next := RES_FINISHED\<rparr>, advs 4 b, pushes bo ([13, 10] @ header_end rData))"
proof -
  let ?b1 = "adv1 b" and ?o1 = "copy1 b bo" and ?b2 = "advs 2 b"
  have p: "pending b = 13 # 10 # 13 # 10 # ys" using assms(4) by simp
  have I1: "buf_inv ?b1" "buf_inv ?o1" "pending ?b1 = 10 # 13 # 10 # ys" "resv ?b1 = 0" "?o1 = push bo 13"
    using assms(1-3) p by (simp_all add: buf_view copy1_def)
  have rw: "readAndWrite b bo = Some (13, ?b1, ?o1)" using assms p by (simp add: buf_eqs)
  have "advs 1 ?b1 = ?b2" using advs_Suc [of 1 b] by (simp add: eval_nat_numeral)
  moreover have "copies 1 ?b1 ?o1 = pushes bo [13, 10]"
    using copies_block [OF I1(4), of "[10]" "13 # 10 # ys" 1] I1(3,5) by (simp add: pushes_Cons)
  ultimately have lf: "matchFormat [10] ?b1 ?o1 [13] False = Some (True, ?b2, pushes bo [13, 10], False)"
    using I1 by (simp add: matchFormat_eq)
  have I2: "buf_inv ?b2" "pending ?b2 = 13 # 10 # ys" using assms(1) p by (simp_all add: buf_view)
  have r2: "buffer_read ?b2 = Some (13, adv1 ?b2)" "pending (adv1 ?b2) = 10 # ys" "buf_inv (adv1 ?b2)"
    using I2 by (simp_all add: buf_eqs buf_view)
  have r3: "buffer_read (adv1 ?b2) = Some (10, advs 4 b)"
    using r2 advs_Suc [of 1 ?b2] advs_advs [of 2 2 b] by (simp add: buf_eqs eval_nat_numeral advs_Suc)
  have w: "writeToBuf xs (pushes bo [13, 10]) = Some (pushes bo ([13, 10] @ xs))" for xs
    using assms(2) by (simp add: writeToBuf_eq pushes_append pushes_Cons)
  have h: "header_end (rData\<lparr>rs_isBufferEmpty := x\<rparr>) = header_end rData" for x by (simp add: header_end_def)
  have "toupper (13 :: byte) = 13" by (simp add: toupper_def)
  then show ?thesis
    using rw lf I2 r2 r3 w h assms(5) by (simp add: checkHeaders_body_def checkHeaders_CR_def checkLF_def peek_eq Let_def)
qed

lemma connection_value_run:
  assumes "buf_inv b" "pending b = v @ 13 # ys" "0 \<notin> set v" "13 \<notin> set v"
  shows "c_loop checkConnection_body (c, b) = Some (13, advs (length v) b)"
  using assms
proof (induction v arbitrary: b c)
  case Nil
  then show ?case by (simp add: c_loop_break checkConnection_body_def buf_eqs)
next
  case (Cons x v)
  have "checkConnection_body (c, b) = Some (False, x, adv1 b)"
    using Cons.prems by (simp add: checkConnection_body_def buf_eqs)
  moreover have "buf_inv (adv1 b)" "pending (adv1 b) = v @ 13 # ys" using Cons.prems by (simp_all add: buf_view)
  ultimately show ?case using Cons by (simp add: c_loop_continue advs_Suc)
qed

section \<open>Properties\<close>

definition no_response :: ResponseData where
  "no_response = defaultResponseStruct \<lparr>rs_parserState = RES_VERSION, rs_next = RES_VERSION,
     rs_isBufferEmpty = False, rs_state = RES_OK, rs_version = UNDEFINED, rs_status = 0, rs_isClose = False,
     rs_bodyLength = - 1, rs_cEncoding = IDENTITY, rs_isChunked = False, rs_withTransf = False\<rparr>"

text \<open>C6
  The response parser always returns: from every well-formed state, whatever the bytes in the input
  and however little space there is, \<open>checkResponse\<close> ends with well-formed buffers and a state it
  can be called in again, fails no assertion and stays in its buffers; when it answers true the
  parser has finished.\<close>

theorem checkResponse_returns:
  assumes "rs_wf rData bIn bOut bTransf"
  shows "\<exists>ok d bIn' bOut' bTransf'. checkResponse rData bIn bOut bTransf = Some (ok, d, bIn', bOut', bTransf')
    \<and> rs_wf d bIn' bOut' bTransf' \<and> (ok \<longrightarrow> rs_parserState d = RES_FINISHED)"
  using checkResponse_result [OF assms] .

theorem checkResponse_returns_witness:
  "\<exists>ok d bIn' bOut' bTransf'. checkResponse no_response (holding (str ''HTTP/1.1 2'')) (holding []) (holding []) =
      Some (ok, d, bIn', bOut', bTransf')
    \<and> rs_wf d bIn' bOut' bTransf' \<and> (ok \<longrightarrow> rs_parserState d = RES_FINISHED)"
  by (rule checkResponse_returns) (simp add: rs_wf_def no_response_def defaultResponseStruct_def)

lemma checkResponse_dechunks_run:
  assumes "buf_inv bIn" "buf_inv bTransf" "resv bIn = 0"
    "pending bIn = concat (map chunk_text chs) @ chunk_text (zs, []) @ ys"
    "\<forall>ch \<in> set chs. chunk_ok ch \<and> snd ch \<noteq> []" "chunk_ok (zs, [])"
    "rs_parserState rData = BODY_TRANSFORMATION" "rs_isChunked rData"
  shows "\<exists>d bIn' bTransf'. checkResponse rData bIn bOut bTransf = Some (True, d, bIn', bOut, bTransf')
    \<and> rs_parserState d = RES_FINISHED \<and> rs_state d = rs_state rData \<and> pending bIn' = ys
    \<and> pending bTransf' = pending bTransf @ take (room bTransf) (concat (map snd chs))"
proof -
  let ?d = "rData\<lparr>rs_isBufferEmpty := False\<rparr>"
  let ?d' = "?d\<lparr>rs_bodyLength := 0, rs_isBufferEmpty := False\<rparr>"
  obtain b' where run: "c_loop extractChunkedBodyTransf_body (True, ?d, bIn, bTransf) =
      Some (True, ?d', b', pushes bTransf (concat (map snd chs)))" "pending b' = ys"
    using chunks_transf_run [OF assms(1-6), of ?d True] by auto
  then have "rs_switch (?d, bIn, bOut, bTransf) =
      Some (True, True, ?d'\<lparr>rs_parserState := RES_FINISHED\<rparr>, b', bOut, pushes bTransf (concat (map snd chs)))"
    using assms(7,8) by (simp add: rs_switch_def extractBodyTransf_def extractChunkedBodyTransf_def)
  from checkResponse_finish [OF this] run(2) assms(2) show ?thesis by (simp add: buf_view)
qed

text \<open>C19
  With a transformation, a chunked body is decoded: for any sequence of chunks, with any spelling
  of their lengths, and the last chunk, the parser finishes, has written exactly the chunks' data
  to the transformation's buffer, as far as that has room, and leaves what follows the body.\<close>

theorem checkResponse_dechunks:
  assumes "buf_inv bIn" "buf_inv bTransf" "resv bIn = 0"
    "pending bIn = concat (map chunk_text chs) @ chunk_text (zs, []) @ ys"
    "\<forall>ch \<in> set chs. chunk_ok ch \<and> snd ch \<noteq> []" "chunk_ok (zs, [])"
    "rs_parserState rData = BODY_TRANSFORMATION" "rs_isChunked rData"
  shows "\<exists>d bIn' bTransf'. checkResponse rData bIn bOut bTransf = Some (True, d, bIn', bOut, bTransf')
    \<and> rs_parserState d = RES_FINISHED \<and> rs_state d = rs_state rData \<and> pending bIn' = ys
    \<and> pending bTransf' = pending bTransf @ take (room bTransf) (concat (map snd chs))"
  using assms by (rule checkResponse_dechunks_run)

theorem checkResponse_dechunks_witness:
  "\<exists>d bIn' bTransf'. checkResponse (no_response\<lparr>rs_parserState := BODY_TRANSFORMATION, rs_isChunked := True\<rparr>)
      (holding (str ''3'' @ [13, 10] @ str ''abc'' @ [13, 10] @ str ''0'' @ [13, 10, 13, 10] @ str ''x'')) (holding []) (holding [])
      = Some (True, d, bIn', holding [], bTransf')
    \<and> rs_parserState d = RES_FINISHED \<and> rs_state d = RES_OK \<and> pending bIn' = str ''x''
    \<and> pending bTransf' = pending (holding []) @ take (room (holding [])) (str ''abc'')"
proof -
  let ?r = "no_response\<lparr>rs_parserState := BODY_TRANSFORMATION, rs_isChunked := True\<rparr>"
  have "\<exists>d bIn' bTransf'. checkResponse ?r
      (holding (str ''3'' @ [13, 10] @ str ''abc'' @ [13, 10] @ str ''0'' @ [13, 10, 13, 10] @ str ''x'')) (holding []) (holding [])
      = Some (True, d, bIn', holding [], bTransf')
    \<and> rs_parserState d = RES_FINISHED \<and> rs_state d = rs_state ?r \<and> pending bIn' = str ''x''
    \<and> pending bTransf' = pending (holding []) @ take (room (holding [])) (concat (map snd [(str ''3'', str ''abc'')]))"
    by (rule checkResponse_dechunks [where zs = "str ''0''"])
      (simp_all add: chunk_text_def chunk_ok_def isxdigit_def isdigit_def hexCharToDec_def c_int_def)
  then show ?thesis by (simp add: no_response_def defaultResponseStruct_def)
qed

text \<open>C21
  Without a transformation a chunked body is forwarded byte by byte, framing included, up to and
  including its last chunk, and not a byte further.\<close>

theorem checkResponse_forwards_chunks:
  assumes "buf_inv bIn" "buf_inv bOut" "resv bIn = 0"
    "pending bIn = concat (map chunk_text chs) @ chunk_text (zs, []) @ ys"
    "\<forall>ch \<in> set chs. chunk_ok ch \<and> snd ch \<noteq> []" "chunk_ok (zs, [])"
    "rs_parserState rData = BODY_NORMAL" "rs_isChunked rData"
  shows "\<exists>d bIn' bOut'. checkResponse rData bIn bOut bTransf = Some (True, d, bIn', bOut', bTransf)
    \<and> rs_parserState d = RES_FINISHED \<and> pending bIn' = ys
    \<and> pending bOut' = pending bOut @ take (room bOut) (concat (map chunk_text chs) @ chunk_text (zs, []))"
proof -
  let ?d = "rData\<lparr>rs_isBufferEmpty := False\<rparr>"
  let ?d' = "?d\<lparr>rs_bodyLength := 0, rs_isBufferEmpty := False\<rparr>"
  let ?o = "pushes bOut (concat (map chunk_text chs) @ chunk_text (zs, []))"
  obtain b' where run: "c_loop extractChunkedBody_body (True, ?d, bIn, bOut) = Some (True, ?d', b', ?o)" "pending b' = ys"
    using chunks_copy_run [OF assms(1-6), of ?d True] by auto
  then have "rs_switch (?d, bIn, bOut, bTransf) =
      Some (True, True, ?d'\<lparr>rs_parserState := RES_FINISHED\<rparr>, b', ?o, bTransf)"
    using assms(7,8) by (simp add: rs_switch_def extractBody_def extractChunkedBody_def)
  from checkResponse_finish [OF this] run(2) assms(2) show ?thesis by (simp add: buf_view)
qed

theorem checkResponse_forwards_chunks_witness:
  "\<exists>d bIn' bOut'. checkResponse (no_response\<lparr>rs_parserState := BODY_NORMAL, rs_isChunked := True\<rparr>)
      (holding (chunk_text (str ''A'', str ''0123456789'') @ chunk_text (str ''0'', []) @ str ''x'')) (holding []) (holding [])
      = Some (True, d, bIn', bOut', holding [])
    \<and> rs_parserState d = RES_FINISHED \<and> pending bIn' = str ''x''
    \<and> pending bOut' = pending (holding []) @ take (room (holding []))
        (concat (map chunk_text [(str ''A'', str ''0123456789'')]) @ chunk_text (str ''0'', []))"
  by (rule checkResponse_forwards_chunks)
    (simp_all add: chunk_text_def chunk_ok_def isxdigit_def isdigit_def hexCharToDec_def toupper_def c_int_def)

lemma length_body_run:
  assumes "buf_inv bIn" "buf_inv bOut" "resv bIn = 0" "rs_parserState rData = BODY_NORMAL" "\<not> rs_isChunked rData"
    "rs_bodyLength rData = int n"
  shows "\<exists>d bIn' bOut'. checkResponse rData bIn bOut bTransf = Some (n \<le> length (pending bIn), d, bIn', bOut', bTransf)
    \<and> pending bOut' = pending bOut @ take (room bOut) (take n (pending bIn)) \<and> pending bIn' = drop n (pending bIn)
    \<and> rs_state d = rs_state rData \<and> rs_bodyLength d = int (n - length (pending bIn))
    \<and> rs_parserState d = (if n \<le> length (pending bIn) then RES_FINISHED else BODY_NORMAL)
    \<and> rs_isChunked d = rs_isChunked rData
    \<and> bIn' = advs (min n (length (pending bIn))) bIn \<and> bOut' = pushes bOut (take n (pending bIn))"
proof -
  let ?d = "rData\<lparr>rs_isBufferEmpty := False\<rparr>" and ?k = "min n (length (pending bIn))"
  have w: "writeToTransfBufWithZero bIn bOut (int n) False =
      Some (n \<le> length (pending bIn), int n - int ?k, advs ?k bIn, copiesz ?k bIn bOut, length (pending bIn) < n)"
    using assms(1,2) by (simp add: writeToTransfBufWithZero_eq Let_def)
  have v: "pending (advs ?k bIn) = drop n (pending bIn)"
    "pending (copiesz ?k bIn bOut) = pending bOut @ take (room bOut) (take n (pending bIn))"
    using assms(1-3) by (auto simp: buf_view copiesz_def min_def)
  have cz: "copiesz ?k bIn bOut = pushes bOut (take n (pending bIn))" using assms(3) by (simp add: copiesz_def min_def)
  have l: "int n - int ?k = int (n - length (pending bIn))" by (simp add: min_def of_nat_diff)
  show ?thesis
  proof (cases "n \<le> length (pending bIn)")
    case True
    then have "rs_switch (?d, bIn, bOut, bTransf) = Some (True, True,
        ?d\<lparr>rs_bodyLength := int n - int ?k, rs_parserState := RES_FINISHED\<rparr>, advs ?k bIn, copiesz ?k bIn bOut, bTransf)"
      using w assms(4-6) by (simp add: rs_switch_def extractBody_def)
    from checkResponse_finish [OF this] True v l cz show ?thesis by simp
  next
    case False
    then have "rs_switch (?d, bIn, bOut, bTransf) = Some (False, True,
        ?d\<lparr>rs_bodyLength := int n - int ?k, rs_isBufferEmpty := True\<rparr>, advs ?k bIn, copiesz ?k bIn bOut, bTransf)"
      using w assms(4-6) by (simp add: rs_switch_def extractBody_def)
    from checkResponse_fail [OF this] False v l cz assms(4) show ?thesis by simp
  qed
qed

text \<open>C36
  A body of known length may arrive in any pieces: a call forwards what is there up to the length.
  If that is all, the parser finishes and leaves the rest; if not, it asks for more and remembers
  how many bytes are missing, in the same state, with no error.\<close>

theorem checkResponse_length_body:
  assumes "buf_inv bIn" "buf_inv bOut" "resv bIn = 0" "rs_parserState rData = BODY_NORMAL" "\<not> rs_isChunked rData"
    "rs_bodyLength rData = int n"
  shows "\<exists>d bIn' bOut'. checkResponse rData bIn bOut bTransf = Some (n \<le> length (pending bIn), d, bIn', bOut', bTransf)
    \<and> pending bOut' = pending bOut @ take (room bOut) (take n (pending bIn)) \<and> pending bIn' = drop n (pending bIn)
    \<and> rs_state d = rs_state rData \<and> rs_bodyLength d = int (n - length (pending bIn))
    \<and> rs_parserState d = (if n \<le> length (pending bIn) then RES_FINISHED else BODY_NORMAL)"
  using length_body_run [OF assms, of bTransf] by blast

theorem checkResponse_length_body_witness:
  "\<exists>d bIn' bOut'. checkResponse (no_response\<lparr>rs_parserState := BODY_NORMAL, rs_bodyLength := 5\<rparr>)
      (holding (str ''abc'')) (holding []) (holding []) = Some (5 \<le> length (pending (holding (str ''abc''))), d, bIn', bOut', holding [])
    \<and> pending bOut' = pending (holding []) @ take (room (holding [])) (take 5 (pending (holding (str ''abc''))))
    \<and> pending bIn' = drop 5 (pending (holding (str ''abc'')))
    \<and> rs_state d = rs_state (no_response\<lparr>rs_parserState := BODY_NORMAL, rs_bodyLength := 5\<rparr>)
    \<and> rs_bodyLength d = int (5 - length (pending (holding (str ''abc''))))
    \<and> rs_parserState d = (if 5 \<le> length (pending (holding (str ''abc''))) then RES_FINISHED else BODY_NORMAL)"
  by (rule checkResponse_length_body) (simp_all add: no_response_def defaultResponseStruct_def)

text \<open>
  At the end of the headers the proxy adds what its own connection needs: after any text without
  the first letters of the headers it knows, the empty line becomes \<open>Transfer-Encoding: chunked\<close>
  if a transformation will re-chunk a body that was not chunked, \<open>Connection: close\<close> if no
  \<open>Connection\<close> header was rewritten, and the empty line itself; nothing else is added.\<close>

theorem checkHeaders_end:
  assumes "buf_inv b" "buf_inv bo" "resv b = 0" "pending b = pre @ [13, 10, 13, 10] @ ys" "plain_header pre"
    "\<not> rs_isBufferEmpty rData"
  shows "\<exists>b' bo'. checkHeaders (rData, b, bo) = Some (True, rData\<lparr>rs_next := RES_FINISHED\<rparr>, b', bo')
    \<and> pending b' = ys
    \<and> pending bo' = pending bo @ take (room bo) (pre @ [13, 10]
        @ (if \<not> rs_isChunked rData \<and> rs_withTransf rData then str ''Transfer-Encoding: chunked'' @ [13, 10] else [])
        @ (if \<not> rs_isClose rData then str ''Connection: close'' @ [13, 10] else []) @ [13, 10])"
proof -
  let ?d = "rData\<lparr>rs_next := RES_HEADERS\<rparr>"
  let ?b = "advs (length pre) b" and ?o = "pushes bo pre"
  have o: "copies (length pre) b bo = ?o"
    using copies_block [OF assms(3,4) plain_nul_free [OF assms(5)] refl] .
  have I: "buf_inv ?b" "buf_inv ?o" "resv ?b = 0" "pending ?b = [13, 10, 13, 10] @ ys"
    using assms(1-4) by (simp_all add: buf_view)
  have "c_loop checkHeaders_body (?d, b, bo) = c_loop checkHeaders_body (?d, ?b, ?o)"
    using plain_header_run [OF assms(1,2,4,5), of ?d] o by simp
  also have "\<dots> = Some (?d\<lparr>rs_next := RES_FINISHED\<rparr>, advs 4 ?b, pushes ?o ([13, 10] @ header_end ?d))"
    using headers_end_step [OF I, of ?d] assms(6) by (simp add: c_loop_break)
  finally have run: "checkHeaders (rData, b, bo) = Some (True, rData\<lparr>rs_next := RES_FINISHED\<rparr>, advs 4 ?b,
      pushes bo (pre @ [13, 10] @ header_end ?d))"
    by (simp add: checkHeaders_def pushes_append)
  have "pending (advs 4 ?b) = ys" using I(1,4) by (simp add: buf_view)
  with run assms(2) show ?thesis by (simp add: buf_view header_end_def del: str_Cons)
qed

theorem checkHeaders_end_witness:
  "\<exists>b' bo'. checkHeaders (no_response\<lparr>rs_withTransf := True\<rparr>, holding (str ''Server: me'' @ [13, 10, 13, 10] @ str ''x''), holding [])
      = Some (True, no_response\<lparr>rs_withTransf := True, rs_next := RES_FINISHED\<rparr>, b', bo')
    \<and> pending b' = str ''x''
    \<and> pending bo' = pending (holding []) @ take (room (holding [])) (str ''Server: me'' @ [13, 10]
        @ str ''Transfer-Encoding: chunked'' @ [13, 10] @ str ''Connection: close'' @ [13, 10] @ [13, 10])"
  using checkHeaders_end [of "holding (str ''Server: me'' @ [13, 10, 13, 10] @ str ''x'')" "holding []" "str ''Server: me''" "str ''x''"
      "no_response\<lparr>rs_withTransf := True\<rparr>"]
  by (simp add: no_response_def defaultResponseStruct_def toupper_def)

text \<open>
  Whatever value a \<open>Connection\<close> header has is dropped and replaced by \<open>close\<close>, and the parser
  remembers that it did so and goes back to the headers.\<close>

theorem checkConnection_replaces:
  assumes "buf_inv b" "buf_inv bo" "pending b = v @ 13 # ys" "0 \<notin> set v" "13 \<notin> set v"
  shows "\<exists>b' bo'. checkConnection (rData, b, bo) = Some (True, rData\<lparr>rs_isClose := True\<rparr>, b', bo')
    \<and> pending b' = 13 # ys \<and> pending bo' = pending bo @ take (room bo) (str ''close'')"
proof -
  have "checkConnection (rData, b, bo) = Some (True, rData\<lparr>rs_isClose := True\<rparr>, advs (length v) b, pushes bo (str ''close''))"
    using connection_value_run [OF assms(1,3-5), of 0] assms(2)
    by (simp add: checkConnection_def writeToBuf_eq del: writeToBuf.simps str_Cons)
  with assms(1-3) show ?thesis by (simp add: buf_view)
qed

theorem checkConnection_replaces_witness:
  "\<exists>b' bo'. checkConnection (no_response, holding (str ''keep-alive'' @ [13, 10]), holding []) =
      Some (True, no_response\<lparr>rs_isClose := True\<rparr>, b', bo')
    \<and> pending b' = 13 # [10] \<and> pending bo' = pending (holding []) @ take (room (holding [])) (str ''close'')"
  by (rule checkConnection_replaces [where v = "str ''keep-alive''"]) simp_all

text \<open>
  A chunk length of \<open>2^31\<close> or more wraps to a negative number, and the parser takes such a chunk for
  the last one: the body ends right behind its first line, if an empty line follows.\<close>

theorem checkResponse_negative_chunk_ends_body:
  assumes "buf_inv bIn" "buf_inv bTransf" "resv bIn = 0" "pending bIn = hs @ [13, 10, 13, 10] @ ys"
    "hs \<noteq> []" "list_all isxdigit hs" "hex_val 0 hs < 0"
    "rs_parserState rData = BODY_TRANSFORMATION" "rs_isChunked rData"
  shows "\<exists>d bIn'. checkResponse rData bIn bOut bTransf = Some (True, d, bIn', bOut, bTransf)
    \<and> rs_parserState d = RES_FINISHED \<and> rs_state d = rs_state rData \<and> pending bIn' = ys"
proof -
  let ?d = "rData\<lparr>rs_isBufferEmpty := False\<rparr>" and ?h = "length hs" and ?n = "hex_val 0 hs"
  let ?b1 = "advs ?h bIn" and ?b2 = "advs (?h + 2) bIn" and ?b3 = "advs (?h + 2 + 2) bIn"
  have p: "pending bIn = hs @ 13 # 10 # 13 # 10 # ys" using assms(4) by simp
  have sp: "span_len isxdigit (pending bIn) = ?h" using span_hex [OF assms(6)] by (simp add: p)
  have c1: "simpleGetHexNumber (rs_bodyLength rData) bIn [] False = Some (True, ?n, ?b1, False)"
    using assms(1,5) sp by (simp add: simpleGetHexNumber_eq Let_def starved_def p)
  have c2: "simpleCheckCRLF ?b1 [] False = Some (True, ?b2, False)"
    using assms(1) p by (simp add: simpleCheckCRLF_def simpleMatchFormat_eq advs_advs buf_view)
  have c3: "writeToTransfBufWithZero ?b2 bTransf ?n False = Some (True, ?n, ?b2, bTransf, False)"
    using assms(1,2,7) p by (simp add: writeToTransfBufWithZero_eq)
  have c4: "simpleCheckCRLF ?b2 [] False = Some (True, ?b3, False)"
    using assms(1) p by (simp add: simpleCheckCRLF_def simpleMatchFormat_eq advs_advs buf_view)
  have "extractChunkedBodyTransf_body (True, ?d, bIn, bTransf) =
      Some (True, True, ?d\<lparr>rs_bodyLength := ?n\<rparr>, ?b3, bTransf)"
    using c1 c2 c3 c4 assms(7) by (simp add: extractChunkedBodyTransf_body_def)
  then have "c_loop extractChunkedBodyTransf_body (True, ?d, bIn, bTransf) = Some (True, ?d\<lparr>rs_bodyLength := ?n\<rparr>, ?b3, bTransf)"
    by (rule c_loop_break)
  then have "rs_switch (?d, bIn, bOut, bTransf) =
      Some (True, True, ?d\<lparr>rs_bodyLength := ?n, rs_parserState := RES_FINISHED\<rparr>, ?b3, bOut, bTransf)"
    using assms(8,9) by (simp add: rs_switch_def extractBodyTransf_def extractChunkedBodyTransf_def)
  moreover have "pending ?b3 = ys" using assms(1) p by (simp add: buf_view)
  ultimately show ?thesis using checkResponse_finish [of rData bIn bOut bTransf] by simp
qed

theorem checkResponse_negative_chunk_ends_body_witness:
  "\<exists>d bIn'. checkResponse (no_response\<lparr>rs_parserState := BODY_TRANSFORMATION, rs_isChunked := True\<rparr>)
      (holding (str ''FFFFFFFF'' @ [13, 10, 13, 10] @ str ''x'')) (holding []) (holding []) = Some (True, d, bIn', holding [], holding [])
    \<and> rs_parserState d = RES_FINISHED
    \<and> rs_state d = rs_state (no_response\<lparr>rs_parserState := BODY_TRANSFORMATION, rs_isChunked := True\<rparr>)
    \<and> pending bIn' = str ''x''"
  by (rule checkResponse_negative_chunk_ends_body [where hs = "str ''FFFFFFFF''"])
    (simp_all add: isxdigit_def isdigit_def hexCharToDec_def toupper_def c_int_def)

end
