(* ===== verification/Serializer.thy ===== *)
theory Serializer
  imports Prelude
begin

text \<open>
  The management protocol's wire format: \<open>proxy_http/src/serializer/serializer.c\<close> and
  \<open>include/protocol/protocol.h\<close>, and the admin client's copies of them under
  \<open>admin_client/src/\<close>, where the size is an \<open>unsigned int\<close> (the names with the prefix
  \<open>c_\<close>). A function takes the object it reads or writes and a position in it, where the code
  has a pointer, and returns the next position; \<open>malloc\<close> is the parameter \<open>alloc\<close>, which
  gives the contents of a fresh block of the size asked for, or none.
\<close>

section \<open>Messages\<close>

datatype msg_kind = SEND_CRED | LIST_METRICS | LIST_CONFIGS | GET_METRIC | GET_CONFIG | SET_CONFIG | ERROR

text \<open>The value of the \<open>enum\<close>, as it is stored in a byte.\<close>

definition kind_code :: "msg_kind \<Rightarrow> byte" where
  "kind_code k = (case k of SEND_CRED \<Rightarrow> 0 | LIST_METRICS \<Rightarrow> 1 | LIST_CONFIGS \<Rightarrow> 2 | GET_METRIC \<Rightarrow> 3
     | GET_CONFIG \<Rightarrow> 4 | SET_CONFIG \<Rightarrow> 5 | ERROR \<Rightarrow> 6)"

datatype error_type = CONFIG_NOT_FOUND | METRIC_NOT_FOUND | CONFIG_NOT_SET | INVALID_LENGTH | UNEXPECTED_ERROR

definition error_code :: "error_type \<Rightarrow> byte" where
  "error_code e = (case e of CONFIG_NOT_FOUND \<Rightarrow> 0 | METRIC_NOT_FOUND \<Rightarrow> 1 | CONFIG_NOT_SET \<Rightarrow> 2
     | INVALID_LENGTH \<Rightarrow> 3 | UNEXPECTED_ERROR \<Rightarrow> 4)"

text \<open>\<open>msg_buffer\<close> is the object pointed to, none for a pointer that points to nothing.\<close>

record msg_t =
  msg_type :: byte
  msg_param :: byte
  msg_buffer_size :: int
  msg_buffer :: "byte list option"

type_synonym alloc = "nat \<Rightarrow> byte list option"

section \<open>Serializers of the proxy\<close>

definition serialize_char :: "byte list \<Rightarrow> nat \<Rightarrow> byte \<Rightarrow> (byte list \<times> nat) option" where
  "serialize_char buffer p v = do { buffer' \<leftarrow> store buffer p v; Some (buffer', p + 1) }"

definition serialize_int :: "byte list \<Rightarrow> nat \<Rightarrow> int \<Rightarrow> (byte list \<times> nat) option" where
  "serialize_int buffer p v =
     do {
       b0 \<leftarrow> store buffer p (of_int (v div 16777216 mod 256));
       b1 \<leftarrow> store b0 (p + 1) (of_int (v div 65536 mod 256));
       b2 \<leftarrow> store b1 (p + 2) (of_int (v div 256 mod 256));
       b3 \<leftarrow> store b2 (p + 3) (of_int (v mod 256));
       Some (b3, p + 4)
     }"

definition serialize_string_body ::
  "byte list \<Rightarrow> byte list \<times> nat \<times> nat \<Rightarrow> (bool \<times> byte list \<times> nat \<times> nat) option" where
  "serialize_string_body s st =
     (case st of (buffer, p, i) \<Rightarrow>
      do {
        c \<leftarrow> load s i;
        (buffer', p') \<leftarrow> serialize_char buffer p c;
        Some (c = 0, buffer', p', i + 1)
      })"

definition serialize_string :: "byte list \<Rightarrow> nat \<Rightarrow> byte list \<Rightarrow> (byte list \<times> nat) option" where
  "serialize_string buffer p s =
     do { (buffer', p', _) \<leftarrow> c_loop (serialize_string_body s) (buffer, p, 0); Some (buffer', p') }"

definition serialize_msg :: "byte list \<Rightarrow> nat \<Rightarrow> msg_t \<Rightarrow> (byte list \<times> nat) option" where
  "serialize_msg buffer p msg =
     do {
       (b1, p1) \<leftarrow> serialize_char buffer p (msg_type msg);
       (b2, p2) \<leftarrow> serialize_char b1 p1 (msg_param msg);
       (b3, p3) \<leftarrow> serialize_int b2 p2 (msg_buffer_size msg);
       if msg_buffer_size msg > 0
       then do { s \<leftarrow> msg_buffer msg; serialize_string b3 p3 s }
       else Some (b3, p3)
     }"

section \<open>Deserializers of the proxy\<close>

definition deserialize_char :: "byte list \<Rightarrow> nat \<Rightarrow> (byte \<times> nat) option" where
  "deserialize_char buffer p = do { c \<leftarrow> load buffer p; Some (c, p + 1) }"

definition deserialize_int :: "byte list \<Rightarrow> nat \<Rightarrow> (int \<times> nat) option" where
  "deserialize_int buffer p =
     do {
       c0 \<leftarrow> load buffer p;
       c1 \<leftarrow> load buffer (p + 1);
       c2 \<leftarrow> load buffer (p + 2);
       c3 \<leftarrow> load buffer (p + 3);
       Some (c_int (uint c0 * 16777216 + uint c1 * 65536 + uint c2 * 256 + uint c3), p + 4)
     }"

definition deserialize_string_body ::
  "byte list \<Rightarrow> nat \<times> byte list \<times> nat \<Rightarrow> (bool \<times> nat \<times> byte list \<times> nat) option" where
  "deserialize_string_body buffer st =
     (case st of (p, s, i) \<Rightarrow>
      do {
        (c, p') \<leftarrow> deserialize_char buffer p;
        s' \<leftarrow> store s i c;
        Some (c = 0, p', s', i + 1)
      })"

definition deserialize_string :: "byte list \<Rightarrow> nat \<Rightarrow> byte list \<Rightarrow> (byte list \<times> nat) option" where
  "deserialize_string buffer p s =
     do { (p', s', _) \<leftarrow> c_loop (deserialize_string_body buffer) (p, s, 0); Some (s', p') }"

text \<open>The result's position is none when \<open>malloc\<close> fails, where the code returns \<open>NULL\<close>.\<close>

definition deserialize_msg :: "alloc \<Rightarrow> byte list \<Rightarrow> nat \<Rightarrow> msg_t \<Rightarrow> (msg_t \<times> nat option) option" where
  "deserialize_msg alloc buffer p msg =
     do {
       (ty, p1) \<leftarrow> deserialize_char buffer p;
       (pa, p2) \<leftarrow> deserialize_char buffer p1;
       (n, p3) \<leftarrow> deserialize_int buffer p2;
       let msg' = msg\<lparr>msg_type := ty, msg_param := pa, msg_buffer_size := n\<rparr>;
       if n > 0 then
         (case alloc (nat n) of
            None \<Rightarrow> Some (msg'\<lparr>msg_buffer := None\<rparr>, None)
          | Some s \<Rightarrow> do {
              (s', p4) \<leftarrow> deserialize_string buffer p3 s;
              Some (msg'\<lparr>msg_buffer := Some s'\<rparr>, Some p4)
            })
       else Some (msg', Some p3)
     }"

section \<open>The admin client's versions\<close>

record c_msg_t =
  c_type :: byte
  c_param :: byte
  c_buffer_size :: "32 word"
  c_buffer :: "byte list option"

definition c_serialize_char :: "byte list \<Rightarrow> nat \<Rightarrow> byte \<Rightarrow> (byte list \<times> nat) option" where
  "c_serialize_char buffer p v = do { buffer' \<leftarrow> store buffer p v; Some (buffer', p + 1) }"

definition c_serialize_int :: "byte list \<Rightarrow> nat \<Rightarrow> 32 word \<Rightarrow> (byte list \<times> nat) option" where
  "c_serialize_int buffer p v =
     do {
       b0 \<leftarrow> store buffer p (ucast (drop_bit 24 v));
       b1 \<leftarrow> store b0 (p + 1) (ucast (drop_bit 16 v));
       b2 \<leftarrow> store b1 (p + 2) (ucast (drop_bit 8 v));
       b3 \<leftarrow> store b2 (p + 3) (ucast v);
       Some (b3, p + 4)
     }"

definition c_serialize_string_body ::
  "byte list \<Rightarrow> byte list \<times> nat \<times> nat \<Rightarrow> (bool \<times> byte list \<times> nat \<times> nat) option" where
  "c_serialize_string_body s st =
     (case st of (buffer, p, i) \<Rightarrow>
      do {
        c \<leftarrow> load s i;
        (buffer', p') \<leftarrow> c_serialize_char buffer p c;
        Some (c = 0, buffer', p', i + 1)
      })"

definition c_serialize_string :: "byte list \<Rightarrow> nat \<Rightarrow> byte list \<Rightarrow> (byte list \<times> nat) option" where
  "c_serialize_string buffer p s =
     do { (buffer', p', _) \<leftarrow> c_loop (c_serialize_string_body s) (buffer, p, 0); Some (buffer', p') }"

definition c_serialize_msg :: "byte list \<Rightarrow> nat \<Rightarrow> c_msg_t \<Rightarrow> (byte list \<times> nat) option" where
  "c_serialize_msg buffer p msg =
     do {
       (b1, p1) \<leftarrow> c_serialize_char buffer p (c_type msg);
       (b2, p2) \<leftarrow> c_serialize_char b1 p1 (c_param msg);
       (b3, p3) \<leftarrow> c_serialize_int b2 p2 (c_buffer_size msg);
       if c_buffer_size msg > 0
       then do { s \<leftarrow> c_buffer msg; c_serialize_string b3 p3 s }
       else Some (b3, p3)
     }"

definition c_deserialize_char :: "byte list \<Rightarrow> nat \<Rightarrow> (byte \<times> nat) option" where
  "c_deserialize_char buffer p = do { c \<leftarrow> load buffer p; Some (c, p + 1) }"

definition c_deserialize_int :: "byte list \<Rightarrow> nat \<Rightarrow> (32 word \<times> nat) option" where
  "c_deserialize_int buffer p =
     do {
       c0 \<leftarrow> load buffer p;
       c1 \<leftarrow> load buffer (p + 1);
       c2 \<leftarrow> load buffer (p + 2);
       c3 \<leftarrow> load buffer (p + 3);
       Some (push_bit 24 (ucast c0) + push_bit 16 (ucast c1) + push_bit 8 (ucast c2) + ucast c3, p + 4)
     }"

definition c_deserialize_string_body ::
  "byte list \<Rightarrow> nat \<times> byte list \<times> nat \<Rightarrow> (bool \<times> nat \<times> byte list \<times> nat) option" where
  "c_deserialize_string_body buffer st =
     (case st of (p, s, i) \<Rightarrow>
      do {
        (c, p') \<leftarrow> c_deserialize_char buffer p;
        s' \<leftarrow> store s i c;
        Some (c = 0, p', s', i + 1)
      })"

definition c_deserialize_string :: "byte list \<Rightarrow> nat \<Rightarrow> byte list \<Rightarrow> (byte list \<times> nat) option" where
  "c_deserialize_string buffer p s =
     do { (p', s', _) \<leftarrow> c_loop (c_deserialize_string_body buffer) (p, s, 0); Some (s', p') }"

definition c_deserialize_msg :: "alloc \<Rightarrow> byte list \<Rightarrow> nat \<Rightarrow> c_msg_t \<Rightarrow> (c_msg_t \<times> nat option) option" where
  "c_deserialize_msg alloc buffer p msg =
     do {
       (ty, p1) \<leftarrow> c_deserialize_char buffer p;
       (pa, p2) \<leftarrow> c_deserialize_char buffer p1;
       (n, p3) \<leftarrow> c_deserialize_int buffer p2;
       let msg' = msg\<lparr>c_type := ty, c_param := pa, c_buffer_size := n\<rparr>;
       if n > 0 then
         (case alloc (unat n) of
            None \<Rightarrow> Some (msg'\<lparr>c_buffer := None\<rparr>, None)
          | Some s \<Rightarrow> do {
              (s', p4) \<leftarrow> c_deserialize_string buffer p3 s;
              Some (msg'\<lparr>c_buffer := Some s'\<rparr>, Some p4)
            })
       else Some (msg', Some p3)
     }"

section \<open>What the functions write and read\<close>

lemma load_drop: "drop p m = x # ys \<Longrightarrow> load m p = Some x \<and> drop (p + 1) m = ys"
proof -
  assume d: "drop p m = x # ys"
  then have "p < length m" by (metis drop_all leI list.distinct(1))
  moreover have "m ! p = x" using d by (metis hd_drop_conv_nth \<open>p < length m\<close> list.sel(1))
  moreover have "drop (p + 1) m = tl (drop p m)" by (simp add: drop_Suc tl_drop)
  ultimately show ?thesis using d by (simp add: load_def)
qed

definition int_bytes :: "int \<Rightarrow> byte list" where
  "int_bytes v = [of_int (v div 16777216 mod 256), of_int (v div 65536 mod 256), of_int (v div 256 mod 256), of_int (v mod 256)]"

lemma length_int_bytes [simp]: "length (int_bytes v) = 4"
  by (simp add: int_bytes_def)

lemma serialize_char_eq: "p < length m \<Longrightarrow> serialize_char m p x = Some (overlay p [x] m, p + 1)"
  by (simp add: serialize_char_def update_overlay)

lemma serialize_int_eq:
  assumes "p + 4 \<le> length m"
  shows "serialize_int m p v = Some (overlay p (int_bytes v) m, p + 4)"
proof -
  have "m[p := a, p + 1 := b, p + 2 := c, p + 3 := d] = overlay p [a, b, c, d] m" for a b c d :: byte
    using assms overlay_snoc [of p "[a]" m b] overlay_snoc [of p "[a, b]" m c] overlay_snoc [of p "[a, b, c]" m d]
    by (simp add: update_overlay [of p] numeral_3_eq_3)
  with assms show ?thesis by (simp add: serialize_int_def int_bytes_def)
qed

lemma serialize_string_loop:
  "p + length xs < length m \<Longrightarrow> drop i s = xs @ 0 # ys \<Longrightarrow> 0 \<notin> set xs \<Longrightarrow>
     c_loop (serialize_string_body s) (m, p, i) = Some (overlay p (xs @ [0]) m, p + length xs + 1, i + length xs + 1)"
proof (induction xs arbitrary: m p i)
  case Nil
  then have "load s i = Some 0" using load_drop [of i s 0 ys] by simp
  with Nil show ?case by (simp add: c_loop_break serialize_string_body_def serialize_char_eq)
next
  case (Cons x xs)
  then have d: "load s i = Some x" "drop (i + 1) s = xs @ 0 # ys" using load_drop [of i s x] by simp_all
  have "serialize_string_body s (m, p, i) = Some (False, overlay p [x] m, p + 1, i + 1)"
    using Cons.prems d(1) by (auto simp: serialize_string_body_def serialize_char_eq)
  moreover have "overlay (p + 1) (xs @ [0]) (overlay p [x] m) = overlay p (x # xs @ [0]) m"
    using overlay_append [of p "[x]" m "xs @ [0]"] Cons.prems(1) by simp
  ultimately show ?case
    using Cons.IH [of "p + 1" "overlay p [x] m" "i + 1"] Cons.prems d(2) by (simp add: c_loop_continue)
qed

lemma serialize_string_eq:
  "p + length xs < length m \<Longrightarrow> 0 \<notin> set xs \<Longrightarrow>
     serialize_string m p (xs @ 0 # ys) = Some (overlay p (xs @ [0]) m, p + length xs + 1)"
  using serialize_string_loop [of p xs m 0 "xs @ 0 # ys" ys] by (simp add: serialize_string_def)

text \<open>The bytes of a message on the wire.\<close>

definition wire :: "msg_t \<Rightarrow> byte list" where
  "wire msg = msg_type msg # msg_param msg # int_bytes (msg_buffer_size msg)
     @ (if msg_buffer_size msg > 0 then takeWhile (\<lambda>c. c \<noteq> 0) (the (msg_buffer msg)) @ [0] else [])"

text \<open>A message of the protocol: the size counts a string with its NUL, or there is no string.\<close>

definition msg_ok :: "msg_t \<Rightarrow> bool" where
  "msg_ok msg \<longleftrightarrow> int_range (msg_buffer_size msg)
     \<and> (msg_buffer_size msg > 0 \<longrightarrow>
        (\<exists>s. msg_buffer msg = Some (s @ [0]) \<and> 0 \<notin> set s \<and> msg_buffer_size msg = int (length s) + 1))"

lemma takeWhile_nul: "0 \<notin> set xs \<Longrightarrow> takeWhile (\<lambda>c. c \<noteq> 0) (xs @ 0 # ys) = (xs :: byte list)"
  by (induction xs) auto

lemma serialize_msg_eq:
  assumes "msg_ok msg" "p + length (wire msg) \<le> length m"
  shows "serialize_msg m p msg = Some (overlay p (wire msg) m, p + length (wire msg))"
proof -
  let ?h = "[msg_type msg, msg_param msg] @ int_bytes (msg_buffer_size msg)"
  have l: "p + 6 \<le> length m" using assms(2) by (simp add: wire_def split: if_splits)
  have c1: "serialize_char m p (msg_type msg) = Some (overlay p [msg_type msg] m, p + 1)"
    using l by (simp add: serialize_char_eq)
  have c2: "serialize_char (overlay p [msg_type msg] m) (p + 1) (msg_param msg) =
      Some (overlay p [msg_type msg, msg_param msg] m, p + 2)"
    using l overlay_append [of p "[msg_type msg]" m] by (simp add: serialize_char_eq)
  have c3: "serialize_int (overlay p [msg_type msg, msg_param msg] m) (p + 2) (msg_buffer_size msg) =
      Some (overlay p ?h m, p + 6)"
    using l overlay_append [of p "[msg_type msg, msg_param msg]" m "int_bytes (msg_buffer_size msg)"]
    by (simp add: serialize_int_eq)
  show ?thesis
  proof (cases "msg_buffer_size msg > 0")
    case False
    with c1 c2 c3 show ?thesis by (simp add: serialize_msg_def wire_def)
  next
    case True
    then obtain s where s: "msg_buffer msg = Some (s @ [0])" "0 \<notin> set s" using assms(1) by (auto simp: msg_ok_def)
    have w: "wire msg = ?h @ s @ [0]" using True s takeWhile_nul [OF s(2), of "[]"] by (simp add: wire_def)
    have "serialize_string (overlay p ?h m) (p + 6) (s @ [0]) = Some (overlay p (?h @ s @ [0]) m, p + 6 + length s + 1)"
      using serialize_string_eq [of "p + 6" s "overlay p ?h m" "[]"] s(2) assms(2) w l
        overlay_append [of p ?h m "s @ [0]"] by simp
    with True c1 c2 c3 s(1) w show ?thesis by (simp add: serialize_msg_def)
  qed
qed

lemma uint_of_int_byte: "uint (of_int x :: byte) = x mod 256"
  by (simp add: uint_word_of_int)

lemma four_bytes: "v div 16777216 mod 256 * 16777216 + v div 65536 mod 256 * 65536 + v div 256 mod 256 * 256 + v mod 256
    = v mod (4294967296 :: int)"
proof -
  have "v div (256 * 256) = v div 256 div 256" "v div (65536 * 256) = v div 65536 div 256"
    by (rule zdiv_zmult2_eq, simp)+
  moreover have "(256 :: int) * 256 = 65536" "(65536 :: int) * 256 = 16777216" by simp_all
  ultimately have d: "v div 256 div 256 = v div 65536" "v div 65536 div 256 = v div 16777216" by (simp_all only:)
  have e: "v mod (256 * 16777216) = 256 * (v div 256 mod 16777216) + v mod 256"
    "v div 256 mod (256 * 65536) = 256 * (v div 256 div 256 mod 65536) + v div 256 mod 256"
    "v div 65536 mod (256 * 256) = 256 * (v div 65536 div 256 mod 256) + v div 65536 mod 256"
    by (rule zmod_zmult2_eq, simp)+
  have n: "(256 :: int) * 16777216 = 4294967296" "(256 :: int) * 65536 = 16777216" "(256 :: int) * 256 = 65536" by simp_all
  from e [unfolded n d] show ?thesis by linarith
qed

lemma deserialize_int_eq:
  assumes "drop p m = int_bytes v @ ys"
  shows "deserialize_int m p = Some (c_int v, p + 4)"
proof -
  note d0 = load_drop [OF assms [unfolded int_bytes_def append_Cons]]
  note d1 = load_drop [OF d0 [THEN conjunct2]]
  note d2 = load_drop [OF d1 [THEN conjunct2]]
  note d3 = load_drop [OF d2 [THEN conjunct2]]
  have l: "load m p = Some (of_int (v div 16777216 mod 256))" "load m (p + 1) = Some (of_int (v div 65536 mod 256))"
    "load m (p + 2) = Some (of_int (v div 256 mod 256))" "load m (p + 3) = Some (of_int (v mod 256))"
    using d0 d1 d2 d3 by (simp_all add: numeral_3_eq_3)
  have "c_int (v mod 4294967296) = c_int (v mod 4294967296 + v div 4294967296 * 4294967296)"
    by (rule c_int_shift [symmetric])
  also have "v mod 4294967296 + v div 4294967296 * 4294967296 = v" by simp
  finally have "c_int (v mod 4294967296) = c_int v" .
  moreover have "deserialize_int m p = Some (c_int (uint (of_int (v div 16777216 mod 256) :: byte) * 16777216
      + uint (of_int (v div 65536 mod 256) :: byte) * 65536 + uint (of_int (v div 256 mod 256) :: byte) * 256
      + uint (of_int (v mod 256) :: byte)), p + 4)"
    unfolding deserialize_int_def l by (simp only: Option.bind.simps)
  ultimately show ?thesis by (simp only: uint_of_int_byte mod_mod_trivial four_bytes)
qed

lemma deserialize_string_loop:
  "drop p m = xs @ 0 # ys \<Longrightarrow> 0 \<notin> set xs \<Longrightarrow> i + length xs < length s \<Longrightarrow>
     c_loop (deserialize_string_body m) (p, s, i) = Some (p + length xs + 1, overlay i (xs @ [0]) s, i + length xs + 1)"
proof (induction xs arbitrary: p s i)
  case Nil
  then have "load m p = Some 0" using load_drop [of p m 0 ys] by simp
  with Nil show ?case
    by (simp add: c_loop_break deserialize_string_body_def deserialize_char_def update_overlay)
next
  case (Cons x xs)
  then have d: "load m p = Some x" "drop (p + 1) m = xs @ 0 # ys" using load_drop [of p m x] by simp_all
  have "deserialize_string_body m (p, s, i) = Some (False, p + 1, overlay i [x] s, i + 1)"
    using Cons.prems d(1) by (auto simp: deserialize_string_body_def deserialize_char_def update_overlay)
  moreover have "overlay (i + 1) (xs @ [0]) (overlay i [x] s) = overlay i (x # xs @ [0]) s"
    using overlay_append [of i "[x]" s "xs @ [0]"] Cons.prems(3) by simp
  ultimately show ?case
    using Cons.IH [of "p + 1" "i + 1" "overlay i [x] s"] Cons.prems d(2) by (simp add: c_loop_continue)
qed

text \<open>A string that does not end within the block it is copied to runs out of the block.\<close>

lemma deserialize_string_overruns:
  "drop p m = xs @ ys \<Longrightarrow> 0 \<notin> set xs \<Longrightarrow> i \<le> length s \<Longrightarrow> length s < i + length xs \<Longrightarrow>
     c_loop (deserialize_string_body m) (p, s, i) = None"
proof (induction xs arbitrary: p s i)
  case (Cons x xs)
  then have d: "load m p = Some x" "drop (p + 1) m = xs @ ys" using load_drop [of p m x] by simp_all
  show ?case
  proof (cases "i < length s")
    case True
    then have "deserialize_string_body m (p, s, i) = Some (False, p + 1, s[i := x], i + 1)"
      using Cons.prems d(1) by (auto simp: deserialize_string_body_def deserialize_char_def)
    then show ?thesis using Cons.IH [of "p + 1" "i + 1" "s[i := x]"] Cons.prems d(2) True
      by (simp add: c_loop_continue)
  next
    case False
    then have "deserialize_string_body m (p, s, i) = None"
      using d(1) by (simp add: deserialize_string_body_def deserialize_char_def store_def)
    then show ?thesis by (subst c_loop.simps) simp
  qed
qed simp

text \<open>The block \<open>malloc\<close> gives has the size asked for.\<close>

definition alloc_ok :: "alloc \<Rightarrow> bool" where
  "alloc_ok alloc \<longleftrightarrow> (\<forall>n s. alloc n = Some s \<longrightarrow> length s = n)"

lemma deserialize_header:
  assumes "drop p m = a # b # int_bytes v @ ys"
  shows "deserialize_char m p = Some (a, p + 1)" "deserialize_char m (p + 1) = Some (b, p + 2)"
    "deserialize_int m (p + 2) = Some (c_int v, p + 6)" "drop (p + 6) m = ys"
proof -
  note d0 = load_drop [OF assms]
  note d1 = load_drop [OF d0 [THEN conjunct2]]
  show "deserialize_char m p = Some (a, p + 1)" "deserialize_char m (p + 1) = Some (b, p + 2)"
    using d0 d1 by (simp_all add: deserialize_char_def)
  have t: "drop (p + 2) m = int_bytes v @ ys" using d1 by simp
  then show "deserialize_int m (p + 2) = Some (c_int v, p + 6)" by (simp add: deserialize_int_eq)
  have "drop (p + 6) m = drop 4 (drop (p + 2) m)" by (simp add: add.commute)
  also have "\<dots> = ys" unfolding t by simp
  finally show "drop (p + 6) m = ys" .
qed

lemma deserialize_wire:
  assumes "msg_ok msg" "drop p m = wire msg @ ys" "alloc_ok alloc" "msg_buffer_size msg > 0 \<longrightarrow> alloc (nat (msg_buffer_size msg)) \<noteq> None"
  shows "deserialize_msg alloc m p msg0 = Some (msg0\<lparr>msg_type := msg_type msg, msg_param := msg_param msg,
      msg_buffer_size := msg_buffer_size msg,
      msg_buffer := if msg_buffer_size msg > 0 then msg_buffer msg else msg_buffer msg0\<rparr>, Some (p + length (wire msg)))"
proof -
  let ?n = "msg_buffer_size msg"
  let ?s = "if ?n > 0 then takeWhile (\<lambda>c. c \<noteq> 0) (the (msg_buffer msg)) @ [0] else []"
  have "drop p m = msg_type msg # msg_param msg # int_bytes ?n @ (?s @ ys)" using assms(2) by (simp add: wire_def)
  note H = deserialize_header [OF this]
  have n: "c_int ?n = ?n" using assms(1) by (simp add: msg_ok_def c_int_id)
  show ?thesis
  proof (cases "?n > 0")
    case False
    with H n show ?thesis by (simp add: deserialize_msg_def wire_def)
  next
    case True
    then obtain s where s: "msg_buffer msg = Some (s @ [0])" "0 \<notin> set s" "?n = int (length s) + 1"
      using assms(1) by (auto simp: msg_ok_def)
    then have sz: "nat ?n = length s + 1" by simp
    obtain blk where blk: "alloc (nat ?n) = Some blk" "length blk = length s + 1"
      using assms(3,4) True sz by (auto simp: alloc_ok_def)
    have "drop (p + 6) m = s @ 0 # ys" using H(4) True s takeWhile_nul [OF s(2), of "[]"] by simp
    from deserialize_string_loop [OF this s(2), of 0 blk] blk(2)
    have "deserialize_string m (p + 6) blk = Some (s @ [0], p + 6 + length s + 1)"
      by (simp add: deserialize_string_def overlay_def)
    with True H n blk s show ?thesis
      using takeWhile_nul [OF s(2), of "[]"] by (simp add: deserialize_msg_def wire_def)
  qed
qed

section \<open>The client's versions against the proxy's\<close>

lemma ucast_drop_bit: "(ucast (drop_bit k v) :: byte) = of_int (uint (v :: 32 word) div 2 ^ k mod 256)"
proof -
  have "uint v mod 4294967296 = uint v" using uint_lt2p [of v] by (simp add: mod_pos_pos_trivial)
  then have "uint (ucast (drop_bit k v) :: byte) = uint (of_int (uint v div 2 ^ k mod 256) :: byte)"
    by (simp add: uint_word_of_int unsigned_drop_bit_eq unsigned_ucast_eq) (simp add: drop_bit_eq_div take_bit_eq_mod)
  then show ?thesis by (simp only: word_uint_eq_iff)
qed

lemma c_serialize_int_eq: "c_serialize_int m p v = serialize_int m p (uint v)"
  using ucast_drop_bit [of 24 v] ucast_drop_bit [of 16 v] ucast_drop_bit [of 8 v] ucast_drop_bit [of 0 v]
  by (simp add: c_serialize_int_def serialize_int_def)

lemma c_string_functions:
  "c_serialize_char = serialize_char" "c_serialize_string = serialize_string"
  "c_deserialize_char = deserialize_char" "c_deserialize_string = deserialize_string"
proof -
  show s: "c_serialize_char = serialize_char" and d: "c_deserialize_char = deserialize_char"
    by (simp_all add: fun_eq_iff c_serialize_char_def serialize_char_def c_deserialize_char_def deserialize_char_def)
  have sb: "c_serialize_string_body = serialize_string_body" and db: "c_deserialize_string_body = deserialize_string_body"
    by (intro ext, simp add: c_serialize_string_body_def serialize_string_body_def s)
      (intro ext, simp add: c_deserialize_string_body_def deserialize_string_body_def d)
  show "c_serialize_string = serialize_string" "c_deserialize_string = deserialize_string"
    by (intro ext, simp only: c_serialize_string_def serialize_string_def sb)
      (intro ext, simp only: c_deserialize_string_def deserialize_string_def db)
qed

text \<open>The proxy's view of a message of the client.\<close>

definition as_proxy_msg :: "c_msg_t \<Rightarrow> msg_t" where
  "as_proxy_msg msg = \<lparr>msg_type = c_type msg, msg_param = c_param msg,
     msg_buffer_size = uint (c_buffer_size msg), msg_buffer = c_buffer msg\<rparr>"

lemma c_serialize_msg_eq: "c_serialize_msg m p msg = serialize_msg m p (as_proxy_msg msg)"
  by (cases "c_buffer_size msg > 0") (simp_all add: c_serialize_msg_def serialize_msg_def as_proxy_msg_def
      c_string_functions c_serialize_int_eq word_less_def)

section \<open>Properties\<close>

text \<open>C27
  Every well-formed message survives the wire: what \<open>serialize_msg\<close> writes at any place of a large
  enough buffer, \<open>deserialize_msg\<close> reads back as the same type, parameter, size and string, and
  both say where the message ends.\<close>

theorem msg_roundtrip:
  assumes "msg_ok msg" "p + length (wire msg) \<le> length m" "alloc_ok alloc"
    "msg_buffer_size msg > 0 \<longrightarrow> alloc (nat (msg_buffer_size msg)) \<noteq> None"
  shows "\<exists>m'. serialize_msg m p msg = Some (m', p + length (wire msg)) \<and> length m' = length m
    \<and> deserialize_msg alloc m' p msg0 = Some (msg0\<lparr>msg_type := msg_type msg, msg_param := msg_param msg,
        msg_buffer_size := msg_buffer_size msg,
        msg_buffer := if msg_buffer_size msg > 0 then msg_buffer msg else msg_buffer msg0\<rparr>,
        Some (p + length (wire msg)))"
  using serialize_msg_eq [OF assms(1,2)] assms
    deserialize_wire [OF assms(1) drop_overlay [OF assms(2)] assms(3,4), of msg0] by simp

definition zeros :: alloc where
  "zeros n = Some (replicate n 0)"

lemma zeros_ok [simp]: "alloc_ok zeros"
  by (simp add: alloc_ok_def zeros_def)

definition no_msg :: msg_t where
  "no_msg = \<lparr>msg_type = 0, msg_param = 0, msg_buffer_size = 0, msg_buffer = None\<rparr>"

theorem msg_roundtrip_witness:
  "\<exists>m'. serialize_msg (replicate 20 0) 2 \<lparr>msg_type = 5, msg_param = 1, msg_buffer_size = 4, msg_buffer = Some (str ''cat'' @ [0])\<rparr>
      = Some (m', 12) \<and> length m' = 20
    \<and> deserialize_msg zeros m' 2 no_msg = Some (\<lparr>msg_type = 5, msg_param = 1, msg_buffer_size = 4, msg_buffer = Some (str ''cat'' @ [0])\<rparr>, Some 12)"
proof -
  let ?msg = "\<lparr>msg_type = 5, msg_param = 1, msg_buffer_size = 4, msg_buffer = Some (str ''cat'' @ [0])\<rparr>"
  have ok: "msg_ok ?msg" by (auto simp: msg_ok_def int_range_def intro!: exI [of _ "str ''cat''"])
  have w: "length (wire ?msg) = 10" by (simp add: wire_def)
  have "\<exists>m'. serialize_msg (replicate 20 0) 2 ?msg = Some (m', 2 + length (wire ?msg)) \<and> length m' = length (replicate 20 (0 :: byte))
    \<and> deserialize_msg zeros m' 2 no_msg = Some (no_msg\<lparr>msg_type := msg_type ?msg, msg_param := msg_param ?msg,
        msg_buffer_size := msg_buffer_size ?msg,
        msg_buffer := if msg_buffer_size ?msg > 0 then msg_buffer ?msg else msg_buffer no_msg\<rparr>, Some (2 + length (wire ?msg)))"
    by (rule msg_roundtrip [OF ok]) (simp_all add: wire_def zeros_def)
  then show ?thesis by (simp add: wire_def no_msg_def)
qed

text \<open>
  The two programs agree on the wire: what the admin client serializes, the proxy reads as the
  same message, for every size below \<open>2^31\<close> - the client's size is unsigned, the proxy's signed.\<close>

theorem client_to_proxy:
  assumes "msg_ok (as_proxy_msg msg)" "p + length (wire (as_proxy_msg msg)) \<le> length m" "alloc_ok alloc"
    "c_buffer_size msg > 0 \<longrightarrow> alloc (unat (c_buffer_size msg)) \<noteq> None"
  shows "\<exists>m' q msg'. c_serialize_msg m p msg = Some (m', q) \<and> deserialize_msg alloc m' p msg0 = Some (msg', Some q)
    \<and> msg_type msg' = c_type msg \<and> msg_param msg' = c_param msg \<and> msg_buffer_size msg' = uint (c_buffer_size msg)
    \<and> (c_buffer_size msg > 0 \<longrightarrow> msg_buffer msg' = c_buffer msg)"
proof -
  have a: "msg_buffer_size (as_proxy_msg msg) > 0 \<longrightarrow> alloc (nat (msg_buffer_size (as_proxy_msg msg))) \<noteq> None"
    using assms(4) by (simp add: as_proxy_msg_def word_less_def)
  from serialize_msg_eq [OF assms(1,2)] deserialize_wire [OF assms(1) drop_overlay [OF assms(2)] assms(3) a, of msg0]
  show ?thesis by (simp add: c_serialize_msg_eq as_proxy_msg_def word_less_def)
qed

theorem client_to_proxy_witness:
  "\<exists>m' q msg'. c_serialize_msg (replicate 20 0) 0 \<lparr>c_type = 5, c_param = 1, c_buffer_size = 2, c_buffer = Some [65, 0]\<rparr> = Some (m', q)
    \<and> deserialize_msg zeros m' 0 no_msg = Some (msg', Some q)
    \<and> msg_type msg' = 5 \<and> msg_param msg' = 1 \<and> msg_buffer_size msg' = 2 \<and> msg_buffer msg' = Some [65, 0]"
proof -
  let ?msg = "\<lparr>c_type = 5, c_param = 1, c_buffer_size = 2, c_buffer = Some [65, 0]\<rparr>"
  have ok: "msg_ok (as_proxy_msg ?msg)"
    by (auto simp: msg_ok_def as_proxy_msg_def int_range_def intro!: exI [of _ "[65]"])
  have "\<exists>m' q msg'. c_serialize_msg (replicate 20 0) 0 ?msg = Some (m', q) \<and> deserialize_msg zeros m' 0 no_msg = Some (msg', Some q)
    \<and> msg_type msg' = c_type ?msg \<and> msg_param msg' = c_param ?msg \<and> msg_buffer_size msg' = uint (c_buffer_size ?msg)
    \<and> (c_buffer_size ?msg > 0 \<longrightarrow> msg_buffer msg' = c_buffer ?msg)"
    by (rule client_to_proxy [OF ok]) (simp_all add: wire_def as_proxy_msg_def zeros_def)
  then show ?thesis by simp
qed

text \<open>
  A received message is trusted: \<open>deserialize_msg\<close> copies the string to its NUL into a block of the
  announced size, so a message with a string that is longer than its size overruns the heap block.\<close>

theorem deserialize_msg_overruns:
  assumes "drop p m = ty # pa # int_bytes n @ s @ ys" "int_range n" "0 < n" "n < int (length s)" "0 \<notin> set s"
    "alloc_ok alloc" "alloc (nat n) \<noteq> None"
  shows "deserialize_msg alloc m p msg0 = None"
proof -
  have "drop p m = ty # pa # int_bytes n @ (s @ ys)" using assms(1) by simp
  note H = deserialize_header [OF this]
  obtain blk where blk: "alloc (nat n) = Some blk" "length blk = nat n"
    using assms(6,7) by (auto simp: alloc_ok_def)
  have "deserialize_string m (p + 6) blk = None"
    using deserialize_string_overruns [OF H(4) assms(5), of 0 blk] blk(2) assms(3,4) by (simp add: deserialize_string_def)
  with H blk(1) assms(2,3) show ?thesis by (simp add: deserialize_msg_def c_int_id)
qed

theorem deserialize_msg_overruns_witness:
  "deserialize_msg zeros ([5, 0] @ [0, 0, 0, 1] @ str ''abc'' @ [0]) 0 no_msg = None"
  by (rule deserialize_msg_overruns [where n = 1 and s = "str ''abc''"])
    (simp_all add: int_bytes_def int_range_def zeros_def)

end
