(* ===== verification/AdminClient.thy ===== *)
theory AdminClient
  imports Serializer
begin

text \<open>
  The admin client, \<open>admin_client/src\<close>: \<open>messages/messages.c\<close> and \<open>actions/actions.c\<close>,
  and the loop of \<open>main.c\<close> that reads commands. The world of the client is the answers of the coming
  \<open>malloc\<close>s, the coming input (what \<open>read\<close> and \<open>sctp_recvmsg\<close> give), and what it has sent and
  printed so far. Waiting for input that never comes is \<open>None\<close>, as is any other way not to
  return. The set-up of the socket, and \<open>select\<close>, which only waits, are not modelled.
\<close>

section \<open>The world of the client\<close>

text \<open>
  A received message is what \<open>sctp_recvmsg\<close> returns and the array of 1024 bytes after it; a line of input
  is what \<open>read\<close> puts at the start of its buffer, none if it fails. \<open>w_sends w k\<close> is what \<open>sctp_sendmsg\<close> returns for the
  \<open>k\<close>-th message, and \<open>w_sent\<close> lists what it was given; \<open>w_error\<close> is the text of \<open>errno\<close> after so many messages
  sent, with so many to come.
\<close>

record world =
  w_alloc :: "nat \<Rightarrow> alloc"
  w_count :: nat
  w_sends :: "nat \<Rightarrow> int"
  w_error :: "nat \<Rightarrow> nat \<Rightarrow> byte list"
  w_incoming :: "(int \<times> byte list) list"
  w_stdin :: "byte list option list"
  w_sent :: "byte list list"
  w_printed :: "byte list"

definition MAX_READ :: nat where "MAX_READ = 1024"

definition CL_MAX_MSG_SIZE :: nat where "CL_MAX_MSG_SIZE = 1024"

definition print :: "byte list \<Rightarrow> world \<Rightarrow> world" where
  "print t w = w\<lparr>w_printed := w_printed w @ t\<rparr>"

text \<open>\<open>printf("%s\n", strerror(errno))\<close>.\<close>

definition print_error :: "world \<Rightarrow> world" where
  "print_error w = print (w_error w (length (w_sent w)) (length (w_incoming w)) @ [10]) w"

definition cl_malloc :: "nat \<Rightarrow> world \<Rightarrow> byte list option \<times> world" where
  "cl_malloc n w = (w_alloc w (w_count w) n, w\<lparr>w_count := w_count w + 1\<rparr>)"

section \<open>Messages\<close>

definition error_msg_to_string :: "byte \<Rightarrow> byte list" where
  "error_msg_to_string e =
     (if e = error_code CONFIG_NOT_FOUND then str ''Configuracion no encontrada.''
      else if e = error_code METRIC_NOT_FOUND then str ''Metrica no encontrada.''
      else if e = error_code CONFIG_NOT_SET then str ''No pudo setearse la configuracion.''
      else if e = error_code INVALID_LENGTH then str ''Longitud invalida.''
      else if e = error_code UNEXPECTED_ERROR then str ''Error inesperado. Intentelo denuevo.''
      else str ''Error desconocido.'')"

text \<open>The array is on the stack; only what was serialized is sent.\<close>

definition cl_send_msg :: "c_msg_t \<Rightarrow> world \<Rightarrow> world option" where
  "cl_send_msg msg w =
     do {
       (buffer, p) \<leftarrow> c_serialize_msg (replicate (CL_MAX_MSG_SIZE + 1) 0) 0 msg;
       let sent_bytes = w_sends w (length (w_sent w));
       let w' = w\<lparr>w_sent := w_sent w @ [take p buffer]\<rparr>;
       Some (if sent_bytes \<le> 0 then print_error w' else w')
     }"

definition cl_rcv_msg :: "c_msg_t \<Rightarrow> world \<Rightarrow> (int \<times> c_msg_t \<times> world) option" where
  "cl_rcv_msg msg w =
     (case w_incoming w of
        [] \<Rightarrow> None
      | (read_quan, buffer) # rest \<Rightarrow>
          (let w0 = w\<lparr>w_incoming := rest\<rparr>; w1 = (if read_quan < 0 then print_error w0 else w0) in
           do {
             (msg', _) \<leftarrow> c_deserialize_msg (w_alloc w1 (w_count w1)) buffer 0 msg;
             let w2 = (if c_buffer_size msg' > 0 then w1\<lparr>w_count := w_count w1 + 1\<rparr> else w1);
             Some (read_quan, msg', w2)
           }))"

definition cl_print_msg :: "c_msg_t \<Rightarrow> world \<Rightarrow> world option" where
  "cl_print_msg msg w =
     (if c_type msg = kind_code ERROR
      then Some (print (str ''Error: '' @ error_msg_to_string (c_param msg) @ [10]) w)
      else if c_type msg = kind_code SET_CONFIG \<and> c_buffer_size msg = 0
      then Some (print (str ''Seteo realizado!'' @ [10]) w)
      else if c_buffer_size msg = 0 then Some (print [10] w)
      else do {
        b \<leftarrow> c_buffer msg;
        if unat (c_buffer_size msg) \<le> length b
        then Some (print (take (unat (c_buffer_size msg)) b @ [10]) w) else None
      })"

section \<open>Actions\<close>

text \<open>A message in fresh memory: its first fields are set before they are read.\<close>

definition new_msg :: "msg_kind \<Rightarrow> byte \<Rightarrow> world \<Rightarrow> (c_msg_t \<times> world) option" where
  "new_msg k param w =
     (let (block, w1) = cl_malloc 16 w
      in do { _ \<leftarrow> block; Some (\<lparr>c_type = kind_code k, c_param = param, c_buffer_size = 0, c_buffer = None\<rparr>, w1) })"

text \<open>\<open>strncpy\<close> of a string into a block of its size.\<close>

definition with_string :: "byte list \<Rightarrow> c_msg_t \<times> world \<Rightarrow> (c_msg_t \<times> world) option" where
  "with_string s mw =
     (case mw of (msg, w) \<Rightarrow>
      let size = of_nat (length s) + 1; (block, w1) = cl_malloc (unat size) w
      in do { b \<leftarrow> block; b' \<leftarrow> store_block b 0 (take (unat size) (s @ [0])); Some (msg\<lparr>c_buffer_size := size, c_buffer := Some b'\<rparr>, w1) })"

definition send_credentials :: "byte list \<Rightarrow> world \<Rightarrow> world option" where
  "send_credentials pass w =
     do { mw \<leftarrow> new_msg SEND_CRED 0 w; (msg, w1) \<leftarrow> with_string pass mw; cl_send_msg msg w1 }"

text \<open>The reply: one message, or messages up to one without a string; \<open>response\<close> is on the stack.\<close>

definition response_body :: "bool \<Rightarrow> c_msg_t \<times> world \<Rightarrow> (bool \<times> c_msg_t \<times> world) option" where
  "response_body is_list st =
     (case st of (response, w) \<Rightarrow>
      do {
        (rcv_sz, r, w1) \<leftarrow> cl_rcv_msg response w;
        if rcv_sz < 0 then Some (True, r, print (str ''error receiving'' @ [10]) w1)
        else do {
          w2 \<leftarrow> cl_print_msg r w1;
          Some (\<not> (is_list \<and> c_buffer_size r > 0), r, w2)
        }
      })"

definition junk_msg :: c_msg_t where
  "junk_msg = \<lparr>c_type = 0, c_param = 0, c_buffer_size = 0, c_buffer = None\<rparr>"

definition get_and_show_response :: "bool \<Rightarrow> world \<Rightarrow> world option" where
  "get_and_show_response is_list w = do { (_, w') \<leftarrow> c_loop (response_body is_list) (junk_msg, w); Some w' }"

definition request :: "msg_kind \<Rightarrow> byte \<Rightarrow> bool \<Rightarrow> world \<Rightarrow> world option" where
  "request k param is_list w =
     do { (msg, w1) \<leftarrow> new_msg k param w; w2 \<leftarrow> cl_send_msg msg w1; get_and_show_response is_list w2 }"

definition req_list_metrics :: "world \<Rightarrow> world option" where
  "req_list_metrics = request LIST_METRICS 0 True"

definition req_list_configs :: "world \<Rightarrow> world option" where
  "req_list_configs = request LIST_CONFIGS 0 True"

definition req_get_metric :: "byte \<Rightarrow> world \<Rightarrow> world option" where
  "req_get_metric metric = request GET_METRIC metric False"

definition req_get_config :: "byte \<Rightarrow> world \<Rightarrow> world option" where
  "req_get_config config = request GET_CONFIG config False"

definition req_set_config :: "byte \<Rightarrow> byte list \<Rightarrow> world \<Rightarrow> world option" where
  "req_set_config config val w =
     do {
       mw \<leftarrow> new_msg SET_CONFIG config w;
       (msg, w1) \<leftarrow> with_string val mw;
       w2 \<leftarrow> cl_send_msg msg w1;
       get_and_show_response False w2
     }"

definition menu :: "byte list" where
  "menu = str ''Bienvenido Administrador'' @ [10]
     @ str ''1) Listar metricas'' @ [10]
     @ str ''2) Listar configuraciones'' @ [10]
     @ str ''3) Obtener metrica (indicar numero de metrica)'' @ [10]
     @ str ''4) Obtener configuracion (indicar numero de configuracion)'' @ [10]
     @ str ''5) Setear configuracion (indicar numero de configuracion y valor deseado'' @ [10]
     @ str ''6) Cerrar'' @ [10]"

definition show_menu :: "world \<Rightarrow> world" where
  "show_menu w = print menu w"

section \<open>The command loop\<close>

datatype cl_state = CL_START | CRED | GMETRIC | GCONFIG | SCONFIG | PROTERROR | CLOSE

record session =
  cl_mode :: cl_state
  cl_buffer :: "byte list"
  cl_i :: nat
  cl_world :: world

text \<open>\<open>while (buffer[i] == ' ') i++\<close>.\<close>

definition skip_body :: "byte list \<Rightarrow> nat \<Rightarrow> (bool \<times> nat) option" where
  "skip_body buffer i = do { c \<leftarrow> load buffer i; Some (c \<noteq> 32, if c = 32 then i + 1 else i) }"

definition skip_blanks :: "byte list \<Rightarrow> nat \<Rightarrow> nat option" where
  "skip_blanks buffer i = c_loop (skip_body buffer) i"

text \<open>
  \<open>for (; i < MAX_READ && buffer[i] != stop; i++) param[j++] = buffer[i]; param[j] = 0\<close>: the string in
  \<open>param\<close> and the new \<open>i\<close>. The NUL must fit as well.
\<close>

definition copy_body :: "byte \<Rightarrow> byte list \<Rightarrow> nat \<times> byte list \<Rightarrow> (bool \<times> nat \<times> byte list) option" where
  "copy_body stop buffer st =
     (case st of (i, param) \<Rightarrow>
      if i < MAX_READ then do {
        c \<leftarrow> load buffer i;
        if c = stop then Some (True, i, param)
        else if length param < MAX_READ then Some (False, i + 1, param @ [c]) else None
      } else Some (True, i, param))"

definition copy_field :: "byte \<Rightarrow> byte list \<Rightarrow> nat \<Rightarrow> (nat \<times> byte list) option" where
  "copy_field stop buffer i =
     do {
       (i', param) \<leftarrow> c_loop (copy_body stop buffer) (i, []);
       if length param < MAX_READ then Some (i', c_string param) else None
     }"

text \<open>\<open>while (read(STDIN_FILENO, buffer, MAX_READ) < 0);\<close>\<close>

fun read_stdin :: "byte list \<Rightarrow> byte list option list \<Rightarrow> (byte list \<times> byte list option list) option" where
  "read_stdin buffer [] = None"
| "read_stdin buffer (None # ins) = read_stdin buffer ins"
| "read_stdin buffer (Some line # ins) = Some (overlay 0 (take MAX_READ line) buffer, ins)"

definition cmd :: "msg_kind \<Rightarrow> byte" where
  "cmd k = kind_code k + 48"

text \<open>The case \<open>START\<close>: none of the commands falls through to the case \<open>CRED\<close>.\<close>

definition cl_start :: "session \<Rightarrow> session option" where
  "cl_start s =
     do {
       let w = show_menu (cl_world s);
       (buffer, ins) \<leftarrow> read_stdin (cl_buffer s) (w_stdin w);
       let s0 = s\<lparr>cl_buffer := buffer, cl_i := 0, cl_world := w\<lparr>w_stdin := ins\<rparr>\<rparr>;
       c \<leftarrow> load buffer 0;
       if c = cmd SEND_CRED then do { i \<leftarrow> skip_blanks buffer 1; Some (s0\<lparr>cl_i := i, cl_mode := CRED\<rparr>) }
       else if c = cmd LIST_METRICS then
         do { w' \<leftarrow> req_list_metrics (cl_world s0); Some (s0\<lparr>cl_world := w', cl_mode := CL_START\<rparr>) }
       else if c = cmd LIST_CONFIGS then
         do { w' \<leftarrow> req_list_configs (cl_world s0); Some (s0\<lparr>cl_world := w', cl_mode := CL_START\<rparr>) }
       else if c = cmd GET_METRIC then do { i \<leftarrow> skip_blanks buffer 1; Some (s0\<lparr>cl_i := i, cl_mode := GMETRIC\<rparr>) }
       else if c = cmd GET_CONFIG then do { i \<leftarrow> skip_blanks buffer 1; Some (s0\<lparr>cl_i := i, cl_mode := GCONFIG\<rparr>) }
       else if c = cmd SET_CONFIG then do { i \<leftarrow> skip_blanks buffer 1; Some (s0\<lparr>cl_i := i, cl_mode := SCONFIG\<rparr>) }
       else if c = 6 + 48 then Some (s0\<lparr>cl_mode := CLOSE\<rparr>)
       else Some (s0\<lparr>cl_mode := CRED\<rparr>)
     }"

definition cl_params :: "session \<Rightarrow> session option" where
  "cl_params s =
     (case cl_mode s of
        SCONFIG \<Rightarrow> do {
          (i1, param1) \<leftarrow> copy_field 32 (cl_buffer s) (cl_i s);
          i2 \<leftarrow> skip_blanks (cl_buffer s) (i1 + 1);
          (i3, param2) \<leftarrow> copy_field 10 (cl_buffer s) i2;
          w \<leftarrow> req_set_config (of_int (c_atoi param1)) param2 (cl_world s);
          Some (s\<lparr>cl_i := i3, cl_world := w, cl_mode := CL_START\<rparr>)
        }
      | m \<Rightarrow> do {
          (i', param1) \<leftarrow> copy_field 10 (cl_buffer s) (cl_i s);
          w \<leftarrow> (case m of
                 GMETRIC \<Rightarrow> req_get_metric (of_int (c_atoi param1)) (cl_world s)
               | GCONFIG \<Rightarrow> req_get_config (of_int (c_atoi param1)) (cl_world s)
               | _ \<Rightarrow> send_credentials param1 (cl_world s));
          Some (s\<lparr>cl_i := i', cl_world := w, cl_mode := CL_START\<rparr>)
        })"

text \<open>One round of the loop; falling through is going on in the state \<open>CRED\<close>.\<close>

definition cl_step :: "session \<Rightarrow> (bool \<times> session) option" where
  "cl_step s =
     (case cl_mode s of
        CL_START \<Rightarrow> do { s' \<leftarrow> cl_start s; Some (False, s') }
      | CLOSE \<Rightarrow> Some (True, s)
      | PROTERROR \<Rightarrow> Some (False, s)
      | _ \<Rightarrow> do { s' \<leftarrow> cl_params s; Some (False, s') })"

definition cl_main :: "byte list \<Rightarrow> world \<Rightarrow> world option" where
  "cl_main junk w =
     do {
       s \<leftarrow> c_loop cl_step \<lparr>cl_mode = CL_START, cl_buffer = take MAX_READ (junk @ replicate MAX_READ 0), cl_i = 0, cl_world = w\<rparr>;
       Some (print (str ''Adios cliente administrador!'' @ [10]) (cl_world s))
     }"

end
