(* ===== verification/MsgQueue.thy ===== *)
theory MsgQueue
  imports Serializer
begin

text \<open>
  \<open>proxy_http/src/msg_queue/msg_queue.c\<close>: the queue of management messages, a linked list with
  a pointer to its first and its last node. The nodes are an object store: an address is an index,
  and \<open>malloc\<close>, when it succeeds, gives the next one (nothing is ever freed). Its contract is the
  locale \<open>fifo_queue\<close>, a refinement of the list.
\<close>

section \<open>Operations\<close>

record 'm qnode =
  qn_msg :: 'm
  qn_next :: "nat option"

record 'm msg_queue =
  q_fd :: int
  q_selector :: "nat option"
  q_nodes :: "'m qnode list"
  q_first :: "nat option"
  q_last :: "nat option"

definition q_empty :: "'m msg_queue" where
  "q_empty = \<lparr>q_fd = 0, q_selector = None, q_nodes = [], q_first = None, q_last = None\<rparr>"

definition q_init :: "int \<Rightarrow> nat option \<Rightarrow> 'm msg_queue \<Rightarrow> 'm msg_queue" where
  "q_init fd s q = q\<lparr>q_fd := fd, q_selector := s\<rparr>"

definition q_is_empty :: "'m msg_queue \<Rightarrow> bool" where
  "q_is_empty q \<longleftrightarrow> q_first q = None"

definition q_poll :: "'m msg_queue \<Rightarrow> ('m option \<times> 'm msg_queue) option" where
  "q_poll q =
     (if q_is_empty q then Some (None, q)
      else do {
        a \<leftarrow> q_first q;
        node \<leftarrow> load (q_nodes q) a;
        let q1 = (if q_first q = q_last q then q\<lparr>q_last := None\<rparr> else q);
        Some (Some (qn_msg node), q1\<lparr>q_first := qn_next node\<rparr>)
      })"

text \<open>\<open>mem\<close> says whether \<open>malloc\<close> succeeds.\<close>

definition q_offer :: "bool \<Rightarrow> 'm \<Rightarrow> 'm msg_queue \<Rightarrow> (int \<times> 'm msg_queue) option" where
  "q_offer mem msg q =
     (if \<not> mem then Some (- 1, q)
      else
        (let a = length (q_nodes q);
             q1 = q\<lparr>q_nodes := q_nodes q @ [\<lparr>qn_msg = msg, qn_next = None\<rparr>]\<rparr>
         in if q_is_empty q then Some (0, q1\<lparr>q_first := Some a, q_last := Some a\<rparr>)
            else do {
              l \<leftarrow> q_last q1;
              node \<leftarrow> load (q_nodes q1) l;
              nodes \<leftarrow> store (q_nodes q1) l (node\<lparr>qn_next := Some a\<rparr>);
              Some (0, q1\<lparr>q_nodes := nodes, q_last := Some a\<rparr>)
            }))"

section \<open>The contract of a queue\<close>

datatype 'm q_op = Offer bool 'm | Poll

text \<open>A run of operations on the abstract queue, a list, with the answers of the polls.\<close>

fun list_run :: "'m q_op list \<Rightarrow> 'm list \<Rightarrow> 'm option list \<times> 'm list" where
  "list_run [] xs = ([], xs)"
| "list_run (Offer mem m # ops) xs = list_run ops (if mem then xs @ [m] else xs)"
| "list_run (Poll # ops) xs =
     (let (out, ys) = list_run ops (tl xs) in ((if xs = [] then None else Some (hd xs)) # out, ys))"

fun queue_run :: "(bool \<Rightarrow> 'm \<Rightarrow> 'q \<Rightarrow> (int \<times> 'q) option) \<Rightarrow> ('q \<Rightarrow> ('m option \<times> 'q) option)
    \<Rightarrow> 'm q_op list \<Rightarrow> 'q \<Rightarrow> ('m option list \<times> 'q) option" where
  "queue_run offer poll [] q = Some ([], q)"
| "queue_run offer poll (Offer mem m # ops) q =
     do { (_, q') \<leftarrow> offer mem m q; queue_run offer poll ops q' }"
| "queue_run offer poll (Poll # ops) q =
     do { (x, q') \<leftarrow> poll q; (out, q'') \<leftarrow> queue_run offer poll ops q'; Some (x # out, q'') }"

locale fifo_queue =
  fixes offer :: "bool \<Rightarrow> 'm \<Rightarrow> 'q \<Rightarrow> (int \<times> 'q) option"
    and poll :: "'q \<Rightarrow> ('m option \<times> 'q) option"
    and items :: "'q \<Rightarrow> 'm list"
    and ok :: "'q \<Rightarrow> bool"
  assumes offer_law: "ok q \<Longrightarrow> \<exists>q'. offer mem m q = Some (if mem then 0 else - 1, q') \<and> ok q'
      \<and> items q' = (if mem then items q @ [m] else items q)"
    and poll_law: "ok q \<Longrightarrow> \<exists>q'. poll q = Some (if items q = [] then None else Some (hd (items q)), q') \<and> ok q'
      \<and> items q' = tl (items q)"
begin

lemma refines_list:
  "ok q \<Longrightarrow> \<exists>q'. queue_run offer poll ops q = Some (fst (list_run ops (items q)), q') \<and> ok q'
     \<and> items q' = snd (list_run ops (items q))"
proof (induction ops arbitrary: q)
  case (Cons op ops)
  show ?case
  proof (cases op)
    case (Offer mem m)
    obtain q1 where "offer mem m q = Some (if mem then 0 else - 1, q1)" "ok q1"
      "items q1 = (if mem then items q @ [m] else items q)"
      using offer_law [OF Cons.prems] by blast
    with Cons.IH [of q1] Offer show ?thesis by auto
  next
    case Poll
    obtain q1 where "poll q = Some (if items q = [] then None else Some (hd (items q)), q1)" "ok q1"
      "items q1 = tl (items q)"
      using poll_law [OF Cons.prems] by blast
    with Cons.IH [of q1] Poll show ?thesis by (auto simp: split_beta)
  qed
qed simp

end

section \<open>The linked list keeps it\<close>

definition q_items :: "'m msg_queue \<Rightarrow> 'm list" where
  "q_items q = (case q_first q of None \<Rightarrow> [] | Some a \<Rightarrow> map qn_msg (drop a (q_nodes q)))"

definition q_ok :: "'m msg_queue \<Rightarrow> bool" where
  "q_ok q \<longleftrightarrow>
     (case q_first q of
        None \<Rightarrow> q_last q = None
      | Some a \<Rightarrow> a < length (q_nodes q) \<and> q_last q = Some (length (q_nodes q) - 1)
          \<and> (\<forall>i < length (q_nodes q). a \<le> i \<longrightarrow>
               qn_next (q_nodes q ! i) = (if Suc i < length (q_nodes q) then Some (Suc i) else None)))"

lemma q_ok_empty: "q_ok q_empty" "q_items q_empty = []"
  by (simp_all add: q_ok_def q_empty_def q_items_def)

lemma q_offer_law:
  assumes "q_ok q"
  shows "\<exists>q'. q_offer mem m q = Some (if mem then 0 else - 1, q') \<and> q_ok q'
    \<and> q_items q' = (if mem then q_items q @ [m] else q_items q)"
proof (cases "mem \<and> \<not> q_is_empty q")
  case False
  with assms show ?thesis
    by (auto simp: q_offer_def q_ok_def q_items_def q_is_empty_def Let_def less_Suc_eq)
next
  case True
  then obtain a where a: "q_first q = Some a" by (auto simp: q_is_empty_def)
  let ?n = "length (q_nodes q)"
  let ?new = "\<lparr>qn_msg = m, qn_next = None\<rparr>"
  let ?nodes = "q_nodes q @ [?new]"
  have I: "a < ?n" "q_last q = Some (?n - 1)"
    "\<forall>i < ?n. a \<le> i \<longrightarrow> qn_next (q_nodes q ! i) = (if Suc i < ?n then Some (Suc i) else None)"
    using assms a by (auto simp: q_ok_def)
  let ?linked = "?nodes[?n - 1 := (q_nodes q ! (?n - 1))\<lparr>qn_next := Some ?n\<rparr>]"
  let ?q = "q\<lparr>q_nodes := ?linked, q_last := Some ?n\<rparr>"
  have run: "q_offer mem m q = Some (0, ?q)"
    using True I by (simp add: q_offer_def nth_append Let_def)
  have "map qn_msg ?linked = map qn_msg (q_nodes q) @ [m]"
    using I(1) by (intro nth_equalityI) (auto simp: nth_list_update nth_append)
  then have "map qn_msg (drop a ?linked) = map qn_msg (drop a (q_nodes q)) @ [m]"
    using I(1) by (simp add: drop_map [symmetric])
  then have items: "q_items ?q = q_items q @ [m]" using a by (simp add: q_items_def)
  have "qn_next (?linked ! i) = (if Suc i < length ?linked then Some (Suc i) else None)"
    if "i < length ?linked" "a \<le> i" for i
    using that I(1,3) by (cases "Suc i < ?n"; cases "Suc i = ?n") (auto simp: nth_list_update nth_append)
  then have "q_ok ?q" using a I(1) by (simp add: q_ok_def)
  with run items True show ?thesis by auto
qed

lemma q_poll_law:
  assumes "q_ok q"
  shows "\<exists>q'. q_poll q = Some (if q_items q = [] then None else Some (hd (q_items q)), q') \<and> q_ok q'
    \<and> q_items q' = tl (q_items q)"
proof (cases "q_first q")
  case None
  with assms show ?thesis by (simp add: q_poll_def q_is_empty_def q_items_def)
next
  case (Some a)
  let ?n = "length (q_nodes q)"
  have I: "a < ?n" "q_last q = Some (?n - 1)"
    "\<forall>i < ?n. a \<le> i \<longrightarrow> qn_next (q_nodes q ! i) = (if Suc i < ?n then Some (Suc i) else None)"
    using assms Some by (auto simp: q_ok_def)
  have d: "drop a (q_nodes q) = q_nodes q ! a # drop (Suc a) (q_nodes q)"
    using I(1) by (simp add: Cons_nth_drop_Suc)
  show ?thesis
  proof (cases "Suc a = ?n")
    case True
    with Some I d show ?thesis
      by (auto simp: q_poll_def q_is_empty_def q_items_def q_ok_def)
  next
    case False
    with Some I d show ?thesis
      by (auto simp: q_poll_def q_is_empty_def q_items_def q_ok_def)
  qed
qed

interpretation mq: fifo_queue q_offer q_poll q_items q_ok
  by unfold_locales (rule q_offer_law q_poll_law; assumption)+

section \<open>Properties\<close>

text \<open>C29
  The linked queue of messages is a first-in first-out queue: any sequence of offers, some of which
  may fail for want of memory, and polls gives the answers the list of the messages offered gives,
  and no step follows a null or dangling pointer.\<close>

theorem msg_queue_refines_list:
  assumes "q_ok q"
  shows "\<exists>q'. queue_run q_offer q_poll ops q = Some (fst (list_run ops (q_items q)), q') \<and> q_ok q'
    \<and> q_items q' = snd (list_run ops (q_items q))"
  using assms by (rule mq.refines_list)

theorem msg_queue_refines_list_witness:
  "\<exists>q'. queue_run q_offer q_poll [Offer True (1 :: nat), Offer False 2, Offer True 3, Poll, Poll, Poll] q_empty =
      Some ([Some 1, Some 3, None], q') \<and> q_ok q' \<and> q_items q' = []"
  using msg_queue_refines_list [OF q_ok_empty(1), of "[Offer True (1 :: nat), Offer False 2, Offer True 3, Poll, Poll, Poll]"]
  by (simp add: q_ok_empty)

end
