(* ===== verification/Config.thy ===== *)
theory Config
  imports Prelude
begin

text \<open>
  \<open>proxy_http/src/config/config.c\<close>: the table of named configurations and the reader of the
  configuration file. A name is kept in an array of \<open>MAX_NAME + 1\<close> bytes, filled by
  \<open>strncpy\<close>; a value is the block its pointer points to. The blocks of the table are allocated
  with unchecked \<open>malloc\<close>s, which are taken to succeed. The table is a store with the contract
  \<open>config_store\<close>.
\<close>

section \<open>The table\<close>

definition MAX_NAME :: nat where "MAX_NAME = 20"

definition MAX_CONFIG :: nat where "MAX_CONFIG = 100"

definition PREALLOC_QUANTITY :: nat where "PREALLOC_QUANTITY = 10"

record config =
  cf_name :: "byte list"
  cf_value :: "byte list"

text \<open>
  \<open>strncpy(dst, src, n)\<close> into an array of \<open>n\<close> bytes, and \<open>strncmp(a, b, n) == 0\<close>, for \<open>a\<close> a
  string with its NUL and \<open>b\<close> such an array.
\<close>

definition strncpy :: "nat \<Rightarrow> byte list \<Rightarrow> byte list" where
  "strncpy n src = take n (src @ replicate n 0)"

fun strncmp_eq :: "nat \<Rightarrow> byte list \<Rightarrow> byte list \<Rightarrow> bool" where
  "strncmp_eq (Suc n) (a # as) (b # bs) \<longleftrightarrow> a = b \<and> (a = 0 \<or> strncmp_eq n as bs)"
| "strncmp_eq _ _ _ \<longleftrightarrow> True"

text \<open>The first \<open>configurations\<close> with the name: the loop of \<open>config_create\<close> and \<open>config_get\<close>.\<close>

fun config_find :: "byte list \<Rightarrow> config list \<Rightarrow> nat option" where
  "config_find name [] = None"
| "config_find name (c # cs) =
     (if strncmp_eq (MAX_NAME + 1) (name @ [0]) (cf_name c) then Some 0
      else map_option Suc (config_find name cs))"

definition config_create :: "byte list \<Rightarrow> byte list \<Rightarrow> config list \<Rightarrow> int \<times> config list" where
  "config_create name val cs =
     (case config_find name cs of
        Some i \<Rightarrow> (0, cs[i := (cs ! i)\<lparr>cf_value := val @ [0]\<rparr>])
      | None \<Rightarrow>
          if length cs + 1 > MAX_CONFIG then (- 1, cs)
          else (0, cs @ [\<lparr>cf_name = strncpy (MAX_NAME + 1) name, cf_value = val @ [0]\<rparr>]))"

text \<open>An index below 0 is out of the table.\<close>

definition config_set_from_index :: "int \<Rightarrow> byte list \<Rightarrow> config list \<Rightarrow> (int \<times> config list) option" where
  "config_set_from_index index block cs =
     (if index \<ge> int (length cs) then Some (- 1, cs)
      else if index < 0 then None
      else Some (0, cs[nat index := (cs ! nat index)\<lparr>cf_value := block\<rparr>]))"

definition config_get :: "byte list \<Rightarrow> config list \<Rightarrow> byte list option" where
  "config_get name cs = map_option (\<lambda>i. cf_value (cs ! i)) (config_find name cs)"

definition config_get_from_index :: "int \<Rightarrow> config list \<Rightarrow> byte list option option" where
  "config_get_from_index index cs =
     (if index \<ge> int (length cs) then Some None
      else if index < 0 then None
      else Some (Some (cf_value (cs ! nat index))))"

definition config_get_name :: "byte \<Rightarrow> config list \<Rightarrow> byte list option" where
  "config_get_name number cs =
     (if unat number \<ge> length cs then None else Some (cf_name (cs ! unat number)))"

definition config_get_size :: "config list \<Rightarrow> int" where
  "config_get_size cs = int (length cs)"

section \<open>The configuration file\<close>

datatype config_reader = START | NAME | EQUAL | VALUE

definition config_char :: "byte \<Rightarrow> bool" where
  "config_char c \<longleftrightarrow> isalpha c \<or> isdigit c \<or> c = 45 \<or> c = 95"

record config_file =
  rd_state :: config_reader
  rd_current :: nat
  rd_name_buf :: "byte list"
  rd_value_buf :: "byte list option"
  rd_table :: "config list"

text \<open>
  \<open>realloc\<close>, with 0 for the new bytes, which are written before they are read; \<open>realloc(NULL, n)\<close>
  allocates.
\<close>

definition realloc_buf :: "byte list option \<Rightarrow> nat \<Rightarrow> byte list option" where
  "realloc_buf v n = (case v of None \<Rightarrow> Some (replicate n 0) | Some b \<Rightarrow> Some (take n (b @ replicate n 0)))"

text \<open>\<open>value_buf[current] = c\<close>, after growing the block by ten bytes at every tenth one.\<close>

definition put_value :: "byte \<Rightarrow> config_file \<Rightarrow> config_file option" where
  "put_value c f =
     (let v = (if rd_current f mod PREALLOC_QUANTITY = 0
               then realloc_buf (rd_value_buf f) (rd_current f + PREALLOC_QUANTITY) else rd_value_buf f)
      in do { b \<leftarrow> v; b' \<leftarrow> store b (rd_current f) c; Some (f\<lparr>rd_value_buf := Some b'\<rparr>) })"

definition put_name :: "byte \<Rightarrow> config_file \<Rightarrow> config_file option" where
  "put_name c f = do { b \<leftarrow> store (rd_name_buf f) (rd_current f) c; Some (f\<lparr>rd_name_buf := b\<rparr>) }"

definition bump :: "config_file \<Rightarrow> config_file" where
  "bump f = f\<lparr>rd_current := rd_current f + 1\<rparr>"

text \<open>The end of a value: the entry of the two buffers.\<close>

definition finish_value :: "config_file \<Rightarrow> config_file option" where
  "finish_value f =
     do {
       f' \<leftarrow> put_value 0 f;
       v \<leftarrow> rd_value_buf f';
       Some (f'\<lparr>rd_table := snd (config_create (c_string (rd_name_buf f')) (c_string v) (rd_table f'))\<rparr>)
     }"

text \<open>One character: the error return is \<open>Inl\<close>.\<close>

definition config_step :: "byte \<Rightarrow> config_file \<Rightarrow> (config_file + config_file) option" where
  "config_step c f =
     (case rd_state f of
        START \<Rightarrow>
          if config_char c then do { f' \<leftarrow> put_name c f; Some (Inr ((bump f')\<lparr>rd_state := NAME\<rparr>)) }
          else Some (Inl f)
      | NAME \<Rightarrow>
          if config_char c then do { f' \<leftarrow> put_name c f; Some (Inr (bump f')) }
          else if c = 61 then do { f' \<leftarrow> put_name 0 f; Some (Inr (f'\<lparr>rd_state := EQUAL\<rparr>)) }
          else Some (Inl f)
      | EQUAL \<Rightarrow>
          if config_char c then
            do { f' \<leftarrow> put_value c (f\<lparr>rd_current := 0\<rparr>); Some (Inr ((bump f')\<lparr>rd_state := VALUE\<rparr>)) }
          else Some (Inl f)
      | VALUE \<Rightarrow>
          if config_char c then do { f' \<leftarrow> put_value c f; Some (Inr (bump f')) }
          else if c = 10 then
            do { f' \<leftarrow> finish_value f; Some (Inr (f'\<lparr>rd_current := 0, rd_value_buf := None, rd_state := START\<rparr>)) }
          else Some (Inl f))"

fun config_read :: "byte list \<Rightarrow> config_file \<Rightarrow> (int \<times> config list) option" where
  "config_read [] f =
     (case rd_value_buf f of
        None \<Rightarrow> Some (0, rd_table f)
      | Some _ \<Rightarrow> do { f' \<leftarrow> finish_value f; Some (0, rd_table f') })"
| "config_read (c # cs) f =
     do {
       r \<leftarrow> config_step c f;
       case r of Inl f' \<Rightarrow> Some (- 1, rd_table f') | Inr f' \<Rightarrow> config_read cs f'
     }"

text \<open>
  The file is its contents, none if it cannot be opened (\<open>fgetc\<close> is then called on \<open>NULL\<close>);
  \<open>name_buf\<close> is on the stack, its first contents are \<open>junk\<close>.
\<close>

definition config_initialize_from_file ::
  "byte list \<Rightarrow> byte list option \<Rightarrow> config list \<Rightarrow> (int \<times> config list) option" where
  "config_initialize_from_file junk file cs =
     do {
       text \<leftarrow> file;
       config_read text \<lparr>rd_state = START, rd_current = 0, rd_name_buf = take (MAX_NAME + 1) (junk @ replicate 21 0),
         rd_value_buf = None, rd_table = cs\<rparr>
     }"

section \<open>The contract of a store of configurations\<close>

primrec puts :: "('k \<Rightarrow> 'x \<Rightarrow> 's \<Rightarrow> int \<times> 's) \<Rightarrow> ('k \<times> 'x) list \<Rightarrow> 's \<Rightarrow> bool \<times> 's" where
  "puts put [] s = (True, s)"
| "puts put (kv # kvs) s =
     (let (r, s') = put (fst kv) (snd kv) s; (b, s'') = puts put kvs s' in (r = 0 \<and> b, s''))"

lemma find_append: "find P (xs @ ys) = (case find P xs of None \<Rightarrow> find P ys | Some x \<Rightarrow> Some x)"
  by (induction xs) simp_all

locale config_store =
  fixes put :: "'k \<Rightarrow> 'x \<Rightarrow> 's \<Rightarrow> int \<times> 's"
    and get :: "'k \<Rightarrow> 's \<Rightarrow> 'v option"
    and block :: "'x \<Rightarrow> 'v"
    and same :: "'k \<Rightarrow> 'k \<Rightarrow> bool"
    and ok :: "'s \<Rightarrow> bool"
    and name_ok :: "'k \<Rightarrow> bool"
  assumes put_ok: "ok s \<Longrightarrow> name_ok k \<Longrightarrow> ok (snd (put k v s))"
    and put_get: "ok s \<Longrightarrow> name_ok k \<Longrightarrow> name_ok k' \<Longrightarrow> fst (put k v s) = 0 \<Longrightarrow>
        get k' (snd (put k v s)) = (if same k k' then Some (block v) else get k' s)"
    and put_full: "fst (put k v s) \<noteq> 0 \<Longrightarrow> snd (put k v s) = s"
begin

text \<open>After any number of puts the last one for a name decides.\<close>

lemma puts_get:
  "ok s \<Longrightarrow> \<forall>(k, v) \<in> set kvs. name_ok k \<Longrightarrow> name_ok k' \<Longrightarrow> fst (puts put kvs s) \<Longrightarrow>
     get k' (snd (puts put kvs s)) =
       (case find (\<lambda>(k, v). same k k') (rev kvs) of Some (k, v) \<Rightarrow> Some (block v) | None \<Rightarrow> get k' s)"
proof (induction kvs arbitrary: s)
  case (Cons kv kvs)
  obtain k v where kv: "kv = (k, v)" by (cases kv)
  obtain r s1 where p: "put k v s = (r, s1)" by (cases "put k v s")
  obtain b s2 where q: "puts put kvs s1 = (b, s2)" by (cases "puts put kvs s1")
  have r: "r = 0" "b" and n: "name_ok k" "\<forall>(k, v) \<in> set kvs. name_ok k" using Cons.prems kv p q by auto
  have s1: "ok s1" "get k' s1 = (if same k k' then Some (block v) else get k' s)"
    using put_ok [OF Cons.prems(1) n(1), of v] put_get [OF Cons.prems(1) n(1) Cons.prems(3), of v] p r by auto
  from Cons.IH [OF s1(1) n(2) Cons.prems(3)] q r
  have "get k' s2 = (case find (\<lambda>(k, v). same k k') (rev kvs) of Some (k, v) \<Rightarrow> Some (block v) | None \<Rightarrow> get k' s1)"
    by simp
  with kv p q s1(2) show ?case by (simp add: find_append split: option.splits)
qed simp

lemma puts_ok: "ok s \<Longrightarrow> \<forall>(k, v) \<in> set kvs. name_ok k \<Longrightarrow> ok (snd (puts put kvs s))"
proof (induction kvs arbitrary: s)
  case (Cons kv kvs)
  then show ?case using put_ok [of s "fst kv" "snd kv"] by (auto simp: Let_def split_beta)
qed simp

end

section \<open>The table keeps it\<close>

abbreviation cf_key :: "byte list \<Rightarrow> byte list" where
  "cf_key name \<equiv> strncpy (MAX_NAME + 1) name"

lemma strncpy_simps [simp]:
  "strncpy 0 n = []" "strncpy (Suc k) [] = 0 # strncpy k []" "strncpy (Suc k) (x # xs) = x # strncpy k xs"
  by (simp_all add: strncpy_def take_Cons' flip: replicate_append_same)

lemma strncmp_strncpy:
  "0 \<notin> set n \<Longrightarrow> 0 \<notin> set m \<Longrightarrow> strncmp_eq k (n @ [0]) (strncpy k m) \<longleftrightarrow> strncpy k n = strncpy k m"
proof (induction k arbitrary: n m)
  case (Suc k)
  then show ?case by (cases n; cases m) auto
qed simp

definition c_name :: "byte list \<Rightarrow> bool" where
  "c_name n \<longleftrightarrow> 0 \<notin> set n"

definition table_ok :: "config list \<Rightarrow> bool" where
  "table_ok cs \<longleftrightarrow> length cs \<le> MAX_CONFIG \<and> distinct (map cf_name cs) \<and> (\<forall>c \<in> set cs. \<exists>m. c_name m \<and> cf_name c = cf_key m)"

lemma config_find_Some: "c_name n \<Longrightarrow> \<forall>c \<in> set cs. \<exists>m. c_name m \<and> cf_name c = cf_key m \<Longrightarrow>
    config_find n cs = Some i \<Longrightarrow> i < length cs \<and> cf_name (cs ! i) = cf_key n"
proof (induction cs arbitrary: i)
  case (Cons c cs)
  then show ?case by (auto simp: c_name_def strncmp_strncpy split: if_splits)
qed simp

lemma config_find_None: "c_name n \<Longrightarrow> \<forall>c \<in> set cs. \<exists>m. c_name m \<and> cf_name c = cf_key m \<Longrightarrow>
    config_find n cs = None \<longleftrightarrow> cf_key n \<notin> cf_name ` set cs"
  by (induction cs) (auto simp: c_name_def strncmp_strncpy)

lemma config_get_iff:
  assumes "table_ok cs" "c_name n"
  shows "config_get n cs = map_of (map (\<lambda>c. (cf_name c, cf_value c)) cs) (cf_key n)"
proof (cases "config_find n cs")
  case None
  then have "cf_key n \<notin> cf_name ` set cs"
    using config_find_None [of n cs] assms by (simp add: table_ok_def)
  then have "map_of (map (\<lambda>c. (cf_name c, cf_value c)) cs) (cf_key n) = None"
    by (simp add: map_of_eq_None_iff image_image)
  with None show ?thesis by (simp add: config_get_def)
next
  case (Some i)
  then have i: "i < length cs" "cf_name (cs ! i) = cf_key n"
    using config_find_Some [of n cs i] assms by (simp_all add: table_ok_def)
  have "map_of (map (\<lambda>c. (cf_name c, cf_value c)) cs) (cf_name (cs ! i)) = Some (cf_value (cs ! i))"
    using i(1) assms(1) by (intro map_of_is_SomeI) (auto simp: table_ok_def comp_def)
  with Some i show ?thesis by (simp add: config_get_def)
qed

lemma config_create_table_ok:
  assumes "table_ok cs" "c_name n"
  shows "table_ok (snd (config_create n v cs))"
proof (cases "config_find n cs")
  case None
  then have "cf_key n \<notin> cf_name ` set cs"
    using config_find_None [of n cs] assms by (simp add: table_ok_def)
  with None assms show ?thesis by (auto simp: config_create_def table_ok_def)
next
  case (Some i)
  then have i: "i < length cs" using config_find_Some [of n cs i] assms by (simp add: table_ok_def)
  have "map cf_name (cs[i := (cs ! i)\<lparr>cf_value := v @ [0]\<rparr>]) = map cf_name cs"
    using i by (intro nth_equalityI) (auto simp: nth_list_update)
  moreover have "\<exists>c' \<in> set cs. cf_name c = cf_name c'"
    if "c \<in> set (cs[i := (cs ! i)\<lparr>cf_value := v @ [0]\<rparr>])" for c
  proof -
    from that have "c = (cs ! i)\<lparr>cf_value := v @ [0]\<rparr> \<or> c \<in> set cs"
      using set_update_subset_insert by fastforce
    with i show ?thesis by (auto intro: bexI [of _ "cs ! i"])
  qed
  ultimately show ?thesis using Some assms(1) by (force simp: config_create_def table_ok_def)
qed

lemma config_create_get:
  assumes "table_ok cs" "c_name n" "c_name n'" "fst (config_create n v cs) = 0"
  shows "config_get n' (snd (config_create n v cs)) = (if cf_key n = cf_key n' then Some (v @ [0]) else config_get n' cs)"
proof -
  note ok' = config_create_table_ok [OF assms(1,2), of v]
  show ?thesis
  proof (cases "config_find n cs")
    case None
    then have new: "cf_key n \<notin> cf_name ` set cs"
      using config_find_None [of n cs] assms by (simp add: table_ok_def)
    then have "map_of (map (\<lambda>c. (cf_name c, cf_value c)) cs) (cf_key n) = None"
      by (simp add: map_of_eq_None_iff image_image)
    with None assms(4) show ?thesis
      unfolding config_get_iff [OF ok' assms(3)] config_get_iff [OF assms(1,3)]
      by (auto simp: config_create_def map_add_def split: if_splits option.splits)
  next
    case (Some i)
    then have i: "i < length cs" "cf_name (cs ! i) = cf_key n"
      using config_find_Some [of n cs i] assms by (simp_all add: table_ok_def)
    let ?kv = "\<lambda>c. (cf_name c, cf_value c)"
    let ?cs = "cs[i := (cs ! i)\<lparr>cf_value := v @ [0]\<rparr>]"
    have d: "distinct (map cf_name cs)" using assms(1) by (simp add: table_ok_def)
    have "map_of (map ?kv ?cs) = (map_of (map ?kv cs))(cf_key n \<mapsto> v @ [0])"
    proof -
      have "map ?kv ?cs = (map ?kv cs)[i := (cf_key n, v @ [0])]" using i by (simp add: map_update)
      also have "map_of \<dots> = (map_of (map ?kv cs))(cf_key n \<mapsto> v @ [0])"
      proof -
        have split: "map ?kv cs = take i (map ?kv cs) @ (cf_key n, cf_value (cs ! i)) # drop (Suc i) (map ?kv cs)"
          using i id_take_nth_drop [of i "map ?kv cs"] by simp
        have "cf_key n \<notin> fst ` set (take i (map ?kv cs))"
        proof
          assume "cf_key n \<in> fst ` set (take i (map ?kv cs))"
          then obtain j where "j < i" "cf_name (cs ! j) = cf_key n" using i(1) by (auto simp: in_set_conv_nth)
          with i nth_eq_iff_index_eq [OF d, of i j] show False by simp
        qed
        then have "map_of (take i (map ?kv cs)) (cf_key n) = None" by (simp add: map_of_eq_None_iff)
        then show ?thesis
          using i(1) by (subst (2) split) (auto simp: upd_conv_take_nth_drop map_add_def fun_eq_iff split: option.splits)
      qed
      finally show ?thesis .
    qed
    with Some show ?thesis
      unfolding config_get_iff [OF ok' assms(3)] config_get_iff [OF assms(1,3)]
      by (auto simp: config_create_def)
  qed
qed

interpretation cfg: config_store config_create config_get "\<lambda>v. v @ [0]" "\<lambda>n n'. cf_key n = cf_key n'" table_ok c_name
proof
  show "table_ok (snd (config_create n v cs))" if "table_ok cs" "c_name n" for cs n v
    using that by (rule config_create_table_ok)
  show "config_get n' (snd (config_create n v cs)) = (if cf_key n = cf_key n' then Some (v @ [0]) else config_get n' cs)"
    if "table_ok cs" "c_name n" "c_name n'" "fst (config_create n v cs) = 0" for cs n n' v
    using that by (rule config_create_get)
  show "snd (config_create n v cs) = cs" if "fst (config_create n v cs) \<noteq> 0" for cs n v
    using that by (simp add: config_create_def split: option.splits if_splits)
qed

section \<open>Reading a file\<close>

definition config_line :: "byte list \<times> byte list \<Rightarrow> byte list" where
  "config_line kv = fst kv @ [61] @ snd kv @ [10]"

definition config_lines :: "(byte list \<times> byte list) list \<Rightarrow> byte list" where
  "config_lines kvs = concat (map config_line kvs)"

text \<open>A name fits its array, a value has a character.\<close>

definition config_entry :: "byte list \<times> byte list \<Rightarrow> bool" where
  "config_entry kv \<longleftrightarrow> list_all config_char (fst kv) \<and> list_all config_char (snd kv)
     \<and> fst kv \<noteq> [] \<and> length (fst kv) \<le> MAX_NAME \<and> snd kv \<noteq> []"

lemma config_char_simps [simp]: "\<not> config_char 61" "\<not> config_char 10" "\<not> config_char 0"
  by (simp_all add: config_char_def isalpha_def isdigit_def)

lemma config_chars_no_NUL: "list_all config_char xs \<Longrightarrow> 0 \<notin> set xs"
  by (auto simp: list_all_iff)

lemma c_string_upto: "0 \<notin> set xs \<Longrightarrow> c_string (xs @ 0 # ys) = xs"
  unfolding c_string_def by (subst takeWhile_append2) auto

text \<open>The rest of a name.\<close>

lemma read_name:
  assumes "list_all config_char ns" "rd_state f = NAME" "rd_current f + length ns \<le> length (rd_name_buf f)"
  shows "config_read (ns @ rest) f =
    config_read rest (f\<lparr>rd_current := rd_current f + length ns, rd_name_buf := overlay (rd_current f) ns (rd_name_buf f)\<rparr>)"
  using assms
proof (induction ns arbitrary: f)
  case (Cons c ns)
  then show ?case
    by (simp add: config_step_def put_name_def bump_def overlay_Suc)
qed simp

lemma read_name_overflows:
  assumes "list_all config_char ns" "rd_state f = NAME" "rd_current f \<le> length (rd_name_buf f)"
    "rd_current f + length ns \<ge> length (rd_name_buf f)"
  shows "config_read (ns @ 61 # rest) f = None"
  using assms
proof (induction ns arbitrary: f)
  case Nil
  then show ?case by (simp add: config_step_def put_name_def store_def)
next
  case (Cons c ns)
  show ?case
  proof (cases "rd_current f < length (rd_name_buf f)")
    case True
    with Cons show ?thesis by (simp add: config_step_def put_name_def bump_def)
  next
    case False
    with Cons.prems show ?thesis by (simp add: config_step_def put_name_def store_def)
  qed
qed

text \<open>The block of a value: the characters so far, and room up to the next multiple of ten.\<close>

definition value_block :: "byte list \<Rightarrow> byte list option \<Rightarrow> bool" where
  "value_block vs v \<longleftrightarrow>
     (case v of None \<Rightarrow> vs = []
      | Some b \<Rightarrow> length vs \<le> length b \<and> take (length vs) b = vs \<and> length b mod PREALLOC_QUANTITY = 0)"

lemma put_value_block:
  assumes "value_block vs (rd_value_buf f)" "rd_current f = length vs"
  shows "\<exists>b. put_value c f = Some (f\<lparr>rd_value_buf := Some b\<rparr>) \<and> value_block (vs @ [c]) (Some b)"
proof -
  let ?n = "length vs"
  have store_ok: "\<exists>b'. store b ?n c = Some b' \<and> value_block (vs @ [c]) (Some b')"
    if "?n < length b" "take ?n b = vs" "length b mod 10 = 0" for b
    using that by (auto simp: value_block_def PREALLOC_QUANTITY_def take_Suc_conv_app_nth)
  show ?thesis
  proof (cases "?n mod 10 = 0")
    case True
    obtain b where b: "realloc_buf (rd_value_buf f) (?n + 10) = Some b" "length b = ?n + 10" "take ?n b = vs"
      using assms True by (auto simp: realloc_buf_def value_block_def split: option.splits)
    moreover from b True have "length b mod 10 = 0" by simp
    ultimately show ?thesis
      using store_ok [of b] assms(2) True by (auto simp: put_value_def PREALLOC_QUANTITY_def)
  next
    case False
    then obtain b where b: "rd_value_buf f = Some b" "?n \<le> length b" "take ?n b = vs" "length b mod 10 = 0"
      using assms by (auto simp: value_block_def PREALLOC_QUANTITY_def split: option.splits)
    with False have "?n < length b" by (metis le_neq_implies_less)
    with b store_ok [of b] assms(2) False show ?thesis by (auto simp: put_value_def PREALLOC_QUANTITY_def)
  qed
qed

lemma read_value:
  assumes "list_all config_char ws" "rd_state f = VALUE" "value_block vs (rd_value_buf f)" "rd_current f = length vs"
  shows "\<exists>v. config_read (ws @ rest) f = config_read rest (f\<lparr>rd_current := length vs + length ws, rd_value_buf := v\<rparr>)
    \<and> value_block (vs @ ws) v"
  using assms
proof (induction ws arbitrary: f vs)
  case Nil
  then show ?case by (cases f) (auto intro!: exI [of _ "rd_value_buf f"])
next
  case (Cons c ws)
  obtain b where b: "put_value c f = Some (f\<lparr>rd_value_buf := Some b\<rparr>)" "value_block (vs @ [c]) (Some b)"
    using put_value_block [of vs f c] Cons.prems by auto
  from Cons.IH [of "(f\<lparr>rd_value_buf := Some b\<rparr>)\<lparr>rd_current := Suc (length vs)\<rparr>" "vs @ [c]"] Cons.prems b
  show ?case by (auto simp: config_step_def bump_def)
qed

lemma finish_value_creates:
  assumes "value_block vs (rd_value_buf f)" "rd_current f = length vs" "0 \<notin> set vs"
  shows "\<exists>v. finish_value f = Some (f\<lparr>rd_value_buf := v,
      rd_table := snd (config_create (c_string (rd_name_buf f)) vs (rd_table f))\<rparr>)"
proof -
  obtain b where b: "put_value 0 f = Some (f\<lparr>rd_value_buf := Some b\<rparr>)" "value_block (vs @ [0]) (Some b)"
    using put_value_block [of vs f 0] assms by auto
  then have "b = vs @ 0 # drop (Suc (length vs)) b"
    using append_take_drop_id [of "Suc (length vs)" b] by (simp add: value_block_def)
  then have "c_string b = vs" using c_string_upto [OF assms(3)] by metis
  with b show ?thesis by (auto simp: finish_value_def)
qed

text \<open>A line up to its newline, and after it.\<close>

lemma read_entry:
  assumes e: "config_entry kv" and f: "rd_state f = START" "rd_current f = 0" "rd_value_buf f = None"
    "length (rd_name_buf f) = MAX_NAME + 1"
  shows "\<exists>f'. config_read (fst kv @ 61 # snd kv @ rest) f = config_read rest f' \<and> rd_state f' = VALUE
    \<and> value_block (snd kv) (rd_value_buf f') \<and> rd_current f' = length (snd kv) \<and> c_string (rd_name_buf f') = fst kv
    \<and> length (rd_name_buf f') = MAX_NAME + 1 \<and> rd_table f' = rd_table f \<and> rd_value_buf f' \<noteq> None"
proof -
  obtain n ns v vs where kv: "fst kv = n # ns" "snd kv = v # vs"
    using e by (cases "fst kv"; cases "snd kv") (auto simp: config_entry_def)
  have c: "config_char n" "list_all config_char ns" "config_char v" "list_all config_char vs" "length ns < 20"
    using e kv by (auto simp: config_entry_def MAX_NAME_def)
  let ?h = "overlay 0 (n # ns) (rd_name_buf f)"
  let ?h' = "overlay 0 ((n # ns) @ [0]) (rd_name_buf f)"
  let ?f = "f\<lparr>rd_current := Suc (length ns), rd_name_buf := ?h', rd_state := EQUAL\<rparr>"
  have l: "length ?h = 21" using f c by (simp add: MAX_NAME_def)
  have "config_read (fst kv @ 61 # snd kv @ rest) f =
      config_read (ns @ 61 # snd kv @ rest) (f\<lparr>rd_name_buf := (rd_name_buf f)[0 := n], rd_current := 1, rd_state := NAME\<rparr>)"
    using f c by (simp add: kv config_step_def put_name_def bump_def MAX_NAME_def)
  also have "\<dots> = config_read (61 # snd kv @ rest)
      (f\<lparr>rd_state := NAME, rd_current := Suc (length ns), rd_name_buf := ?h\<rparr>)"
    using f c overlay_Suc [of 0 "rd_name_buf f" ns n] by (subst read_name) (auto simp: MAX_NAME_def)
  also have "\<dots> = config_read (snd kv @ rest) ?f"
    using f c l overlay_snoc [of 0 "n # ns" "rd_name_buf f" 0]
    by (simp add: config_step_def put_name_def MAX_NAME_def)
  finally have A: "config_read (fst kv @ 61 # snd kv @ rest) f = config_read (snd kv @ rest) ?f" .
  obtain b where b: "put_value v (?f\<lparr>rd_current := 0\<rparr>) = Some ((?f\<lparr>rd_current := 0\<rparr>)\<lparr>rd_value_buf := Some b\<rparr>)"
    "value_block [v] (Some b)"
    using put_value_block [of "[]" "?f\<lparr>rd_current := 0\<rparr>" v] f by (auto simp: value_block_def)
  let ?g = "f\<lparr>rd_name_buf := ?h', rd_value_buf := Some b, rd_current := 1, rd_state := VALUE\<rparr>"
  have B: "config_read (snd kv @ rest) ?f = config_read (vs @ rest) ?g"
    using b c by (simp add: kv config_step_def bump_def)
  obtain w where w: "config_read (vs @ rest) ?g = config_read rest (?g\<lparr>rd_current := length [v] + length vs, rd_value_buf := w\<rparr>)"
    "value_block ([v] @ vs) w"
    using read_value [of vs ?g "[v]" rest] b c by auto
  have "c_string ?h' = n # ns"
    using c e kv config_chars_no_NUL [of "n # ns"] by (simp add: overlay_def c_string_upto [of "n # ns", simplified])
  moreover have "length ?h' = 21" using f c by (subst length_overlay) (auto simp: MAX_NAME_def)
  moreover have "w \<noteq> None" using w(2) by (cases w) (auto simp: value_block_def)
  ultimately show ?thesis
    using A B w kv
    by (intro exI [of _ "?g\<lparr>rd_current := length [v] + length vs, rd_value_buf := w\<rparr>"]) (simp add: MAX_NAME_def)
qed

lemma read_lines:
  assumes "list_all config_entry kvs" "rd_state f = START" "rd_current f = 0" "rd_value_buf f = None"
    "length (rd_name_buf f) = MAX_NAME + 1"
  shows "\<exists>f'. config_read (config_lines kvs @ rest) f = config_read rest f' \<and> rd_state f' = START
    \<and> rd_current f' = 0 \<and> rd_value_buf f' = None \<and> length (rd_name_buf f') = MAX_NAME + 1
    \<and> rd_table f' = snd (puts config_create kvs (rd_table f))"
  using assms
proof (induction kvs arbitrary: f)
  case Nil
  then show ?case by (auto simp: config_lines_def)
next
  case (Cons kv kvs)
  obtain g where g: "config_read (fst kv @ 61 # snd kv @ 10 # config_lines kvs @ rest) f = config_read (10 # config_lines kvs @ rest) g"
    "rd_state g = VALUE" "value_block (snd kv) (rd_value_buf g)" "rd_current g = length (snd kv)"
    "c_string (rd_name_buf g) = fst kv" "length (rd_name_buf g) = MAX_NAME + 1" "rd_table g = rd_table f"
    using read_entry [of kv f "10 # config_lines kvs @ rest"] Cons.prems by auto
  have "0 \<notin> set (snd kv)" using Cons.prems(1) by (auto simp: config_entry_def config_chars_no_NUL)
  with g obtain v where v: "finish_value g = Some (g\<lparr>rd_value_buf := v, rd_table := snd (config_create (fst kv) (snd kv) (rd_table f))\<rparr>)"
    using finish_value_creates [of "snd kv" g] by auto
  let ?g = "g\<lparr>rd_table := snd (config_create (fst kv) (snd kv) (rd_table f)), rd_current := 0, rd_value_buf := None, rd_state := START\<rparr>"
  have "config_read (config_lines (kv # kvs) @ rest) f = config_read (config_lines kvs @ rest) ?g"
    using g v by (simp add: config_lines_def config_line_def config_step_def)
  moreover from Cons.IH [of ?g] Cons.prems g
  obtain f' where "config_read (config_lines kvs @ rest) ?g = config_read rest f'" "rd_state f' = START"
    "rd_current f' = 0" "rd_value_buf f' = None" "length (rd_name_buf f') = MAX_NAME + 1"
    "rd_table f' = snd (puts config_create kvs (rd_table ?g))" by auto
  ultimately show ?case by (intro exI [of _ f']) (simp add: split_beta Let_def)
qed

text \<open>The whole file, whose last line may lack its newline.\<close>

lemma puts_snoc: "snd (puts put (kvs @ [kv]) s) = snd (put (fst kv) (snd kv) (snd (puts put kvs s)))"
  by (induction kvs arbitrary: s) (simp_all add: split_beta Let_def)

lemma read_file:
  assumes "list_all config_entry kvs"
  shows "config_initialize_from_file junk (Some (if newline then config_lines kvs else butlast (config_lines kvs))) cs =
    Some (0, snd (puts config_create kvs cs))"
proof -
  let ?f = "\<lparr>rd_state = START, rd_current = 0, rd_name_buf = take (MAX_NAME + 1) (junk @ replicate 21 0),
     rd_value_buf = None, rd_table = cs\<rparr>"
  have l: "length (rd_name_buf ?f) = MAX_NAME + 1" by (simp add: MAX_NAME_def)
  show ?thesis
  proof (cases "newline \<or> kvs = []")
    case True
    with read_lines [OF assms _ _ _ l, of "[]"] show ?thesis
      by (auto simp: config_initialize_from_file_def config_lines_def)
  next
    case False
    then obtain ks kv where kvs: "kvs = ks @ [kv]" by (metis rev_exhaust)
    have e: "config_entry kv" "list_all config_entry ks" using assms kvs by simp_all
    obtain g where g: "config_read (config_lines ks @ fst kv @ 61 # snd kv) ?f = config_read (fst kv @ 61 # snd kv) g"
      "rd_state g = START" "rd_current g = 0" "rd_value_buf g = None" "length (rd_name_buf g) = MAX_NAME + 1"
      "rd_table g = snd (puts config_create ks cs)"
      using read_lines [OF e(2) _ _ _ l, of "fst kv @ 61 # snd kv"] by auto
    obtain h where h: "config_read (fst kv @ 61 # snd kv) g = config_read [] h" "value_block (snd kv) (rd_value_buf h)"
      "rd_current h = length (snd kv)" "c_string (rd_name_buf h) = fst kv" "rd_table h = rd_table g" "rd_value_buf h \<noteq> None"
      using read_entry [OF e(1) g(2-5), of "[]"] by auto
    have "0 \<notin> set (snd kv)" using e(1) by (auto simp: config_entry_def config_chars_no_NUL)
    with h obtain v where "finish_value h = Some (h\<lparr>rd_value_buf := v,
        rd_table := snd (config_create (fst kv) (snd kv) (rd_table g))\<rparr>)"
      using finish_value_creates [of "snd kv" h] by auto
    with g h False have "config_read (config_lines ks @ fst kv @ 61 # snd kv) ?f = Some (0, snd (puts config_create kvs cs))"
      by (auto simp: kvs puts_snoc)
    moreover have "butlast (config_lines kvs) = config_lines ks @ fst kv @ 61 # snd kv"
      by (simp add: kvs config_lines_def config_line_def butlast_append)
    ultimately show ?thesis using False by (simp add: config_initialize_from_file_def)
  qed
qed

text \<open>Names of at most 20 characters are their keys, and a table with room takes every entry.\<close>

lemma key_inj: "c_name n \<Longrightarrow> c_name m \<Longrightarrow> length n \<le> MAX_NAME \<Longrightarrow> length m \<le> MAX_NAME \<Longrightarrow> cf_key n = cf_key m \<longleftrightarrow> n = m"
proof -
  assume "c_name n" "c_name m" and l: "length n \<le> MAX_NAME" "length m \<le> MAX_NAME"
  have k: "cf_key x = x @ 0 # replicate (MAX_NAME - length x) 0" if "length x \<le> MAX_NAME" for x
  proof -
    have "MAX_NAME + 1 - length x = Suc (MAX_NAME - length x)" using that by simp
    then show ?thesis using that by (simp add: strncpy_def flip: replicate_Suc)
  qed
  have "c_string (cf_key x) = x" if "c_name x" "length x \<le> MAX_NAME" for x
    unfolding k [OF that(2)] using that(1) by (simp add: c_string_upto c_name_def)
  then show ?thesis using \<open>c_name n\<close> \<open>c_name m\<close> l by metis
qed

lemma config_create_room:
  assumes "length cs < MAX_CONFIG"
  shows "fst (config_create n v cs) = 0" "length (snd (config_create n v cs)) \<le> Suc (length cs)"
  using assms by (simp_all add: config_create_def split: option.splits)

lemma puts_room: "length cs + length kvs \<le> MAX_CONFIG \<Longrightarrow> fst (puts config_create kvs cs)"
proof (induction kvs arbitrary: cs)
  case (Cons kv kvs)
  then have "fst (puts config_create kvs (snd (config_create (fst kv) (snd kv) cs)))"
    using config_create_room(2) [of cs "fst kv" "snd kv"] by simp
  then show ?case using config_create_room(1) [of cs "fst kv" "snd kv"] Cons.prems by (simp add: split_beta Let_def)
qed simp

lemma config_entry_name: "config_entry kv \<Longrightarrow> c_name (fst kv) \<and> length (fst kv) \<le> MAX_NAME"
  by (simp add: config_entry_def c_name_def config_chars_no_NUL)

lemma find_cong_set: "(\<And>x. x \<in> set xs \<Longrightarrow> P x = Q x) \<Longrightarrow> find P xs = find Q xs"
  by (induction xs) auto

section \<open>Properties\<close>

text \<open>C31
  A configuration file is read as it is meant. For lines of a name of at most 20 characters, an equals sign and
  a value, the last of which may lack its newline, and a table with room for them, every access of the reader
  stays in its array, the result is 0, and afterwards a name has the value of the last of its lines, or the value
  it had before when it has none.\<close>

theorem config_file_get:
  assumes "list_all config_entry kvs" and "table_ok cs" and "length cs + length kvs \<le> MAX_CONFIG"
    and "c_name n" and "length n \<le> MAX_NAME"
  shows "\<exists>t. config_initialize_from_file junk (Some (if newline then config_lines kvs else butlast (config_lines kvs))) cs
        = Some (0, t) \<and> table_ok t
    \<and> config_get n t = (case find (\<lambda>kv. fst kv = n) (rev kvs) of Some kv \<Rightarrow> Some (snd kv @ [0]) | None \<Rightarrow> config_get n cs)"
proof -
  let ?t = "snd (puts config_create kvs cs)"
  have names: "\<forall>(k, v) \<in> set kvs. c_name k" using assms(1) config_entry_name by (fastforce simp: list_all_iff)
  have "find (\<lambda>(k, v). cf_key k = cf_key n) (rev kvs) = find (\<lambda>kv. fst kv = n) (rev kvs)"
  proof (rule find_cong_set)
    fix x assume "x \<in> set (rev kvs)"
    then have "c_name (fst x) \<and> length (fst x) \<le> MAX_NAME" using assms(1) config_entry_name by (simp add: list_all_iff)
    then show "(case x of (k, v) \<Rightarrow> cf_key k = cf_key n) = (fst x = n)" using assms(4,5) key_inj by (simp add: split_beta)
  qed
  then have "config_get n ?t = (case find (\<lambda>kv. fst kv = n) (rev kvs) of Some kv \<Rightarrow> Some (snd kv @ [0]) | None \<Rightarrow> config_get n cs)"
    using cfg.puts_get [OF assms(2) names assms(4) puts_room [OF assms(3)]] by (auto split: option.splits)
  with read_file [OF assms(1)] cfg.puts_ok [OF assms(2) names] show ?thesis by auto
qed

theorem config_file_get_witness:
  "\<exists>t. config_initialize_from_file [] (Some (butlast (config_lines [(str ''cmd'', str ''cat''), (str ''cmd'', str ''sed'')]))) []
      = Some (0, t) \<and> table_ok t \<and> config_get (str ''cmd'') t = Some (str ''sed'' @ [0])"
  using config_file_get [of "[(str ''cmd'', str ''cat''), (str ''cmd'', str ''sed'')]" "[]" "str ''cmd''" "[]" False]
  by (simp add: config_entry_def config_char_def isalpha_def table_ok_def c_name_def MAX_NAME_def MAX_CONFIG_def)

text \<open>
  Whatever is put into a table, the value got for a name is the last one put under a name with the same first 21
  characters, and the value before when there is none; names stay unique and there are never more than 100.\<close>

theorem config_get_last_put:
  assumes "table_ok cs" and "\<forall>(k, v) \<in> set kvs. c_name k" and "c_name n" and "fst (puts config_create kvs cs)"
  shows "table_ok (snd (puts config_create kvs cs))
    \<and> config_get n (snd (puts config_create kvs cs)) =
        (case find (\<lambda>(k, v). take 21 (k @ replicate 21 0) = take 21 (n @ replicate 21 0)) (rev kvs) of
           Some (k, v) \<Rightarrow> Some (v @ [0]) | None \<Rightarrow> config_get n cs)"
  using cfg.puts_get [OF assms] cfg.puts_ok [OF assms(1,2)]
  by (simp add: strncpy_def MAX_NAME_def)

theorem config_get_last_put_witness:
  "config_get (str ''b'') (snd (puts config_create [(str ''a'', [49]), (str ''b'', [50]), (str ''a'', [51])] [])) = Some [50, 0]"
proof -
  let ?kvs = "[(str ''a'', [49]), (str ''b'', [50]), (str ''a'', [51])] :: (byte list \<times> byte list) list"
  have "table_ok []" "\<forall>(k, v) \<in> set ?kvs. c_name k" "c_name (str ''b'')" by (simp_all add: table_ok_def c_name_def)
  moreover have "fst (puts config_create ?kvs [])" by (rule puts_room) (simp add: MAX_CONFIG_def)
  ultimately show ?thesis using config_get_last_put [of "[]" ?kvs "str ''b''"] by (simp del: puts.simps)
qed

text \<open>
  The reader does not check the length of a name: a name of 21 characters or more, at the first line or after
  any lines that are well formed, is written past the end of its array on the stack.\<close>

theorem config_name_overflows:
  assumes "list_all config_entry kvs" and "list_all config_char n" and "length n > MAX_NAME"
  shows "config_initialize_from_file junk (Some (config_lines kvs @ n @ 61 # rest)) cs = None"
proof -
  let ?f = "\<lparr>rd_state = START, rd_current = 0, rd_name_buf = take (MAX_NAME + 1) (junk @ replicate 21 0),
     rd_value_buf = None, rd_table = cs\<rparr>"
  have l: "length (rd_name_buf ?f) = MAX_NAME + 1" by (simp add: MAX_NAME_def)
  obtain g where g: "config_read (config_lines kvs @ n @ 61 # rest) ?f = config_read (n @ 61 # rest) g"
    "rd_state g = START" "rd_current g = 0" "length (rd_name_buf g) = MAX_NAME + 1"
    using read_lines [OF assms(1) _ _ _ l, of "n @ 61 # rest"] by auto
  obtain c ns where n: "n = c # ns" using assms(3) by (cases n) auto
  have "config_read (n @ 61 # rest) g = None"
    using g assms(2,3) by (simp add: n config_step_def put_name_def bump_def read_name_overflows)
  with g show ?thesis by (simp add: config_initialize_from_file_def)
qed

theorem config_name_overflows_witness:
  "config_initialize_from_file [] (Some (str ''transformation-command=cat'')) [] = None"
  using config_name_overflows [of "[]" "str ''transformation-command''" "[]" "str ''cat''" "[]"]
  by (simp add: config_lines_def config_char_def isalpha_def MAX_NAME_def)

end
