(* ===== verification/Metric.thy ===== *)
theory Metric
  imports Prelude "HOL-Library.Log_Nat" Complex_Main
begin

text \<open>
  \<open>proxy_http/src/metric/metric.c\<close>: the five metrics of the proxy. A \<open>double\<close> is the
  rational it stands for; \<open>fl\<close> rounds a result to the nearest one (53 bits, ties to even; the
  range of the exponent is not bounded). The time and what \<open>malloc\<close> answers are arguments.
  The counters refine integer counters as long as those are below \<open>2^53\<close>.
\<close>

section \<open>The C double\<close>

definition round_even :: "rat \<Rightarrow> int" where
  "round_even q =
     (let f = \<lfloor>q\<rfloor>; d = q - of_int f
      in if d < 1 / 2 then f else if d > 1 / 2 then f + 1 else if even f then f else f + 1)"

definition pow2 :: "int \<Rightarrow> rat" where
  "pow2 z = (if z \<ge> 0 then 2 ^ nat z else 1 / 2 ^ nat (- z))"

text \<open>The exponent of the leading bit, and the nearest number of 53 bits.\<close>

definition leading :: "rat \<Rightarrow> int" where
  "leading x =
     (let (a, b) = quotient_of x; k = bitlen \<bar>a\<bar> - bitlen b in if \<bar>x\<bar> < pow2 k then k - 1 else k)"

definition fl :: "rat \<Rightarrow> rat" where
  "fl x = (if x = 0 then 0 else (let u = pow2 (leading x - 52) in of_int (round_even (x / u)) * u))"

lemma round_even_int [simp]: "round_even (of_int n) = n"
  by (simp add: round_even_def)

lemma leading_int: "n \<noteq> 0 \<Longrightarrow> \<bar>n\<bar> < 2 ^ 53 \<Longrightarrow> leading (of_int n) \<le> 52"
proof -
  assume n: "n \<noteq> 0" "\<bar>n\<bar> < 2 ^ 53"
  have "bitlen \<bar>n\<bar> \<le> 53"
  proof (rule ccontr)
    assume "\<not> bitlen \<bar>n\<bar> \<le> 53"
    then have "(2 :: int) ^ 53 \<le> 2 ^ nat (bitlen \<bar>n\<bar> - 1)" by (intro power_increasing) auto
    also have "\<dots> \<le> \<bar>n\<bar>" using bitlen_bounds [of "\<bar>n\<bar>"] n by simp
    finally show False using n by simp
  qed
  moreover have "bitlen 1 = 1" by (simp add: bitlen_def floorlog_def)
  ultimately show ?thesis by (simp add: leading_def Let_def)
qed

text \<open>Integers below \<open>2^53\<close> are exact.\<close>

lemma fl_int: "\<bar>n\<bar> < 2 ^ 53 \<Longrightarrow> fl (of_int n) = of_int n"
proof (cases "n = 0")
  case False
  assume "\<bar>n\<bar> < 2 ^ 53"
  with False have "leading (of_int n) - 52 \<le> 0" using leading_int [of n] by simp
  then have "pow2 (leading (of_int n) - 52) = 1 / 2 ^ nat (52 - leading (of_int n))"
    by (cases "leading (of_int n) = 52") (auto simp: pow2_def)
  then obtain k where k: "pow2 (leading (of_int n) - 52) = 1 / 2 ^ k" by blast
  have "(of_int n :: rat) / (1 / 2 ^ k) = of_int (n * 2 ^ k)" by simp
  then have "round_even ((of_int n :: rat) / (1 / 2 ^ k)) = n * 2 ^ k" by (simp only: round_even_int)
  with False show ?thesis by (simp add: fl_def k Let_def)
qed (simp add: fl_def)

section \<open>sprintf of numbers\<close>

text \<open>The decimal digits of \<open>n\<close>, and the last \<open>k\<close> of them with leading zeros.\<close>

fun digits :: "nat \<Rightarrow> byte list" where
  "digits n = (if n < 10 then [48 + of_nat n] else digits (n div 10) @ [48 + of_nat (n mod 10)])"

declare digits.simps [simp del]

fun last_digits :: "nat \<Rightarrow> nat \<Rightarrow> byte list" where
  "last_digits 0 n = []"
| "last_digits (Suc k) n = last_digits k (n div 10) @ [48 + of_nat (n mod 10)]"

definition fmt_d :: "int \<Rightarrow> byte list" where
  "fmt_d n = (if n < 0 then 45 # digits (nat (- n)) else digits (nat n))"

text \<open>\<open>%.kf\<close>: the value rounded to \<open>k\<close> decimals.\<close>

definition fmt_f :: "nat \<Rightarrow> rat \<Rightarrow> byte list" where
  "fmt_f k x =
     (let n = nat \<bar>round_even (x * 10 ^ k)\<bar>
      in (if x < 0 then [45] else []) @ digits (n div 10 ^ k) @ (if k = 0 then [] else 46 # last_digits k n))"

section \<open>The metrics\<close>

datatype metric = INST_CONCURRENT_CONNECTIONS | MAX_CONCURRENT_CONNECTIONS | ACCESSES | TRANSFERED_BYTES
  | AVG_CONNECTION_TIME

definition metric_index :: "metric \<Rightarrow> nat" where
  "metric_index m = (case m of INST_CONCURRENT_CONNECTIONS \<Rightarrow> 0 | MAX_CONCURRENT_CONNECTIONS \<Rightarrow> 1 | ACCESSES \<Rightarrow> 2
     | TRANSFERED_BYTES \<Rightarrow> 3 | AVG_CONNECTION_TIME \<Rightarrow> 4)"

definition METRICS_ENUM_SIZE :: nat where "METRICS_ENUM_SIZE = 5"

record metric_state =
  metrics :: "rat list"
  connection_time_sum :: rat

definition metrics_start :: metric_state where
  "metrics_start = \<lparr>metrics = replicate METRICS_ENUM_SIZE 0, connection_time_sum = 0\<rparr>"

record connection_time =
  init_time :: int
  end_time :: int

definition metric_create :: "nat \<Rightarrow> rat \<Rightarrow> metric_state \<Rightarrow> (int \<times> metric_state) option" where
  "metric_create number v s =
     (if number \<ge> METRICS_ENUM_SIZE then Some (- 1, s)
      else do { ms \<leftarrow> store (metrics s) number v; Some (0, s\<lparr>metrics := ms\<rparr>) })"

text \<open>A negative index is out of the array.\<close>

definition metric_get_value_string :: "int \<Rightarrow> byte list \<Rightarrow> metric_state \<Rightarrow> byte list option" where
  "metric_get_value_string index val s =
     (if index \<ge> int METRICS_ENUM_SIZE then Some val
      else if index < 0 then None
      else do {
        x \<leftarrow> load (metrics s) (nat index);
        store_block val 0 ((if nat index = metric_index AVG_CONNECTION_TIME then fmt_f 6 x else fmt_f 0 x) @ [0])
      })"

definition metric_name :: "metric \<Rightarrow> byte list" where
  "metric_name m = (case m of
       INST_CONCURRENT_CONNECTIONS \<Rightarrow> str ''inst_concurrent_conections''
     | MAX_CONCURRENT_CONNECTIONS \<Rightarrow> str ''max_concurrent_connections''
     | ACCESSES \<Rightarrow> str ''acceses''
     | TRANSFERED_BYTES \<Rightarrow> str ''transfered_bytes''
     | AVG_CONNECTION_TIME \<Rightarrow> str ''avg_connection_time'')"

definition all_metrics :: "metric list" where
  "all_metrics = [INST_CONCURRENT_CONNECTIONS, MAX_CONCURRENT_CONNECTIONS, ACCESSES, TRANSFERED_BYTES, AVG_CONNECTION_TIME]"

definition metric_get_name :: "byte \<Rightarrow> byte list option" where
  "metric_get_name number =
     (if unat number \<ge> METRICS_ENUM_SIZE then None else Some (metric_name (all_metrics ! unat number)))"

definition metric_get_size :: int where "metric_get_size = int METRICS_ENUM_SIZE"

abbreviation metric_at :: "metric_state \<Rightarrow> metric \<Rightarrow> rat" where
  "metric_at s m \<equiv> metrics s ! metric_index m"

definition set_metric :: "metric \<Rightarrow> rat \<Rightarrow> metric_state \<Rightarrow> metric_state" where
  "set_metric m x s = s\<lparr>metrics := (metrics s)[metric_index m := x]\<rparr>"

text \<open>\<open>block\<close> is the fresh block \<open>malloc\<close> gives, none if it fails; \<open>now\<close> the time.\<close>

definition metric_new_connection ::
  "connection_time option \<Rightarrow> int \<Rightarrow> metric_state \<Rightarrow> connection_time option \<times> metric_state" where
  "metric_new_connection block now s =
     (case block of
        None \<Rightarrow> (None, s)
      | Some contime \<Rightarrow>
          (let s1 = set_metric INST_CONCURRENT_CONNECTIONS (fl (metric_at s INST_CONCURRENT_CONNECTIONS + 1)) s;
               s2 = (if metric_at s1 INST_CONCURRENT_CONNECTIONS > metric_at s1 MAX_CONCURRENT_CONNECTIONS
                     then set_metric MAX_CONCURRENT_CONNECTIONS (metric_at s1 INST_CONCURRENT_CONNECTIONS) s1 else s1)
           in (Some (contime\<lparr>init_time := now\<rparr>), s2)))"

definition metric_close_connection ::
  "connection_time option \<Rightarrow> int \<Rightarrow> metric_state \<Rightarrow> (connection_time \<times> metric_state) option" where
  "metric_close_connection contime now s =
     do {
       c \<leftarrow> contime;
       let c' = c\<lparr>end_time := now\<rparr>;
       let s1 = set_metric INST_CONCURRENT_CONNECTIONS (fl (metric_at s INST_CONCURRENT_CONNECTIONS - 1)) s;
       let s2 = set_metric ACCESSES (fl (metric_at s1 ACCESSES + 1)) s1;
       let s3 = s2\<lparr>connection_time_sum := fl (connection_time_sum s2 + fl (of_int (end_time c' - init_time c')))\<rparr>;
       Some (c', set_metric AVG_CONNECTION_TIME (fl (connection_time_sum s3 / metric_at s3 ACCESSES)) s3)
     }"

definition metric_add_transfered_bytes :: "rat \<Rightarrow> metric_state \<Rightarrow> metric_state" where
  "metric_add_transfered_bytes n s = set_metric TRANSFERED_BYTES (fl (metric_at s TRANSFERED_BYTES + n)) s"

section \<open>The counters they stand for\<close>

text \<open>
  The life of the metrics: connections begin at a time, end at a time having begun at another, and bytes
  are transferred.
\<close>

datatype metric_event = Opened int | Closed int int | Moved int

record counters =
  n_open :: int
  n_max :: int
  n_closed :: int
  n_bytes :: int
  n_time :: int

fun count :: "metric_event \<Rightarrow> counters \<Rightarrow> counters" where
  "count (Opened t) c = c\<lparr>n_open := n_open c + 1, n_max := max (n_max c) (n_open c + 1)\<rparr>"
| "count (Closed t0 t1) c = c\<lparr>n_open := n_open c - 1, n_closed := n_closed c + 1, n_time := n_time c + (t1 - t0)\<rparr>"
| "count (Moved n) c = c\<lparr>n_bytes := n_bytes c + n\<rparr>"

fun apply_event :: "metric_event \<Rightarrow> metric_state \<Rightarrow> metric_state option" where
  "apply_event (Opened t) s = Some (snd (metric_new_connection (Some \<lparr>init_time = 0, end_time = 0\<rparr>) t s))"
| "apply_event (Closed t0 t1) s = map_option snd (metric_close_connection (Some \<lparr>init_time = t0, end_time = 0\<rparr>) t1 s)"
| "apply_event (Moved n) s = Some (metric_add_transfered_bytes (of_int n) s)"

fun run_events :: "metric_event list \<Rightarrow> metric_state \<Rightarrow> metric_state option" where
  "run_events [] s = Some s"
| "run_events (e # es) s = Option.bind (apply_event e s) (run_events es)"

definition no_counts :: counters where
  "no_counts = \<lparr>n_open = 0, n_max = 0, n_closed = 0, n_bytes = 0, n_time = 0\<rparr>"

definition exact :: "counters \<Rightarrow> bool" where
  "exact c \<longleftrightarrow> \<bar>n_open c\<bar> < 2 ^ 53 \<and> \<bar>n_closed c\<bar> < 2 ^ 53 \<and> \<bar>n_bytes c\<bar> < 2 ^ 53 \<and> \<bar>n_time c\<bar> < 2 ^ 53"

text \<open>What the metrics show of the counters.\<close>

definition shows_counters :: "metric_state \<Rightarrow> counters \<Rightarrow> bool" where
  "shows_counters s c \<longleftrightarrow>
     metrics s = [of_int (n_open c), of_int (n_max c), of_int (n_closed c), of_int (n_bytes c),
       if n_closed c = 0 then 0 else fl (of_int (n_time c) / of_int (n_closed c))]
     \<and> connection_time_sum s = of_int (n_time c) \<and> n_closed c \<ge> 0"

lemma start_shows: "shows_counters metrics_start no_counts"
  by (simp add: shows_counters_def metrics_start_def no_counts_def METRICS_ENUM_SIZE_def eval_nat_numeral)

lemma fl_steps:
  "\<bar>a + 1\<bar> < 2 ^ 53 \<Longrightarrow> fl (of_int a + 1) = of_int (a + 1)"
  "\<bar>a - 1\<bar> < 2 ^ 53 \<Longrightarrow> fl (of_int a - 1) = of_int (a - 1)"
  "\<bar>a + b\<bar> < 2 ^ 53 \<Longrightarrow> fl (of_int a + of_int b) = of_int (a + b)"
  using fl_int [of "a + 1"] fl_int [of "a - 1"] fl_int [of "a + b"] by simp_all

text \<open>An event whose duration is a representable number keeps the correspondence.\<close>

fun event_exact :: "metric_event \<Rightarrow> bool" where
  "event_exact (Closed t0 t1) \<longleftrightarrow> \<bar>t1 - t0\<bar> < 2 ^ 53"
| "event_exact _ \<longleftrightarrow> True"

lemmas metric_ops = metric_new_connection_def metric_close_connection_def metric_add_transfered_bytes_def
  set_metric_def metric_index_def Let_def

lemma apply_event_shows:
  assumes "shows_counters s c" "exact (count e c)" "event_exact e"
  shows "\<exists>s'. apply_event e s = Some s' \<and> shows_counters s' (count e c)"
proof (cases e)
  case (Opened t)
  then have "fl (of_int (n_open c) + 1) = of_int (n_open c + 1)"
    using assms(2) by (intro fl_steps) (simp add: exact_def)
  with Opened assms(1) show ?thesis by (auto simp: shows_counters_def metric_ops max_def)
next
  case (Closed t0 t1)
  then have "fl (of_int (n_open c) - 1) = of_int (n_open c - 1)" "fl (of_int (n_closed c) + 1) = of_int (n_closed c + 1)"
    "fl (of_int (n_time c) + of_int (t1 - t0)) = of_int (n_time c + (t1 - t0))" "fl (of_int (t1 - t0)) = of_int (t1 - t0)"
    using assms(2,3) by (intro fl_steps fl_int; simp add: exact_def)+
  with Closed assms(1) show ?thesis by (auto simp: shows_counters_def metric_ops)
next
  case (Moved n)
  then have "fl (of_int (n_bytes c) + of_int n) = of_int (n_bytes c + n)"
    using assms(2) by (intro fl_steps) (simp add: exact_def)
  with Moved assms(1) show ?thesis by (auto simp: shows_counters_def metric_ops)
qed


lemma run_events_show:
  "shows_counters s c \<Longrightarrow> \<forall>n \<le> length es. exact (fold count (take n es) c) \<Longrightarrow> \<forall>e \<in> set es. event_exact e \<Longrightarrow>
     \<exists>s'. run_events es s = Some s' \<and> shows_counters s' (fold count es c)"
proof (induction es arbitrary: s c)
  case (Cons e es)
  have "exact (fold count (take 1 (e # es)) c)" using Cons.prems(2) by (metis One_nat_def le_add1 length_Cons plus_1_eq_Suc)
  then obtain s1 where s1: "apply_event e s = Some s1" "shows_counters s1 (count e c)"
    using apply_event_shows [of s c e] Cons.prems by auto
  have "\<forall>n \<le> length es. exact (fold count (take n es) (count e c))"
    using Cons.prems(2) by (metis Suc_le_mono fold_simps(2) length_Cons take_Suc_Cons)
  with Cons.IH [OF s1(2)] Cons.prems(3) s1(1) show ?case by auto
qed simp

section \<open>Numbers as text\<close>

text \<open>The value of decimal digits.\<close>

definition decimal :: "byte list \<Rightarrow> nat" where
  "decimal ds = foldl (\<lambda>a d. a * 10 + unat (d - 48)) 0 ds"

lemma digit_byte: "d < 10 \<Longrightarrow> isdigit (48 + of_nat d) \<and> unat (of_nat d :: byte) = d"
proof -
  assume "(d :: nat) < 10"
  then have "d = 0 \<or> d = 1 \<or> d = 2 \<or> d = 3 \<or> d = 4 \<or> d = 5 \<or> d = 6 \<or> d = 7 \<or> d = 8 \<or> d = 9" by presburger
  then show ?thesis by (elim disjE) (simp_all add: isdigit_def)
qed

lemma digits_decimal: "decimal (digits n) = n"
proof (induction n rule: digits.induct)
  case (1 n)
  then show ?case
    by (subst digits.simps) (auto simp: decimal_def digit_byte [THEN conjunct2])
qed

lemma digits_isdigit: "d \<in> set (digits n) \<Longrightarrow> isdigit d"
proof (induction n rule: digits.induct)
  case (1 n)
  then show ?case
    by (subst (asm) (2) digits.simps) (auto simp: digit_byte split: if_splits)
qed

lemma digits_not_Nil [simp]: "digits n \<noteq> []"
  by (subst digits.simps) simp

lemma length_digits: "n < 10 ^ k \<Longrightarrow> 0 < k \<Longrightarrow> length (digits n) \<le> k"
proof (induction k arbitrary: n)
  case (Suc k)
  show ?case
  proof (cases "n < 10")
    case True
    then show ?thesis by (subst digits.simps) simp
  next
    case False
    then have "0 < k" using Suc.prems by (cases k) auto
    moreover have "n div 10 < 10 ^ k" using Suc.prems by (simp add: less_mult_imp_div_less)
    ultimately have "length (digits (n div 10)) \<le> k" using Suc.IH by blast
    with False show ?thesis by (subst digits.simps) simp
  qed
qed simp

lemma last_digits_isdigit: "d \<in> set (last_digits k n) \<Longrightarrow> isdigit d"
  by (induction k n rule: last_digits.induct) (auto simp: digit_byte)

lemma length_last_digits [simp]: "length (last_digits k n) = k"
  by (induction k n rule: last_digits.induct) simp_all

lemma round_even_le: "q \<le> of_int m \<Longrightarrow> round_even q \<le> m"
proof -
  assume "q \<le> of_int m"
  then have "\<lfloor>q\<rfloor> < m \<or> q = of_int m" by (metis floor_less_iff order_le_less)
  then show ?thesis by (auto simp: round_even_def Let_def)
qed

lemma round_even_nonneg: "0 \<le> q \<Longrightarrow> 0 \<le> round_even q"
  by (auto simp: round_even_def Let_def)

text \<open>A value below \<open>10^20\<close> is printed in at most 28 characters, none of them a NUL.\<close>

lemma fmt_f_text:
  assumes "0 \<le> x" "x < 10 ^ 20" "k \<le> 6"
  shows "length (fmt_f k x) \<le> 28" "fmt_f k x \<noteq> []" "0 \<notin> set (fmt_f k x)"
proof -
  let ?n = "nat \<bar>round_even (x * 10 ^ k)\<bar>"
  have "x * 10 ^ k \<le> of_int (10 ^ (20 + k))" using assms(2) by (simp add: power_add)
  then have "round_even (x * 10 ^ k) \<le> 10 ^ (20 + k)" by (rule round_even_le)
  moreover have "0 \<le> round_even (x * 10 ^ k)" using assms(1) by (simp add: round_even_nonneg)
  ultimately have "int ?n \<le> 10 ^ (20 + k)" by simp
  then have "?n \<le> 10 ^ (20 + k)" by (metis of_nat_le_iff of_nat_numeral of_nat_power)
  then have "?n div 10 ^ k \<le> 10 ^ (20 + k) div 10 ^ k" by (rule div_le_mono)
  also have "(10 :: nat) ^ (20 + k) div 10 ^ k = 10 ^ 20" by (simp add: power_add)
  also have "(10 :: nat) ^ 20 < 10 ^ 21" by simp
  finally have "length (digits (?n div 10 ^ k)) \<le> 21" by (rule length_digits) simp
  then show "length (fmt_f k x) \<le> 28" using assms by (cases k) (simp_all add: fmt_f_def Let_def)
  show "fmt_f k x \<noteq> []" by (simp add: fmt_f_def Let_def)
  show "0 \<notin> set (fmt_f k x)"
    using digits_isdigit [of 0] last_digits_isdigit [of 0] assms(1) by (auto simp: fmt_f_def Let_def isdigit_def)
qed

lemma metric_get_value_string_text:
  assumes "length (metrics s) = 5" "i < 5" "0 \<le> metrics s ! i" "metrics s ! i < 10 ^ 20" "length val = 30"
  shows "metric_get_value_string (int i) val s =
    Some (overlay 0 (fmt_f (if i = 4 then 6 else 0) (metrics s ! i) @ [0]) val)"
  using fmt_f_text [of "metrics s ! i" "if i = 4 then 6 else 0"] assms
  by (auto simp: metric_get_value_string_def METRICS_ENUM_SIZE_def metric_index_def store_block_def overlay_def)

section \<open>Properties\<close>

text \<open>
  The metrics are the counters they are named after. After any history of connections opened and closed and bytes
  moved in which the counters stay below \<open>2^53\<close>, the first metric is the number of connections opened less those
  closed, the second the largest value it had, the third the number of connections closed, the fourth the sum of the bytes,
  and the fifth the double nearest to the mean duration, 0 before the first connection is closed.\<close>

theorem metrics_count:
  assumes "\<forall>n \<le> length es. exact (fold count (take n es) no_counts)" and "\<forall>e \<in> set es. event_exact e"
  shows "\<exists>s. run_events es metrics_start = Some s
    \<and> metric_at s INST_CONCURRENT_CONNECTIONS = of_int (n_open (fold count es no_counts))
    \<and> metric_at s MAX_CONCURRENT_CONNECTIONS = of_int (Max ((\<lambda>n. n_open (fold count (take n es) no_counts)) ` {0..length es}))
    \<and> metric_at s ACCESSES = of_int (n_closed (fold count es no_counts))
    \<and> metric_at s TRANSFERED_BYTES = of_int (n_bytes (fold count es no_counts))
    \<and> metric_at s AVG_CONNECTION_TIME = (if n_closed (fold count es no_counts) = 0 then 0
        else fl (of_int (n_time (fold count es no_counts)) / of_int (n_closed (fold count es no_counts))))"
proof -
  have m: "n_max (fold count es no_counts) = Max ((\<lambda>n. n_open (fold count (take n es) no_counts)) ` {0..length es})"
  proof (induction es rule: rev_induct)
    case Nil
    then show ?case by (simp add: no_counts_def)
  next
    case (snoc e es)
    let ?f = "\<lambda>n. n_open (fold count (take n (es @ [e])) no_counts)"
    have "{0..length (es @ [e])} = insert (Suc (length es)) {0..length es}" by auto
    then have "Max (?f ` {0..length (es @ [e])}) = max (?f (Suc (length es))) (Max (?f ` {0..length es}))" by simp
    also have "Max (?f ` {0..length es}) = n_max (fold count es no_counts)"
      unfolding snoc.IH by (rule arg_cong [of _ _ Max]) auto
    finally have *: "Max (?f ` {0..length (es @ [e])}) = max (?f (Suc (length es))) (n_max (fold count es no_counts))" .
    have "n_open (fold count (take (length es) es) no_counts) \<le> n_max (fold count es no_counts)"
      unfolding snoc.IH by (rule Max_ge) (auto intro: image_eqI [of _ _ "length es"])
    with * show ?case by (cases e) auto
  qed
  from run_events_show [OF start_shows assms] m show ?thesis
    by (auto simp: shows_counters_def metric_index_def)
qed


theorem metrics_count_witness:
  "\<exists>s. run_events [Opened 10, Opened 12, Closed 10 20, Moved 300, Closed 12 17] metrics_start = Some s
    \<and> metric_at s INST_CONCURRENT_CONNECTIONS = 0 \<and> metric_at s ACCESSES = 2 \<and> metric_at s TRANSFERED_BYTES = 300
    \<and> metric_at s AVG_CONNECTION_TIME = fl (15 / 2)"
proof -
  let ?es = "[Opened 10, Opened 12, Closed 10 20, Moved 300, Closed 12 17]"
  have "\<forall>n \<le> length ?es. exact (fold count (take n ?es) no_counts)"
    by (auto simp: exact_def no_counts_def le_Suc_eq)
  moreover have "\<forall>e \<in> set ?es. event_exact e" by simp
  ultimately show ?thesis using metrics_count [of ?es] by (simp add: no_counts_def) blast
qed

end
