(* ===== verification/AdminActions.thy ===== *)
theory AdminActions
  imports MsgQueue Config Metric
begin

text \<open>
  The management side of the proxy: \<open>admin_actions/admin_actions.c\<close>, which answers a request with
  messages in the queue, and the two handlers of \<open>admin_handlers/admin_handlers.c\<close>, which read a
  request and send an answer. The state holds the metrics, the table of configurations and the queue,
  which are static variables in the code, and the heap: the answers of the coming \<open>malloc\<close>s. A
  null pointer that is followed is \<open>None\<close>. \<open>free\<close> is not modelled: a block is not used after it.
\<close>

section \<open>The state\<close>

text \<open>
  The \<open>k\<close>-th \<open>malloc\<close> answers \<open>hp_alloc k\<close>; a message in fresh memory is
  \<open>hp_fresh k\<close>.
\<close>

record heap =
  hp_alloc :: "nat \<Rightarrow> alloc"
  hp_fresh :: "nat \<Rightarrow> msg_t"
  hp_count :: nat

record admin =
  ad_heap :: heap
  ad_metrics :: metric_state
  ad_configs :: "config list"
  ad_queue :: "msg_t msg_queue"

definition tick :: "admin \<Rightarrow> admin" where
  "tick s = s\<lparr>ad_heap := (ad_heap s)\<lparr>hp_count := hp_count (ad_heap s) + 1\<rparr>\<rparr>"

definition malloc :: "nat \<Rightarrow> admin \<Rightarrow> byte list option \<times> admin" where
  "malloc n s = (hp_alloc (ad_heap s) (hp_count (ad_heap s)) n, tick s)"

text \<open>\<open>sizeof(msg_t)\<close> and \<open>sizeof(struct qnode)\<close>.\<close>

definition SIZEOF_MSG :: nat where "SIZEOF_MSG = 16"

definition malloc_msg :: "admin \<Rightarrow> msg_t option \<times> admin" where
  "malloc_msg s =
     (let (block, s') = malloc SIZEOF_MSG s
      in (map_option (\<lambda>_. hp_fresh (ad_heap s) (hp_count (ad_heap s))) block, s'))"

definition offer :: "msg_t \<Rightarrow> admin \<Rightarrow> admin option" where
  "offer msg s =
     (let (block, s') = malloc SIZEOF_MSG s
      in do { (_, q) \<leftarrow> q_offer (block \<noteq> None) msg (ad_queue s'); Some (s'\<lparr>ad_queue := q\<rparr>) })"

text \<open>\<open>strlen\<close> and \<open>%s\<close> read up to a NUL in the array.\<close>

definition c_str :: "byte list \<Rightarrow> byte list option" where
  "c_str a = (if 0 \<in> set a then Some (c_string a) else None)"

section \<open>Actions\<close>

definition send_error :: "error_type \<Rightarrow> admin \<Rightarrow> admin option" where
  "send_error e s =
     (let (m, s1) = malloc_msg s
      in do {
        msg \<leftarrow> m;
        offer (msg\<lparr>msg_type := kind_code ERROR, msg_buffer_size := 0, msg_param := error_code e\<rparr>) s1
      })"

definition send_end_of_list :: "msg_kind \<Rightarrow> admin \<Rightarrow> admin option" where
  "send_end_of_list k s =
     (let (m, s1) = malloc_msg s
      in do { msg \<leftarrow> m; offer (msg\<lparr>msg_type := kind_code k, msg_buffer_size := 0\<rparr>) s1 })"

definition check_credentials :: "byte list option \<Rightarrow> int \<Rightarrow> admin \<Rightarrow> admin" where
  "check_credentials pass pass_len s = s"

text \<open>The text of an answer: \<open>sprintf(..., "(%d)%s: %s", ...)\<close>.\<close>

definition answer_text :: "byte \<Rightarrow> byte list \<Rightarrow> byte list \<Rightarrow> byte list" where
  "answer_text n name val = [40] @ fmt_d (uint n) @ [41] @ name @ str '': '' @ val"

text \<open>The common end of \<open>send_metric\<close> and \<open>send_config\<close>: two blocks, the text, the offer.\<close>

definition send_text :: "msg_kind \<Rightarrow> byte \<Rightarrow> byte list \<Rightarrow> byte list \<Rightarrow> admin \<Rightarrow> admin option" where
  "send_text k n name val s =
     (let (m, s1) = malloc_msg s
      in case m of
        None \<Rightarrow> send_error UNEXPECTED_ERROR s1
      | Some msg \<Rightarrow>
          (let (block, s2) = malloc (length name + length val + 15) s1
           in case block of
             None \<Rightarrow> send_error UNEXPECTED_ERROR s2
           | Some b \<Rightarrow> do {
               b' \<leftarrow> store_block b 0 (answer_text n name val @ [0]);
               offer (msg\<lparr>msg_buffer := Some b', msg_type := kind_code k,
                 msg_buffer_size := int (length (answer_text n name val)) + 1\<rparr>) s2
             }))"

definition MAX_VALUE :: nat where "MAX_VALUE = 30"

text \<open>\<open>value\<close> is on the stack; only its first byte is set before it is printed to.\<close>

definition send_metric :: "byte \<Rightarrow> admin \<Rightarrow> admin option" where
  "send_metric metric s =
     (case metric_get_name metric of
        None \<Rightarrow> send_error METRIC_NOT_FOUND s
      | Some name \<Rightarrow> do {
          val \<leftarrow> metric_get_value_string (uint metric) (replicate MAX_VALUE 0) (ad_metrics s);
          v \<leftarrow> c_str val;
          if v = [] then send_error UNEXPECTED_ERROR s else send_text GET_METRIC metric name v s
        })"

definition send_config :: "byte \<Rightarrow> admin \<Rightarrow> admin option" where
  "send_config config s =
     (case config_get_name config (ad_configs s) of
        None \<Rightarrow> send_error CONFIG_NOT_FOUND s
      | Some name \<Rightarrow> do {
          n \<leftarrow> c_str name;
          val \<leftarrow> config_get_from_index (uint config) (ad_configs s);
          case val of
            None \<Rightarrow> send_error UNEXPECTED_ERROR s
          | Some block \<Rightarrow> do { v \<leftarrow> c_str block; send_text GET_CONFIG config n v s }
        })"

text \<open>The two loops: over an \<open>unsigned char\<close>, and over an \<open>int\<close> that is passed as one.\<close>

definition send_list_metrics_body :: "byte \<times> admin \<Rightarrow> (bool \<times> byte \<times> admin) option" where
  "send_list_metrics_body st =
     (case st of (i, s) \<Rightarrow>
      if uint i < metric_get_size then do { s' \<leftarrow> send_metric i s; Some (False, i + 1, s') } else Some (True, i, s))"

definition send_list_metrics :: "admin \<Rightarrow> admin option" where
  "send_list_metrics s =
     do { (_, s') \<leftarrow> c_loop send_list_metrics_body (0, s); send_end_of_list LIST_METRICS s' }"

definition send_list_configs_body :: "int \<times> admin \<Rightarrow> (bool \<times> int \<times> admin) option" where
  "send_list_configs_body st =
     (case st of (i, s) \<Rightarrow>
      if i < config_get_size (ad_configs s)
      then do { s' \<leftarrow> send_config (of_int i) s; Some (False, c_int (i + 1), s') } else Some (True, i, s))"

definition send_list_configs :: "admin \<Rightarrow> admin option" where
  "send_list_configs s =
     do { (_, s') \<leftarrow> c_loop send_list_configs_body (0, s); send_end_of_list LIST_CONFIGS s' }"

definition check_set_config :: "byte \<Rightarrow> byte list option \<Rightarrow> int \<Rightarrow> admin \<Rightarrow> admin option" where
  "check_set_config config val value_len s =
     (if uint config \<ge> config_get_size (ad_configs s) then send_error CONFIG_NOT_FOUND s
      else if value_len \<le> 0 then send_error INVALID_LENGTH s
      else
        (let (block, s1) = malloc (nat value_len) s
         in case block of
           None \<Rightarrow> send_error UNEXPECTED_ERROR s1
         | Some b \<Rightarrow> do {
             v \<leftarrow> val;
             src \<leftarrow> (if nat value_len \<le> length v then Some (take (nat value_len) v) else None);
             b' \<leftarrow> store_block b 0 src;
             (r, cs) \<leftarrow> config_set_from_index (uint config) b' (ad_configs s1);
             let s2 = s1\<lparr>ad_configs := cs\<rparr>;
             if r < 0 then send_error CONFIG_NOT_SET s2
             else
               (let (m, s3) = malloc_msg s2
                in case m of
                  None \<Rightarrow> send_error UNEXPECTED_ERROR s3
                | Some msg \<Rightarrow> offer (msg\<lparr>msg_type := kind_code SET_CONFIG, msg_buffer_size := 0\<rparr>) s3)
           }))"

section \<open>Handlers\<close>

definition MAX_MSG_SIZE :: nat where "MAX_MSG_SIZE = 1024"

text \<open>\<open>buffer\<close> is the array of 1024 bytes after \<open>sctp_recvmsg\<close> has written to it.\<close>

definition admin_dispatch :: "msg_t \<Rightarrow> admin \<Rightarrow> admin option" where
  "admin_dispatch msg s =
     (if msg_type msg = kind_code SEND_CRED then Some (check_credentials (msg_buffer msg) (msg_buffer_size msg) s)
      else if msg_type msg = kind_code LIST_METRICS then send_list_metrics s
      else if msg_type msg = kind_code LIST_CONFIGS then send_list_configs s
      else if msg_type msg = kind_code GET_METRIC then send_metric (msg_param msg) s
      else if msg_type msg = kind_code GET_CONFIG then send_config (msg_param msg) s
      else if msg_type msg = kind_code SET_CONFIG
        then check_set_config (msg_param msg) (msg_buffer msg) (msg_buffer_size msg) s
      else Some s)"

definition admin_read_handler :: "byte list \<Rightarrow> admin \<Rightarrow> admin option" where
  "admin_read_handler buffer s =
     (let (m, s1) = malloc_msg s
      in do {
        msg \<leftarrow> m;
        (msg', _) \<leftarrow> deserialize_msg (hp_alloc (ad_heap s1) (hp_count (ad_heap s1))) buffer 0 msg;
        let s2 = (if msg_buffer_size msg' > 0 then tick s1 else s1);
        admin_dispatch msg' s2
      })"

text \<open>The second component is what is sent, if anything; \<open>junk\<close> is the array on the stack.\<close>

definition admin_write_handler :: "byte list \<Rightarrow> admin \<Rightarrow> (byte list option \<times> admin) option" where
  "admin_write_handler junk s =
     (if q_is_empty (ad_queue s) then Some (None, s)
      else do {
        (m, q) \<leftarrow> q_poll (ad_queue s);
        msg \<leftarrow> m;
        (buffer, p) \<leftarrow> serialize_msg (take MAX_MSG_SIZE (junk @ replicate MAX_MSG_SIZE 0)) 0 msg;
        Some (Some (take p buffer), s\<lparr>ad_queue := q\<rparr>)
      })"

end
