(* ===== verification/AdminFacts.thy ===== *)
theory AdminFacts
  imports AdminActions
begin

text \<open>
  What the management actions do, against a specification: a request gives a list of answers and a
  table. An answer stands for a message of the queue; the fields a message does not set are those of its
  fresh memory and are not part of the answer.
\<close>

section \<open>Answers\<close>

datatype answer = Text msg_kind "byte list" | Done msg_kind | Failed error_type

text \<open>The string of a message may be followed by the rest of its block.\<close>

fun is_answer :: "answer \<Rightarrow> msg_t \<Rightarrow> bool" where
  "is_answer (Text k t) msg \<longleftrightarrow> msg_type msg = kind_code k \<and> msg_buffer_size msg = int (length t) + 1
     \<and> int_range (int (length t) + 1) \<and> 0 \<notin> set t \<and> (\<exists>r. msg_buffer msg = Some (t @ 0 # r))"
| "is_answer (Done k) msg \<longleftrightarrow> msg_type msg = kind_code k \<and> msg_buffer_size msg = 0"
| "is_answer (Failed e) msg \<longleftrightarrow> msg_type msg = kind_code ERROR \<and> msg_param msg = error_code e \<and> msg_buffer_size msg = 0"

definition metric_reply :: "metric_state \<Rightarrow> byte \<Rightarrow> answer" where
  "metric_reply ms i =
     (if unat i < 5
      then Text GET_METRIC (answer_text i (metric_name (all_metrics ! unat i))
        (fmt_f (if unat i = 4 then 6 else 0) (metrics ms ! unat i)))
      else Failed METRIC_NOT_FOUND)"

definition config_reply :: "config list \<Rightarrow> byte \<Rightarrow> answer" where
  "config_reply cs i =
     (if unat i < length cs
      then Text GET_CONFIG (answer_text i (c_string (cf_name (cs ! unat i))) (c_string (cf_value (cs ! unat i))))
      else Failed CONFIG_NOT_FOUND)"

definition replies :: "msg_t \<Rightarrow> metric_state \<Rightarrow> config list \<Rightarrow> answer list \<times> config list" where
  "replies msg ms cs =
     (let i = msg_param msg in
      if msg_type msg = kind_code LIST_METRICS then (map (metric_reply ms) [0, 1, 2, 3, 4] @ [Done LIST_METRICS], cs)
      else if msg_type msg = kind_code LIST_CONFIGS
        then (map (\<lambda>n. config_reply cs (of_nat n)) [0..<length cs] @ [Done LIST_CONFIGS], cs)
      else if msg_type msg = kind_code GET_METRIC then ([metric_reply ms i], cs)
      else if msg_type msg = kind_code GET_CONFIG then ([config_reply cs i], cs)
      else if msg_type msg = kind_code SET_CONFIG then
        (if unat i \<ge> length cs then ([Failed CONFIG_NOT_FOUND], cs)
         else if msg_buffer_size msg \<le> 0 then ([Failed INVALID_LENGTH], cs)
         else ([Done SET_CONFIG], cs[unat i := (cs ! unat i)\<lparr>cf_value := the (msg_buffer msg)\<rparr>]))
      else ([], cs))"

section \<open>The states of the management\<close>

text \<open>Blocks have the size asked for; memory does not run out.\<close>

definition heap_ok :: "heap \<Rightarrow> bool" where
  "heap_ok h \<longleftrightarrow> (\<forall>k. alloc_ok (hp_alloc h k))"

definition heap_rich :: "heap \<Rightarrow> bool" where
  "heap_rich h \<longleftrightarrow> (\<forall>k n. hp_alloc h k n \<noteq> None)"

text \<open>A string is terminated and short enough for its length to be an \<open>int\<close>.\<close>

definition short_string :: "byte list \<Rightarrow> bool" where
  "short_string a \<longleftrightarrow> 0 \<in> set a \<and> length (c_string a) < 536870912"

definition admin_ok :: "admin \<Rightarrow> bool" where
  "admin_ok s \<longleftrightarrow> heap_ok (ad_heap s)
     \<and> length (metrics (ad_metrics s)) = 5 \<and> (\<forall>x \<in> set (metrics (ad_metrics s)). 0 \<le> x \<and> x < 10 ^ 20)
     \<and> length (ad_configs s) \<le> MAX_CONFIG
     \<and> (\<forall>c \<in> set (ad_configs s). short_string (cf_name c) \<and> short_string (cf_value c))
     \<and> q_ok (ad_queue s) \<and> (\<forall>m \<in> set (q_items (ad_queue s)). \<exists>a. is_answer a m)"

text \<open>A state with more answers in the queue and less memory.\<close>

definition answered :: "answer list \<Rightarrow> admin \<Rightarrow> admin \<Rightarrow> bool" where
  "answered as s s' \<longleftrightarrow> ad_metrics s' = ad_metrics s
     \<and> hp_alloc (ad_heap s') = hp_alloc (ad_heap s) \<and> hp_fresh (ad_heap s') = hp_fresh (ad_heap s)
     \<and> q_ok (ad_queue s') \<and> (\<exists>ms. q_items (ad_queue s') = q_items (ad_queue s) @ ms \<and> list_all2 is_answer as ms)"

lemma answered_Nil: "q_ok (ad_queue s) \<Longrightarrow> answered [] s s"
  by (simp add: answered_def)

lemma answered_trans: "answered as s t \<Longrightarrow> answered bs t u \<Longrightarrow> answered (as @ bs) s u"
  by (auto simp: answered_def intro: list_all2_appendI)

lemma answered_ok:
  assumes "answered as s s'" "admin_ok s" "ad_configs s' = ad_configs s"
  shows "admin_ok s'"
proof -
  have "\<exists>a. is_answer a m" if "list_all2 is_answer as ms" "m \<in> set ms" for ms m
    using that by (induction rule: list_all2_induct) auto
  with assms show ?thesis by (auto simp: admin_ok_def answered_def heap_ok_def)
qed

lemma heap_stays: "hp_alloc h' = hp_alloc h \<Longrightarrow> heap_rich h' = heap_rich h" "hp_alloc h' = hp_alloc h \<Longrightarrow> heap_ok h' = heap_ok h"
  by (simp_all add: heap_rich_def heap_ok_def)

lemma tick_simps [simp]:
  "hp_alloc (ad_heap (tick s)) = hp_alloc (ad_heap s)" "hp_fresh (ad_heap (tick s)) = hp_fresh (ad_heap s)"
  "ad_metrics (tick s) = ad_metrics s" "ad_configs (tick s) = ad_configs s" "ad_queue (tick s) = ad_queue s"
  by (simp_all add: tick_def)

section \<open>Memory and offers\<close>

lemma malloc_msg_rich:
  "heap_rich (ad_heap s) \<Longrightarrow> malloc_msg s = (Some (hp_fresh (ad_heap s) (hp_count (ad_heap s))), tick s)"
  by (auto simp: malloc_msg_def malloc_def heap_rich_def)

lemma malloc_rich:
  "heap_rich (ad_heap s) \<Longrightarrow> heap_ok (ad_heap s) \<Longrightarrow> \<exists>b. malloc n s = (Some b, tick s) \<and> length b = n"
  unfolding malloc_def heap_rich_def heap_ok_def alloc_ok_def by (metis option.exhaust)

lemma offer_rich:
  assumes "heap_rich (ad_heap s)" "q_ok (ad_queue s)" "is_answer a msg"
  shows "\<exists>s'. offer msg s = Some s' \<and> answered [a] s s' \<and> ad_configs s' = ad_configs s"
proof -
  obtain b where b: "malloc SIZEOF_MSG s = (Some b, tick s)"
    using assms(1) by (auto simp: malloc_def heap_rich_def)
  obtain q where "q_offer True msg (ad_queue s) = Some (0, q)" "q_ok q" "q_items q = q_items (ad_queue s) @ [msg]"
    using q_offer_law [OF assms(2), of True msg] by auto
  with b assms(3) show ?thesis by (auto simp: offer_def answered_def)
qed

lemma answered_tick: "answered as (tick s) s' = answered as s s'"
  by (simp add: answered_def)

section \<open>Single answers\<close>

lemma send_error_answers:
  assumes "heap_rich (ad_heap s)" "q_ok (ad_queue s)"
  shows "\<exists>s'. send_error e s = Some s' \<and> answered [Failed e] s s' \<and> ad_configs s' = ad_configs s"
  using offer_rich [of "tick s" "Failed e"] assms
  by (auto simp: send_error_def malloc_msg_rich answered_tick heap_rich_def)

lemma send_end_of_list_answers:
  assumes "heap_rich (ad_heap s)" "q_ok (ad_queue s)"
  shows "\<exists>s'. send_end_of_list k s = Some s' \<and> answered [Done k] s s' \<and> ad_configs s' = ad_configs s"
  using offer_rich [of "tick s" "Done k"] assms
  by (auto simp: send_end_of_list_def malloc_msg_rich answered_tick heap_rich_def)

lemma fmt_d_byte: "length (fmt_d (uint (n :: byte))) \<le> 3" "0 \<notin> set (fmt_d (uint (n :: byte)))"
proof -
  have "unat n < 256" using unsigned_less [of n] by simp
  then have "unat n < 10 ^ 3" by simp
  from length_digits [OF this] show "length (fmt_d (uint n)) \<le> 3" by (simp add: fmt_d_def)
  show "0 \<notin> set (fmt_d (uint n))"
    using digits_isdigit [of 0] by (auto simp: fmt_d_def isdigit_def)
qed

lemma answer_text_ok:
  assumes "0 \<notin> set name" "0 \<notin> set val"
  shows "0 \<notin> set (answer_text n name val)" "length (answer_text n name val) \<le> length name + length val + 7"
  using assms fmt_d_byte [of n] by (auto simp: answer_text_def)

lemma send_text_answers:
  assumes "heap_rich (ad_heap s)" "heap_ok (ad_heap s)" "q_ok (ad_queue s)" "0 \<notin> set name" "0 \<notin> set val"
    "length name < 536870912" "length val < 536870912"
  shows "\<exists>s'. send_text k n name val s = Some s' \<and> answered [Text k (answer_text n name val)] s s' \<and> ad_configs s' = ad_configs s"
proof -
  let ?t = "answer_text n name val"
  note t = answer_text_ok [OF assms(4,5), of n]
  obtain b where b: "malloc (length name + length val + 15) (tick s) = (Some b, tick (tick s))"
    "length b = length name + length val + 15"
    using malloc_rich [of "tick s" "length name + length val + 15"] assms heap_stays [of "ad_heap (tick s)" "ad_heap s"] by auto
  have st: "store_block b 0 (?t @ [0]) = Some (?t @ 0 # drop (length ?t + 1) b)"
    using b t by (simp add: store_block_def)
  let ?msg = "(hp_fresh (ad_heap s) (hp_count (ad_heap s)))\<lparr>msg_buffer := Some (?t @ 0 # drop (length ?t + 1) b),
     msg_type := kind_code k, msg_buffer_size := int (length ?t) + 1\<rparr>"
  have "is_answer (Text k ?t) ?msg" using t assms(6,7) by (auto simp: int_range_def)
  moreover have "heap_rich (ad_heap (tick (tick s)))" "q_ok (ad_queue (tick (tick s)))"
    using assms(1,3) by (simp_all add: heap_rich_def)
  ultimately obtain s' where "offer ?msg (tick (tick s)) = Some s'" "answered [Text k ?t] s s'" "ad_configs s' = ad_configs s"
    using offer_rich [of "tick (tick s)" "Text k ?t" ?msg] by (auto simp: answered_tick)
  with b st assms(1) show ?thesis by (simp add: send_text_def malloc_msg_rich)
qed


section \<open>Requests for one value\<close>

lemma c_string_short [simp]: "0 \<notin> set (c_string a)"
  unfolding c_string_def by (auto dest: set_takeWhileD)

lemma c_str_short: "short_string a \<Longrightarrow> c_str a = Some (c_string a)"
  by (simp add: c_str_def short_string_def)

lemma metric_name_text: "0 \<notin> set (metric_name m)" "length (metric_name m) \<le> 26"
  by (cases m; simp add: metric_name_def)+

lemma send_metric_answers:
  assumes "heap_rich (ad_heap s)" "admin_ok s"
  shows "\<exists>s'. send_metric i s = Some s' \<and> answered [metric_reply (ad_metrics s) i] s s' \<and> ad_configs s' = ad_configs s"
proof (cases "unat i < 5")
  case False
  with send_error_answers [OF assms(1), of METRIC_NOT_FOUND] assms(2) show ?thesis
    by (simp add: send_metric_def metric_get_name_def METRICS_ENUM_SIZE_def metric_reply_def admin_ok_def)
next
  case True
  let ?x = "metrics (ad_metrics s) ! unat i"
  let ?v = "fmt_f (if unat i = 4 then 6 else 0) ?x"
  let ?name = "metric_name (all_metrics ! unat i)"
  have x: "length (metrics (ad_metrics s)) = 5" "0 \<le> ?x" "?x < 10 ^ 20" using assms(2) True by (auto simp: admin_ok_def)
  have v: "length ?v \<le> 28" "?v \<noteq> []" "0 \<notin> set ?v" using fmt_f_text [OF x(2,3), of "if unat i = 4 then 6 else 0"] by simp_all
  have val: "metric_get_value_string (uint i) (replicate MAX_VALUE 0) (ad_metrics s) = Some (overlay 0 (?v @ [0]) (replicate MAX_VALUE 0))"
    using metric_get_value_string_text [OF x(1) True x(2,3), of "replicate MAX_VALUE 0"] by (simp add: MAX_VALUE_def)
  have "c_str (overlay 0 (?v @ [0]) (replicate MAX_VALUE 0)) = Some ?v"
    using c_string_app [OF v(3)] by (simp add: c_str_def overlay_def)
  moreover obtain s' where "send_text GET_METRIC i ?name ?v s = Some s'"
    "answered [Text GET_METRIC (answer_text i ?name ?v)] s s'" "ad_configs s' = ad_configs s"
    using send_text_answers [of s ?name ?v GET_METRIC i] assms v metric_name_text [of "all_metrics ! unat i"]
    by (auto simp: admin_ok_def)
  ultimately show ?thesis
    using True v(2) by (simp add: send_metric_def metric_get_name_def METRICS_ENUM_SIZE_def val metric_reply_def)
qed

lemma send_config_answers:
  assumes "heap_rich (ad_heap s)" "admin_ok s"
  shows "\<exists>s'. send_config i s = Some s' \<and> answered [config_reply (ad_configs s) i] s s' \<and> ad_configs s' = ad_configs s"
proof (cases "unat i < length (ad_configs s)")
  case False
  with send_error_answers [OF assms(1), of CONFIG_NOT_FOUND] assms(2) show ?thesis
    by (simp add: send_config_def config_get_name_def config_reply_def admin_ok_def)
next
  case True
  let ?c = "ad_configs s ! unat i"
  have c: "short_string (cf_name ?c)" "short_string (cf_value ?c)" using assms(2) True by (auto simp: admin_ok_def)
  have "uint i = int (unat i)" by simp
  with True have "\<not> int (length (ad_configs s)) \<le> uint i" by linarith
  then have g: "config_get_name i (ad_configs s) = Some (cf_name ?c)"
    "config_get_from_index (uint i) (ad_configs s) = Some (Some (cf_value ?c))"
    using True by (simp_all add: config_get_name_def config_get_from_index_def)
  obtain s' where "send_text GET_CONFIG i (c_string (cf_name ?c)) (c_string (cf_value ?c)) s = Some s'"
    "answered [Text GET_CONFIG (answer_text i (c_string (cf_name ?c)) (c_string (cf_value ?c)))] s s'" "ad_configs s' = ad_configs s"
    using send_text_answers [of s "c_string (cf_name ?c)" "c_string (cf_value ?c)" GET_CONFIG i] assms c
    by (auto simp: admin_ok_def short_string_def)
  with True g c show ?thesis by (simp add: send_config_def c_str_short config_reply_def)
qed

section \<open>Lists\<close>

lemma list_metrics_loop:
  assumes "heap_rich (ad_heap s)" "admin_ok s" "k \<le> 5"
  shows "\<exists>s' i. c_loop send_list_metrics_body (of_nat (5 - k), s) = Some (i, s')
    \<and> answered (map (metric_reply (ad_metrics s)) (drop (5 - k) [0, 1, 2, 3, 4])) s s' \<and> ad_configs s' = ad_configs s"
  using assms
proof (induction k arbitrary: s)
  case 0
  then show ?case
    by (simp add: c_loop_break send_list_metrics_body_def metric_get_size_def METRICS_ENUM_SIZE_def answered_Nil admin_ok_def)
next
  case (Suc k)
  let ?i = "of_nat (5 - Suc k) :: byte"
  have i: "unat ?i = 5 - Suc k" by (simp add: unat_of_nat)
  obtain s1 where s1: "send_metric ?i s = Some s1" "answered [metric_reply (ad_metrics s) ?i] s s1" "ad_configs s1 = ad_configs s"
    using send_metric_answers [OF Suc.prems(1,2)] by blast
  have "Suc (5 - Suc k) = 5 - k" using Suc.prems(3) by simp
  moreover have "?i + 1 = of_nat (Suc (5 - Suc k))" by (simp only: of_nat_Suc ac_simps)
  ultimately have "?i + 1 = of_nat (5 - k)" by (simp only:)
  moreover have "uint ?i < metric_get_size"
    using i by (simp add: uint_nat metric_get_size_def METRICS_ENUM_SIZE_def)
  ultimately have step: "send_list_metrics_body (?i, s) = Some (False, of_nat (5 - k), s1)"
    using s1(1) by (simp add: send_list_metrics_body_def)
  have "heap_rich (ad_heap s1)" using Suc.prems(1) s1(2) by (simp add: answered_def heap_rich_def)
  then obtain s2 j where s2: "c_loop send_list_metrics_body (of_nat (5 - k), s1) = Some (j, s2)"
    "answered (map (metric_reply (ad_metrics s)) (drop (5 - k) [0, 1, 2, 3, 4])) s1 s2" "ad_configs s2 = ad_configs s1"
    using Suc.IH [of s1] answered_ok [OF s1(2) Suc.prems(2) s1(3)] Suc.prems(3) s1(2) by (auto simp: answered_def)
  have "drop (5 - Suc k) [0, 1, 2, 3, 4] = ?i # drop (5 - k) [0, 1, 2, 3, 4 :: byte]"
  proof -
    from Suc.prems(3) consider "k = 0" | "k = 1" | "k = 2" | "k = 3" | "k = 4" by linarith
    then show ?thesis by cases (simp_all add: eval_nat_numeral)
  qed
  with c_loop_continue [of send_list_metrics_body, OF step] s2 s1 answered_trans [OF s1(2) s2(2)] show ?case by auto
qed


lemma send_list_metrics_answers:
  assumes "heap_rich (ad_heap s)" "admin_ok s"
  shows "\<exists>s'. send_list_metrics s = Some s' \<and> ad_configs s' = ad_configs s
    \<and> answered (map (metric_reply (ad_metrics s)) [0, 1, 2, 3, 4] @ [Done LIST_METRICS]) s s'"
proof -
  obtain s1 i where s1: "c_loop send_list_metrics_body (0, s) = Some (i, s1)"
    "answered (map (metric_reply (ad_metrics s)) [0, 1, 2, 3, 4]) s s1" "ad_configs s1 = ad_configs s"
    using list_metrics_loop [OF assms, of 5] by auto
  moreover have "heap_rich (ad_heap s1)" "q_ok (ad_queue s1)"
    using assms(1) s1(2) by (simp_all add: answered_def heap_rich_def)
  then obtain s2 where "send_end_of_list LIST_METRICS s1 = Some s2" "answered [Done LIST_METRICS] s1 s2" "ad_configs s2 = ad_configs s1"
    using send_end_of_list_answers by blast
  ultimately show ?thesis
    using answered_trans [OF s1(2)] by (auto simp: send_list_metrics_def simp del: list.map)
qed

lemma list_configs_loop:
  assumes "heap_rich (ad_heap s)" "admin_ok s" "n = length (ad_configs s)" "i + k = n"
  shows "\<exists>s' j. c_loop send_list_configs_body (int i, s) = Some (j, s')
    \<and> answered (map (\<lambda>n. config_reply (ad_configs s) (of_nat n)) [i..<n]) s s' \<and> ad_configs s' = ad_configs s"
  using assms
proof (induction k arbitrary: i s)
  case 0
  then show ?case
    by (simp add: c_loop_break send_list_configs_body_def config_get_size_def answered_Nil admin_ok_def)
next
  case (Suc k)
  have "n \<le> 100" using Suc.prems(2,3) by (simp add: admin_ok_def MAX_CONFIG_def)
  then have i: "i < n" "c_int (int i + 1) = int (Suc i)" using Suc.prems(4) by (simp_all add: c_int_id int_range_def)
  obtain s1 where s1: "send_config (of_nat i) s = Some s1" "answered [config_reply (ad_configs s) (of_nat i)] s s1" "ad_configs s1 = ad_configs s"
    using send_config_answers [OF Suc.prems(1,2)] by blast
  have step: "send_list_configs_body (int i, s) = Some (False, int (Suc i), s1)"
    using s1(1) i Suc.prems(3) by (simp add: send_list_configs_body_def config_get_size_def)
  have "heap_rich (ad_heap s1)" using Suc.prems(1) s1(2) by (simp add: answered_def heap_rich_def)
  then obtain s2 j where s2: "c_loop send_list_configs_body (int (Suc i), s1) = Some (j, s2)"
    "answered (map (\<lambda>n. config_reply (ad_configs s) (of_nat n)) [Suc i..<n]) s1 s2" "ad_configs s2 = ad_configs s1"
    using Suc.IH [of s1 "Suc i"] answered_ok [OF s1(2) Suc.prems(2) s1(3)] Suc.prems(3,4) s1(3) by auto
  have "[i..<n] = i # [Suc i..<n]" using i(1) by (simp add: upt_conv_Cons)
  with c_loop_continue [of send_list_configs_body, OF step] s2 s1 answered_trans [OF s1(2) s2(2)] show ?case by auto
qed

lemma send_list_configs_answers:
  assumes "heap_rich (ad_heap s)" "admin_ok s"
  shows "\<exists>s'. send_list_configs s = Some s' \<and> ad_configs s' = ad_configs s
    \<and> answered (map (\<lambda>n. config_reply (ad_configs s) (of_nat n)) [0..<length (ad_configs s)] @ [Done LIST_CONFIGS]) s s'"
proof -
  obtain s1 i where s1: "c_loop send_list_configs_body (0, s) = Some (i, s1)"
    "answered (map (\<lambda>n. config_reply (ad_configs s) (of_nat n)) [0..<length (ad_configs s)]) s s1" "ad_configs s1 = ad_configs s"
    using list_configs_loop [OF assms refl, of 0] by auto
  moreover have "heap_rich (ad_heap s1)" "q_ok (ad_queue s1)"
    using assms(1) s1(2) by (simp_all add: answered_def heap_rich_def)
  then obtain s2 where "send_end_of_list LIST_CONFIGS s1 = Some s2" "answered [Done LIST_CONFIGS] s1 s2" "ad_configs s2 = ad_configs s1"
    using send_end_of_list_answers by blast
  ultimately show ?thesis
    using answered_trans [OF s1(2)] by (auto simp: send_list_configs_def simp del: list.map)
qed

section \<open>Setting a configuration\<close>

text \<open>The string of a request as \<open>deserialize_msg\<close> leaves it: a block of the announced size with a NUL.\<close>

definition request_ok :: "msg_t \<Rightarrow> bool" where
  "request_ok msg \<longleftrightarrow> (msg_buffer_size msg > 0 \<longrightarrow>
     (\<exists>b. msg_buffer msg = Some b \<and> msg_buffer_size msg = int (length b) \<and> short_string b))"

lemma check_set_config_answers:
  assumes h: "heap_rich (ad_heap s)" and ok: "admin_ok s" and r: "request_ok msg" and k: "msg_type msg = kind_code SET_CONFIG"
    and i: "i = msg_param msg"
  shows "\<exists>s'. check_set_config i (msg_buffer msg) (msg_buffer_size msg) s = Some s'
    \<and> answered (fst (replies msg (ad_metrics s) (ad_configs s))) s s' \<and> ad_configs s' = snd (replies msg (ad_metrics s) (ad_configs s))"
proof -
  have R: "replies msg (ad_metrics s) (ad_configs s) =
      (if unat i \<ge> length (ad_configs s) then ([Failed CONFIG_NOT_FOUND], ad_configs s)
       else if msg_buffer_size msg \<le> 0 then ([Failed INVALID_LENGTH], ad_configs s)
       else ([Done SET_CONFIG], (ad_configs s)[unat i := (ad_configs s ! unat i)\<lparr>cf_value := the (msg_buffer msg)\<rparr>]))"
    by (simp add: replies_def k kind_code_def i Let_def)
  have u: "int n \<le> uint i \<longleftrightarrow> n \<le> unat i" for n
  proof -
    have "uint i = int (unat i)" by simp
    then show ?thesis by linarith
  qed
  have q: "q_ok (ad_queue s)" using ok by (simp add: admin_ok_def)
  show ?thesis
  proof (cases "unat i < length (ad_configs s) \<and> msg_buffer_size msg > 0")
    case False
    with send_error_answers [OF h q] R u show ?thesis
      by (auto simp: check_set_config_def config_get_size_def not_less)
  next
    case True
    then obtain b where b: "msg_buffer msg = Some b" "msg_buffer_size msg = int (length b)" using r by (auto simp: request_ok_def)
    obtain v where v: "malloc (length b) s = (Some v, tick s)" "length v = length b"
      using malloc_rich [OF h, of "length b"] ok by (auto simp: admin_ok_def)
    let ?cs = "(ad_configs s)[unat i := (ad_configs s ! unat i)\<lparr>cf_value := b\<rparr>]"
    let ?s2 = "(tick s)\<lparr>ad_configs := ?cs\<rparr>"
    have set: "config_set_from_index (uint i) b (ad_configs s) = Some (0, ?cs)"
      using True u by (simp add: config_set_from_index_def)
    have m: "malloc_msg ?s2 = (Some (hp_fresh (ad_heap ?s2) (hp_count (ad_heap ?s2))), tick ?s2)"
      using h by (intro malloc_msg_rich) (simp add: heap_rich_def)
    let ?msg = "(hp_fresh (ad_heap ?s2) (hp_count (ad_heap ?s2)))\<lparr>msg_type := kind_code SET_CONFIG, msg_buffer_size := 0\<rparr>"
    have "heap_rich (ad_heap (tick ?s2))" "q_ok (ad_queue (tick ?s2))" using h q by (simp_all add: heap_rich_def)
    then obtain s' where "offer ?msg (tick ?s2) = Some s'" "answered [Done SET_CONFIG] (tick ?s2) s'" "ad_configs s' = ?cs"
      using offer_rich [of "tick ?s2" "Done SET_CONFIG" ?msg] by auto
    moreover have "answered [Done SET_CONFIG] s s'" using calculation(2) by (simp add: answered_def)
    ultimately show ?thesis
      using True R u b v set m by (simp add: check_set_config_def config_get_size_def store_block_def not_le)
  qed
qed

text \<open>The whole dispatch.\<close>

lemma admin_dispatch_answers:
  assumes "heap_rich (ad_heap s)" "admin_ok s" "request_ok msg"
  shows "\<exists>s'. admin_dispatch msg s = Some s' \<and> answered (fst (replies msg (ad_metrics s) (ad_configs s))) s s'
    \<and> ad_configs s' = snd (replies msg (ad_metrics s) (ad_configs s))"
proof -
  have q: "q_ok (ad_queue s)" using assms(2) by (simp add: admin_ok_def)
  show ?thesis
    using send_list_metrics_answers [OF assms(1,2)] send_list_configs_answers [OF assms(1,2)]
      send_metric_answers [OF assms(1,2), of "msg_param msg"] send_config_answers [OF assms(1,2), of "msg_param msg"]
      check_set_config_answers [OF assms _ refl] answered_Nil [OF q]
    by (auto simp: admin_dispatch_def replies_def kind_code_def check_credentials_def Let_def simp del: list.map upt.simps)
qed


lemma short_strings_upd: "\<forall>c \<in> set cs. short_string (cf_name c) \<and> short_string (cf_value c) \<Longrightarrow> short_string b \<Longrightarrow> i < length cs \<Longrightarrow>
    \<forall>c \<in> set (cs[i := (cs ! i)\<lparr>cf_value := b\<rparr>]). short_string (cf_name c) \<and> short_string (cf_value c)"
  by (auto dest!: set_update_subset_insert [THEN subsetD])

lemma admin_dispatch_keeps_ok:
  assumes "admin_ok s" "request_ok msg" "answered (fst (replies msg (ad_metrics s) (ad_configs s))) s s'"
    "ad_configs s' = snd (replies msg (ad_metrics s) (ad_configs s))"
  shows "admin_ok s'"
proof (cases "msg_type msg = kind_code SET_CONFIG \<and> unat (msg_param msg) < length (ad_configs s) \<and> msg_buffer_size msg > 0")
  case False
  then have "ad_configs s' = ad_configs s" using assms(4) by (auto simp: replies_def Let_def kind_code_def split: if_splits)
  with answered_ok [OF assms(3,1)] show ?thesis by simp
next
  case True
  then obtain b where b: "msg_buffer msg = Some b" "short_string b" using assms(2) by (auto simp: request_ok_def)
  let ?cs = "(ad_configs s)[unat (msg_param msg) := (ad_configs s ! unat (msg_param msg))\<lparr>cf_value := b\<rparr>]"
  have cs: "ad_configs s' = ?cs" using True assms(4) b by (simp add: replies_def Let_def kind_code_def)
  have "admin_ok (s'\<lparr>ad_configs := ad_configs s\<rparr>)"
    using assms(3)
    by (intro answered_ok [OF _ assms(1), of "fst (replies msg (ad_metrics s) (ad_configs s))"]) (simp_all add: answered_def)
  moreover have "\<forall>c \<in> set ?cs. short_string (cf_name c) \<and> short_string (cf_value c)"
    using assms(1) b(2) True by (intro short_strings_upd) (simp_all add: admin_ok_def)
  ultimately show ?thesis using cs by (simp add: admin_ok_def)
qed

section \<open>Reading requests\<close>

text \<open>A string that is copied without leaving the buffers ends within its block.\<close>

lemma deserialize_string_result:
  "c_loop (deserialize_string_body m) (p, s, i) = Some (p', s', i') \<Longrightarrow>
     \<exists>xs ys. 0 \<notin> set xs \<and> p + length xs < length m \<and> i + length xs < length s \<and> s' = overlay i (xs @ [0]) s
       \<and> drop p m = xs @ 0 # ys"
proof (induction "length s - i" arbitrary: p s i)
  case (0 s i p)
  then have "deserialize_string_body m (p, s, i) = None"
    by (auto simp: deserialize_string_body_def store_def bind_eq_None_conv split: prod.splits)
  with 0 show ?case by (simp add: c_loop.simps [of "deserialize_string_body m" "(p, s, i)"])
next
  case (Suc k s i p)
  then have i: "i < length s" by simp
  obtain c where c: "load m p = Some c" "p < length m"
    using Suc.prems by (cases "p < length m")
      (simp_all add: c_loop.simps [of "deserialize_string_body m" "(p, s, i)"] deserialize_string_body_def deserialize_char_def load_def)
  have step: "deserialize_string_body m (p, s, i) = Some (c = 0, p + 1, s[i := c], i + 1)"
    using i c by (simp add: deserialize_string_body_def deserialize_char_def)
  show ?case
  proof (cases "c = 0")
    case True
    then have "s' = s[i := 0]" using Suc.prems step by (simp add: c_loop_break)
    moreover have "drop p m = 0 # drop (Suc p) m" using c True by (simp add: load_def Cons_nth_drop_Suc [symmetric])
    ultimately show ?thesis using i c(2) by (intro exI [of _ "[]"] exI [of _ "drop (Suc p) m"]) (auto simp: update_overlay)
  next
    case False
    then have "c_loop (deserialize_string_body m) (p + 1, s[i := c], i + 1) = Some (p', s', i')"
      using Suc.prems step by (simp add: c_loop_continue)
    moreover have "k = length (s[i := c]) - (i + 1)" using Suc.hyps(2) by simp
    ultimately obtain xs ys where xs: "0 \<notin> set xs" "p + 1 + length xs < length m"
      "i + 1 + length xs < length s" "s' = overlay (i + 1) (xs @ [0]) (s[i := c])" "drop (p + 1) m = xs @ 0 # ys"
      using Suc.hyps(1) by fastforce
    with i False have "s' = overlay i (c # xs @ [0]) s" by (simp add: overlay_Suc)
    moreover have "drop p m = c # drop (p + 1) m" using c by (simp add: load_def Cons_nth_drop_Suc [symmetric])
    ultimately show ?thesis using xs False by (intro exI [of _ "c # xs"] exI [of _ ys]) auto
  qed
qed


text \<open>
  A received buffer is read within its bounds when the announced size, if positive, covers a NUL of the buffer.
\<close>

definition size_field :: "byte list \<Rightarrow> int" where
  "size_field m = c_int (uint (m ! 2) * 16777216 + uint (m ! 3) * 65536 + uint (m ! 4) * 256 + uint (m ! 5))"

definition fits :: "byte list \<Rightarrow> bool" where
  "fits m \<longleftrightarrow> 6 \<le> length m \<and> (size_field m > 0 \<longrightarrow> 0 \<in> set (take (nat (size_field m)) (drop 6 m)))"

text \<open>The message that stands in such a buffer, read into a block \<open>b\<close>.\<close>

definition request_in :: "byte list \<Rightarrow> msg_t \<Rightarrow> bool" where
  "request_in m msg \<longleftrightarrow> msg_type msg = m ! 0 \<and> msg_param msg = m ! 1 \<and> msg_buffer_size msg = size_field m
     \<and> (size_field m > 0 \<longrightarrow> (\<exists>b. msg_buffer msg = Some b \<and> int (length b) = size_field m \<and> 0 \<in> set b
          \<and> c_string b = c_string (drop 6 m)))"

lemma deserialize_fields:
  assumes "6 \<le> length m"
  shows "deserialize_msg alloc m 0 msg0 =
    (let msg = msg0\<lparr>msg_type := m ! 0, msg_param := m ! 1, msg_buffer_size := size_field m\<rparr> in
     if size_field m > 0 then
       (case alloc (nat (size_field m)) of
          None \<Rightarrow> Some (msg\<lparr>msg_buffer := None\<rparr>, None)
        | Some s \<Rightarrow> do { (s', p) \<leftarrow> deserialize_string m 6 s; Some (msg\<lparr>msg_buffer := Some s'\<rparr>, Some p) })
     else Some (msg, Some 6))"
proof -
  have l: "0 < length m" "1 < length m" "2 < length m" "3 < length m" "4 < length m" "5 < length m" using assms by linarith+
  have c: "deserialize_char m 0 = Some (m ! 0, 1)" "deserialize_char m (Suc 0) = Some (m ! Suc 0, 2)"
    "deserialize_int m 2 = Some (size_field m, 6)"
    using l by (simp_all add: deserialize_char_def deserialize_int_def size_field_def)
  show ?thesis unfolding deserialize_msg_def by (simp add: c Let_def cong: option.case_cong)
qed

lemma split_at_NUL: "0 \<in> set xs \<Longrightarrow> xs = c_string xs @ 0 # drop (length (c_string xs) + 1) xs"
  by (induction xs) (auto simp: c_string_def)

lemma c_string_take: "0 \<in> set (take n xs) \<Longrightarrow> length (c_string xs) < n \<and> 0 \<in> set xs"
proof (induction xs arbitrary: n)
  case (Cons x xs)
  then obtain k where "n = Suc k" by (cases n) auto
  with Cons show ?case by (cases "x = 0") (auto simp: c_string_def)
qed simp

lemma deserialize_request:
  assumes "fits m" "alloc_ok alloc" "\<forall>n. alloc n \<noteq> None"
  shows "\<exists>msg q. deserialize_msg alloc m 0 msg0 = Some (msg, q) \<and> request_in m msg"
proof (cases "size_field m > 0")
  case False
  with assms(1) show ?thesis by (simp add: deserialize_fields fits_def request_in_def)
next
  case True
  define xs where "xs = c_string (drop 6 m)"
  obtain s where s: "alloc (nat (size_field m)) = Some s" "length s = nat (size_field m)"
    using assms(2,3) unfolding alloc_ok_def by (metis option.exhaust)
  have l: "length xs < length s" and z: "0 \<in> set (drop 6 m)"
    using c_string_take [of "nat (size_field m)" "drop 6 m"] assms(1) True s(2) by (auto simp: fits_def xs_def)
  obtain ys where d: "drop 6 m = xs @ 0 # ys" using split_at_NUL [OF z] unfolding xs_def by blast
  have "0 \<notin> set xs" by (simp add: xs_def)
  from deserialize_string_loop [OF d this, of 0 s] l
  have "deserialize_string m 6 s = Some (xs @ 0 # drop (length xs + 1) s, 6 + length xs + 1)"
    by (simp add: deserialize_string_def overlay_def)
  moreover have "6 \<le> length m" using assms(1) by (simp add: fits_def)
  ultimately have "deserialize_msg alloc m 0 msg0 = Some (msg0\<lparr>msg_type := m ! 0, msg_param := m ! 1,
      msg_buffer_size := size_field m, msg_buffer := Some (xs @ 0 # drop (length xs + 1) s)\<rparr>, Some (6 + length xs + 1))"
    using True s(1) by (simp add: deserialize_fields Let_def)
  moreover have "int (length (xs @ 0 # drop (length xs + 1) s)) = size_field m" using s(2) l True by simp
  ultimately show ?thesis using \<open>0 \<notin> set xs\<close> by (simp add: request_in_def c_string_app xs_def)
qed

lemma deserialize_overruns:
  assumes "6 \<le> length m" "\<not> fits m" "alloc_ok alloc" "\<forall>n. alloc n \<noteq> None"
  shows "deserialize_msg alloc m 0 msg0 = None"
proof (rule ccontr)
  assume c: "deserialize_msg alloc m 0 msg0 \<noteq> None"
  have n: "size_field m > 0" "0 \<notin> set (take (nat (size_field m)) (drop 6 m))" using assms(1,2) by (auto simp: fits_def)
  obtain s where s: "alloc (nat (size_field m)) = Some s" "length s = nat (size_field m)"
    using assms(3,4) unfolding alloc_ok_def by (metis option.exhaust)
  with c assms(1) n(1) obtain s' p where "deserialize_string m 6 s = Some (s', p)"
    by (auto simp: deserialize_fields Let_def split: bind_splits)
  then obtain p' i' where "c_loop (deserialize_string_body m) (6, s, 0) = Some (p', s', i')"
    by (auto simp: deserialize_string_def split: bind_splits)
  from deserialize_string_result [OF this] obtain xs ys where "length xs < length s" "drop 6 m = xs @ 0 # ys" by auto
  with n(2) s(2) show False by (auto simp: take_Cons')
qed

lemma request_in_ok: "request_in m msg \<Longrightarrow> length m < 536870912 \<Longrightarrow> request_ok msg"
proof -
  assume r: "request_in m msg" and l: "length m < 536870912"
  have "length (c_string (drop 6 m)) \<le> length (drop 6 m)" unfolding c_string_def by (rule length_takeWhile_le)
  with l have "length (c_string (drop 6 m)) < 536870912" by simp
  with r show ?thesis by (auto simp: request_in_def request_ok_def short_string_def)
qed

text \<open>A whole read, from a state with memory.\<close>

lemma admin_read_dispatches:
  assumes "heap_rich (ad_heap s)" "admin_ok s" "fits m"
  shows "\<exists>msg n. request_in m msg \<and> admin_read_handler m s = admin_dispatch msg ((tick ^^ n) s)"
proof -
  obtain msg q where msg: "deserialize_msg (hp_alloc (ad_heap s) (hp_count (ad_heap (tick s)))) m 0
      (hp_fresh (ad_heap s) (hp_count (ad_heap s))) = Some (msg, q)" "request_in m msg"
    using deserialize_request [OF assms(3), of "hp_alloc (ad_heap s) (hp_count (ad_heap (tick s)))"] assms(1,2)
    unfolding heap_rich_def admin_ok_def heap_ok_def by blast
  then have "admin_read_handler m s = admin_dispatch msg ((tick ^^ (if msg_buffer_size msg > 0 then 2 else 1)) s)"
    using assms(1) by (simp add: admin_read_handler_def malloc_msg_rich numeral_2_eq_2)
  with msg(2) show ?thesis by blast
qed

lemma ticks [simp]:
  "hp_alloc (ad_heap ((tick ^^ n) s)) = hp_alloc (ad_heap s)" "hp_fresh (ad_heap ((tick ^^ n) s)) = hp_fresh (ad_heap s)"
  "ad_metrics ((tick ^^ n) s) = ad_metrics s" "ad_configs ((tick ^^ n) s) = ad_configs s"
  "ad_queue ((tick ^^ n) s) = ad_queue s"
  by (induction n) simp_all

lemma ticks_ok [simp]: "admin_ok ((tick ^^ n) s) = admin_ok s" "heap_rich (ad_heap ((tick ^^ n) s)) = heap_rich (ad_heap s)"
  "answered as ((tick ^^ n) s) s' = answered as s s'"
  by (simp_all add: admin_ok_def heap_ok_def heap_rich_def answered_def)

lemma admin_read_answers:
  assumes "heap_rich (ad_heap s)" "admin_ok s" "fits m" "length m < 536870912"
  shows "\<exists>msg s'. request_in m msg \<and> admin_read_handler m s = Some s' \<and> admin_ok s'
    \<and> answered (fst (replies msg (ad_metrics s) (ad_configs s))) s s'
    \<and> ad_configs s' = snd (replies msg (ad_metrics s) (ad_configs s))"
proof -
  obtain msg n where r: "request_in m msg" "admin_read_handler m s = admin_dispatch msg ((tick ^^ n) s)"
    using admin_read_dispatches [OF assms(1-3)] by blast
  note ok = request_in_ok [OF r(1) assms(4)]
  show ?thesis
    using admin_dispatch_answers [of "(tick ^^ n) s" msg] admin_dispatch_keeps_ok [of s msg] assms(1,2) ok r by fastforce
qed

section \<open>Sending answers\<close>

text \<open>What an answer is on the wire, but for the parameter.\<close>

fun answer_wire :: "answer \<Rightarrow> byte \<Rightarrow> byte list" where
  "answer_wire (Text k t) pa = [kind_code k, pa] @ int_bytes (int (length t) + 1) @ t @ [0]"
| "answer_wire (Done k) pa = [kind_code k, pa] @ int_bytes 0"
| "answer_wire (Failed e) pa = [kind_code ERROR, error_code e] @ int_bytes 0"

lemma serialize_string_no_room:
  "0 \<notin> set xs \<Longrightarrow> drop i s = xs @ ys \<Longrightarrow> p \<le> length m \<Longrightarrow> length m < p + length xs \<Longrightarrow>
     c_loop (serialize_string_body s) (m, p, i) = None"
proof (induction xs arbitrary: m p i)
  case (Cons x xs)
  then have d: "load s i = Some x" "drop (i + 1) s = xs @ ys" using load_drop [of i s x] by simp_all
  show ?case
  proof (cases "p < length m")
    case True
    then have "serialize_string_body s (m, p, i) = Some (False, m[p := x], p + 1, i + 1)"
      using Cons.prems d(1) by (auto simp: serialize_string_body_def serialize_char_def)
    then show ?thesis using Cons.IH [of "i + 1" "p + 1" "m[p := x]"] Cons.prems d(2) True by (simp add: c_loop_continue)
  next
    case False
    then have "serialize_string_body s (m, p, i) = None"
      using d(1) by (simp add: serialize_string_body_def serialize_char_def store_def)
    then show ?thesis by (subst c_loop.simps) simp
  qed
qed simp

lemma serialize_string_exactly_full:
  "0 \<notin> set xs \<Longrightarrow> drop i s = xs @ 0 # ys \<Longrightarrow> p + length xs = length m \<Longrightarrow> c_loop (serialize_string_body s) (m, p, i) = None"
proof (induction xs arbitrary: m p i)
  case Nil
  then have "serialize_string_body s (m, p, i) = None"
    using load_drop [of i s 0] by (simp add: serialize_string_body_def serialize_char_def store_def)
  then show ?case by (subst c_loop.simps) simp
next
  case (Cons x xs)
  then have d: "load s i = Some x" "drop (i + 1) s = xs @ 0 # ys" using load_drop [of i s x] by simp_all
  then have "serialize_string_body s (m, p, i) = Some (False, m[p := x], p + 1, i + 1)"
    using Cons.prems by (auto simp: serialize_string_body_def serialize_char_def)
  then show ?case using Cons.IH [of "i + 1" "p + 1" "m[p := x]"] Cons.prems d(2) by (simp add: c_loop_continue)
qed

lemma serialize_string_cases:
  assumes "0 \<notin> set xs" "p \<le> length m"
  shows "serialize_string m p (xs @ 0 # ys) =
    (if p + length xs < length m then Some (overlay p (xs @ [0]) m, p + length xs + 1) else None)"
proof -
  consider "p + length xs < length m" | "p + length xs = length m" | "length m < p + length xs" by linarith
  then show ?thesis
  proof cases
    case 1
    with assms show ?thesis by (simp add: serialize_string_eq)
  next
    case 2
    with serialize_string_exactly_full [OF assms(1), of 0 "xs @ 0 # ys"] show ?thesis by (simp add: serialize_string_def)
  next
    case 3
    with serialize_string_no_room [OF assms(1), of 0 "xs @ 0 # ys" "0 # ys", OF _ assms(2)] show ?thesis
      by (simp add: serialize_string_def)
  qed
qed

lemma serialize_header:
  assumes "p + 6 \<le> length m"
  shows "\<exists>b. length b = length m \<and> serialize_msg m p msg =
    (if msg_buffer_size msg > 0 then Option.bind (msg_buffer msg) (serialize_string b (p + 6)) else Some (b, p + 6))
    \<and> b = overlay p ([msg_type msg, msg_param msg] @ int_bytes (msg_buffer_size msg)) m"
proof -
  let ?b = "overlay (p + 2) (int_bytes (msg_buffer_size msg)) (overlay (p + 1) [msg_param msg] (overlay p [msg_type msg] m))"
  have "?b = overlay p ([msg_type msg, msg_param msg] @ int_bytes (msg_buffer_size msg)) m"
    using assms overlay_append [of p "[msg_type msg]" m "[msg_param msg]"]
      overlay_append [of p "[msg_type msg, msg_param msg]" m "int_bytes (msg_buffer_size msg)"] by simp
  moreover have "serialize_msg m p msg =
      (if msg_buffer_size msg > 0 then Option.bind (msg_buffer msg) (serialize_string ?b (p + 6)) else Some (?b, p + 6))"
    using assms by (simp add: serialize_msg_def serialize_char_eq serialize_int_eq add.commute)
  ultimately show ?thesis using assms by (intro exI [of _ ?b]) simp
qed

lemma serialize_answer:
  assumes "is_answer a msg" "p + 6 \<le> length m"
  shows "serialize_msg m p msg =
    (if p + length (answer_wire a (msg_param msg)) \<le> length m
     then Some (overlay p (answer_wire a (msg_param msg)) m, p + length (answer_wire a (msg_param msg))) else None)"
proof (cases a)
  case (Text k t)
  let ?h = "[kind_code k, msg_param msg] @ int_bytes (int (length t) + 1)"
  obtain r where r: "msg_buffer msg = Some (t @ 0 # r)" "0 \<notin> set t" using assms(1) Text by auto
  have "serialize_msg m p msg = serialize_string (overlay p ?h m) (p + 6) (t @ 0 # r)"
    using serialize_header [OF assms(2), of msg] assms(1) Text r by auto
  also have "\<dots> = (if p + 6 + length t < length m then Some (overlay (p + 6) (t @ [0]) (overlay p ?h m), p + 6 + length t + 1) else None)"
    using serialize_string_cases [OF r(2), of "p + 6" "overlay p ?h m"] assms(2) by simp
  finally show ?thesis using overlay_append [of p ?h m "t @ [0]"] assms(2) Text by (auto simp: less_eq_Suc_le)
next
  case (Done k)
  with serialize_header [OF assms(2), of msg] assms show ?thesis by auto
next
  case (Failed e)
  with serialize_header [OF assms(2), of msg] assms show ?thesis by auto
qed

lemma admin_write_answers:
  assumes "admin_ok s" "q_items (ad_queue s) = m # ms" "is_answer a m"
  shows "(if length (answer_wire a (msg_param m)) \<le> 1024
     then \<exists>q. admin_write_handler junk s = Some (Some (answer_wire a (msg_param m)), s\<lparr>ad_queue := q\<rparr>)
       \<and> q_items q = ms \<and> q_ok q
     else admin_write_handler junk s = None)"
proof -
  have ok: "q_ok (ad_queue s)" using assms(1) by (simp add: admin_ok_def)
  obtain q where q: "q_poll (ad_queue s) = Some (Some m, q)" "q_ok q" "q_items q = ms"
    using q_poll_law [OF ok] assms(2) by auto
  have "\<not> q_is_empty (ad_queue s)" using assms(2) by (cases "q_first (ad_queue s)") (simp_all add: q_is_empty_def q_items_def)
  with q serialize_answer [OF assms(3), of 0 "take MAX_MSG_SIZE (junk @ replicate MAX_MSG_SIZE 0)"]
  show ?thesis by (auto simp: admin_write_handler_def MAX_MSG_SIZE_def overlay_def)
qed

end
