(* ===== verification/AdminProperties.thy ===== *)
theory AdminProperties
  imports AdminFacts
begin

text \<open>
  The properties of the management side of the proxy: its answers refine a specification, its states
  keep their invariant along every session, and the two ways in which it fails.
\<close>

section \<open>A state to evaluate on\<close>

definition ample :: heap where
  "ample = \<lparr>hp_alloc = \<lambda>k. zeros, hp_fresh = \<lambda>k. no_msg, hp_count = 0\<rparr>"

definition sample_admin :: admin where
  "sample_admin = \<lparr>ad_heap = ample, ad_metrics = metrics_start,
     ad_configs = [\<lparr>cf_name = strncpy 21 (str ''cmd''), cf_value = str ''cat'' @ [0]\<rparr>], ad_queue = q_empty\<rparr>"

lemma sample_ok: "heap_rich (ad_heap sample_admin)" "admin_ok sample_admin"
  by (simp_all add: heap_rich_def admin_ok_def heap_ok_def sample_admin_def ample_def q_ok_empty metrics_start_def
      METRICS_ENUM_SIZE_def MAX_CONFIG_def short_string_def c_string_def strncpy_def zeros_def)

section \<open>Answers\<close>

text \<open>C18
  A request is answered as specified. In every well-formed state with memory, and for every request whose
  string is terminated within its size, the handler's dispatch returns, puts exactly the answers of the
  specification at the end of the queue - a text with the number, the name and the value of a metric or a
  configuration, one text for each of them and an end for a list, an error for a number that does not exist - leaves
  the metrics alone, changes at most the value of the configuration that is set, and the state stays well formed.\<close>

theorem admin_dispatch_refines:
  assumes "heap_rich (ad_heap s)" and "admin_ok s" and "request_ok msg"
  shows "\<exists>s' ms. admin_dispatch msg s = Some s' \<and> q_items (ad_queue s') = q_items (ad_queue s) @ ms
    \<and> list_all2 is_answer (fst (replies msg (ad_metrics s) (ad_configs s))) ms
    \<and> ad_configs s' = snd (replies msg (ad_metrics s) (ad_configs s))
    \<and> ad_metrics s' = ad_metrics s \<and> admin_ok s'"
  using admin_dispatch_answers [OF assms] admin_dispatch_keeps_ok [OF assms(2,3)] unfolding answered_def by blast

theorem admin_dispatch_refines_witness:
  "\<exists>s' m. admin_dispatch (no_msg\<lparr>msg_type := 4\<rparr>) sample_admin = Some s' \<and> q_items (ad_queue s') = [m]
    \<and> is_answer (Text GET_CONFIG (str ''(0)cmd: cat'')) m"
proof -
  have r: "request_ok (no_msg\<lparr>msg_type := 4\<rparr>)" by (simp add: request_ok_def no_msg_def)
  have d: "digits 0 = [48]" by (subst digits.simps) simp
  from admin_dispatch_refines [OF sample_ok r] show ?thesis
    by (auto simp: replies_def no_msg_def kind_code_def sample_admin_def q_ok_empty config_reply_def answer_text_def
        fmt_d_def d c_string_def strncpy_def list_all2_Cons1 Let_def)
qed


section \<open>Reading a request\<close>

text \<open>
  What a received buffer must be like for the read handler to stay within its memory. In a state with memory and
  for a buffer with a whole header, the handler returns exactly when the announced size, if it is positive, covers
  a NUL in the buffer after the header; otherwise the copy of the string leaves its heap block or the buffer.\<close>

theorem admin_read_iff_fits:
  assumes "heap_rich (ad_heap s)" and "admin_ok s" and "6 \<le> length m" and "length m \<le> 1024"
  shows "admin_read_handler m s \<noteq> None \<longleftrightarrow> fits m"
proof
  assume "fits m"
  with admin_read_answers [OF assms(1,2)] assms(4) show "admin_read_handler m s \<noteq> None" by fastforce
next
  assume r: "admin_read_handler m s \<noteq> None"
  show "fits m"
  proof (rule ccontr)
    assume "\<not> fits m"
    have "\<forall>n. hp_alloc (ad_heap s) k n \<noteq> None" "alloc_ok (hp_alloc (ad_heap s) k)" for k
      using assms(1,2) by (simp_all add: heap_rich_def admin_ok_def heap_ok_def)
    with deserialize_overruns [OF assms(3) \<open>\<not> fits m\<close>] assms(1) r show False
      by (auto simp: admin_read_handler_def malloc_msg_rich)
  qed
qed

theorem admin_read_iff_fits_witness:
  "admin_read_handler ([5, 0] @ [0, 0, 0, 3] @ str ''sed'' @ [0]) sample_admin = None"
  using admin_read_iff_fits [OF sample_ok, of "[5, 0] @ [0, 0, 0, 3] @ str ''sed'' @ [0]"]
  by (simp add: fits_def size_field_def c_int_id int_range_def)

section \<open>Sessions\<close>

text \<open>What happens to the management socket: a buffer arrives, or it can be written to.\<close>

datatype admin_event = Receive "byte list" | Transmit "byte list"

fun admin_run :: "admin_event list \<Rightarrow> admin \<Rightarrow> (byte list option list \<times> admin) option" where
  "admin_run [] s = Some ([], s)"
| "admin_run (Receive m # es) s = do { s' \<leftarrow> admin_read_handler m s; admin_run es s' }"
| "admin_run (Transmit junk # es) s =
     do { (out, s') \<leftarrow> admin_write_handler junk s; (outs, s'') \<leftarrow> admin_run es s'; Some (out # outs, s'') }"

text \<open>Nothing in the table or the queue is too long for the array of the write handler.\<close>

definition modest :: "admin \<Rightarrow> bool" where
  "modest s \<longleftrightarrow>
     (\<forall>c \<in> set (ad_configs s). length (c_string (cf_name c)) \<le> 21 \<and> length (c_string (cf_value c)) \<le> 900)
     \<and> (\<forall>m \<in> set (q_items (ad_queue s)). \<exists>a. is_answer a m \<and> length (answer_wire a 0) \<le> 1024)"

fun modest_event :: "admin_event \<Rightarrow> bool" where
  "modest_event (Receive m) \<longleftrightarrow> fits m \<and> length m \<le> 1024 \<and> length (c_string (drop 6 m)) \<le> 900"
| "modest_event (Transmit junk) \<longleftrightarrow> True"

lemma length_answer_wire: "length (answer_wire a pa) = length (answer_wire a 0)"
  by (cases a) simp_all

lemma metric_reply_short: "admin_ok s \<Longrightarrow> length (answer_wire (metric_reply (ad_metrics s) i) 0) \<le> 1024"
proof -
  assume ok: "admin_ok s"
  show ?thesis
  proof (cases "unat i < 5")
    case True
    let ?x = "metrics (ad_metrics s) ! unat i"
    have "0 \<le> ?x" "?x < 10 ^ 20" using ok True by (auto simp: admin_ok_def)
    note v = fmt_f_text [OF this, of "if unat i = 4 then 6 else 0"]
    have "length (answer_text i (metric_name (all_metrics ! unat i)) (fmt_f (if unat i = 4 then 6 else 0) ?x)) \<le> 61"
      using v(1,3) metric_name_text [of "all_metrics ! unat i"]
        answer_text_ok(2) [of "metric_name (all_metrics ! unat i)" "fmt_f (if unat i = 4 then 6 else 0) ?x" i]
      by (auto split: if_splits)
    then show ?thesis using True unfolding metric_reply_def by simp
  qed (simp add: metric_reply_def)
qed

lemma config_reply_short:
  assumes "\<forall>c \<in> set cs. length (c_string (cf_name c)) \<le> 21 \<and> length (c_string (cf_value c)) \<le> 900"
  shows "length (answer_wire (config_reply cs i) 0) \<le> 1024"
proof (cases "unat i < length cs")
  case True
  let ?c = "cs ! unat i"
  have "length (c_string (cf_name ?c)) \<le> 21" "length (c_string (cf_value ?c)) \<le> 900" using assms True by auto
  with answer_text_ok(2) [of "c_string (cf_name ?c)" "c_string (cf_value ?c)" i] True
  show ?thesis by (simp add: config_reply_def)
qed (simp add: config_reply_def)

lemma replies_modest:
  assumes "admin_ok s" "modest s" "request_in m msg" "length (c_string (drop 6 m)) \<le> 900"
  shows "\<forall>a \<in> set (fst (replies msg (ad_metrics s) (ad_configs s))). length (answer_wire a 0) \<le> 1024"
    and "\<forall>c \<in> set (snd (replies msg (ad_metrics s) (ad_configs s))).
      length (c_string (cf_name c)) \<le> 21 \<and> length (c_string (cf_value c)) \<le> 900"
proof -
  have cs: "\<forall>c \<in> set (ad_configs s). length (c_string (cf_name c)) \<le> 21 \<and> length (c_string (cf_value c)) \<le> 900"
    using assms(2) by (simp add: modest_def)
  show "\<forall>a \<in> set (fst (replies msg (ad_metrics s) (ad_configs s))). length (answer_wire a 0) \<le> 1024"
    using metric_reply_short [OF assms(1)] config_reply_short [OF cs] by (auto simp: replies_def Let_def)
  show "\<forall>c \<in> set (snd (replies msg (ad_metrics s) (ad_configs s))).
      length (c_string (cf_name c)) \<le> 21 \<and> length (c_string (cf_value c)) \<le> 900"
  proof (cases "msg_type msg = kind_code SET_CONFIG \<and> unat (msg_param msg) < length (ad_configs s) \<and> msg_buffer_size msg > 0")
    case False
    then have "snd (replies msg (ad_metrics s) (ad_configs s)) = ad_configs s"
      by (auto simp: replies_def Let_def kind_code_def)
    with cs show ?thesis by simp
  next
    case True
    let ?i = "unat (msg_param msg)"
    have "length (c_string (the (msg_buffer msg))) \<le> 900" using True assms(3,4) by (auto simp: request_in_def)
    moreover have "snd (replies msg (ad_metrics s) (ad_configs s)) = (ad_configs s)[?i := (ad_configs s ! ?i)\<lparr>cf_value := the (msg_buffer msg)\<rparr>]"
      using True by (simp add: replies_def Let_def kind_code_def)
    ultimately show ?thesis using True cs by (auto dest!: set_update_subset_insert [THEN subsetD])
  qed
qed


lemma list_all2_modest: "list_all2 is_answer as ms \<Longrightarrow> \<forall>a \<in> set as. P a \<Longrightarrow> \<forall>m \<in> set ms. \<exists>a. is_answer a m \<and> P a"
  by (induction rule: list_all2_induct) auto

lemma admin_read_modest:
  assumes "heap_rich (ad_heap s)" "admin_ok s" "modest s" "modest_event (Receive m)"
  shows "\<exists>s'. admin_read_handler m s = Some s' \<and> heap_rich (ad_heap s') \<and> admin_ok s' \<and> modest s'"
proof -
  have m: "fits m" "length m < 536870912" "length (c_string (drop 6 m)) \<le> 900" using assms(4) by simp_all
  obtain msg s' where r: "request_in m msg" "admin_read_handler m s = Some s'" "admin_ok s'"
    and a: "answered (fst (replies msg (ad_metrics s) (ad_configs s))) s s'"
    and cs: "ad_configs s' = snd (replies msg (ad_metrics s) (ad_configs s))"
    using admin_read_answers [OF assms(1,2) m(1,2)] by blast
  note M = replies_modest [OF assms(2,3) r(1) m(3)]
  obtain ms where ms: "q_items (ad_queue s') = q_items (ad_queue s) @ ms"
    "list_all2 is_answer (fst (replies msg (ad_metrics s) (ad_configs s))) ms"
    using a by (auto simp: answered_def)
  have "modest s'" using assms(3) M(2) ms(1) list_all2_modest [OF ms(2) M(1)] cs unfolding modest_def by auto
  moreover have "heap_rich (ad_heap s')" using a assms(1) by (simp add: answered_def heap_rich_def)
  ultimately show ?thesis using r by blast
qed

lemma admin_write_modest:
  assumes "admin_ok s" "modest s"
  shows "\<exists>out s'. admin_write_handler junk s = Some (out, s') \<and> ad_heap s' = ad_heap s \<and> admin_ok s' \<and> modest s'"
proof (cases "q_items (ad_queue s)")
  case Nil
  have "q_is_empty (ad_queue s)"
    using Nil assms(1) by (auto simp: q_is_empty_def q_items_def admin_ok_def q_ok_def split: option.splits)
  with assms show ?thesis by (simp add: admin_write_handler_def)
next
  case (Cons m ms)
  obtain a where a: "is_answer a m" "length (answer_wire a 0) \<le> 1024" using assms(2) Cons by (auto simp: modest_def)
  from admin_write_answers [OF assms(1) Cons a(1), of junk] a(2) length_answer_wire [of a "msg_param m"]
  obtain q where q: "admin_write_handler junk s = Some (Some (answer_wire a (msg_param m)), s\<lparr>ad_queue := q\<rparr>)"
    "q_items q = ms" "q_ok q" by auto
  moreover have "admin_ok (s\<lparr>ad_queue := q\<rparr>)" "modest (s\<lparr>ad_queue := q\<rparr>)"
    using assms Cons q by (simp_all add: admin_ok_def modest_def)
  ultimately show ?thesis by auto
qed

text \<open>C37
  A whole session is safe when the strings in it are modest. From a well-formed state with memory, in which no value has
  more than 900 characters, and along any interleaving of received buffers that fit, with strings of at most 900
  characters, and of opportunities to write, every handler returns without leaving its memory, and the state stays well
  formed and modest.\<close>

theorem admin_session_safe:
  assumes "heap_rich (ad_heap s)" and "admin_ok s" and "modest s" and "list_all modest_event es"
  shows "\<exists>outs s'. admin_run es s = Some (outs, s') \<and> admin_ok s' \<and> modest s'"
  using assms
proof (induction es arbitrary: s)
  case (Cons e es)
  show ?case
  proof (cases e)
    case (Receive m)
    with admin_read_modest [of s m] Cons.prems obtain s1 where
      "admin_read_handler m s = Some s1" "heap_rich (ad_heap s1)" "admin_ok s1" "modest s1" by auto
    with Cons.IH [of s1] Cons.prems(4) Receive show ?thesis by auto
  next
    case (Transmit junk)
    with admin_write_modest [of s junk] Cons.prems obtain out s1 where
      "admin_write_handler junk s = Some (out, s1)" "ad_heap s1 = ad_heap s" "admin_ok s1" "modest s1" by auto
    with Cons.IH [of s1] Cons.prems(1,4) Transmit show ?thesis by fastforce
  qed
qed auto

theorem admin_session_safe_witness:
  "\<exists>outs s'. admin_run [Receive ([5, 0] @ [0, 0, 0, 4] @ str ''sed'' @ [0]), Transmit [], Receive ([2, 0] @ [0, 0, 0, 0]), Transmit [], Transmit []]
     sample_admin = Some (outs, s')"
proof -
  have "modest sample_admin"
    by (simp add: modest_def sample_admin_def q_ok_empty c_string_def strncpy_def)
  moreover have "list_all modest_event [Receive ([5, 0] @ [0, 0, 0, 4] @ str ''sed'' @ [0]), Transmit [],
      Receive ([2, 0] @ [0, 0, 0, 0]), Transmit [], Transmit []]"
    by (simp add: fits_def size_field_def c_int_id int_range_def c_string_def)
  ultimately show ?thesis using admin_session_safe [OF sample_ok] by fast
qed


section \<open>Where it fails\<close>

text \<open>A request to set a configuration, and one to get it, as they arrive.\<close>

definition set_request :: "byte \<Rightarrow> byte list \<Rightarrow> byte list" where
  "set_request i v = [kind_code SET_CONFIG, i] @ int_bytes (int (length v) + 1) @ v @ [0]"

definition get_request :: "byte \<Rightarrow> byte list" where
  "get_request i = [kind_code GET_CONFIG, i] @ int_bytes 0"

lemma size_field_wire: "int_range n \<Longrightarrow> size_field (a # b # int_bytes n @ xs) = n"
proof -
  assume r: "int_range n"
  have "deserialize_int (a # b # int_bytes n @ xs) 2 = Some (c_int n, 6)"
    using deserialize_int_eq [of 2 "a # b # int_bytes n @ xs" n xs] by simp
  moreover have "deserialize_int (a # b # int_bytes n @ xs) 2 = Some (size_field (a # b # int_bytes n @ xs), 6)"
    by (simp add: deserialize_int_def size_field_def)
  ultimately show ?thesis using r by (simp add: c_int_id)
qed

lemma drop_header: "drop 6 (a # b # int_bytes n @ xs) = xs"
  by (simp add: int_bytes_def)

lemma set_request_fits:
  assumes "0 \<notin> set v" "length v \<le> 1017"
  shows "fits (set_request i v)" "size_field (set_request i v) = int (length v) + 1" "c_string (drop 6 (set_request i v)) = v"
    "length (set_request i v) \<le> 1024"
proof -
  show s: "size_field (set_request i v) = int (length v) + 1"
    using size_field_wire [of "int (length v) + 1" "kind_code SET_CONFIG" i "v @ [0]"] assms(2)
    by (simp add: set_request_def int_range_def)
  have d: "drop 6 (set_request i v) = v @ [0]"
    using drop_header [of "kind_code SET_CONFIG" i "int (length v) + 1" "v @ [0]"] by (simp add: set_request_def)
  have "nat (int (length v) + 1) = length v + 1" by simp
  with s d show "fits (set_request i v)" by (simp add: fits_def set_request_def)
  show "c_string (drop 6 (set_request i v)) = v" using d assms(1) by (simp add: c_string_app)
  show "length (set_request i v) \<le> 1024" using assms(2) by (simp add: set_request_def)
qed

lemma get_request_fits: "fits (get_request i)" "size_field (get_request i) = 0" "length (get_request i) = 6"
  using size_field_wire [of 0 "kind_code GET_CONFIG" i "[]"] by (simp_all add: get_request_def fits_def int_range_def)

text \<open>After a set, a get is answered with the value.\<close>

lemma set_then_get:
  assumes "heap_rich (ad_heap s)" "admin_ok s" "unat i < length (ad_configs s)" "0 \<notin> set v" "length v \<le> 1017"
  shows "\<exists>s1 s2 m1 m2. admin_read_handler (set_request i v) s = Some s1 \<and> admin_read_handler (get_request i) s1 = Some s2
    \<and> q_items (ad_queue s2) = q_items (ad_queue s) @ [m1, m2] \<and> admin_ok s2
    \<and> is_answer (Done SET_CONFIG) m1
    \<and> is_answer (Text GET_CONFIG (answer_text i (c_string (cf_name (ad_configs s ! unat i))) v)) m2"
proof -
  note f = set_request_fits [OF assms(4,5), of i]
  obtain msg s1 where r1: "request_in (set_request i v) msg" "admin_read_handler (set_request i v) s = Some s1" "admin_ok s1"
    and a1: "answered (fst (replies msg (ad_metrics s) (ad_configs s))) s s1"
    and c1: "ad_configs s1 = snd (replies msg (ad_metrics s) (ad_configs s))"
    using admin_read_answers [OF assms(1,2) f(1)] f(4) by fastforce
  obtain b where b: "msg_type msg = kind_code SET_CONFIG" "msg_param msg = i" "msg_buffer_size msg > 0" "msg_buffer msg = Some b"
    "c_string b = v"
    using r1(1) f(2,3) by (auto simp: request_in_def set_request_def)
  have R1: "replies msg (ad_metrics s) (ad_configs s) =
      ([Done SET_CONFIG], (ad_configs s)[unat i := (ad_configs s ! unat i)\<lparr>cf_value := b\<rparr>])"
    using b assms(3) by (simp add: replies_def Let_def kind_code_def)
  obtain m1 where m1: "q_items (ad_queue s1) = q_items (ad_queue s) @ [m1]" "is_answer (Done SET_CONFIG) m1"
    using a1 R1 by (auto simp: answered_def list_all2_Cons1)
  have rich: "heap_rich (ad_heap s1)" using a1 assms(1) by (simp add: answered_def heap_rich_def)
  obtain msg2 s2 where r2: "request_in (get_request i) msg2" "admin_read_handler (get_request i) s1 = Some s2" "admin_ok s2"
    and a2: "answered (fst (replies msg2 (ad_metrics s1) (ad_configs s1))) s1 s2"
    using admin_read_answers [OF rich r1(3) get_request_fits(1)] get_request_fits(3) by fastforce
  have "msg_type msg2 = kind_code GET_CONFIG" "msg_param msg2 = i" using r2(1) by (simp_all add: request_in_def get_request_def)
  then have R2: "fst (replies msg2 (ad_metrics s1) (ad_configs s1)) =
      [Text GET_CONFIG (answer_text i (c_string (cf_name (ad_configs s ! unat i))) v)]"
    using c1 R1 assms(3) b(5) by (simp add: replies_def Let_def kind_code_def config_reply_def)
  obtain m2 where "q_items (ad_queue s2) = q_items (ad_queue s1) @ [m2]"
    "is_answer (Text GET_CONFIG (answer_text i (c_string (cf_name (ad_configs s ! unat i))) v)) m2"
    using a2 R2 by (auto simp: answered_def list_all2_Cons1)
  with m1 r1 r2 show ?thesis by auto
qed

text \<open>
  The write handler does not check that an answer fits its array. A value of 1013 to 1017 characters still arrives in
  a buffer of 1024 bytes and is stored; when it is asked for, the answer is longer by its header and its name, and writing
  it runs over the end of the array on the stack.\<close>

theorem admin_long_value_overflows:
  assumes "heap_rich (ad_heap s)" and "admin_ok s" and "q_items (ad_queue s) = []" and "unat i < length (ad_configs s)"
    and "0 \<notin> set v" and "1013 \<le> length v" and "length v \<le> 1017"
  shows "length (set_request i v) \<le> 1024
    \<and> admin_run [Receive (set_request i v), Receive (get_request i), Transmit junk] s \<noteq> None
    \<and> admin_run [Receive (set_request i v), Receive (get_request i), Transmit junk, Transmit junk'] s = None"
proof -
  let ?t = "answer_text i (c_string (cf_name (ad_configs s ! unat i))) v"
  obtain s1 s2 m1 m2 where r: "admin_read_handler (set_request i v) s = Some s1" "admin_read_handler (get_request i) s1 = Some s2"
    "q_items (ad_queue s2) = [m1, m2]" "admin_ok s2" "is_answer (Done SET_CONFIG) m1" "is_answer (Text GET_CONFIG ?t) m2"
    using set_then_get [OF assms(1,2,4,5,7)] assms(3) by auto
  from admin_write_answers [OF r(4,3,5), of junk] obtain q where
    q: "admin_write_handler junk s2 = Some (Some (answer_wire (Done SET_CONFIG) (msg_param m1)), s2\<lparr>ad_queue := q\<rparr>)"
      "q_items q = [m2]" "q_ok q" by auto
  have ok: "admin_ok (s2\<lparr>ad_queue := q\<rparr>)" using r(3,4) q by (simp add: admin_ok_def)
  have "fmt_d (uint i) \<noteq> []" by (simp add: fmt_d_def)
  then have "1 \<le> length (fmt_d (uint i))" by (cases "fmt_d (uint i)") simp_all
  then have "length ?t \<ge> length v + 5" by (simp add: answer_text_def)
  then have "\<not> length (answer_wire (Text GET_CONFIG ?t) (msg_param m2)) \<le> 1024" using assms(6) by simp
  with admin_write_answers [OF ok _ r(6), of "[]" junk'] q(2) have "admin_write_handler junk' (s2\<lparr>ad_queue := q\<rparr>) = None"
    by simp
  with r(1,2) q(1) set_request_fits(4) [OF assms(5,7)] show ?thesis by simp
qed

theorem admin_long_value_overflows_witness:
  "admin_run [Receive (set_request 0 (replicate 1015 65)), Receive (get_request 0), Transmit [], Transmit []] sample_admin = None"
  using admin_long_value_overflows [OF sample_ok, of 0 "replicate 1015 65" "[]" "[]"]
  by (simp add: sample_admin_def q_ok_empty)

text \<open>
  Running out of memory is not handled. When no \<open>malloc\<close> succeeds any more, every attempt to report the error, and
  with it every request, follows a null pointer.\<close>

theorem admin_out_of_memory:
  assumes "\<And>k n. hp_count (ad_heap s) \<le> k \<Longrightarrow> hp_alloc (ad_heap s) k n = None"
  shows "send_error e s = None \<and> send_end_of_list kind s = None \<and> send_text kind i name val s = None
    \<and> admin_read_handler m s = None"
proof -
  have m: "malloc_msg s = (None, tick s)" using assms by (simp add: malloc_msg_def malloc_def)
  have "malloc_msg (tick s) = (None, tick (tick s))" using assms by (simp add: malloc_msg_def malloc_def tick_def)
  with m show ?thesis
    by (simp add: send_error_def send_end_of_list_def send_text_def admin_read_handler_def)
qed

theorem admin_out_of_memory_witness:
  "send_metric 0 (sample_admin\<lparr>ad_heap := \<lparr>hp_alloc = \<lambda>k n. if k < 7 then zeros n else None, hp_fresh = \<lambda>k. no_msg, hp_count = 7\<rparr>\<rparr>)
     = None"
proof -
  let ?s = "sample_admin\<lparr>ad_heap := \<lparr>hp_alloc = \<lambda>k n. if k < 7 then zeros n else None, hp_fresh = \<lambda>k. no_msg, hp_count = 7\<rparr>\<rparr>"
  have a: "hp_count (ad_heap ?s) \<le> k \<Longrightarrow> hp_alloc (ad_heap ?s) k n = None" for k n by simp
  have "send_text k i name val ?s = None" "send_error e ?s = None" for k i name val e
    using admin_out_of_memory [OF a] by blast+
  then show ?thesis
    by (simp add: send_metric_def bind_eq_None_conv split: option.splits)
qed

end
