(* ===== verification/Management.thy ===== *)
theory Management
  imports AdminClient AdminProperties
begin

text \<open>
  The admin client against the proxy: what a command of the administrator sends, what the proxy's handlers
  answer to it, and what the client prints of the answer.
\<close>

section \<open>What the client sends\<close>

text \<open>The client's heap never refuses.\<close>

definition world_ok :: "world \<Rightarrow> bool" where
  "world_ok w \<longleftrightarrow> (\<forall>k n. \<exists>b. w_alloc w k n = Some b \<and> length b = n) \<and> (\<forall>k. w_sends w k > 0)"

lemma take_overlay: "n = length xs \<Longrightarrow> take n (overlay 0 xs h) = xs"
  by (simp add: overlay_def)

lemma world_okD: "world_ok w \<Longrightarrow> \<exists>b. w_alloc w k n = Some b \<and> length b = n" "world_ok w \<Longrightarrow> 0 < w_sends w k"
  by (simp_all add: world_ok_def)

lemma new_msg_ok:
  "world_ok w \<Longrightarrow> new_msg k pa w =
     Some (\<lparr>c_type = kind_code k, c_param = pa, c_buffer_size = 0, c_buffer = None\<rparr>, w\<lparr>w_count := w_count w + 1\<rparr>)"
proof -
  assume "world_ok w"
  then obtain b where "w_alloc w (w_count w) 16 = Some b" unfolding world_ok_def by blast
  then show ?thesis by (simp add: new_msg_def cl_malloc_def)
qed

lemma cl_send_empty:
  assumes "w_sends w (length (w_sent w)) > 0"
  shows "cl_send_msg \<lparr>c_type = a, c_param = b, c_buffer_size = 0, c_buffer = x\<rparr> w =
     Some (w\<lparr>w_sent := w_sent w @ [a # b # int_bytes 0]\<rparr>)"
proof -
  let ?msg = "\<lparr>msg_type = a, msg_param = b, msg_buffer_size = 0, msg_buffer = x\<rparr>"
  have "msg_ok ?msg" "wire ?msg = a # b # int_bytes 0" by (simp_all add: msg_ok_def wire_def int_range_def)
  with serialize_msg_eq [of ?msg 0 "replicate 1025 0"] assms show ?thesis
    by (simp add: cl_send_msg_def c_serialize_msg_eq as_proxy_msg_def CL_MAX_MSG_SIZE_def take_overlay)
qed

lemma uint_small: "n \<le> 2147483647 \<Longrightarrow> uint (of_nat n :: 32 word) = int n"
  by (simp add: unsigned_of_nat take_bit_nat_eq_self)

lemma cl_send_string:
  assumes "0 \<notin> set v" "length v \<le> 1018" "w_sends w (length (w_sent w)) > 0"
  shows "cl_send_msg \<lparr>c_type = a, c_param = b, c_buffer_size = of_nat (length v) + 1, c_buffer = Some (v @ [0])\<rparr> w =
    Some (w\<lparr>w_sent := w_sent w @ [a # b # int_bytes (int (length v) + 1) @ v @ [0]]\<rparr>)"
proof -
  let ?n = "of_nat (length v) + 1 :: 32 word"
  have "uint ?n = int (length v) + 1" using uint_small [of "length v + 1"] assms(2) by (simp add: add.commute)
  moreover have "msg_ok \<lparr>msg_type = a, msg_param = b, msg_buffer_size = int (length v) + 1, msg_buffer = Some (v @ [0])\<rparr>"
    using assms by (simp add: msg_ok_def int_range_def)
  moreover have "wire \<lparr>msg_type = a, msg_param = b, msg_buffer_size = int (length v) + 1, msg_buffer = Some (v @ [0])\<rparr>
      = a # b # int_bytes (int (length v) + 1) @ v @ [0]"
    using assms(1) takeWhile_nul [of v "[]"] by (simp add: wire_def)
  ultimately show ?thesis
    using serialize_msg_eq [of "\<lparr>msg_type = a, msg_param = b, msg_buffer_size = int (length v) + 1, msg_buffer = Some (v @ [0])\<rparr>"
        0 "replicate 1025 0"] assms(2,3)
    by (simp add: cl_send_msg_def c_serialize_msg_eq as_proxy_msg_def CL_MAX_MSG_SIZE_def take_overlay)
qed


lemma c_deserialize_int_eq:
  "c_deserialize_int m p = map_option (\<lambda>(v, q). (of_int v, q)) (deserialize_int m p)"
proof -
  have "(of_int (c_int x) :: 32 word) = of_int x" for x
  proof -
    obtain k where "c_int x = x + k * 4294967296" using c_int_rep by blast
    moreover have "(of_int (x + k * 4294967296) :: 32 word) = of_int x"
      by (simp only: word_uint_eq_iff uint_word_of_int) simp
    ultimately show ?thesis by simp
  qed
  then show ?thesis by (cases "p + 3 < length m") (auto simp: c_deserialize_int_def deserialize_int_def load_def push_bit_eq_mult)
qed


section \<open>What the client shows\<close>

fun answer_shown :: "answer \<Rightarrow> byte list" where
  "answer_shown (Text k t) = t @ [0, 10]"
| "answer_shown (Done k) = (if k = SET_CONFIG then str ''Seteo realizado!'' @ [10] else [10])"
| "answer_shown (Failed e) = str ''Error: '' @ error_msg_to_string (error_code e) @ [10]"

text \<open>A received answer, at the start of an array.\<close>

fun answer_msg :: "answer \<Rightarrow> byte \<Rightarrow> c_msg_t \<Rightarrow> c_msg_t" where
  "answer_msg (Text k t) pa r = \<lparr>c_type = kind_code k, c_param = pa, c_buffer_size = of_nat (length t) + 1, c_buffer = Some (t @ [0])\<rparr>"
| "answer_msg (Done k) pa r = r\<lparr>c_type := kind_code k, c_param := pa, c_buffer_size := 0\<rparr>"
| "answer_msg (Failed e) pa r = r\<lparr>c_type := kind_code ERROR, c_param := error_code e, c_buffer_size := 0\<rparr>"

text \<open>Answers that fit a message of the protocol; texts are never errors.\<close>

fun proper :: "answer \<Rightarrow> bool" where
  "proper (Text k t) \<longleftrightarrow> k \<noteq> ERROR \<and> k \<noteq> SET_CONFIG \<and> 0 \<notin> set t \<and> length t \<le> 2147483646"
| "proper (Done k) \<longleftrightarrow> k \<noteq> ERROR"
| "proper (Failed e) \<longleftrightarrow> True"

lemma c_deserialize_header:
  "c_deserialize_char (a # b # int_bytes n @ xs) 0 = Some (a, Suc 0)"
  "c_deserialize_char (a # b # int_bytes n @ xs) (Suc 0) = Some (b, 2)"
  "int_range n \<Longrightarrow> c_deserialize_int (a # b # int_bytes n @ xs) 2 = Some (of_int n, 6)"
  using deserialize_header(3) [of 0 "a # b # int_bytes n @ xs" a b n xs]
  by (simp_all add: c_deserialize_char_def c_deserialize_int_eq c_int_id numeral_2_eq_2)

lemma c_deserialize_answer:
  assumes "proper a" "\<forall>n. \<exists>b. alloc n = Some b \<and> length b = n"
  shows "\<exists>q. c_deserialize_msg alloc (answer_wire a pa @ ys) 0 r = Some (answer_msg a pa r, q)"
proof (cases a)
  case (Text k t)
  let ?n = "of_nat (length t) + 1 :: 32 word"
  have n: "uint ?n = int (length t) + 1" using uint_small [of "length t + 1"] assms(1) Text by (simp add: add.commute)
  then have u: "unat ?n = length t + 1" by (metis nat_int of_nat_1 of_nat_add unat_eq_nat_uint)
  obtain b where b: "alloc (length t + 1) = Some b" "length b = length t + 1" using assms(2) by blast
  have "0 \<notin> set t" using assms(1) Text by simp
  from deserialize_string_loop [OF _ this, of 6 "kind_code k # pa # int_bytes (int (length t) + 1) @ t @ [0] @ ys" ys 0 b] b(2)
    drop_header [of "kind_code k" pa "int (length t) + 1" "t @ [0] @ ys"]
  have "deserialize_string (kind_code k # pa # int_bytes (int (length t) + 1) @ t @ [0] @ ys) 6 b = Some (t @ [0], 6 + length t + 1)"
    by (simp add: deserialize_string_def overlay_def)
  moreover have "?n > 0" using n by (simp add: word_less_def)
  moreover have "(of_int (int (length t) + 1) :: 32 word) = ?n" by simp
  moreover have "int_range (int (length t) + 1)" using assms(1) Text by (simp add: int_range_def)
  ultimately show ?thesis
    using Text b u c_deserialize_header [where a = "kind_code k" and b = pa and n = "int (length t) + 1" and xs = "t @ [0] @ ys"]
    by (simp add: c_deserialize_msg_def c_string_functions)
next
  case (Done k)
  with c_deserialize_header [where a = "kind_code k" and b = pa and n = 0 and xs = ys] show ?thesis by (simp add: c_deserialize_msg_def int_range_def)
next
  case (Failed e)
  with c_deserialize_header [where a = "kind_code ERROR" and b = "error_code e" and n = 0 and xs = ys] show ?thesis
    by (simp add: c_deserialize_msg_def int_range_def)
qed


lemma cl_print_answer: "proper a \<Longrightarrow> cl_print_msg (answer_msg a pa r) w = Some (print (answer_shown a) w)"
proof (cases a)
  case (Text k t)
  assume p: "proper a"
  then have "uint (of_nat (length t) + 1 :: 32 word) = int (length t) + 1"
    using uint_small [of "length t + 1"] Text by (simp add: add.commute)
  then have "unat (of_nat (length t) + 1 :: 32 word) = length t + 1" "of_nat (length t) + 1 \<noteq> (0 :: 32 word)"
    by (metis nat_int of_nat_1 of_nat_add unat_eq_nat_uint, force)
  with p Text show ?thesis by (cases k) (simp_all add: cl_print_msg_def kind_code_def)
qed (auto simp: cl_print_msg_def kind_code_def split: msg_kind.splits)

text \<open>What one round of the reply loop does with an answer.\<close>

definition is_text :: "answer \<Rightarrow> bool" where
  "is_text a \<longleftrightarrow> (\<exists>k t. a = Text k t)"

lemma answer_size: "proper a \<Longrightarrow> c_buffer_size (answer_msg a pa r) > 0 \<longleftrightarrow> is_text a"
proof (cases a)
  case (Text k t)
  assume "proper a"
  then have "uint (of_nat (length t) + 1 :: 32 word) = int (length t) + 1"
    using uint_small [of "length t + 1"] Text by (simp add: add.commute)
  with Text show ?thesis by (simp add: is_text_def word_less_def)
qed (simp_all add: is_text_def)

lemma response_round:
  assumes "world_ok w" "proper a" "w_incoming w = (n, answer_wire a pa @ ys) # rest" "0 \<le> n"
  shows "\<exists>w' r'. response_body is_list (r, w) = Some (\<not> (is_list \<and> is_text a), r', w') \<and> w_incoming w' = rest
    \<and> w_sent w' = w_sent w \<and> w_printed w' = w_printed w @ answer_shown a \<and> world_ok w'"
proof -
  have "\<forall>n. \<exists>b. w_alloc w (w_count w) n = Some b \<and> length b = n" using assms(1) by (simp add: world_ok_def)
  from c_deserialize_answer [OF assms(2) this, of pa ys r] obtain q where
    "c_deserialize_msg (w_alloc w (w_count w)) (answer_wire a pa @ ys) 0 r = Some (answer_msg a pa r, q)" by blast
  moreover have "c_buffer_size (answer_msg a pa r) > 0 \<longleftrightarrow> is_text a" by (rule answer_size [OF assms(2)])
  ultimately show ?thesis
    using assms cl_print_answer [OF assms(2), of pa r]
    by (auto simp: response_body_def cl_rcv_msg_def print_def world_ok_def Let_def)
qed

definition arrived :: "int \<Rightarrow> byte list \<Rightarrow> byte list \<Rightarrow> int \<times> byte list" where
  "arrived n pad out = (n, out @ pad)"

lemma shows_one:
  assumes "world_ok w" "proper a" "w_incoming w = arrived n pad (answer_wire a pa) # rest" "0 \<le> n"
  shows "\<exists>w'. get_and_show_response False w = Some w' \<and> w_incoming w' = rest \<and> w_sent w' = w_sent w
    \<and> w_printed w' = w_printed w @ answer_shown a \<and> world_ok w'"
proof -
  obtain w' r' where "response_body False (junk_msg, w) = Some (True, r', w')" "w_incoming w' = rest" "w_sent w' = w_sent w"
    "w_printed w' = w_printed w @ answer_shown a" "world_ok w'"
    using response_round [OF assms(1,2) assms(3) [unfolded arrived_def] assms(4), of False junk_msg] by auto
  then show ?thesis by (simp add: get_and_show_response_def c_loop_break)
qed

lemma shows_list_loop:
  assumes "world_ok w" "list_all2 (\<lambda>a out. \<exists>pa. out = answer_wire a pa) (as @ [Done k]) outs"
    "\<forall>a \<in> set as. proper a \<and> is_text a" "k \<noteq> ERROR"
    "w_incoming w = map (arrived n pad) outs @ rest" "0 \<le> n"
  shows "\<exists>w' r'. c_loop (response_body True) (r, w) = Some (r', w') \<and> w_incoming w' = rest \<and> w_sent w' = w_sent w
    \<and> w_printed w' = w_printed w @ concat (map answer_shown (as @ [Done k])) \<and> world_ok w'"
  using assms
proof (induction as arbitrary: outs w r)
  case Nil
  then obtain pa where i: "w_incoming w = (n, answer_wire (Done k) pa @ pad) # rest"
    by (auto simp: list_all2_Cons1 arrived_def simp del: answer_wire.simps)
  have "proper (Done k)" using Nil.prems(4) by simp
  from response_round [OF Nil.prems(1) this i Nil.prems(6), of True r] show ?case
    by (auto simp: is_text_def c_loop_break)
next
  case (Cons a as)
  then obtain pa outs' where o: "outs = answer_wire a pa # outs'"
    "list_all2 (\<lambda>a out. \<exists>pa. out = answer_wire a pa) (as @ [Done k]) outs'"
    by (auto simp: list_all2_Cons1)
  have i: "w_incoming w = (n, answer_wire a pa @ pad) # (map (arrived n pad) outs' @ rest)"
    using Cons.prems(5) o(1) by (simp add: arrived_def)
  have p: "proper a" "is_text a" using Cons.prems(3) by simp_all
  from response_round [OF Cons.prems(1) p(1) i Cons.prems(6), of True r] p(2) obtain w1 r1 where
    w1: "response_body True (r, w) = Some (False, r1, w1)" "w_incoming w1 = map (arrived n pad) outs' @ rest"
      "w_sent w1 = w_sent w" "w_printed w1 = w_printed w @ answer_shown a" "world_ok w1" by auto
  from Cons.IH [OF w1(5) o(2) _ Cons.prems(4) w1(2) Cons.prems(6), of r1] Cons.prems(3) obtain w' r' where
    "c_loop (response_body True) (r1, w1) = Some (r', w')" "w_incoming w' = rest" "w_sent w' = w_sent w1"
    "w_printed w' = w_printed w1 @ concat (map answer_shown (as @ [Done k]))" "world_ok w'" by auto
  with w1 show ?case by (simp add: c_loop_continue [of "response_body True"])
qed

section \<open>What the proxy sends\<close>

lemma transmits_all:
  assumes "admin_ok s" "q_items (ad_queue s) = ms" "list_all2 is_answer as ms"
    "\<forall>a \<in> set as. length (answer_wire a 0) \<le> 1024"
  shows "\<exists>outs s'. admin_run (replicate (length as) (Transmit junk)) s = Some (map Some outs, s')
    \<and> list_all2 (\<lambda>a out. \<exists>pa. out = answer_wire a pa) as outs \<and> q_items (ad_queue s') = [] \<and> admin_ok s'
    \<and> ad_configs s' = ad_configs s \<and> ad_metrics s' = ad_metrics s \<and> ad_heap s' = ad_heap s"
  using assms
proof (induction as arbitrary: s ms)
  case Nil
  then show ?case by auto
next
  case (Cons a as)
  then obtain m ms' where ms: "ms = m # ms'" "is_answer a m" "list_all2 is_answer as ms'" by (auto simp: list_all2_Cons1)
  have len: "length (answer_wire a (msg_param m)) \<le> 1024" using Cons.prems(4) length_answer_wire [of a "msg_param m"] by simp
  obtain q where q: "admin_write_handler junk s = Some (Some (answer_wire a (msg_param m)), s\<lparr>ad_queue := q\<rparr>)"
    "q_items q = ms'" "q_ok q"
    using admin_write_answers [OF Cons.prems(1) Cons.prems(2) [unfolded ms(1)] ms(2), of junk] len by auto
  have ok: "admin_ok (s\<lparr>ad_queue := q\<rparr>)" using Cons.prems(1,2) ms(1) q by (simp add: admin_ok_def)
  obtain outs s' where r: "admin_run (replicate (length as) (Transmit junk)) (s\<lparr>ad_queue := q\<rparr>) = Some (map Some outs, s')"
    "list_all2 (\<lambda>a out. \<exists>pa. out = answer_wire a pa) as outs" "q_items (ad_queue s') = []" "admin_ok s'"
    "ad_configs s' = ad_configs s" "ad_metrics s' = ad_metrics s" "ad_heap s' = ad_heap s"
    using Cons.IH [OF ok _ ms(3)] Cons.prems(4) q(2) by auto
  show ?case
    using q(1) r by (intro exI [of _ "answer_wire a (msg_param m) # outs"] exI [of _ s']) auto
qed

text \<open>A request and as many opportunities to write as it has answers.\<close>

lemma proxy_serves:
  assumes "heap_rich (ad_heap s)" "admin_ok s" "q_items (ad_queue s) = []" "fits m" "length m \<le> 1024"
  shows "\<exists>msg. request_in m msg \<and>
     ((\<forall>a \<in> set (fst (replies msg (ad_metrics s) (ad_configs s))). length (answer_wire a 0) \<le> 1024) \<longrightarrow>
      (\<exists>outs s'. admin_run (Receive m # replicate (length (fst (replies msg (ad_metrics s) (ad_configs s)))) (Transmit junk)) s
          = Some (map Some outs, s')
        \<and> list_all2 (\<lambda>a out. \<exists>pa. out = answer_wire a pa) (fst (replies msg (ad_metrics s) (ad_configs s))) outs
        \<and> q_items (ad_queue s') = [] \<and> admin_ok s' \<and> heap_rich (ad_heap s')
        \<and> ad_configs s' = snd (replies msg (ad_metrics s) (ad_configs s)) \<and> ad_metrics s' = ad_metrics s))"
proof -
  obtain msg s1 where r: "request_in m msg" "admin_read_handler m s = Some s1" "admin_ok s1"
    and a: "answered (fst (replies msg (ad_metrics s) (ad_configs s))) s s1"
    and cs: "ad_configs s1 = snd (replies msg (ad_metrics s) (ad_configs s))"
    using admin_read_answers [OF assms(1,2,4)] assms(5) by fastforce
  obtain ms where ms: "q_items (ad_queue s1) = ms" "list_all2 is_answer (fst (replies msg (ad_metrics s) (ad_configs s))) ms"
    using a assms(3) by (auto simp: answered_def)
  have "heap_rich (ad_heap s1)" "ad_metrics s1 = ad_metrics s" using a assms(1) by (simp_all add: answered_def heap_rich_def)
  with transmits_all [OF r(3) ms, of junk] r cs show ?thesis by (intro exI [of _ msg]) auto
qed


section \<open>Requests of the client\<close>

definition empty_request :: "msg_kind \<Rightarrow> byte \<Rightarrow> byte list" where
  "empty_request k i = [kind_code k, i] @ int_bytes 0"

lemma empty_request_fits: "fits (empty_request k i)" "size_field (empty_request k i) = 0" "length (empty_request k i) = 6"
  using size_field_wire [of 0 "kind_code k" i "[]"] by (simp_all add: empty_request_def fits_def int_range_def)

lemma request_sends:
  assumes "world_ok w"
  shows "\<exists>w'. request k i is_list w = get_and_show_response is_list w' \<and> w_incoming w' = w_incoming w
    \<and> w_sent w' = w_sent w @ [empty_request k i] \<and> w_printed w' = w_printed w \<and> world_ok w'"
  using assms
  by (simp add: request_def new_msg_ok cl_send_empty empty_request_def world_okD)
    (intro exI [of _ "w\<lparr>w_count := Suc (w_count w), w_sent := w_sent w @ [kind_code k # i # int_bytes 0]\<rparr>"], simp add: world_ok_def)

lemma set_sends:
  assumes "world_ok w" "0 \<notin> set v" "length v \<le> 1018"
  shows "\<exists>w'. req_set_config i v w = get_and_show_response False w' \<and> w_incoming w' = w_incoming w
    \<and> w_sent w' = w_sent w @ [set_request i v] \<and> w_printed w' = w_printed w \<and> world_ok w'"
proof -
  let ?w1 = "w\<lparr>w_count := w_count w + 1\<rparr>"
  let ?w2 = "w\<lparr>w_count := w_count w + 2\<rparr>"
  have "unat (of_nat (length v) + 1 :: 32 word) = length v + 1"
    using uint_small [of "length v + 1"] assms(3) by (simp add: unat_eq_nat_uint add.commute)
  moreover obtain b where "w_alloc w (w_count w + 1) (length v + 1) = Some b" "length b = length v + 1"
    using world_okD(1) [OF assms(1)] by blast
  ultimately have "with_string v (\<lparr>c_type = kind_code SET_CONFIG, c_param = i, c_buffer_size = 0, c_buffer = None\<rparr>, ?w1) =
      Some (\<lparr>c_type = kind_code SET_CONFIG, c_param = i, c_buffer_size = of_nat (length v) + 1, c_buffer = Some (v @ [0])\<rparr>, ?w2)"
    by (simp add: with_string_def cl_malloc_def store_block_def Let_def)
  then have "req_set_config i v w = get_and_show_response False (?w2\<lparr>w_sent := w_sent w @ [set_request i v]\<rparr>)"
    using assms by (simp add: req_set_config_def new_msg_ok cl_send_string set_request_def world_okD)
  with assms(1) show ?thesis
    by (intro exI [of _ "?w2\<lparr>w_sent := w_sent w @ [set_request i v]\<rparr>"]) (simp add: world_ok_def)
qed

lemma metric_reply_text:
  assumes "admin_ok s" "unat i < 5"
  shows "proper (metric_reply (ad_metrics s) i) \<and> is_text (metric_reply (ad_metrics s) i)
      \<and> answer_shown (metric_reply (ad_metrics s) i) = answer_text i (metric_name (all_metrics ! unat i))
              (fmt_f (if unat i = 4 then 6 else 0) (metrics (ad_metrics s) ! unat i)) @ [0, 10]"
proof -
  let ?x = "metrics (ad_metrics s) ! unat i"
  let ?v = "fmt_f (if unat i = 4 then 6 else 0) ?x"
  have "0 \<le> ?x" "?x < 10 ^ 20" using assms by (auto simp: admin_ok_def)
  note v = fmt_f_text [OF this, of "if unat i = 4 then 6 else 0"]
  have "length (answer_text i (metric_name (all_metrics ! unat i)) ?v) \<le> 61" "0 \<notin> set (answer_text i (metric_name (all_metrics ! unat i)) ?v)"
    using v(1,3) metric_name_text [of "all_metrics ! unat i"] answer_text_ok [of "metric_name (all_metrics ! unat i)" ?v i]
    by (auto split: if_splits)
  with assms(2) show ?thesis unfolding metric_reply_def is_text_def by simp
qed

section \<open>Properties\<close>

text \<open>
  The administrator sees all the metrics. The client's request for the list, delivered to the proxy in any well-formed
  state with an empty queue, is answered with six messages, and these, delivered to the client, make it print one line
  for each metric with its number, name and value, and an empty line, and then return.\<close>

theorem metrics_list_end_to_end:
  assumes "heap_rich (ad_heap s)" and "admin_ok s" and "q_items (ad_queue s) = []"
  shows "\<exists>outs s'. admin_run (Receive (empty_request LIST_METRICS 0) # replicate 6 (Transmit junk)) s = Some (map Some outs, s')
    \<and> ad_metrics s' = ad_metrics s \<and> q_items (ad_queue s') = []
    \<and> (\<forall>w n pad rest. world_ok w \<and> 0 \<le> n \<and> w_incoming w = map (arrived n pad) outs @ rest \<longrightarrow>
        (\<exists>w'. req_list_metrics w = Some w' \<and> w_sent w' = w_sent w @ [empty_request LIST_METRICS 0] \<and> w_incoming w' = rest
          \<and> w_printed w' = w_printed w @ concat (map (\<lambda>i. answer_text i (metric_name (all_metrics ! unat i))
              (fmt_f (if unat i = 4 then 6 else 0) (metrics (ad_metrics s) ! unat i)) @ [0, 10]) [0, 1, 2, 3, 4]) @ [10]))"
proof -
  let ?as = "map (metric_reply (ad_metrics s)) [0, 1, 2, 3, 4]"
  obtain msg where msg: "request_in (empty_request LIST_METRICS 0) msg"
    and serve: "(\<forall>a \<in> set (fst (replies msg (ad_metrics s) (ad_configs s))). length (answer_wire a 0) \<le> 1024) \<longrightarrow>
      (\<exists>outs s'. admin_run (Receive (empty_request LIST_METRICS 0) # replicate (length (fst (replies msg (ad_metrics s) (ad_configs s)))) (Transmit junk)) s
          = Some (map Some outs, s')
        \<and> list_all2 (\<lambda>a out. \<exists>pa. out = answer_wire a pa) (fst (replies msg (ad_metrics s) (ad_configs s))) outs
        \<and> q_items (ad_queue s') = [] \<and> admin_ok s' \<and> heap_rich (ad_heap s')
        \<and> ad_configs s' = snd (replies msg (ad_metrics s) (ad_configs s)) \<and> ad_metrics s' = ad_metrics s)"
    using proxy_serves [OF assms empty_request_fits(1), of LIST_METRICS 0 junk] empty_request_fits(3) by auto
  have "msg_type msg = kind_code LIST_METRICS" using msg by (simp add: request_in_def empty_request_def)
  then have R: "fst (replies msg (ad_metrics s) (ad_configs s)) = ?as @ [Done LIST_METRICS]"
    by (simp add: replies_def Let_def kind_code_def)
  have short: "\<forall>a \<in> set (?as @ [Done LIST_METRICS]). length (answer_wire a 0) \<le> 1024"
    using metric_reply_short [OF assms(2)] by auto
  have texts: "proper (metric_reply (ad_metrics s) i) \<and> is_text (metric_reply (ad_metrics s) i)
      \<and> answer_shown (metric_reply (ad_metrics s) i) = answer_text i (metric_name (all_metrics ! unat i))
              (fmt_f (if unat i = 4 then 6 else 0) (metrics (ad_metrics s) ! unat i)) @ [0, 10]" if "unat i < 5" for i
    using metric_reply_text [OF assms(2) that] by simp
  have P: "\<forall>a \<in> set ?as. proper a \<and> is_text a" using texts by simp
  have six: "length (?as @ [Done LIST_METRICS]) = 6" by simp
  from serve [unfolded R, THEN mp, OF short] obtain outs s' where
    "admin_run (Receive (empty_request LIST_METRICS 0) # replicate (length (?as @ [Done LIST_METRICS])) (Transmit junk)) s = Some (map Some outs, s')"
    and outs: "list_all2 (\<lambda>a out. \<exists>pa. out = answer_wire a pa) (?as @ [Done LIST_METRICS]) outs"
    and s': "q_items (ad_queue s') = []" "ad_metrics s' = ad_metrics s" by blast
  then have run: "admin_run (Receive (empty_request LIST_METRICS 0) # replicate 6 (Transmit junk)) s = Some (map Some outs, s')"
    by (simp only: six)
  have A: "\<exists>w'. req_list_metrics w = Some w' \<and> w_sent w' = w_sent w @ [empty_request LIST_METRICS 0] \<and> w_incoming w' = rest
          \<and> w_printed w' = w_printed w @ concat (map answer_shown (?as @ [Done LIST_METRICS]))"
    if w: "world_ok w" "0 \<le> n" "w_incoming w = map (arrived n pad) outs @ rest" for w n pad rest
  proof -
    obtain w1 where w1: "req_list_metrics w = get_and_show_response True w1" "w_incoming w1 = w_incoming w"
      "w_sent w1 = w_sent w @ [empty_request LIST_METRICS 0]" "w_printed w1 = w_printed w" "world_ok w1"
      using request_sends [OF w(1), of LIST_METRICS 0 True] unfolding req_list_metrics_def by blast
    with shows_list_loop [OF w1(5) outs P _ _ w(2), of pad rest junk_msg] w(3) show ?thesis
      by (auto simp: get_and_show_response_def)
  qed
  have E: "concat (map answer_shown (?as @ [Done LIST_METRICS])) = concat (map (\<lambda>i. answer_text i (metric_name (all_metrics ! unat i))
              (fmt_f (if unat i = 4 then 6 else 0) (metrics (ad_metrics s) ! unat i)) @ [0, 10]) [0, 1, 2, 3, 4]) @ [10]"
    using texts by simp
  show ?thesis using run s' A unfolding E by blast
qed


definition sample_world :: "(int \<times> byte list) list \<Rightarrow> world" where
  "sample_world incoming = \<lparr>w_alloc = \<lambda>k. zeros, w_count = 0, w_sends = (\<lambda>k. 6), w_error = (\<lambda>n m. []), w_incoming = incoming, w_stdin = [], w_sent = [], w_printed = []\<rparr>"

lemma sample_world_ok [simp]: "world_ok (sample_world incoming)" "w_incoming (sample_world incoming) = incoming"
  by (simp_all add: world_ok_def sample_world_def zeros_def)

theorem metrics_list_end_to_end_witness:
  "\<exists>outs s' w'. admin_run (Receive (empty_request LIST_METRICS 0) # replicate 6 (Transmit [])) sample_admin = Some (map Some outs, s')
    \<and> req_list_metrics (sample_world (map (arrived 6 []) outs)) = Some w' \<and> w_incoming w' = []"
proof -
  obtain outs s' where r: "admin_run (Receive (empty_request LIST_METRICS 0) # replicate 6 (Transmit [])) sample_admin = Some (map Some outs, s')"
    "\<forall>w n pad rest. world_ok w \<and> 0 \<le> n \<and> w_incoming w = map (arrived n pad) outs @ rest \<longrightarrow>
        (\<exists>w'. req_list_metrics w = Some w' \<and> w_sent w' = w_sent w @ [empty_request LIST_METRICS 0] \<and> w_incoming w' = rest
          \<and> w_printed w' = w_printed w @ concat (map (\<lambda>i. answer_text i (metric_name (all_metrics ! unat i))
              (fmt_f (if unat i = 4 then 6 else 0) (metrics (ad_metrics sample_admin) ! unat i)) @ [0, 10]) [0, 1, 2, 3, 4]) @ [10])"
    using metrics_list_end_to_end [OF sample_ok, of "[]"] by (auto simp: sample_admin_def q_ok_empty)
  have "\<exists>w'. req_list_metrics (sample_world (map (arrived 6 []) outs)) = Some w' \<and> w_incoming w' = []"
    using r(2) [rule_format, of "sample_world (map (arrived 6 []) outs)" 6 "[]" "[]"] by auto
  with r(1) show ?thesis by blast
qed

text \<open>C26
  A configuration that the administrator sets is the one the administrator sees. For a value of at most 900 characters,
  the requests of the client's \<open>req_set_config\<close> and \<open>req_get_config\<close>, delivered to the proxy, are answered
  with two messages, and these, delivered to the client, whose allocations and sends succeed, make it print that the value was set, and then the number of the
  configuration, its name and the new value.\<close>

theorem set_get_end_to_end:
  assumes "heap_rich (ad_heap s)" and "admin_ok s" and "q_items (ad_queue s) = []" and "unat i < length (ad_configs s)"
    and "0 \<notin> set v" and "length v \<le> 900" and "length (c_string (cf_name (ad_configs s ! unat i))) \<le> 21"
  shows "\<exists>o1 o2 s'. admin_run [Receive (set_request i v), Receive (empty_request GET_CONFIG i), Transmit junk, Transmit junk] s
        = Some ([Some o1, Some o2], s')
    \<and> (\<forall>w n pad rest. world_ok w \<and> 0 \<le> n \<and> w_incoming w = arrived n pad o1 # arrived n pad o2 # rest \<longrightarrow>
        (\<exists>w1 w2. req_set_config i v w = Some w1 \<and> req_get_config i w1 = Some w2
          \<and> w_sent w2 = w_sent w @ [set_request i v, empty_request GET_CONFIG i] \<and> w_incoming w2 = rest
          \<and> w_printed w2 = w_printed w @ str ''Seteo realizado!'' @ [10]
              @ answer_text i (c_string (cf_name (ad_configs s ! unat i))) v @ [0, 10]))"
proof -
  let ?t = "answer_text i (c_string (cf_name (ad_configs s ! unat i))) v"
  have g: "get_request i = empty_request GET_CONFIG i" by (simp add: get_request_def empty_request_def)
  have "length v \<le> 1017" using assms(6) by simp
  from set_then_get [OF assms(1,2,4,5) this] obtain s1 s2 m1 m2 where
    r: "admin_read_handler (set_request i v) s = Some s1" "admin_read_handler (empty_request GET_CONFIG i) s1 = Some s2"
      "q_items (ad_queue s2) = [m1, m2]" "admin_ok s2" "is_answer (Done SET_CONFIG) m1" "is_answer (Text GET_CONFIG ?t) m2"
    unfolding g using assms(3) by auto
  have t: "0 \<notin> set ?t" "length ?t \<le> 928"
    using answer_text_ok [of "c_string (cf_name (ad_configs s ! unat i))" v i] assms(5-7) by auto
  have len: "\<forall>a \<in> set [Done SET_CONFIG, Text GET_CONFIG ?t]. length (answer_wire a 0) \<le> 1024" using t by simp
  have ans: "list_all2 is_answer [Done SET_CONFIG, Text GET_CONFIG ?t] [m1, m2]" using r(5,6) by simp
  from transmits_all [OF r(4,3) ans len, of junk] obtain p1 p2 s' where
    run: "admin_run [Transmit junk, Transmit junk] s2 = Some ([Some (answer_wire (Done SET_CONFIG) p1), Some (answer_wire (Text GET_CONFIG ?t) p2)], s')"
    by (auto simp: list_all2_Cons1 numeral_2_eq_2 simp del: answer_wire.simps)
  have P: "proper (Done SET_CONFIG)" "proper (Text GET_CONFIG ?t)" using t by simp_all
  have "\<exists>w1 w2. req_set_config i v w = Some w1 \<and> req_get_config i w1 = Some w2
          \<and> w_sent w2 = w_sent w @ [set_request i v, empty_request GET_CONFIG i] \<and> w_incoming w2 = rest
          \<and> w_printed w2 = w_printed w @ str ''Seteo realizado!'' @ [10] @ ?t @ [0, 10]"
    if w: "world_ok w" "0 \<le> n" "w_incoming w = arrived n pad (answer_wire (Done SET_CONFIG) p1) # arrived n pad (answer_wire (Text GET_CONFIG ?t) p2) # rest"
    for w n pad rest
  proof -
    obtain wa where wa: "req_set_config i v w = get_and_show_response False wa" "w_incoming wa = w_incoming w"
      "w_sent wa = w_sent w @ [set_request i v]" "w_printed wa = w_printed w" "world_ok wa"
      using set_sends [OF w(1) assms(5), of i] assms(6) by auto
    from shows_one [OF wa(5) P(1), of n pad p1] wa(2) w(2,3) obtain w1 where
      w1: "get_and_show_response False wa = Some w1" "w_incoming w1 = arrived n pad (answer_wire (Text GET_CONFIG ?t) p2) # rest"
        "w_sent w1 = w_sent wa" "w_printed w1 = w_printed wa @ answer_shown (Done SET_CONFIG)" "world_ok w1" by auto
    obtain wb where wb: "req_get_config i w1 = get_and_show_response False wb" "w_incoming wb = w_incoming w1"
      "w_sent wb = w_sent w1 @ [empty_request GET_CONFIG i]" "w_printed wb = w_printed w1" "world_ok wb"
      using request_sends [OF w1(5), of GET_CONFIG i False] unfolding req_get_config_def by auto
    from shows_one [OF wb(5) P(2), of n pad p2] wb(2) w1(2) w(2) obtain w2 where
      "get_and_show_response False wb = Some w2" "w_incoming w2 = rest" "w_sent w2 = w_sent wb"
        "w_printed w2 = w_printed wb @ answer_shown (Text GET_CONFIG ?t)" by auto
    with wa w1 wb show ?thesis by simp
  qed
  with r(1,2) run show ?thesis by fastforce
qed


theorem set_get_end_to_end_witness:
  "\<exists>o1 o2 s' w1 w2. admin_run [Receive (set_request 0 (str ''sed'')), Receive (empty_request GET_CONFIG 0), Transmit [], Transmit []] sample_admin
        = Some ([Some o1, Some o2], s')
    \<and> req_set_config 0 (str ''sed'') (sample_world [arrived 9 [] o1, arrived 9 [] o2]) = Some w1 \<and> req_get_config 0 w1 = Some w2
    \<and> w_printed w2 = str ''Seteo realizado!'' @ [10] @ str ''(0)cmd: sed'' @ [0, 10]"
proof -
  have d: "digits 0 = [48]" by (subst digits.simps) simp
  have n: "c_string (cf_name (ad_configs sample_admin ! unat 0)) = str ''cmd''"
    by (simp add: sample_admin_def c_string_def strncpy_def)
  have t: "answer_text 0 (str ''cmd'') (str ''sed'') = str ''(0)cmd: sed''" by (simp add: answer_text_def fmt_d_def d)
  have l: "unat (0 :: byte) < length (ad_configs sample_admin)" by (simp add: sample_admin_def)
  have q: "q_items (ad_queue sample_admin) = []" by (simp add: sample_admin_def q_ok_empty)
  have "length (c_string (cf_name (ad_configs sample_admin ! unat 0))) \<le> 21" unfolding n by simp
  from set_get_end_to_end [OF sample_ok q l _ _ this, of "str ''sed''" "[]"] obtain o1 o2 s' where
    r: "admin_run [Receive (set_request 0 (str ''sed'')), Receive (empty_request GET_CONFIG 0), Transmit [], Transmit []] sample_admin
        = Some ([Some o1, Some o2], s')"
    and W: "\<forall>w n pad rest. world_ok w \<and> 0 \<le> n \<and> w_incoming w = arrived n pad o1 # arrived n pad o2 # rest \<longrightarrow>
        (\<exists>w1 w2. req_set_config 0 (str ''sed'') w = Some w1 \<and> req_get_config 0 w1 = Some w2
          \<and> w_sent w2 = w_sent w @ [set_request 0 (str ''sed''), empty_request GET_CONFIG 0] \<and> w_incoming w2 = rest
          \<and> w_printed w2 = w_printed w @ str ''Seteo realizado!'' @ [10] @ answer_text 0 (str ''cmd'') (str ''sed'') @ [0, 10])"
    unfolding n by (auto simp del: admin_run.simps)
  from W [rule_format, of "sample_world [arrived 9 [] o1, arrived 9 [] o2]" 9 "[]" "[]"] r show ?thesis
    unfolding t by (auto simp: sample_world_def world_ok_def zeros_def)
qed

section \<open>Commands\<close>

text \<open>A number as it is typed.\<close>

lemma foldl_digits: "foldl (\<lambda>a d. a * 10 + uint (d - 48)) (int a) ds = int (foldl (\<lambda>a d. a * 10 + unat (d - 48)) a ds)"
proof (induction ds arbitrary: a)
  case (Cons d ds)
  have A: "int a * 10 + uint (d - 48) = int (a * 10 + unat (d - 48))" by simp
  show ?case unfolding foldl_Cons A by (rule Cons.IH)
qed simp

lemma c_atoi_digits: "n < 2147483648 \<Longrightarrow> c_atoi (digits n) = int n"
proof -
  assume n: "n < 2147483648"
  obtain d ds where d: "digits n = d # ds" by (cases "digits n") auto
  have dd: "isdigit d" using digits_isdigit [of d n] d by simp
  then have h: "\<not> isspace d" "d \<noteq> 45" "d \<noteq> 43" by (auto simp: isdigit_def isspace_def word_le_nat_alt)
  have "takeWhile isdigit (digits n) = digits n" using digits_isdigit by (intro takeWhile_eq_all_conv [THEN iffD2]) auto
  moreover have "digits_value (digits n) = int n"
    using foldl_digits [of 0 "digits n"] digits_decimal [of n] by (simp add: digits_value_def decimal_def)
  ultimately show ?thesis using h n d by (simp add: c_atoi_def c_int_id int_range_def)
qed


lemma skip_blanks_eq:
  "drop i buffer = replicate k 32 @ c # ys \<Longrightarrow> c \<noteq> 32 \<Longrightarrow> skip_blanks buffer i = Some (i + k)"
proof (induction k arbitrary: i)
  case 0
  then have "load buffer i = Some c" using load_drop [of i buffer c ys] by simp
  with 0 show ?case by (simp add: skip_blanks_def skip_body_def c_loop_break)
next
  case (Suc k)
  then have "load buffer i = Some 32" "drop (i + 1) buffer = replicate k 32 @ c # ys"
    using load_drop [of i buffer 32] by simp_all
  with Suc show ?case by (simp add: skip_blanks_def skip_body_def c_loop_continue)
qed

lemma copy_loop:
  "drop i buffer = xs @ stop # ys \<Longrightarrow> stop \<notin> set xs \<Longrightarrow> length buffer = MAX_READ \<Longrightarrow> length param \<le> i \<Longrightarrow>
     c_loop (copy_body stop buffer) (i, param) = Some (i + length xs, param @ xs)"
proof (induction xs arbitrary: i param)
  case Nil
  then have "load buffer i = Some stop" "i < length buffer" using load_drop [of i buffer stop ys] by (auto simp: load_def split: if_splits)
  with Nil show ?case by (simp add: copy_body_def c_loop_break)
next
  case (Cons x xs)
  then have l: "load buffer i = Some x" "drop (i + 1) buffer = xs @ stop # ys" using load_drop [of i buffer x] by simp_all
  then have "i < length buffer" by (auto simp: load_def split: if_splits)
  with l Cons.prems have "copy_body stop buffer (i, param) = Some (False, i + 1, param @ [x])"
    by (auto simp: copy_body_def)
  with Cons.IH [OF l(2), of "param @ [x]"] Cons.prems show ?case by (simp add: c_loop_continue)
qed

lemma copy_field_eq:
  assumes "drop i buffer = xs @ stop # ys" "stop \<notin> set xs" "length buffer = MAX_READ"
  shows "copy_field stop buffer i = Some (i + length xs, c_string xs)"
proof -
  have "length xs < length (drop i buffer)" using assms(1) by simp
  then have "length xs < MAX_READ" using assms(3) by simp
  with copy_loop [OF assms, of "[]"] show ?thesis by (simp add: copy_field_def)
qed

text \<open>A line that was typed stands at the start of the buffer.\<close>

lemma typed_line:
  assumes "length line \<le> MAX_READ" "length b = MAX_READ"
  shows "read_stdin b (Some line # ins) = Some (line @ drop (length line) b, ins)" "length (line @ drop (length line) b) = MAX_READ"
  using assms by (simp_all add: overlay_def)

lemma get_command:
  assumes s: "cl_mode s = CL_START" "length (cl_buffer s) = MAX_READ" "w_stdin (cl_world s) = Some line # ins" "length line \<le> MAX_READ"
    and l: "line = str ''4'' @ replicate k 32 @ digits n @ [10]" "n < 256"
  shows "\<exists>s1 b. cl_step s = Some (False, s1) \<and> cl_step s1 = do { w' \<leftarrow> req_get_config (of_nat n) ((show_menu (cl_world s))\<lparr>w_stdin := ins\<rparr>);
        Some (False, s\<lparr>cl_buffer := b, cl_i := 1 + k + length (digits n), cl_world := w', cl_mode := CL_START\<rparr>) }"
proof -
  define b where "b = line @ drop (length line) (cl_buffer s)"
  note t = typed_line [OF s(4,2), folded b_def]
  obtain d ds where d: "digits n = d # ds" by (cases "digits n") auto
  have "isdigit d" using digits_isdigit [of d n] d by simp
  then have d32: "d \<noteq> 32" by (auto simp: isdigit_def)
  have no10: "10 \<notin> set (digits n)" "0 \<notin> set (digits n)" using digits_isdigit [of 10 n] digits_isdigit [of 0 n] by (auto simp: isdigit_def)
  have "\<forall>x \<in> set (digits n). x \<noteq> 0" using no10(2) by metis
  then have no_NUL: "c_string (digits n) = digits n" by (simp add: c_string_def takeWhile_eq_all_conv)
  have b4: "load b 0 = Some 52" by (simp add: b_def l)
  have "drop 1 b = replicate k 32 @ d # (ds @ 10 # drop (length line) (cl_buffer s))" by (simp add: b_def l d)
  from skip_blanks_eq [OF this d32] have sk: "skip_blanks b 1 = Some (1 + k)" .
  have "drop (1 + k) b = digits n @ 10 # drop (length line) (cl_buffer s)" by (simp add: b_def l)
  from copy_field_eq [OF this no10(1) t(2)] have cp: "copy_field 10 b (1 + k) = Some (1 + k + length (digits n), digits n)"
    using no_NUL by simp
  let ?w = "(show_menu (cl_world s))\<lparr>w_stdin := ins\<rparr>"
  let ?s1 = "s\<lparr>cl_buffer := b, cl_i := 1 + k, cl_world := ?w, cl_mode := GCONFIG\<rparr>"
  have "cl_start s = Some ?s1"
    using t(1) b4 sk s(3) by (simp add: cl_start_def show_menu_def print_def cmd_def kind_code_def Let_def)
  moreover have "cl_params ?s1 = do { w' \<leftarrow> req_get_config (of_nat n) ?w;
      Some (s\<lparr>cl_buffer := b, cl_i := 1 + k + length (digits n), cl_world := w', cl_mode := CL_START\<rparr>) }"
    using cp c_atoi_digits [of n] l(2) by (simp add: cl_params_def)
  ultimately show ?thesis using s(1) by (intro exI [of _ ?s1] exI [of _ b]) (simp add: cl_step_def)
qed

lemma other_command:
  assumes s: "cl_mode s = CL_START" "length (cl_buffer s) = MAX_READ" "w_stdin (cl_world s) = Some line # ins" "length line \<le> MAX_READ"
    and l: "line = c # xs @ [10]" "c \<notin> {10, 48, 49, 50, 51, 52, 53, 54}" "10 \<notin> set xs"
  shows "\<exists>s1 b. cl_step s = Some (False, s1) \<and> cl_step s1 = do { w' \<leftarrow> send_credentials (c_string (c # xs)) ((show_menu (cl_world s))\<lparr>w_stdin := ins\<rparr>);
        Some (False, s\<lparr>cl_buffer := b, cl_i := length (c # xs), cl_world := w', cl_mode := CL_START\<rparr>) }"
proof -
  define b where "b = line @ drop (length line) (cl_buffer s)"
  note t = typed_line [OF s(4,2), folded b_def]
  have b0: "load b 0 = Some c" by (simp add: b_def l)
  have "drop 0 b = (c # xs) @ 10 # drop (length line) (cl_buffer s)" "10 \<notin> set (c # xs)" using l by (simp_all add: b_def)
  from copy_field_eq [OF this t(2)] have cp: "copy_field 10 b 0 = Some (length (c # xs), c_string (c # xs))" by simp
  let ?w = "(show_menu (cl_world s))\<lparr>w_stdin := ins\<rparr>"
  let ?s1 = "s\<lparr>cl_buffer := b, cl_i := 0, cl_world := ?w, cl_mode := CRED\<rparr>"
  have "cl_start s = Some ?s1"
    using t(1) b0 s(3) l(2) by (simp add: cl_start_def show_menu_def print_def cmd_def kind_code_def Let_def)
  moreover have "cl_params ?s1 = do { w' \<leftarrow> send_credentials (c_string (c # xs)) ?w;
      Some (s\<lparr>cl_buffer := b, cl_i := length (c # xs), cl_world := w', cl_mode := CL_START\<rparr>) }"
    using cp by (simp add: cl_params_def)
  ultimately show ?thesis using s(1) by (intro exI [of _ ?s1] exI [of _ b]) (simp add: cl_step_def)
qed

text \<open>
  What the administrator types is what is asked. The line \<open>4\<close>, blanks and a number below 256 makes the next two
  rounds of the client's loop run \<open>req_get_config\<close> with that number, and nothing else, and come back to the start; a
  line that begins with none of the commands' digits is not refused but falls through, and is sent to the proxy as a password.\<close>

theorem commands_run:
  assumes "cl_mode s = CL_START" and "length (cl_buffer s) = MAX_READ" and "w_stdin (cl_world s) = Some line # ins"
    and "length line \<le> MAX_READ"
  shows "(line = str ''4'' @ replicate k 32 @ digits n @ [10] \<and> n < 256 \<longrightarrow>
      (\<exists>s1 b. cl_step s = Some (False, s1) \<and> cl_step s1 = do { w' \<leftarrow> req_get_config (of_nat n) ((show_menu (cl_world s))\<lparr>w_stdin := ins\<rparr>);
        Some (False, s\<lparr>cl_buffer := b, cl_i := 1 + k + length (digits n), cl_world := w', cl_mode := CL_START\<rparr>) }))
    \<and> (line = c # xs @ [10] \<and> c \<notin> {10, 48, 49, 50, 51, 52, 53, 54} \<and> 10 \<notin> set xs \<longrightarrow>
      (\<exists>s1 b. cl_step s = Some (False, s1) \<and> cl_step s1 = do { w' \<leftarrow> send_credentials (c_string (c # xs)) ((show_menu (cl_world s))\<lparr>w_stdin := ins\<rparr>);
        Some (False, s\<lparr>cl_buffer := b, cl_i := length (c # xs), cl_world := w', cl_mode := CL_START\<rparr>) }))"
  using get_command [OF assms] other_command [OF assms] by blast

definition sample_session :: session where
  "sample_session = \<lparr>cl_mode = CL_START, cl_buffer = replicate MAX_READ 0, cl_i = 0,
     cl_world = (sample_world [])\<lparr>w_stdin := [Some (str ''hola'' @ [10])]\<rparr>\<rparr>"

theorem commands_run_witness:
  "\<exists>s1 w'. cl_step sample_session = Some (False, s1) \<and> send_credentials (str ''hola'') ((show_menu (cl_world sample_session))\<lparr>w_stdin := []\<rparr>) = Some w'
    \<and> w_sent w' = [[0, 0] @ [0, 0, 0, 5] @ str ''hola'' @ [0]]"
proof -
  have A: "cl_mode sample_session = CL_START" "length (cl_buffer sample_session) = MAX_READ"
    "w_stdin (cl_world sample_session) = Some (str ''hola'' @ [10]) # []" "length (str ''hola'' @ [10]) \<le> MAX_READ"
    by (simp_all add: sample_session_def MAX_READ_def)
  obtain s1 where s1: "cl_step sample_session = Some (False, s1)"
    using commands_run [OF A, of 0 0 104 "str ''ola''"] by auto
  let ?w = "(show_menu (cl_world sample_session))\<lparr>w_stdin := []\<rparr>"
  have w: "world_ok ?w" "w_sent ?w = []" by (simp_all add: world_ok_def show_menu_def print_def sample_session_def sample_world_def zeros_def)
  have "w_alloc ?w = (\<lambda>k. zeros)" by (simp add: show_menu_def print_def sample_session_def sample_world_def)
  then have "with_string (str ''hola'') (\<lparr>c_type = kind_code SEND_CRED, c_param = 0, c_buffer_size = 0, c_buffer = None\<rparr>, ?w\<lparr>w_count := w_count ?w + 1\<rparr>)
      = Some (\<lparr>c_type = kind_code SEND_CRED, c_param = 0, c_buffer_size = of_nat (length (str ''hola'')) + 1, c_buffer = Some (str ''hola'' @ [0])\<rparr>,
          ?w\<lparr>w_count := w_count ?w + 2\<rparr>)"
    by (simp add: with_string_def cl_malloc_def store_block_def zeros_def Let_def)
  then have "send_credentials (str ''hola'') ?w = Some (?w\<lparr>w_count := w_count ?w + 2, w_sent := [[0, 0] @ [0, 0, 0, 5] @ str ''hola'' @ [0]]\<rparr>)"
    using w cl_send_string [of "str ''hola''" "?w\<lparr>w_count := w_count ?w + 2\<rparr>" "kind_code SEND_CRED" 0] world_okD(2) [OF w(1)]
    by (simp add: send_credentials_def new_msg_ok kind_code_def int_bytes_def)
  with s1 show ?thesis by auto
qed

text \<open>
  At the end of the input \<open>read\<close> returns 0, which the loop does not look at: the old contents of the buffer are taken
  for the next command, for ever.
\<close>

lemma end_of_input_repeats:
  assumes "length (cl_buffer s) = MAX_READ"
  shows "cl_start (s\<lparr>cl_world := (cl_world s)\<lparr>w_stdin := Some [] # ins\<rparr>\<rparr>) =
    cl_start (s\<lparr>cl_world := (cl_world s)\<lparr>w_stdin := Some (cl_buffer s) # ins\<rparr>\<rparr>)"
proof -
  have "w\<lparr>w_stdin := x, w_printed := y, w_stdin := z\<rparr> = w\<lparr>w_printed := y, w_stdin := z\<rparr>" for w x y z
    by (cases w) simp
  with assms show ?thesis by (simp add: cl_start_def show_menu_def print_def overlay_def Let_def cong: if_cong)
qed

end
