(* ===== verification/AdminMain.thy ===== *)
theory AdminMain
  imports Management
begin

text \<open>
  \<open>admin_client/src/main.c\<close> as a whole: the arguments of the program, the socket, and the loop over the commands.
  The answers of \<open>socket\<close>, \<open>inet_pton\<close> and \<open>setsockopt\<close> are arguments.
\<close>

text \<open>What is printed before the program ends with 1, or the socket and the port of the peer.\<close>

definition cl_setup :: "byte list list \<Rightarrow> int \<Rightarrow> int \<Rightarrow> int \<Rightarrow> string + int \<times> int" where
  "cl_setup argv socket inet_pton setsockopt =
     (if length argv \<noteq> 3 then Inl ''Usage: admin_client [ip] [port]''
      else if socket < 0 then Inl ''creating socket''
      else if inet_pton \<le> 0 then Inl ''inet_pton''
      else if setsockopt < 0 then Inl ''setting socket options''
      else Inr (socket, c_atoi (argv ! 2) mod 65536))"

definition cl_program :: "byte list \<Rightarrow> byte list list \<Rightarrow> int \<Rightarrow> int \<Rightarrow> int \<Rightarrow> world \<Rightarrow> (int \<times> world) option" where
  "cl_program junk argv socket inet_pton setsockopt w =
     (case cl_setup argv socket inet_pton setsockopt of
        Inl err_msg \<Rightarrow> Some (1, print (str err_msg @ [10]) w)
      | Inr _ \<Rightarrow> do { w' \<leftarrow> cl_main junk w; Some (0, w') })"

text \<open>The program ends with 1 only before it has read or sent anything.\<close>

lemma cl_program_exit_1:
  "cl_program junk argv socket inet_pton setsockopt w = Some (1, w') \<Longrightarrow> w_sent w' = w_sent w \<and> w_stdin w' = w_stdin w \<and> w_incoming w' = w_incoming w"
  by (auto simp: cl_program_def print_def split: sum.splits bind_splits)

end
