(* ===== verification/Platform.thy ===== *)
theory Platform
  imports Buffer
begin

text \<open>
  The operating system as the proxy sees it. What the system answers is not under the program's
  control, so the state holds the answers: the \<open>k\<close>-th call of the run is answered by the \<open>k\<close>-th
  entry. What the program does to its descriptors is recorded in a trace. Of the system it is only
  assumed that \<open>read\<close> and \<open>write\<close> do not move more bytes than they were asked to, and that \<open>malloc\<close>
  gives a block of the size asked for.
\<close>

datatype os_event = Written int "byte list" | Shut int

record platform =
  pf_reads :: "nat \<Rightarrow> byte list option"
  pf_results :: "nat \<Rightarrow> int"
  pf_blocks :: "nat \<Rightarrow> byte list option"
  pf_count :: nat
  pf_trace :: "os_event list"

definition pf_next :: "platform \<Rightarrow> platform" where
  "pf_next p = p\<lparr>pf_count := pf_count p + 1\<rparr>"

definition sys_read :: "nat \<Rightarrow> platform \<Rightarrow> byte list option \<times> platform" where
  "sys_read n p = (map_option (take n) (pf_reads p (pf_count p)), pf_next p)"

definition sys_write :: "int \<Rightarrow> byte list \<Rightarrow> platform \<Rightarrow> int \<times> platform" where
  "sys_write fd xs p =
     (let r = pf_results p (pf_count p); n = min (nat r) (length xs)
      in if r < 0 then (- 1, pf_next p)
         else (int n, (pf_next p)\<lparr>pf_trace := pf_trace p @ [Written fd (take n xs)]\<rparr>))"

definition sys_close :: "int \<Rightarrow> platform \<Rightarrow> platform" where
  "sys_close fd p = p\<lparr>pf_trace := pf_trace p @ [Shut fd]\<rparr>"

text \<open>Any other call that answers with a number.\<close>

definition sys_call :: "platform \<Rightarrow> int \<times> platform" where
  "sys_call p = (pf_results p (pf_count p), pf_next p)"

definition sys_malloc :: "nat \<Rightarrow> platform \<Rightarrow> byte list option \<times> platform" where
  "sys_malloc n p = (map_option (\<lambda>junk. take n (junk @ replicate n 0)) (pf_blocks p (pf_count p)), pf_next p)"

text \<open>Reading from memory a block of \<open>n\<close> bytes at \<open>p\<close>.\<close>

definition load_block :: "'a list \<Rightarrow> nat \<Rightarrow> nat \<Rightarrow> 'a list option" where
  "load_block m p n = (if p + n \<le> length m then Some (take n (drop p m)) else None)"

text \<open>The bytes the program has written to a descriptor, in order.\<close>

fun written_to :: "int \<Rightarrow> os_event list \<Rightarrow> byte list" where
  "written_to fd [] = []"
| "written_to fd (Written f xs # es) = (if f = fd then xs else []) @ written_to fd es"
| "written_to fd (Shut f # es) = written_to fd es"

lemma written_to_append [simp]: "written_to fd (xs @ ys) = written_to fd xs @ written_to fd ys"
  by (induction fd xs rule: written_to.induct) simp_all

lemma sys_read_length: "sys_read n p = (Some xs, p') \<Longrightarrow> length xs \<le> n"
  by (auto simp: sys_read_def)

lemma pf_next_trace [simp]: "pf_trace (pf_next p) = pf_trace p"
  by (simp add: pf_next_def)

lemma sys_read_trace: "sys_read n p = (r, p') \<Longrightarrow> pf_trace p' = pf_trace p"
  by (auto simp: sys_read_def)

lemma sys_write_cases:
  assumes "sys_write fd xs p = (r, p')"
  shows "r = - 1 \<and> pf_trace p' = pf_trace p
    \<or> (\<exists>n \<le> length xs. r = int n \<and> pf_trace p' = pf_trace p @ [Written fd (take n xs)])"
  using assms by (auto simp: sys_write_def Let_def split: if_splits)

section \<open>Between a descriptor and a buffer\<close>

text \<open>
  The pattern of the handlers: \<open>read\<close> into the free part of a buffer, \<open>write\<close> from its pending part. The
  buffer's pointers are moved by the caller, with what came back.
\<close>

definition read_into :: "buffer \<Rightarrow> platform \<Rightarrow> (int \<times> buffer \<times> platform) option" where
  "read_into b p =
     do {
       (ptr, space) \<leftarrow> buffer_write_ptr b;
       let (r, p') = sys_read space p;
       case r of
         None \<Rightarrow> Some (- 1, b, p')
       | Some xs \<Rightarrow> do { d \<leftarrow> store_block (data b) ptr xs; Some (int (length xs), b\<lparr>data := d\<rparr>, p') }
     }"

definition write_from :: "int \<Rightarrow> buffer \<Rightarrow> platform \<Rightarrow> (int \<times> platform) option" where
  "write_from fd b p =
     do {
       (ptr, size) \<leftarrow> buffer_read_ptr b;
       xs \<leftarrow> load_block (data b) ptr size;
       Some (sys_write fd xs p)
     }"

lemma read_into_some:
  assumes "buf_inv b" "pf_reads p (pf_count p) = Some ys"
  defines "xs \<equiv> take (room b) ys"
  shows "\<exists>b'. read_into b p = Some (int (length xs), b', pf_next p) \<and> length xs \<le> room b
    \<and> buffer_write_adv b' (int (length xs)) = Some (pushes b xs)"
proof -
  let ?d = "take (wr b) (data b) @ xs @ drop (wr b + length xs) (data b)"
  note i = buf_invD [OF assms(1)]
  have l: "length xs \<le> room b" by (simp add: xs_def)
  have d: "store_block (data b) (wr b) xs = Some ?d" using i by (simp add: xs_def store_block_def room_def)
  have "read_into b p = Some (int (length xs), b\<lparr>data := ?d\<rparr>, pf_next p)"
    using assms(2) i d by (simp add: read_into_def buffer_write_ptr_def sys_read_def room_def xs_def)
  moreover have "buffer_write_adv (b\<lparr>data := ?d\<rparr>) (int (length xs)) = Some (pushes b xs)"
    unfolding pushes_closed [OF assms(1) l] using i l by (simp add: buffer_write_adv_def room_def Let_def)
  ultimately show ?thesis using l by blast
qed

lemma read_into_eq:
  assumes "buf_inv b"
  shows "(\<exists>p'. read_into b p = Some (- 1, b, p') \<and> pf_trace p' = pf_trace p)
    \<or> (\<exists>xs b' p'. read_into b p = Some (int (length xs), b', p') \<and> length xs \<le> room b
        \<and> buffer_write_adv b' (int (length xs)) = Some (pushes b xs) \<and> pf_trace p' = pf_trace p)"
proof (cases "pf_reads p (pf_count p)")
  case None
  then show ?thesis using buf_invD(3) [OF assms]
    by (simp add: read_into_def buffer_write_ptr_def sys_read_def)
next
  case (Some ys)
  then show ?thesis using read_into_some [OF assms] pf_next_trace [of p] by blast
qed

lemma write_from_eq:
  assumes "buf_inv b"
  shows "write_from fd b p = Some (sys_write fd (pending b) p)"
  using buf_invD [OF assms] by (simp add: write_from_def buffer_read_ptr_def load_block_def pending_def)

text \<open>However much \<open>write\<close> takes, what was written and what is still pending make up what was pending.\<close>

lemma write_conserves:
  assumes "buf_inv b" "sys_write fd (pending b) p = (n, p')"
  shows "\<exists>b'. buffer_read_adv b n = Some b' \<and> buf_inv b' \<and> written_to fd (pf_trace p') @ pending b' = written_to fd (pf_trace p) @ pending b
    \<and> (\<forall>f. f \<noteq> fd \<longrightarrow> written_to f (pf_trace p') = written_to f (pf_trace p)) \<and> (n \<le> 0 \<longrightarrow> pending b' = pending b)"
  using sys_write_cases [OF assms(2)]
proof (elim disjE exE conjE)
  assume "n = - 1" "pf_trace p' = pf_trace p"
  then show ?thesis using assms(1) by (intro exI [of _ b]) (simp add: buffer_read_adv_def)
next
  fix k assume "k \<le> length (pending b)" "n = int k" "pf_trace p' = pf_trace p @ [Written fd (take k (pending b))]"
  then show ?thesis using assms(1) by (intro exI [of _ "skip k b"]) (simp add: buf_eqs buf_view)
qed

end
