(* ===== verification/Messages.thy ===== *)
theory Messages
  imports Serializer Platform
begin

text \<open>
  \<open>proxy_http/src/messages/messages.c\<close>, which is linked into the proxy though its handlers send and receive
  themselves. What \<open>sctp_recvmsg\<close> gives is an argument, what \<open>sctp_sendmsg\<close> is to send is the result, and
  so is what is printed.
\<close>

section \<open>Operations\<close>

text \<open>
  The array on the stack holds \<open>MAX_MSG_SIZE + 1\<close> bytes. The message is serialized into it, but what is sent
  starts at \<open>msg\<close>: \<open>obj\<close> is the memory from there on.
\<close>

definition stack_buffer :: "byte list \<Rightarrow> byte list" where
  "stack_buffer junk = take 1025 (junk @ replicate 1025 0)"

definition send_msg :: "byte list \<Rightarrow> byte list \<Rightarrow> msg_t \<Rightarrow> byte list option" where
  "send_msg junk obj msg = do { (buffer, pointer) \<leftarrow> serialize_msg (stack_buffer junk) 0 msg; load_block obj 0 pointer }"

text \<open>The result of \<open>sctp_recvmsg\<close> is not looked at: without a message the array is read as it is.\<close>

definition rcv_msg :: "alloc \<Rightarrow> byte list \<Rightarrow> byte list option \<Rightarrow> msg_t \<Rightarrow> (int \<times> msg_t) option" where
  "rcv_msg alloc junk received msg =
     (let buffer = stack_buffer junk;
          (read_quan, array) = (case received of None \<Rightarrow> (- 1, buffer) | Some xs \<Rightarrow> (int (min 1025 (length xs)), take 1025 xs @ drop (length xs) buffer))
      in do { (msg', _) \<leftarrow> deserialize_msg alloc array 0 msg; Some (read_quan, msg') })"

definition print_body :: "msg_t \<Rightarrow> int \<times> byte list \<Rightarrow> (bool \<times> int \<times> byte list) option" where
  "print_body msg st =
     (case st of (i, out) \<Rightarrow>
        if i < msg_buffer_size msg then do { b \<leftarrow> msg_buffer msg; c \<leftarrow> load b (nat i); Some (False, i + 1, out @ [c]) }
        else Some (True, i, out))"

definition print_msg :: "msg_t \<Rightarrow> byte list option" where
  "print_msg msg = do { (_, out) \<leftarrow> c_loop (print_body msg) (0, []); Some (out @ [10]) }"

section \<open>Facts\<close>

lemma length_stack_buffer [simp]: "length (stack_buffer junk) = 1025"
  by (simp add: stack_buffer_def)

text \<open>What is sent is not the message but as many bytes of its struct as the message would have.\<close>

lemma send_msg_sends_struct:
  assumes "msg_ok msg" "length (wire msg) \<le> 1025" "length (wire msg) \<le> length obj"
  shows "send_msg junk obj msg = Some (take (length (wire msg)) obj)"
  using serialize_msg_eq [OF assms(1), of 0 "stack_buffer junk"] assms(2,3) by (simp add: send_msg_def load_block_def)

lemma print_loop:
  "msg_buffer msg = Some b \<Longrightarrow> msg_buffer_size msg = int (i + length ys) \<Longrightarrow> drop i b = ys @ zs \<Longrightarrow>
    c_loop (print_body msg) (int i, out) = Some (int (i + length ys), out @ ys)"
proof (induction ys arbitrary: i out)
  case Nil
  then show ?case by (simp add: c_loop_break print_body_def)
next
  case (Cons y ys)
  note d = load_drop [of i b y "ys @ zs"]
  have "print_body msg (int i, out) = Some (False, int (Suc i), out @ [y])" using Cons.prems d by (simp add: print_body_def)
  then have "c_loop (print_body msg) (int i, out) = c_loop (print_body msg) (int (Suc i), out @ [y])" by (rule c_loop_continue)
  with Cons.IH [of "Suc i" "out @ [y]"] Cons.prems d show ?case by simp
qed

lemma print_msg_text:
  assumes "msg_ok msg"
  shows "print_msg msg = Some ((if msg_buffer_size msg > 0 then the (msg_buffer msg) else []) @ [10])"
proof (cases "msg_buffer_size msg > 0")
  case False
  then show ?thesis by (simp add: print_msg_def print_body_def c_loop_break)
next
  case True
  then obtain s where "msg_buffer msg = Some (s @ [0])" "msg_buffer_size msg = int (length s) + 1" using assms by (auto simp: msg_ok_def)
  with print_loop [of msg "s @ [0]" 0 "s @ [0]" "[]" "[]"] show ?thesis by (simp add: print_msg_def)
qed

text \<open>A message that comes in full is stored and printed as it was meant.\<close>

lemma received_msg_printed:
  assumes "msg_ok msg" "length (wire msg) \<le> 1025" "alloc_ok alloc" "msg_buffer_size msg > 0 \<longrightarrow> alloc (nat (msg_buffer_size msg)) \<noteq> None"
  shows "\<exists>m. rcv_msg alloc junk (Some (wire msg)) msg0 = Some (int (length (wire msg)), m)
    \<and> print_msg m = Some ((if msg_buffer_size msg > 0 then the (msg_buffer msg) else []) @ [10])"
proof -
  let ?m = "msg0\<lparr>msg_type := msg_type msg, msg_param := msg_param msg, msg_buffer_size := msg_buffer_size msg,
      msg_buffer := if msg_buffer_size msg > 0 then msg_buffer msg else msg_buffer msg0\<rparr>"
  have "drop 0 (take 1025 (wire msg) @ drop (length (wire msg)) (stack_buffer junk)) = wire msg @ drop (length (wire msg)) (stack_buffer junk)"
    using assms(2) by simp
  from deserialize_wire [OF assms(1) this assms(3,4), of msg0] have "rcv_msg alloc junk (Some (wire msg)) msg0 = Some (int (length (wire msg)), ?m)"
    using assms(2) by (simp add: rcv_msg_def)
  moreover have "msg_ok ?m" using assms(1) by (auto simp: msg_ok_def)
  from print_msg_text [OF this] have "print_msg ?m = Some ((if msg_buffer_size msg > 0 then the (msg_buffer msg) else []) @ [10])" by simp
  ultimately show ?thesis by blast
qed

end
