(* ===== verification/Selector.thy ===== *)
theory Selector
  imports Prelude
begin

unbundle bit_operations_syntax

text \<open>
  \<open>proxy_http/src/selector/selector.c\<close>, \<open>include/selector/selector.h\<close>: the multiplexer of the main
  thread. A table of items, indexed by file descriptor, holds for each registered descriptor its handler,
  its interest and the user's data; \<open>selector_select\<close> waits for ready descriptors and calls their
  handlers, then those whose blocking job ended.

  A \<open>fd_handler\<close> is a name \<open>'h\<close>; a table of callbacks gives for a name and an event the function the
  struct has there, or \<open>None\<close> for a null pointer. A callback works on the selector and on the rest of
  the program's state \<open>'w\<close>. The selector is one object that every operation gets; its tests for a null
  selector are left out. The waiting times and the thread's identity are not modelled: the end of
  \<open>pselect\<close> is an argument of \<open>selector_select\<close>.

  \<open>block\<close> counts the reallocations of the table. A pointer to an item that was taken before one must
  not be followed after it.
\<close>

section \<open>Data\<close>

datatype selector_status = SELECTOR_SUCCESS | SELECTOR_ENOMEM | SELECTOR_MAXFD | SELECTOR_IARGS
  | SELECTOR_FDINUSE | SELECTOR_IO

definition selector_error :: "selector_status \<Rightarrow> string" where
  "selector_error status = (case status of
     SELECTOR_SUCCESS \<Rightarrow> ''Success''
   | SELECTOR_ENOMEM \<Rightarrow> ''Not enough memory''
   | SELECTOR_MAXFD \<Rightarrow> ''Can'' @ CHR 0x27 # ''t handle any more file descriptors''
   | SELECTOR_IARGS \<Rightarrow> ''Illegal argument''
   | SELECTOR_IO \<Rightarrow> ''I/O error''
   | _ \<Rightarrow> ''something failed'')"

type_synonym fd_interest = "32 word"

definition OP_NOOP :: fd_interest where "OP_NOOP = 0"
definition OP_READ :: fd_interest where "OP_READ = 1"
definition OP_WRITE :: fd_interest where "OP_WRITE = 4"

definition wants :: "fd_interest \<Rightarrow> fd_interest \<Rightarrow> bool" where
  "wants op i \<longleftrightarrow> op AND i \<noteq> 0"

datatype fd_event = HANDLE_READ | HANDLE_WRITE | HANDLE_BLOCK | HANDLE_CLOSE

record 'd selector_key =
  key_fd :: int
  key_data :: "'d option"

record ('h, 'd) item =
  it_fd :: int
  it_interest :: fd_interest
  it_handler :: "'h option"
  it_data :: "'d option"

text \<open>\<open>fds\<close> is the block the pointer leads to, \<open>[]\<close> for a null pointer.\<close>

record ('h, 'd) fdselector =
  fds :: "('h, 'd) item list"
  fd_size :: nat
  max_fd :: int
  master_r :: "int set"
  master_w :: "int set"
  slave_r :: "int set"
  slave_w :: "int set"
  resolution_mutex :: bool
  resolution_jobs :: "int list"
  block :: nat

type_synonym ('h, 'd, 'w) callback =
  "'d selector_key \<Rightarrow> ('h, 'd) fdselector \<times> 'w \<Rightarrow> (('h, 'd) fdselector \<times> 'w) option"

type_synonym ('h, 'd, 'w) callbacks = "'h \<Rightarrow> fd_event \<Rightarrow> ('h, 'd, 'w) callback option"

definition FD_UNUSED :: int where "FD_UNUSED = - 1"

definition ITEM_USED :: "('h, 'd) item \<Rightarrow> bool" where
  "ITEM_USED it \<longleftrightarrow> FD_UNUSED \<noteq> it_fd it"

definition FD_SETSIZE :: nat where "FD_SETSIZE = 1024"
definition ITEMS_MAX_SIZE :: nat where "ITEMS_MAX_SIZE = FD_SETSIZE"

definition INVALID_FD :: "int \<Rightarrow> bool" where
  "INVALID_FD fd \<longleftrightarrow> fd < 0 \<or> fd \<ge> int ITEMS_MAX_SIZE"

text \<open>An item of blank memory, as \<open>calloc\<close> and \<open>memset\<close> leave it.\<close>

definition blank_item :: "('h, 'd) item" where
  "blank_item = \<lparr>it_fd = 0, it_interest = OP_NOOP, it_handler = None, it_data = None\<rparr>"

text \<open>The macros on \<open>fd_set\<close>; a number outside \<open>0 .. FD_SETSIZE - 1\<close> leaves the object.\<close>

definition FD_CLR :: "int \<Rightarrow> int set \<Rightarrow> int set option" where
  "FD_CLR fd S = (if 0 \<le> fd \<and> fd < int FD_SETSIZE then Some (S - {fd}) else None)"

definition FD_SET :: "int \<Rightarrow> int set \<Rightarrow> int set option" where
  "FD_SET fd S = (if 0 \<le> fd \<and> fd < int FD_SETSIZE then Some (insert fd S) else None)"

definition FD_ISSET :: "int \<Rightarrow> int set \<Rightarrow> bool option" where
  "FD_ISSET fd S = (if 0 \<le> fd \<and> fd < int FD_SETSIZE then Some (fd \<in> S) else None)"

section \<open>The table\<close>

fun bit_count :: "nat \<Rightarrow> nat" where
  "bit_count tmp = (if tmp \<noteq> 0 then Suc (bit_count (tmp div 2)) else 0)"

declare bit_count.simps [simp del]

text \<open>A shift of \<open>1UL\<close> by 64 or more is undefined.\<close>

definition next_capacity :: "nat \<Rightarrow> nat option" where
  "next_capacity n =
     (let bits = bit_count n
      in if bits < 64 then
           (let tmp = 2 ^ bits
            in if tmp \<ge> n then Some ((if tmp > ITEMS_MAX_SIZE then ITEMS_MAX_SIZE else tmp) + 1) else None)
         else None)"

definition item_at :: "('h, 'd) fdselector \<Rightarrow> nat \<Rightarrow> ('h, 'd) item option" where
  "item_at s i = load (fds s) i"

text \<open>Follow, after calls, the pointer to item \<open>i\<close> that was taken when the block was \<open>b\<close>.\<close>

definition item_ref :: "nat \<Rightarrow> ('h, 'd) fdselector \<Rightarrow> nat \<Rightarrow> ('h, 'd) item option" where
  "item_ref b s i = (if block s = b then item_at s i else None)"

definition put_item :: "('h, 'd) fdselector \<Rightarrow> nat \<Rightarrow> ('h, 'd) item \<Rightarrow> ('h, 'd) fdselector option" where
  "put_item s i it = do { m \<leftarrow> store (fds s) i it; Some (s\<lparr>fds := m\<rparr>) }"

definition item_init :: "('h, 'd) item \<Rightarrow> ('h, 'd) item" where
  "item_init it = it\<lparr>it_fd := FD_UNUSED\<rparr>"

definition items_init :: "('h, 'd) fdselector \<Rightarrow> nat \<Rightarrow> ('h, 'd) fdselector option" where
  "items_init s prev =
     (if prev \<le> fd_size s \<and> fd_size s \<le> length (fds s)
      then Some (s\<lparr>fds := take prev (fds s) @ map item_init (drop prev (take (fd_size s) (fds s)))
             @ drop (fd_size s) (fds s)\<rparr>)
      else None)"

definition items_max_fd :: "('h, 'd) fdselector \<Rightarrow> int option" where
  "items_max_fd s =
     (if max_fd s < int (length (fds s))
      then Some (fold (\<lambda>it max. if ITEM_USED it \<and> it_fd it > max then it_fd it else max)
             (take (nat (max_fd s + 1)) (fds s)) 0)
      else None)"

definition items_update_fdset_for_fd ::
    "('h, 'd) fdselector \<Rightarrow> ('h, 'd) item \<Rightarrow> ('h, 'd) fdselector option" where
  "items_update_fdset_for_fd s it =
     do {
       r \<leftarrow> FD_CLR (it_fd it) (master_r s);
       w \<leftarrow> FD_CLR (it_fd it) (master_w s);
       if ITEM_USED it then do {
         r' \<leftarrow> (if wants (it_interest it) OP_READ then FD_SET (it_fd it) r else Some r);
         w' \<leftarrow> (if wants (it_interest it) OP_WRITE then FD_SET (it_fd it) w else Some w);
         Some (s\<lparr>master_r := r', master_w := w'\<rparr>)
       } else Some (s\<lparr>master_r := r, master_w := w\<rparr>)
     }"

definition SIZE_MAX :: nat where "SIZE_MAX = 2 ^ 64 - 1"
definition SIZEOF_ITEM :: nat where "SIZEOF_ITEM = 24"

text \<open>
  \<open>mem\<close> is the answer of \<open>calloc\<close> or \<open>realloc\<close>: no memory, or memory in which \<open>realloc\<close> leaves item
  \<open>i\<close> beyond the old ones as \<open>junk i\<close>.
\<close>

definition ensure_capacity :: "(nat \<Rightarrow> ('h, 'd) item) option \<Rightarrow> ('h, 'd) fdselector \<Rightarrow> nat
    \<Rightarrow> (selector_status \<times> ('h, 'd) fdselector) option" where
  "ensure_capacity mem s n =
     (if n < fd_size s then Some (SELECTOR_SUCCESS, s)
      else if n > ITEMS_MAX_SIZE then Some (SELECTOR_MAXFD, s)
      else if fds s = [] then do {
        new_size \<leftarrow> next_capacity n;
        case mem of
          None \<Rightarrow> Some (SELECTOR_ENOMEM, s)
        | Some _ \<Rightarrow> do {
            s' \<leftarrow> items_init (s\<lparr>fds := replicate new_size blank_item, fd_size := new_size, block := block s + 1\<rparr>) 0;
            Some (SELECTOR_SUCCESS, s')
          }
      } else do {
        new_size \<leftarrow> next_capacity n;
        if new_size > SIZE_MAX div SIZEOF_ITEM then Some (SELECTOR_ENOMEM, s)
        else (case mem of
          None \<Rightarrow> Some (SELECTOR_ENOMEM, s)
        | Some junk \<Rightarrow>
            (let old_size = fd_size s
             in do {
               s' \<leftarrow> items_init (s\<lparr>fds := take new_size (fds s) @ map junk [length (fds s)..<new_size],
                       fd_size := new_size, block := block s + 1\<rparr>) old_size;
               Some (SELECTOR_SUCCESS, s')
             }))
      })"

section \<open>Registration\<close>

definition selector_register :: "(nat \<Rightarrow> ('h, 'd) item) option \<Rightarrow> int \<Rightarrow> 'h option \<Rightarrow> fd_interest \<Rightarrow> 'd option
    \<Rightarrow> ('h, 'd) fdselector \<Rightarrow> (selector_status \<times> ('h, 'd) fdselector) option" where
  "selector_register mem fd handler interest data s =
     (if INVALID_FD fd \<or> handler = None then Some (SELECTOR_IARGS, s)
      else (let ufd = nat fd in do {
        (ret, s1) \<leftarrow> (if ufd > fd_size s then ensure_capacity mem s ufd else Some (SELECTOR_SUCCESS, s));
        if ret \<noteq> SELECTOR_SUCCESS then Some (ret, s1)
        else do {
          it \<leftarrow> item_at s1 ufd;
          if ITEM_USED it then Some (SELECTOR_FDINUSE, s1)
          else (let it' = \<lparr>it_fd = fd, it_interest = interest, it_handler = handler, it_data = data\<rparr> in do {
            s2 \<leftarrow> put_item s1 ufd it';
            s3 \<leftarrow> items_update_fdset_for_fd (if fd > max_fd s2 then s2\<lparr>max_fd := fd\<rparr> else s2) it';
            Some (SELECTOR_SUCCESS, s3)
          })
        }
      }))"

definition call_close :: "('h, 'd, 'w) callbacks \<Rightarrow> ('h, 'd) item \<Rightarrow> ('h, 'd) fdselector \<times> 'w
    \<Rightarrow> (('h, 'd) fdselector \<times> 'w) option" where
  "call_close tab it sw =
     do {
       h \<leftarrow> it_handler it;
       case tab h HANDLE_CLOSE of
         None \<Rightarrow> Some sw
       | Some f \<Rightarrow> f \<lparr>key_fd = it_fd it, key_data = it_data it\<rparr> sw
     }"

definition selector_unregister_fd :: "('h, 'd, 'w) callbacks \<Rightarrow> int \<Rightarrow> ('h, 'd) fdselector \<times> 'w
    \<Rightarrow> (selector_status \<times> ('h, 'd) fdselector \<times> 'w) option" where
  "selector_unregister_fd tab fd sw =
     (case sw of (s, w) \<Rightarrow>
       if INVALID_FD fd then Some (SELECTOR_IARGS, s, w)
       else do {
         it \<leftarrow> item_at s (nat fd);
         if \<not> ITEM_USED it then Some (SELECTOR_IARGS, s, w)
         else do {
           (s1, w1) \<leftarrow> call_close tab it (s, w);
           it1 \<leftarrow> item_ref (block s) s1 (nat fd);
           let it2 = it1\<lparr>it_interest := OP_NOOP\<rparr>;
           s2 \<leftarrow> put_item s1 (nat fd) it2;
           s3 \<leftarrow> items_update_fdset_for_fd s2 it2;
           s4 \<leftarrow> put_item s3 (nat fd) (item_init blank_item);
           m \<leftarrow> items_max_fd s4;
           Some (SELECTOR_SUCCESS, s4\<lparr>max_fd := m\<rparr>, w1)
         }
       })"

definition selector_set_interest :: "int \<Rightarrow> fd_interest \<Rightarrow> ('h, 'd) fdselector
    \<Rightarrow> (selector_status \<times> ('h, 'd) fdselector) option" where
  "selector_set_interest fd i s =
     (if INVALID_FD fd then Some (SELECTOR_IARGS, s)
      else do {
        it \<leftarrow> item_at s (nat fd);
        if \<not> ITEM_USED it then Some (SELECTOR_IARGS, s)
        else do {
          s1 \<leftarrow> put_item s (nat fd) (it\<lparr>it_interest := i\<rparr>);
          s2 \<leftarrow> items_update_fdset_for_fd s1 (it\<lparr>it_interest := i\<rparr>);
          Some (SELECTOR_SUCCESS, s2)
        }
      })"

definition selector_set_interest_key :: "'d selector_key option \<Rightarrow> fd_interest \<Rightarrow> ('h, 'd) fdselector
    \<Rightarrow> (selector_status \<times> ('h, 'd) fdselector) option" where
  "selector_set_interest_key key i s =
     (case key of
        None \<Rightarrow> Some (SELECTOR_IARGS, s)
      | Some k \<Rightarrow> if INVALID_FD (key_fd k) then Some (SELECTOR_IARGS, s) else selector_set_interest (key_fd k) i s)"

section \<open>Creation and destruction\<close>

text \<open>The loop of \<open>selector_destroy\<close> reads the size and the table anew each time.\<close>

definition destroy_body :: "('h, 'd, 'w) callbacks \<Rightarrow> nat \<times> ('h, 'd) fdselector \<times> 'w
    \<Rightarrow> (bool \<times> nat \<times> ('h, 'd) fdselector \<times> 'w) option" where
  "destroy_body tab st =
     (case st of (i, s, w) \<Rightarrow>
       if i < fd_size s then do {
         it \<leftarrow> item_at s i;
         (s', w') \<leftarrow> (if ITEM_USED it then do { (_, r) \<leftarrow> selector_unregister_fd tab (int i) (s, w); Some r }
                      else Some (s, w));
         Some (False, i + 1, s', w')
       } else Some (True, i, s, w))"

definition selector_destroy :: "('h, 'd, 'w) callbacks \<Rightarrow> ('h, 'd) fdselector \<Rightarrow> 'w \<Rightarrow> 'w option" where
  "selector_destroy tab s w =
     (if fds s \<noteq> [] then do { (_, _, w') \<leftarrow> c_loop (destroy_body tab) (0, s, w); Some w' }
      else Some w)"

definition zeroed_selector :: "('h, 'd) fdselector" where
  "zeroed_selector = \<lparr>fds = [], fd_size = 0, max_fd = 0, master_r = {}, master_w = {}, slave_r = {},
     slave_w = {}, resolution_mutex = False, resolution_jobs = [], block = 0\<rparr>"

text \<open>\<open>ok\<close> says whether the first \<open>malloc\<close> succeeds; the inner \<open>None\<close> is a null result.\<close>

definition selector_new :: "('h, 'd, 'w) callbacks \<Rightarrow> bool \<Rightarrow> (nat \<Rightarrow> ('h, 'd) item) option \<Rightarrow> nat \<Rightarrow> 'w
    \<Rightarrow> (('h, 'd) fdselector option \<times> 'w) option" where
  "selector_new tab ok mem initial_elements w =
     (if ok then do {
        (ret, s) \<leftarrow> ensure_capacity mem zeroed_selector initial_elements;
        if ret \<noteq> SELECTOR_SUCCESS then do { w' \<leftarrow> selector_destroy tab s w; Some (None, w') }
        else Some (Some s, w)
      } else Some (None, w))"

section \<open>Dispatch\<close>

text \<open>The call of a handler that must not be null: \<open>assert\<close> or the call itself fails.\<close>

definition call_handler :: "('h, 'd, 'w) callbacks \<Rightarrow> ('h, 'd) item \<Rightarrow> fd_event \<Rightarrow> 'd selector_key
    \<Rightarrow> ('h, 'd) fdselector \<times> 'w \<Rightarrow> (('h, 'd) fdselector \<times> 'w) option" where
  "call_handler tab it ev key sw = do { h \<leftarrow> it_handler it; f \<leftarrow> tab h ev; f key sw }"

definition iteration_step :: "('h, 'd, 'w) callbacks \<Rightarrow> nat \<Rightarrow> ('h, 'd) fdselector \<times> 'w
    \<Rightarrow> (('h, 'd) fdselector \<times> 'w) option" where
  "iteration_step tab i sw =
     (case sw of (s, w) \<Rightarrow> do {
       it \<leftarrow> item_at s i;
       if ITEM_USED it then (let key = \<lparr>key_fd = it_fd it, key_data = it_data it\<rparr> in do {
         r \<leftarrow> FD_ISSET (it_fd it) (slave_r s);
         (s1, w1) \<leftarrow> (if r \<and> wants OP_READ (it_interest it) then call_handler tab it HANDLE_READ key (s, w)
                      else Some (s, w));
         wr \<leftarrow> FD_ISSET (int i) (slave_w s1);
         if wr then do {
           it1 \<leftarrow> item_ref (block s) s1 i;
           if wants OP_WRITE (it_interest it1) then call_handler tab it1 HANDLE_WRITE key (s1, w1)
           else Some (s1, w1)
         } else Some (s1, w1)
       }) else Some (s, w)
     })"

text \<open>\<open>steps f is x\<close> runs \<open>f\<close> for each of the indices \<open>is\<close>.\<close>

primrec steps :: "('i \<Rightarrow> 's \<Rightarrow> 's option) \<Rightarrow> 'i list \<Rightarrow> 's \<Rightarrow> 's option" where
  "steps f [] x = Some x"
| "steps f (i # is) x = Option.bind (f i x) (steps f is)"

definition handle_iteration :: "('h, 'd, 'w) callbacks \<Rightarrow> ('h, 'd) fdselector \<times> 'w
    \<Rightarrow> (('h, 'd) fdselector \<times> 'w) option" where
  "handle_iteration tab sw = steps (iteration_step tab) [0..<nat (max_fd (fst sw) + 1)] sw"

definition notification_step :: "('h, 'd, 'w) callbacks \<Rightarrow> int \<Rightarrow> ('h, 'd) fdselector \<times> 'w
    \<Rightarrow> (('h, 'd) fdselector \<times> 'w) option" where
  "notification_step tab j sw =
     (case sw of (s, w) \<Rightarrow> do {
       it \<leftarrow> (if 0 \<le> j then item_at s (nat j) else None);
       if ITEM_USED it
       then call_handler tab it HANDLE_BLOCK \<lparr>key_fd = it_fd it, key_data = it_data it\<rparr> (s, w)
       else Some (s, w)
     })"

text \<open>A thread that locks the mutex while it holds it never comes back.\<close>

definition handle_block_notifications :: "('h, 'd, 'w) callbacks \<Rightarrow> ('h, 'd) fdselector \<times> 'w
    \<Rightarrow> (('h, 'd) fdselector \<times> 'w) option" where
  "handle_block_notifications tab sw =
     (case sw of (s, w) \<Rightarrow>
       if resolution_mutex s then None
       else do {
         (s', w') \<leftarrow> steps (notification_step tab) (resolution_jobs s) (s\<lparr>resolution_mutex := True\<rparr>, w);
         Some (s'\<lparr>resolution_jobs := [], resolution_mutex := False\<rparr>, w')
       })"

definition selector_notify_block :: "bool \<Rightarrow> int \<Rightarrow> ('h, 'd) fdselector
    \<Rightarrow> (selector_status \<times> ('h, 'd) fdselector) option" where
  "selector_notify_block mem fd s =
     (if \<not> mem then Some (SELECTOR_ENOMEM, s)
      else if resolution_mutex s then None
      else Some (SELECTOR_SUCCESS, s\<lparr>resolution_jobs := fd # resolution_jobs s\<rparr>))"

text \<open>How \<open>pselect\<close> ends: with the ready descriptors, or with an error.\<close>

datatype poll_result = Ready "int set" "int set" | Errno_EAGAIN | Errno_EINTR | Errno_EBADF | Errno_other

definition selector_select :: "('h, 'd, 'w) callbacks \<Rightarrow> poll_result \<Rightarrow> ('h, 'd) fdselector \<times> 'w
    \<Rightarrow> (selector_status \<times> ('h, 'd) fdselector \<times> 'w) option" where
  "selector_select tab poll sw =
     (case sw of (s, w) \<Rightarrow>
       let s0 = s\<lparr>slave_r := master_r s, slave_w := master_w s\<rparr>;
           notify = (\<lambda>sw. do { sw' \<leftarrow> handle_block_notifications tab sw; Some (SELECTOR_SUCCESS, sw') })
       in case poll of
          Ready r wr \<Rightarrow> do {
            sw' \<leftarrow> handle_iteration tab (s0\<lparr>slave_r := slave_r s0 \<inter> r, slave_w := slave_w s0 \<inter> wr\<rparr>, w);
            notify sw'
          }
        | Errno_EAGAIN \<Rightarrow> notify (s0, w)
        | Errno_EINTR \<Rightarrow> notify (s0, w)
        | Errno_EBADF \<Rightarrow> Some (SELECTOR_IO, s0, w)
        | Errno_other \<Rightarrow> Some (SELECTOR_IO, s0, w))"

section \<open>Set-up\<close>

text \<open>\<open>sigprocmask\<close> and \<open>sigaction\<close> are their results; the configuration is stored in any case.\<close>

definition selector_init :: "'c \<Rightarrow> int \<Rightarrow> int \<Rightarrow> selector_status \<times> 'c" where
  "selector_init c sigprocmask sigaction =
     (if - 1 = sigprocmask then (SELECTOR_IO, c)
      else if sigaction \<noteq> 0 then (SELECTOR_IO, c)
      else (SELECTOR_SUCCESS, c))"

definition selector_close :: selector_status where
  "selector_close = SELECTOR_SUCCESS"

definition O_NONBLOCK :: "32 word" where "O_NONBLOCK = 2048"

text \<open>
  \<open>getfd\<close> is the result of \<open>fcntl(fd, F_GETFD)\<close>, \<open>setfl\<close> that of \<open>fcntl(fd, F_SETFL, flags)\<close>; the
  second component is the flags that were set, if any.
\<close>

definition selector_fd_set_nio :: "32 word \<Rightarrow> (32 word \<Rightarrow> int) \<Rightarrow> int \<times> 32 word option" where
  "selector_fd_set_nio getfd setfl =
     (let flags = getfd
      in if flags = - 1 then (- 1, None)
         else if setfl (flags OR O_NONBLOCK) = - 1 then (- 1, Some (flags OR O_NONBLOCK))
         else (0, Some (flags OR O_NONBLOCK)))"

end
