(* ===== verification/SelectorFacts.thy ===== *)
theory SelectorFacts
  imports Selector
begin

unbundle bit_operations_syntax

text \<open>
  The invariant of the selector and the effect of each operation of the table on it. An entry of the
  table is unused or carries its own index; the sets given to \<open>pselect\<close> are those of the items' interests,
  and \<open>max_fd\<close> is the largest descriptor in use. The abstract view of a selector is the map from
  descriptors to what was registered for them.
\<close>

section \<open>Capacity\<close>

lemma bit_count_bounds: "n < 2 ^ bit_count n \<and> (n \<noteq> 0 \<longrightarrow> 2 ^ bit_count n \<le> 2 * n)"
proof (induction n rule: bit_count.induct)
  case (1 n)
  show ?case
  proof (cases "n = 0")
    case False
    then have "bit_count n = Suc (bit_count (n div 2))" by (simp add: bit_count.simps [of n])
    moreover have "n div 2 \<noteq> 0 \<or> n = 1" using False by auto
    ultimately show ?thesis using 1 False by (auto simp: bit_count.simps [of 0])
  qed (simp add: bit_count.simps [of 0])
qed

lemma next_capacity_grows:
  assumes "n \<le> ITEMS_MAX_SIZE"
  shows "\<exists>m. next_capacity n = Some m \<and> n < m \<and> 2 \<le> m \<and> m \<le> ITEMS_MAX_SIZE + 1"
proof -
  have m: "ITEMS_MAX_SIZE = 1024" by (simp add: ITEMS_MAX_SIZE_def FD_SETSIZE_def)
  have b: "n < 2 ^ bit_count n" "n \<noteq> 0 \<longrightarrow> 2 ^ bit_count n \<le> 2 * n" using bit_count_bounds [of n] by auto
  have "(2::nat) ^ bit_count n < 2 ^ 12" using b(2) assms m by (cases "n = 0") (auto simp: bit_count.simps [of 0])
  then have "bit_count n < 12" by (rule power_less_imp_less_exp [rotated]) simp
  moreover have "(1::nat) \<le> 2 ^ bit_count n" by simp
  ultimately show ?thesis using b(1) assms m by (auto simp: next_capacity_def Let_def)
qed

section \<open>The invariant\<close>

definition entry_ok :: "nat \<Rightarrow> ('h, 'd) item \<Rightarrow> bool" where
  "entry_ok i it \<longleftrightarrow> it_fd it = FD_UNUSED \<or> it_fd it = int i \<and> i < FD_SETSIZE \<and> it_handler it \<noteq> None"

definition items_ok :: "('h, 'd) item list \<Rightarrow> bool" where
  "items_ok its \<longleftrightarrow> (\<forall>i < length its. entry_ok i (its ! i))"

definition used :: "('h, 'd) item list \<Rightarrow> nat \<Rightarrow> bool" where
  "used its i \<longleftrightarrow> i < length its \<and> ITEM_USED (its ! i)"

definition interested :: "fd_interest \<Rightarrow> ('h, 'd) item list \<Rightarrow> int set" where
  "interested op its = {int i |i. used its i \<and> wants op (it_interest (its ! i))}"

definition is_top :: "('h, 'd) item list \<Rightarrow> int \<Rightarrow> bool" where
  "is_top its t \<longleftrightarrow> 0 \<le> t \<and> (\<forall>i. used its i \<longrightarrow> int i \<le> t) \<and> (t = 0 \<or> used its (nat t))"

definition sel_wf :: "('h, 'd) fdselector \<Rightarrow> bool" where
  "sel_wf s \<longleftrightarrow> fd_size s = length (fds s) \<and> 2 \<le> length (fds s) \<and> length (fds s) \<le> ITEMS_MAX_SIZE + 1
     \<and> items_ok (fds s) \<and> is_top (fds s) (max_fd s)
     \<and> master_r s = interested OP_READ (fds s) \<and> master_w s = interested OP_WRITE (fds s)"

text \<open>What was registered for each descriptor.\<close>

definition registered :: "('h, 'd) fdselector \<Rightarrow> int \<rightharpoonup> 'h \<times> fd_interest \<times> 'd option" where
  "registered s fd =
     (if 0 \<le> fd \<and> used (fds s) (nat fd)
      then (let it = fds s ! nat fd in map_option (\<lambda>h. (h, it_interest it, it_data it)) (it_handler it))
      else None)"

lemmas sizes = ITEMS_MAX_SIZE_def FD_SETSIZE_def

lemma wants_commute: "wants a b = wants b a"
  by (simp add: wants_def and.commute)

lemma wants_NOOP [simp]: "\<not> wants op OP_NOOP" "\<not> wants OP_NOOP op"
  by (simp_all add: wants_def OP_NOOP_def)

lemma wants_ops [simp]:
  "wants OP_READ OP_READ" "wants OP_WRITE OP_WRITE" "\<not> wants OP_READ OP_WRITE" "\<not> wants OP_WRITE OP_READ"
  "wants OP_READ (OP_READ OR OP_WRITE)" "wants OP_WRITE (OP_READ OR OP_WRITE)"
  by (simp_all add: wants_def OP_READ_def OP_WRITE_def)

lemma used_less: "used its i \<Longrightarrow> i < length its"
  by (simp add: used_def)

lemma used_fd: "items_ok its \<Longrightarrow> used its i \<Longrightarrow> it_fd (its ! i) = int i \<and> i < FD_SETSIZE \<and> it_handler (its ! i) \<noteq> None"
  by (auto simp: items_ok_def used_def entry_ok_def ITEM_USED_def)

lemma used_update: "i < length its \<Longrightarrow> used (its[i := it]) j = (if j = i then ITEM_USED it else used its j)"
  by (auto simp: used_def)

lemma items_ok_update: "items_ok its \<Longrightarrow> entry_ok i it \<Longrightarrow> items_ok (its[i := it])"
  unfolding items_ok_def by (metis length_list_update nth_list_update_eq nth_list_update_neq)

lemma interested_update:
  "i < length its \<Longrightarrow> interested op (its[i := it]) =
     (if ITEM_USED it \<and> wants op (it_interest it) then insert (int i) (interested op its) else interested op its - {int i})"
  by (auto simp: interested_def used_update nth_list_update split: if_splits)

lemma is_top_le: "is_top its t \<Longrightarrow> is_top its u \<Longrightarrow> t \<le> u"
  unfolding is_top_def by (cases "t = 0") (auto dest: spec [of _ "nat t"])

lemma is_top_unique: "is_top its t \<Longrightarrow> is_top its u \<Longrightarrow> t = u"
  using is_top_le by (metis order_antisym)

lemma is_top_insert:
  "is_top its t \<Longrightarrow> i < length its \<Longrightarrow> ITEM_USED it \<Longrightarrow> is_top (its[i := it]) (max (int i) t)"
  by (auto simp: is_top_def used_update max_def)

text \<open>The scan of \<open>items_max_fd\<close> up to an index beyond which no item is used.\<close>

lemma scan_max:
  assumes "items_ok its"
  shows "n \<le> length its \<Longrightarrow> (\<forall>i. used its i \<longrightarrow> i < n) \<Longrightarrow>
    is_top its (fold (\<lambda>it max. if ITEM_USED it \<and> it_fd it > max then it_fd it else max) (take n its) 0)"
proof -
  let ?f = "\<lambda>it (max :: int). if ITEM_USED it \<and> it_fd it > max then it_fd it else max"
  have "n \<le> length its \<Longrightarrow> let t = fold ?f (take n its) 0
      in 0 \<le> t \<and> (\<forall>i. used its i \<and> i < n \<longrightarrow> int i \<le> t) \<and> (t = 0 \<or> used its (nat t))" for n
  proof (induction n)
    case (Suc n)
    then have t: "take (Suc n) its = take n its @ [its ! n]" by (simp add: take_Suc_conv_app_nth)
    have "ITEM_USED (its ! n) \<Longrightarrow> used its n" using Suc.prems by (simp add: used_def)
    moreover have "used its n \<Longrightarrow> it_fd (its ! n) = int n" using used_fd [OF assms] by blast
    ultimately show ?case using Suc by (auto simp: t Let_def less_Suc_eq used_def)
  qed simp
  then show "n \<le> length its \<Longrightarrow> (\<forall>i. used its i \<longrightarrow> i < n) \<Longrightarrow> is_top its (fold ?f (take n its) 0)"
    by (auto simp: is_top_def Let_def)
qed

section \<open>Operations on a well-formed selector\<close>

lemma sel_wfD:
  assumes "sel_wf s"
  shows "fd_size s = length (fds s)" "2 \<le> length (fds s)" "length (fds s) \<le> ITEMS_MAX_SIZE + 1" "items_ok (fds s)"
    "is_top (fds s) (max_fd s)" "master_r s = interested OP_READ (fds s)" "master_w s = interested OP_WRITE (fds s)"
  using assms by (simp_all add: sel_wf_def)

lemma max_fd_bounds:
  assumes "sel_wf s"
  shows "0 \<le> max_fd s" "max_fd s < int (length (fds s))" "max_fd s < int FD_SETSIZE"
proof -
  note w = sel_wfD [OF assms]
  show "0 \<le> max_fd s" using w(5) by (simp add: is_top_def)
  show "max_fd s < int (length (fds s))" using w(2,5) by (auto simp: is_top_def used_def)
  have "used (fds s) (nat (max_fd s)) \<Longrightarrow> nat (max_fd s) < FD_SETSIZE" using used_fd [OF w(4)] by blast
  then show "max_fd s < int FD_SETSIZE" using w(5) by (auto simp: is_top_def FD_SETSIZE_def)
qed

text \<open>The entry at \<open>i\<close> replaced, with the sets and the maximum that go with it.\<close>

definition with_entry :: "nat \<Rightarrow> ('h, 'd) item \<Rightarrow> int \<Rightarrow> ('h, 'd) fdselector \<Rightarrow> ('h, 'd) fdselector" where
  "with_entry i it m s = s\<lparr>fds := (fds s)[i := it], max_fd := m,
     master_r := interested OP_READ ((fds s)[i := it]), master_w := interested OP_WRITE ((fds s)[i := it])\<rparr>"

lemma with_entry_wf:
  "sel_wf s \<Longrightarrow> entry_ok i it \<Longrightarrow> is_top ((fds s)[i := it]) m \<Longrightarrow> sel_wf (with_entry i it m s)"
  by (simp add: sel_wf_def with_entry_def items_ok_update)

lemma update_fdset_eq:
  assumes "master_r s = interested OP_READ its" "master_w s = interested OP_WRITE its"
    "i < length its" "i < FD_SETSIZE" "it_fd it = int i"
  shows "items_update_fdset_for_fd s it = Some (s\<lparr>master_r := interested OP_READ (its[i := it]),
    master_w := interested OP_WRITE (its[i := it])\<rparr>)"
  using assms by (auto simp: items_update_fdset_for_fd_def FD_CLR_def FD_SET_def interested_update wants_commute
      ITEM_USED_def FD_UNUSED_def)

text \<open>The table with unused items added at its end.\<close>

definition grown :: "(nat \<Rightarrow> ('h, 'd) item) \<Rightarrow> nat \<Rightarrow> ('h, 'd) fdselector \<Rightarrow> ('h, 'd) fdselector" where
  "grown junk m s = s\<lparr>fds := fds s @ map (\<lambda>i. item_init (junk i)) [length (fds s)..<m], fd_size := m, block := block s + 1\<rparr>"

lemma item_init_unused [simp]: "\<not> ITEM_USED (item_init it)" "entry_ok i (item_init it)"
  by (simp_all add: ITEM_USED_def item_init_def entry_ok_def)

lemma used_grown: "used (its @ map (\<lambda>i. item_init (junk i)) is) i = used its i"
  by (auto simp: used_def nth_append)

lemma interested_grown: "interested op (its @ map (\<lambda>i. item_init (junk i)) is) = interested op its"
  by (auto simp: interested_def used_grown nth_append dest: used_less)

lemma is_top_grown: "is_top (its @ map (\<lambda>i. item_init (junk i)) is) t = is_top its t"
  by (simp add: is_top_def used_grown)

lemma items_ok_grown: "items_ok its \<Longrightarrow> items_ok (its @ map (\<lambda>i. item_init (junk i)) is)"
  by (auto simp: items_ok_def nth_append)

lemma grown_wf: "sel_wf s \<Longrightarrow> length (fds s) \<le> m \<Longrightarrow> m \<le> ITEMS_MAX_SIZE + 1 \<Longrightarrow> sel_wf (grown junk m s)"
  by (simp add: sel_wf_def grown_def items_ok_grown interested_grown is_top_grown)

lemma registered_grown: "registered (grown junk m s) = registered s"
  by (rule ext) (auto simp: registered_def grown_def used_grown nth_append dest: used_less)

lemma ensure_capacity_grows:
  assumes W: "sel_wf s" and n: "length (fds s) \<le> n" "n \<le> ITEMS_MAX_SIZE"
  shows "\<exists>m. n < m \<and> m \<le> ITEMS_MAX_SIZE + 1 \<and> ensure_capacity (Some junk) s n = Some (SELECTOR_SUCCESS, grown junk m s)"
    and "ensure_capacity None s n = Some (SELECTOR_ENOMEM, s)"
proof -
  note w = sel_wfD [OF W]
  obtain m where m: "next_capacity n = Some m" "n < m" "m \<le> ITEMS_MAX_SIZE + 1" using next_capacity_grows [OF n(2)] by blast
  have big: "\<not> m > SIZE_MAX div SIZEOF_ITEM" using m(3) by (simp add: SIZE_MAX_def SIZEOF_ITEM_def sizes)
  have ne: "fds s \<noteq> []" "\<not> n < fd_size s" "\<not> ITEMS_MAX_SIZE < n" using w n by auto
  let ?s = "s\<lparr>fds := take m (fds s) @ map junk [length (fds s)..<m], fd_size := m, block := block s + 1\<rparr>"
  have "items_init ?s (fd_size s) = Some (grown junk m s)"
    using m(2) n w(1) by (simp add: items_init_def grown_def comp_def)
  then show "\<exists>m. n < m \<and> m \<le> ITEMS_MAX_SIZE + 1 \<and> ensure_capacity (Some junk) s n = Some (SELECTOR_SUCCESS, grown junk m s)"
    using m ne big by (intro exI [of _ m]) (simp add: ensure_capacity_def Let_def)
  show "ensure_capacity None s n = Some (SELECTOR_ENOMEM, s)"
    using m ne big by (simp add: ensure_capacity_def)
qed

text \<open>Registration where the table has an entry for the descriptor.\<close>

lemma register_in_table:
  assumes W: "sel_wf s" and i: "i < length (fds s)" "i < FD_SETSIZE"
  shows "selector_register mem (int i) (Some h) interest d s = Some
    (if used (fds s) i then (SELECTOR_FDINUSE, s)
     else (SELECTOR_SUCCESS, with_entry i \<lparr>it_fd = int i, it_interest = interest, it_handler = Some h, it_data = d\<rparr>
       (max (int i) (max_fd s)) s))"
proof -
  note w = sel_wfD [OF W]
  let ?it = "\<lparr>it_fd = int i, it_interest = interest, it_handler = Some h, it_data = d\<rparr>"
  let ?s = "\<lambda>m. s\<lparr>fds := (fds s)[i := ?it], max_fd := m\<rparr>"
  have "items_update_fdset_for_fd (?s m) ?it = Some (with_entry i ?it m s)" for m
    using update_fdset_eq [of "?s m" "fds s" i ?it] w i by (simp add: with_entry_def)
  note upd = this [of "max_fd s"] this [of "int i"]
  show ?thesis
    using i w(1) upd
    by (simp add: selector_register_def INVALID_FD_def sizes item_at_def put_item_def Let_def used_def max_def
        ITEM_USED_def FD_UNUSED_def with_entry_def)
qed

text \<open>The test \<open>ufd > s->fd_size\<close> lets the one descriptor through that is just past the table.\<close>

lemma register_past_end:
  assumes W: "sel_wf s" and i: "i = length (fds s)" "i < FD_SETSIZE"
  shows "selector_register mem (int i) (Some h) interest d s = None"
  using i sel_wfD [OF W] by (simp add: selector_register_def INVALID_FD_def sizes item_at_def load_def)

lemma register_grows:
  assumes W: "sel_wf s" and i: "length (fds s) < i" "i < FD_SETSIZE"
  shows "selector_register None (int i) (Some h) interest d s = Some (SELECTOR_ENOMEM, s)"
    and "\<exists>m. i < m \<and> m \<le> ITEMS_MAX_SIZE + 1 \<and> selector_register (Some junk) (int i) (Some h) interest d s =
      selector_register mem (int i) (Some h) interest d (grown junk m s)"
proof -
  have n: "length (fds s) \<le> i" "i \<le> ITEMS_MAX_SIZE" using i by (simp_all add: sizes)
  have v: "\<not> INVALID_FD (int i)" "fd_size s < i" using i sel_wfD(1) [OF W] by (simp_all add: INVALID_FD_def sizes)
  show "selector_register None (int i) (Some h) interest d s = Some (SELECTOR_ENOMEM, s)"
    using ensure_capacity_grows(2) [OF W n] v by (simp add: selector_register_def Let_def)
  obtain m where "i < m" "m \<le> ITEMS_MAX_SIZE + 1" "ensure_capacity (Some junk) s i = Some (SELECTOR_SUCCESS, grown junk m s)"
    using ensure_capacity_grows(1) [OF W n] by blast
  then show "\<exists>m. i < m \<and> m \<le> ITEMS_MAX_SIZE + 1 \<and> selector_register (Some junk) (int i) (Some h) interest d s =
      selector_register mem (int i) (Some h) interest d (grown junk m s)"
    using v by (intro exI [of _ m]) (simp add: selector_register_def Let_def grown_def)
qed

lemma set_interest_in_table:
  assumes W: "sel_wf s" and i: "i < length (fds s)" "i < FD_SETSIZE"
  shows "selector_set_interest (int i) interest s = Some
    (if used (fds s) i then (SELECTOR_SUCCESS, with_entry i ((fds s ! i)\<lparr>it_interest := interest\<rparr>) (max_fd s) s)
     else (SELECTOR_IARGS, s))"
proof -
  note w = sel_wfD [OF W]
  let ?it = "(fds s ! i)\<lparr>it_interest := interest\<rparr>"
  have "items_update_fdset_for_fd (s\<lparr>fds := (fds s)[i := ?it]\<rparr>) ?it = Some (with_entry i ?it (max_fd s) s)" if "used (fds s) i"
    using update_fdset_eq [of "s\<lparr>fds := (fds s)[i := ?it]\<rparr>" "fds s" i ?it] w i used_fd [OF w(4) that]
    by (simp add: with_entry_def)
  then show ?thesis
    using i by (auto simp: selector_set_interest_def INVALID_FD_def sizes item_at_def put_item_def Let_def used_def)
qed

text \<open>Unregistration, given what the close callback does to the selector.\<close>

lemma unregister_in_table:
  assumes W: "sel_wf s1" and u: "used (fds s) i" "used (fds s1) i" "block s1 = block s" "i < FD_SETSIZE"
    and c: "call_close tab (fds s ! i) (s, w) = Some (s1, w1)"
  shows "\<exists>m. selector_unregister_fd tab (int i) (s, w) =
      Some (SELECTOR_SUCCESS, with_entry i (item_init blank_item) m s1, w1)
    \<and> is_top ((fds s1)[i := item_init blank_item]) m"
proof -
  note wf = sel_wfD [OF W]
  have i: "i < length (fds s)" "i < length (fds s1)" using u(1,2) by (simp_all add: used_def)
  let ?it = "(fds s1 ! i)\<lparr>it_interest := OP_NOOP\<rparr>" and ?e = "item_init blank_item"
  let ?s2 = "s1\<lparr>fds := (fds s1)[i := ?it]\<rparr>" and ?its = "(fds s1)[i := ?e]"
  have un: "ITEM_USED ?it" using u(2) by (simp add: used_def ITEM_USED_def)
  have s3: "items_update_fdset_for_fd ?s2 ?it = Some (?s2\<lparr>master_r := interested OP_READ ?its, master_w := interested OP_WRITE ?its\<rparr>)"
    (is "_ = Some ?s3")
    using update_fdset_eq [of ?s2 "fds s1" i ?it] wf i u used_fd [OF wf(4) u(2)] by (simp add: interested_update un)
  have top: "is_top ?its (fold (\<lambda>it max. if ITEM_USED it \<and> it_fd it > max then it_fd it else max) (take (nat (max_fd s1 + 1)) ?its) 0)"
    (is "is_top _ ?m")
  proof (rule scan_max [OF items_ok_update [OF wf(4) item_init_unused(2)]])
    show "nat (max_fd s1 + 1) \<le> length ?its" using max_fd_bounds [OF W] by simp
    show "\<forall>j. used ?its j \<longrightarrow> j < nat (max_fd s1 + 1)" using wf(5) i by (auto simp: used_update is_top_def)
  qed
  have mx: "items_max_fd (?s3\<lparr>fds := ?its\<rparr>) = Some ?m"
    using max_fd_bounds [OF W] by (simp add: items_max_fd_def)
  have "selector_unregister_fd tab (int i) (s, w) = Some (SELECTOR_SUCCESS, with_entry i ?e ?m s1, w1)"
    using u i s3 mx c
    by (simp add: selector_unregister_fd_def INVALID_FD_def sizes item_at_def item_ref_def put_item_def used_def Let_def
        with_entry_def)
  with top show ?thesis by blast
qed

lemma unregister_unused:
  "i < length (fds s) \<Longrightarrow> \<not> used (fds s) i \<Longrightarrow> selector_unregister_fd tab (int i) (s, w) = Some (SELECTOR_IARGS, s, w)"
  by (simp add: selector_unregister_fd_def item_at_def used_def)

section \<open>The abstract map\<close>

lemma registered_with_entry:
  assumes "i < length (fds s)"
  shows "registered (with_entry i it m s) = (if ITEM_USED it
     then (registered s)(int i := map_option (\<lambda>h. (h, it_interest it, it_data it)) (it_handler it))
     else (registered s)(int i := None))"
  using assms by (intro ext) (auto simp: registered_def with_entry_def used_update nth_list_update)

lemma registered_iff: "sel_wf s \<Longrightarrow> registered s fd \<noteq> None \<longleftrightarrow> 0 \<le> fd \<and> used (fds s) (nat fd)"
  using used_fd [OF sel_wfD(4), of s "nat fd"] by (auto simp: registered_def Let_def)

lemma registered_int: "sel_wf s \<Longrightarrow> used (fds s) i \<longleftrightarrow> registered s (int i) \<noteq> None"
  by (simp add: registered_iff del: not_None_eq)

end
