(* ===== verification/SelectorProperties.thy ===== *)
theory SelectorProperties
  imports SelectorFacts
begin

unbundle bit_operations_syntax

text \<open>
  What the selector promises its users: the table behaves as a finite map from descriptors to
  registrations; an iteration calls the handlers of the ready descriptors that want the event, in
  increasing order, reading before writing, and then those of the finished blocking jobs; destruction
  calls every close handler once. The calls are compared with a plain fold over the registrations, for
  callbacks that do not use the selector themselves.
\<close>

section \<open>The table as a map\<close>

lemma register_defined:
  assumes "sel_wf s" "i \<noteq> fd_size s" "i < FD_SETSIZE"
  shows "\<exists>st s'. selector_register mem (int i) (Some h) interest d s = Some (st, s') \<and> sel_wf s'
    \<and> st = (if registered s (int i) \<noteq> None then SELECTOR_FDINUSE
        else if i > fd_size s \<and> mem = None then SELECTOR_ENOMEM else SELECTOR_SUCCESS)
    \<and> registered s' = (if st = SELECTOR_SUCCESS then (registered s)(int i \<mapsto> (h, interest, d)) else registered s)"
proof -
  let ?it = "\<lparr>it_fd = int i, it_interest = interest, it_handler = Some h, it_data = d\<rparr>"
  have it: "ITEM_USED ?it" "entry_ok i ?it" using assms(3) by (simp_all add: ITEM_USED_def FD_UNUSED_def entry_ok_def)
  have in_table: "\<exists>s'. selector_register mem (int i) (Some h) interest d t =
        Some (if registered t (int i) \<noteq> None then SELECTOR_FDINUSE else SELECTOR_SUCCESS, s') \<and> sel_wf s'
      \<and> registered s' = (if registered t (int i) = None then (registered t)(int i \<mapsto> (h, interest, d)) else registered t)"
    if W: "sel_wf t" and i: "i < length (fds t)" for t mem
  proof -
    let ?t = "with_entry i ?it (max (int i) (max_fd t)) t"
    have "sel_wf ?t" using sel_wfD [OF W] i it by (intro with_entry_wf W is_top_insert) simp_all
    moreover have "registered ?t = (registered t)(int i \<mapsto> (h, interest, d))"
      using registered_with_entry [OF i, of ?it] it by simp
    ultimately show ?thesis using register_in_table [OF W i assms(3)] registered_int [OF W, of i] W by auto
  qed
  consider "i < length (fds s)" | "length (fds s) < i" using assms(2) sel_wfD(1) [OF assms(1)] by linarith
  then show ?thesis
  proof cases
    case 1
    then show ?thesis using in_table [OF assms(1) 1, of mem] sel_wfD(1) [OF assms(1)] by auto
  next
    case 2
    then have fresh: "registered s (int i) = None" by (simp add: registered_def used_def)
    show ?thesis
    proof (cases mem)
      case None
      then show ?thesis using register_grows(1) [OF assms(1) 2 assms(3)] assms(1) fresh 2 sel_wfD(1) [OF assms(1)] by auto
    next
      case (Some junk)
      obtain m where m: "i < m" "m \<le> ITEMS_MAX_SIZE + 1" "selector_register (Some junk) (int i) (Some h) interest d s =
          selector_register None (int i) (Some h) interest d (grown junk m s)"
        using register_grows(2) [OF assms(1) 2 assms(3)] by blast
      have W: "sel_wf (grown junk m s)" using m 2 by (intro grown_wf assms(1)) simp_all
      have l: "i < length (fds (grown junk m s))" using m 2 by (simp add: grown_def)
      show ?thesis using in_table [OF W l, of None] Some m(3) fresh by (simp add: registered_grown)
    qed
  qed
qed

text \<open>C9
  Registration is the insertion into a map, on every branch: an invalid descriptor or a null handler,
  a descriptor in use, a table that cannot grow leave the registrations as they are and say so in the
  status; otherwise exactly the given entry is added. The selector stays well-formed. The one case left
  out is a descriptor equal to the size of the table.\<close>

theorem selector_register_refines:
  assumes "sel_wf s" "fd \<noteq> int (fd_size s)"
  shows "\<exists>st s'. selector_register mem fd h interest d s = Some (st, s') \<and> sel_wf s'
    \<and> st = (if INVALID_FD fd \<or> h = None then SELECTOR_IARGS else if registered s fd \<noteq> None then SELECTOR_FDINUSE
        else if fd > int (fd_size s) \<and> mem = None then SELECTOR_ENOMEM else SELECTOR_SUCCESS)
    \<and> registered s' = (if st = SELECTOR_SUCCESS then (registered s)(fd \<mapsto> (the h, interest, d)) else registered s)"
proof (cases "INVALID_FD fd \<or> h = None")
  case True
  then show ?thesis using assms(1) by (auto simp: selector_register_def)
next
  case False
  then obtain i h' where "fd = int i" "i < FD_SETSIZE" "h = Some h'"
    by (auto simp: INVALID_FD_def sizes not_less not_le elim: nonneg_int_cases)
  then show ?thesis using register_defined [OF assms(1), of i mem h' interest d] assms(2) False by auto
qed

definition small_selector :: "(nat, nat) fdselector" where
  "small_selector = zeroed_selector\<lparr>fds := replicate 2 (item_init blank_item), fd_size := 2\<rparr>"

lemma small_selector_wf: "sel_wf small_selector"
proof -
  have "\<not> used (replicate 2 (item_init blank_item) :: (nat, nat) item list) i" for i by (simp add: used_def)
  then show ?thesis
    by (simp add: sel_wf_def small_selector_def zeroed_selector_def sizes items_ok_def is_top_def interested_def)
qed

theorem selector_register_refines_witness:
  "\<exists>st s'. selector_register None 1 (Some 5) OP_READ (Some 6) small_selector = Some (st, s') \<and> sel_wf s'
    \<and> st = (if INVALID_FD 1 \<or> Some (5 :: nat) = None then SELECTOR_IARGS
        else if registered small_selector 1 \<noteq> None then SELECTOR_FDINUSE
        else if 1 > int (fd_size small_selector) \<and> (None :: (nat \<Rightarrow> (nat, nat) item) option) = None then SELECTOR_ENOMEM
        else SELECTOR_SUCCESS)
    \<and> registered s' = (if st = SELECTOR_SUCCESS then (registered small_selector)(1 \<mapsto> (the (Some 5), OP_READ, Some 6))
        else registered small_selector)"
  by (rule selector_register_refines [OF small_selector_wf]) (simp add: small_selector_def)

text \<open>C38
  For a valid descriptor and a handler, registration fails to stay inside the table in one case and in
  that one only: when the descriptor is the size of the table. The test that should make the table grow
  lets it through. A selector made for 1024 elements, as \<open>main\<close> does, has 1025 and is safe.\<close>

theorem selector_register_off_by_one:
  assumes "sel_wf s" "\<not> INVALID_FD fd"
  shows "selector_register mem fd (Some h) interest d s = None \<longleftrightarrow> fd = int (fd_size s)"
proof -
  obtain i where i: "fd = int i" "i < FD_SETSIZE"
    using assms(2) by (auto simp: INVALID_FD_def sizes not_less not_le elim: nonneg_int_cases)
  show ?thesis
  proof (cases "i = fd_size s")
    case True
    then show ?thesis using register_past_end [OF assms(1) _ i(2)] sel_wfD(1) [OF assms(1)] i by simp
  next
    case False
    then show ?thesis using register_defined [OF assms(1) False i(2), of mem h interest d] i by auto
  qed
qed

theorem selector_register_off_by_one_witness:
  "selector_register None 2 (Some 5) OP_READ (Some 6) small_selector = None
    \<longleftrightarrow> 2 = int (fd_size small_selector)"
  by (rule selector_register_off_by_one [OF small_selector_wf]) (simp add: INVALID_FD_def sizes)

lemma unregister_refines:
  assumes W: "sel_wf s1" and r: "registered s (int i) \<noteq> None" "registered s1 (int i) \<noteq> None" "sel_wf s" "block s1 = block s"
    and c: "call_close tab (fds s ! i) (s, w) = Some (s1, w1)"
  shows "\<exists>s'. selector_unregister_fd tab (int i) (s, w) = Some (SELECTOR_SUCCESS, s', w1)
    \<and> sel_wf s' \<and> registered s' = (registered s1)(int i := None)
    \<and> (\<exists>m. s' = with_entry i (item_init blank_item) m s1)"
proof -
  have u: "used (fds s) i" "used (fds s1) i" using registered_int r W by blast+
  have "i < FD_SETSIZE" using used_fd [OF sel_wfD(4) [OF W] u(2)] by simp
  then obtain m where m: "selector_unregister_fd tab (int i) (s, w) =
      Some (SELECTOR_SUCCESS, with_entry i (item_init blank_item) m s1, w1)" "is_top ((fds s1)[i := item_init blank_item]) m"
    using unregister_in_table [OF W u r(4) _ c] by blast
  have "registered (with_entry i (item_init blank_item) m s1) = (registered s1)(int i := None)"
    using registered_with_entry [OF used_less [OF u(2)], of "item_init blank_item"] by simp
  with m with_entry_wf [OF W item_init_unused(2) m(2)] show ?thesis by blast
qed

lemma set_interest_refines:
  assumes "sel_wf s" "registered s (int i) = Some (h, j, d)"
  shows "\<exists>s'. selector_set_interest (int i) interest s = Some (SELECTOR_SUCCESS, s') \<and> sel_wf s'
    \<and> registered s' = (registered s)(int i \<mapsto> (h, interest, d))
    \<and> s' = with_entry i ((fds s ! i)\<lparr>it_interest := interest\<rparr>) (max_fd s) s"
proof -
  note w = sel_wfD [OF assms(1)]
  let ?it = "(fds s ! i)\<lparr>it_interest := interest\<rparr>"
  have u: "used (fds s) i" using assms by (simp add: registered_int)
  note f = used_fd [OF w(4) u] and l = used_less [OF u]
  have it: "ITEM_USED ?it" "entry_ok i ?it" using f by (auto simp: ITEM_USED_def FD_UNUSED_def entry_ok_def)
  have "is_top ((fds s)[i := ?it]) (max_fd s)" using w(5) u l it(1) by (auto simp: is_top_def used_update)
  then have "sel_wf (with_entry i ?it (max_fd s) s)" by (rule with_entry_wf [OF assms(1) it(2)])
  moreover have "it_handler (fds s ! i) = Some h \<and> it_data (fds s ! i) = d"
    using assms(2) by (auto simp: registered_def Let_def split: if_splits)
  then have "registered (with_entry i ?it (max_fd s) s) = (registered s)(int i \<mapsto> (h, interest, d))"
    using registered_with_entry [OF l, of ?it] it by simp
  ultimately show ?thesis using set_interest_in_table [OF assms(1) l] f u by simp
qed

section \<open>Dispatch\<close>

text \<open>Callbacks that change only the program's own state, each by the function \<open>g\<close>.\<close>

definition inert :: "('h, 'd, 'w) callbacks \<Rightarrow> ('h \<Rightarrow> fd_event \<Rightarrow> 'd selector_key \<Rightarrow> 'w \<Rightarrow> 'w) \<Rightarrow> bool" where
  "inert tab g \<longleftrightarrow> (\<forall>h ev f key s w. tab h ev = Some f \<longrightarrow> f key (s, w) = Some (s, g h ev key w))"

text \<open>The handlers the selector may call are there: no null pointer for an event that can arrive.\<close>

definition served :: "('h, 'd, 'w) callbacks \<Rightarrow> ('h, 'd) fdselector \<Rightarrow> bool" where
  "served tab s \<longleftrightarrow> (\<forall>fd h i d. registered s fd = Some (h, i, d) \<longrightarrow>
     (wants OP_READ i \<longrightarrow> tab h HANDLE_READ \<noteq> None) \<and> (wants OP_WRITE i \<longrightarrow> tab h HANDLE_WRITE \<noteq> None)
     \<and> (fd \<in> set (resolution_jobs s) \<longrightarrow> tab h HANDLE_BLOCK \<noteq> None))"

type_synonym ('h, 'd) fd_call = "'h \<times> fd_event \<times> 'd selector_key"

text \<open>The calls that are due for descriptor \<open>fd\<close> when those in \<open>r\<close> and \<open>w\<close> are ready.\<close>

definition due :: "('h, 'd) fdselector \<Rightarrow> int set \<Rightarrow> int set \<Rightarrow> int \<Rightarrow> ('h, 'd) fd_call list" where
  "due s r w fd = (case registered s fd of
     None \<Rightarrow> []
   | Some (h, i, d) \<Rightarrow>
       (if fd \<in> r \<and> wants OP_READ i then [(h, HANDLE_READ, \<lparr>key_fd = fd, key_data = d\<rparr>)] else []) @
       (if fd \<in> w \<and> wants OP_WRITE i then [(h, HANDLE_WRITE, \<lparr>key_fd = fd, key_data = d\<rparr>)] else []))"

definition notice :: "('h, 'd) fdselector \<Rightarrow> int \<Rightarrow> ('h, 'd) fd_call list" where
  "notice s fd = (case registered s fd of None \<Rightarrow> [] | Some (h, i, d) \<Rightarrow> [(h, HANDLE_BLOCK, \<lparr>key_fd = fd, key_data = d\<rparr>)])"

definition farewell :: "('h, 'd, 'w) callbacks \<Rightarrow> ('h, 'd) fdselector \<Rightarrow> int \<Rightarrow> ('h, 'd) fd_call list" where
  "farewell tab s fd = (case registered s fd of None \<Rightarrow> [] | Some (h, i, d) \<Rightarrow>
     if tab h HANDLE_CLOSE = None then [] else [(h, HANDLE_CLOSE, \<lparr>key_fd = fd, key_data = d\<rparr>)])"

definition perform :: "('h \<Rightarrow> fd_event \<Rightarrow> 'd selector_key \<Rightarrow> 'w \<Rightarrow> 'w) \<Rightarrow> ('h, 'd) fd_call list \<Rightarrow> 'w \<Rightarrow> 'w" where
  "perform g cs w = fold (\<lambda>(h, ev, key). g h ev key) cs w"

lemma perform_append [simp]: "perform g (xs @ ys) w = perform g ys (perform g xs w)"
  by (simp add: perform_def)

lemma perform_simps [simp]: "perform g [] w = w" "perform g ((h, ev, key) # cs) w = perform g cs (g h ev key w)"
  by (simp_all add: perform_def)

text \<open>A loop whose steps leave the selector alone and perform calls performs them all, in order.\<close>

lemma steps_perform:
  assumes "\<And>i w. i \<in> set is \<Longrightarrow> f i (s, w) = Some (s, perform g (cs i) w)"
  shows "steps f is (s, w) = Some (s, perform g (concat (map cs is)) w)"
  using assms by (induction "is" arbitrary: w) simp_all

lemma used_entry:
  assumes "sel_wf s" "used (fds s) i"
  shows "\<exists>h. fds s ! i = \<lparr>it_fd = int i, it_interest = it_interest (fds s ! i), it_handler = Some h, it_data = it_data (fds s ! i)\<rparr>
    \<and> registered s (int i) = Some (h, it_interest (fds s ! i), it_data (fds s ! i))"
proof -
  have "it_fd (fds s ! i) = int i" "it_handler (fds s ! i) \<noteq> None" using used_fd [OF sel_wfD(4) [OF assms(1)] assms(2)] by auto
  with assms(2) show ?thesis by (cases "fds s ! i") (auto simp: registered_def)
qed

lemma iteration_step_performs:
  assumes W: "sel_wf s" and P: "inert tab g" "served tab s" and i: "i < length (fds s)"
  shows "iteration_step tab i (s, w) = Some (s, perform g (due s (slave_r s) (slave_w s) (int i)) w)"
proof (cases "used (fds s) i")
  case True
  obtain h where h: "fds s ! i = \<lparr>it_fd = int i, it_interest = it_interest (fds s ! i), it_handler = Some h, it_data = it_data (fds s ! i)\<rparr>"
      "registered s (int i) = Some (h, it_interest (fds s ! i), it_data (fds s ! i))"
    using used_entry [OF W True] by blast
  have lt: "int i < int FD_SETSIZE" using used_fd [OF sel_wfD(4) [OF W] True] by simp
  let ?key = "\<lparr>key_fd = int i, key_data = it_data (fds s ! i)\<rparr>"
  have call: "call_handler tab (fds s ! i) ev ?key (s, w) = Some (s, g h ev ?key w)"
    if "ev = HANDLE_READ \<and> wants OP_READ (it_interest (fds s ! i)) \<or> ev = HANDLE_WRITE \<and> wants OP_WRITE (it_interest (fds s ! i))" for ev w
  proof -
    have "\<exists>f. tab h ev = Some f" using P(2) h(2) that by (auto simp: served_def simp del: not_None_eq) (metis option.exhaust)+
    then obtain f where "tab h ev = Some f" by blast
    moreover have "it_handler (fds s ! i) = Some h" using h(1) by (metis item.select_convs(3))
    ultimately show ?thesis using P(1) by (simp add: call_handler_def inert_def)
  qed
  have e: "ITEM_USED (fds s ! i)" "it_fd (fds s ! i) = int i" using True h(1) by (simp add: used_def) (metis h(1) item.select_convs(1))
  show ?thesis
    using i lt e h(2) call
    by (auto simp: iteration_step_def item_at_def item_ref_def FD_ISSET_def due_def Let_def)
next
  case False
  then show ?thesis using i by (auto simp: iteration_step_def item_at_def used_def due_def registered_def)
qed

lemma due_beyond:
  assumes "sel_wf s" "max_fd s < fd"
  shows "due s r w fd = []"
proof -
  have "used (fds s) (nat fd) \<Longrightarrow> int (nat fd) \<le> max_fd s" "0 \<le> max_fd s"
    using sel_wfD(5) [OF assms(1)] unfolding is_top_def by blast+
  then have "\<not> used (fds s) (nat fd)" using assms(2) by auto
  then show ?thesis by (simp add: due_def registered_def)
qed

lemma concat_upto_extend:
  assumes "\<And>i. m \<le> i \<Longrightarrow> f i = []" "m \<le> n"
  shows "concat (map f [0..<n]) = concat (map f [0..<m])"
proof -
  have "[0..<n] = [0..<m] @ [m..<n]" using assms(2) upt_add_eq_append [of 0 m "n - m"] by simp
  then show ?thesis using assms(1) by simp
qed

lemma concat_upto_same:
  assumes "\<And>i. m \<le> i \<Longrightarrow> f i = []" "\<And>i. n \<le> i \<Longrightarrow> f i = []"
  shows "concat (map f [0..<m]) = concat (map f [0..<n])"
proof (cases "m \<le> n")
  case True
  with concat_upto_extend [of m f n] assms(1) show ?thesis by metis
next
  case False
  with concat_upto_extend [of n f m] assms(2) show ?thesis by simp
qed

lemma handle_iteration_performs:
  assumes "sel_wf s" "inert tab g" "served tab s"
  shows "handle_iteration tab (s, w) =
    Some (s, perform g (concat (map (\<lambda>i. due s (slave_r s) (slave_w s) (int i)) [0..<FD_SETSIZE])) w)"
proof -
  let ?n = "nat (max_fd s + 1)" and ?d = "\<lambda>i. due s (slave_r s) (slave_w s) (int i)"
  note b = max_fd_bounds [OF assms(1)]
  have "concat (map ?d [0..<FD_SETSIZE]) = concat (map ?d [0..<?n])"
    using b by (intro concat_upto_extend due_beyond [OF assms(1)]) auto
  moreover have "i < length (fds s)" if "i \<in> set [0..<?n]" for i using that b by auto
  then have "steps (iteration_step tab) [0..<?n] (s, w) = Some (s, perform g (concat (map ?d [0..<?n])) w)"
    by (intro steps_perform iteration_step_performs [OF assms])
  ultimately show ?thesis by (simp add: handle_iteration_def)
qed

text \<open>Waiting changes neither the registrations nor what makes the selector well-formed.\<close>

lemma sel_wf_slaves [simp]:
  "sel_wf (s\<lparr>slave_r := r, slave_w := w\<rparr>) = sel_wf s" "sel_wf (s\<lparr>resolution_mutex := m\<rparr>) = sel_wf s"
  "sel_wf (s\<lparr>resolution_jobs := j\<rparr>) = sel_wf s"
  "sel_wf (s\<lparr>resolution_jobs := j, resolution_mutex := m\<rparr>) = sel_wf s"
  by (simp_all add: sel_wf_def)

lemma registered_slaves [simp]:
  "registered (s\<lparr>slave_r := r, slave_w := w\<rparr>) = registered s" "registered (s\<lparr>resolution_mutex := m\<rparr>) = registered s"
  "registered (s\<lparr>resolution_jobs := j\<rparr>) = registered s"
  "registered (s\<lparr>resolution_jobs := j, resolution_mutex := m\<rparr>) = registered s"
  by (simp_all add: registered_def fun_eq_iff)

lemma notification_step_performs:
  assumes W: "sel_wf s" and P: "inert tab g" "served tab s" "j \<in> set (resolution_jobs s)" and j: "0 \<le> j" "j < int (length (fds s))"
  shows "notification_step tab j (s, w) = Some (s, perform g (notice s j) w)"
proof (cases "used (fds s) (nat j)")
  case True
  obtain h where h: "fds s ! nat j = \<lparr>it_fd = j, it_interest = it_interest (fds s ! nat j), it_handler = Some h, it_data = it_data (fds s ! nat j)\<rparr>"
      "registered s j = Some (h, it_interest (fds s ! nat j), it_data (fds s ! nat j))"
    using used_entry [OF W True] j(1) by auto
  have "tab h HANDLE_BLOCK \<noteq> None" using P(2,3) h(2) unfolding served_def by blast
  then obtain f where f: "tab h HANDLE_BLOCK = Some f" by blast
  have "it_handler (fds s ! nat j) = Some h" "it_fd (fds s ! nat j) = j" using h(1) by (metis item.select_convs(3)) (metis h(1) item.select_convs(1))
  with f h(2) P(1) True j show ?thesis
    by (simp add: notification_step_def item_at_def used_def call_handler_def notice_def inert_def)
next
  case False
  with j show ?thesis by (simp add: notification_step_def item_at_def used_def notice_def registered_def)
qed

lemma handle_block_notifications_performs:
  assumes "sel_wf s" "inert tab g" "served tab s" "\<not> resolution_mutex s"
    "\<forall>j \<in> set (resolution_jobs s). 0 \<le> j \<and> j < int (length (fds s))"
  shows "handle_block_notifications tab (s, w) =
    Some (s\<lparr>resolution_jobs := [], resolution_mutex := False\<rparr>, perform g (concat (map (notice s) (resolution_jobs s))) w)"
proof -
  let ?s = "s\<lparr>resolution_mutex := True\<rparr>"
  have "served tab ?s" using assms(3) by (simp add: served_def)
  then have "steps (notification_step tab) (resolution_jobs s) (?s, w) = Some (?s, perform g (concat (map (notice ?s) (resolution_jobs s))) w)"
    using assms by (intro steps_perform notification_step_performs) simp_all
  moreover have "notice ?s = notice s" by (simp add: notice_def fun_eq_iff)
  ultimately show ?thesis using assms(4) by (simp add: handle_block_notifications_def)
qed

text \<open>C10
  One round of the multiplexer, when \<open>pselect\<close> reports ready descriptors and for callbacks that do not use the selector themselves: the handlers called are those
  of the registered descriptors that are ready and wanted, in increasing order, reading before writing;
  after them the block handler of each finished job, last notified first. Nothing else is called, no
  handler is missing, the list of jobs is empty again and the registrations are what they were.\<close>

theorem selector_select_dispatches:
  assumes "sel_wf s" "inert tab g" "served tab s" "\<not> resolution_mutex s"
    "\<forall>j \<in> set (resolution_jobs s). 0 \<le> j \<and> j < int (fd_size s)"
  shows "\<exists>s'. selector_select tab (Ready r wr) (s, w) = Some (SELECTOR_SUCCESS, s',
      perform g (concat (map (\<lambda>i. due s r wr (int i)) [0..<FD_SETSIZE]) @ concat (map (notice s) (resolution_jobs s))) w)
    \<and> sel_wf s' \<and> registered s' = registered s \<and> resolution_jobs s' = [] \<and> \<not> resolution_mutex s'"
proof -
  let ?s = "s\<lparr>slave_r := master_r s \<inter> r, slave_w := master_w s \<inter> wr\<rparr>"
  have S: "sel_wf ?s" "served tab ?s" using assms(1,3) by (simp_all add: served_def)
  have "registered ?s = registered s" by simp
  then have ready: "due ?s (slave_r ?s) (slave_w ?s) (int i) = due s r wr (int i)" for i
    using sel_wfD(6,7) [OF assms(1)] used_entry [OF assms(1), of i] registered_int [OF assms(1), of i]
    by (cases "used (fds s) i") (auto simp: due_def interested_def split: option.splits)
  have "notice ?s = notice s" by (simp add: notice_def fun_eq_iff)
  then have jobs: "handle_block_notifications tab (?s, w') = Some (?s\<lparr>resolution_jobs := [], resolution_mutex := False\<rparr>,
      perform g (concat (map (notice s) (resolution_jobs s))) w')" for w'
    using handle_block_notifications_performs [OF S(1) assms(2) S(2), of w'] assms(4,5) sel_wfD(1) [OF assms(1)] by simp
  show ?thesis
    using handle_iteration_performs [OF S(1) assms(2) S(2), of w] assms(1) unfolding ready
    by (simp add: selector_select_def jobs)
qed

definition recorder :: "('h, 'd, ('h, 'd) fd_call list) callbacks" where
  "recorder h ev = Some (\<lambda>key (s, l). Some (s, l @ [(h, ev, key)]))"

lemma recorder_inert: "inert recorder (\<lambda>h ev key l. l @ [(h, ev, key)])" and recorder_served: "served recorder s"
  by (simp_all add: inert_def recorder_def served_def)

lemma perform_recorder: "perform (\<lambda>h ev key l. l @ [(h, ev, key)]) cs l = l @ cs"
  by (induction cs arbitrary: l) (auto simp: perform_def)

definition watching :: "(nat, nat) fdselector" where
  "watching = (with_entry 1 \<lparr>it_fd = 1, it_interest = OP_READ OR OP_WRITE, it_handler = Some 5, it_data = Some 6\<rparr> 1 small_selector)
     \<lparr>resolution_jobs := [1]\<rparr>"

lemma watching_wf: "sel_wf watching"
proof -
  let ?it = "\<lparr>it_fd = 1, it_interest = OP_READ OR OP_WRITE, it_handler = Some 5, it_data = Some 6\<rparr> :: (nat, nat) item"
  have "is_top (fds small_selector) 0" using sel_wfD(5) [OF small_selector_wf] by (simp add: small_selector_def zeroed_selector_def)
  then have "is_top ((fds small_selector)[1 := ?it]) (max (int 1) 0)"
    by (rule is_top_insert) (simp_all add: small_selector_def ITEM_USED_def FD_UNUSED_def)
  then have "sel_wf (with_entry 1 ?it 1 small_selector)"
    by (intro with_entry_wf small_selector_wf) (simp_all add: entry_ok_def sizes)
  then show ?thesis by (simp add: watching_def)
qed

lemma watching_view: "fd_size watching = 2" "resolution_jobs watching = [1]" "\<not> resolution_mutex watching"
  by (simp_all add: watching_def with_entry_def small_selector_def zeroed_selector_def)

theorem selector_select_dispatches_witness:
  "\<exists>s'. selector_select recorder (Ready {1} {1, 9}) (watching, []) = Some (SELECTOR_SUCCESS, s',
      perform (\<lambda>h ev key l. l @ [(h, ev, key)])
        (concat (map (\<lambda>i. due watching {1} {1, 9} (int i)) [0..<FD_SETSIZE]) @ concat (map (notice watching) (resolution_jobs watching))) [])
    \<and> sel_wf s' \<and> registered s' = registered watching \<and> resolution_jobs s' = [] \<and> \<not> resolution_mutex s'"
  by (rule selector_select_dispatches [OF watching_wf recorder_inert recorder_served])
    (simp_all add: watching_view)

section \<open>Creation and destruction\<close>

lemma call_close_performs:
  assumes "sel_wf s" "used (fds s) i" "inert tab g"
  shows "call_close tab (fds s ! i) (s, w) = Some (s, perform g (farewell tab s (int i)) w)"
proof -
  obtain h where h: "fds s ! i = \<lparr>it_fd = int i, it_interest = it_interest (fds s ! i), it_handler = Some h, it_data = it_data (fds s ! i)\<rparr>"
      "registered s (int i) = Some (h, it_interest (fds s ! i), it_data (fds s ! i))"
    using used_entry [OF assms(1,2)] by blast
  have "it_handler (fds s ! i) = Some h" "it_fd (fds s ! i) = int i" using h(1) by (metis item.select_convs(3)) (metis h(1) item.select_convs(1))
  with assms(3) h(2) show ?thesis
    by (cases "tab h HANDLE_CLOSE") (simp_all add: call_close_def farewell_def inert_def)
qed

lemma unregister_performs:
  assumes W: "sel_wf s" and r: "registered s (int i) \<noteq> None" and P: "inert tab g"
  shows "\<exists>s'. selector_unregister_fd tab (int i) (s, w) = Some (SELECTOR_SUCCESS, s', perform g (farewell tab s (int i)) w)
    \<and> sel_wf s' \<and> registered s' = (registered s)(int i := None) \<and> length (fds s') = length (fds s)"
proof -
  have u: "used (fds s) i" using r registered_int [OF W] by blast
  show ?thesis
    using unregister_refines [OF W r r W refl call_close_performs [OF W u P, of w]] by (auto simp: with_entry_def)
qed

lemma destroy_loop:
  assumes "inert tab g"
  shows "sel_wf s \<Longrightarrow> i \<le> length (fds s) \<Longrightarrow> \<exists>s'. c_loop (destroy_body tab) (i, s, w) =
    Some (length (fds s), s', perform g (concat (map (\<lambda>j. farewell tab s (int j)) [i..<length (fds s)])) w)"
proof (induction "length (fds s) - i" arbitrary: i s w)
  case 0
  then have "destroy_body tab (i, s, w) = Some (True, i, s, w)" by (simp add: destroy_body_def sel_wfD(1))
  then show ?case using 0 by (simp add: c_loop_break)
next
  case (Suc n)
  then have i: "i < length (fds s)" "i < fd_size s" by (simp_all add: sel_wfD(1))
  let ?w = "perform g (farewell tab s (int i)) w"
  have "\<exists>s'. destroy_body tab (i, s, w) = Some (False, i + 1, s', ?w) \<and> sel_wf s'
      \<and> registered s' = (registered s)(int i := None) \<and> length (fds s') = length (fds s)"
  proof (cases "used (fds s) i")
    case True
    with unregister_performs [OF Suc.prems(1) _ assms, of i w] registered_int [OF Suc.prems(1), of i] i show ?thesis
      by (auto simp: destroy_body_def item_at_def used_def)
  next
    case False
    then have "registered s (int i) = None" using registered_int [OF Suc.prems(1)] by blast
    with False Suc.prems(1) i show ?thesis
      by (auto simp: destroy_body_def item_at_def used_def farewell_def fun_upd_idem)
  qed
  then obtain s' where s': "destroy_body tab (i, s, w) = Some (False, i + 1, s', ?w)" "sel_wf s'"
      "registered s' = (registered s)(int i := None)" "length (fds s') = length (fds s)" by blast
  have same: "map (\<lambda>j. farewell tab s' (int j)) [i + 1..<length (fds s)] = map (\<lambda>j. farewell tab s (int j)) [i + 1..<length (fds s)]"
    using s'(3) by (intro map_cong refl) (simp add: farewell_def)
  have "\<exists>t. c_loop (destroy_body tab) (i + 1, s', ?w) =
      Some (length (fds s'), t, perform g (concat (map (\<lambda>j. farewell tab s' (int j)) [i + 1..<length (fds s')])) ?w)"
    using Suc.hyps(2) i s' by (intro Suc.hyps(1)) simp_all
  then show ?case using c_loop_continue [of "destroy_body tab" "(i, s, w)" "(i + 1, s', ?w)", OF s'(1)] i by (simp only: s'(4) same upt_conv_Cons [OF i(1)]) simp
qed

lemma destroy_performs:
  assumes "sel_wf s" "inert tab g"
  shows "selector_destroy tab s w = Some (perform g (concat (map (\<lambda>j. farewell tab s (int j)) [0..<FD_SETSIZE])) w)"
proof -
  note l = sel_wfD [OF assms(1)]
  have "farewell tab s (int i) = []" if "\<not> used (fds s) i" for i
    using that registered_int [OF assms(1), of i] by (simp add: farewell_def split: option.splits)
  then have none: "farewell tab s (int i) = []" if "length (fds s) \<le> i \<or> FD_SETSIZE \<le> i" for i
    using that used_fd [OF l(4), of i] used_less [of "fds s" i] by fastforce
  have "concat (map (\<lambda>j. farewell tab s (int j)) [0..<length (fds s)]) = concat (map (\<lambda>j. farewell tab s (int j)) [0..<FD_SETSIZE])"
    using none by (intro concat_upto_same) blast+
  moreover have "fds s \<noteq> []" using l(2) by auto
  ultimately show ?thesis
    using destroy_loop [OF assms(2,1), of 0 w] by (auto simp: selector_destroy_def)
qed

lemma new_wf:
  assumes "n \<le> ITEMS_MAX_SIZE"
  shows "\<exists>s. selector_new tab True (Some junk) n w = Some (Some s, w) \<and> sel_wf s \<and> registered s = Map.empty
    \<and> n < fd_size s \<and> resolution_jobs s = [] \<and> \<not> resolution_mutex s"
proof -
  obtain m where m: "next_capacity n = Some m" "n < m" "2 \<le> m" "m \<le> ITEMS_MAX_SIZE + 1" using next_capacity_grows [OF assms] by blast
  let ?e = "item_init blank_item :: ('a, 'b) item"
  let ?s = "zeroed_selector\<lparr>fds := replicate m ?e, fd_size := m, block := 1\<rparr> :: ('a, 'b) fdselector"
  have u: "used (replicate m ?e) i = False" for i by (simp add: used_def)
  have "ensure_capacity (Some junk) zeroed_selector n = Some (SELECTOR_SUCCESS, ?s)"
    using m assms by (simp add: ensure_capacity_def zeroed_selector_def items_init_def)
  moreover have "sel_wf ?s" using m by (simp add: sel_wf_def zeroed_selector_def items_ok_def is_top_def interested_def u)
  moreover have "registered ?s = Map.empty" by (simp add: registered_def fun_eq_iff u)
  ultimately show ?thesis using m by (simp add: selector_new_def zeroed_selector_def)
qed

section \<open>The interface: a table of descriptors\<close>

text \<open>
  What the rest of the program relies on: adding a descriptor that is not in the table and removing one
  that is always succeed, and act on the table as on a map.
\<close>

locale fd_table =
  fixes ok :: "'s \<Rightarrow> bool"
    and view :: "'s \<Rightarrow> int \<rightharpoonup> 'e"
    and valid :: "int \<Rightarrow> bool"
    and add :: "int \<Rightarrow> 'e \<Rightarrow> 's \<Rightarrow> 's option"
    and del :: "int \<Rightarrow> 's \<Rightarrow> 's option"
  assumes add_law: "ok s \<Longrightarrow> valid fd \<Longrightarrow> view s fd = None \<Longrightarrow>
      \<exists>s'. add fd e s = Some s' \<and> ok s' \<and> view s' = (view s)(fd \<mapsto> e)"
    and del_law: "ok s \<Longrightarrow> view s fd \<noteq> None \<Longrightarrow> \<exists>s'. del fd s = Some s' \<and> ok s' \<and> view s' = (view s)(fd := None)"
begin

lemma add_all:
  "ok s \<Longrightarrow> distinct (map fst es) \<Longrightarrow> \<forall>fd \<in> fst ` set es. valid fd \<and> view s fd = None \<Longrightarrow>
    \<exists>s'. steps (\<lambda>(fd, e). add fd e) es s = Some s' \<and> ok s' \<and> view s' = view s ++ map_of es"
proof (induction es arbitrary: s)
  case (Cons x es)
  obtain fd e where x: "x = (fd, e)" by fastforce
  obtain s1 where s1: "add fd e s = Some s1" "ok s1" "view s1 = (view s)(fd \<mapsto> e)"
    using add_law [of s fd e] Cons.prems x by auto
  have "\<forall>fd' \<in> fst ` set es. valid fd' \<and> view s1 fd' = None"
    using Cons.prems(2,3) s1(3) x by (auto simp: fun_upd_def)
  then obtain s2 where "steps (\<lambda>(fd, e). add fd e) es s1 = Some s2" "ok s2" "view s2 = view s1 ++ map_of es"
    using Cons.IH [OF s1(2)] Cons.prems(2) by auto
  moreover have "fd \<notin> dom (map_of es)" using Cons.prems(2) x by (simp add: dom_map_of_conv_image_fst)
  then have view: "view s1 ++ map_of es = view s ++ map_of (x # es)"
    unfolding s1(3) x by (intro ext) (auto simp: map_add_def split: option.splits)
  moreover have "steps (\<lambda>(fd, e). add fd e) (x # es) s = steps (\<lambda>(fd, e). add fd e) es s1" using s1(1) x by simp
  ultimately show ?case by metis
qed simp

text \<open>A descriptor number can be used again after it was removed; the table is then as if it were new.\<close>

lemma del_add:
  assumes "ok s" "valid fd" "view s fd \<noteq> None"
  shows "\<exists>s1 s2. del fd s = Some s1 \<and> add fd e s1 = Some s2 \<and> ok s2 \<and> view s2 = (view s)(fd \<mapsto> e)"
proof -
  obtain s1 where s1: "del fd s = Some s1" "ok s1" "view s1 = (view s)(fd := None)" using del_law [OF assms(1,3)] by blast
  then show ?thesis using add_law [of s1 fd e] assms(2) by auto
qed

end

definition sel_add :: "int \<Rightarrow> 'h \<times> fd_interest \<times> 'd option \<Rightarrow> ('h, 'd) fdselector \<times> 'w \<Rightarrow> (('h, 'd) fdselector \<times> 'w) option" where
  "sel_add fd e sw = (case (e, sw) of ((h, i, d), (s, w)) \<Rightarrow> do {
     (st, s') \<leftarrow> selector_register None fd (Some h) i d s;
     if st = SELECTOR_SUCCESS then Some (s', w) else None })"

definition sel_del :: "('h, 'd, 'w) callbacks \<Rightarrow> int \<Rightarrow> ('h, 'd) fdselector \<times> 'w \<Rightarrow> (('h, 'd) fdselector \<times> 'w) option" where
  "sel_del tab fd sw = do {
     (st, sw') \<leftarrow> selector_unregister_fd tab fd sw;
     if st = SELECTOR_SUCCESS then Some sw' else None }"

definition sel_ok :: "('h, 'd) fdselector \<times> 'w \<Rightarrow> bool" where
  "sel_ok sw \<longleftrightarrow> sel_wf (fst sw) \<and> fd_size (fst sw) = ITEMS_MAX_SIZE + 1"

lemma register_keeps_size:
  assumes "sel_wf s" "sel_wf s'" "fd_size s = ITEMS_MAX_SIZE + 1" "selector_register mem fd h i d s = Some (st, s')"
  shows "fd_size s' = ITEMS_MAX_SIZE + 1"
  using assms by (auto simp: selector_register_def INVALID_FD_def put_item_def items_update_fdset_for_fd_def Let_def
      split: if_splits bind_splits)

lemma sel_add_law:
  assumes "sel_ok sw" "\<not> INVALID_FD fd" "registered (fst sw) fd = None"
  shows "\<exists>sw'. sel_add fd e sw = Some sw' \<and> sel_ok sw' \<and> registered (fst sw') = (registered (fst sw))(fd \<mapsto> e) \<and> snd sw' = snd sw"
proof -
  obtain s w h i d where sw: "sw = (s, w)" "e = (h, i, d)" by (metis surj_pair)
  obtain n where n: "fd = int n" "n < FD_SETSIZE"
    using assms(2) by (auto simp: INVALID_FD_def sizes not_less not_le elim: nonneg_int_cases)
  have s: "sel_wf s" "fd_size s = ITEMS_MAX_SIZE + 1" "n \<noteq> fd_size s" "\<not> n > fd_size s"
    using assms(1) n sw by (auto simp: sel_ok_def sizes)
  obtain s' where "selector_register None (int n) (Some h) i d s = Some (SELECTOR_SUCCESS, s')" "sel_wf s'"
      "registered s' = (registered s)(int n \<mapsto> (h, i, d))"
    using register_defined [OF s(1,3) n(2), of None h i d] s(4) assms(3) n(1) sw by auto
  then show ?thesis using register_keeps_size [OF s(1) _ s(2)] n sw by (auto simp: sel_add_def sel_ok_def)
qed

lemma sel_del_law:
  assumes "sel_ok sw" "registered (fst sw) fd \<noteq> None" "inert tab g"
  shows "\<exists>sw'. sel_del tab fd sw = Some sw' \<and> sel_ok sw' \<and> registered (fst sw') = (registered (fst sw))(fd := None)"
proof -
  obtain s w where sw: "sw = (s, w)" by fastforce
  then have s: "sel_wf s" "length (fds s) = ITEMS_MAX_SIZE + 1" using assms(1) sel_wfD(1) [of s] by (auto simp: sel_ok_def)
  obtain n where n: "fd = int n" using registered_iff [OF s(1), of fd] assms(2) sw by (auto elim: nonneg_int_cases)
  show ?thesis using unregister_performs [OF s(1) _ assms(3), of n w] assms(2) s(2) n sw
    by (auto simp: sel_del_def sel_ok_def sel_wfD(1))
qed

interpretation tbl: fd_table sel_ok "\<lambda>sw. registered (fst sw)" "\<lambda>fd. \<not> INVALID_FD fd" sel_add "sel_del recorder"
proof
  show "\<exists>s'. sel_add fd e s = Some s' \<and> sel_ok s' \<and> registered (fst s') = (registered (fst s))(fd \<mapsto> e)"
    if "sel_ok s" "\<not> INVALID_FD fd" "registered (fst s) fd = None" for s fd e
    using sel_add_law [OF that, of e] by blast
  show "\<exists>s'. sel_del recorder fd s = Some s' \<and> sel_ok s' \<and> registered (fst s') = (registered (fst s))(fd := None)"
    if "sel_ok s" "registered (fst s) fd \<noteq> None" for s fd
    using sel_del_law [OF that recorder_inert] .
qed

text \<open>C24
  The life of a selector made for 1024 elements: it starts empty; descriptors registered in any order,
  each once, are exactly the registrations; destroying it calls the close handler of each of them once,
  in increasing order, with the data it was registered with, and no other handler. The callbacks are those
  that record their calls and do not use the selector.\<close>

theorem selector_lifecycle:
  fixes es :: "(int \<times> 'h \<times> fd_interest \<times> 'd option) list"
  assumes "distinct (map fst es)" "\<forall>fd \<in> fst ` set es. \<not> INVALID_FD fd"
  shows "\<exists>s s' l. selector_new recorder True (Some junk) 1024 [] = Some (Some s, [])
    \<and> steps (\<lambda>(fd, e). sel_add fd e) es (s, [] :: ('h, 'd) fd_call list) = Some (s', l) \<and> sel_wf s' \<and> registered s' = map_of es
    \<and> selector_destroy recorder s' [] = Some (concat (map (\<lambda>fd. case map_of es (int fd) of
        None \<Rightarrow> [] | Some (h, i, d) \<Rightarrow> [(h, HANDLE_CLOSE, \<lparr>key_fd = int fd, key_data = d\<rparr>)]) [0..<FD_SETSIZE]))"
proof -
  obtain s where s: "selector_new recorder True (Some junk) 1024 [] = Some (Some s, [])" "sel_wf s"
      "registered s = Map.empty" "1024 < fd_size s"
    using new_wf [of 1024 recorder junk "[]"] by (auto simp: sizes)
  then have "sel_ok (s, [] :: ('h, 'd) fd_call list)" using sel_wfD(1,3) [OF s(2)] by (simp add: sel_ok_def sizes)
  from tbl.add_all [OF this assms(1)] assms(2) s(3)
  obtain s' l where s': "steps (\<lambda>(fd, e). sel_add fd e) es (s, [] :: ('h, 'd) fd_call list) = Some (s', l)" "sel_wf s'" "registered s' = map_of es"
    by (auto simp: sel_ok_def)
  show ?thesis
    using s(1) s' destroy_performs [OF s'(2) recorder_inert, of "[]"]
    by (intro exI conjI) (auto simp: perform_recorder farewell_def recorder_def cong: option.case_cong)
qed

theorem selector_lifecycle_witness:
  "\<exists>s s' l. selector_new recorder True (Some (\<lambda>_. blank_item)) 1024 [] = Some (Some s, [])
    \<and> steps (\<lambda>(fd, e). sel_add fd e) [(7, CHR ''a'', OP_READ, Some ()), (3, CHR ''b'', OP_WRITE, None)] (s, [] :: (char, unit) fd_call list) = Some (s', l)
    \<and> sel_wf s' \<and> registered s' = map_of [(7, CHR ''a'', OP_READ, Some ()), (3, CHR ''b'', OP_WRITE, None)]
    \<and> selector_destroy recorder s' [] = Some (concat (map (\<lambda>fd. case map_of [(7, CHR ''a'', OP_READ, Some ()), (3, CHR ''b'', OP_WRITE, None)] (int fd) of
        None \<Rightarrow> [] | Some (h, i, d) \<Rightarrow> [(h, HANDLE_CLOSE, \<lparr>key_fd = int fd, key_data = d\<rparr>)]) [0..<FD_SETSIZE]))"
  by (rule selector_lifecycle) (simp_all add: INVALID_FD_def sizes)

section \<open>Callbacks that use the selector\<close>

text \<open>The handlers of the program register, unregister and change interests while the selector runs them.\<close>

definition typed :: "('w \<Rightarrow> 'h \<Rightarrow> 'd option \<Rightarrow> bool) \<Rightarrow> ('h, 'd) fdselector \<times> 'w \<Rightarrow> bool" where
  "typed T sw \<longleftrightarrow> sel_wf (fst sw) \<and> (\<forall>fd h i d. registered (fst sw) fd = Some (h, i, d) \<longrightarrow> T (snd sw) h d)"

definition keeps_typed :: "('w \<Rightarrow> 'h \<Rightarrow> 'd option \<Rightarrow> bool) \<Rightarrow> ('h, 'd, 'w) callbacks \<Rightarrow> bool" where
  "keeps_typed T tab \<longleftrightarrow> (\<forall>h ev f key sw sw'. tab h ev = Some f \<longrightarrow> f key sw = Some sw' \<longrightarrow> typed T sw \<longrightarrow> typed T sw')"

abbreviation keeps_wf :: "('h, 'd, 'w) callbacks \<Rightarrow> bool" where
  "keeps_wf \<equiv> keeps_typed (\<lambda>_ _ _. True)"

lemma typed_any [simp]: "typed (\<lambda>_ _ _. True) sw = sel_wf (fst sw)"
  by (simp add: typed_def)

lemma typedD: "typed T (s, w) \<Longrightarrow> sel_wf s"
  by (simp add: typed_def)

lemma keeps_typedD: "keeps_typed T tab \<Longrightarrow> tab h ev = Some f \<Longrightarrow> f key sw = Some sw' \<Longrightarrow> typed T sw \<Longrightarrow> typed T sw'"
  unfolding keeps_typed_def by blast

lemma typed_selector [simp]:
  "typed T (s\<lparr>slave_r := r\<rparr>, w) = typed T (s, w)" "typed T (s\<lparr>slave_w := r\<rparr>, w) = typed T (s, w)"
  "typed T (s\<lparr>resolution_jobs := js\<rparr>, w) = typed T (s, w)" "typed T (s\<lparr>resolution_mutex := m\<rparr>, w) = typed T (s, w)"
  by (simp_all add: typed_def sel_wf_def registered_def)

lemma steps_keep: "(\<And>i x x'. f i x = Some x' \<Longrightarrow> P x \<Longrightarrow> P x') \<Longrightarrow> steps f is x = Some x' \<Longrightarrow> P x \<Longrightarrow> P x'"
  by (induction "is" arbitrary: x) (auto split: bind_splits)

lemma valid_fd_cases: "\<not> INVALID_FD fd \<Longrightarrow> \<exists>i. fd = int i \<and> i < FD_SETSIZE"
  by (auto simp: INVALID_FD_def sizes not_less not_le elim: nonneg_int_cases)

lemma register_keeps_typed:
  assumes "typed T (s, w)" "selector_register mem fd h i d s = Some (st, s')" "\<And>h'. h = Some h' \<Longrightarrow> T w h' d"
  shows "typed T (s', w)"
proof (cases "INVALID_FD fd \<or> h = None")
  case True
  then show ?thesis using assms by (auto simp: selector_register_def)
next
  case False
  then obtain n h' where n: "fd = int n" "n < FD_SETSIZE" "h = Some h'" using valid_fd_cases by blast
  have W: "sel_wf s" using assms(1) by (rule typedD)
  then have "n \<noteq> fd_size s" using register_past_end [OF W] assms n sel_wfD(1) [OF W] by auto
  then show ?thesis using register_defined [OF W _ n(2), of mem h' i d] assms n
    by (auto simp: typed_def split: if_splits)
qed

lemma set_interest_keeps_typed:
  assumes "typed T (s, w)" "selector_set_interest fd i s = Some (st, s')"
  shows "typed T (s', w)"
proof (cases "INVALID_FD fd")
  case True
  then show ?thesis using assms by (simp add: selector_set_interest_def)
next
  case False
  then obtain n where n: "fd = int n" "n < FD_SETSIZE" using valid_fd_cases by blast
  show ?thesis
  proof (cases "registered s fd")
    case None
    then have "\<not> used (fds s) n" using registered_int [OF typedD [OF assms(1)]] n by simp
    then show ?thesis using assms n(1) False
      by (auto simp: selector_set_interest_def item_at_def used_def load_def split: if_splits bind_splits)
  next
    case (Some e)
    then show ?thesis using set_interest_refines [OF typedD [OF assms(1)], of n "fst e" "fst (snd e)" "snd (snd e)" i] assms n
      by (cases e) (auto simp: typed_def split: if_splits)
  qed
qed

lemma call_close_keeps_typed:
  "keeps_typed T tab \<Longrightarrow> call_close tab it sw = Some sw' \<Longrightarrow> typed T sw \<Longrightarrow> typed T sw'"
  by (auto simp: call_close_def split: bind_splits option.splits dest: keeps_typedD)

lemma unregister_keeps_typed:
  assumes "keeps_typed T tab" "typed T (s, w)" "selector_unregister_fd tab fd (s, w) = Some (st, s', w')"
  shows "typed T (s', w')"
proof (cases "INVALID_FD fd")
  case True
  then show ?thesis using assms by (simp add: selector_unregister_fd_def)
next
  case False
  then obtain i where i: "fd = int i" "i < FD_SETSIZE" using valid_fd_cases by blast
  have W0: "sel_wf s" using assms(2) by (rule typedD)
  show ?thesis
  proof (cases "used (fds s) i")
    case True
    then have it: "item_at s i = Some (fds s ! i)" "ITEM_USED (fds s ! i)" by (simp_all add: used_def item_at_def)
    obtain s1 w1 where c: "call_close tab (fds s ! i) (s, w) = Some (s1, w1)" "block s1 = block s" "i < length (fds s1)"
      using assms(3) False it i(1)
      by (auto simp: selector_unregister_fd_def item_ref_def item_at_def load_def Let_def split: bind_splits if_splits)
    have t1: "typed T (s1, w1)" using call_close_keeps_typed [OF assms(1) c(1) assms(2)] .
    have "used (fds s1) i"
    proof (rule ccontr)
      assume "\<not> used (fds s1) i"
      then have "it_fd (fds s1 ! i) = - 1" using c(3) by (simp add: used_def ITEM_USED_def FD_UNUSED_def)
      then show False using assms(3) False it i(1) c
        by (simp add: selector_unregister_fd_def item_ref_def item_at_def put_item_def items_update_fdset_for_fd_def FD_CLR_def Let_def)
    qed
    then obtain s2 where "selector_unregister_fd tab (int i) (s, w) = Some (SELECTOR_SUCCESS, s2, w1)" "sel_wf s2"
        "registered s2 = (registered s1)(int i := None)"
      using unregister_refines [OF typedD [OF t1] _ _ W0 c(2,1)] registered_int True typedD [OF t1] W0 by blast
    then show ?thesis using assms(3) i(1) t1 by (auto simp: typed_def split: if_splits)
  next
    case unused: False
    have "i < length (fds s)" using assms(3) False i(1)
      by (auto simp: selector_unregister_fd_def item_at_def load_def split: if_splits)
    then show ?thesis using unregister_unused [OF _ unused, of tab w] assms(2,3) i(1) by simp
  qed
qed

lemma call_handler_keeps_typed:
  "call_handler tab it ev key sw = Some sw' \<Longrightarrow> keeps_typed T tab \<Longrightarrow> typed T sw \<Longrightarrow> typed T sw'"
  unfolding call_handler_def by (auto split: bind_splits dest: keeps_typedD)

lemma iteration_step_keeps_typed:
  assumes "keeps_typed T tab" "iteration_step tab i sw = Some sw'" "typed T sw"
  shows "typed T sw'"
proof (cases sw)
  case (Pair s w)
  then show ?thesis using assms(2,3)
    by (auto simp: iteration_step_def Let_def split: bind_splits if_splits dest!: call_handler_keeps_typed [OF _ assms(1)])
qed

lemma notification_step_keeps_typed:
  "keeps_typed T tab \<Longrightarrow> notification_step tab j sw = Some sw' \<Longrightarrow> typed T sw \<Longrightarrow> typed T sw'"
  by (cases sw) (auto simp: notification_step_def split: bind_splits if_splits dest: call_handler_keeps_typed)

lemma handle_iteration_keeps_typed:
  assumes "keeps_typed T tab" "handle_iteration tab sw = Some sw'" "typed T sw"
  shows "typed T sw'"
  using assms(2,3) steps_keep [of "iteration_step tab" "typed T"] iteration_step_keeps_typed [OF assms(1)]
  unfolding handle_iteration_def by blast

lemma handle_block_notifications_keeps_typed:
  assumes "keeps_typed T tab" "handle_block_notifications tab sw = Some sw'" "typed T sw"
  shows "typed T sw'"
proof -
  obtain s w where sw: "sw = (s, w)" by fastforce
  then obtain s1 w1 where s1: "steps (notification_step tab) (resolution_jobs s) (s\<lparr>resolution_mutex := True\<rparr>, w) = Some (s1, w1)"
      "sw' = (s1\<lparr>resolution_jobs := [], resolution_mutex := False\<rparr>, w1)"
    using assms(2) by (auto simp: handle_block_notifications_def split: if_splits bind_splits)
  then show ?thesis using steps_keep [of "notification_step tab" "typed T", OF notification_step_keeps_typed [OF assms(1)] s1(1)]
      assms(3) sw by simp
qed

lemma select_keeps_typed:
  assumes "keeps_typed T tab" "selector_select tab poll sw = Some (st, sw')" "typed T sw"
  shows "typed T sw'"
  using assms(2,3)
  by (cases sw; cases poll)
    (auto simp: selector_select_def Let_def split: bind_splits
      dest!: handle_iteration_keeps_typed [OF assms(1)] handle_block_notifications_keeps_typed [OF assms(1)])

text \<open>What can happen to a selector: it is made, its operations are called, the rest of the program acts.\<close>

inductive sel_run :: "('h, 'd, 'w) callbacks \<Rightarrow> ('h, 'd) fdselector \<Rightarrow> 'w \<Rightarrow> bool" for tab where
  run_new: "selector_new tab True (Some junk) n w = Some (Some s, w') \<Longrightarrow> sel_run tab s w'"
| run_register: "sel_run tab s w \<Longrightarrow> selector_register mem fd h i d s = Some (st, s') \<Longrightarrow> sel_run tab s' w"
| run_set_interest: "sel_run tab s w \<Longrightarrow> selector_set_interest fd i s = Some (st, s') \<Longrightarrow> sel_run tab s' w"
| run_unregister: "sel_run tab s w \<Longrightarrow> selector_unregister_fd tab fd (s, w) = Some (st, s', w') \<Longrightarrow> sel_run tab s' w'"
| run_notify: "sel_run tab s w \<Longrightarrow> selector_notify_block mem' fd s = Some (st, s') \<Longrightarrow> sel_run tab s' w"
| run_select: "sel_run tab s w \<Longrightarrow> selector_select tab poll (s, w) = Some (st, s', w') \<Longrightarrow> sel_run tab s' w'"
| run_program: "sel_run tab s w \<Longrightarrow> sel_run tab s w'"

text \<open>
  Every selector the program can have is well-formed, as long as its callbacks, which may call any of the
  operations again, leave it well-formed: each entry of the table is free or carries its own index and a
  handler, the two sets handed to \<open>pselect\<close> are those of the interests in the table, and the largest
  descriptor is the largest in use.\<close>

theorem selector_wf:
  assumes "keeps_wf tab" "sel_run tab s w"
  shows "sel_wf s"
  using assms(2)
proof induction
  case (run_new junk n w s w')
  show ?case
  proof (cases "n \<le> ITEMS_MAX_SIZE")
    case True
    then show ?thesis using new_wf [OF True, of tab junk w] run_new by auto
  next
    case False
    then show ?thesis using run_new by (simp add: selector_new_def ensure_capacity_def zeroed_selector_def selector_destroy_def)
  qed
next
  case (run_select s w poll st s' w')
  then show ?case using select_keeps_typed [OF assms(1), of poll "(s, w)" st "(s', w')"] by simp
next
  case (run_notify s w mem' fd st s')
  then show ?case by (auto simp: selector_notify_block_def split: if_splits)
next
  case (run_register s w mem fd h i d st s')
  then show ?case using register_keeps_typed [of "\<lambda>_ _ _. True" s w mem fd h i d st s'] by simp
next
  case (run_set_interest s w fd i st s')
  then show ?case using set_interest_keeps_typed [of "\<lambda>_ _ _. True" s w fd i st s'] by simp
next
  case (run_unregister s w fd st s' w')
  then show ?case using unregister_keeps_typed [OF assms(1), of s w fd st s' w'] by simp
qed simp

theorem selector_wf_witness:
  "\<exists>s :: (nat, nat) fdselector. selector_new recorder True (Some (\<lambda>_. blank_item)) 20 [] = Some (Some s, []) \<and> sel_wf s"
proof -
  obtain s :: "(nat, nat) fdselector" where s: "selector_new recorder True (Some (\<lambda>_. blank_item)) 20 [] = Some (Some s, [])"
    using new_wf [of 20 recorder "\<lambda>_. blank_item" "[]"] by (auto simp: sizes)
  have "keeps_wf recorder" by (auto simp: keeps_typed_def recorder_def)
  from selector_wf [OF this sel_run.run_new [OF s]] s show ?thesis by blast
qed

end
