(* ===== verification/Logger.thy ===== *)
theory Logger
  imports Platform Buffer Config SelectorProperties
begin

unbundle bit_operations_syntax

text \<open>
  \<open>proxy_http/src/logger/logger.c\<close>, \<open>include/logger/logger.h\<close>: lines are put into a buffer, each with a
  NUL after it; the selector writes the buffer to a pipe; a thread reads the pipe byte by byte and hands
  each line to \<open>syslog\<close>. The thread is \<open>log_thread\<close>, on the list of what its \<open>read\<close>s give.
\<close>

section \<open>The sending side\<close>

record log =
  lg_readfd :: int
  lg_writefd :: int
  logbuf :: buffer

datatype log_status = LOG_OK | PIPE_FAIL

text \<open>
  \<open>pipe\<close> answers with a number and two descriptors; \<open>mem\<close> is the block of 8192 bytes. The result of
  \<open>malloc\<close> is not tested: without memory the buffer has no block.
\<close>

definition log_start :: "int \<Rightarrow> int \<times> int \<Rightarrow> byte list option \<Rightarrow> log \<Rightarrow> log_status \<times> log" where
  "log_start pipe fd mem l =
     (if pipe = - 1 then (PIPE_FAIL, l)
      else (LOG_OK, l\<lparr>lg_readfd := fst fd, lg_writefd := snd fd,
        logbuf := buffer_init 8192 (case mem of None \<Rightarrow> [] | Some b \<Rightarrow> b)\<rparr>))"

text \<open>\<open>s\<close> is a C string; \<open>buffer_ptr[buffer_space - 1]\<close> is an offset from the write pointer.\<close>

definition log_send :: "byte list \<Rightarrow> log \<Rightarrow> ('h, 'd) fdselector \<Rightarrow> (log \<times> ('h, 'd) fdselector) option" where
  "log_send s l sel =
     (let len = min (length s) 2048 in do {
        (ptr, buffer_space) \<leftarrow> buffer_write_ptr (logbuf l);
        d \<leftarrow> store_block (data (logbuf l)) ptr (strncpy buffer_space s);
        b' \<leftarrow> (if len > buffer_space then do {
                d' \<leftarrow> (if ptr + buffer_space \<ge> 1 then store d (ptr + buffer_space - 1) 0 else None);
                buffer_write_adv ((logbuf l)\<lparr>data := d'\<rparr>) (int buffer_space)
              } else do {
                d' \<leftarrow> store d (ptr + len) 0;
                buffer_write_adv ((logbuf l)\<lparr>data := d'\<rparr>) (int len + 1)
              });
        (_, sel') \<leftarrow> selector_set_interest (lg_writefd l) OP_WRITE sel;
        Some (l\<lparr>logbuf := b'\<rparr>, sel')
      })"

text \<open>\<open>txt\<close> is what the format gives; \<open>vsnprintf\<close> keeps 2047 characters of it.\<close>

definition log_sendf :: "byte list \<Rightarrow> log \<Rightarrow> ('h, 'd) fdselector \<Rightarrow> (log \<times> ('h, 'd) fdselector) option" where
  "log_sendf txt l sel = log_send (take 2047 txt) l sel"

definition log_write :: "log \<Rightarrow> platform \<Rightarrow> ('h, 'd) fdselector \<Rightarrow> (log \<times> platform \<times> ('h, 'd) fdselector) option" where
  "log_write l p sel =
     do {
       (ptr, buffer_size) \<leftarrow> buffer_read_ptr (logbuf l);
       if buffer_size > 0 then do {
         (written_bytes, p') \<leftarrow> write_from (lg_writefd l) (logbuf l) p;
         b' \<leftarrow> buffer_read_adv (logbuf l) written_bytes;
         Some (l\<lparr>logbuf := b'\<rparr>, p', sel)
       } else do {
         (_, sel') \<leftarrow> selector_set_interest (lg_writefd l) OP_NOOP sel;
         Some (l, p, sel')
       }
     }"

definition log_close :: "log \<Rightarrow> platform \<Rightarrow> platform" where
  "log_close l p = sys_close (lg_writefd l) p"

section \<open>The thread\<close>

datatype log_read = Got byte | Closed_pipe | Failed

record log_reader =
  lt_cache :: "byte list"
  lt_position :: nat
  lt_syslog :: "byte list list"

definition log_thread_byte :: "byte \<Rightarrow> log_reader \<Rightarrow> log_reader option" where
  "log_thread_byte c t =
     do {
       cache \<leftarrow> store (lt_cache t) (lt_position t) c;
       let position = lt_position t + 1;
       if position < 2046 \<and> c = 0 \<or> position = 2046 then
         (if 0 \<in> set cache
          then Some \<lparr>lt_cache = replicate 2048 0, lt_position = 0, lt_syslog = lt_syslog t @ [c_string cache]\<rparr>
          else None)
       else Some (t\<lparr>lt_cache := cache, lt_position := position\<rparr>)
     }"

fun log_thread :: "log_read list \<Rightarrow> log_reader \<Rightarrow> log_reader option" where
  "log_thread [] t = Some t"
| "log_thread (Closed_pipe # rs) t = Some t"
| "log_thread (Failed # rs) t = log_thread rs t"
| "log_thread (Got c # rs) t = do { t' \<leftarrow> log_thread_byte c t; log_thread rs t' }"

section \<open>Facts\<close>

text \<open>A line that leaves room for its NUL is stored with it.\<close>

lemma log_send_stores:
  assumes I: "buf_inv (logbuf l)" and s: "length s < room (logbuf l)" "length s < 2048"
    and sel: "selector_set_interest (lg_writefd l) OP_WRITE sel = Some (st, sel')"
  shows "\<exists>b'. log_send s l sel = Some (l\<lparr>logbuf := b'\<rparr>, sel') \<and> buf_inv b' \<and> pending b' = pending (logbuf l) @ s @ [0]
    \<and> room b' = room (logbuf l) - (length s + 1)"
proof -
  let ?b = "logbuf l"
  note i = buf_invD [OF I]
  let ?z = "replicate (room ?b - length s) 0" and ?t = "replicate (room ?b - length s - 1) (0 :: byte)"
  have z: "?z = 0 # ?t" using s by (cases "room ?b - length s") simp_all
  have cpy: "strncpy (room ?b) s = (s @ [0]) @ ?t" using s(1) z by (simp add: strncpy_def)
  have len: "length ((s @ [0]) @ ?t) = room ?b" using s by simp
  let ?d = "overlay (wr ?b) ((s @ [0]) @ ?t) (data ?b)"
  let ?b' = "?b\<lparr>data := ?d, wr := wr ?b + length (s @ [0])\<rparr>"
  have fit: "wr ?b + room ?b \<le> length (data ?b)" using i by (simp add: room_def)
  have d1: "store_block (data ?b) (wr ?b) (strncpy (room ?b) s) = Some ?d"
    using fit len by (simp only: cpy store_block_def overlay_def) simp
  have "?d ! (wr ?b + length s) = 0" using i s by (simp add: overlay_def nth_append)
  then have "?d[wr ?b + length s := 0] = ?d" by (metis list_update_id)
  moreover have "wr ?b + length s < length ?d" using fit len s by simp
  ultimately have d2: "store ?d (wr ?b + length s) 0 = Some ?d" by simp
  have adv: "buffer_write_adv (?b\<lparr>data := ?d\<rparr>) (int (length s) + 1) = Some ?b'"
    using s i by (simp add: buffer_write_adv_def room_def nat_add_distrib)
  have "log_send s l sel = Some (l\<lparr>logbuf := ?b'\<rparr>, sel')"
    using s i(3) d1 d2 adv sel by (simp add: log_send_def buffer_write_ptr_def room_def Let_def)
  moreover have "pending ?b' = pending ?b @ s @ [0]" "buf_inv ?b'"
    using pending_overlay [OF I, of "s @ [0]" ?t] overlay_inv [OF I, of "s @ [0]" ?t] len by simp_all
  ultimately show ?thesis by (intro exI [of _ ?b']) (simp add: room_def)
qed

text \<open>A line that just fills the buffer writes its NUL one past the limit and then trips the \<open>assert\<close>.\<close>

lemma log_send_full:
  assumes "buf_inv (logbuf l)" "length s = room (logbuf l)" "length s \<le> 2048"
  shows "log_send s l sel = None"
proof -
  have "buffer_write_adv b (int (length s) + 1) = None" if "wr b + length s = limit b" for b
    using that by (simp add: buffer_write_adv_def nat_add_distrib)
  moreover have "wr (logbuf l) + length s = limit (logbuf l)" using assms(1,2) buf_invD(3) by (simp add: room_def)
  ultimately show ?thesis
    using assms(2,3) by (auto simp: log_send_def buffer_write_ptr_def room_def Let_def split: bind_splits)
qed

lemma log_thread_append: "(\<forall>r \<in> set xs. r \<noteq> Closed_pipe) \<Longrightarrow> log_thread (xs @ ys) t = do { t' \<leftarrow> log_thread xs t; log_thread ys t' }"
  by (induction xs t rule: log_thread.induct) (auto split: bind_splits)

lemma log_thread_prefix:
  "0 \<notin> set m \<Longrightarrow> lt_position t + length m < 2046 \<Longrightarrow> length (lt_cache t) = 2048 \<Longrightarrow>
    log_thread (map Got m) t = Some (t\<lparr>lt_cache := overlay (lt_position t) m (lt_cache t), lt_position := lt_position t + length m\<rparr>)"
proof (induction m arbitrary: t)
  case (Cons c m)
  let ?t = "t\<lparr>lt_cache := (lt_cache t)[lt_position t := c], lt_position := lt_position t + 1\<rparr>"
  have "log_thread_byte c t = Some ?t" using Cons.prems by (simp add: log_thread_byte_def)
  with Cons.IH [of ?t] Cons.prems show ?case by (simp add: overlay_Suc)
qed simp

lemma log_thread_line:
  assumes m: "0 \<notin> set m" "length m \<le> 2045" and t: "length (lt_cache t) = 2048" "lt_position t = 0"
  shows "log_thread (map Got (m @ [0])) t = Some \<lparr>lt_cache = replicate 2048 0, lt_position = 0, lt_syslog = lt_syslog t @ [m]\<rparr>"
proof -
  let ?t = "t\<lparr>lt_cache := overlay 0 m (lt_cache t), lt_position := length m\<rparr>"
  have l: "length (overlay 0 m (lt_cache t)) = 2048" using m t by simp
  have "(overlay 0 m (lt_cache t))[length m := 0] = overlay 0 (m @ [0]) (lt_cache t)"
    using overlay_snoc [of 0 m "lt_cache t" 0] m t by simp
  moreover have "overlay 0 (m @ [0]) (lt_cache t) = m @ 0 # drop (Suc (length m)) (lt_cache t)" by (simp add: overlay_def)
  ultimately have "log_thread_byte 0 ?t = Some \<lparr>lt_cache = replicate 2048 0, lt_position = 0, lt_syslog = lt_syslog t @ [m]\<rparr>"
    using m l by (auto simp: log_thread_byte_def Let_def c_string_app)
  moreover have "log_thread (map Got m) t = Some ?t" using log_thread_prefix [OF m(1), of t] m(2) t by simp
  ultimately show ?thesis by (subst map_append, subst log_thread_append) auto
qed

lemma log_thread_lines:
  "\<forall>m \<in> set ms. 0 \<notin> set m \<and> length m \<le> 2045 \<Longrightarrow> length (lt_cache t) = 2048 \<Longrightarrow> lt_position t = 0 \<Longrightarrow>
    \<exists>t'. log_thread (map Got (concat (map (\<lambda>m. m @ [0]) ms))) t = Some t' \<and> lt_syslog t' = lt_syslog t @ ms"
proof (induction ms arbitrary: t)
  case (Cons m ms)
  let ?t = "\<lparr>lt_cache = replicate 2048 0, lt_position = 0, lt_syslog = lt_syslog t @ [m]\<rparr>"
  have "log_thread (map Got ((m @ [0]) @ concat (map (\<lambda>m. m @ [0]) ms))) t =
      log_thread (map Got (concat (map (\<lambda>m. m @ [0]) ms))) ?t"
    using log_thread_line [of m t] Cons.prems unfolding map_append [of Got] by (subst log_thread_append) auto
  with Cons.IH [of ?t] Cons.prems show ?case by simp
qed auto

text \<open>Sending several lines, and writing the buffer out in as many pieces as \<open>write\<close> likes.\<close>

definition log_sends :: "byte list list \<Rightarrow> log \<times> ('h, 'd) fdselector \<Rightarrow> (log \<times> ('h, 'd) fdselector) option" where
  "log_sends = steps (\<lambda>s (l, sel). log_send s l sel)"

lemma log_sends_store:
  "buf_inv (logbuf l) \<Longrightarrow> (\<Sum>m\<leftarrow>ms. length m + 1) \<le> room (logbuf l) \<Longrightarrow> \<forall>m \<in> set ms. length m \<le> 2045 \<Longrightarrow>
   sel_wf sel \<Longrightarrow> registered sel (lg_writefd l) \<noteq> None \<Longrightarrow>
    \<exists>b' sel'. log_sends ms (l, sel) = Some (l\<lparr>logbuf := b'\<rparr>, sel') \<and> buf_inv b' \<and> sel_wf sel'
      \<and> registered sel' (lg_writefd l) \<noteq> None \<and> pending b' = pending (logbuf l) @ concat (map (\<lambda>m. m @ [0]) ms)"
proof (induction ms arbitrary: l sel)
  case Nil
  then show ?case by (intro exI [of _ "logbuf l"]) (simp add: log_sends_def)
next
  case (Cons m ms)
  obtain i where i: "lg_writefd l = int i" using registered_iff [OF Cons.prems(4)] Cons.prems(5) by (metis nonneg_int_cases)
  obtain h j d where r: "registered sel (int i) = Some (h, j, d)" using Cons.prems(5) i by auto
  obtain sel1 where sel1: "selector_set_interest (lg_writefd l) OP_WRITE sel = Some (SELECTOR_SUCCESS, sel1)" "sel_wf sel1"
      "registered sel1 = (registered sel)(int i \<mapsto> (h, OP_WRITE, d))"
    using set_interest_refines [OF Cons.prems(4) r, of OP_WRITE] i by auto
  obtain b1 where b1: "log_send m l sel = Some (l\<lparr>logbuf := b1\<rparr>, sel1)" "buf_inv b1" "pending b1 = pending (logbuf l) @ m @ [0]"
      "room b1 = room (logbuf l) - (length m + 1)"
    using log_send_stores [OF Cons.prems(1) _ _ sel1(1), of m] Cons.prems(2,3) by auto
  have "\<exists>b' sel'. log_sends ms (l\<lparr>logbuf := b1\<rparr>, sel1) = Some (l\<lparr>logbuf := b1\<rparr>\<lparr>logbuf := b'\<rparr>, sel') \<and> buf_inv b' \<and> sel_wf sel'
      \<and> registered sel' (lg_writefd (l\<lparr>logbuf := b1\<rparr>)) \<noteq> None \<and> pending b' = pending (logbuf (l\<lparr>logbuf := b1\<rparr>)) @ concat (map (\<lambda>m. m @ [0]) ms)"
    using b1 sel1 Cons.prems i by (intro Cons.IH) simp_all
  then show ?case using b1 by (simp add: log_sends_def)
qed

section \<open>Properties\<close>

text \<open>C28
  The log delivers: lines put into an empty buffer, as many as fit, are stored without loss, and from what
  is then to be written to the pipe the thread hands exactly these lines to \<open>syslog\<close>, in order.\<close>

theorem log_roundtrip:
  assumes "buf_inv (logbuf l)" "pending (logbuf l) = []" "(\<Sum>m\<leftarrow>ms. length m + 1) \<le> room (logbuf l)"
    "\<forall>m \<in> set ms. 0 \<notin> set m \<and> length m \<le> 2045" "sel_wf sel" "registered sel (lg_writefd l) \<noteq> None"
    "length (lt_cache t) = 2048" "lt_position t = 0"
  shows "\<exists>l' sel' t'. log_sends ms (l, sel) = Some (l', sel') \<and> sel_wf sel'
    \<and> log_thread (map Got (pending (logbuf l'))) t = Some t' \<and> lt_syslog t' = lt_syslog t @ ms"
proof -
  obtain b' sel' where "log_sends ms (l, sel) = Some (l\<lparr>logbuf := b'\<rparr>, sel')" "sel_wf sel'"
      "pending b' = concat (map (\<lambda>m. m @ [0]) ms)"
    using log_sends_store [OF assms(1,3) _ assms(5,6)] assms(2,4) by auto
  then show ?thesis using log_thread_lines [OF assms(4,7,8)] by auto
qed

definition log_example :: log where
  "log_example = \<lparr>lg_readfd = 0, lg_writefd = 1, logbuf = buffer_init 100 (replicate 100 0)\<rparr>"

lemma log_example_buf: "buf_inv (logbuf log_example)" "pending (logbuf log_example) = []" "room (logbuf log_example) = 100"
  by (simp_all add: log_example_def buffer_init_def buf_inv_init_r init_r_view buffer_reset_def)

lemma watching_registered: "registered watching 1 = Some (5, OP_READ OR OP_WRITE, Some 6)"
  by (simp add: registered_def watching_def with_entry_def used_def small_selector_def ITEM_USED_def FD_UNUSED_def)

theorem log_roundtrip_witness:
  "\<exists>l' sel' t'. log_sends [str ''one'', str ''two''] (log_example, watching) = Some (l', sel') \<and> sel_wf sel'
    \<and> log_thread (map Got (pending (logbuf l'))) \<lparr>lt_cache = replicate 2048 7, lt_position = 0, lt_syslog = []\<rparr> = Some t'
    \<and> lt_syslog t' = lt_syslog \<lparr>lt_cache = replicate 2048 7, lt_position = 0, lt_syslog = []\<rparr> @ [str ''one'', str ''two'']"
proof (rule log_roundtrip)
  show "registered watching (lg_writefd log_example) \<noteq> None" by (simp add: log_example_def watching_registered)
qed (simp_all add: log_example_buf watching_wf)

end
