(* ===== verification/Chunks.thy ===== *)
theory Chunks
  imports ResponseProperties
begin

text \<open>
  \<open>proxy_http/src/client/chunks.c\<close>: what the transformation program prints is wrapped into
  chunks of the chunked transfer coding. \<open>read\<close> is the parameter \<open>rd_fd\<close>: for the number
  of bytes asked for it gives the bytes that came, or an error; its contract is that it gives at most as
  many as asked for.
\<close>

section \<open>Operations\<close>

definition MAX_CHUNK_SIZE_DIGITS :: nat where "MAX_CHUNK_SIZE_DIGITS = 7"

definition write_empty_chunk :: "buffer \<Rightarrow> (int \<times> buffer) option" where
  "write_empty_chunk b =
     do {
       (p, space) \<leftarrow> buffer_write_ptr b;
       let chunk = str ''0'' @ [13, 10, 13, 10];
       if space \<ge> length chunk then do {
         d \<leftarrow> store_block (data b) p chunk;
         b' \<leftarrow> buffer_write_adv (b\<lparr>data := d\<rparr>) (int (length chunk));
         Some (int (length chunk), b')
       } else Some (0, b)
     }"

text \<open>
  \<open>%X\<close> prints the upper case hexadecimal digits that \<open>hex_text\<close> gives. \<open>mem\<close> says whether
  \<open>malloc\<close> succeeds. Each of the two \<open>sprintf\<close>s writes a NUL after its text, which the next write
  covers; the last one stays in the free part of the block and must fit as well.
\<close>

definition dump_chunk_from_fd :: "bool \<Rightarrow> (nat \<Rightarrow> byte list option) \<Rightarrow> buffer \<Rightarrow> (int \<times> buffer) option" where
  "dump_chunk_from_fd mem rd_fd b =
     do {
       (p, space) \<leftarrow> buffer_write_ptr b;
       if space > MAX_CHUNK_SIZE_DIGITS + 4 then
         (let chunk_size = space - MAX_CHUNK_SIZE_DIGITS - 4 in
          if \<not> mem then Some (- 1, b)
          else (case rd_fd chunk_size of
              None \<Rightarrow> Some (- 1, b)
            | Some temp_buffer \<Rightarrow>
                if length temp_buffer > 0 then do {
                  let head = hex_text (int (length temp_buffer)) @ [13, 10];
                  d1 \<leftarrow> store_block (data b) p (head @ [0]);
                  d2 \<leftarrow> store_block d1 (p + length head) temp_buffer;
                  d3 \<leftarrow> store_block d2 (p + length head + length temp_buffer) [13, 10, 0];
                  let n = length head + length temp_buffer + 2;
                  b' \<leftarrow> buffer_write_adv (b\<lparr>data := d3\<rparr>) (int n);
                  Some (int n, b')
                } else Some (0, b)))
       else Some (0, b)
     }"

section \<open>Facts\<close>

text \<open>The chunk that carries \<open>xs\<close>, and its last part, the length line.\<close>

definition chunk_of :: "byte list \<Rightarrow> chunk" where
  "chunk_of xs = (hex_text (int (length xs)), xs)"

lemma hex_text_0: "hex_text 0 = str ''0''"
  by (simp add: hex_text_def)

lemma chunk_of_ok: "length xs < 16 ^ 6 \<Longrightarrow> chunk_ok (chunk_of xs)"
  using hex_text_spec [of "int (length xs)"] hex_text_nonempty [of "int (length xs)"]
  by (simp add: chunk_ok_def chunk_of_def int_range_def)

lemma length_chunk_of: "length xs < 16 ^ 6 \<Longrightarrow> length (chunk_text (chunk_of xs)) \<le> length xs + 10"
  using length_hex_digits [of "int (length xs)" 6] by (auto simp: chunk_text_def chunk_of_def hex_text_def)

text \<open>The contract of \<open>read\<close>.\<close>

definition read_ok :: "(nat \<Rightarrow> byte list option) \<Rightarrow> bool" where
  "read_ok rd_fd \<longleftrightarrow> (\<forall>n xs. rd_fd n = Some xs \<longrightarrow> length xs \<le> n)"

lemma dump_chunk_writes:
  assumes I: "buf_inv b" and r: "room b > 11" "room b \<le> 16 ^ 6" and x: "rd_fd (room b - 11) = Some xs" "xs \<noteq> []"
    "length xs \<le> room b - 11"
  shows "\<exists>b'. dump_chunk_from_fd True rd_fd b = Some (int (length (chunk_text (chunk_of xs))), b')
    \<and> pending b' = pending b @ chunk_text (chunk_of xs) \<and> buf_inv b'
    \<and> infLimit b' = infLimit b \<and> rd b' = rd b \<and> room b' = room b - length (chunk_text (chunk_of xs))"
proof -
  note i = buf_invD [OF I]
  let ?h = "hex_text (int (length xs)) @ [13, 10]" and ?c = "chunk_text (chunk_of xs)"
  let ?b = "b\<lparr>data := overlay (wr b) (?c @ [0]) (data b), wr := wr b + length ?c\<rparr>"
  have c: "?c = ?h @ xs @ [13, 10]" by (simp add: chunk_text_def chunk_of_def)
  have "length xs < 16 ^ 6" using r x(3) by simp
  from length_chunk_of [OF this] have l: "length (?c @ [0]) \<le> room b" using r x(3) by simp
  have fits: "wr b + length (?c @ [0]) \<le> length (data b)" using l i by (simp add: room_def)
  have d: "store_block (data b) (wr b) (?h @ [0]) = Some (overlay (wr b) (?h @ [0]) (data b))"
      "store_block (overlay (wr b) (?h @ [0]) (data b)) (wr b + length ?h) xs = Some (overlay (wr b) (?h @ xs) (data b))"
      "store_block (overlay (wr b) (?h @ xs) (data b)) (wr b + length ?h + length xs) [13, 10, 0] =
         Some (overlay (wr b) (?c @ [0]) (data b))"
    using fits x(2) overlay_over [of xs "wr b" ?h "data b" 0] overlay_append [of "wr b" "?h @ xs" "data b" "[13, 10, 0]"]
    by (simp_all add: c store_block_overlay ac_simps)
  have n: "length ?c = length ?h + length xs + 2" by (simp add: c)
  have adv: "buffer_write_adv (b\<lparr>data := overlay (wr b) (?c @ [0]) (data b)\<rparr>) (int (length ?h + length xs + 2)) = Some ?b"
    using l by (subst n [symmetric]) (simp add: buffer_write_adv_def room_def)
  have rd: "rd_fd (room b - MAX_CHUNK_SIZE_DIGITS - 4) = Some xs" using x(1) by (simp add: MAX_CHUNK_SIZE_DIGITS_def)
  have ptr: "buffer_write_ptr b = Some (wr b, room b)" using i(3) by (simp add: buffer_write_ptr_def room_def)
  have "room b > MAX_CHUNK_SIZE_DIGITS + 4" "length xs > 0" using r(1) x(2) by (simp_all add: MAX_CHUNK_SIZE_DIGITS_def)
  then have "dump_chunk_from_fd True rd_fd b = Some (int (length ?c), ?b)"
    unfolding dump_chunk_from_fd_def Let_def ptr Option.bind.simps prod.case
    by (simp only: if_True not_True_eq_False if_False rd option.case d Option.bind.simps adv) (simp only: n)
  with pending_overlay [OF I l] overlay_inv [OF I l] l show ?thesis by (auto simp: room_def)
qed

lemma write_empty_chunk_writes:
  assumes I: "buf_inv b" and r: "5 \<le> room b"
  shows "\<exists>b'. write_empty_chunk b = Some (5, b')
    \<and> pending b' = pending b @ chunk_text (chunk_of []) \<and> buf_inv b' \<and> infLimit b' = infLimit b \<and> rd b' = rd b
    \<and> room b' = room b - length (chunk_text (chunk_of []))"
proof -
  let ?c = "chunk_text (chunk_of [])"
  have c: "?c = str ''0'' @ [13, 10, 13, 10]" by (simp add: chunk_text_def chunk_of_def hex_text_0)
  have "write_empty_chunk b = map_option (Pair 5) (fill b ?c)"
    using r unfolding write_empty_chunk_def fill_def
    by (cases "wr b \<le> limit b") (auto simp: c buffer_write_ptr_def room_def split: option.splits bind_splits)
  moreover have "fill b ?c = Some (pushes b ?c)" using I r by (simp add: fill_eq c)
  ultimately show ?thesis using I r by (simp add: c buf_view)
qed

text \<open>
  The output of the transformation, as the pieces \<open>read\<close> gave it in turn, goes into the buffer as one chunk
  each, and its end as the empty chunk.
\<close>

primrec dump_pieces :: "byte list list \<Rightarrow> buffer \<Rightarrow> buffer option" where
  "dump_pieces [] b = do { (_, b') \<leftarrow> write_empty_chunk b; Some b' }"
| "dump_pieces (xs # xss) b = do { (_, b') \<leftarrow> dump_chunk_from_fd True (\<lambda>_. Some xs) b; dump_pieces xss b' }"

lemma dump_pieces_writes:
  "buf_inv b \<Longrightarrow> room b \<le> 16 ^ 6 \<Longrightarrow> (\<Sum>xs\<leftarrow>xss. length xs + 11) + 5 \<le> room b \<Longrightarrow> [] \<notin> set xss \<Longrightarrow>
    \<exists>b'. dump_pieces xss b = Some b' \<and> buf_inv b' \<and> infLimit b' = infLimit b \<and> rd b' = rd b
      \<and> pending b' = pending b @ concat (map chunk_text (map chunk_of xss)) @ chunk_text (chunk_of [])"
proof (induction xss arbitrary: b)
  case Nil
  then show ?case using write_empty_chunk_writes [of b] by auto
next
  case (Cons xs xss)
  then obtain b1 where b1: "dump_chunk_from_fd True (\<lambda>_. Some xs) b = Some (int (length (chunk_text (chunk_of xs))), b1)"
      "pending b1 = pending b @ chunk_text (chunk_of xs)" "buf_inv b1" "infLimit b1 = infLimit b" "rd b1 = rd b"
      "room b1 = room b - length (chunk_text (chunk_of xs))"
    using dump_chunk_writes [of b "\<lambda>_. Some xs" xs] by fastforce
  have "length (chunk_text (chunk_of xs)) \<le> length xs + 10" using Cons.prems by (intro length_chunk_of) simp
  then have "\<exists>b'. dump_pieces xss b1 = Some b' \<and> buf_inv b' \<and> infLimit b' = infLimit b1 \<and> rd b' = rd b1
      \<and> pending b' = pending b1 @ concat (map chunk_text (map chunk_of xss)) @ chunk_text (chunk_of [])"
    using Cons.prems b1 by (intro Cons.IH) simp_all
  with b1 show ?case by auto
qed

section \<open>Properties\<close>

text \<open>C20
  The chunks the proxy makes of the transformation's output are ones its own decoder understands:
  whatever pieces the output comes in, wrapping each in a chunk and closing with the empty chunk gives
  a text from which the response parser recovers the output exactly, and finishes.\<close>

theorem chunks_roundtrip:
  assumes "buf_inv b" "pending b = []" "resv b = 0" "room b \<le> 16 ^ 6"
    "(\<Sum>xs\<leftarrow>xss. length xs + 11) + 5 \<le> room b" "[] \<notin> set xss"
    "buf_inv bTransf" "rs_parserState rData = BODY_TRANSFORMATION" "rs_isChunked rData"
  shows "\<exists>b' d bIn' bTransf'. dump_pieces xss b = Some b'
    \<and> checkResponse rData b' bOut bTransf = Some (True, d, bIn', bOut, bTransf')
    \<and> rs_parserState d = RES_FINISHED \<and> rs_state d = rs_state rData \<and> pending bIn' = []
    \<and> pending bTransf' = pending bTransf @ take (room bTransf) (concat xss)"
proof -
  obtain b' where b': "dump_pieces xss b = Some b'" "buf_inv b'" "infLimit b' = infLimit b" "rd b' = rd b"
      "pending b' = concat (map chunk_text (map chunk_of xss)) @ chunk_text (hex_text 0, []) @ []"
    using dump_pieces_writes [OF assms(1,4,5,6)] assms(2) by (auto simp: chunk_of_def)
  have "length xs < 16 ^ 6" if "xs \<in> set xss" for xs
    using member_le_sum_list [of "length xs + 11" "map (\<lambda>xs. length xs + 11) xss"] that assms(4,5) by auto
  then have ok: "\<forall>ch \<in> set (map chunk_of xss). chunk_ok ch \<and> snd ch \<noteq> []"
    using assms(6) chunk_of_ok by (auto simp: chunk_of_def)
  have "chunk_ok (hex_text 0, [])" using chunk_of_ok [of "[]"] by (simp add: chunk_of_def)
  moreover have "resv b' = 0" using assms(3) b'(3,4) by (simp add: resv_def)
  moreover have "map snd (map chunk_of xss) = xss" by (simp add: chunk_of_def o_def)
  ultimately show ?thesis
    using checkResponse_dechunks_run [OF b'(2) assms(7) _ b'(5) ok _ assms(8,9)] b'(1) by auto
qed


theorem chunks_roundtrip_witness:
  "\<exists>b' d bIn' bTransf'. dump_pieces [str ''ab'', str ''c''] (buffer_init_r 4 100 (replicate 100 0)) = Some b'
    \<and> checkResponse (no_response\<lparr>rs_parserState := BODY_TRANSFORMATION, rs_isChunked := True\<rparr>) b' (holding []) (holding [])
      = Some (True, d, bIn', holding [], bTransf')
    \<and> rs_parserState d = RES_FINISHED
    \<and> rs_state d = rs_state (no_response\<lparr>rs_parserState := BODY_TRANSFORMATION, rs_isChunked := True\<rparr>)
    \<and> pending bIn' = [] \<and> pending bTransf' = pending (holding []) @ take (room (holding [])) (concat [str ''ab'', str ''c''])"
  by (rule chunks_roundtrip) (simp_all add: buf_inv_init_r init_r_view)

text \<open>
  With little room, \<open>dump_chunk_from_fd\<close> does not read at all and gives 0, the value by which its
  caller knows the end of the output; \<open>write_empty_chunk\<close> needs 5 bytes and gives 0 without them.
\<close>

lemma dump_chunk_starved: "buf_inv b \<Longrightarrow> room b \<le> 11 \<Longrightarrow> dump_chunk_from_fd mem rd_fd b = Some (0, b)"
  by (auto simp: dump_chunk_from_fd_def buffer_write_ptr_def MAX_CHUNK_SIZE_DIGITS_def room_def buf_inv_def)

lemma write_empty_chunk_starved: "buf_inv b \<Longrightarrow> room b < 5 \<Longrightarrow> write_empty_chunk b = Some (0, b)"
  by (auto simp: write_empty_chunk_def buffer_write_ptr_def room_def buf_inv_def)

lemma dump_chunk_end: "buf_inv b \<Longrightarrow> rd_fd (room b - 11) = Some [] \<Longrightarrow> dump_chunk_from_fd True rd_fd b = Some (0, b)"
  by (auto simp: dump_chunk_from_fd_def buffer_write_ptr_def MAX_CHUNK_SIZE_DIGITS_def room_def buf_inv_def add.commute)

end
