(* ===== verification/Client.thy ===== *)
theory Client
  imports Logger RequestProperties ResponseProperties Chunks AdminActions
begin

unbundle bit_operations_syntax

text \<open>
  The clients of the proxy: \<open>client/client.c\<close>, \<open>client_handlers.c\<close>, \<open>remote_handlers.c\<close>,
  \<open>transformation_handlers.c\<close>, \<open>client_private.h\<close> and \<open>transformations/transformations.c\<close>. A handler works
  on the selector and the state of the program: the answers of the system, the metrics, the
  configurations and the queue (\<open>admin\<close>), the log, and the heap of client structs, which are named by
  their addresses. \<open>free\<close> leaves the buffer's block without bytes, so any later access to it fails;
  \<open>exit\<close> ends the program and is a failure too. What is printed on the standard output is left out.
\<close>

section \<open>State\<close>

datatype handler_name = Listen_handler | Client_handlers | Remote_handlers | Transf_in_handlers
  | Transf_out_handlers | Logging_handlers | Admin_handler

datatype ptr = Client_ptr nat | Log_ptr | Admin_ptr

type_synonym selector = "(handler_name, ptr) fdselector"

datatype client_state = NO_ORIGIN | SEND_REQ | READ_RESP | CLI_ERROR | Other_state nat

datatype client_error = NO_ERROR | KEEPALIVE_HOST_NO_MATCH | INVALID_HOST

datatype ai_family = AF_INET | AF_INET6 | AF_other

record addrinfo =
  ai_family :: ai_family
  ai_port :: int

definition MAX_DOMAIN_NAME_LENGTH :: nat where "MAX_DOMAIN_NAME_LENGTH = 255"

record host_details =
  hd_port :: int
  hd_fqdn :: "byte list"
  hd_resolved :: "addrinfo option"

record client =
  cl_state :: client_state
  cl_err :: client_error
  pre_req_parse_buf :: buffer
  post_req_parse_buf :: buffer
  pre_res_parse_buf :: buffer
  post_res_parse_buf :: buffer
  pre_transf_buf :: buffer
  client_fd :: int
  origin_fd :: int
  transf_in_fd :: int
  transf_out_fd :: int
  req_data :: RequestData
  res_data :: ResponseData
  request_complete :: bool
  response_complete :: bool
  shouldTransform :: bool
  cl_host :: host_details
  connection_time :: "connection_time option"

text \<open>
  \<open>px_fresh k\<close> is a client struct in fresh memory, \<open>px_realloc k\<close> what \<open>realloc\<close> gives the selector in the
  \<open>k\<close>-th call; \<open>px_lookups\<close> lists the clients whose host a thread is resolving.
\<close>

record proxy =
  px_os :: platform
  px_admin :: admin
  px_log :: log
  px_clients :: "nat \<Rightarrow> client option"
  px_next :: nat
  px_fresh :: "nat \<Rightarrow> client"
  px_realloc :: "nat \<Rightarrow> (nat \<Rightarrow> (handler_name, ptr) item) option"
  px_lookups :: "nat list"

type_synonym st = "selector \<times> proxy"

type_synonym table = "(handler_name, ptr, proxy) callbacks"

type_synonym handler = "ptr selector_key \<Rightarrow> st \<Rightarrow> st option"

definition GET_CLIENT :: "ptr selector_key \<Rightarrow> nat option" where
  "GET_CLIENT key = (case key_data key of Some (Client_ptr a) \<Rightarrow> Some a | _ \<Rightarrow> None)"

definition set_client :: "nat \<Rightarrow> client \<Rightarrow> proxy \<Rightarrow> proxy" where
  "set_client a c w = w\<lparr>px_clients := (px_clients w)(a \<mapsto> c)\<rparr>"

definition upd_client :: "nat \<Rightarrow> (client \<Rightarrow> client) \<Rightarrow> st \<Rightarrow> st option" where
  "upd_client a f st = (case st of (s, w) \<Rightarrow> do { c \<leftarrow> px_clients w a; Some (s, set_client a (f c) w) })"

definition set_interest :: "int \<Rightarrow> fd_interest \<Rightarrow> st \<Rightarrow> st option" where
  "set_interest fd i st = (case st of (s, w) \<Rightarrow> do { (_, s') \<leftarrow> selector_set_interest fd i s; Some (s', w) })"

definition unregister :: "table \<Rightarrow> int \<Rightarrow> st \<Rightarrow> st option" where
  "unregister tab fd st = do { (_, st') \<leftarrow> selector_unregister_fd tab fd st; Some st' }"

definition register :: "int \<Rightarrow> handler_name \<Rightarrow> fd_interest \<Rightarrow> ptr \<Rightarrow> st \<Rightarrow> (selector_status \<times> st) option" where
  "register fd h i d st =
     (case st of (s, w) \<Rightarrow> do {
        (r, s') \<leftarrow> selector_register (px_realloc w (pf_count (px_os w))) fd (Some h) i (Some d) s;
        Some (r, s', w\<lparr>px_os := pf_next (px_os w)\<rparr>)
      })"

definition os_call :: "proxy \<Rightarrow> int \<times> proxy" where
  "os_call w = (let (r, p) = sys_call (px_os w) in (r, w\<lparr>px_os := p\<rparr>))"

definition close_fd :: "int \<Rightarrow> proxy \<Rightarrow> proxy" where
  "close_fd fd w = w\<lparr>px_os := sys_close fd (px_os w)\<rparr>"

definition with_metrics :: "(metric_state \<Rightarrow> metric_state) \<Rightarrow> proxy \<Rightarrow> proxy" where
  "with_metrics f w = w\<lparr>px_admin := (px_admin w)\<lparr>ad_metrics := f (ad_metrics (px_admin w))\<rparr>\<rparr>"

section \<open>client.c\<close>

text \<open>A second \<open>free\<close> of a block, which only \<open>client_terminate\<close> could bring about, is not made a failure.\<close>

definition free_mem :: "buffer \<Rightarrow> buffer" where
  "free_mem b = b\<lparr>data := []\<rparr>"

definition client_free_resources :: "table \<Rightarrow> nat \<Rightarrow> st \<Rightarrow> st option" where
  "client_free_resources tab a st =
     (case st of (s, w) \<Rightarrow> do {
        c \<leftarrow> px_clients w a;
        st1 \<leftarrow> (if origin_fd c \<noteq> - 1 then do {
                  st' \<leftarrow> unregister tab (origin_fd c) (s, close_fd (origin_fd c) w);
                  upd_client a (\<lambda>c. c\<lparr>origin_fd := - 1\<rparr>) st'
                } else Some (s, w));
        c1 \<leftarrow> px_clients (snd st1) a;
        upd_client a (\<lambda>c. c\<lparr>pre_req_parse_buf := free_mem (pre_req_parse_buf c),
            post_req_parse_buf := free_mem (post_req_parse_buf c), pre_res_parse_buf := free_mem (pre_res_parse_buf c),
            post_res_parse_buf := free_mem (post_res_parse_buf c)\<rparr>) (fst st1, close_fd (client_fd c1) (snd st1))
      })"

definition client_terminate :: "table \<Rightarrow> nat \<Rightarrow> st \<Rightarrow> st option" where
  "client_terminate tab a st =
     (case st of (s, w) \<Rightarrow> do {
        c \<leftarrow> px_clients w a;
        st1 \<leftarrow> unregister tab (client_fd c) (s, close_fd (client_fd c) w);
        client_free_resources tab a st1
      })"

definition log_line :: "byte list \<Rightarrow> st \<Rightarrow> st option" where
  "log_line txt st = (case st of (s, w) \<Rightarrow> do { (l, s') \<leftarrow> log_sendf txt (px_log w) s; Some (s', w\<lparr>px_log := l\<rparr>) })"

text \<open>\<open>host\<close> is a C string; \<open>fqdn\<close> is an array of 256 bytes.\<close>

definition client_set_host :: "nat \<Rightarrow> byte list \<Rightarrow> int \<Rightarrow> st \<Rightarrow> st option" where
  "client_set_host a host port st = do {
     (s, w) \<leftarrow> log_line (str ''Resolving: '' @ host @ str ''...'') st;
     c \<leftarrow> px_clients w a;
     first \<leftarrow> load (hd_fqdn (cl_host c)) 0;
     if first \<noteq> 0 then
       (if \<not> strncmp_eq MAX_DOMAIN_NAME_LENGTH (host @ [0]) (hd_fqdn (cl_host c)) \<or> hd_port (cl_host c) \<noteq> port
        then Some (s, set_client a (c\<lparr>cl_err := KEEPALIVE_HOST_NO_MATCH, cl_state := CLI_ERROR\<rparr>) w)
        else Some (s, set_client a (c\<lparr>cl_state := SEND_REQ\<rparr>) w))
     else if min (length host) (MAX_DOMAIN_NAME_LENGTH + 1) \<le> MAX_DOMAIN_NAME_LENGTH then do {
       fqdn \<leftarrow> store_block (hd_fqdn (cl_host c)) 0 (strncpy MAX_DOMAIN_NAME_LENGTH host);
       Some (s, (set_client a (c\<lparr>cl_host := (cl_host c)\<lparr>hd_fqdn := fqdn, hd_port := port\<rparr>\<rparr>) w)\<lparr>px_lookups := px_lookups w @ [a]\<rparr>)
     }
     else Some (s, set_client a (c\<lparr>cl_err := INVALID_HOST, cl_state := CLI_ERROR\<rparr>) w)
   }"

text \<open>The thread that resolves: \<open>res\<close> is what \<open>getaddrinfo\<close> stores.\<close>

definition request_resolv_blocking :: "nat \<Rightarrow> addrinfo option \<Rightarrow> bool \<Rightarrow> st \<Rightarrow> st option" where
  "request_resolv_blocking a res mem st = do {
     (s, w) \<leftarrow> upd_client a (\<lambda>c. c\<lparr>cl_host := (cl_host c)\<lparr>hd_resolved := res\<rparr>\<rparr>) st;
     c \<leftarrow> px_clients w a;
     (_, s') \<leftarrow> selector_notify_block mem (client_fd c) s;
     Some (s', w\<lparr>px_lookups := remove1 a (px_lookups w)\<rparr>)
   }"

text \<open>
  The parent's side of \<open>transformations_new\<close>: the two descriptors, if they were set. A descriptor \<open>pipe\<close>
  gives is the answer of a call of its own. The child runs another program.
\<close>

definition transformations_new :: "proxy \<Rightarrow> int \<times> (int \<times> int) option \<times> proxy" where
  "transformations_new w0 =
     (let (rc, w1) = os_call w0; (in0, w2) = os_call w1; (in1, w3) = os_call w2
      in if rc < 0 then (- 1, None, w1)
         else
           (let (rc', w4) = os_call w3; (out0, w5) = os_call w4; (out1, w6) = os_call w5
            in if rc' < 0 then (- 1, None, close_fd in1 (close_fd in0 w4))
               else (case config_get (str ''error_file'') (ad_configs (px_admin w6)) of
                   None \<Rightarrow> (- 1, None, w6)
                 | Some _ \<Rightarrow>
                     (let (error_fd, w7) = os_call w6
                      in if error_fd = - 1 then (- 1, None, w7)
                         else
                           (let (pid, w8) = os_call w7
                            in if pid = - 1
                               then (- 1, None, close_fd error_fd (close_fd in1 (close_fd in0 (close_fd out1 (close_fd out0 w8)))))
                               else (0, Some (in1, out0), close_fd out1 (close_fd in0 w8)))))))"

definition new_buffer :: "nat \<Rightarrow> proxy \<Rightarrow> buffer \<times> proxy" where
  "new_buffer buffer_size w =
     (let (mem, p) = sys_malloc buffer_size (px_os w)
      in (buffer_init_r 255 buffer_size (case mem of None \<Rightarrow> [] | Some m \<Rightarrow> m), w\<lparr>px_os := p\<rparr>))"

text \<open>The assignments of \<open>client_new\<close> before the buffers are made.\<close>

definition client_default :: "int \<Rightarrow> client \<Rightarrow> client option" where
  "client_default fd c = do {
     fqdn \<leftarrow> store (hd_fqdn (cl_host c)) 0 0;
     Some (c\<lparr>cl_state := NO_ORIGIN, cl_err := NO_ERROR, client_fd := fd, origin_fd := - 1, shouldTransform := False,
       cl_host := (cl_host c)\<lparr>hd_fqdn := fqdn, hd_resolved := None\<rparr>\<rparr>)
   }"

definition register_transformation :: "nat \<Rightarrow> st \<Rightarrow> st option" where
  "register_transformation a st = do {
     c \<leftarrow> px_clients (snd st) a;
     if shouldTransform c then do {
       (_, st1) \<leftarrow> register (transf_in_fd c) Transf_in_handlers OP_NOOP (Client_ptr a) st;
       (_, st2) \<leftarrow> register (transf_out_fd c) Transf_out_handlers OP_NOOP (Client_ptr a) st1;
       Some st2
     } else Some st
   }"

text \<open>The size is a \<open>size_t\<close>: a negative number becomes a huge one.\<close>

definition buffers_size :: "proxy \<Rightarrow> nat option" where
  "buffers_size w = do {
     block \<leftarrow> config_get (str ''buffers_size'') (ad_configs (px_admin w));
     txt \<leftarrow> c_str block;
     Some (nat (c_atoi txt mod 2 ^ 64))
   }"

definition client_new :: "int \<Rightarrow> st \<Rightarrow> (nat \<times> st) option" where
  "client_new fd st =
     (case st of (s, w) \<Rightarrow>
       let a = px_next w;
           (mem, p) = sys_malloc 1 (px_os w)
       in do {
         _ \<leftarrow> mem;
         c0 \<leftarrow> client_default fd (px_fresh w a);
         let (_, fds, w1) = transformations_new (w\<lparr>px_os := p, px_next := a + 1\<rparr>);
         let c1 = (case fds of None \<Rightarrow> c0 | Some (i, out) \<Rightarrow> c0\<lparr>transf_in_fd := i, transf_out_fd := out\<rparr>);
         (s2, w2) \<leftarrow> register_transformation a (s, set_client a c1 w1);
         size \<leftarrow> buffers_size w2;
         let (b1, w3) = new_buffer size w2;
         let (b2, w4) = new_buffer size w3;
         let (b3, w5) = new_buffer size w4;
         let (b4, w6) = new_buffer size w5;
         let (b5, w7) = new_buffer size w6;
         let (block, w8) = os_call w7;
         let (now, w9) = os_call w8;
         let (ct, ms) = metric_new_connection (if block = 0 then None else Some \<lparr>init_time = 0, end_time = 0\<rparr>) now (ad_metrics (px_admin w9));
         Some (a, s2, set_client a (c1\<lparr>req_data := defaultRequestStruct (req_data c1), res_data := defaultResponseStruct (res_data c1),
             pre_req_parse_buf := b1, post_req_parse_buf := b2, pre_res_parse_buf := b3, post_res_parse_buf := b4,
             pre_transf_buf := b5, connection_time := ct\<rparr>) (with_metrics (\<lambda>_. ms) w9))
       })"

section \<open>client_handlers.c\<close>

text \<open>\<open>read(fd, ...)\<close> into a buffer of the client, whose pointers are not moved yet.\<close>

definition read_client :: "(client \<Rightarrow> buffer) \<Rightarrow> (buffer \<Rightarrow> client \<Rightarrow> client) \<Rightarrow> nat \<Rightarrow> st \<Rightarrow> (int \<times> st) option" where
  "read_client get put a st =
     (case st of (s, w) \<Rightarrow> do {
        c \<leftarrow> px_clients w a;
        (n, b, p) \<leftarrow> read_into (get c) (px_os w);
        Some (n, s, set_client a (put b c) (w\<lparr>px_os := p\<rparr>))
      })"

definition put_pre_req :: "buffer \<Rightarrow> client \<Rightarrow> client" where
  "put_pre_req b c = c\<lparr>pre_req_parse_buf := b\<rparr>"

definition adv_pre_req :: "nat \<Rightarrow> int \<Rightarrow> st \<Rightarrow> st option" where
  "adv_pre_req a n st = do {
     c \<leftarrow> px_clients (snd st) a;
     b \<leftarrow> buffer_write_adv (pre_req_parse_buf c) n;
     upd_client a (put_pre_req b) st
   }"

text \<open>\<open>checkRequest\<close> on the client, with the host it finds handed to \<open>client_set_host\<close>.\<close>

definition parse_request :: "nat \<Rightarrow> st \<Rightarrow> st option" where
  "parse_request a st =
     (case st of (s, w) \<Rightarrow> do {
        c \<leftarrow> px_clients w a;
        (ok, d, bi, bo, calls) \<leftarrow> checkRequest (req_data c) (pre_req_parse_buf c) (post_req_parse_buf c);
        st1 \<leftarrow> steps (\<lambda>(host, port). client_set_host a host port) calls
          (s, set_client a (c\<lparr>req_data := d, pre_req_parse_buf := bi, post_req_parse_buf := bo\<rparr>) w);
        upd_client a (\<lambda>c. c\<lparr>request_complete := ok\<rparr>) st1
      })"

text \<open>\<open>while (readAndWrite(...)) ;\<close>\<close>

definition drain_body :: "buffer \<times> buffer \<Rightarrow> (bool \<times> buffer \<times> buffer) option" where
  "drain_body s = (case s of (bi, bo) \<Rightarrow> do { (c, bi', bo') \<leftarrow> readAndWrite bi bo; Some (c = 0, bi', bo') })"

definition drain_request :: "nat \<Rightarrow> st \<Rightarrow> st option" where
  "drain_request a st = do {
     c \<leftarrow> px_clients (snd st) a;
     (bi, bo) \<leftarrow> c_loop drain_body (pre_req_parse_buf c, post_req_parse_buf c);
     upd_client a (\<lambda>c. c\<lparr>pre_req_parse_buf := bi, post_req_parse_buf := bo\<rparr>) st
   }"

text \<open>The numbers of the enumerations, for the conversion of one to the other.\<close>

definition request_state_number :: "requestState \<Rightarrow> nat" where
  "request_state_number r = (case r of OK \<Rightarrow> 0 | GENERAL_ERROR \<Rightarrow> 1 | VERSION_ERROR \<Rightarrow> 2 | START_LINE_END_ERROR \<Rightarrow> 3
     | GENERAL_METHOD_ERROR \<Rightarrow> 4 | UNSUPPORTED_METHOD_ERROR \<Rightarrow> 5 | HOST_ERROR \<Rightarrow> 6 | ALLOCATION_ERROR \<Rightarrow> 7)"

definition as_client_state :: "nat \<Rightarrow> client_state" where
  "as_client_state n = (if n = 0 then NO_ORIGIN else if n = 1 then SEND_REQ else if n = 2 then READ_RESP
     else if n = 3 then CLI_ERROR else Other_state n)"

definition client_read_no_origin :: "table \<Rightarrow> nat \<Rightarrow> st \<Rightarrow> st option" where
  "client_read_no_origin tab a st = do {
     (n, st1) \<leftarrow> read_client pre_req_parse_buf put_pre_req a st;
     c1 \<leftarrow> px_clients (snd st1) a;
     st2 \<leftarrow> (if n = - 1 then unregister tab (client_fd c1) st1 else Some st1);
     st3 \<leftarrow> adv_pre_req a n st2;
     c3 \<leftarrow> px_clients (snd st3) a;
     st4 \<leftarrow> (if rq_parserState (req_data c3) \<noteq> FINISHED then parse_request a st3 else Some st3);
     c4 \<leftarrow> px_clients (snd st4) a;
     if rq_state (req_data c4) \<noteq> OK then unregister tab (client_fd c4) st4
     else drain_request a st4
   }"

definition client_read_send_req :: "nat \<Rightarrow> st \<Rightarrow> st option" where
  "client_read_send_req a st = do {
     (n, st1) \<leftarrow> read_client pre_req_parse_buf put_pre_req a st;
     st2 \<leftarrow> adv_pre_req a n st1;
     st3 \<leftarrow> parse_request a st2;
     st4 \<leftarrow> drain_request a st3;
     st5 \<leftarrow> upd_client a (\<lambda>c. c\<lparr>cl_state := as_client_state (request_state_number (rq_state (req_data c)))\<rparr>) st4;
     c5 \<leftarrow> px_clients (snd st5) a;
     set_interest (origin_fd c5) OP_WRITE st5
   }"

definition client_read :: "table \<Rightarrow> handler" where
  "client_read tab key st = do {
     a \<leftarrow> GET_CLIENT key;
     c \<leftarrow> px_clients (snd st) a;
     case cl_state c of
       NO_ORIGIN \<Rightarrow>
         if buffer_can_write (pre_req_parse_buf c) then client_read_no_origin tab a st
         else set_interest (client_fd c) OP_NOOP st
     | SEND_REQ \<Rightarrow>
         if buffer_can_write (pre_req_parse_buf c) then client_read_send_req a st
         else set_interest (client_fd c) OP_NOOP st
     | _ \<Rightarrow> Some st
   }"

text \<open>\<open>write(fd, ...)\<close> from a buffer of the client; its read pointer is not moved yet.\<close>

definition write_client :: "int \<Rightarrow> buffer \<Rightarrow> st \<Rightarrow> (int \<times> st) option" where
  "write_client fd b st =
     (case st of (s, w) \<Rightarrow> do { (n, p) \<leftarrow> write_from fd b (px_os w); Some (n, s, w\<lparr>px_os := p\<rparr>) })"

definition count_transfered :: "int \<Rightarrow> st \<Rightarrow> st" where
  "count_transfered n st = (case st of (s, w) \<Rightarrow> (s, with_metrics (metric_add_transfered_bytes (of_int n)) w))"

definition client_write :: "table \<Rightarrow> handler" where
  "client_write tab key st = do {
     a \<leftarrow> GET_CLIENT key;
     c \<leftarrow> px_clients (snd st) a;
     case cl_state c of
       READ_RESP \<Rightarrow>
         if buffer_can_read (post_res_parse_buf c) then do {
           (n, st1) \<leftarrow> write_client (client_fd c) (post_res_parse_buf c) st;
           if n = - 1 then unregister tab (client_fd c) st1
           else do {
             b \<leftarrow> buffer_read_adv (post_res_parse_buf c) n;
             st2 \<leftarrow> upd_client a (\<lambda>c. c\<lparr>post_res_parse_buf := b\<rparr>) (count_transfered n st1);
             if shouldTransform c then set_interest (transf_out_fd c) OP_READ st2
             else set_interest (origin_fd c) OP_READ st2
           }
         }
         else if origin_fd c = - 1 \<and> \<not> shouldTransform c then unregister tab (client_fd c) st
         else if shouldTransform c \<and> transf_out_fd c = - 1 then unregister tab (client_fd c) st
         else Some st
     | _ \<Rightarrow> Some st
   }"

definition set_port :: "int \<Rightarrow> addrinfo \<Rightarrow> addrinfo" where
  "set_port port res = (case ai_family res of AF_other \<Rightarrow> res | _ \<Rightarrow> res\<lparr>ai_port := port mod 65536\<rparr>)"

definition EINPROGRESS :: int where "EINPROGRESS = 115"

text \<open>\<open>selector_fd_set_nio\<close> with the answers of its two calls.\<close>

definition set_nio :: "proxy \<Rightarrow> int \<times> proxy" where
  "set_nio w =
     (let (getfd, w1) = os_call w;
          (setfl, w2) = (if getfd = - 1 then (0, w1) else os_call w1)
      in (fst (selector_fd_set_nio (of_int getfd) (\<lambda>_. setfl)), w2))"

text \<open>The call \<open>connect\<close> answers with 0 or with the error number; \<open>strerror\<close> is its text.\<close>

definition client_block :: "(int \<Rightarrow> byte list) \<Rightarrow> table \<Rightarrow> handler" where
  "client_block strerror tab key st = do {
     a \<leftarrow> GET_CLIENT key;
     c \<leftarrow> px_clients (snd st) a;
     case hd_resolved (cl_host c) of
       None \<Rightarrow> unregister tab (client_fd c) st
     | Some res \<Rightarrow>
         (let (origin_socket, w1) = os_call (snd st)
          in if origin_socket < 0 then upd_client a (\<lambda>c. c\<lparr>cl_state := CLI_ERROR\<rparr>) (fst st, w1)
             else
               (let (_, w2) = set_nio w1;
                    c' = c\<lparr>cl_state := SEND_REQ, origin_fd := origin_socket,
                      cl_host := (cl_host c)\<lparr>hd_resolved := Some (set_port (hd_port (cl_host c)) res)\<rparr>\<rparr>;
                    (status, w3) = os_call w2;
                    st3 = (fst st, set_client a c' w3)
                in if status = 0 then Some st3
                   else if status = EINPROGRESS then do {
                     (ss, s4) \<leftarrow> selector_set_interest_key (Some key) OP_NOOP (fst st3);
                     if ss \<noteq> SELECTOR_SUCCESS then None
                     else do {
                       (ss', st5) \<leftarrow> register origin_socket Remote_handlers OP_WRITE (Client_ptr a) (s4, snd st3);
                       if ss' \<noteq> SELECTOR_SUCCESS then None else Some st5
                     }
                   }
                   else log_line (str ''Connection failed! ('' @ strerror status @ str '')'' @ [10]) st3))
   }"

definition client_close :: "table \<Rightarrow> handler" where
  "client_close tab key st = do {
     a \<leftarrow> GET_CLIENT key;
     c \<leftarrow> px_clients (snd st) a;
     let (now, w1) = os_call (snd st);
     (ct, ms) \<leftarrow> metric_close_connection (connection_time c) now (ad_metrics (px_admin w1));
     client_free_resources tab a (fst st, set_client a (c\<lparr>connection_time := Some ct\<rparr>) (with_metrics (\<lambda>_. ms) w1))
   }"

section \<open>remote_handlers.c\<close>

definition put_pre_res :: "buffer \<Rightarrow> client \<Rightarrow> client" where
  "put_pre_res b c = c\<lparr>pre_res_parse_buf := b\<rparr>"

definition parse_response :: "nat \<Rightarrow> st \<Rightarrow> st option" where
  "parse_response a st =
     (case st of (s, w) \<Rightarrow> do {
        c \<leftarrow> px_clients w a;
        (_, d, bi, bo, bt) \<leftarrow> checkResponse (res_data c) (pre_res_parse_buf c) (post_res_parse_buf c) (pre_transf_buf c);
        Some (s, set_client a (c\<lparr>res_data := d, pre_res_parse_buf := bi, post_res_parse_buf := bo, pre_transf_buf := bt\<rparr>) w)
      })"

definition remote_read :: "table \<Rightarrow> handler" where
  "remote_read tab key st = do {
     a \<leftarrow> GET_CLIENT key;
     c \<leftarrow> px_clients (snd st) a;
     case cl_state c of
       READ_RESP \<Rightarrow>
         if buffer_can_write (pre_res_parse_buf c) then do {
           (n, st1) \<leftarrow> read_client pre_res_parse_buf put_pre_res a st;
           if n < 0 then do { st2 \<leftarrow> set_interest (client_fd c) OP_WRITE st1; unregister tab (origin_fd c) st2 }
           else if n > 0 then do {
             c1 \<leftarrow> px_clients (snd st1) a;
             b \<leftarrow> buffer_write_adv (pre_res_parse_buf c1) n;
             st2 \<leftarrow> upd_client a (put_pre_res b) st1;
             st3 \<leftarrow> parse_response a st2;
             c3 \<leftarrow> px_clients (snd st3) a;
             if rs_state (res_data c3) \<noteq> RES_OK then None
             else do {
               st4 \<leftarrow> (if rs_parserState (res_data c3) = RES_FINISHED then do {
                         st' \<leftarrow> unregister tab (origin_fd c3) st3;
                         set_interest (client_fd c3) OP_WRITE st'
                       } else Some st3);
               c4 \<leftarrow> px_clients (snd st4) a;
               st5 \<leftarrow> (if shouldTransform c4 \<and> buffer_can_read (pre_transf_buf c4)
                       then set_interest (transf_in_fd c4) OP_WRITE st4 else Some st4);
               if \<not> shouldTransform c4 then set_interest (client_fd c4) OP_WRITE st5 else Some st5
             }
           }
           else Some st1
         }
         else set_interest (origin_fd c) OP_NOOP st
     | _ \<Rightarrow> Some st
   }"

definition remote_write :: "table \<Rightarrow> handler" where
  "remote_write tab key st = do {
     a \<leftarrow> GET_CLIENT key;
     c \<leftarrow> px_clients (snd st) a;
     case cl_state c of
       SEND_REQ \<Rightarrow>
         if buffer_can_read (post_req_parse_buf c) then do {
           (n, st1) \<leftarrow> write_client (origin_fd c) (post_req_parse_buf c) st;
           if n = - 1 then do { st2 \<leftarrow> set_interest (client_fd c) OP_WRITE st1; unregister tab (origin_fd c) st2 }
           else do {
             b \<leftarrow> buffer_read_adv (post_req_parse_buf c) n;
             st2 \<leftarrow> upd_client a (\<lambda>c. c\<lparr>post_req_parse_buf := b\<rparr>) (count_transfered n st1);
             set_interest (client_fd c) OP_READ st2
           }
         }
         else if request_complete c then do {
           st1 \<leftarrow> set_interest (origin_fd c) OP_READ st;
           upd_client a (\<lambda>c. c\<lparr>cl_state := READ_RESP\<rparr>) st1
         }
         else set_interest (origin_fd c) OP_NOOP st
     | _ \<Rightarrow> Some st
   }"

definition remote_block :: handler where
  "remote_block key st = Some st"

definition remote_close :: handler where
  "remote_close key st = do {
     a \<leftarrow> GET_CLIENT key;
     c \<leftarrow> px_clients (snd st) a;
     Some (fst st, set_client a (c\<lparr>origin_fd := - 1\<rparr>) (close_fd (origin_fd c) (snd st)))
   }"

section \<open>transformation_handlers.c\<close>

text \<open>\<open>read\<close> as \<open>dump_chunk_from_fd\<close> calls it, and the state of the system after it.\<close>

definition transf_chunk :: "buffer \<Rightarrow> platform \<Rightarrow> (int \<times> buffer \<times> platform) option" where
  "transf_chunk b p =
     (let (mem, p1) = sys_malloc 1 p in do {
        (n, b') \<leftarrow> dump_chunk_from_fd (mem \<noteq> None) (\<lambda>k. fst (sys_read k p1)) b;
        Some (n, b', pf_next p1)
      })"

definition transf_read :: "table \<Rightarrow> handler" where
  "transf_read tab key st = do {
     a \<leftarrow> GET_CLIENT key;
     c \<leftarrow> px_clients (snd st) a;
     if buffer_can_write (post_res_parse_buf c) then do {
       (n, b, p) \<leftarrow> transf_chunk (post_res_parse_buf c) (px_os (snd st));
       let st1 = (fst st, set_client a (c\<lparr>post_res_parse_buf := b\<rparr>) ((snd st)\<lparr>px_os := p\<rparr>));
       if n < 0 then unregister tab (client_fd c) st1
       else if n = 0 then do {
         (m, b') \<leftarrow> write_empty_chunk b;
         st2 \<leftarrow> upd_client a (\<lambda>c. c\<lparr>post_res_parse_buf := b'\<rparr>) st1;
         if m > 0 then unregister tab (transf_out_fd c) st2 else Some st2
       }
       else Some st1
     }
     else set_interest (transf_out_fd c) OP_NOOP st
   }"

definition transf_write :: "table \<Rightarrow> handler" where
  "transf_write tab key st = do {
     a \<leftarrow> GET_CLIENT key;
     c \<leftarrow> px_clients (snd st) a;
     if buffer_can_read (pre_transf_buf c) then do {
       (n, st1) \<leftarrow> write_client (transf_in_fd c) (pre_transf_buf c) st;
       if n < 0 then unregister tab (transf_in_fd c) st1
       else if n > 0 then do {
         b \<leftarrow> buffer_read_adv (pre_transf_buf c) n;
         upd_client a (\<lambda>c. c\<lparr>pre_transf_buf := b\<rparr>) st1
       }
       else unregister tab (transf_in_fd c) st1
     }
     else if rs_parserState (res_data c) = RES_FINISHED then unregister tab (transf_in_fd c) st
     else set_interest (transf_in_fd c) OP_NOOP st
   }"

definition transf_block :: handler where
  "transf_block key st = Some st"

definition transf_close :: handler where
  "transf_close key st = do {
     a \<leftarrow> GET_CLIENT key;
     c \<leftarrow> px_clients (snd st) a;
     if key_fd key = transf_out_fd c
     then Some (fst st, set_client a (c\<lparr>transf_out_fd := - 1\<rparr>) (close_fd (key_fd key) (snd st)))
     else if key_fd key = transf_in_fd c
     then Some (fst st, set_client a (c\<lparr>transf_in_fd := - 1\<rparr>) (close_fd (key_fd key) (snd st)))
     else Some st
   }"

end
