(* ===== verification/Proxy.thy ===== *)
theory Proxy
  imports Client
begin

unbundle bit_operations_syntax

text \<open>
  \<open>main.c\<close> and \<open>argument/argument.c\<close>: the handlers of the program by name, the handler of the listening
  socket, the options and default configurations, and one round of the main loop. The handlers call the
  selector, which calls handlers again: \<open>proxy_callbacks n\<close> are the callbacks for calls nested at most
  \<open>n\<close> deep. A handler that unregisters a client calls \<open>client_close\<close>, which unregisters the origin, which
  calls \<open>remote_close\<close>, so 3 levels are all there are.
\<close>

section \<open>Configurations and options\<close>

definition create :: "string \<Rightarrow> byte list \<Rightarrow> config list \<Rightarrow> config list" where
  "create name v cs = snd (config_create (str name) v cs)"

definition initialize_configurations :: "byte list option \<Rightarrow> byte list option \<Rightarrow> config list \<Rightarrow> int \<times> config list" where
  "initialize_configurations media_types cmd cs =
     (case (media_types, cmd) of
        (Some m, Some c) \<Rightarrow> (1, create ''buffers_size'' (str ''8192'') (create ''cmd'' c (create ''media_types'' m cs)))
      | (None, Some c) \<Rightarrow> (1, create ''buffers_size'' (str ''8192'') (create ''cmd'' c (create ''media_types'' [] cs)))
      | (Some m, None) \<Rightarrow> (- 1, cs)
      | (None, None) \<Rightarrow> (1, create ''buffers_size'' (str ''8192'') cs))"

text \<open>
  The options as \<open>getopt\<close> gives them, each with its argument. The result is the exit code or the table of
  configurations.
\<close>

fun argument_get :: "(char \<times> byte list) list \<Rightarrow> config list \<Rightarrow> int + config list" where
  "argument_get [] cs = Inr cs"
| "argument_get ((c, optarg) # opts) cs =
     (if c = CHR ''e'' then argument_get opts (create ''error_file'' optarg cs)
      else if c = CHR ''h'' then Inl 0
      else if c = CHR ''l'' then argument_get opts (create ''proxy_addr'' optarg cs)
      else if c = CHR ''L'' then argument_get opts (create ''mgmt_addr'' optarg cs)
      else if c = CHR ''M'' then argument_get opts (create ''media_types'' optarg cs)
      else if c = CHR ''o'' then argument_get opts (create ''mgmt_port'' optarg cs)
      else if c = CHR ''p'' then argument_get opts (create ''proxy_port'' optarg cs)
      else if c = CHR ''t'' then argument_get opts (create ''cmd'' optarg cs)
      else if c = CHR ''v'' then Inl 0
      else argument_get opts cs)"

text \<open>The configurations \<open>main\<close> starts with.\<close>

definition main_configs :: "(char \<times> byte list) list \<Rightarrow> config list \<Rightarrow> int + config list" where
  "main_configs opts cs =
     argument_get opts (create ''error_file'' (str ''/dev/null'') (create ''mgmt_port'' (str ''9090'')
       (create ''proxy_port'' (str ''8080'') (snd (initialize_configurations (Some (str ''text/plain'')) (Some (str ''cat'')) cs)))))"

definition port_of :: "string \<Rightarrow> config list \<Rightarrow> int option" where
  "port_of name cs = do { block \<leftarrow> config_get (str name) cs; txt \<leftarrow> c_str block; Some (c_atoi txt mod 65536) }"

section \<open>Handlers\<close>

definition listen_read_handler :: handler where
  "listen_read_handler key st =
     (let (client_socket, w1) = os_call (snd st)
      in if client_socket = - 1 then Some (fst st, close_fd client_socket w1)
         else do {
           (a, s2, w2) \<leftarrow> client_new client_socket (fst st, w1);
           let (_, w3) = set_nio w2;
           (_, st4) \<leftarrow> register client_socket Client_handlers OP_READ (Client_ptr a) (s2, w3);
           Some st4
         })"

definition log_write_handler :: handler where
  "log_write_handler key st = do {
     (l, p, s) \<leftarrow> log_write (px_log (snd st)) (px_os (snd st)) (fst st);
     Some (s, (snd st)\<lparr>px_log := l, px_os := p\<rparr>)
   }"

definition log_close_handler :: handler where
  "log_close_handler key st = Some (fst st, (snd st)\<lparr>px_os := log_close (px_log (snd st)) (px_os (snd st))\<rparr>)"

text \<open>The two handlers of \<open>admin_handlers.c\<close>: the array on the stack is whatever the memory held before.\<close>

definition stack_array :: "nat \<Rightarrow> proxy \<Rightarrow> byte list \<times> proxy" where
  "stack_array n w =
     (let (mem, p) = sys_malloc n (px_os w)
      in (case mem of None \<Rightarrow> replicate n 0 | Some m \<Rightarrow> m, w\<lparr>px_os := p\<rparr>))"

definition admin_read :: handler where
  "admin_read key st =
     (let (junk, w1) = stack_array MAX_MSG_SIZE (snd st);
          (r, p) = sys_read MAX_MSG_SIZE (px_os w1);
          buffer = (case r of None \<Rightarrow> junk | Some xs \<Rightarrow> xs @ drop (length xs) junk)
      in do {
        ad \<leftarrow> admin_read_handler buffer (px_admin w1);
        Some (fst st, w1\<lparr>px_os := p, px_admin := ad\<rparr>)
      })"

definition admin_write :: handler where
  "admin_write key st =
     (let (junk, w1) = stack_array MAX_MSG_SIZE (snd st)
      in do {
        (out, ad) \<leftarrow> admin_write_handler junk (px_admin w1);
        let p = (case out of None \<Rightarrow> px_os w1 | Some xs \<Rightarrow> snd (sys_write (key_fd key) xs (px_os w1)));
        Some (fst st, w1\<lparr>px_os := p, px_admin := ad\<rparr>)
      })"

text \<open>The structs of functions; a null pointer is \<open>None\<close>.\<close>

fun handlers_of :: "(int \<Rightarrow> byte list) \<Rightarrow> table \<Rightarrow> table" where
  "handlers_of strerror tab Listen_handler ev = (case ev of HANDLE_READ \<Rightarrow> Some listen_read_handler | _ \<Rightarrow> None)"
| "handlers_of strerror tab Client_handlers ev = (case ev of
     HANDLE_READ \<Rightarrow> Some (client_read tab) | HANDLE_WRITE \<Rightarrow> Some (client_write tab)
   | HANDLE_CLOSE \<Rightarrow> Some (client_close tab) | HANDLE_BLOCK \<Rightarrow> Some (client_block strerror tab))"
| "handlers_of strerror tab Remote_handlers ev = (case ev of
     HANDLE_READ \<Rightarrow> Some (remote_read tab) | HANDLE_WRITE \<Rightarrow> Some (remote_write tab)
   | HANDLE_CLOSE \<Rightarrow> Some remote_close | HANDLE_BLOCK \<Rightarrow> Some remote_block)"
| "handlers_of strerror tab Transf_in_handlers ev = (case ev of
     HANDLE_READ \<Rightarrow> None | HANDLE_WRITE \<Rightarrow> Some (transf_write tab)
   | HANDLE_CLOSE \<Rightarrow> Some transf_close | HANDLE_BLOCK \<Rightarrow> Some transf_block)"
| "handlers_of strerror tab Transf_out_handlers ev = (case ev of
     HANDLE_READ \<Rightarrow> Some (transf_read tab) | HANDLE_WRITE \<Rightarrow> None
   | HANDLE_CLOSE \<Rightarrow> Some transf_close | HANDLE_BLOCK \<Rightarrow> Some transf_block)"
| "handlers_of strerror tab Logging_handlers ev = (case ev of
     HANDLE_WRITE \<Rightarrow> Some log_write_handler | HANDLE_CLOSE \<Rightarrow> Some log_close_handler | _ \<Rightarrow> None)"
| "handlers_of strerror tab Admin_handler ev = (case ev of
     HANDLE_READ \<Rightarrow> Some admin_read | HANDLE_WRITE \<Rightarrow> Some admin_write | _ \<Rightarrow> None)"

primrec proxy_callbacks :: "(int \<Rightarrow> byte list) \<Rightarrow> nat \<Rightarrow> table" where
  "proxy_callbacks strerror 0 = (\<lambda>_ _. Some (\<lambda>_ _. None))"
| "proxy_callbacks strerror (Suc n) = handlers_of strerror (proxy_callbacks strerror n)"

section \<open>The main loop\<close>

text \<open>One round: the state for the next one, or the exit code.\<close>

definition main_round :: "(int \<Rightarrow> byte list) \<Rightarrow> nat \<Rightarrow> int \<Rightarrow> poll_result \<Rightarrow> st \<Rightarrow> (int + st) option" where
  "main_round strerror n admin_socket poll st = do {
     st1 \<leftarrow> (if q_is_empty (ad_queue (px_admin (snd st))) then set_interest admin_socket OP_READ st else Some st);
     (ss, st2) \<leftarrow> selector_select (proxy_callbacks strerror n) poll st1;
     st3 \<leftarrow> (if \<not> q_is_empty (ad_queue (px_admin (snd st2))) then set_interest admin_socket (OP_READ OR OP_WRITE) st2 else Some st2);
     Some (if ss \<noteq> SELECTOR_SUCCESS then Inl 2 else Inr st3)
   }"

text \<open>
  The set-up of \<open>main\<close> from the selector on: the log, and the registration of the log's pipe and of the two
  sockets. Each registration that fails ends the program with 1; with the code comes what is printed.
\<close>

definition main_registers :: "int \<Rightarrow> int \<Rightarrow> st \<Rightarrow> (int \<times> string + st) option" where
  "main_registers server admin_socket st = do {
     (ss1, st1) \<leftarrow> register (lg_writefd (px_log (snd st))) Logging_handlers OP_WRITE Log_ptr st;
     if ss1 \<noteq> SELECTOR_SUCCESS then Some (Inl (1, []))
     else do {
       (ss2, s2) \<leftarrow> selector_register (px_realloc (snd st1) (pf_count (px_os (snd st1)))) server (Some Listen_handler) OP_READ None (fst st1);
       if ss2 \<noteq> SELECTOR_SUCCESS then Some (Inl (1, []))
       else do {
         (ss3, st3) \<leftarrow> register admin_socket Admin_handler OP_READ Admin_ptr (s2, snd st1);
         if ss3 \<noteq> SELECTOR_SUCCESS then Some (Inl (1, ''registering admin_socket''))
         else Some (Inr (fst st3, (snd st3)\<lparr>px_admin := (px_admin (snd st3))\<lparr>ad_queue := q_init admin_socket (Some 0) (ad_queue (px_admin (snd st3)))\<rparr>\<rparr>))
       }
     }
   }"

text \<open>What can happen to the running program: a round of the loop, or a thread that ends a resolution.\<close>

inductive proxy_step :: "(int \<Rightarrow> byte list) \<Rightarrow> int \<Rightarrow> st \<Rightarrow> st \<Rightarrow> bool" for strerror admin_socket where
  loop_round: "main_round strerror 3 admin_socket poll st = Some (Inr st') \<Longrightarrow> proxy_step strerror admin_socket st st'"
| resolved: "a \<in> set (px_lookups (snd st)) \<Longrightarrow> request_resolv_blocking a res mem st = Some st' \<Longrightarrow>
    proxy_step strerror admin_socket st st'"

inductive_cases proxy_stepE: "proxy_step strerror admin_socket st st'"

section \<open>The registrations keep their types\<close>

text \<open>
  The data of a registration is a void pointer; which handlers it is registered with says what it points to:
  the handlers of clients, origins and transformations get a client that exists.
\<close>

definition data_ok :: "proxy \<Rightarrow> handler_name \<Rightarrow> ptr option \<Rightarrow> bool" where
  "data_ok w h d = (case h of Listen_handler \<Rightarrow> d = None | Logging_handlers \<Rightarrow> d = Some Log_ptr | Admin_handler \<Rightarrow> d = Some Admin_ptr
     | _ \<Rightarrow> \<exists>a. d = Some (Client_ptr a) \<and> px_clients w a \<noteq> None)"

abbreviation st_ok :: "st \<Rightarrow> bool" where
  "st_ok \<equiv> typed data_ok"

lemma data_ok_mono: "data_ok w h d \<Longrightarrow> dom (px_clients w) \<subseteq> dom (px_clients w') \<Longrightarrow> data_ok w' h d"
  by (cases h) (auto simp: data_ok_def)

lemma st_ok_mono: "st_ok (s, w) \<Longrightarrow> dom (px_clients w) \<subseteq> dom (px_clients w') \<Longrightarrow> st_ok (s, w')"
  using data_ok_mono by (fastforce simp: typed_def)

lemma st_ok_cong: "px_clients w' = px_clients w \<Longrightarrow> st_ok (s, w') = st_ok (s, w)"
  by (auto intro: st_ok_mono)

lemma st_ok_set_client [simp]: "st_ok (s, w) \<Longrightarrow> st_ok (s, set_client a c w)"
  by (erule st_ok_mono) (auto simp: set_client_def)

lemma px_clients_simps [simp]:
  "px_clients (close_fd fd w) = px_clients w" "px_clients (set_client a c w) = (px_clients w)(a \<mapsto> c)"
  "px_clients (with_metrics f w) = px_clients w" "px_os (set_client a c w) = px_os w" "px_os (with_metrics f w) = px_os w"
  "px_log (set_client a c w) = px_log w" "px_log (close_fd fd w) = px_log w" "px_admin (close_fd fd w) = px_admin w"
  "px_admin (set_client a c w) = px_admin w"
  by (simp_all add: close_fd_def set_client_def with_metrics_def)

lemma os_call_simps [simp]:
  "px_clients (snd (os_call w)) = px_clients w" "px_log (snd (os_call w)) = px_log w" "px_admin (snd (os_call w)) = px_admin w"
  "pf_trace (px_os (snd (os_call w))) = pf_trace (px_os w)" "px_lookups (snd (os_call w)) = px_lookups w"
  by (simp_all add: os_call_def sys_call_def Let_def)

lemma same_clients [simp]:
  "px_clients (snd (set_nio w)) = px_clients w" "px_clients (snd (new_buffer n w)) = px_clients w"
  "px_clients (snd (stack_array n w)) = px_clients w" "px_clients (snd (snd (transformations_new w))) = px_clients w"
  by (simp_all add: set_nio_def new_buffer_def stack_array_def transformations_new_def Let_def split_beta split: option.split)

lemma st_ok_world [simp]:
  "st_ok (s, w\<lparr>px_os := p\<rparr>) = st_ok (s, w)" "st_ok (s, w\<lparr>px_admin := ad\<rparr>) = st_ok (s, w)" "st_ok (s, w\<lparr>px_log := l\<rparr>) = st_ok (s, w)"
  "st_ok (s, w\<lparr>px_lookups := ls\<rparr>) = st_ok (s, w)" "st_ok (s, w\<lparr>px_next := n\<rparr>) = st_ok (s, w)" "st_ok (s, close_fd fd w) = st_ok (s, w)"
  "st_ok (s, with_metrics f w) = st_ok (s, w)" "st_ok (s, snd (os_call w)) = st_ok (s, w)" "st_ok (s, snd (set_nio w)) = st_ok (s, w)"
  "st_ok (s, snd (new_buffer k w)) = st_ok (s, w)" "st_ok (s, snd (stack_array k w)) = st_ok (s, w)"
  "st_ok (s, snd (snd (transformations_new w))) = st_ok (s, w)"
  by (rule st_ok_cong; simp)+

text \<open>
  \<open>upon r Q\<close>: if the operation comes back, \<open>Q\<close> holds of its result. The rules take an operation apart;
  \<open>keeps\<close> collects those of the operations on the state, which say that the types are kept.
\<close>

definition upon :: "'a option \<Rightarrow> ('a \<Rightarrow> bool) \<Rightarrow> bool" where
  "upon r Q \<longleftrightarrow> (\<forall>x. r = Some x \<longrightarrow> Q x)"

named_theorems keeps "the operation keeps the types of the registrations"

lemma upon_simps [simp]: "upon (Some x) Q = Q x" "upon None Q"
  by (simp_all add: upon_def)

lemma upon_bind [keeps]: "upon f (\<lambda>x. upon (g x) Q) \<Longrightarrow> upon (Option.bind f g) Q"
  by (cases f) (simp_all add: upon_def)

lemma upon_any: "(\<And>x. r = Some x \<Longrightarrow> Q x) \<Longrightarrow> upon r Q"
  by (simp add: upon_def)

lemma upon_if [keeps]: "(b \<Longrightarrow> upon f Q) \<Longrightarrow> (\<not> b \<Longrightarrow> upon g Q) \<Longrightarrow> upon (if b then f else g) Q"
  by simp

lemma uponD: "upon r Q \<Longrightarrow> r = Some x \<Longrightarrow> Q x"
  by (simp add: upon_def)

lemma uponI: "(\<And>x. r = Some x \<Longrightarrow> P x) \<Longrightarrow> (\<And>x. P x \<Longrightarrow> Q x) \<Longrightarrow> upon r Q"
  by (simp add: upon_def)

lemma set_interest_keeps [keeps]: "st_ok st \<Longrightarrow> (\<And>st'. st_ok st' \<Longrightarrow> snd st' = snd st \<Longrightarrow> Q st') \<Longrightarrow> upon (set_interest fd i st) Q"
  by (rule uponI [of _ "\<lambda>st'. st_ok st' \<and> snd st' = snd st"])
    (auto simp: set_interest_def split: prod.splits bind_splits dest: set_interest_keeps_typed)

lemma register_keeps [keeps]:
  assumes "st_ok st" "data_ok (snd st) h (Some d)"
    "\<And>r st'. st_ok st' \<Longrightarrow> px_clients (snd st') = px_clients (snd st) \<Longrightarrow> Q (r, st')"
  shows "upon (register fd h i d st) Q"
proof -
  obtain s w where st: "st = (s, w)" by fastforce
  have "st_ok (s', w\<lparr>px_os := p\<rparr>)"
    if "selector_register m fd (Some h) i (Some d) s = Some (r, s')" for r s' m p
    using register_keeps_typed [of data_ok s w m fd "Some h" i "Some d" r s'] assms(1,2) that st by simp
  then show ?thesis using assms(3) st by (auto simp: register_def upon_def split: bind_splits)
qed

lemma unregister_keeps [keeps]:
  "keeps_typed data_ok tab \<Longrightarrow> st_ok st \<Longrightarrow> (\<And>st'. st_ok st' \<Longrightarrow> Q st') \<Longrightarrow> upon (unregister tab fd st) Q"
  by (rule uponI [of _ st_ok], cases st)
    (auto simp: unregister_def split: bind_splits dest: unregister_keeps_typed)

lemma upd_client_keeps [keeps]:
  "st_ok st \<Longrightarrow> (\<And>s w c. st_ok (s, w) \<Longrightarrow> st = (s, w) \<Longrightarrow> px_clients w a = Some c \<Longrightarrow> Q (s, set_client a (f c) w)) \<Longrightarrow> upon (upd_client a f st) Q"
  by (cases st) (auto simp: upd_client_def upon_def split: bind_splits)

lemma log_line_keeps [keeps]: "st_ok st \<Longrightarrow> (\<And>st'. st_ok st' \<Longrightarrow> Q st') \<Longrightarrow> upon (log_line txt st) Q"
  by (rule uponI [of _ st_ok], cases st)
    (auto simp: log_line_def log_sendf_def log_send_def Let_def split: prod.splits bind_splits if_splits
      dest: set_interest_keeps_typed)

lemma read_client_keeps [keeps]: "st_ok st \<Longrightarrow> (\<And>n st'. st_ok st' \<Longrightarrow> Q (n, st')) \<Longrightarrow> upon (read_client get put a st) Q"
  by (rule uponI [of _ "\<lambda>(n, st). st_ok st"], cases st) (auto simp: read_client_def split: prod.splits bind_splits)

lemma write_client_keeps [keeps]: "st_ok st \<Longrightarrow> (\<And>n st'. st_ok st' \<Longrightarrow> Q (n, st')) \<Longrightarrow> upon (write_client fd b st) Q"
  by (rule uponI [of _ "\<lambda>(n, st). st_ok st"], cases st) (auto simp: write_client_def split: prod.splits bind_splits)

lemma count_transfered_ok [simp]: "st_ok (count_transfered n st) = st_ok st"
  by (cases st) (simp add: count_transfered_def)

lemma parse_response_keeps [keeps]: "st_ok st \<Longrightarrow> (\<And>st'. st_ok st' \<Longrightarrow> Q st') \<Longrightarrow> upon (parse_response a st) Q"
  by (rule uponI [of _ st_ok], cases st) (auto simp: parse_response_def split: prod.splits bind_splits)

lemma steps_upon [keeps]:
  assumes "\<And>i st Q. st_ok st \<Longrightarrow> (\<And>st'. st_ok st' \<Longrightarrow> Q st') \<Longrightarrow> upon (f i st) Q" "st_ok st" "\<And>st'. st_ok st' \<Longrightarrow> Q st'"
  shows "upon (steps f is st) Q"
proof -
  have "f i x = Some x' \<Longrightarrow> st_ok x \<Longrightarrow> st_ok x'" for i x x'
    using assms(1) [of x st_ok i] by (simp add: upon_def)
  from steps_keep [of f st_ok, OF this] assms(2,3) show ?thesis by (auto simp: upon_def)
qed

text \<open>The state as a pair, and what comes back from it taken apart by the rules.\<close>

lemma client_set_host_keeps [keeps]:
  "st_ok st \<Longrightarrow> (\<And>st'. st_ok st' \<Longrightarrow> Q st') \<Longrightarrow> upon (client_set_host a host port st) Q"
  unfolding client_set_host_def by (cases st) (clarsimp | rule conjI impI keeps | rule upon_any)+

lemma client_free_resources_keeps [keeps]:
  "keeps_typed data_ok tab \<Longrightarrow> st_ok st \<Longrightarrow> (\<And>st'. st_ok st' \<Longrightarrow> Q st') \<Longrightarrow> upon (client_free_resources tab a st) Q"
  unfolding client_free_resources_def by (cases st) (clarsimp | rule conjI impI keeps | rule upon_any)+

lemma adv_pre_req_keeps [keeps]: "st_ok st \<Longrightarrow> (\<And>st'. st_ok st' \<Longrightarrow> Q st') \<Longrightarrow> upon (adv_pre_req a n st) Q"
  unfolding adv_pre_req_def by (cases st) (clarsimp | rule conjI impI keeps | rule upon_any)+

lemma drain_request_keeps [keeps]: "st_ok st \<Longrightarrow> (\<And>st'. st_ok st' \<Longrightarrow> Q st') \<Longrightarrow> upon (drain_request a st) Q"
  unfolding drain_request_def by (cases st) (clarsimp | rule conjI impI keeps | rule upon_any)+

lemma parse_request_keeps [keeps]: "st_ok st \<Longrightarrow> (\<And>st'. st_ok st' \<Longrightarrow> Q st') \<Longrightarrow> upon (parse_request a st) Q"
  unfolding parse_request_def by (cases st) (clarsimp | rule conjI impI keeps | rule upon_any)+

lemma client_read_keeps [keeps]:
  "keeps_typed data_ok tab \<Longrightarrow> st_ok st \<Longrightarrow> (\<And>st'. st_ok st' \<Longrightarrow> Q st') \<Longrightarrow> upon (client_read tab key st) Q"
  unfolding client_read_def client_read_no_origin_def client_read_send_req_def
  by (cases st) (clarsimp split: client_state.split | rule conjI impI keeps | rule upon_any)+

lemma client_write_keeps [keeps]:
  "keeps_typed data_ok tab \<Longrightarrow> st_ok st \<Longrightarrow> (\<And>st'. st_ok st' \<Longrightarrow> Q st') \<Longrightarrow> upon (client_write tab key st) Q"
  unfolding client_write_def by (cases st) (clarsimp split: client_state.split | rule conjI impI keeps | rule upon_any)+

lemma remote_read_keeps [keeps]:
  "keeps_typed data_ok tab \<Longrightarrow> st_ok st \<Longrightarrow> (\<And>st'. st_ok st' \<Longrightarrow> Q st') \<Longrightarrow> upon (remote_read tab key st) Q"
  unfolding remote_read_def by (cases st) (clarsimp split: client_state.split | rule conjI impI keeps | rule upon_any)+

lemma remote_write_keeps [keeps]:
  "keeps_typed data_ok tab \<Longrightarrow> st_ok st \<Longrightarrow> (\<And>st'. st_ok st' \<Longrightarrow> Q st') \<Longrightarrow> upon (remote_write tab key st) Q"
  unfolding remote_write_def by (cases st) (clarsimp split: client_state.split | rule conjI impI keeps | rule upon_any)+

lemma transf_read_keeps [keeps]:
  "keeps_typed data_ok tab \<Longrightarrow> st_ok st \<Longrightarrow> (\<And>st'. st_ok st' \<Longrightarrow> Q st') \<Longrightarrow> upon (transf_read tab key st) Q"
  unfolding transf_read_def Let_def by (cases st) (clarsimp | rule conjI impI keeps | rule upon_any)+

lemma transf_write_keeps [keeps]:
  "keeps_typed data_ok tab \<Longrightarrow> st_ok st \<Longrightarrow> (\<And>st'. st_ok st' \<Longrightarrow> Q st') \<Longrightarrow> upon (transf_write tab key st) Q"
  unfolding transf_write_def by (cases st) (clarsimp | rule conjI impI keeps | rule upon_any)+

lemma client_close_keeps [keeps]:
  "keeps_typed data_ok tab \<Longrightarrow> st_ok st \<Longrightarrow> (\<And>st'. st_ok st' \<Longrightarrow> Q st') \<Longrightarrow> upon (client_close tab key st) Q"
  unfolding client_close_def Let_def by (cases st) (clarsimp simp: split_beta | rule conjI impI keeps | rule upon_any)+

lemma set_interest_key_keeps [keeps]:
  "(\<And>r s'. (\<And>w. st_ok (s, w) \<Longrightarrow> st_ok (s', w)) \<Longrightarrow> Q (r, s')) \<Longrightarrow> upon (selector_set_interest_key key i s) Q"
  by (rule uponI [of _ "\<lambda>(r, s'). \<forall>w. st_ok (s, w) \<longrightarrow> st_ok (s', w)"])
    (auto simp: selector_set_interest_key_def split: option.splits if_splits dest: set_interest_keeps_typed)

lemma client_block_keeps [keeps]:
  "keeps_typed data_ok tab \<Longrightarrow> st_ok st \<Longrightarrow> (\<And>st'. st_ok st' \<Longrightarrow> Q st') \<Longrightarrow> upon (client_block strerror tab key st) Q"
  unfolding client_block_def Let_def
  by (cases st) (clarsimp simp: split_beta data_ok_def split: option.split | rule conjI impI keeps | rule upon_any)+

lemma client_new_keeps [keeps]:
  "st_ok st \<Longrightarrow> (\<And>a st'. st_ok st' \<Longrightarrow> px_clients (snd st') a \<noteq> None \<Longrightarrow> Q (a, st')) \<Longrightarrow> upon (client_new fd st) Q"
  unfolding client_new_def register_transformation_def Let_def
  by (cases st) (clarsimp simp: split_beta data_ok_def | rule conjI impI keeps | rule upon_any)+

lemma listen_read_keeps [keeps]:
  "st_ok st \<Longrightarrow> (\<And>st'. st_ok st' \<Longrightarrow> Q st') \<Longrightarrow> upon (listen_read_handler key st) Q"
  unfolding listen_read_handler_def Let_def by (cases st) (clarsimp simp: split_beta data_ok_def | rule conjI impI keeps | rule upon_any)+

lemma log_write_keeps [keeps]:
  "st_ok st \<Longrightarrow> (\<And>st'. st_ok st' \<Longrightarrow> Q st') \<Longrightarrow> upon (log_write_handler key st) Q"
  by (rule uponI [of _ st_ok], cases st)
    (auto simp: log_write_handler_def log_write_def Let_def split: bind_splits if_splits prod.splits dest: set_interest_keeps_typed)

lemma same_selector_keeps [keeps]:
  "st_ok st \<Longrightarrow> (\<And>st'. st_ok st' \<Longrightarrow> Q st') \<Longrightarrow> upon (remote_close key st) Q"
  "st_ok st \<Longrightarrow> (\<And>st'. st_ok st' \<Longrightarrow> Q st') \<Longrightarrow> upon (transf_close key st) Q"
  "st_ok st \<Longrightarrow> (\<And>st'. st_ok st' \<Longrightarrow> Q st') \<Longrightarrow> upon (log_close_handler key st) Q"
  "st_ok st \<Longrightarrow> (\<And>st'. st_ok st' \<Longrightarrow> Q st') \<Longrightarrow> upon (admin_read key st) Q"
  "st_ok st \<Longrightarrow> (\<And>st'. st_ok st' \<Longrightarrow> Q st') \<Longrightarrow> upon (admin_write key st) Q"
  by (rule uponI [of _ st_ok], cases st;
      auto simp: remote_close_def transf_close_def log_close_handler_def admin_read_def admin_write_def Let_def split_beta
        split: bind_splits if_splits)+

lemma handlers_of_keep:
  assumes "keeps_typed data_ok tab" "handlers_of strerror tab h ev = Some f" "st_ok st"
  shows "upon (f key st) st_ok"
  using assms by (cases h; cases ev) (auto simp: remote_block_def transf_block_def intro: keeps)

lemma proxy_callbacks_keep: "keeps_typed data_ok (proxy_callbacks strerror n)"
proof (induction n)
  case 0
  then show ?case by (simp add: keeps_typed_def)
next
  case (Suc n)
  show ?case unfolding keeps_typed_def
    using handlers_of_keep [OF Suc] by (fastforce simp: upon_def)
qed

end
