(* ===== verification/ClientFacts.thy ===== *)
theory ClientFacts
  imports Proxy
begin

unbundle bit_operations_syntax

text \<open>
  What the operations of the selector do for the clients, by descriptor, and the effect of the handlers'
  pieces: closing, freeing, logging, setting the host.
\<close>

section \<open>The selector, by descriptor\<close>

text \<open>What an operation on the table leaves alone.\<close>

definition same_rest :: "('h, 'd) fdselector \<Rightarrow> ('h, 'd) fdselector \<Rightarrow> bool" where
  "same_rest s s' \<longleftrightarrow> resolution_jobs s' = resolution_jobs s \<and> resolution_mutex s' = resolution_mutex s
     \<and> block s' = block s \<and> fd_size s' = fd_size s \<and> slave_r s' = slave_r s \<and> slave_w s' = slave_w s"

lemma same_rest_refl [simp]: "same_rest s s"
  by (simp add: same_rest_def)

lemma same_rest_trans: "same_rest s s' \<Longrightarrow> same_rest s' s'' \<Longrightarrow> same_rest s s''"
  by (simp add: same_rest_def)

lemma with_entry_rest [simp]: "same_rest s (with_entry i it m s)"
  by (simp add: same_rest_def with_entry_def)

lemma registered_index:
  assumes "sel_wf s" "registered s fd \<noteq> None"
  obtains i where "fd = int i" "used (fds s) i" "i < FD_SETSIZE"
proof -
  have "0 \<le> fd" "used (fds s) (nat fd)" using registered_iff [OF assms(1)] assms(2) by blast+
  then show ?thesis using that [of "nat fd"] used_fd [OF sel_wfD(4) [OF assms(1)]] by simp
qed

lemma registered_item:
  assumes "sel_wf s" "registered s fd = Some (h, i, d)"
  obtains k where "fd = int k" "used (fds s) k" "k < FD_SETSIZE"
    "fds s ! k = \<lparr>it_fd = fd, it_interest = i, it_handler = Some h, it_data = d\<rparr>"
proof -
  obtain k where k: "fd = int k" "used (fds s) k" "k < FD_SETSIZE" using registered_index [OF assms(1)] assms(2) by blast
  with used_entry [OF assms(1) k(2)] assms(2) that show thesis by fastforce
qed

lemma set_registered:
  assumes "sel_wf s" "registered s fd = Some (h, j, d)"
  shows "\<exists>s'. selector_set_interest fd i s = Some (SELECTOR_SUCCESS, s') \<and> sel_wf s'
    \<and> registered s' = (registered s)(fd \<mapsto> (h, i, d)) \<and> same_rest s s'"
proof -
  obtain k where k: "fd = int k" using registered_index [OF assms(1)] assms(2) by blast
  show ?thesis using set_interest_refines [OF assms(1), of k h j d i] assms(2) k by auto
qed

lemma set_interest_st:
  assumes "sel_wf s" "registered s fd = Some (h, j, d)"
  shows "\<exists>s'. set_interest fd i (s, w) = Some (s', w) \<and> sel_wf s'
    \<and> registered s' = (registered s)(fd \<mapsto> (h, i, d)) \<and> same_rest s s'"
  using set_registered [OF assms, of i] by (auto simp: set_interest_def)

lemma register_room:
  assumes "sel_wf s" "0 \<le> fd" "fd < int (fd_size s)" "fd < int FD_SETSIZE" "registered s fd = None"
  shows "\<exists>s'. selector_register mem fd (Some h) i d s = Some (SELECTOR_SUCCESS, s') \<and> sel_wf s'
    \<and> registered s' = (registered s)(fd \<mapsto> (h, i, d)) \<and> same_rest s s'"
proof -
  obtain k where k: "fd = int k" "k < length (fds s)" "k < FD_SETSIZE" "k \<noteq> fd_size s" "\<not> k > fd_size s"
    using assms(2-4) sel_wfD(1) [OF assms(1)] by (cases fd) auto
  have "\<not> used (fds s) k" using registered_int [OF assms(1), of k] assms(5) k(1) by simp
  then show ?thesis
    using register_in_table [OF assms(1) k(2,3), of mem h i d] register_defined [OF assms(1) k(4,3), of mem h i d] assms(5) k(1,5) by auto
qed

text \<open>Unregistration when the close callback has brought the selector to \<open>s1\<close>.\<close>

lemma unregister_st:
  assumes "sel_wf s" "sel_wf s1" "registered s fd = Some (h, i, d)" "registered s1 fd \<noteq> None" "block s1 = block s"
    and c: "tab h HANDLE_CLOSE = Some f" "f \<lparr>key_fd = fd, key_data = d\<rparr> (s, w) = Some (s1, w1)"
  shows "\<exists>s'. unregister tab fd (s, w) = Some (s', w1) \<and> sel_wf s' \<and> registered s' = (registered s1)(fd := None)
    \<and> same_rest s1 s'"
proof -
  obtain k where k: "fd = int k" "used (fds s) k"
      "fds s ! k = \<lparr>it_fd = fd, it_interest = i, it_handler = Some h, it_data = d\<rparr>"
    using registered_item [OF assms(1,3)] by blast
  then have "call_close tab (fds s ! k) (s, w) = Some (s1, w1)" using c by (simp add: call_close_def)
  then show ?thesis
    using unregister_refines [OF assms(2) _ _ assms(1,5)] assms(3,4) k(1) by (fastforce simp: unregister_def)
qed

section \<open>Closing\<close>

lemma close_fd_trace [simp]: "pf_trace (px_os (close_fd fd w)) = pf_trace (px_os w) @ [Shut fd]"
  by (simp add: close_fd_def sys_close_def)

definition freed :: "client \<Rightarrow> client" where
  "freed c = c\<lparr>origin_fd := - 1, pre_req_parse_buf := free_mem (pre_req_parse_buf c),
     post_req_parse_buf := free_mem (post_req_parse_buf c), pre_res_parse_buf := free_mem (pre_res_parse_buf c),
     post_res_parse_buf := free_mem (post_res_parse_buf c)\<rparr>"

lemma unregister_origin:
  assumes "sel_wf s" "px_clients w a = Some c" "registered s fd = Some (Remote_handlers, i, Some (Client_ptr a))"
  shows "\<exists>s'. unregister (handlers_of strerror tab) fd (s, w) = Some (s', set_client a (c\<lparr>origin_fd := - 1\<rparr>) (close_fd (origin_fd c) w))
    \<and> sel_wf s' \<and> registered s' = (registered s)(fd := None) \<and> same_rest s s'"
proof -
  have "handlers_of strerror tab Remote_handlers HANDLE_CLOSE = Some remote_close" by simp
  moreover have "remote_close \<lparr>key_fd = fd, key_data = Some (Client_ptr a)\<rparr> (s, w) =
      Some (s, set_client a (c\<lparr>origin_fd := - 1\<rparr>) (close_fd (origin_fd c) w))"
    using assms(2) by (simp add: remote_close_def GET_CLIENT_def)
  ultimately show ?thesis using unregister_st [OF assms(1,1,3) _ refl] assms(3) by blast
qed

lemma client_free_resources_effect:
  assumes "sel_wf s" "px_clients w a = Some c"
    "origin_fd c \<noteq> - 1 \<longrightarrow> (\<exists>i. registered s (origin_fd c) = Some (Remote_handlers, i, Some (Client_ptr a)))"
  shows "\<exists>s' w'. client_free_resources (handlers_of strerror tab) a (s, w) = Some (s', w') \<and> sel_wf s' \<and> same_rest s s'
    \<and> registered s' = (if origin_fd c = - 1 then registered s else (registered s)(origin_fd c := None))
    \<and> px_clients w' = (px_clients w)(a \<mapsto> freed c) \<and> px_log w' = px_log w \<and> px_admin w' = px_admin w
    \<and> pf_trace (px_os w') = pf_trace (px_os w) @
        (if origin_fd c = - 1 then [] else [Shut (origin_fd c), Shut (origin_fd c)]) @ [Shut (client_fd c)]"
proof (cases "origin_fd c = - 1")
  case True
  then show ?thesis using assms(1,2)
    by (auto simp: client_free_resources_def upd_client_def freed_def intro!: client.equality)
next
  case False
  then obtain i where i: "registered s (origin_fd c) = Some (Remote_handlers, i, Some (Client_ptr a))" using assms(3) by blast
  have "px_clients (close_fd (origin_fd c) w) a = Some c" using assms(2) by simp
  from unregister_origin [OF assms(1) this i, of strerror tab] obtain s' where s':
    "unregister (handlers_of strerror tab) (origin_fd c) (s, close_fd (origin_fd c) w) =
      Some (s', set_client a (c\<lparr>origin_fd := - 1\<rparr>) (close_fd (origin_fd c) (close_fd (origin_fd c) w)))"
    "sel_wf s'" "registered s' = (registered s)(origin_fd c := None)" "same_rest s s'" by auto
  then show ?thesis using False assms(2)
    by (simp add: client_free_resources_def upd_client_def freed_def)
qed

text \<open>What the program knows of a client that is being served: it is registered, and so is its origin.\<close>

definition client_ok :: "selector \<Rightarrow> proxy \<Rightarrow> nat \<Rightarrow> client \<Rightarrow> bool" where
  "client_ok s w a c \<longleftrightarrow> sel_wf s \<and> px_clients w a = Some c \<and> connection_time c \<noteq> None
     \<and> (\<exists>i. registered s (client_fd c) = Some (Client_handlers, i, Some (Client_ptr a)))
     \<and> origin_fd c \<noteq> client_fd c
     \<and> (origin_fd c \<noteq> - 1 \<longrightarrow> (\<exists>i. registered s (origin_fd c) = Some (Remote_handlers, i, Some (Client_ptr a))))"

definition closing_trace :: "client \<Rightarrow> os_event list" where
  "closing_trace c = (if origin_fd c = - 1 then [] else [Shut (origin_fd c), Shut (origin_fd c)]) @ [Shut (client_fd c)]"

lemma client_close_effect:
  assumes ok: "client_ok s w a c"
  shows "\<exists>s' w' ct now. client_close (handlers_of strerror tab) \<lparr>key_fd = client_fd c, key_data = Some (Client_ptr a)\<rparr> (s, w) = Some (s', w')
    \<and> sel_wf s' \<and> same_rest s s'
    \<and> registered s' = (if origin_fd c = - 1 then registered s else (registered s)(origin_fd c := None))
    \<and> px_clients w' = (px_clients w)(a \<mapsto> freed (c\<lparr>connection_time := Some ct\<rparr>))
    \<and> metric_close_connection (connection_time c) now (ad_metrics (px_admin w)) = Some (ct, ad_metrics (px_admin w'))
    \<and> ad_queue (px_admin w') = ad_queue (px_admin w) \<and> pf_trace (px_os w') = pf_trace (px_os w) @ closing_trace c"
proof -
  have w: "px_clients w a = Some c" using ok by (simp add: client_ok_def)
  obtain now w1 where now: "os_call w = (now, w1)" by fastforce
  have w1: "px_clients w1 = px_clients w" "px_admin w1 = px_admin w" "pf_trace (px_os w1) = pf_trace (px_os w)"
    using now by (metis os_call_simps snd_conv)+
  obtain ct ms where m: "metric_close_connection (connection_time c) now (ad_metrics (px_admin w)) = Some (ct, ms)"
    using ok by (auto simp: client_ok_def metric_close_connection_def Let_def)
  let ?c = "c\<lparr>connection_time := Some ct\<rparr>" and ?w = "set_client a (c\<lparr>connection_time := Some ct\<rparr>) (with_metrics (\<lambda>_. ms) w1)"
  have "\<exists>s' w'. client_free_resources (handlers_of strerror tab) a (s, ?w) = Some (s', w') \<and> sel_wf s' \<and> same_rest s s'
    \<and> registered s' = (if origin_fd ?c = - 1 then registered s else (registered s)(origin_fd ?c := None))
    \<and> px_clients w' = (px_clients ?w)(a \<mapsto> freed ?c) \<and> px_log w' = px_log ?w \<and> px_admin w' = px_admin ?w
    \<and> pf_trace (px_os w') = pf_trace (px_os ?w) @
        (if origin_fd ?c = - 1 then [] else [Shut (origin_fd ?c), Shut (origin_fd ?c)]) @ [Shut (client_fd ?c)]"
    using ok by (intro client_free_resources_effect) (simp_all add: client_ok_def)
  then obtain s' w' where r: "client_free_resources (handlers_of strerror tab) a (s, ?w) = Some (s', w')" "sel_wf s'" "same_rest s s'"
    "registered s' = (if origin_fd c = - 1 then registered s else (registered s)(origin_fd c := None))"
    "px_clients w' = (px_clients w)(a \<mapsto> freed ?c)" "px_admin w' = px_admin ?w"
    "pf_trace (px_os w') = pf_trace (px_os w) @ closing_trace c"
    using w1 by (auto simp: closing_trace_def)
  have "ad_metrics (px_admin w') = ms" "ad_queue (px_admin w') = ad_queue (px_admin w)" using w1(2) by (simp_all add: r(6) with_metrics_def)
  then show ?thesis using r m now w w1
    by (intro exI [of _ s'] exI [of _ w'] exI [of _ ct] exI [of _ now]) (simp add: client_close_def GET_CLIENT_def)
qed

lemma unregister_client:
  assumes ok: "client_ok s w a c"
  shows "\<exists>s' w' ct now. unregister (handlers_of strerror (handlers_of strerror tab)) (client_fd c) (s, w) = Some (s', w')
    \<and> sel_wf s' \<and> same_rest s s'
    \<and> registered s' = (if origin_fd c = - 1 then registered s else (registered s)(origin_fd c := None))(client_fd c := None)
    \<and> px_clients w' = (px_clients w)(a \<mapsto> freed (c\<lparr>connection_time := Some ct\<rparr>))
    \<and> metric_close_connection (connection_time c) now (ad_metrics (px_admin w)) = Some (ct, ad_metrics (px_admin w'))
    \<and> ad_queue (px_admin w') = ad_queue (px_admin w) \<and> pf_trace (px_os w') = pf_trace (px_os w) @ closing_trace c"
proof -
  obtain i where i: "registered s (client_fd c) = Some (Client_handlers, i, Some (Client_ptr a))" "sel_wf s" "origin_fd c \<noteq> client_fd c"
    using ok by (auto simp: client_ok_def)
  obtain s1 w1 ct now where cl: "client_close (handlers_of strerror tab) \<lparr>key_fd = client_fd c, key_data = Some (Client_ptr a)\<rparr> (s, w) = Some (s1, w1)"
    "sel_wf s1" "same_rest s s1" "registered s1 = (if origin_fd c = - 1 then registered s else (registered s)(origin_fd c := None))"
    "px_clients w1 = (px_clients w)(a \<mapsto> freed (c\<lparr>connection_time := Some ct\<rparr>))"
    "metric_close_connection (connection_time c) now (ad_metrics (px_admin w)) = Some (ct, ad_metrics (px_admin w1))"
    "ad_queue (px_admin w1) = ad_queue (px_admin w)" "pf_trace (px_os w1) = pf_trace (px_os w) @ closing_trace c"
    using client_close_effect [OF ok, of strerror tab] by blast
  have r1: "registered s1 (client_fd c) \<noteq> None" "block s1 = block s" using cl(3,4) i by (simp_all add: same_rest_def)
  obtain s' where "unregister (handlers_of strerror (handlers_of strerror tab)) (client_fd c) (s, w) = Some (s', w1)" "sel_wf s'"
      "registered s' = (registered s1)(client_fd c := None)" "same_rest s1 s'"
    using unregister_st [OF i(2) cl(2) i(1) r1, where tab = "handlers_of strerror (handlers_of strerror tab)"
        and f = "client_close (handlers_of strerror tab)"] cl(1) by auto
  moreover from this(4) cl(3) have "same_rest s s'" by (rule same_rest_trans [rotated])
  ultimately show ?thesis using cl(4-8)
    by (intro exI [of _ s'] exI [of _ w1] exI [of _ ct] exI [of _ now]) simp
qed

section \<open>The host\<close>

text \<open>There is room for the line in the log, and its pipe is registered.\<close>

definition log_ready :: "selector \<Rightarrow> proxy \<Rightarrow> nat \<Rightarrow> bool" where
  "log_ready s w n \<longleftrightarrow> buf_inv (logbuf (px_log w)) \<and> n < room (logbuf (px_log w)) \<and> n < 2047
     \<and> registered s (lg_writefd (px_log w)) \<noteq> None"

lemma log_line_effect:
  assumes "sel_wf s" "log_ready s w (length txt)"
  shows "\<exists>s' l. log_line txt (s, w) = Some (s', w\<lparr>px_log := l\<rparr>) \<and> sel_wf s' \<and> same_rest s s'
    \<and> lg_writefd l = lg_writefd (px_log w) \<and> pending (logbuf l) = pending (logbuf (px_log w)) @ txt @ [0]
    \<and> (\<exists>h j d. registered s (lg_writefd (px_log w)) = Some (h, j, d)
        \<and> registered s' = (registered s)(lg_writefd (px_log w) \<mapsto> (h, OP_WRITE, d)))"
proof -
  obtain h j d where r: "registered s (lg_writefd (px_log w)) = Some (h, j, d)" using assms(2) by (auto simp: log_ready_def)
  obtain s' where s':
    "selector_set_interest (lg_writefd (px_log w)) OP_WRITE s = Some (SELECTOR_SUCCESS, s')" "sel_wf s'"
    "registered s' = (registered s)(lg_writefd (px_log w) \<mapsto> (h, OP_WRITE, d))" "same_rest s s'"
    using set_registered [OF assms(1) r] by blast
  obtain b where
    "log_send txt (px_log w) s = Some ((px_log w)\<lparr>logbuf := b\<rparr>, s')" "pending b = pending (logbuf (px_log w)) @ txt @ [0]"
    using log_send_stores [OF _ _ _ s'(1), of "txt"] assms(2) by (auto simp: log_ready_def)
  with s' r assms(2) show ?thesis
    by (auto simp: log_line_def log_sendf_def log_ready_def)
qed

end
