(* ===== verification/ClientExamples.thy ===== *)
theory ClientExamples
  imports ClientFacts AdminProperties
begin

unbundle bit_operations_syntax

text \<open>
  A small running program on which the properties of the clients are seen to apply: the log is registered
  as descriptor 0 and a client as descriptor 3; its origin, if there is one, is descriptor 4.
\<close>

definition demo_item :: "nat \<Rightarrow> handler_name \<Rightarrow> fd_interest \<Rightarrow> ptr \<Rightarrow> (handler_name, ptr) item" where
  "demo_item fd h i d = \<lparr>it_fd = int fd, it_interest = i, it_handler = Some h, it_data = Some d\<rparr>"

definition demo_free :: "(handler_name, ptr) item" where
  "demo_free = item_init blank_item"

definition demo_selector :: "fd_interest \<Rightarrow> fd_interest option \<Rightarrow> selector" where
  "demo_selector ci oi = zeroed_selector\<lparr>fds := [demo_item 0 Logging_handlers OP_NOOP Log_ptr, demo_free, demo_free,
       demo_item 3 Client_handlers ci (Client_ptr 0),
       (case oi of None \<Rightarrow> demo_free | Some i \<Rightarrow> demo_item 4 Remote_handlers i (Client_ptr 0)), demo_free],
     fd_size := 6, max_fd := (if oi = None then 3 else 4),
     master_r := (if wants OP_READ ci then {3} else {}) \<union> (case oi of None \<Rightarrow> {} | Some i \<Rightarrow> if wants OP_READ i then {4} else {}),
     master_w := (if wants OP_WRITE ci then {3} else {}) \<union> (case oi of None \<Rightarrow> {} | Some i \<Rightarrow> if wants OP_WRITE i then {4} else {})\<rparr>"

lemma demo_used: "used (fds (demo_selector ci oi)) i \<longleftrightarrow> i = 0 \<or> i = 3 \<or> i = 4 \<and> oi \<noteq> None"
  by (auto simp: used_def demo_selector_def demo_item_def demo_free_def ITEM_USED_def FD_UNUSED_def item_init_def blank_item_def
      less_Suc_eq numeral_eq_Suc split: option.splits)

lemma demo_nth: "fds (demo_selector ci oi) ! 0 = demo_item 0 Logging_handlers OP_NOOP Log_ptr"
  "fds (demo_selector ci oi) ! 3 = demo_item 3 Client_handlers ci (Client_ptr 0)"
  "fds (demo_selector ci (Some i)) ! 4 = demo_item 4 Remote_handlers i (Client_ptr 0)"
  by (simp_all add: demo_selector_def)

lemma demo_wf: "sel_wf (demo_selector ci oi)"
proof -
  let ?s = "demo_selector ci oi"
  have "entry_ok i (fds ?s ! i)" if "i < 6" for i
    using that by (auto simp: demo_selector_def entry_ok_def demo_item_def demo_free_def item_init_def FD_UNUSED_def sizes
        less_Suc_eq numeral_eq_Suc split: option.splits)
  moreover have "fd_size ?s = 6" "length (fds ?s) = 6" by (simp_all add: demo_selector_def)
  moreover have "is_top (fds ?s) (max_fd ?s)" by (auto simp: is_top_def demo_used) (simp_all add: demo_selector_def split: if_splits)
  moreover have "interested op (fds ?s) = (if wants op ci then {3} else {}) \<union> (case oi of None \<Rightarrow> {} | Some i \<Rightarrow> if wants op i then {4} else {})" for op
    by (cases oi; auto simp: interested_def demo_used demo_nth demo_item_def; rule ccontr; simp add: demo_nth demo_item_def)
  ultimately show ?thesis by (simp add: sel_wf_def items_ok_def sizes) (simp add: demo_selector_def)
qed

lemma demo_registered:
  "registered (demo_selector ci oi) 0 = Some (Logging_handlers, OP_NOOP, Some Log_ptr)"
  "registered (demo_selector ci oi) 3 = Some (Client_handlers, ci, Some (Client_ptr 0))"
  "registered (demo_selector ci oi) 4 = map_option (\<lambda>i. (Remote_handlers, i, Some (Client_ptr 0))) oi"
  "registered (demo_selector ci oi) 5 = None"
  by (cases oi; simp add: registered_def demo_used demo_nth; simp add: demo_item_def)+

definition demo_host :: "byte list \<Rightarrow> host_details" where
  "demo_host h = \<lparr>hd_port = 80, hd_fqdn = strncpy MAX_DOMAIN_NAME_LENGTH h @ [0], hd_resolved = None\<rparr>"

definition demo_client :: client where
  "demo_client = \<lparr>cl_state = NO_ORIGIN, cl_err = NO_ERROR, pre_req_parse_buf = holding [], post_req_parse_buf = holding [],
     pre_res_parse_buf = holding [], post_res_parse_buf = holding [], pre_transf_buf = holding [], client_fd = 3, origin_fd = - 1,
     transf_in_fd = - 1, transf_out_fd = - 1, req_data = defaultRequestStruct no_request, res_data = no_response, request_complete = False, response_complete = False,
     shouldTransform = False, cl_host = demo_host [], connection_time = Some \<lparr>init_time = 0, end_time = 0\<rparr>\<rparr>"

definition sending_client :: client where
  "sending_client = demo_client\<lparr>cl_state := SEND_REQ, origin_fd := 4, post_req_parse_buf := holding (str ''GET /''), request_complete := True\<rparr>"

text \<open>Each call of the system is answered with \<open>r\<close>, and each read with \<open>xs\<close>.\<close>

definition demo_proxy :: "int \<Rightarrow> byte list \<Rightarrow> client \<Rightarrow> proxy" where
  "demo_proxy r xs c = \<lparr>px_os = \<lparr>pf_reads = (\<lambda>_. Some xs), pf_results = (\<lambda>_. r), pf_blocks = (\<lambda>_. None), pf_count = 0, pf_trace = []\<rparr>,
     px_admin = sample_admin, px_log = log_example\<lparr>lg_writefd := 0\<rparr>, px_clients = [0 \<mapsto> c], px_next = 1, px_fresh = (\<lambda>_. c),
     px_realloc = (\<lambda>_. None), px_lookups = []\<rparr>"

lemma demo_proxy_view [simp]:
  "px_clients (demo_proxy r xs c) a = (if a = 0 then Some c else None)" "pf_trace (px_os (demo_proxy r xs c)) = []"
  "pf_results (px_os (demo_proxy r xs c)) = (\<lambda>_. r)" "pf_reads (px_os (demo_proxy r xs c)) = (\<lambda>_. Some xs)"
  "px_log (demo_proxy r xs c) = log_example\<lparr>lg_writefd := 0\<rparr>" "px_lookups (demo_proxy r xs c) = []"
  by (simp_all add: demo_proxy_def)

lemma sending_ok: "client_ok (demo_selector ci (Some oi)) (demo_proxy r xs sending_client) 0 sending_client"
  by (simp add: client_ok_def demo_wf demo_registered sending_client_def demo_client_def)

text \<open>A client whose origin has sent everything and is closed.\<close>

definition served_client :: client where
  "served_client = demo_client\<lparr>cl_state := READ_RESP, post_res_parse_buf := holding (str ''HTTP/1.1'')\<rparr>"

lemma served_ok: "client_ok (demo_selector ci None) (demo_proxy r xs served_client) 0 served_client"
  by (simp add: client_ok_def demo_wf demo_registered served_client_def demo_client_def)

lemma demo_ok: "client_ok (demo_selector ci None) (demo_proxy r xs demo_client) 0 demo_client"
  by (simp add: client_ok_def demo_wf demo_registered demo_client_def)

end
