(* ===== verification/ClientProperties.thy ===== *)
theory ClientProperties
  imports ClientExamples
begin

unbundle bit_operations_syntax

text \<open>
  What the proxy does for a client: the bytes of a request reach the origin, partial writes lose nothing,
  closing a client releases what it had; and where the handlers go wrong.
\<close>

section \<open>The loop that copies what follows the host\<close>

lemma drain_eq:
  "buf_inv bi \<Longrightarrow> buf_inv bo \<Longrightarrow>
    (let k = length (takeWhile (\<lambda>c. c \<noteq> 0) (pending bi)) in
      c_loop drain_body (bi, bo) = Some (advs (if k < length (pending bi) then Suc k else k) bi, copies k bi bo))"
proof (induction "length (pending bi)" arbitrary: bi bo)
  case 0
  then have "drain_body (bi, bo) = Some (True, bi, bo)" by (simp add: drain_body_def buf_eqs)
  then show ?case using 0 by (simp add: c_loop_break)
next
  case (Suc n)
  then obtain x xs where p: "pending bi = x # xs" by (cases "pending bi") auto
  have body: "drain_body (bi, bo) = Some (x = 0, adv1 bi, copy1 bi bo)"
    using Suc.prems p by (simp add: drain_body_def buf_eqs)
  have a: "buf_inv (adv1 bi)" "buf_inv (copy1 bi bo)" "pending (adv1 bi) = xs" using Suc.prems p by (simp_all add: buf_view)
  show ?case
  proof (cases "x = 0")
    case True
    then have "copy1 bi bo = bo" using p by (simp add: copy1_def)
      then show ?thesis using True body p by (simp add: c_loop_break advs_Suc)
  next
    case False
    then have "c_loop drain_body (bi, bo) = c_loop drain_body (adv1 bi, copy1 bi bo)"
      using body by (intro c_loop_continue) simp
    with Suc.hyps(1) [of "adv1 bi" "copy1 bi bo"] Suc.hyps(2) Suc.prems a p False show ?thesis
      by (simp add: copies_Suc advs_Suc Let_def)
  qed
qed

section \<open>The host of a client\<close>

lemma strncmp_prefix: "length b = k \<Longrightarrow> strncmp_eq k a (b @ zs) = strncmp_eq k a b"
proof (induction k arbitrary: a b)
  case (Suc k)
  then show ?case by (cases a; cases b) auto
qed simp

lemma c_string_strncpy: "0 \<notin> set h \<Longrightarrow> length h \<le> k \<Longrightarrow> c_string (strncpy k h @ [0]) = h"
proof (induction k arbitrary: h)
  case (Suc k)
  then show ?case by (cases h) (auto simp: c_string_def)
qed (simp add: c_string_def)

lemma strncpy_take: "strncpy k (take k h) = strncpy k h"
  by (simp add: strncpy_def)

text \<open>The array holds the host \<open>h\<close>, or none yet.\<close>

definition host_is :: "host_details \<Rightarrow> byte list \<Rightarrow> bool" where
  "host_is hs h \<longleftrightarrow> 0 \<notin> set h \<and> length h \<le> MAX_DOMAIN_NAME_LENGTH \<and> (\<exists>z. hd_fqdn hs = strncpy MAX_DOMAIN_NAME_LENGTH h @ [z])"

definition no_host :: "host_details \<Rightarrow> bool" where
  "no_host hs \<longleftrightarrow> length (hd_fqdn hs) = MAX_DOMAIN_NAME_LENGTH + 1 \<and> hd_fqdn hs ! 0 = 0"

lemma host_is_same:
  assumes "host_is hs h" "0 \<notin> set h'"
  shows "strncmp_eq MAX_DOMAIN_NAME_LENGTH (h' @ [0]) (hd_fqdn hs) \<longleftrightarrow> take MAX_DOMAIN_NAME_LENGTH h' = h"
proof -
  have "strncmp_eq MAX_DOMAIN_NAME_LENGTH (h' @ [0]) (hd_fqdn hs) \<longleftrightarrow> strncpy MAX_DOMAIN_NAME_LENGTH h' = strncpy MAX_DOMAIN_NAME_LENGTH h"
    using assms strncmp_strncpy [of h' h MAX_DOMAIN_NAME_LENGTH] strncmp_prefix [of "strncpy MAX_DOMAIN_NAME_LENGTH h"]
    by (auto simp: host_is_def strncpy_def)
  moreover have "0 \<notin> set (take MAX_DOMAIN_NAME_LENGTH h')" using assms(2) by (meson in_set_takeD)
  ultimately show ?thesis using assms(1) c_string_strncpy [of h MAX_DOMAIN_NAME_LENGTH]
      c_string_strncpy [of "take MAX_DOMAIN_NAME_LENGTH h'" MAX_DOMAIN_NAME_LENGTH] strncpy_take [of MAX_DOMAIN_NAME_LENGTH h']
    by (metis host_is_def length_take min.cobounded2)
qed

definition resolving_line :: "byte list \<Rightarrow> byte list" where
  "resolving_line host = str ''Resolving: '' @ host @ str ''...''"

text \<open>
  The outcomes of \<open>client_set_host\<close>: the first host is stored, or it is too long for the array; later ones are compared with
  the stored host in as many bytes as the array has room for.
\<close>

definition host_outcome :: "byte list \<Rightarrow> int \<Rightarrow> client \<Rightarrow> client \<Rightarrow> bool" where
  "host_outcome host port c c' \<longleftrightarrow>
     (if no_host (cl_host c) \<and> length host > MAX_DOMAIN_NAME_LENGTH
      then c' = c\<lparr>cl_err := INVALID_HOST, cl_state := CLI_ERROR\<rparr>
      else if no_host (cl_host c)
      then \<exists>fqdn. c' = c\<lparr>cl_host := (cl_host c)\<lparr>hd_fqdn := fqdn, hd_port := port\<rparr>\<rparr> \<and> host_is (cl_host c') host
      else c' = (if host_is (cl_host c) (take MAX_DOMAIN_NAME_LENGTH host) \<and> hd_port (cl_host c) = port then c\<lparr>cl_state := SEND_REQ\<rparr>
        else c\<lparr>cl_err := KEEPALIVE_HOST_NO_MATCH, cl_state := CLI_ERROR\<rparr>))"

lemma client_set_host_effect:
  assumes "sel_wf s" "log_ready s w (length (resolving_line host))" "px_clients w a = Some c"
    "0 \<notin> set host" "no_host (cl_host c) \<or> (\<exists>h. h \<noteq> [] \<and> host_is (cl_host c) h)"
  shows "\<exists>s' l c'. client_set_host a host port (s, w) = Some (s',
      (set_client a c' (w\<lparr>px_log := l\<rparr>))\<lparr>px_lookups := px_lookups w @ (if no_host (cl_host c) \<and> length host \<le> MAX_DOMAIN_NAME_LENGTH then [a] else [])\<rparr>)
    \<and> host_outcome host port c c' \<and> sel_wf s' \<and> same_rest s s' \<and> lg_writefd l = lg_writefd (px_log w)
    \<and> pending (logbuf l) = pending (logbuf (px_log w)) @ resolving_line host @ [0]
    \<and> (\<exists>h j d. registered s (lg_writefd (px_log w)) = Some (h, j, d)
        \<and> registered s' = (registered s)(lg_writefd (px_log w) \<mapsto> (h, OP_WRITE, d)))"
proof -
  obtain s' l where l: "log_line (resolving_line host) (s, w) = Some (s', w\<lparr>px_log := l\<rparr>)" "sel_wf s'" "same_rest s s'"
    "lg_writefd l = lg_writefd (px_log w)" "pending (logbuf l) = pending (logbuf (px_log w)) @ resolving_line host @ [0]"
    "\<exists>h j d. registered s (lg_writefd (px_log w)) = Some (h, j, d) \<and> registered s' = (registered s)(lg_writefd (px_log w) \<mapsto> (h, OP_WRITE, d))"
    using log_line_effect [OF assms(1,2)] by blast
  have "\<exists>c'. client_set_host a host port (s, w) = Some (s',
      (set_client a c' (w\<lparr>px_log := l\<rparr>))\<lparr>px_lookups := px_lookups w @ (if no_host (cl_host c) \<and> length host \<le> MAX_DOMAIN_NAME_LENGTH then [a] else [])\<rparr>)
    \<and> host_outcome host port c c'"
  proof (cases "no_host (cl_host c)")
    case True
    show ?thesis
    proof (cases "length host \<le> MAX_DOMAIN_NAME_LENGTH")
      case fits: True
      let ?f = "strncpy MAX_DOMAIN_NAME_LENGTH host @ [hd_fqdn (cl_host c) ! MAX_DOMAIN_NAME_LENGTH]"
      have "length (strncpy MAX_DOMAIN_NAME_LENGTH host) = MAX_DOMAIN_NAME_LENGTH" by (simp add: strncpy_def)
      then have f: "store_block (hd_fqdn (cl_host c)) 0 (strncpy MAX_DOMAIN_NAME_LENGTH host) = Some ?f"
        using True by (simp add: no_host_def store_block_def Cons_nth_drop_Suc [symmetric])
      let ?c = "c\<lparr>cl_host := (cl_host c)\<lparr>hd_fqdn := ?f, hd_port := port\<rparr>\<rparr>"
      have "client_set_host a host port (s, w) = Some (s', (set_client a ?c (w\<lparr>px_log := l\<rparr>))\<lparr>px_lookups := px_lookups w @ [a]\<rparr>)"
        using l(1) assms(3) fits True f by (simp add: client_set_host_def resolving_line_def no_host_def)
      moreover have "host_outcome host port c ?c" using True fits assms(4) by (auto simp: host_outcome_def host_is_def)
      ultimately show ?thesis using True fits by auto
    next
      case False
      then show ?thesis using l(1) assms(3) True
        by (auto simp: client_set_host_def resolving_line_def no_host_def host_outcome_def set_client_def)
    qed
  next
    case False
    then obtain h where h: "h \<noteq> []" "host_is (cl_host c) h" using assms(5) by blast
    then have first: "\<exists>x. load (hd_fqdn (cl_host c)) 0 = Some x \<and> x \<noteq> 0"
      by (cases h) (auto simp: host_is_def MAX_DOMAIN_NAME_LENGTH_def strncpy_def)
    let ?t = "take MAX_DOMAIN_NAME_LENGTH host"
    have "0 \<notin> set ?t" using assms(4) by (meson in_set_takeD)
    then have same: "strncmp_eq MAX_DOMAIN_NAME_LENGTH (host @ [0]) (hd_fqdn (cl_host c)) \<longleftrightarrow> host_is (cl_host c) ?t"
      using host_is_same [OF h(2) assms(4)] host_is_same [of "cl_host c" ?t host] assms(4) h(2) by blast
    show ?thesis using l(1) assms(3) False first
      by (auto simp: client_set_host_def resolving_line_def host_outcome_def same set_client_def)
  qed
  with l show ?thesis by blast
qed

section \<open>The registrations a handler changes\<close>

definition with_interest :: "int \<Rightarrow> fd_interest \<Rightarrow> (int \<rightharpoonup> 'h \<times> fd_interest \<times> 'd) \<Rightarrow> (int \<rightharpoonup> 'h \<times> fd_interest \<times> 'd)" where
  "with_interest fd i R = (case R fd of None \<Rightarrow> R | Some (h, _, d) \<Rightarrow> R(fd \<mapsto> (h, i, d)))"

lemma with_interest_apply: "with_interest fd i R f = (if f = fd then map_option (\<lambda>(h, _, d). (h, i, d)) (R f) else R f)"
  by (auto simp: with_interest_def split: option.splits)

lemma with_interest_again [simp]: "with_interest fd i (with_interest fd i R) = with_interest fd i R"
  by (auto simp: with_interest_def split: option.split)

lemma set_interest_any:
  assumes "sel_wf s" "registered s fd \<noteq> None \<or> INVALID_FD fd"
  shows "\<exists>s'. set_interest fd i (s, w) = Some (s', w) \<and> sel_wf s' \<and> registered s' = with_interest fd i (registered s) \<and> same_rest s s'"
proof (cases "registered s fd")
  case None
  then show ?thesis using assms by (auto simp: set_interest_def selector_set_interest_def with_interest_def)
next
  case (Some e)
  then show ?thesis using set_interest_st [OF assms(1), of fd "fst e" "fst (snd e)" "snd (snd e)" i w]
    by (auto simp: with_interest_def split: prod.split)
qed

abbreviation client_key :: "int \<Rightarrow> nat \<Rightarrow> ptr selector_key" where
  "client_key fd a \<equiv> \<lparr>key_fd = fd, key_data = Some (Client_ptr a)\<rparr>"

lemma GET_CLIENT_key [simp]: "GET_CLIENT (client_key fd a) = Some a"
  by (simp add: GET_CLIENT_def)

lemma client_okD:
  assumes "client_ok s w a c"
  shows "sel_wf s" "px_clients w a = Some c" "registered s (client_fd c) \<noteq> None"
    "origin_fd c \<noteq> - 1 \<Longrightarrow> registered s (origin_fd c) \<noteq> None" "client_fd c \<noteq> - 1"
  using assms registered_iff [of s "- 1"] by (auto simp: client_ok_def)

lemma client_ok_with:
  assumes "client_ok s w a c" "sel_wf s'" "registered s' = with_interest fd i (registered s)" "px_clients w' a = Some c'"
    "origin_fd c' = origin_fd c" "client_fd c' = client_fd c" "connection_time c' = connection_time c"
  shows "client_ok s' w' a c'"
  using assms by (auto simp: client_ok_def with_interest_apply)

section \<open>Sending the request\<close>

lemma count_transfered_eq: "count_transfered n (s, w) = (s, with_metrics (metric_add_transfered_bytes (of_int n)) w)"
  by (simp add: count_transfered_def)

lemma write_client_eq:
  "buf_inv b \<Longrightarrow> write_client fd b (s, w) = Some (fst (sys_write fd (pending b) (px_os w)), s, w\<lparr>px_os := snd (sys_write fd (pending b) (px_os w))\<rparr>)"
  by (simp add: write_client_def write_from_eq split: prod.split)

text \<open>What a write from a buffer does: no byte is lost or doubled, and other descriptors are left alone.\<close>

definition moved :: "int \<Rightarrow> buffer \<Rightarrow> buffer \<Rightarrow> proxy \<Rightarrow> proxy \<Rightarrow> bool" where
  "moved fd b b' w w' \<longleftrightarrow> written_to fd (pf_trace (px_os w')) @ pending b' = written_to fd (pf_trace (px_os w)) @ pending b
     \<and> (\<forall>f. f \<noteq> fd \<longrightarrow> written_to f (pf_trace (px_os w')) = written_to f (pf_trace (px_os w)))"

lemma remote_write_sends:
  assumes ok: "client_ok s w a c" and c: "cl_state c = SEND_REQ" "origin_fd c \<noteq> - 1" "buf_inv (post_req_parse_buf c)"
    "pending (post_req_parse_buf c) \<noteq> []" and r: "sys_write (origin_fd c) (pending (post_req_parse_buf c)) (px_os w) = (n, p)" "n \<noteq> - 1"
  shows "\<exists>s' w' b. remote_write tab (client_key fd a) (s, w) = Some (s', w') \<and> client_ok s' w' a (c\<lparr>post_req_parse_buf := b\<rparr>)
    \<and> px_clients w' = (px_clients w)(a \<mapsto> c\<lparr>post_req_parse_buf := b\<rparr>) \<and> buf_inv b
    \<and> moved (origin_fd c) (post_req_parse_buf c) b w w' \<and> px_os w' = p
    \<and> registered s' = with_interest (client_fd c) OP_READ (registered s)
    \<and> ad_metrics (px_admin w') = metric_add_transfered_bytes (of_int n) (ad_metrics (px_admin w))
    \<and> same_rest s s' \<and> ad_queue (px_admin w') = ad_queue (px_admin w)"
proof -
  obtain b where b: "buffer_read_adv (post_req_parse_buf c) n = Some b" "buf_inv b"
    "written_to (origin_fd c) (pf_trace p) @ pending b = written_to (origin_fd c) (pf_trace (px_os w)) @ pending (post_req_parse_buf c)"
    "\<forall>f. f \<noteq> origin_fd c \<longrightarrow> written_to f (pf_trace p) = written_to f (pf_trace (px_os w))"
    using write_conserves [OF c(3) r(1)] by blast
  let ?w = "set_client a (c\<lparr>post_req_parse_buf := b\<rparr>) (with_metrics (metric_add_transfered_bytes (of_int n)) (w\<lparr>px_os := p\<rparr>))"
  obtain s' where s': "set_interest (client_fd c) OP_READ (s, ?w) = Some (s', ?w)" "sel_wf s'"
    "registered s' = with_interest (client_fd c) OP_READ (registered s)" "same_rest s s'"
    using set_interest_any client_okD(1,3) [OF ok] by blast
  have "remote_write tab (client_key fd a) (s, w) = Some (s', ?w)"
    using ok c r b(1) s'(1)
    by (simp add: remote_write_def client_ok_def can_read_iff write_client_eq count_transfered_eq upd_client_def)
  moreover have "client_ok s' ?w a (c\<lparr>post_req_parse_buf := b\<rparr>)" using s' by (intro client_ok_with [OF ok]) simp_all
  ultimately show ?thesis using b s'(3,4)
    by (intro exI [of _ s'] exI [of _ ?w] exI [of _ b]) (simp add: moved_def with_metrics_def set_client_def)
qed



lemma remote_write_fails:
  assumes ok: "client_ok s w a c" and c: "cl_state c = SEND_REQ" "origin_fd c \<noteq> - 1" "buf_inv (post_req_parse_buf c)"
    "pending (post_req_parse_buf c) \<noteq> []" and r: "sys_write (origin_fd c) (pending (post_req_parse_buf c)) (px_os w) = (- 1, p)"
  shows "\<exists>s' w'. remote_write (handlers_of strerror tab) (client_key fd a) (s, w) = Some (s', w') \<and> client_ok s' w' a (c\<lparr>origin_fd := - 1\<rparr>)
    \<and> px_clients w' = (px_clients w)(a \<mapsto> c\<lparr>origin_fd := - 1\<rparr>)
    \<and> moved (origin_fd c) (post_req_parse_buf c) (post_req_parse_buf c) w w'
    \<and> registered s' = (with_interest (client_fd c) OP_WRITE (registered s))(origin_fd c := None)"
proof -
  let ?w = "w\<lparr>px_os := p\<rparr>" and ?c = "c\<lparr>origin_fd := - 1\<rparr>"
  let ?w' = "set_client a ?c (close_fd (origin_fd c) ?w)"
  obtain s1 where s1: "set_interest (client_fd c) OP_WRITE (s, ?w) = Some (s1, ?w)" "sel_wf s1"
    "registered s1 = with_interest (client_fd c) OP_WRITE (registered s)"
    using set_interest_any client_okD(1,3) [OF ok] by blast
  obtain i where i: "registered s1 (origin_fd c) = Some (Remote_handlers, i, Some (Client_ptr a))"
    using ok c(2) s1(3) by (auto simp: client_ok_def with_interest_apply)
  have a: "px_clients ?w a = Some c" using client_okD(2) [OF ok] by simp
  obtain s' where s': "unregister (handlers_of strerror tab) (origin_fd c) (s1, ?w) = Some (s', ?w')" "sel_wf s'"
      "registered s' = (registered s1)(origin_fd c := None)"
    using unregister_origin [OF s1(2) a i] by blast
  have "remote_write (handlers_of strerror tab) (client_key fd a) (s, w) = Some (s', ?w')"
    using c r s1(1) s'(1) client_okD(2) [OF ok] by (simp add: remote_write_def can_read_iff write_client_eq)
  moreover have "client_ok s' ?w' a ?c" using ok s' s1(3) client_okD(5) [OF ok] by (auto simp: client_ok_def with_interest_apply)
  moreover have "pf_trace p = pf_trace (px_os w)" using sys_write_cases [OF r] by auto
  ultimately show ?thesis using s'(3) s1(3) by (intro exI [of _ s'] exI [of _ ?w']) (simp add: moved_def)
qed

lemma remote_write_done:
  assumes ok: "client_ok s w a c" and c: "cl_state c = SEND_REQ" "origin_fd c \<noteq> - 1" "buf_inv (post_req_parse_buf c)"
    "pending (post_req_parse_buf c) = []"
  defines "c' \<equiv> if request_complete c then c\<lparr>cl_state := READ_RESP\<rparr> else c"
  shows "\<exists>s' w'. remote_write tab (client_key fd a) (s, w) = Some (s', w') \<and> client_ok s' w' a c'
    \<and> px_clients w' = (px_clients w)(a \<mapsto> c') \<and> px_os w' = px_os w
    \<and> registered s' = with_interest (origin_fd c) (if request_complete c then OP_READ else OP_NOOP) (registered s)
    \<and> same_rest s s' \<and> ad_queue (px_admin w') = ad_queue (px_admin w)"
proof -
  let ?i = "if request_complete c then OP_READ else OP_NOOP" and ?w' = "if request_complete c then set_client a c' w else w"
  obtain s' where s': "set_interest (origin_fd c) ?i (s, w) = Some (s', w)" "sel_wf s'"
    "registered s' = with_interest (origin_fd c) ?i (registered s)" "same_rest s s'"
    using set_interest_any client_okD(1,4) [OF ok] c(2) by blast
  have "remote_write tab (client_key fd a) (s, w) = Some (s', ?w')"
    using c s'(1) client_okD(2) [OF ok] by (cases "request_complete c") (simp_all add: remote_write_def can_read_iff upd_client_def c'_def)
  moreover have "client_ok s' ?w' a c'"
    using s' client_okD(2) [OF ok] by (intro client_ok_with [OF ok]) (simp_all add: c'_def)
  ultimately show ?thesis using s'(3,4) client_okD(2) [OF ok]
    by (intro exI [of _ s'] exI [of _ ?w']) (auto simp: c'_def set_client_def)
qed

text \<open>C11
  What the handler that sends a request does, on every branch: it returns; no byte of the request is lost or
  doubled, however much the system takes, and no other descriptor is written to; after a write the client
  is read from again; after an error the origin is closed; when nothing is left, the origin is read from
  if the request was complete and left alone if not.\<close>

theorem remote_write_forwards:
  assumes "client_ok s w a c" "cl_state c = SEND_REQ" "origin_fd c \<noteq> - 1" "buf_inv (post_req_parse_buf c)"
  shows "\<exists>s' w' c'. remote_write (handlers_of strerror tab) (client_key fd a) (s, w) = Some (s', w') \<and> client_ok s' w' a c'
    \<and> px_clients w' = (px_clients w)(a \<mapsto> c') \<and> moved (origin_fd c) (post_req_parse_buf c) (post_req_parse_buf c') w w'
    \<and> (c', registered s') =
        (if pending (post_req_parse_buf c) \<noteq> []
         then (if fst (sys_write (origin_fd c) (pending (post_req_parse_buf c)) (px_os w)) = - 1
               then (c\<lparr>origin_fd := - 1\<rparr>, (with_interest (client_fd c) OP_WRITE (registered s))(origin_fd c := None))
               else (c\<lparr>post_req_parse_buf := post_req_parse_buf c'\<rparr>, with_interest (client_fd c) OP_READ (registered s)))
         else if request_complete c then (c\<lparr>cl_state := READ_RESP\<rparr>, with_interest (origin_fd c) OP_READ (registered s))
         else (c, with_interest (origin_fd c) OP_NOOP (registered s)))"
proof (cases "pending (post_req_parse_buf c) = []")
  case True
  then show ?thesis using remote_write_done [OF assms True, of "handlers_of strerror tab" fd]
    by (fastforce simp: moved_def)
next
  case False
  obtain n p where r: "sys_write (origin_fd c) (pending (post_req_parse_buf c)) (px_os w) = (n, p)" by fastforce
  show ?thesis
  proof (cases "n = - 1")
    case True
    with remote_write_fails [OF assms False, of p strerror tab fd] r False show ?thesis by fastforce
  next
    case f: False
    then show ?thesis using remote_write_sends [OF assms False r f, of "handlers_of strerror tab" fd] r False by fastforce
  qed
qed


theorem remote_write_forwards_witness:
  "\<exists>s' w' c'. remote_write (handlers_of (\<lambda>_. []) (\<lambda>_ _. None)) (client_key 4 0) (demo_selector OP_NOOP (Some OP_WRITE), demo_proxy 2 [] sending_client)
      = Some (s', w') \<and> client_ok s' w' 0 c' \<and> px_clients w' = (px_clients (demo_proxy 2 [] sending_client))(0 \<mapsto> c')
    \<and> moved (origin_fd sending_client) (post_req_parse_buf sending_client) (post_req_parse_buf c') (demo_proxy 2 [] sending_client) w'
    \<and> (c', registered s') = (sending_client\<lparr>post_req_parse_buf := post_req_parse_buf c'\<rparr>,
        with_interest (client_fd sending_client) OP_READ (registered (demo_selector OP_NOOP (Some OP_WRITE))))"
  using remote_write_forwards [OF sending_ok [of OP_NOOP OP_WRITE 2 "[]"], of "\<lambda>_. []" "\<lambda>_ _. None" 4]
  by (simp add: sending_client_def demo_client_def sys_write_def Let_def)

text \<open>From now on each write takes at least a byte.\<close>

definition writes_progress :: "proxy \<Rightarrow> bool" where
  "writes_progress w \<longleftrightarrow> (\<forall>k \<ge> pf_count (px_os w). pf_results (px_os w) k \<ge> 1)"

lemma sys_write_progress:
  assumes "\<forall>k \<ge> pf_count p. pf_results p k \<ge> 1" "xs \<noteq> []"
  shows "\<exists>n. sys_write fd xs p = (int n, (pf_next p)\<lparr>pf_trace := pf_trace p @ [Written fd (take n xs)]\<rparr>) \<and> 1 \<le> n \<and> n \<le> length xs"
proof -
  have "pf_results p (pf_count p) \<ge> 1" using assms(1) by blast
  then show ?thesis using assms(2) by (cases xs) (auto simp: sys_write_def Let_def)
qed

lemma remote_write_idle: "px_clients w a = Some c \<Longrightarrow> cl_state c = READ_RESP \<Longrightarrow> steps (\<lambda>_ :: nat. remote_write tab (client_key fd a)) is (s, w) = Some (s, w)"
  by (induction "is") (simp_all add: remote_write_def)

text \<open>The handler \<open>h\<close> of client \<open>a\<close>, called once for each of the rounds in which the selector finds its descriptor ready.\<close>

definition rounds :: "(ptr selector_key \<Rightarrow> st \<Rightarrow> st option) \<Rightarrow> ptr selector_key \<Rightarrow> nat \<Rightarrow> st \<Rightarrow> st option" where
  "rounds h k n st = steps (\<lambda>_. h k) [0..<n] st"

lemma steps_const: "steps (\<lambda>_. f) is x = steps (\<lambda>_. f) js x" if "length is = length js"
  using that
proof (induction "is" arbitrary: js x)
  case (Cons i is')
  then obtain j js' where "js = j # js'" by (cases js) auto
  with Cons show ?case by (cases "f x") auto
qed simp

lemma rounds_simps [simp]: "rounds h k 0 st = Some st" "rounds h k (Suc n) st = Option.bind (h k st) (rounds h k n)"
proof -
  have "steps (\<lambda>_. h k) [Suc 0..<Suc n] x = steps (\<lambda>_. h k) [0..<n] x" for x by (rule steps_const) simp
  then show "rounds h k (Suc n) st = Option.bind (h k st) (rounds h k n)"
    by (cases "h k st") (simp_all add: rounds_def upt_conv_Cons del: upt_Suc)
qed (simp add: rounds_def)

lemma request_sent_rounds:
  assumes "client_ok s w a c" "cl_state c = SEND_REQ" "origin_fd c \<noteq> - 1" "buf_inv (post_req_parse_buf c)" "request_complete c"
    "writes_progress w" "length (pending (post_req_parse_buf c)) < n"
  shows "\<exists>s' w' c'. rounds (remote_write tab) (client_key fd a) n (s, w) = Some (s', w') \<and> client_ok s' w' a c'
    \<and> cl_state c' = READ_RESP \<and> pending (post_req_parse_buf c') = [] \<and> origin_fd c' = origin_fd c
    \<and> moved (origin_fd c) (post_req_parse_buf c) (post_req_parse_buf c') w w'
    \<and> (\<exists>h d. registered s' (origin_fd c) = Some (h, OP_READ, d))"
  using assms
proof (induction n arbitrary: s w c)
  case (Suc n)
  show ?case
  proof (cases "pending (post_req_parse_buf c) = []")
    case True
    obtain s' w' where r: "remote_write tab (client_key fd a) (s, w) = Some (s', w')" "client_ok s' w' a (c\<lparr>cl_state := READ_RESP\<rparr>)"
      "px_clients w' = (px_clients w)(a \<mapsto> c\<lparr>cl_state := READ_RESP\<rparr>)" "px_os w' = px_os w"
      "registered s' = with_interest (origin_fd c) OP_READ (registered s)"
      using remote_write_done [OF Suc.prems(1-4) True, of tab fd] Suc.prems(5) by auto
    have "rounds (remote_write tab) (client_key fd a) n (s', w') = Some (s', w')"
      using remote_write_idle [of w' a "c\<lparr>cl_state := READ_RESP\<rparr>" tab fd "[0..<n]" s'] r(3) by (simp add: rounds_def)
    then show ?thesis using r True Suc.prems(1,3)
      by (intro exI [of _ s'] exI [of _ w'] exI [of _ "c\<lparr>cl_state := READ_RESP\<rparr>"])
        (auto simp: moved_def client_ok_def with_interest_apply)
  next
    case False
    obtain k where k: "sys_write (origin_fd c) (pending (post_req_parse_buf c)) (px_os w) = (int k, (pf_next (px_os w))\<lparr>pf_trace :=
          pf_trace (px_os w) @ [Written (origin_fd c) (take k (pending (post_req_parse_buf c)))]\<rparr>)" "1 \<le> k"
        "k \<le> length (pending (post_req_parse_buf c))"
      using sys_write_progress [OF Suc.prems(6) [unfolded writes_progress_def] False, of "origin_fd c"] by blast
    obtain s1 w1 b where r: "remote_write tab (client_key fd a) (s, w) = Some (s1, w1)" "client_ok s1 w1 a (c\<lparr>post_req_parse_buf := b\<rparr>)"
      "buf_inv b" "moved (origin_fd c) (post_req_parse_buf c) b w w1" and os: "px_os w1 = (pf_next (px_os w))\<lparr>pf_trace :=
          pf_trace (px_os w) @ [Written (origin_fd c) (take k (pending (post_req_parse_buf c)))]\<rparr>"
      using remote_write_sends [OF Suc.prems(1-4) False k(1), of tab fd] by auto
    have "length (pending b) = length (pending (post_req_parse_buf c)) - k"
      using arg_cong [OF conjunct1 [OF r(4) [unfolded moved_def]], of length] os k(3) by simp
    then have len: "length (pending b) < n" using k(2,3) Suc.prems(7) by simp
    have "writes_progress w1" using Suc.prems(6) os by (simp add: writes_progress_def pf_next_def)
    then obtain s' w' c' where "rounds (remote_write tab) (client_key fd a) n (s1, w1) = Some (s', w')" "client_ok s' w' a c'"
      "cl_state c' = READ_RESP" "pending (post_req_parse_buf c') = []" "origin_fd c' = origin_fd c"
      "moved (origin_fd c) b (post_req_parse_buf c') w1 w'" "\<exists>h d. registered s' (origin_fd c) = Some (h, OP_READ, d)"
      using Suc.IH [OF r(2)] Suc.prems(2,3,5) r(3) len by auto
    then show ?thesis using r(1,4) by (auto simp: moved_def)
  qed
qed simp

text \<open>
  A complete request gets out: if every write takes at least one byte, then after as many rounds as there
  are bytes and one more the origin has got them all, in order and nothing else, and the client is waiting
  for the response, with the origin read from; further rounds change nothing.\<close>

theorem request_sent:
  assumes "client_ok s w a c" "cl_state c = SEND_REQ" "origin_fd c \<noteq> - 1" "buf_inv (post_req_parse_buf c)" "request_complete c"
    "writes_progress w" "length (pending (post_req_parse_buf c)) < n"
  shows "\<exists>s' w' c'. rounds (remote_write tab) (client_key fd a) n (s, w) = Some (s', w') \<and> px_clients w' a = Some c'
    \<and> cl_state c' = READ_RESP \<and> pending (post_req_parse_buf c') = [] \<and> (\<exists>h d. registered s' (origin_fd c) = Some (h, OP_READ, d))
    \<and> written_to (origin_fd c) (pf_trace (px_os w')) = written_to (origin_fd c) (pf_trace (px_os w)) @ pending (post_req_parse_buf c)"
  using request_sent_rounds [OF assms, of tab fd] client_okD(2) by (fastforce simp: moved_def)

theorem request_sent_witness:
  "\<exists>s' w' c'. rounds (remote_write (handlers_of (\<lambda>_. []) (\<lambda>_ _. None))) (client_key 4 0) 7
      (demo_selector OP_NOOP (Some OP_WRITE), demo_proxy 2 [] sending_client) = Some (s', w') \<and> px_clients w' 0 = Some c'
    \<and> cl_state c' = READ_RESP \<and> pending (post_req_parse_buf c') = []
    \<and> (\<exists>h d. registered s' (origin_fd sending_client) = Some (h, OP_READ, d))
    \<and> written_to (origin_fd sending_client) (pf_trace (px_os w')) = written_to (origin_fd sending_client)
        (pf_trace (px_os (demo_proxy 2 [] sending_client))) @ pending (post_req_parse_buf sending_client)"
  by (rule request_sent [OF sending_ok]) (simp_all add: sending_client_def demo_client_def writes_progress_def)

section \<open>Sending the response\<close>

text \<open>
  What is left when client \<open>a\<close> has been closed: neither its descriptor nor its origin's is registered, its
  buffers are freed and the metrics have been told; its origin is closed twice.
\<close>

definition client_closed :: "nat \<Rightarrow> client \<Rightarrow> st \<Rightarrow> st \<Rightarrow> bool" where
  "client_closed a c st st' \<longleftrightarrow> sel_wf (fst st') \<and> same_rest (fst st) (fst st')
     \<and> ad_queue (px_admin (snd st')) = ad_queue (px_admin (snd st))
     \<and> registered (fst st') = (if origin_fd c = - 1 then registered (fst st) else (registered (fst st))(origin_fd c := None))(client_fd c := None)
     \<and> (\<exists>ct now. px_clients (snd st') = (px_clients (snd st))(a \<mapsto> freed (c\<lparr>connection_time := Some ct\<rparr>))
         \<and> metric_close_connection (connection_time c) now (ad_metrics (px_admin (snd st))) = Some (ct, ad_metrics (px_admin (snd st'))))
     \<and> pf_trace (px_os (snd st')) = pf_trace (px_os (snd st)) @ closing_trace c"

lemma unregister_closes:
  assumes "client_ok s w a c"
  shows "\<exists>st'. unregister (handlers_of strerror (handlers_of strerror tab)) (client_fd c) (s, w) = Some st' \<and> client_closed a c (s, w) st'"
proof -
  obtain s' w' ct now where "unregister (handlers_of strerror (handlers_of strerror tab)) (client_fd c) (s, w) = Some (s', w')" "sel_wf s'"
    "same_rest s s'" "ad_queue (px_admin w') = ad_queue (px_admin w)"
    "registered s' = (if origin_fd c = - 1 then registered s else (registered s)(origin_fd c := None))(client_fd c := None)"
    "px_clients w' = (px_clients w)(a \<mapsto> freed (c\<lparr>connection_time := Some ct\<rparr>))"
    "metric_close_connection (connection_time c) now (ad_metrics (px_admin w)) = Some (ct, ad_metrics (px_admin w'))"
    "pf_trace (px_os w') = pf_trace (px_os w) @ closing_trace c"
    using unregister_client [OF assms, of strerror tab] by blast
  then show ?thesis by (intro exI [of _ "(s', w')"]) (auto simp: client_closed_def)
qed

text \<open>Where the response of the client comes from, and whether all of it has come.\<close>

definition source_fd :: "client \<Rightarrow> int" where
  "source_fd c = (if shouldTransform c then transf_out_fd c else origin_fd c)"

lemma client_write_sends:
  assumes ok: "client_ok s w a c" and c: "cl_state c = READ_RESP" "buf_inv (post_res_parse_buf c)" "pending (post_res_parse_buf c) \<noteq> []"
    "registered s (source_fd c) \<noteq> None \<or> source_fd c = - 1"
    and r: "sys_write (client_fd c) (pending (post_res_parse_buf c)) (px_os w) = (n, p)" "n \<noteq> - 1"
  shows "\<exists>s' w' b. client_write tab (client_key fd a) (s, w) = Some (s', w') \<and> client_ok s' w' a (c\<lparr>post_res_parse_buf := b\<rparr>)
    \<and> px_clients w' = (px_clients w)(a \<mapsto> c\<lparr>post_res_parse_buf := b\<rparr>) \<and> buf_inv b
    \<and> moved (client_fd c) (post_res_parse_buf c) b w w' \<and> px_os w' = p
    \<and> registered s' = with_interest (source_fd c) OP_READ (registered s)
    \<and> ad_metrics (px_admin w') = metric_add_transfered_bytes (of_int n) (ad_metrics (px_admin w))
    \<and> same_rest s s' \<and> ad_queue (px_admin w') = ad_queue (px_admin w)"
proof -
  obtain b where b: "buffer_read_adv (post_res_parse_buf c) n = Some b" "buf_inv b"
    "written_to (client_fd c) (pf_trace p) @ pending b = written_to (client_fd c) (pf_trace (px_os w)) @ pending (post_res_parse_buf c)"
    "\<forall>f. f \<noteq> client_fd c \<longrightarrow> written_to f (pf_trace p) = written_to f (pf_trace (px_os w))"
    using write_conserves [OF c(2) r(1)] by blast
  let ?w = "set_client a (c\<lparr>post_res_parse_buf := b\<rparr>) (with_metrics (metric_add_transfered_bytes (of_int n)) (w\<lparr>px_os := p\<rparr>))"
  have "registered s (source_fd c) \<noteq> None \<or> INVALID_FD (source_fd c)" using c(4) by (auto simp: INVALID_FD_def)
  then obtain s' where s': "set_interest (source_fd c) OP_READ (s, ?w) = Some (s', ?w)" "sel_wf s'"
    "registered s' = with_interest (source_fd c) OP_READ (registered s)" "same_rest s s'"
    using set_interest_any client_okD(1) [OF ok] by blast
  have "client_write tab (client_key fd a) (s, w) = Some (s', ?w)"
    using c r b(1) s'(1) client_okD(2) [OF ok]
    by (cases "shouldTransform c")
      (simp_all add: client_write_def source_fd_def can_read_iff write_client_eq count_transfered_eq upd_client_def)
  moreover have "client_ok s' ?w a (c\<lparr>post_res_parse_buf := b\<rparr>)" using s' by (intro client_ok_with [OF ok]) simp_all
  ultimately show ?thesis using b s'(3,4)
    by (intro exI [of _ s'] exI [of _ ?w] exI [of _ b]) (simp add: moved_def with_metrics_def set_client_def)
qed

lemma client_write_closes:
  assumes ok: "client_ok s w a c" and c: "cl_state c = READ_RESP" "buf_inv (post_res_parse_buf c)"
    and e: "if pending (post_res_parse_buf c) = [] then source_fd c = - 1
      else fst (sys_write (client_fd c) (pending (post_res_parse_buf c)) (px_os w)) = - 1"
  shows "\<exists>st'. client_write (handlers_of strerror (handlers_of strerror tab)) (client_key fd a) (s, w) = Some st' \<and> client_closed a c (s, w) st'"
proof (cases "pending (post_res_parse_buf c) = []")
  case True
  then show ?thesis using e c unregister_closes [OF ok, of strerror tab] client_okD(2) [OF ok]
    by (auto simp: client_write_def can_read_iff source_fd_def split: if_splits)
next
  case False
  then obtain p where p: "sys_write (client_fd c) (pending (post_res_parse_buf c)) (px_os w) = (- 1, p)"
    using e by (cases "sys_write (client_fd c) (pending (post_res_parse_buf c)) (px_os w)") simp
  have "client_ok s (w\<lparr>px_os := p\<rparr>) a c" using ok by (simp add: client_ok_def)
  from unregister_closes [OF this, of strerror tab] obtain st' where
    "unregister (handlers_of strerror (handlers_of strerror tab)) (client_fd c) (s, w\<lparr>px_os := p\<rparr>) = Some st'"
    "client_closed a c (s, w\<lparr>px_os := p\<rparr>) st'" by blast
  moreover have "pf_trace p = pf_trace (px_os w)" using sys_write_cases [OF p] by auto
  ultimately show ?thesis using p False c client_okD(2) [OF ok]
    by (simp add: client_write_def can_read_iff write_client_eq client_closed_def)
qed

text \<open>C12
  What the handler that sends a response does, on every branch: it returns; without an error it loses and
  doubles no byte of the response, writes to no other descriptor, counts what it wrote and reads on from
  where the response comes from; after an error, and when nothing is left and nothing more can come, the
  client is closed; when nothing is left now, nothing is done.\<close>

theorem client_write_delivers:
  assumes "client_ok s w a c" "cl_state c = READ_RESP" "buf_inv (post_res_parse_buf c)"
    "registered s (source_fd c) \<noteq> None \<or> source_fd c = - 1"
    "sys_write (client_fd c) (pending (post_res_parse_buf c)) (px_os w) = (n, p)"
  shows "\<exists>s' w'. client_write (handlers_of strerror (handlers_of strerror tab)) (client_key fd a) (s, w) = Some (s', w')
    \<and> (if pending (post_res_parse_buf c) = [] then if source_fd c = - 1 then client_closed a c (s, w) (s', w') else (s', w') = (s, w)
       else if n = - 1 then client_closed a c (s, w) (s', w')
       else \<exists>b. client_ok s' w' a (c\<lparr>post_res_parse_buf := b\<rparr>) \<and> px_clients w' = (px_clients w)(a \<mapsto> c\<lparr>post_res_parse_buf := b\<rparr>)
         \<and> moved (client_fd c) (post_res_parse_buf c) b w w' \<and> registered s' = with_interest (source_fd c) OP_READ (registered s)
         \<and> ad_metrics (px_admin w') = metric_add_transfered_bytes (of_int n) (ad_metrics (px_admin w)))"
proof -
  let ?closes = "if pending (post_res_parse_buf c) = [] then source_fd c = - 1 else n = - 1"
  consider ?closes | "pending (post_res_parse_buf c) = []" "source_fd c \<noteq> - 1" | "pending (post_res_parse_buf c) \<noteq> []" "n \<noteq> - 1"
    by (cases "pending (post_res_parse_buf c) = []"; simp) blast+
  then show ?thesis
  proof cases
    case 1
    then show ?thesis using client_write_closes [OF assms(1-3), of strerror tab fd] assms(5) by (auto split: if_splits)
  next
    case 2
    then show ?thesis using assms(2,3) client_okD(2) [OF assms(1)]
      by (auto simp: client_write_def can_read_iff source_fd_def split: if_splits)
  next
    case 3
    then show ?thesis using client_write_sends [OF assms(1-3) 3(1) assms(4,5) 3(2), of "handlers_of strerror (handlers_of strerror tab)" fd]
      by fastforce
  qed
qed

theorem client_write_delivers_witness:
  "\<exists>s' w'. client_write (handlers_of (\<lambda>_. []) (handlers_of (\<lambda>_. []) (\<lambda>_ _. None))) (client_key 3 0)
      (demo_selector OP_WRITE None, demo_proxy 3 [] served_client) = Some (s', w')
    \<and> (\<exists>b. client_ok s' w' 0 (served_client\<lparr>post_res_parse_buf := b\<rparr>)
         \<and> moved (client_fd served_client) (post_res_parse_buf served_client) b (demo_proxy 3 [] served_client) w')"
proof -
  have r: "sys_write (client_fd served_client) (pending (post_res_parse_buf served_client)) (px_os (demo_proxy 3 [] served_client)) =
      (3, (pf_next (px_os (demo_proxy 3 [] served_client)))\<lparr>pf_trace := [Written 3 (str ''HTT'')]\<rparr>)"
    by (simp add: sys_write_def Let_def served_client_def demo_client_def)
  show ?thesis
    using client_write_delivers [OF served_ok [of OP_WRITE 3 "[]"] _ _ _ r, of "\<lambda>_. []" "\<lambda>_ _. None" 3]
    by (fastforce simp: served_client_def demo_client_def source_fd_def)
qed

lemma response_delivered_rounds:
  assumes "client_ok s w a c" "cl_state c = READ_RESP" "source_fd c = - 1" "buf_inv (post_res_parse_buf c)" "writes_progress w"
  shows "\<exists>n st' c0 w0 s0. n \<le> Suc (length (pending (post_res_parse_buf c)))
    \<and> rounds (client_write (handlers_of strerror (handlers_of strerror tab))) (client_key fd a) n (s, w) = Some st'
    \<and> client_closed a c0 (s0, w0) st' \<and> client_fd c0 = client_fd c \<and> origin_fd c0 = origin_fd c
    \<and> written_to (client_fd c) (pf_trace (px_os w0)) = written_to (client_fd c) (pf_trace (px_os w)) @ pending (post_res_parse_buf c)"
  using assms
proof (induction "length (pending (post_res_parse_buf c))" arbitrary: s w c rule: less_induct)
  case less
  let ?h = "client_write (handlers_of strerror (handlers_of strerror tab))"
  show ?case
  proof (cases "pending (post_res_parse_buf c) = []")
    case True
    then obtain st' where "?h (client_key fd a) (s, w) = Some st'" "client_closed a c (s, w) st'"
      using client_write_closes [OF less.prems(1,2,4), of strerror tab fd] less.prems(3) by auto
    then show ?thesis using True by (intro exI [of _ 1] exI [of _ st'] exI [of _ c] exI [of _ w] exI [of _ s]) simp
  next
    case False
    obtain k where k: "sys_write (client_fd c) (pending (post_res_parse_buf c)) (px_os w) = (int k, (pf_next (px_os w))\<lparr>pf_trace :=
          pf_trace (px_os w) @ [Written (client_fd c) (take k (pending (post_res_parse_buf c)))]\<rparr>)" "1 \<le> k"
        "k \<le> length (pending (post_res_parse_buf c))"
      using sys_write_progress [OF less.prems(5) [unfolded writes_progress_def] False, of "client_fd c"] by blast
    obtain s1 w1 b where r: "?h (client_key fd a) (s, w) = Some (s1, w1)" "client_ok s1 w1 a (c\<lparr>post_res_parse_buf := b\<rparr>)"
      "buf_inv b" "moved (client_fd c) (post_res_parse_buf c) b w w1" and os: "px_os w1 = (pf_next (px_os w))\<lparr>pf_trace :=
          pf_trace (px_os w) @ [Written (client_fd c) (take k (pending (post_res_parse_buf c)))]\<rparr>"
      using client_write_sends [OF less.prems(1,2,4) False _ k(1), of "handlers_of strerror (handlers_of strerror tab)" fd] less.prems(3) by auto
    have "length (pending b) = length (pending (post_res_parse_buf c)) - k"
      using arg_cong [OF conjunct1 [OF r(4) [unfolded moved_def]], of length] os k(3) by simp
    then have len: "length (pending b) < length (pending (post_res_parse_buf c))" using k(2,3) by simp
    have "writes_progress w1" "source_fd (c\<lparr>post_res_parse_buf := b\<rparr>) = - 1"
      using less.prems(3,5) os by (auto simp: writes_progress_def pf_next_def source_fd_def)
    then obtain n st' c0 w0 s0 where "n \<le> Suc (length (pending b))" "rounds ?h (client_key fd a) n (s1, w1) = Some st'"
      "client_closed a c0 (s0, w0) st'" "client_fd c0 = client_fd c" "origin_fd c0 = origin_fd c"
      "written_to (client_fd c) (pf_trace (px_os w0)) = written_to (client_fd c) (pf_trace (px_os w1)) @ pending b"
      using less.hyps [OF _ r(2)] less.prems(2) r(3) len by auto
    then show ?thesis using r(1,4) len
      by (intro exI [of _ "Suc n"] exI [of _ st'] exI [of _ c0] exI [of _ w0] exI [of _ s0]) (simp add: moved_def)
  qed
qed

text \<open>
  A response that has come in full gets out: if every write takes at least one byte, then after at most as
  many rounds as there are bytes and one more the client has got them all, in order, and its descriptor
  has been closed and is registered no more.\<close>

theorem response_delivered:
  assumes "client_ok s w a c" "cl_state c = READ_RESP" "source_fd c = - 1" "buf_inv (post_res_parse_buf c)" "writes_progress w"
  shows "\<exists>n s' w'. n \<le> Suc (length (pending (post_res_parse_buf c)))
    \<and> rounds (client_write (handlers_of strerror (handlers_of strerror tab))) (client_key fd a) n (s, w) = Some (s', w')
    \<and> written_to (client_fd c) (pf_trace (px_os w')) = written_to (client_fd c) (pf_trace (px_os w)) @ pending (post_res_parse_buf c)
    \<and> registered s' (client_fd c) = None \<and> Shut (client_fd c) \<in> set (pf_trace (px_os w'))"
proof -
  obtain n st' c0 w0 s0 where n: "n \<le> Suc (length (pending (post_res_parse_buf c)))"
    "rounds (client_write (handlers_of strerror (handlers_of strerror tab))) (client_key fd a) n (s, w) = Some st'"
    "client_closed a c0 (s0, w0) st'" "client_fd c0 = client_fd c"
    "written_to (client_fd c) (pf_trace (px_os w0)) = written_to (client_fd c) (pf_trace (px_os w)) @ pending (post_res_parse_buf c)"
    using response_delivered_rounds [OF assms, of strerror tab fd] by blast
  have "pf_trace (px_os (snd st')) = pf_trace (px_os w0) @ closing_trace c0" "registered (fst st') (client_fd c) = None"
    using n(3,4) by (auto simp: client_closed_def)
  then show ?thesis using n(1,2,4,5)
    by (intro exI [of _ n] exI [of _ "fst st'"] exI [of _ "snd st'"]) (simp add: closing_trace_def)
qed

theorem response_delivered_witness:
  "\<exists>n s' w'. n \<le> Suc (length (pending (post_res_parse_buf served_client)))
    \<and> rounds (client_write (handlers_of (\<lambda>_. []) (handlers_of (\<lambda>_. []) (\<lambda>_ _. None)))) (client_key 3 0) n
        (demo_selector OP_WRITE None, demo_proxy 3 [] served_client) = Some (s', w')
    \<and> written_to (client_fd served_client) (pf_trace (px_os w')) = written_to (client_fd served_client)
        (pf_trace (px_os (demo_proxy 3 [] served_client))) @ pending (post_res_parse_buf served_client)
    \<and> registered s' (client_fd served_client) = None \<and> Shut (client_fd served_client) \<in> set (pf_trace (px_os w'))"
  by (rule response_delivered [OF served_ok]) (simp_all add: served_client_def demo_client_def source_fd_def writes_progress_def)

section \<open>The host of a request\<close>

text \<open>C40
  What happens when the parser has found the host of a request, on every branch: it is logged, for which the log has room; the first
  host of a client is stored, with its port, and its resolution is started, unless it is longer than a name may be, which is
  an error of the client and starts none; after that the same host, compared in as many bytes as a name may have,
  and port let the request be sent, and any other is an error of the connection. Nothing else changes.\<close>

theorem client_set_host_outcomes:
  assumes "sel_wf s" "log_ready s w (length (resolving_line host))" "px_clients w a = Some c"
    "0 \<notin> set host" "no_host (cl_host c) \<or> (\<exists>h. h \<noteq> [] \<and> host_is (cl_host c) h)"
  shows "\<exists>s' l c'. client_set_host a host port (s, w) = Some (s',
      (set_client a c' (w\<lparr>px_log := l\<rparr>))\<lparr>px_lookups := px_lookups w @ (if no_host (cl_host c) \<and> length host \<le> MAX_DOMAIN_NAME_LENGTH then [a] else [])\<rparr>)
    \<and> host_outcome host port c c' \<and> sel_wf s' \<and> lg_writefd l = lg_writefd (px_log w)
    \<and> pending (logbuf l) = pending (logbuf (px_log w)) @ resolving_line host @ [0]
    \<and> registered s' = with_interest (lg_writefd (px_log w)) OP_WRITE (registered s)"
  using client_set_host_effect [OF assms, of port] by (fastforce simp: with_interest_def)

definition connected_client :: client where
  "connected_client = demo_client\<lparr>cl_host := demo_host (str ''ab'')\<rparr>"

lemma connected_host: "host_is (cl_host connected_client) (str ''ab'')" "\<not> no_host (cl_host connected_client)"
  by (simp_all add: host_is_def no_host_def connected_client_def demo_host_def MAX_DOMAIN_NAME_LENGTH_def strncpy_def)

theorem client_set_host_outcomes_witness:
  "\<exists>s' l c'. client_set_host 0 (str ''cd'') 80 (demo_selector OP_READ None, demo_proxy 1 [] connected_client) = Some (s',
      (set_client 0 c' ((demo_proxy 1 [] connected_client)\<lparr>px_log := l\<rparr>))\<lparr>px_lookups := []\<rparr>)
    \<and> host_outcome (str ''cd'') 80 connected_client c'"
proof -
  have "log_ready (demo_selector OP_READ None) (demo_proxy 1 [] connected_client) (length (resolving_line (str ''cd'')))"
    by (simp add: log_ready_def log_example_def resolving_line_def demo_registered buffer_init_def buf_inv_init_r init_r_view)
  from client_set_host_outcomes [OF demo_wf this, of 0 connected_client 80] connected_host show ?thesis
    by (fastforce simp: MAX_DOMAIN_NAME_LENGTH_def)
qed

end
