(* ===== verification/ClientRequests.thy ===== *)
theory ClientRequests
  imports ClientProperties
begin

unbundle bit_operations_syntax

text \<open>
  The way of a request through the handlers: what a client sends is parsed, its host is resolved, the origin is
  connected to, and what the parser made of the request is written to the origin.
\<close>

section \<open>The first request of a client\<close>

text \<open>A request line with an absolute URI for host \<open>h\<close> and port \<open>n\<close>, and all that follows the authority.\<close>

definition absolute_request :: "byte list \<Rightarrow> byte list \<Rightarrow> byte list \<Rightarrow> byte list \<Rightarrow> byte list \<Rightarrow> int \<Rightarrow> byte list \<Rightarrow> bool" where
  "absolute_request m sp sch h p n rest \<longleftrightarrow> m \<in> fst ` set supported \<and> set sp \<subseteq> {32, 9} \<and> same_text sch (str ''HTTP'') \<and> host_chars h
     \<and> port_text p n \<and> length h < HOST_MAX_SIZE \<and> rest \<noteq> [] \<and> ends_host (hd rest) \<and> 0 \<notin> set rest"

text \<open>What is forwarded: the spaces after the method have become one.\<close>

definition request_text :: "byte list \<Rightarrow> byte list \<Rightarrow> byte list \<Rightarrow> byte list \<Rightarrow> byte list \<Rightarrow> byte list" where
  "request_text m sch h p rest = m @ [32] @ sch @ str ''://'' @ h @ p @ rest"

text \<open>Client \<open>a\<close> has sent nothing yet, and the log has room for the line about the host.\<close>

definition expects_request :: "selector \<Rightarrow> proxy \<Rightarrow> nat \<Rightarrow> client \<Rightarrow> byte list \<Rightarrow> bool" where
  "expects_request s w a c h \<longleftrightarrow> client_ok s w a c \<and> cl_state c = NO_ORIGIN \<and> origin_fd c = - 1
     \<and> (\<exists>r. req_data c = defaultRequestStruct r) \<and> no_host (cl_host c)
     \<and> buf_inv (pre_req_parse_buf c) \<and> pending (pre_req_parse_buf c) = [] \<and> resv (pre_req_parse_buf c) = 0
     \<and> buf_inv (post_req_parse_buf c) \<and> log_ready s w (length (resolving_line (map tolower h)))"

lemma set_client_again [simp]: "set_client a c (set_client a c' w) = set_client a c w"
  by (simp add: set_client_def)

lemma set_client_rest [simp]: "px_lookups (set_client a c w) = px_lookups w" "px_realloc (set_client a c w) = px_realloc w"
  by (simp_all add: set_client_def)

lemma intake:
  assumes "px_clients w a = Some c" "buf_inv (pre_req_parse_buf c)" "pf_reads (px_os w) (pf_count (px_os w)) = Some xs"
    "length xs \<le> room (pre_req_parse_buf c)"
  shows "\<exists>st1. read_client pre_req_parse_buf put_pre_req a (s, w) = Some (int (length xs), st1) \<and> px_clients (snd st1) a \<noteq> None
    \<and> adv_pre_req a (int (length xs)) st1 =
        Some (s, set_client a (c\<lparr>pre_req_parse_buf := pushes (pre_req_parse_buf c) xs\<rparr>) (w\<lparr>px_os := pf_next (px_os w)\<rparr>))"
proof -
  obtain b where "read_into (pre_req_parse_buf c) (px_os w) = Some (int (length xs), b, pf_next (px_os w))"
    "buffer_write_adv b (int (length xs)) = Some (pushes (pre_req_parse_buf c) xs)"
    using read_into_some [OF assms(2,3)] assms(4) by auto
  then show ?thesis using assms(1)
    by (simp add: read_client_def adv_pre_req_def upd_client_def put_pre_req_def set_client_def)
qed

text \<open>The first line reaches \<open>client_set_host\<close>, and all that follows the authority is copied.\<close>

lemma parse_absolute:
  assumes "px_clients w a = Some c" "buf_inv (pre_req_parse_buf c)" "buf_inv (post_req_parse_buf c)" "resv (pre_req_parse_buf c) = 0"
    "req_data c = defaultRequestStruct r" "pending (pre_req_parse_buf c) = m @ sp @ sch @ str ''://'' @ h @ p @ rest"
    "absolute_request m sp sch h p n rest"
    and set_host: "\<And>d bi bo. \<exists>s' w' c'. client_set_host a (map tolower h) n
        (s, set_client a (c\<lparr>req_data := d, pre_req_parse_buf := bi, post_req_parse_buf := bo\<rparr>) w) = Some (s', set_client a c' w')
      \<and> req_data c' = d \<and> pre_req_parse_buf c' = bi \<and> post_req_parse_buf c' = bo \<and> P s' w' c'"
  shows "\<exists>s' w' c' bi. parse_request a (s, w) = Some (s', set_client a (c'\<lparr>request_complete := True\<rparr>) w')
    \<and> drain_request a (s', set_client a (c'\<lparr>request_complete := True\<rparr>) w') = Some (s', set_client a (c'\<lparr>request_complete := True,
        pre_req_parse_buf := bi, post_req_parse_buf := pushes (post_req_parse_buf c) (request_text m sch h p rest)\<rparr>) w')
    \<and> P s' w' c' \<and> rq_state (req_data c') = OK \<and> rq_parserState (req_data c') = FINISHED \<and> pending bi = []"
proof -
  obtain x ys where rest: "rest = x # ys" using assms(7) by (cases rest) (auto simp: absolute_request_def)
  obtain ty where ty: "(m, ty) \<in> set supported" using assms(7) by (auto simp: absolute_request_def)
  obtain d bi bo where run: "checkRequest (req_data c) (pre_req_parse_buf c) (post_req_parse_buf c) = Some (True, d, bi, bo, [(map tolower h, n)])"
    "rq_state d = OK" "rq_parserState d = FINISHED" "pending bi = rest" "buf_inv bi" "resv bi = 0"
    "bo = pushes (post_req_parse_buf c) (m @ [32] @ sch @ str ''://'' @ h @ p)"
    using checkRequest_absolute_uri_run [OF assms(2,3,4) assms(6) [unfolded rest] ty, of n r] assms(5,7) rest
    by (auto simp: absolute_request_def)
  obtain s' w' c' where host: "client_set_host a (map tolower h) n
        (s, set_client a (c\<lparr>req_data := d, pre_req_parse_buf := bi, post_req_parse_buf := bo\<rparr>) w) = Some (s', set_client a c' w')"
      "req_data c' = d" "pre_req_parse_buf c' = bi" "post_req_parse_buf c' = bo" "P s' w' c'"
    using set_host by blast
  have bo: "buf_inv bo" using run(7) assms(3) by simp
  have "0 \<notin> set rest" using assms(7) by (simp add: absolute_request_def)
  then have tw: "takeWhile (\<lambda>c. c \<noteq> 0) rest = rest" by (intro takeWhile_eq_all_conv [THEN iffD2]) auto
  have "copied (length rest) bi = rest" using \<open>0 \<notin> set rest\<close> run(4,6) copied_prefix [of bi rest "[]"] by simp
  then have "c_loop drain_body (bi, bo) = Some (advs (length rest) bi, pushes bo rest)"
    using drain_eq [OF run(5) bo] run(4) tw by (simp add: Let_def copies_def)
  then show ?thesis
    using assms(1,3) run host bo
    by (intro exI [of _ s'] exI [of _ w'] exI [of _ c'] exI [of _ "advs (length rest) bi"])
      (simp add: parse_request_def drain_request_def upd_client_def pushes_append [symmetric] buf_view request_text_def)
qed

text \<open>What \<open>client_set_host\<close> does for the first request.\<close>

lemma set_first_host:
  assumes "sel_wf s" "log_ready s w (length (resolving_line host))" "px_clients w a = Some c" "no_host (cl_host c)"
    "0 \<notin> set host" "length host \<le> MAX_DOMAIN_NAME_LENGTH"
  shows "\<exists>s' w' fqdn. client_set_host a host port (s, w) = Some (s', set_client a (c\<lparr>cl_host := (cl_host c)\<lparr>hd_fqdn := fqdn, hd_port := port\<rparr>\<rparr>) w')
    \<and> host_is ((cl_host c)\<lparr>hd_fqdn := fqdn, hd_port := port\<rparr>) host \<and> sel_wf s' \<and> same_rest s s'
    \<and> registered s' = with_interest (lg_writefd (px_log w)) OP_WRITE (registered s)
    \<and> px_os w' = px_os w \<and> px_clients w' = px_clients w \<and> px_lookups w' = px_lookups w @ [a] \<and> px_realloc w' = px_realloc w
    \<and> px_admin w' = px_admin w \<and> lg_writefd (px_log w') = lg_writefd (px_log w)
    \<and> pending (logbuf (px_log w')) = pending (logbuf (px_log w)) @ resolving_line host @ [0]"
proof -
  obtain s' l c' where r: "client_set_host a host port (s, w) = Some (s',
      (set_client a c' (w\<lparr>px_log := l\<rparr>))\<lparr>px_lookups := px_lookups w @ [a]\<rparr>)" "host_outcome host port c c'" "sel_wf s'" "same_rest s s'"
    "lg_writefd l = lg_writefd (px_log w)" "pending (logbuf l) = pending (logbuf (px_log w)) @ resolving_line host @ [0]"
    "\<exists>h j d. registered s (lg_writefd (px_log w)) = Some (h, j, d) \<and> registered s' = (registered s)(lg_writefd (px_log w) \<mapsto> (h, OP_WRITE, d))"
    using client_set_host_effect [OF assms(1-3,5), of port] assms(4,6) by auto
  obtain fqdn where "c' = c\<lparr>cl_host := (cl_host c)\<lparr>hd_fqdn := fqdn, hd_port := port\<rparr>\<rparr>" "host_is (cl_host c') host"
    using r(2) assms(4,6) by (auto simp: host_outcome_def)
  with r show ?thesis
    by (intro exI [of _ s'] exI [of _ "w\<lparr>px_log := l, px_lookups := px_lookups w @ [a]\<rparr>"] exI [of _ fqdn])
      (auto simp: set_client_def with_interest_def)
qed

text \<open>The state after the first request: everything else is as it was.\<close>

definition same_response :: "client \<Rightarrow> client \<Rightarrow> bool" where
  "same_response c c' \<longleftrightarrow> res_data c' = res_data c \<and> pre_res_parse_buf c' = pre_res_parse_buf c
     \<and> post_res_parse_buf c' = post_res_parse_buf c \<and> shouldTransform c' = shouldTransform c"

definition request_taken :: "nat \<Rightarrow> client \<Rightarrow> byte list \<Rightarrow> int \<Rightarrow> byte list \<Rightarrow> st \<Rightarrow> st \<Rightarrow> bool" where
  "request_taken a c h n req st st' \<longleftrightarrow> same_rest (fst st) (fst st')
     \<and> registered (fst st') = with_interest (lg_writefd (px_log (snd st))) OP_WRITE (registered (fst st))
     \<and> px_os (snd st') = pf_next (px_os (snd st)) \<and> px_lookups (snd st') = px_lookups (snd st) @ [a] \<and> px_realloc (snd st') = px_realloc (snd st)
     \<and> px_admin (snd st') = px_admin (snd st)
     \<and> pending (logbuf (px_log (snd st'))) = pending (logbuf (px_log (snd st))) @ resolving_line (map tolower h) @ [0]
     \<and> (\<exists>c'. client_ok (fst st') (snd st') a c' \<and> px_clients (snd st') = (px_clients (snd st))(a \<mapsto> c')
         \<and> same_response c c' \<and> cl_state c' = NO_ORIGIN \<and> request_complete c' \<and> rq_parserState (req_data c') = FINISHED
         \<and> client_fd c' = client_fd c \<and> origin_fd c' = - 1 \<and> hd_port (cl_host c') = n \<and> host_is (cl_host c') (map tolower h)
         \<and> pending (pre_req_parse_buf c') = [] \<and> post_req_parse_buf c' = pushes (post_req_parse_buf c) req)"

lemma client_read_first:
  assumes e: "expects_request s w a c h" and q: "absolute_request m sp sch h p n rest"
    and x: "pf_reads (px_os w) (pf_count (px_os w)) = Some (m @ sp @ sch @ str ''://'' @ h @ p @ rest)"
    and l: "length (m @ sp @ sch @ str ''://'' @ h @ p @ rest) \<le> room (pre_req_parse_buf c)"
  shows "\<exists>st'. client_read tab (client_key fd a) (s, w) = Some st' \<and> request_taken a c h n (request_text m sch h p rest) (s, w) st'"
proof -
  let ?x = "m @ sp @ sch @ str ''://'' @ h @ p @ rest" and ?w = "w\<lparr>px_os := pf_next (px_os w)\<rparr>"
  let ?c = "c\<lparr>pre_req_parse_buf := pushes (pre_req_parse_buf c) ?x\<rparr>"
  have ok: "client_ok s w a c" "px_clients w a = Some c" "sel_wf s" and c: "cl_state c = NO_ORIGIN" "no_host (cl_host c)"
    "buf_inv (pre_req_parse_buf c)" "pending (pre_req_parse_buf c) = []" "resv (pre_req_parse_buf c) = 0" "buf_inv (post_req_parse_buf c)"
    "log_ready s w (length (resolving_line (map tolower h)))" "origin_fd c = - 1"
    using e client_okD(1,2) by (auto simp: expects_request_def)
  obtain r where rq: "req_data c = defaultRequestStruct r" using e by (auto simp: expects_request_def)
  obtain st1 where st1: "read_client pre_req_parse_buf put_pre_req a (s, w) = Some (int (length ?x), st1)" "px_clients (snd st1) a \<noteq> None"
      "adv_pre_req a (int (length ?x)) st1 = Some (s, set_client a ?c ?w)"
    using intake [OF ok(2) c(3) x l] by blast
  have h: "0 \<notin> set (map tolower h)" "length (map tolower h) \<le> MAX_DOMAIN_NAME_LENGTH"
    using q host_text_nul_free [of h] by (auto simp: absolute_request_def HOST_MAX_SIZE_def MAX_DOMAIN_NAME_LENGTH_def)
  have pend: "pending (pre_req_parse_buf ?c) = ?x" using pending_pushes [OF c(3)] take_all [OF l] c(4) by simp
  let ?P = "\<lambda>s' w' c'. sel_wf s' \<and> same_rest s s' \<and> registered s' = with_interest (lg_writefd (px_log w)) OP_WRITE (registered s)
    \<and> px_os w' = pf_next (px_os w) \<and> (\<forall>v. (px_clients w')(a \<mapsto> v) = (px_clients w)(a \<mapsto> v)) \<and> px_lookups w' = px_lookups w @ [a]
    \<and> px_realloc w' = px_realloc w \<and> px_admin w' = px_admin w \<and> pending (logbuf (px_log w')) = pending (logbuf (px_log w)) @ resolving_line (map tolower h) @ [0]
    \<and> same_response c c' \<and> cl_state c' = NO_ORIGIN \<and> client_fd c' = client_fd c \<and> origin_fd c' = - 1 \<and> connection_time c' = connection_time c
    \<and> hd_port (cl_host c') = n \<and> host_is (cl_host c') (map tolower h)"
  have set_host: "\<exists>s' w' c'. client_set_host a (map tolower h) n
        (s, set_client a (?c\<lparr>req_data := d, pre_req_parse_buf := bi, post_req_parse_buf := bo\<rparr>) (set_client a ?c ?w)) = Some (s', set_client a c' w')
      \<and> req_data c' = d \<and> pre_req_parse_buf c' = bi \<and> post_req_parse_buf c' = bo \<and> ?P s' w' c'" for d bi bo
    using set_first_host [OF ok(3), of "set_client a (?c\<lparr>req_data := d, pre_req_parse_buf := bi, post_req_parse_buf := bo\<rparr>) ?w"
        "map tolower h" a "?c\<lparr>req_data := d, pre_req_parse_buf := bi, post_req_parse_buf := bo\<rparr>" n] c h
    by (fastforce simp: log_ready_def set_client_def same_response_def)
  obtain s' w' c' bi where r: "parse_request a (s, set_client a ?c ?w) = Some (s', set_client a (c'\<lparr>request_complete := True\<rparr>) w')"
    "drain_request a (s', set_client a (c'\<lparr>request_complete := True\<rparr>) w') = Some (s', set_client a (c'\<lparr>request_complete := True,
        pre_req_parse_buf := bi, post_req_parse_buf := pushes (post_req_parse_buf ?c) (request_text m sch h p rest)\<rparr>) w')"
    "?P s' w' c'" "rq_state (req_data c') = OK" "rq_parserState (req_data c') = FINISHED" "pending bi = []"
    using parse_absolute [of "set_client a ?c ?w" a ?c r m sp sch h p rest n s ?P, OF _ _ _ _ _ pend q set_host] c rq
    by (auto simp: buf_view)
  let ?st = "(s', set_client a (c'\<lparr>request_complete := True,
        pre_req_parse_buf := bi, post_req_parse_buf := pushes (post_req_parse_buf c) (request_text m sch h p rest)\<rparr>) w')"
  have "rq_parserState (req_data ?c) \<noteq> FINISHED" using rq by (simp add: defaultRequestStruct_def)
  moreover have "buffer_can_write (pre_req_parse_buf c)" using l by (auto simp: buffer_can_write_def room_def)
  ultimately have "client_read tab (client_key fd a) (s, w) = Some ?st"
    using ok(2) c(1) st1 r(1,2,4) by (auto simp: client_read_def client_read_no_origin_def)
  moreover have "request_taken a c h n (request_text m sch h p rest) (s, w) ?st"
    using r(3,5,6) ok(1) client_okD(5) [OF ok(1)] c(8) by (auto simp: request_taken_def client_ok_def with_interest_apply same_response_def)
  ultimately show ?thesis by blast
qed

section \<open>The connection to the origin\<close>

text \<open>The calls of \<open>client_block\<close> get the socket \<open>org\<close> and a connection in progress.\<close>

definition connects :: "platform \<Rightarrow> int \<Rightarrow> bool" where
  "connects p org \<longleftrightarrow> pf_results p (pf_count p) = org
     \<and> pf_results p (pf_count p + (if pf_results p (pf_count p + 1) = - 1 then 2 else 3)) = EINPROGRESS"

definition with_origin :: "int \<Rightarrow> addrinfo \<Rightarrow> client \<Rightarrow> client" where
  "with_origin org res c = c\<lparr>cl_state := SEND_REQ, origin_fd := org,
     cl_host := (cl_host c)\<lparr>hd_resolved := Some (set_port (hd_port (cl_host c)) res)\<rparr>\<rparr>"

lemma set_nio_view:
  "px_clients (snd (set_nio w)) = px_clients w" "px_admin (snd (set_nio w)) = px_admin w" "px_log (snd (set_nio w)) = px_log w"
  "px_realloc (snd (set_nio w)) = px_realloc w" "px_lookups (snd (set_nio w)) = px_lookups w"
  "pf_trace (px_os (snd (set_nio w))) = pf_trace (px_os w)" "pf_results (px_os (snd (set_nio w))) = pf_results (px_os w)"
  "pf_count (px_os (snd (set_nio w))) = pf_count (px_os w) + (if pf_results (px_os w) (pf_count (px_os w)) = - 1 then 1 else 2)"
  by (simp_all add: set_nio_def os_call_def sys_call_def Let_def pf_next_def split: prod.split)

lemma os_call_view:
  "fst (os_call w) = pf_results (px_os w) (pf_count (px_os w))" "px_realloc (snd (os_call w)) = px_realloc w" "px_admin (snd (os_call w)) = px_admin w"
  "pf_results (px_os (snd (os_call w))) = pf_results (px_os w)" "pf_count (px_os (snd (os_call w))) = pf_count (px_os w) + 1"
  by (simp_all add: os_call_def sys_call_def Let_def pf_next_def)

lemma register_st:
  assumes "sel_wf s" "0 \<le> fd" "fd < int (fd_size s)" "fd < int FD_SETSIZE" "registered s fd = None"
  shows "\<exists>s'. register fd h i d (s, w) = Some (SELECTOR_SUCCESS, s', w\<lparr>px_os := pf_next (px_os w)\<rparr>) \<and> sel_wf s'
    \<and> registered s' = (registered s)(fd \<mapsto> (h, i, Some d)) \<and> same_rest s s'"
  using register_room [OF assms, of "px_realloc w (pf_count (px_os w))" h i "Some d"] by (auto simp: register_def)

lemma client_connects:
  assumes ok: "client_ok s w a c" and c: "origin_fd c = - 1" "hd_resolved (cl_host c) = Some res"
    and o: "connects (px_os w) org" "0 \<le> org" "org < int (fd_size s)" "org < int FD_SETSIZE" "registered s org = None"
  shows "\<exists>s' w'. client_block strerror tab (client_key (client_fd c) a) (s, w) = Some (s', w') \<and> client_ok s' w' a (with_origin org res c)
    \<and> registered s' = (with_interest (client_fd c) OP_NOOP (registered s))(org \<mapsto> (Remote_handlers, OP_WRITE, Some (Client_ptr a)))
    \<and> pf_trace (px_os w') = pf_trace (px_os w) \<and> pf_results (px_os w') = pf_results (px_os w)
    \<and> pf_count (px_os w') \<ge> pf_count (px_os w) + 4 \<and> same_rest s s' \<and> px_admin w' = px_admin w"
proof -
  let ?c = "with_origin org res c"
  define w1 where "w1 = snd (os_call w)"
  define w2 where "w2 = snd (set_nio w1)"
  define w3 where "w3 = snd (os_call w2)"
  note view = set_nio_view os_call_view w1_def w2_def w3_def
  obtain r where r: "set_nio w1 = (r, w2)" by (cases "set_nio w1") (simp add: w2_def)
  have "fst (os_call w) = org" "fst (os_call w2) = EINPROGRESS"
    using o(1) by (simp_all add: w1_def w2_def set_nio_view os_call_view connects_def numeral_eq_Suc split: if_splits)
  then have calls: "os_call w = (org, w1)" "os_call w2 = (EINPROGRESS, w3)" by (simp_all add: w1_def w3_def prod_eq_iff)
  let ?w = "set_client a ?c w3"
  obtain k where "client_fd c = int k" "k < FD_SETSIZE" using registered_index [OF client_okD(1) [OF ok] client_okD(3) [OF ok]] by blast
  then have i: "registered s (client_fd c) \<noteq> None" "\<not> INVALID_FD (client_fd c)"
    using client_okD(3) [OF ok] by (simp_all add: INVALID_FD_def sizes)
  obtain s4 where s4: "set_interest (client_fd c) OP_NOOP (s, ?w) = Some (s4, ?w)" "sel_wf s4"
    "registered s4 = with_interest (client_fd c) OP_NOOP (registered s)" "same_rest s s4"
    using set_interest_any [OF client_okD(1) [OF ok]] i by blast
  have ss: "selector_set_interest_key (Some (client_key (client_fd c) a)) OP_NOOP s = Some (SELECTOR_SUCCESS, s4)"
  proof -
    obtain j where "registered s (client_fd c) = Some (Client_handlers, j, Some (Client_ptr a))" using ok by (auto simp: client_ok_def)
    from set_registered [OF client_okD(1) [OF ok] this, of OP_NOOP] s4(1) i(2) show ?thesis
      by (auto simp: selector_set_interest_key_def set_interest_def)
  qed
  have free: "registered s4 org = None" "org < int (fd_size s4)" using o s4(3,4) by (auto simp: same_rest_def with_interest_apply)
  obtain s5 where s5: "register org Remote_handlers OP_WRITE (Client_ptr a) (s4, ?w) = Some (SELECTOR_SUCCESS, s5, ?w\<lparr>px_os := pf_next (px_os ?w)\<rparr>)"
    "sel_wf s5" "registered s5 = (registered s4)(org \<mapsto> (Remote_handlers, OP_WRITE, Some (Client_ptr a)))" "same_rest s4 s5"
    using register_st [OF s4(2) o(2) free(2) o(4) free(1)] by blast
  have "client_block strerror tab (client_key (client_fd c) a) (s, w) = Some (s5, ?w\<lparr>px_os := pf_next (px_os ?w)\<rparr>)"
    using client_okD(2) [OF ok] c o(2) r calls ss s5(1) by (simp add: client_block_def with_origin_def EINPROGRESS_def Let_def)
  moreover have "client_ok s5 (?w\<lparr>px_os := pf_next (px_os ?w)\<rparr>) a ?c"
    using ok s5(2,3) s4(3) o(2,5) i by (auto simp: client_ok_def with_interest_apply with_origin_def)
  ultimately show ?thesis using s5(3) s4(3) same_rest_trans [OF s4(4) s5(4)]
    by (intro exI [of _ s5] exI [of _ "?w\<lparr>px_os := pf_next (px_os ?w)\<rparr>"]) (simp add: view pf_next_def)
qed

lemma jobs_view [simp]:
  "sel_wf (s\<lparr>resolution_jobs := js\<rparr>) = sel_wf s" "sel_wf (s\<lparr>resolution_mutex := m\<rparr>) = sel_wf s"
  "registered (s\<lparr>resolution_jobs := js\<rparr>) = registered s" "registered (s\<lparr>resolution_mutex := m\<rparr>) = registered s"
  by (simp_all add: sel_wf_def registered_def fun_eq_iff)

lemma client_ok_jobs [simp]:
  "client_ok (s\<lparr>resolution_jobs := js\<rparr>) w a c = client_ok s w a c" "client_ok (s\<lparr>resolution_mutex := m\<rparr>) w a c = client_ok s w a c"
  by (simp_all add: client_ok_def)

lemma notification_runs:
  assumes "sel_wf s" "registered s fd = Some (h, i, d)" "tab h HANDLE_BLOCK = Some f"
  shows "notification_step tab fd (s, w) = f \<lparr>key_fd = fd, key_data = d\<rparr> (s, w)"
proof -
  obtain k where "fd = int k" "used (fds s) k" "fds s ! k = \<lparr>it_fd = fd, it_interest = i, it_handler = Some h, it_data = d\<rparr>"
    using registered_item [OF assms(1,2)] by blast
  then show ?thesis using assms(3) by (simp add: notification_step_def item_at_def call_handler_def used_def)
qed

lemma resolution_connects:
  assumes ok: "client_ok s w a c" and c: "origin_fd c = - 1" and j: "resolution_jobs s = []" "\<not> resolution_mutex s"
    and o: "connects (px_os w) org" "0 \<le> org" "org < int (fd_size s)" "org < int FD_SETSIZE" "registered s org = None"
  shows "\<exists>st2 s' w' c'. request_resolv_blocking a (Some res) True (s, w) = Some st2
    \<and> handle_block_notifications (handlers_of strerror tab) st2 = Some (s', w') \<and> client_ok s' w' a c'
    \<and> c' = with_origin org res c
    \<and> registered s' = (with_interest (client_fd c) OP_NOOP (registered s))(org \<mapsto> (Remote_handlers, OP_WRITE, Some (Client_ptr a)))
    \<and> resolution_jobs s' = [] \<and> pf_trace (px_os w') = pf_trace (px_os w) \<and> pf_results (px_os w') = pf_results (px_os w)
    \<and> pf_count (px_os w') \<ge> pf_count (px_os w) + 4"
proof -
  let ?c = "c\<lparr>cl_host := (cl_host c)\<lparr>hd_resolved := Some res\<rparr>\<rparr>"
  let ?w = "(set_client a ?c w)\<lparr>px_lookups := remove1 a (px_lookups w)\<rparr>" and ?s = "s\<lparr>resolution_jobs := [client_fd c], resolution_mutex := True\<rparr>"
  have r: "request_resolv_blocking a (Some res) True (s, w) = Some (s\<lparr>resolution_jobs := [client_fd c]\<rparr>, ?w)"
    using client_okD(2) [OF ok] j by (simp add: request_resolv_blocking_def upd_client_def selector_notify_block_def)
  have ok': "client_ok ?s ?w a ?c" using ok by (simp add: client_ok_def)
  have os: "px_os ?w = px_os w" by (simp add: set_client_def)
  obtain s1 w1 where b: "client_block strerror tab (client_key (client_fd ?c) a) (?s, ?w) = Some (s1, w1)" "client_ok s1 w1 a (with_origin org res ?c)"
    "registered s1 = (with_interest (client_fd ?c) OP_NOOP (registered ?s))(org \<mapsto> (Remote_handlers, OP_WRITE, Some (Client_ptr a)))"
    "pf_trace (px_os w1) = pf_trace (px_os ?w)" "pf_results (px_os w1) = pf_results (px_os ?w)" "pf_count (px_os w1) \<ge> pf_count (px_os ?w) + 4"
    using client_connects [OF ok', of res org strerror tab] c o os by auto
  obtain i where "registered ?s (client_fd c) = Some (Client_handlers, i, Some (Client_ptr a))" using ok by (auto simp: client_ok_def)
  from notification_runs [OF client_okD(1) [OF ok'] this, of "handlers_of strerror tab" "client_block strerror tab" ?w] b(1)
  have n: "notification_step (handlers_of strerror tab) (client_fd c) (?s, ?w) = Some (s1, w1)" by simp
  have "handle_block_notifications (handlers_of strerror tab) (s\<lparr>resolution_jobs := [client_fd c]\<rparr>, ?w) =
      Some (s1\<lparr>resolution_jobs := [], resolution_mutex := False\<rparr>, w1)"
    using n j by (simp add: handle_block_notifications_def)
  moreover have "with_origin org res ?c = with_origin org res c" by (simp add: with_origin_def)
  ultimately show ?thesis using r b os by (intro exI [of _ "(s\<lparr>resolution_jobs := [client_fd c]\<rparr>, ?w)"]
      exI [of _ "s1\<lparr>resolution_jobs := [], resolution_mutex := False\<rparr>"] exI [of _ w1] exI [of _ "with_origin org res c"]) simp
qed

section \<open>From the client to the origin\<close>

text \<open>
  A request for an absolute URI reaches its origin: the handler that reads it asks for the host of the URI to
  be resolved; when the resolution is notified, the client is connected to the origin; and when the origin
  takes at least a byte at a time, it gets, after as many rounds as there are bytes and one more, exactly
  the request, with one space after the method, and the client then waits for the response.\<close>

theorem request_reaches_origin:
  assumes e: "expects_request s w a c h" and q: "absolute_request m sp sch h p n rest"
    and x: "pf_reads (px_os w) (pf_count (px_os w)) = Some (m @ sp @ sch @ str ''://'' @ h @ p @ rest)"
    and l: "length (m @ sp @ sch @ str ''://'' @ h @ p @ rest) \<le> room (pre_req_parse_buf c)"
    and l': "length (request_text m sch h p rest) \<le> room (post_req_parse_buf c)" "pending (post_req_parse_buf c) = []"
    and j: "resolution_jobs s = []" "\<not> resolution_mutex s" and f: "\<forall>k \<ge> pf_count (px_os w) + 5. pf_results (px_os w) k \<ge> 1"
    and o: "connects (pf_next (px_os w)) org" "0 \<le> org" "org < int (fd_size s)" "org < int FD_SETSIZE" "registered s org = None"
    and k: "length (request_text m sch h p rest) < k"
  shows "\<exists>st1 c1 st2 st3 s4 w4 c4. client_read (handlers_of strerror tab) (client_key (client_fd c) a) (s, w) = Some st1
    \<and> px_lookups (snd st1) = px_lookups w @ [a] \<and> px_clients (snd st1) a = Some c1 \<and> host_is (cl_host c1) (map tolower h) \<and> hd_port (cl_host c1) = n
    \<and> request_resolv_blocking a (Some res) True st1 = Some st2
    \<and> handle_block_notifications (handlers_of strerror tab) st2 = Some st3
    \<and> rounds (remote_write (handlers_of strerror tab)) (client_key org a) k st3 = Some (s4, w4)
    \<and> px_clients w4 a = Some c4 \<and> cl_state c4 = READ_RESP
    \<and> written_to org (pf_trace (px_os w4)) = written_to org (pf_trace (px_os w)) @ request_text m sch h p rest"
proof -
  obtain s1 w1 where r1: "client_read (handlers_of strerror tab) (client_key (client_fd c) a) (s, w) = Some (s1, w1)"
    "request_taken a c h n (request_text m sch h p rest) (s, w) (s1, w1)"
    using client_read_first [OF e q x l, of "handlers_of strerror tab" "client_fd c"] by auto
  obtain c1 where c1: "client_ok s1 w1 a c1" "request_complete c1" "origin_fd c1 = - 1" "hd_port (cl_host c1) = n"
    "host_is (cl_host c1) (map tolower h)" "post_req_parse_buf c1 = pushes (post_req_parse_buf c) (request_text m sch h p rest)"
    using r1(2) by (auto simp: request_taken_def)
  have t1: "same_rest s s1" "registered s1 org = None" "px_os w1 = pf_next (px_os w)" "px_lookups w1 = px_lookups w @ [a]"
    using r1(2) o(5) by (auto simp: request_taken_def with_interest_apply)
  obtain st2 s3 w3 where r2: "request_resolv_blocking a (Some res) True (s1, w1) = Some st2"
    "handle_block_notifications (handlers_of strerror tab) st2 = Some (s3, w3)" "client_ok s3 w3 a (with_origin org res c1)"
    "pf_trace (px_os w3) = pf_trace (px_os w1)" "pf_results (px_os w3) = pf_results (px_os w1)" "pf_count (px_os w3) \<ge> pf_count (px_os w1) + 4"
    using resolution_connects [OF c1(1,3), of org res strerror tab] t1 j o by (auto simp: same_rest_def)
  let ?c = "with_origin org res c1"
  have post: "buf_inv (post_req_parse_buf c)" using e by (simp add: expects_request_def)
  have p: "buf_inv (post_req_parse_buf ?c)" "pending (post_req_parse_buf ?c) = request_text m sch h p rest"
    using c1(6) post l' by (simp_all add: with_origin_def pending_pushes)
  have c: "cl_state ?c = SEND_REQ" "origin_fd ?c = org" "request_complete ?c" "origin_fd ?c \<noteq> - 1" using c1(2) o(2) by (simp_all add: with_origin_def)
  have "writes_progress w3" using f r2(5,6) t1(3) by (auto simp: writes_progress_def pf_next_def)
  from request_sent_rounds [OF r2(3) c(1,4) p(1) c(3) this, of k "handlers_of strerror tab" org] k p(2) c(2)
  obtain s4 w4 c4 where r4: "rounds (remote_write (handlers_of strerror tab)) (client_key org a) k (s3, w3) = Some (s4, w4)"
    "client_ok s4 w4 a c4" "cl_state c4 = READ_RESP" "pending (post_req_parse_buf c4) = []"
    "moved org (post_req_parse_buf ?c) (post_req_parse_buf c4) w3 w4" by auto
  show ?thesis using r1(1) t1(3,4) client_okD(2) [OF c1(1)] c1(4,5) r2(1,2,4) r4 client_okD(2) [OF r4(2)] p(2)
    by (intro exI [of _ "(s1, w1)"] exI [of _ c1] exI [of _ st2] exI [of _ "(s3, w3)"] exI [of _ s4] exI [of _ w4] exI [of _ c4])
      (simp add: moved_def)
qed

definition asking_proxy :: proxy where
  "asking_proxy = (demo_proxy 1 (str ''GET http://ab/ HTTP/1.0'') demo_client)\<lparr>px_os := (px_os (demo_proxy 1 (str ''GET http://ab/ HTTP/1.0'') demo_client))
     \<lparr>pf_results := (\<lambda>k. if k = 1 then 5 else EINPROGRESS)\<rparr>\<rparr>"

lemma asking_view: "px_clients asking_proxy = px_clients (demo_proxy 1 (str ''GET http://ab/ HTTP/1.0'') demo_client)"
  "px_log asking_proxy = log_example\<lparr>lg_writefd := 0\<rparr>" "pf_count (px_os asking_proxy) = 0"
  "pf_reads (px_os asking_proxy) = (\<lambda>_. Some (str ''GET http://ab/ HTTP/1.0''))" "pf_results (px_os asking_proxy) = (\<lambda>k. if k = 1 then 5 else EINPROGRESS)"
  by (simp_all add: asking_proxy_def demo_proxy_def)

lemma asking_expects: "expects_request (demo_selector OP_READ None) asking_proxy 0 demo_client (str ''ab'')"
proof -
  have "client_ok (demo_selector OP_READ None) asking_proxy 0 demo_client"
    using demo_ok by (simp add: client_ok_def asking_view)
  moreover have "log_ready (demo_selector OP_READ None) asking_proxy (length (resolving_line (map tolower (str ''ab''))))"
    by (simp add: log_ready_def asking_view log_example_def resolving_line_def demo_registered buffer_init_def buf_inv_init_r init_r_view)
  moreover have "no_host (cl_host demo_client)"
    by (simp add: no_host_def demo_client_def demo_host_def strncpy_def MAX_DOMAIN_NAME_LENGTH_def nth_append)
  ultimately show ?thesis by (auto simp: expects_request_def demo_client_def)
qed

theorem request_reaches_origin_witness:
  "\<exists>st1 c1 st2 st3 s4 w4 c4. client_read (handlers_of (\<lambda>_. []) (\<lambda>_ _. None)) (client_key (client_fd demo_client) 0)
        (demo_selector OP_READ None, asking_proxy) = Some st1
    \<and> px_lookups (snd st1) = px_lookups asking_proxy @ [0] \<and> px_clients (snd st1) 0 = Some c1
    \<and> host_is (cl_host c1) (map tolower (str ''ab'')) \<and> hd_port (cl_host c1) = 80
    \<and> request_resolv_blocking 0 (Some \<lparr>ai_family = AF_INET, ai_port = 0\<rparr>) True st1 = Some st2
    \<and> handle_block_notifications (handlers_of (\<lambda>_. []) (\<lambda>_ _. None)) st2 = Some st3
    \<and> rounds (remote_write (handlers_of (\<lambda>_. []) (\<lambda>_ _. None))) (client_key 5 0) 30 st3 = Some (s4, w4)
    \<and> px_clients w4 0 = Some c4 \<and> cl_state c4 = READ_RESP
    \<and> written_to 5 (pf_trace (px_os w4)) = written_to 5 (pf_trace (px_os asking_proxy))
        @ request_text (str ''GET'') (str ''http'') (str ''ab'') [] (str ''/ HTTP/1.0'')"
proof (rule request_reaches_origin [OF asking_expects, where sp = "[32]"])
  show "absolute_request (str ''GET'') [32] (str ''http'') (str ''ab'') [] 80 (str ''/ HTTP/1.0'')"
    by (simp add: absolute_request_def supported_def same_text_def toupper_def is_host_char_def tolower_def isalpha_def port_text_def
        DEFAULT_PORT_def HOST_MAX_SIZE_def ends_host_def isdigit_def)
qed (simp_all add: asking_view demo_client_def request_text_def connects_def pf_next_def EINPROGRESS_def writes_progress_def
    demo_registered sizes, simp_all add: demo_selector_def zeroed_selector_def)

end
