(* ===== verification/ClientResponses.thy ===== *)
theory ClientResponses
  imports ClientRequests
begin

unbundle bit_operations_syntax

text \<open>
  The way of a response through the handlers: what the origin sends is parsed piece by piece, and what the
  parser lets through is written to the client.
\<close>

section \<open>A body of known length\<close>

text \<open>Client \<open>a\<close> has got the headers of its response; \<open>n\<close> bytes of the body are missing.\<close>

definition awaits_body :: "selector \<Rightarrow> proxy \<Rightarrow> nat \<Rightarrow> client \<Rightarrow> nat \<Rightarrow> bool" where
  "awaits_body s w a c n \<longleftrightarrow> client_ok s w a c \<and> cl_state c = READ_RESP \<and> origin_fd c \<noteq> - 1 \<and> \<not> shouldTransform c
     \<and> rs_parserState (res_data c) = BODY_NORMAL \<and> \<not> rs_isChunked (res_data c) \<and> rs_bodyLength (res_data c) = int n
     \<and> rs_state (res_data c) = RES_OK \<and> buf_inv (pre_res_parse_buf c) \<and> pending (pre_res_parse_buf c) = []
     \<and> resv (pre_res_parse_buf c) = 0 \<and> buf_inv (post_res_parse_buf c)"

lemma drained_room:
  assumes "buf_inv b" "pending b = []" "resv b = 0" "length xs \<le> room b"
  shows "buf_inv (advs (length xs) (pushes b xs))" "pending (advs (length xs) (pushes b xs)) = []"
    "resv (advs (length xs) (pushes b xs)) = 0" "room (advs (length xs) (pushes b xs)) = room b"
proof -
  let ?b = "advs (length xs) (pushes b xs)"
  have p: "pending (pushes b xs) = xs" using assms by (simp add: pending_pushes)
  then show i: "buf_inv ?b" "pending ?b = []" "resv ?b = 0" using assms by (simp_all add: buf_view)
  have "wr ?b = infLimit ?b" "wr b = infLimit b"
    using pending_Nil_rewound [OF i(1,2)] pending_Nil [OF i(1)] pending_Nil_rewound [OF assms(1,2)] pending_Nil [OF assms(1)] i(2) assms(2) by simp_all
  then show "room ?b = room b" by (simp add: room_def advs_fields pushes_fields)
qed

lemma read_response_eq:
  assumes "px_clients w a = Some c" "buf_inv (pre_res_parse_buf c)" "pf_reads (px_os w) (pf_count (px_os w)) = Some xs"
    "length xs \<le> room (pre_res_parse_buf c)"
  shows "\<exists>b. read_client pre_res_parse_buf put_pre_res a (s, w) =
      Some (int (length xs), s, set_client a (put_pre_res b c) (w\<lparr>px_os := pf_next (px_os w)\<rparr>))
    \<and> buffer_write_adv b (int (length xs)) = Some (pushes (pre_res_parse_buf c) xs)"
proof -
  obtain b where "read_into (pre_res_parse_buf c) (px_os w) = Some (int (length xs), b, pf_next (px_os w))"
    "buffer_write_adv b (int (length xs)) = Some (pushes (pre_res_parse_buf c) xs)"
    using read_into_some [OF assms(2,3)] assms(4) by auto
  then show ?thesis using assms(1) by (auto simp: read_client_def)
qed

text \<open>The parser's part of \<open>remote_read\<close>: a piece \<open>xs\<close> has come.\<close>

lemma piece_parsed:
  assumes "px_clients w a = Some c" "buf_inv (pre_res_parse_buf c)" "pf_reads (px_os w) (pf_count (px_os w)) = Some xs"
    "length xs \<le> room (pre_res_parse_buf c)"
    "checkResponse (res_data c) (pushes (pre_res_parse_buf c) xs) (post_res_parse_buf c) (pre_transf_buf c) = Some (r, d, bi, bo, pre_transf_buf c)"
  shows "\<exists>st1 c1 b. read_client pre_res_parse_buf put_pre_res a (s, w) = Some (int (length xs), st1)
    \<and> px_clients (snd st1) a = Some c1 \<and> buffer_write_adv (pre_res_parse_buf c1) (int (length xs)) = Some b
    \<and> Option.bind (upd_client a (put_pre_res b) st1) (parse_response a) = Some (s, set_client a (c\<lparr>res_data := d, pre_res_parse_buf := bi,
        post_res_parse_buf := bo\<rparr>) (w\<lparr>px_os := pf_next (px_os w)\<rparr>))"
proof -
  obtain b where b: "read_client pre_res_parse_buf put_pre_res a (s, w) =
      Some (int (length xs), s, set_client a (put_pre_res b c) (w\<lparr>px_os := pf_next (px_os w)\<rparr>))"
    "buffer_write_adv b (int (length xs)) = Some (pushes (pre_res_parse_buf c) xs)"
    using read_response_eq [OF assms(1-4)] by blast
  with assms(5) show ?thesis
    by (intro exI [of _ "(s, set_client a (put_pre_res b c) (w\<lparr>px_os := pf_next (px_os w)\<rparr>))"]
        exI [of _ "put_pre_res b c"] exI [of _ "pushes (pre_res_parse_buf c) xs"])
      (simp add: upd_client_def parse_response_def put_pre_res_def)
qed

lemma piece_goes_on:
  assumes ok: "client_ok s w a c" "cl_state c = READ_RESP" "\<not> shouldTransform c" "buf_inv (pre_res_parse_buf c)"
    and x: "pf_reads (px_os w) (pf_count (px_os w)) = Some xs" "xs \<noteq> []" "length xs \<le> room (pre_res_parse_buf c)"
    and d: "checkResponse (res_data c) (pushes (pre_res_parse_buf c) xs) (post_res_parse_buf c) (pre_transf_buf c) = Some (r, d, bi, bo, pre_transf_buf c)"
      "rs_state d = RES_OK" "rs_parserState d = BODY_NORMAL"
  shows "\<exists>s' w' c'. remote_read tab (client_key fd a) (s, w) = Some (s', w') \<and> client_ok s' w' a c'
    \<and> c' = c\<lparr>res_data := d, pre_res_parse_buf := bi, post_res_parse_buf := bo\<rparr> \<and> px_os w' = pf_next (px_os w)
    \<and> registered s' = with_interest (client_fd c) OP_WRITE (registered s) \<and> same_rest s s' \<and> ad_queue (px_admin w') = ad_queue (px_admin w)"
proof -
  let ?c = "c\<lparr>res_data := d, pre_res_parse_buf := bi, post_res_parse_buf := bo\<rparr>"
  let ?w = "set_client a ?c (w\<lparr>px_os := pf_next (px_os w)\<rparr>)"
  obtain st1 c1 b where p: "read_client pre_res_parse_buf put_pre_res a (s, w) = Some (int (length xs), st1)"
    "px_clients (snd st1) a = Some c1" "buffer_write_adv (pre_res_parse_buf c1) (int (length xs)) = Some b"
    "Option.bind (upd_client a (put_pre_res b) st1) (parse_response a) = Some (s, ?w)"
    using piece_parsed [OF client_okD(2) [OF ok(1)] ok(4) x(1,3) d(1)] by blast
  obtain s' where s': "set_interest (client_fd c) OP_WRITE (s, ?w) = Some (s', ?w)" "sel_wf s'"
    "registered s' = with_interest (client_fd c) OP_WRITE (registered s)" "same_rest s s'"
    using set_interest_any client_okD(1,3) [OF ok(1)] by blast
  obtain st2 where st2: "upd_client a (put_pre_res b) st1 = Some st2" "parse_response a st2 = Some (s, ?w)"
    using p(4) by (auto split: bind_splits)
  have "buffer_can_write (pre_res_parse_buf c)" using x(2,3) by (cases xs) (auto simp: buffer_can_write_def room_def)
  then have "remote_read tab (client_key fd a) (s, w) = Some (s', ?w)"
    using ok p(1-3) d(2,3) st2 s'(1) x(2) client_okD(2) [OF ok(1)] by (simp add: remote_read_def)
  moreover have "client_ok s' ?w a ?c" using s' by (intro client_ok_with [OF ok(1)]) simp_all
  ultimately show ?thesis using s'(3,4) by (intro exI [of _ s'] exI [of _ ?w] exI [of _ ?c]) (simp add: set_client_def)
qed

lemma piece_finishes:
  assumes ok: "client_ok s w a c" "cl_state c = READ_RESP" "\<not> shouldTransform c" "origin_fd c \<noteq> - 1" "buf_inv (pre_res_parse_buf c)"
    and x: "pf_reads (px_os w) (pf_count (px_os w)) = Some xs" "xs \<noteq> []" "length xs \<le> room (pre_res_parse_buf c)"
    and d: "checkResponse (res_data c) (pushes (pre_res_parse_buf c) xs) (post_res_parse_buf c) (pre_transf_buf c) = Some (r, d, bi, bo, pre_transf_buf c)"
      "rs_state d = RES_OK" "rs_parserState d = RES_FINISHED"
  shows "\<exists>s' w' c'. remote_read (handlers_of strerror tab) (client_key fd a) (s, w) = Some (s', w') \<and> client_ok s' w' a c'
    \<and> cl_state c' = READ_RESP \<and> rs_parserState (res_data c') = RES_FINISHED \<and> source_fd c' = - 1 \<and> client_fd c' = client_fd c
    \<and> post_res_parse_buf c' = bo
    \<and> registered s' = with_interest (client_fd c) OP_WRITE ((registered s)(origin_fd c := None))
    \<and> pf_trace (px_os w') = pf_trace (px_os w) @ [Shut (origin_fd c)] \<and> pf_results (px_os w') = pf_results (px_os w)
    \<and> pf_count (px_os w') = Suc (pf_count (px_os w)) \<and> same_rest s s' \<and> ad_queue (px_admin w') = ad_queue (px_admin w)
    \<and> origin_fd c' = - 1"
proof -
  let ?c = "c\<lparr>res_data := d, pre_res_parse_buf := bi, post_res_parse_buf := bo\<rparr>"
  let ?w = "set_client a ?c (w\<lparr>px_os := pf_next (px_os w)\<rparr>)"
  let ?c' = "?c\<lparr>origin_fd := - 1\<rparr>" and ?w' = "set_client a (?c\<lparr>origin_fd := - 1\<rparr>) (close_fd (origin_fd c) ?w)"
  obtain st1 c1 b where p: "read_client pre_res_parse_buf put_pre_res a (s, w) = Some (int (length xs), st1)"
    "px_clients (snd st1) a = Some c1" "buffer_write_adv (pre_res_parse_buf c1) (int (length xs)) = Some b"
    "Option.bind (upd_client a (put_pre_res b) st1) (parse_response a) = Some (s, ?w)"
    using piece_parsed [OF client_okD(2) [OF ok(1)] ok(5) x(1,3) d(1)] by blast
  obtain i where i: "registered s (origin_fd c) = Some (Remote_handlers, i, Some (Client_ptr a))" using ok(1,4) by (auto simp: client_ok_def)
  have "px_clients ?w a = Some ?c" by simp
  from unregister_origin [OF client_okD(1) [OF ok(1)] this i, of strerror tab]
  obtain s1 where s1: "unregister (handlers_of strerror tab) (origin_fd c) (s, ?w) = Some (s1, ?w')" "sel_wf s1"
    "registered s1 = (registered s)(origin_fd c := None)" "same_rest s s1" by auto
  have r1: "registered s1 (client_fd c) \<noteq> None" using ok(1) s1(3) by (auto simp: client_ok_def)
  obtain s2 where s2: "set_interest (client_fd c) OP_WRITE (s1, ?w') = Some (s2, ?w')" "sel_wf s2"
    "registered s2 = with_interest (client_fd c) OP_WRITE (registered s1)" "same_rest s1 s2"
    using set_interest_any [OF s1(2)] r1 by blast
  have r2: "registered s2 (client_fd c) \<noteq> None" using r1 s2(3) by (simp add: with_interest_apply)
  obtain s3 where s3: "set_interest (client_fd c) OP_WRITE (s2, ?w') = Some (s3, ?w')" "sel_wf s3"
    "registered s3 = with_interest (client_fd c) OP_WRITE (registered s2)" "same_rest s2 s3"
    using set_interest_any [OF s2(2) disjI1 [OF r2]] by blast
  obtain st2 where st2: "upd_client a (put_pre_res b) st1 = Some st2" "parse_response a st2 = Some (s, ?w)"
    using p(4) by (auto split: bind_splits)
  have "buffer_can_write (pre_res_parse_buf c)" using x(2,3) by (cases xs) (auto simp: buffer_can_write_def room_def)
  then have "remote_read (handlers_of strerror tab) (client_key fd a) (s, w) = Some (s3, ?w')"
    using ok p(1-3) d(2,3) st2 s1(1) s2(1) s3(1) x(2) client_okD(2) [OF ok(1)] by (simp add: remote_read_def)
  moreover have reg: "registered s3 = with_interest (client_fd c) OP_WRITE ((registered s)(origin_fd c := None))"
    using s1(3) s2(3) s3(3) by simp
  moreover have "client_ok s3 ?w' a ?c'" using ok(1) s3(2) reg client_okD(5) [OF ok(1)] by (auto simp: client_ok_def with_interest_apply)
  moreover have "same_rest s s3" using s1(4) s2(4) s3(4) by (blast intro: same_rest_trans)
  ultimately show ?thesis using ok(2,3) d(3)
    by (intro exI [of _ s3] exI [of _ ?w'] exI [of _ ?c']) (simp add: source_fd_def pf_next_def close_fd_def sys_close_def set_client_def)
qed

text \<open>The pieces of a body of known length.\<close>

lemma body_parsed:
  assumes e: "awaits_body s w a c n" and x: "length xs \<le> room (pre_res_parse_buf c)"
  shows "\<exists>d bi. checkResponse (res_data c) (pushes (pre_res_parse_buf c) xs) (post_res_parse_buf c) (pre_transf_buf c) =
      Some (n \<le> length xs, d, bi, pushes (post_res_parse_buf c) (take n xs), pre_transf_buf c)
    \<and> rs_state d = RES_OK \<and> rs_bodyLength d = int (n - length xs) \<and> \<not> rs_isChunked d
    \<and> rs_parserState d = (if n \<le> length xs then RES_FINISHED else BODY_NORMAL)
    \<and> (length xs \<le> n \<longrightarrow> buf_inv bi \<and> pending bi = [] \<and> resv bi = 0 \<and> room bi = room (pre_res_parse_buf c))"
proof -
  have c: "buf_inv (pre_res_parse_buf c)" "pending (pre_res_parse_buf c) = []" "resv (pre_res_parse_buf c) = 0"
    "buf_inv (post_res_parse_buf c)" "rs_parserState (res_data c) = BODY_NORMAL" "\<not> rs_isChunked (res_data c)"
    "rs_bodyLength (res_data c) = int n" "rs_state (res_data c) = RES_OK"
    using e by (auto simp: awaits_body_def)
  let ?p = "pushes (pre_res_parse_buf c) xs"
  have p: "buf_inv ?p" "pending ?p = xs" "resv ?p = 0" using c(1-3) x by (simp_all add: buf_view)
  obtain d where d: "checkResponse (res_data c) ?p (post_res_parse_buf c) (pre_transf_buf c) =
      Some (n \<le> length xs, d, advs (min n (length xs)) ?p, pushes (post_res_parse_buf c) (take n xs), pre_transf_buf c)"
    "rs_state d = RES_OK" "rs_bodyLength d = int (n - length xs)" "\<not> rs_isChunked d"
    "rs_parserState d = (if n \<le> length xs then RES_FINISHED else BODY_NORMAL)"
    using length_body_run [OF p(1) c(4) p(3) c(5-7), of "pre_transf_buf c"] p(2) c(6,8) by auto
  have "length xs \<le> n \<Longrightarrow> buf_inv (advs (min n (length xs)) ?p) \<and> pending (advs (min n (length xs)) ?p) = []
      \<and> resv (advs (min n (length xs)) ?p) = 0 \<and> room (advs (min n (length xs)) ?p) = room (pre_res_parse_buf c)"
    using drained_room [OF c(1-3) x] by (simp add: min_def)
  with d show ?thesis by blast
qed

lemma remote_read_more:
  assumes e: "awaits_body s w a c n" and x: "pf_reads (px_os w) (pf_count (px_os w)) = Some xs" "xs \<noteq> []"
    "length xs \<le> room (pre_res_parse_buf c)" "length xs < n"
  shows "\<exists>s' w' c'. remote_read tab (client_key fd a) (s, w) = Some (s', w') \<and> awaits_body s' w' a c' (n - length xs)
    \<and> room (pre_res_parse_buf c') = room (pre_res_parse_buf c) \<and> client_fd c' = client_fd c
    \<and> post_res_parse_buf c' = pushes (post_res_parse_buf c) xs \<and> px_os w' = pf_next (px_os w)
    \<and> registered s' = with_interest (client_fd c) OP_WRITE (registered s) \<and> origin_fd c' = origin_fd c
    \<and> same_rest s s' \<and> ad_queue (px_admin w') = ad_queue (px_admin w)"
proof -
  have ok: "client_ok s w a c" "cl_state c = READ_RESP" "\<not> shouldTransform c" "buf_inv (pre_res_parse_buf c)"
    using e by (simp_all add: awaits_body_def)
  obtain d bi where p: "checkResponse (res_data c) (pushes (pre_res_parse_buf c) xs) (post_res_parse_buf c) (pre_transf_buf c) =
      Some (False, d, bi, pushes (post_res_parse_buf c) xs, pre_transf_buf c)"
    "rs_state d = RES_OK" "rs_bodyLength d = int (n - length xs)" "\<not> rs_isChunked d" "rs_parserState d = BODY_NORMAL"
    "buf_inv bi" "pending bi = []" "resv bi = 0" "room bi = room (pre_res_parse_buf c)"
    using body_parsed [OF e x(3)] x(4) by auto
  from piece_goes_on [OF ok x(1-3) p(1,2,5), of tab fd] obtain s' w' where r: "remote_read tab (client_key fd a) (s, w) = Some (s', w')"
    "client_ok s' w' a (c\<lparr>res_data := d, pre_res_parse_buf := bi, post_res_parse_buf := pushes (post_res_parse_buf c) xs\<rparr>)"
    "px_os w' = pf_next (px_os w)" "registered s' = with_interest (client_fd c) OP_WRITE (registered s)" "same_rest s s'"
    "ad_queue (px_admin w') = ad_queue (px_admin w)" by blast
  moreover have "awaits_body s' w' a (c\<lparr>res_data := d, pre_res_parse_buf := bi, post_res_parse_buf := pushes (post_res_parse_buf c) xs\<rparr>) (n - length xs)"
    using e p r(2) by (simp add: awaits_body_def)
  ultimately show ?thesis using p(9)
    by (intro exI [of _ s'] exI [of _ w'] exI [of _ "c\<lparr>res_data := d, pre_res_parse_buf := bi, post_res_parse_buf := pushes (post_res_parse_buf c) xs\<rparr>"]) simp
qed

lemma remote_read_last:
  assumes e: "awaits_body s w a c n" and x: "pf_reads (px_os w) (pf_count (px_os w)) = Some xs" "xs \<noteq> []"
    "length xs \<le> room (pre_res_parse_buf c)" "n \<le> length xs"
  shows "\<exists>s' w' c'. remote_read (handlers_of strerror tab) (client_key fd a) (s, w) = Some (s', w') \<and> client_ok s' w' a c'
    \<and> cl_state c' = READ_RESP \<and> rs_parserState (res_data c') = RES_FINISHED \<and> source_fd c' = - 1 \<and> client_fd c' = client_fd c
    \<and> post_res_parse_buf c' = pushes (post_res_parse_buf c) (take n xs)
    \<and> registered s' = with_interest (client_fd c) OP_WRITE ((registered s)(origin_fd c := None))
    \<and> pf_trace (px_os w') = pf_trace (px_os w) @ [Shut (origin_fd c)] \<and> pf_results (px_os w') = pf_results (px_os w)
    \<and> pf_count (px_os w') = Suc (pf_count (px_os w)) \<and> same_rest s s' \<and> ad_queue (px_admin w') = ad_queue (px_admin w)
    \<and> origin_fd c' = - 1"
proof -
  have ok: "client_ok s w a c" "cl_state c = READ_RESP" "\<not> shouldTransform c" "origin_fd c \<noteq> - 1" "buf_inv (pre_res_parse_buf c)"
    using e by (simp_all add: awaits_body_def)
  obtain d bi where "checkResponse (res_data c) (pushes (pre_res_parse_buf c) xs) (post_res_parse_buf c) (pre_transf_buf c) =
      Some (True, d, bi, pushes (post_res_parse_buf c) (take n xs), pre_transf_buf c)" "rs_state d = RES_OK" "rs_parserState d = RES_FINISHED"
    using body_parsed [OF e x(3)] x(4) by auto
  from piece_finishes [OF ok x(1-3) this] show ?thesis .
qed

section \<open>From the origin to the client\<close>

lemma body_rounds:
  assumes "awaits_body s w a c n" "\<forall>i < length xss. pf_reads (px_os w) (pf_count (px_os w) + i) = Some (xss ! i)"
    "\<forall>xs \<in> set xss. xs \<noteq> [] \<and> length xs \<le> room (pre_res_parse_buf c)" "length (concat (butlast xss)) < n" "n \<le> length (concat xss)"
  shows "\<exists>s' w' c'. rounds (remote_read (handlers_of strerror tab)) (client_key fd a) (length xss) (s, w) = Some (s', w') \<and> client_ok s' w' a c'
    \<and> cl_state c' = READ_RESP \<and> rs_parserState (res_data c') = RES_FINISHED \<and> source_fd c' = - 1 \<and> client_fd c' = client_fd c
    \<and> post_res_parse_buf c' = pushes (post_res_parse_buf c) (take n (concat xss))
    \<and> (\<exists>h d. registered s' (client_fd c) = Some (h, OP_WRITE, d))
    \<and> (\<forall>f. written_to f (pf_trace (px_os w')) = written_to f (pf_trace (px_os w))) \<and> pf_results (px_os w') = pf_results (px_os w)
    \<and> pf_count (px_os w') = pf_count (px_os w) + length xss"
  using assms
proof (induction xss arbitrary: s w c n)
  case (Cons xs xss)
  have x: "pf_reads (px_os w) (pf_count (px_os w)) = Some xs" "xs \<noteq> []" "length xs \<le> room (pre_res_parse_buf c)"
    using Cons.prems(2) [rule_format, of 0] Cons.prems(3) by simp_all
  show ?case
  proof (cases "xss = []")
    case True
    have ok: "client_ok s w a c" using Cons.prems(1) by (simp add: awaits_body_def)
    then have "origin_fd c \<noteq> client_fd c" "registered s (client_fd c) \<noteq> None" by (auto simp: client_ok_def)
    then show ?thesis using remote_read_last [OF Cons.prems(1) x, of strerror tab fd] Cons.prems(5) True
      by (fastforce simp: with_interest_apply)
  next
    case False
    then have len: "length xs < n" using Cons.prems(4) by (auto simp: butlast_append)
    obtain s1 w1 c1 where r: "remote_read (handlers_of strerror tab) (client_key fd a) (s, w) = Some (s1, w1)" "awaits_body s1 w1 a c1 (n - length xs)"
      "room (pre_res_parse_buf c1) = room (pre_res_parse_buf c)" "client_fd c1 = client_fd c"
      "post_res_parse_buf c1 = pushes (post_res_parse_buf c) xs" "px_os w1 = pf_next (px_os w)"
      using remote_read_more [OF Cons.prems(1) x len, of "handlers_of strerror tab" fd] by blast
    have reads: "\<forall>i < length xss. pf_reads (px_os w1) (pf_count (px_os w1) + i) = Some (xss ! i)"
    proof (intro allI impI)
      fix i assume "i < length xss"
      then show "pf_reads (px_os w1) (pf_count (px_os w1) + i) = Some (xss ! i)"
        using Cons.prems(2) [rule_format, of "Suc i"] r(6) by (simp add: pf_next_def)
    qed
    have "length (concat (butlast xss)) < n - length xs" "n - length xs \<le> length (concat xss)"
      using Cons.prems(4,5) False len by auto
    then obtain s' w' c' where "rounds (remote_read (handlers_of strerror tab)) (client_key fd a) (length xss) (s1, w1) = Some (s', w')" "client_ok s' w' a c'"
      "cl_state c' = READ_RESP" "rs_parserState (res_data c') = RES_FINISHED" "source_fd c' = - 1" "client_fd c' = client_fd c"
      "post_res_parse_buf c' = pushes (pushes (post_res_parse_buf c) xs) (take (n - length xs) (concat xss))"
      "\<exists>h d. registered s' (client_fd c) = Some (h, OP_WRITE, d)"
      "\<forall>f. written_to f (pf_trace (px_os w')) = written_to f (pf_trace (px_os w))" "pf_results (px_os w') = pf_results (px_os w)"
      "pf_count (px_os w') = pf_count (px_os w) + length (xs # xss)"
      using Cons.IH [OF r(2) reads] Cons.prems(3) r(3-6) by (auto simp: pf_next_def)
    then show ?thesis using r(1) len
      by (intro exI [of _ s'] exI [of _ w'] exI [of _ c']) (simp add: pushes_append [symmetric])
  qed
qed simp

text \<open>
  The body of a response reaches the client: however the origin cuts it into pieces that fit, after as many
  rounds as there are pieces the parser has finished and the origin is closed; and when the client takes at
  least a byte at a time, it gets all that was waiting for it and exactly the announced number of bytes of
  the body, in order, and is then closed.\<close>

theorem response_reaches_client:
  assumes "awaits_body s w a c n" "\<forall>i < length xss. pf_reads (px_os w) (pf_count (px_os w) + i) = Some (xss ! i)"
    "\<forall>xs \<in> set xss. xs \<noteq> [] \<and> length xs \<le> room (pre_res_parse_buf c)" "length (concat (butlast xss)) < n" "n \<le> length (concat xss)"
    "n \<le> room (post_res_parse_buf c)" "\<forall>k \<ge> pf_count (px_os w) + length xss. pf_results (px_os w) k \<ge> 1"
  shows "\<exists>st1 k s2 w2. rounds (remote_read (handlers_of strerror tab)) (client_key (origin_fd c) a) (length xss) (s, w) = Some st1
    \<and> registered (fst st1) (client_fd c) \<noteq> None
    \<and> rounds (client_write (handlers_of strerror (handlers_of strerror tab))) (client_key (client_fd c) a) k st1 = Some (s2, w2)
    \<and> written_to (client_fd c) (pf_trace (px_os w2)) =
        written_to (client_fd c) (pf_trace (px_os w)) @ pending (post_res_parse_buf c) @ take n (concat xss)
    \<and> registered s2 (client_fd c) = None \<and> Shut (client_fd c) \<in> set (pf_trace (px_os w2))"
proof -
  obtain s1 w1 c1 where r1: "rounds (remote_read (handlers_of strerror tab)) (client_key (origin_fd c) a) (length xss) (s, w) = Some (s1, w1)"
    "client_ok s1 w1 a c1" "cl_state c1 = READ_RESP" "source_fd c1 = - 1" "client_fd c1 = client_fd c"
    "post_res_parse_buf c1 = pushes (post_res_parse_buf c) (take n (concat xss))" "registered s1 (client_fd c) \<noteq> None"
    "written_to (client_fd c) (pf_trace (px_os w1)) = written_to (client_fd c) (pf_trace (px_os w))" "pf_results (px_os w1) = pf_results (px_os w)"
    "pf_count (px_os w1) = pf_count (px_os w) + length xss"
    using body_rounds [OF assms(1-5), of strerror tab "origin_fd c"] by auto
  have post: "buf_inv (post_res_parse_buf c)" using assms(1) by (simp add: awaits_body_def)
  have p: "buf_inv (post_res_parse_buf c1)" "pending (post_res_parse_buf c1) = pending (post_res_parse_buf c) @ take n (concat xss)"
    using post r1(6) assms(6) by (simp_all add: pending_pushes)
  have "writes_progress w1" using assms(7) r1(9,10) by (simp add: writes_progress_def)
  from response_delivered_rounds [OF r1(2-4) p(1) this, of strerror tab "client_fd c"]
  obtain k st2 c0 w0 s0 where r2: "rounds (client_write (handlers_of strerror (handlers_of strerror tab))) (client_key (client_fd c) a) k (s1, w1) = Some st2"
    "client_closed a c0 (s0, w0) st2" "client_fd c0 = client_fd c"
    "written_to (client_fd c) (pf_trace (px_os w0)) = written_to (client_fd c) (pf_trace (px_os w1)) @ pending (post_res_parse_buf c1)"
    using r1(5) by auto
  have "pf_trace (px_os (snd st2)) = pf_trace (px_os w0) @ closing_trace c0" "registered (fst st2) (client_fd c) = None"
    using r2(2,3) by (auto simp: client_closed_def)
  then show ?thesis using r1(1,7,8) r2(1,3,4) p(2)
    by (intro exI [of _ "(s1, w1)"] exI [of _ k] exI [of _ "fst st2"] exI [of _ "snd st2"]) (simp add: closing_trace_def)
qed

definition relaying_client :: client where
  "relaying_client = demo_client\<lparr>cl_state := READ_RESP, origin_fd := 4,
     res_data := no_response\<lparr>rs_parserState := BODY_NORMAL, rs_bodyLength := 5\<rparr>\<rparr>"

lemma relaying_awaits:
  "awaits_body (demo_selector ci (Some oi)) (demo_proxy r xs relaying_client) 0 relaying_client 5"
  by (simp add: awaits_body_def client_ok_def demo_wf demo_registered relaying_client_def demo_client_def no_response_def defaultResponseStruct_def)

theorem response_reaches_client_witness:
  "\<exists>st1 k s2 w2. rounds (remote_read (handlers_of (\<lambda>_. []) (\<lambda>_ _. None))) (client_key (origin_fd relaying_client) 0)
        (length [str ''abc'', str ''abc'']) (demo_selector OP_NOOP (Some OP_READ), demo_proxy 2 (str ''abc'') relaying_client) = Some st1
    \<and> registered (fst st1) (client_fd relaying_client) \<noteq> None
    \<and> rounds (client_write (handlers_of (\<lambda>_. []) (handlers_of (\<lambda>_. []) (\<lambda>_ _. None)))) (client_key (client_fd relaying_client) 0) k st1 = Some (s2, w2)
    \<and> written_to (client_fd relaying_client) (pf_trace (px_os w2)) =
        written_to (client_fd relaying_client) (pf_trace (px_os (demo_proxy 2 (str ''abc'') relaying_client)))
          @ pending (post_res_parse_buf relaying_client) @ take 5 (concat [str ''abc'', str ''abc''])
    \<and> registered s2 (client_fd relaying_client) = None \<and> Shut (client_fd relaying_client) \<in> set (pf_trace (px_os w2))"
  by (rule response_reaches_client [OF relaying_awaits])
    (simp_all add: relaying_client_def demo_client_def less_Suc_eq)

end
