(* ===== verification/ClientTransforms.thy ===== *)
theory ClientTransforms
  imports ClientResponses
begin

unbundle bit_operations_syntax

text \<open>
  The handlers of a transformation: what its output becomes and where its input comes from, on every branch,
  and the way of its output to the client.
\<close>

section \<open>Pieces of the handlers\<close>

text \<open>
  Client \<open>a\<close> gets a response that is transformed; the pipe from the transformation is registered. The buffer
  is small enough for the seven digits that a chunk's length may have.
\<close>

definition transforming :: "selector \<Rightarrow> proxy \<Rightarrow> nat \<Rightarrow> client \<Rightarrow> bool" where
  "transforming s w a c \<longleftrightarrow> client_ok s w a c \<and> shouldTransform c \<and> buf_inv (post_res_parse_buf c)
     \<and> room (post_res_parse_buf c) \<le> 16 ^ 6 \<and> transf_out_fd c \<noteq> - 1
     \<and> (\<exists>i. registered s (transf_out_fd c) = Some (Transf_out_handlers, i, Some (Client_ptr a)))"

text \<open>
  What \<open>dump_chunk_from_fd\<close> takes for the output: an error, when there is no memory or \<open>read\<close> fails, or some
  bytes. No byte means the end; with little room it is found without reading.
\<close>

definition transf_output :: "buffer \<Rightarrow> platform \<Rightarrow> byte list option" where
  "transf_output b p = (if room b \<le> 11 then Some [] else if pf_blocks p (pf_count p) = None then None
     else map_option (take (room b - 11)) (pf_reads p (Suc (pf_count p))))"

lemma dump_chunk_fails:
  "buf_inv b \<Longrightarrow> room b > 11 \<Longrightarrow> \<not> mem \<or> rd_fd (room b - 11) = None \<Longrightarrow> dump_chunk_from_fd mem rd_fd b = Some (- 1, b)"
  by (auto simp: dump_chunk_from_fd_def buffer_write_ptr_def MAX_CHUNK_SIZE_DIGITS_def room_def buf_inv_def add.commute)

lemma transf_chunk_eq:
  assumes I: "buf_inv b" and r: "room b \<le> 16 ^ 6"
  shows "case transf_output b p of
      None \<Rightarrow> transf_chunk b p = Some (- 1, b, pf_next (pf_next p))
    | Some xs \<Rightarrow> if xs = [] then transf_chunk b p = Some (0, b, pf_next (pf_next p))
        else \<exists>b'. transf_chunk b p = Some (int (length (chunk_text (chunk_of xs))), b', pf_next (pf_next p))
          \<and> pending b' = pending b @ chunk_text (chunk_of xs) \<and> buf_inv b' \<and> room b' = room b - length (chunk_text (chunk_of xs))"
proof -
  let ?rd = "\<lambda>k. fst (sys_read k (pf_next p))" and ?mem = "pf_blocks p (pf_count p) \<noteq> None"
  have chunk: "transf_chunk b p = map_option (\<lambda>(n, b'). (n, b', pf_next (pf_next p))) (dump_chunk_from_fd ?mem ?rd b)"
    by (simp add: transf_chunk_def sys_malloc_def split: bind_splits)
  have rd: "?rd k = map_option (take k) (pf_reads p (Suc (pf_count p)))" for k by (simp add: sys_read_def pf_next_def)
  show ?thesis
  proof (cases "room b > 11")
    case False
    then show ?thesis using dump_chunk_starved [OF I, of ?mem ?rd] by (simp add: chunk transf_output_def)
  next
    case True
    show ?thesis
    proof (cases "transf_output b p")
      case None
      then have "\<not> ?mem \<or> ?rd (room b - 11) = None" using True by (auto simp: transf_output_def rd split: if_splits)
      then show ?thesis using dump_chunk_fails [OF I True, of ?mem ?rd] by (simp add: chunk None)
    next
      case (Some xs)
      then have m: ?mem "?rd (room b - 11) = Some xs" "length xs \<le> room b - 11"
        using True by (auto simp: transf_output_def rd split: if_splits)
      then have mem: "?mem = True" by simp
      show ?thesis
      proof (cases "xs = []")
        case True
        with m(2) have "dump_chunk_from_fd True ?rd b = Some (0, b)" by (intro dump_chunk_end [OF I]) simp
        then show ?thesis using True by (simp only: chunk mem) (simp add: Some)
      next
        case False
        have "\<exists>b'. dump_chunk_from_fd True ?rd b = Some (int (length (chunk_text (chunk_of xs))), b')
          \<and> pending b' = pending b @ chunk_text (chunk_of xs) \<and> buf_inv b' \<and> room b' = room b - length (chunk_text (chunk_of xs))"
          using dump_chunk_writes [of b ?rd xs, OF I True r m(2) False m(3)] by blast
        then show ?thesis using False by (simp only: chunk mem) (auto simp: Some)
      qed
    qed
  qed
qed

lemma unregister_transf_out:
  assumes "sel_wf s" "px_clients w a = Some c" "registered s (transf_out_fd c) = Some (Transf_out_handlers, i, Some (Client_ptr a))"
  shows "\<exists>s'. unregister (handlers_of strerror tab) (transf_out_fd c) (s, w) =
      Some (s', set_client a (c\<lparr>transf_out_fd := - 1\<rparr>) (close_fd (transf_out_fd c) w))
    \<and> sel_wf s' \<and> registered s' = (registered s)(transf_out_fd c := None)"
proof -
  have "handlers_of strerror tab Transf_out_handlers HANDLE_CLOSE = Some transf_close" by simp
  moreover have "transf_close \<lparr>key_fd = transf_out_fd c, key_data = Some (Client_ptr a)\<rparr> (s, w) =
      Some (s, set_client a (c\<lparr>transf_out_fd := - 1\<rparr>) (close_fd (transf_out_fd c) w))"
    using assms(2) by (simp add: transf_close_def GET_CLIENT_def)
  ultimately show ?thesis using unregister_st [OF assms(1,1,3) _ refl] assms(3) by blast
qed

section \<open>The output of the transformation\<close>

text \<open>
  What \<open>transf_read\<close> makes of the output: an error closes the client; bytes become a chunk, and the end the
  empty chunk, after which the pipe is closed and registered no more, once there is room for it.
\<close>

definition transf_outcome :: "nat \<Rightarrow> client \<Rightarrow> st \<Rightarrow> st \<Rightarrow> bool" where
  "transf_outcome a c st st' \<longleftrightarrow> (case st of (s, w) \<Rightarrow>
     let b = post_res_parse_buf c; w1 = w\<lparr>px_os := pf_next (pf_next (px_os w))\<rparr> in
     case transf_output b (px_os w) of
       None \<Rightarrow> client_closed a c (s, w1) st'
     | Some xs \<Rightarrow>
         if xs = [] \<and> room b < 5 then st' = (s, w1)
         else \<exists>b'. pending b' = pending b @ chunk_text (chunk_of xs) \<and> buf_inv b' \<and> room b' = room b - length (chunk_text (chunk_of xs))
           \<and> (if xs = [] then sel_wf (fst st') \<and> registered (fst st') = (registered s)(transf_out_fd c := None)
                \<and> snd st' = set_client a (c\<lparr>post_res_parse_buf := b', transf_out_fd := - 1\<rparr>) (close_fd (transf_out_fd c) w1)
              else st' = (s, set_client a (c\<lparr>post_res_parse_buf := b'\<rparr>) w1)))"

lemma set_client_same [simp]: "px_clients w a = Some c \<Longrightarrow> set_client a c w = w"
  by (simp add: set_client_def fun_upd_idem)

lemma transformingD:
  assumes "transforming s w a c"
  shows "client_ok s w a c" "sel_wf s" "px_clients w a = Some c" "buf_inv (post_res_parse_buf c)" "room (post_res_parse_buf c) \<le> 16 ^ 6"
    "transf_out_fd c \<noteq> client_fd c" "transf_out_fd c \<noteq> origin_fd c" "shouldTransform c"
  using assms by (auto simp: transforming_def client_ok_def)

lemma transf_read_effect:
  assumes t: "transforming s w a c" and r: "room (post_res_parse_buf c) \<noteq> 0"
  shows "\<exists>st'. transf_read (handlers_of strerror (handlers_of strerror tab)) (client_key fd a) (s, w) = Some st' \<and> transf_outcome a c (s, w) st'"
proof -
  let ?b = "post_res_parse_buf c" and ?w1 = "w\<lparr>px_os := pf_next (pf_next (px_os w))\<rparr>"
  note t' = transformingD [OF t]
  have can: "buffer_can_write ?b" using r by (simp add: buffer_can_write_def room_def)
  note chunk = transf_chunk_eq [OF t'(4,5), of "px_os w"]
  show ?thesis
  proof (cases "transf_output ?b (px_os w)")
    case None
    have "client_ok s ?w1 a c" using t'(1) by (simp add: client_ok_def)
    from unregister_closes [OF this, of strerror tab] show ?thesis
      using can chunk t'(3) None by (auto simp: transf_read_def transf_outcome_def)
  next
    case (Some xs)
    show ?thesis
    proof (cases "xs = []")
      case False
      then have "length (chunk_text (chunk_of xs)) \<noteq> 0" by (simp add: chunk_text_def chunk_of_def)
      then show ?thesis using can chunk t'(3) Some False by (auto simp: transf_read_def transf_outcome_def Let_def)
    next
      case True
      then have n: "transf_chunk ?b (px_os w) = Some (0, ?b, pf_next (pf_next (px_os w)))" using chunk Some by simp
      show ?thesis
      proof (cases "room ?b < 5")
        case True
        then show ?thesis using can n t'(3) Some \<open>xs = []\<close> write_empty_chunk_starved [OF t'(4)]
          by (simp add: transf_read_def transf_outcome_def upd_client_def)
      next
        case False
        obtain b' where b': "write_empty_chunk ?b = Some (5, b')" "pending b' = pending ?b @ chunk_text (chunk_of [])" "buf_inv b'"
          "room b' = room ?b - length (chunk_text (chunk_of []))" using write_empty_chunk_writes [OF t'(4)] False by auto
        obtain i where i: "registered s (transf_out_fd c) = Some (Transf_out_handlers, i, Some (Client_ptr a))"
          using t by (auto simp: transforming_def)
        have "px_clients (set_client a (c\<lparr>post_res_parse_buf := b'\<rparr>) ?w1) a = Some (c\<lparr>post_res_parse_buf := b'\<rparr>)" by simp
        from unregister_transf_out [OF t'(2) this, of i strerror "handlers_of strerror tab"] i obtain s' where
          "unregister (handlers_of strerror (handlers_of strerror tab)) (transf_out_fd c) (s, set_client a (c\<lparr>post_res_parse_buf := b'\<rparr>) ?w1) =
            Some (s', set_client a (c\<lparr>post_res_parse_buf := b', transf_out_fd := - 1\<rparr>) (close_fd (transf_out_fd c) (set_client a (c\<lparr>post_res_parse_buf := b'\<rparr>) ?w1)))"
          "sel_wf s'" "registered s' = (registered s)(transf_out_fd c := None)" by auto
        then show ?thesis using can n t'(3) Some \<open>xs = []\<close> False b'
          by (auto simp: transf_read_def transf_outcome_def upd_client_def close_fd_def set_client_def Let_def)
      qed
    qed
  qed
qed

text \<open>C13
  What the handler of a transformation's output does, on every branch: a full buffer stops the reading; an
  error closes the client; the bytes that came are appended to the response as one chunk; the end is the
  empty chunk and closes the pipe, or nothing happens while there is no room for it. With at most 11 bytes
  of room the output counts as ended though nothing was read.\<close>

theorem transf_read_outcomes:
  assumes "transforming s w a c"
  shows "\<exists>s' w'. transf_read (handlers_of strerror (handlers_of strerror tab)) (client_key fd a) (s, w) = Some (s', w')
    \<and> (if room (post_res_parse_buf c) = 0
        then w' = w \<and> sel_wf s' \<and> registered s' = with_interest (transf_out_fd c) OP_NOOP (registered s)
        else transf_outcome a c (s, w) (s', w'))"
proof (cases "room (post_res_parse_buf c) = 0")
  case True
  note t' = transformingD [OF assms]
  have "registered s (transf_out_fd c) \<noteq> None" using assms by (auto simp: transforming_def)
  then obtain s' where "set_interest (transf_out_fd c) OP_NOOP (s, w) = Some (s', w)" "sel_wf s'"
    "registered s' = with_interest (transf_out_fd c) OP_NOOP (registered s)"
    using set_interest_any [OF t'(2)] by blast
  moreover have "\<not> buffer_can_write (post_res_parse_buf c)" using True by (simp add: buffer_can_write_def room_def)
  ultimately show ?thesis using True t'(3) by (simp add: transf_read_def)
next
  case False
  then show ?thesis using transf_read_effect [OF assms, of strerror tab fd] by auto
qed

text \<open>A client whose transformation's pipe is descriptor 5: the program prints ''ab'' and ends.\<close>

definition transforming_client :: client where
  "transforming_client = demo_client\<lparr>cl_state := READ_RESP, shouldTransform := True, transf_out_fd := 5\<rparr>"

definition piped_selector :: "handler_name \<Rightarrow> selector" where
  "piped_selector h = snd (the (selector_register None 5 (Some h) OP_READ (Some (Client_ptr 0)) (demo_selector OP_WRITE None)))"

definition piped_proxy :: "client \<Rightarrow> proxy" where
  "piped_proxy c = (demo_proxy 3 [] c)\<lparr>px_os := (px_os (demo_proxy 3 [] c))\<lparr>pf_blocks := (\<lambda>_. Some []),
     pf_reads := (\<lambda>k. Some (if k < 2 then str ''ab'' else []))\<rparr>\<rparr>"

lemma piped_proxy_view [simp]:
  "px_clients (piped_proxy c) a = (if a = 0 then Some c else None)" "pf_count (px_os (piped_proxy c)) = 0"
  "pf_results (px_os (piped_proxy c)) = (\<lambda>_. 3)" "pf_blocks (px_os (piped_proxy c)) = (\<lambda>_. Some [])"
  "pf_reads (px_os (piped_proxy c)) = (\<lambda>k. Some (if k < 2 then str ''ab'' else []))" "pf_trace (px_os (piped_proxy c)) = []"
  by (simp_all add: piped_proxy_def demo_proxy_def)

lemma piped:
  "sel_wf (piped_selector h)" "registered (piped_selector h) 5 = Some (h, OP_READ, Some (Client_ptr 0))"
  "registered (piped_selector h) 3 = Some (Client_handlers, OP_WRITE, Some (Client_ptr 0))"
  using register_room [OF demo_wf, of 5 OP_WRITE None None h OP_READ "Some (Client_ptr 0)"] demo_registered [of OP_WRITE None]
  by (auto simp: piped_selector_def demo_selector_def sizes)

lemma transforming_transforming: "transforming (piped_selector Transf_out_handlers) (piped_proxy transforming_client) 0 transforming_client"
  by (simp add: transforming_def client_ok_def piped transforming_client_def demo_client_def)

theorem transf_read_outcomes_witness:
  "\<exists>s' w'. transf_read (handlers_of (\<lambda>_. []) (handlers_of (\<lambda>_. []) (\<lambda>_ _. None))) (client_key 5 0)
      (piped_selector Transf_out_handlers, piped_proxy transforming_client) = Some (s', w')
    \<and> transf_outcome 0 transforming_client (piped_selector Transf_out_handlers, piped_proxy transforming_client) (s', w')"
  using transf_read_outcomes [OF transforming_transforming, of "\<lambda>_. []" "\<lambda>_ _. None" 5]
  by (simp add: transforming_client_def demo_client_def)

section \<open>The input of the transformation\<close>

lemma unregister_transf_in:
  assumes "sel_wf s" "px_clients w a = Some c" "registered s (transf_in_fd c) = Some (Transf_in_handlers, i, Some (Client_ptr a))"
    "transf_in_fd c \<noteq> transf_out_fd c"
  shows "\<exists>s'. unregister (handlers_of strerror tab) (transf_in_fd c) (s, w) =
      Some (s', set_client a (c\<lparr>transf_in_fd := - 1\<rparr>) (close_fd (transf_in_fd c) w))
    \<and> sel_wf s' \<and> registered s' = (registered s)(transf_in_fd c := None)"
proof -
  have "handlers_of strerror tab Transf_in_handlers HANDLE_CLOSE = Some transf_close" by simp
  moreover have "transf_close \<lparr>key_fd = transf_in_fd c, key_data = Some (Client_ptr a)\<rparr> (s, w) =
      Some (s, set_client a (c\<lparr>transf_in_fd := - 1\<rparr>) (close_fd (transf_in_fd c) w))"
    using assms(2,4) by (simp add: transf_close_def GET_CLIENT_def)
  ultimately show ?thesis using unregister_st [OF assms(1,1,3) _ refl] assms(3) by blast
qed

text \<open>The pipe to the transformation is closed.\<close>

definition input_closed :: "nat \<Rightarrow> client \<Rightarrow> st \<Rightarrow> st \<Rightarrow> bool" where
  "input_closed a c st st' \<longleftrightarrow> sel_wf (fst st') \<and> registered (fst st') = (registered (fst st))(transf_in_fd c := None)
     \<and> snd st' = set_client a (c\<lparr>transf_in_fd := - 1\<rparr>) (close_fd (transf_in_fd c) (snd st))"

text \<open>C14
  What the handler of a transformation's input does, on every branch: of what the parser decoded it loses and
  doubles no byte and writes to no other descriptor; when the pipe takes nothing more, or when the parser has
  finished and everything is written, the pipe is closed; when nothing is there now it waits.\<close>

theorem transf_write_forwards:
  assumes "sel_wf s" "px_clients w a = Some c" "registered s (transf_in_fd c) = Some (Transf_in_handlers, i, Some (Client_ptr a))"
    "transf_in_fd c \<noteq> transf_out_fd c" "buf_inv (pre_transf_buf c)"
    "sys_write (transf_in_fd c) (pending (pre_transf_buf c)) (px_os w) = (n, p)"
  shows "\<exists>s' w'. transf_write (handlers_of strerror tab) (client_key fd a) (s, w) = Some (s', w')
    \<and> (if pending (pre_transf_buf c) = []
        then if rs_parserState (res_data c) = RES_FINISHED then input_closed a c (s, w) (s', w')
          else w' = w \<and> sel_wf s' \<and> registered s' = with_interest (transf_in_fd c) OP_NOOP (registered s)
        else if n \<le> 0 then input_closed a c (s, w\<lparr>px_os := p\<rparr>) (s', w')
        else \<exists>b. s' = s \<and> px_clients w' = (px_clients w)(a \<mapsto> c\<lparr>pre_transf_buf := b\<rparr>) \<and> buf_inv b
          \<and> moved (transf_in_fd c) (pre_transf_buf c) b w w')"
proof -
  have closed: "\<exists>st'. unregister (handlers_of strerror tab) (transf_in_fd c) (s, v) = Some st' \<and> input_closed a c (s, v) st'"
    if "px_clients v a = Some c" for v
    using unregister_transf_in [OF assms(1) that assms(3,4), of strerror tab] by (auto simp: input_closed_def)
  obtain s0 where s0: "set_interest (transf_in_fd c) OP_NOOP (s, w) = Some (s0, w)" "sel_wf s0"
    "registered s0 = with_interest (transf_in_fd c) OP_NOOP (registered s)"
    using set_interest_any [OF assms(1), of "transf_in_fd c"] assms(3) by blast
  show ?thesis
  proof (cases "pending (pre_transf_buf c) = []")
    case True
    then show ?thesis using assms(2,5) closed [of w] s0 by (fastforce simp: transf_write_def can_read_iff)
  next
    case False
    obtain b where b: "buffer_read_adv (pre_transf_buf c) n = Some b" "buf_inv b"
      "written_to (transf_in_fd c) (pf_trace p) @ pending b = written_to (transf_in_fd c) (pf_trace (px_os w)) @ pending (pre_transf_buf c)"
      "\<forall>f. f \<noteq> transf_in_fd c \<longrightarrow> written_to f (pf_trace p) = written_to f (pf_trace (px_os w))"
      using write_conserves [OF assms(5,6)] by blast
    have "px_clients (w\<lparr>px_os := p\<rparr>) a = Some c" using assms(2) by simp
    from closed [OF this] show ?thesis using False assms(2,5,6) b
      by (auto simp: transf_write_def can_read_iff write_client_eq upd_client_def moved_def set_client_def)
  qed
qed

definition feeding_client :: client where
  "feeding_client = demo_client\<lparr>shouldTransform := True, transf_in_fd := 5, pre_transf_buf := holding (str ''abcd'')\<rparr>"

theorem transf_write_forwards_witness:
  "\<exists>s' w' b. transf_write (handlers_of (\<lambda>_. []) (\<lambda>_ _. None)) (client_key 5 0)
      (piped_selector Transf_in_handlers, piped_proxy feeding_client) = Some (s', w')
    \<and> moved (transf_in_fd feeding_client) (pre_transf_buf feeding_client) b (piped_proxy feeding_client) w'"
proof -
  have r: "sys_write (transf_in_fd feeding_client) (pending (pre_transf_buf feeding_client)) (px_os (piped_proxy feeding_client)) =
      (3, (pf_next (px_os (piped_proxy feeding_client)))\<lparr>pf_trace := [Written 5 (str ''abc'')]\<rparr>)"
    by (simp add: sys_write_def Let_def feeding_client_def demo_client_def)
  have "registered (piped_selector Transf_in_handlers) (transf_in_fd feeding_client) = Some (Transf_in_handlers, OP_READ, Some (Client_ptr 0))"
    by (simp add: feeding_client_def piped)
  from transf_write_forwards [OF piped(1) _ this _ _ r, of "\<lambda>_. []" "\<lambda>_ _. None" 5] show ?thesis
    by (fastforce simp: feeding_client_def demo_client_def)
qed

section \<open>From the transformation to the client\<close>

text \<open>
  The system's next answers: there is memory for each piece of the output, the pieces come in turn, and then
  the end.
\<close>

definition gives_output :: "platform \<Rightarrow> byte list list \<Rightarrow> bool" where
  "gives_output p xss \<longleftrightarrow> (\<forall>i \<le> length xss. pf_blocks p (pf_count p + 2 * i) \<noteq> None
     \<and> pf_reads p (Suc (pf_count p + 2 * i)) = Some ((xss @ [[]]) ! i))"

lemma gives_output_Cons:
  assumes "gives_output p (xs # xss)"
  shows "pf_blocks p (pf_count p) \<noteq> None" "pf_reads p (Suc (pf_count p)) = Some xs" "gives_output (pf_next (pf_next p)) xss"
proof -
  note g = assms [unfolded gives_output_def, rule_format]
  show "pf_blocks p (pf_count p) \<noteq> None" "pf_reads p (Suc (pf_count p)) = Some xs" using g [of 0] by simp_all
  show "gives_output (pf_next (pf_next p)) xss" unfolding gives_output_def
  proof (intro allI impI)
    fix i assume "i \<le> length xss"
    then show "pf_blocks (pf_next (pf_next p)) (pf_count (pf_next (pf_next p)) + 2 * i) \<noteq> None
        \<and> pf_reads (pf_next (pf_next p)) (Suc (pf_count (pf_next (pf_next p)) + 2 * i)) = Some ((xss @ [[]]) ! i)"
      using g [of "Suc i"] by (simp add: pf_next_def)
  qed
qed

lemma transf_output_end: "gives_output p [] \<Longrightarrow> transf_output b p = Some []"
  by (auto simp: gives_output_def transf_output_def)

text \<open>The text of a body that is sent in chunks.\<close>

definition chunked :: "byte list list \<Rightarrow> byte list" where
  "chunked xss = concat (map (\<lambda>xs. chunk_text (chunk_of xs)) xss) @ chunk_text (chunk_of [])"

lemma output_rounds:
  assumes "transforming s w a c" "gives_output (px_os w) xss" "[] \<notin> set xss"
    "(\<Sum>xs\<leftarrow>xss. length xs + 11) + 5 \<le> room (post_res_parse_buf c)"
  shows "\<exists>s' w' b. rounds (transf_read (handlers_of strerror (handlers_of strerror tab))) (client_key fd a) (Suc (length xss)) (s, w) = Some (s', w')
    \<and> client_ok s' w' a (c\<lparr>post_res_parse_buf := b, transf_out_fd := - 1\<rparr>) \<and> buf_inv b
    \<and> pending b = pending (post_res_parse_buf c) @ chunked xss
    \<and> registered s' = (registered s)(transf_out_fd c := None)
    \<and> (\<forall>f. written_to f (pf_trace (px_os w')) = written_to f (pf_trace (px_os w)))
    \<and> pf_results (px_os w') = pf_results (px_os w) \<and> pf_count (px_os w') = pf_count (px_os w) + 2 * Suc (length xss)"
  using assms
proof (induction xss arbitrary: s w c)
  case Nil
  note t = transformingD [OF Nil.prems(1)]
  have r: "room (post_res_parse_buf c) \<noteq> 0" "\<not> room (post_res_parse_buf c) < 5" using Nil.prems(4) by simp_all
  from transf_read_effect [OF Nil.prems(1) r(1), of strerror tab fd] transf_output_end [OF Nil.prems(2)] r(2)
  obtain s' b where e: "transf_read (handlers_of strerror (handlers_of strerror tab)) (client_key fd a) (s, w) =
      Some (s', set_client a (c\<lparr>post_res_parse_buf := b, transf_out_fd := - 1\<rparr>) (close_fd (transf_out_fd c) (w\<lparr>px_os := pf_next (pf_next (px_os w))\<rparr>)))"
    "pending b = pending (post_res_parse_buf c) @ chunk_text (chunk_of [])" "buf_inv b" "sel_wf s'"
    "registered s' = (registered s)(transf_out_fd c := None)"
    by (auto simp: transf_outcome_def Let_def)
  then show ?case using t
    by (auto simp: chunked_def client_ok_def pf_next_def close_fd_def sys_close_def set_client_def
        intro!: exI [of _ s'] exI [of _ b])
next
  case (Cons xs xss)
  let ?b = "post_res_parse_buf c"
  note t = transformingD [OF Cons.prems(1)] and g = gives_output_Cons [OF Cons.prems(2)]
  have len: "length xs + 16 \<le> room ?b" "xs \<noteq> []" using Cons.prems(3,4) by auto
  then have out: "transf_output ?b (px_os w) = Some xs" using g(1,2) by (auto simp: transf_output_def)
  have "room ?b \<noteq> 0" using len by simp
  from transf_read_effect [OF Cons.prems(1) this, of strerror tab fd] out len(2)
  obtain b where b: "transf_read (handlers_of strerror (handlers_of strerror tab)) (client_key fd a) (s, w) =
      Some (s, set_client a (c\<lparr>post_res_parse_buf := b\<rparr>) (w\<lparr>px_os := pf_next (pf_next (px_os w))\<rparr>))"
    "pending b = pending ?b @ chunk_text (chunk_of xs)" "buf_inv b" "room b = room ?b - length (chunk_text (chunk_of xs))"
    by (auto simp: transf_outcome_def Let_def)
  let ?c = "c\<lparr>post_res_parse_buf := b\<rparr>" and ?w = "set_client a (c\<lparr>post_res_parse_buf := b\<rparr>) (w\<lparr>px_os := pf_next (pf_next (px_os w))\<rparr>)"
  have "transforming s ?w a ?c" using Cons.prems(1) b(3,4) by (auto simp: transforming_def client_ok_def)
  moreover have "gives_output (px_os ?w) xss" "[] \<notin> set xss" using g(3) Cons.prems(3) by simp_all
  moreover have "length (chunk_text (chunk_of xs)) \<le> length xs + 10" using len t(5) by (intro length_chunk_of) simp
  then have "(\<Sum>xs\<leftarrow>xss. length xs + 11) + 5 \<le> room (post_res_parse_buf ?c)" using Cons.prems(4) b(4) by simp
  ultimately obtain s' w' b' where
    "rounds (transf_read (handlers_of strerror (handlers_of strerror tab))) (client_key fd a) (Suc (length xss)) (s, ?w) = Some (s', w')"
    "client_ok s' w' a (?c\<lparr>post_res_parse_buf := b', transf_out_fd := - 1\<rparr>)" "buf_inv b'" "pending b' = pending b @ chunked xss"
    "registered s' = (registered s)(transf_out_fd c := None)"
    "\<forall>f. written_to f (pf_trace (px_os w')) = written_to f (pf_trace (px_os ?w))" "pf_results (px_os w') = pf_results (px_os ?w)"
    "pf_count (px_os w') = pf_count (px_os ?w) + 2 * Suc (length xss)"
    using Cons.IH [of s ?w ?c] by (elim exE conjE meta_impE) (assumption | (rule that; simp add: fun_upd_def del: rounds_simps))+
  then show ?case using b(1,2)
    by (intro exI [of _ s'] exI [of _ w'] exI [of _ b']) (simp add: chunked_def pf_next_def)
qed

text \<open>C3
  The output of a transformation reaches the client: whatever pieces it comes in, after one round for each
  piece and one for the end, and as many rounds of writing as are needed, the client has got what was waiting
  for it and one chunk for each piece and the empty chunk, in order, and is then closed, and so is the pipe.\<close>

theorem transformation_reaches_client:
  assumes "transforming s w a c" "cl_state c = READ_RESP" "gives_output (px_os w) xss" "[] \<notin> set xss"
    "(\<Sum>xs\<leftarrow>xss. length xs + 11) + 5 \<le> room (post_res_parse_buf c)"
    "\<forall>k \<ge> pf_count (px_os w) + 2 * Suc (length xss). pf_results (px_os w) k \<ge> 1"
  shows "\<exists>st1 k s2 w2. rounds (transf_read (handlers_of strerror (handlers_of strerror tab))) (client_key (transf_out_fd c) a) (Suc (length xss)) (s, w) = Some st1
    \<and> registered (fst st1) (transf_out_fd c) = None \<and> registered (fst st1) (client_fd c) \<noteq> None
    \<and> rounds (client_write (handlers_of strerror (handlers_of strerror tab))) (client_key (client_fd c) a) k st1 = Some (s2, w2)
    \<and> written_to (client_fd c) (pf_trace (px_os w2)) =
        written_to (client_fd c) (pf_trace (px_os w)) @ pending (post_res_parse_buf c) @ chunked xss
    \<and> registered s2 (client_fd c) = None \<and> Shut (client_fd c) \<in> set (pf_trace (px_os w2))"
proof -
  obtain s1 w1 b where r1:
    "rounds (transf_read (handlers_of strerror (handlers_of strerror tab))) (client_key (transf_out_fd c) a) (Suc (length xss)) (s, w) = Some (s1, w1)"
    "client_ok s1 w1 a (c\<lparr>post_res_parse_buf := b, transf_out_fd := - 1\<rparr>)" "buf_inv b" "pending b = pending (post_res_parse_buf c) @ chunked xss"
    "registered s1 = (registered s)(transf_out_fd c := None)"
    "written_to (client_fd c) (pf_trace (px_os w1)) = written_to (client_fd c) (pf_trace (px_os w))"
    "pf_results (px_os w1) = pf_results (px_os w)" "pf_count (px_os w1) = pf_count (px_os w) + 2 * Suc (length xss)"
    using output_rounds [OF assms(1,3-5), of strerror tab "transf_out_fd c"] by blast
  let ?c = "c\<lparr>post_res_parse_buf := b, transf_out_fd := - 1\<rparr>"
  have "writes_progress w1" using assms(6) r1(7,8) by (simp add: writes_progress_def)
  moreover have "source_fd ?c = - 1" "cl_state ?c = READ_RESP" "buf_inv (post_res_parse_buf ?c)"
    using transformingD(8) [OF assms(1)] assms(2) r1(3) by (simp_all add: source_fd_def)
  ultimately obtain k st2 c0 w0 s0 where r2:
    "rounds (client_write (handlers_of strerror (handlers_of strerror tab))) (client_key (client_fd c) a) k (s1, w1) = Some st2"
    "client_closed a c0 (s0, w0) st2" "client_fd c0 = client_fd c"
    "written_to (client_fd c) (pf_trace (px_os w0)) = written_to (client_fd c) (pf_trace (px_os w1)) @ pending b"
    using response_delivered_rounds [OF r1(2), of strerror tab "client_fd c"] by auto
  have "pf_trace (px_os (snd st2)) = pf_trace (px_os w0) @ closing_trace c0" "registered (fst st2) (client_fd c) = None"
    using r2(2,3) by (auto simp: client_closed_def)
  moreover have "registered s1 (client_fd c) \<noteq> None" using r1(2) by (auto simp: client_ok_def)
  ultimately show ?thesis using r1(1,4-6) r2(1,3,4)
    by (intro exI [of _ "(s1, w1)"] exI [of _ k] exI [of _ "fst st2"] exI [of _ "snd st2"]) (simp add: closing_trace_def)
qed

theorem transformation_reaches_client_witness:
  "\<exists>st1 k s2 w2. rounds (transf_read (handlers_of (\<lambda>_. []) (handlers_of (\<lambda>_. []) (\<lambda>_ _. None)))) (client_key (transf_out_fd transforming_client) 0)
        (Suc (length [str ''ab''])) (piped_selector Transf_out_handlers, piped_proxy transforming_client) = Some st1
    \<and> registered (fst st1) (transf_out_fd transforming_client) = None \<and> registered (fst st1) (client_fd transforming_client) \<noteq> None
    \<and> rounds (client_write (handlers_of (\<lambda>_. []) (handlers_of (\<lambda>_. []) (\<lambda>_ _. None)))) (client_key (client_fd transforming_client) 0) k st1 = Some (s2, w2)
    \<and> written_to (client_fd transforming_client) (pf_trace (px_os w2)) =
        written_to (client_fd transforming_client) (pf_trace (px_os (piped_proxy transforming_client)))
          @ pending (post_res_parse_buf transforming_client) @ chunked [str ''ab'']
    \<and> registered s2 (client_fd transforming_client) = None \<and> Shut (client_fd transforming_client) \<in> set (pf_trace (px_os w2))"
  by (rule transformation_reaches_client [OF transforming_transforming])
    (auto simp: gives_output_def transforming_client_def demo_client_def less_Suc_eq_le le_Suc_eq)

end
