(* ===== verification/ClientFaults.thy ===== *)
theory ClientFaults
  imports ClientTransforms
begin

unbundle bit_operations_syntax

text \<open>
  Where the handlers of a client go wrong: a request whose body comes after the connection stalls, and the end
  of what an origin sends is not noticed.
\<close>

section \<open>A request that stalls\<close>

lemma checkRequest_finished:
  "rq_parserState d = FINISHED \<Longrightarrow> checkRequest d bi bo = Some (True, d\<lparr>rq_version := V_1_1, rq_isBufferEmpty := False\<rparr>, bi, bo, [])"
  by (simp add: checkRequest_def checkRequestInner_def rq_finish)

text \<open>
  While the request is being sent, more of it is read: the bytes are copied, but the parser's state is taken
  for the client's, which becomes \<open>NO_ORIGIN\<close>. The selector now reports the origin as writable in each round,
  and the handler that is called for it does nothing: what was copied is never sent.
\<close>

lemma client_read_stalls:
  assumes ok: "client_ok s w a c" and c: "cl_state c = SEND_REQ" "origin_fd c \<noteq> - 1"
    "rq_parserState (req_data c) = FINISHED" "rq_state (req_data c) = OK"
    "buf_inv (pre_req_parse_buf c)" "buf_inv (post_req_parse_buf c)"
    and x: "pf_reads (px_os w) (pf_count (px_os w)) = Some xs" "xs \<noteq> []" "length xs \<le> room (pre_req_parse_buf c)"
  shows "\<exists>s' w' c'. client_read tab (client_key fd a) (s, w) = Some (s', w') \<and> client_ok s' w' a c' \<and> cl_state c' = NO_ORIGIN
    \<and> registered s' = with_interest (origin_fd c) OP_WRITE (registered s)
    \<and> remote_write tab (client_key fd' a) (s', w') = Some (s', w')"
proof -
  let ?p = "pushes (pre_req_parse_buf c) xs" and ?w = "w\<lparr>px_os := pf_next (px_os w)\<rparr>"
  let ?c = "c\<lparr>pre_req_parse_buf := ?p\<rparr>"
  obtain st1 where st1: "read_client pre_req_parse_buf put_pre_req a (s, w) = Some (int (length xs), st1)"
    "adv_pre_req a (int (length xs)) st1 = Some (s, set_client a ?c ?w)"
    using intake [OF client_okD(2) [OF ok] c(5) x(1,3)] by blast
  let ?d = "(req_data c)\<lparr>rq_version := V_1_1, rq_isBufferEmpty := False\<rparr>"
  have parse: "parse_request a (s, set_client a ?c ?w) = Some (s, set_client a (c\<lparr>req_data := ?d, pre_req_parse_buf := ?p, request_complete := True\<rparr>) ?w)"
    using c(3) by (simp add: parse_request_def checkRequest_finished upd_client_def)
  obtain bi bo where "c_loop drain_body (?p, post_req_parse_buf c) = Some (bi, bo)"
    using drain_eq [of ?p "post_req_parse_buf c"] c(5,6) by (simp add: Let_def)
  let ?c' = "c\<lparr>req_data := ?d, request_complete := True, pre_req_parse_buf := bi, post_req_parse_buf := bo, cl_state := NO_ORIGIN\<rparr>"
  have drain: "drain_request a (s, set_client a (c\<lparr>req_data := ?d, pre_req_parse_buf := ?p, request_complete := True\<rparr>) ?w) =
      Some (s, set_client a (c\<lparr>req_data := ?d, request_complete := True, pre_req_parse_buf := bi, post_req_parse_buf := bo\<rparr>) ?w)"
    using \<open>c_loop drain_body (?p, post_req_parse_buf c) = Some (bi, bo)\<close> by (simp add: drain_request_def upd_client_def)
  obtain s' where s': "set_interest (origin_fd c) OP_WRITE (s, set_client a ?c' ?w) = Some (s', set_client a ?c' ?w)" "sel_wf s'"
    "registered s' = with_interest (origin_fd c) OP_WRITE (registered s)"
    using set_interest_any client_okD(1,4) [OF ok] c(2) by blast
  have "buffer_can_write (pre_req_parse_buf c)" using x(2,3) by (cases xs) (auto simp: buffer_can_write_def room_def)
  then have "client_read tab (client_key fd a) (s, w) = Some (s', set_client a ?c' ?w)"
    using client_okD(2) [OF ok] c(1,4) st1 parse drain s'(1)
    by (simp add: client_read_def client_read_send_req_def upd_client_def request_state_number_def as_client_state_def)
  moreover have "client_ok s' (set_client a ?c' ?w) a ?c'" using s' by (intro client_ok_with [OF ok]) simp_all
  moreover have "remote_write tab (client_key fd' a) (s', set_client a ?c' ?w) = Some (s', set_client a ?c' ?w)"
    by (simp add: remote_write_def)
  ultimately show ?thesis using s'(3) by (intro exI [of _ s'] exI [of _ "set_client a ?c' ?w"] exI [of _ ?c']) simp
qed

section \<open>An end that is not noticed\<close>

text \<open>When the origin has closed the connection, a read gives nothing, and nothing happens: the selector will report it again.\<close>

lemma remote_read_end_ignored:
  assumes "client_ok s w a c" "cl_state c = READ_RESP" "buf_inv (pre_res_parse_buf c)" "room (pre_res_parse_buf c) \<noteq> 0"
    "pf_reads (px_os w) (pf_count (px_os w)) = Some []"
  shows "\<exists>b. remote_read tab (client_key fd a) (s, w) = Some (s, set_client a (c\<lparr>pre_res_parse_buf := b\<rparr>) (w\<lparr>px_os := pf_next (px_os w)\<rparr>))
    \<and> pending b = pending (pre_res_parse_buf c)"
proof -
  obtain b where b: "read_client pre_res_parse_buf put_pre_res a (s, w) =
      Some (0, s, set_client a (put_pre_res b c) (w\<lparr>px_os := pf_next (px_os w)\<rparr>))"
    "buffer_write_adv b 0 = Some (pre_res_parse_buf c)"
    using read_response_eq [OF client_okD(2) [OF assms(1)] assms(3,5)] by auto
  have "buffer_can_write (pre_res_parse_buf c)" using assms(4) by (simp add: buffer_can_write_def room_def)
  moreover have "pending b = pending (pre_res_parse_buf c)"
    using b(2) assms(3) by (auto simp: buffer_write_adv_def pending_def split: if_splits)
  ultimately show ?thesis using b(1) assms(2) client_okD(2) [OF assms(1)]
    by (intro exI [of _ b]) (simp add: remote_read_def put_pre_res_def)
qed

end
