(* ===== verification/ProxyProperties.thy ===== *)
theory ProxyProperties
  imports ClientResponses
begin

unbundle bit_operations_syntax

text \<open>
  What holds of the program as a whole: the invariant of every state it can reach, and what a new connection
  and the options make.
\<close>

section \<open>The invariant of the program\<close>

lemma select_upon [keeps]:
  "st_ok st \<Longrightarrow> (\<And>r st'. st_ok st' \<Longrightarrow> Q (r, st')) \<Longrightarrow> upon (selector_select (proxy_callbacks strerror n) poll st) Q"
  using select_keeps_typed [OF proxy_callbacks_keep] by (fastforce simp: upon_def)

lemma notify_upon [keeps]:
  "(\<And>r s'. (\<And>w. st_ok (s, w) \<Longrightarrow> st_ok (s', w)) \<Longrightarrow> Q (r, s')) \<Longrightarrow> upon (selector_notify_block mem fd s) Q"
  by (auto simp: upon_def selector_notify_block_def)

lemma listener_upon [keeps]:
  "(\<And>r s'. (\<And>w. st_ok (s, w) \<Longrightarrow> st_ok (s', w)) \<Longrightarrow> Q (r, s')) \<Longrightarrow> upon (selector_register mem fd (Some Listen_handler) i None s) Q"
  using register_keeps_typed [of data_ok s _ mem fd "Some Listen_handler" i None] by (auto simp: upon_def data_ok_def)

lemma main_registers_keeps:
  "st_ok st \<Longrightarrow> upon (main_registers server admin_socket st) (\<lambda>r. \<forall>st'. r = Inr st' \<longrightarrow> st_ok st')"
  unfolding main_registers_def by (cases st) (clarsimp simp: data_ok_def | rule conjI impI keeps | rule upon_any)+

lemma main_round_keeps:
  "st_ok st \<Longrightarrow> upon (main_round strerror n admin_socket poll st) (\<lambda>r. \<forall>st'. r = Inr st' \<longrightarrow> st_ok st')"
  unfolding main_round_def by (clarsimp | rule conjI impI keeps)+

lemma resolution_keeps: "st_ok st \<Longrightarrow> upon (request_resolv_blocking a res mem st) st_ok"
  unfolding request_resolv_blocking_def by (cases st) (clarsimp | rule conjI impI keeps | rule upon_any)+

lemma proxy_step_keeps: "proxy_step strerror admin_socket st st' \<Longrightarrow> st_ok st \<Longrightarrow> st_ok st'"
  by (erule proxy_stepE) (blast dest: uponD [OF main_round_keeps] uponD [OF resolution_keeps])+

text \<open>
  In every state the program can reach from its set-up, by rounds of its loop with any answers of the system and by
  resolutions that end at any time, the selector is well-formed and each void pointer it holds is what the
  handlers it was registered with take it for: the handlers of clients, origins and transformations are
  registered with a client that exists, those of the log and the administration with their own data.\<close>

theorem proxy_types:
  assumes "selector_new tab True (Some junk) n w = Some (Some s, w)" "n \<le> ITEMS_MAX_SIZE"
    "main_registers server admin_socket (s, w) = Some (Inr st)" "(proxy_step strerror admin_socket)\<^sup>*\<^sup>* st st'"
  shows "sel_wf (fst st') \<and> (\<forall>fd h i d. registered (fst st') fd = Some (h, i, d) \<longrightarrow> data_ok (snd st') h d)"
proof -
  have "st_ok (s, w)" using new_wf [OF assms(2), of tab junk w] assms(1) by (auto simp: typed_def)
  then have "st_ok st" using uponD [OF main_registers_keeps assms(3)] by simp
  from assms(4) this have "st_ok st'" by induction (auto intro: proxy_step_keeps)
  then show ?thesis by (simp add: typed_def)
qed

text \<open>After the set-up, a round in which \<open>pselect\<close> is interrupted.\<close>

theorem proxy_types_witness:
  "\<exists>s st st'. selector_new (proxy_callbacks (\<lambda>_. []) 3) True (Some (\<lambda>_. blank_item)) 1024 (demo_proxy 1 [] demo_client) = Some (Some s, demo_proxy 1 [] demo_client)
    \<and> main_registers 5 6 (s, demo_proxy 1 [] demo_client) = Some (Inr st) \<and> proxy_step (\<lambda>_. []) 6 st st'
    \<and> sel_wf (fst st') \<and> (\<forall>fd h i d. registered (fst st') fd = Some (h, i, d) \<longrightarrow> data_ok (snd st') h d)"
proof -
  let ?w = "demo_proxy 1 [] demo_client" and ?tab = "proxy_callbacks (\<lambda>_. []) 3 :: table"
  let ?p = "pf_next (px_os ?w)"
  obtain s where s: "selector_new ?tab True (Some (\<lambda>_. blank_item)) 1024 ?w = Some (Some s, ?w)" "sel_wf s" "registered s = Map.empty"
      "1024 < fd_size s" "resolution_jobs s = []" "\<not> resolution_mutex s"
    using new_wf [of 1024 ?tab "\<lambda>_. blank_item" ?w] by (auto simp: sizes)
  obtain s1 where s1: "register 0 Logging_handlers OP_WRITE Log_ptr (s, ?w) = Some (SELECTOR_SUCCESS, s1, ?w\<lparr>px_os := ?p\<rparr>)"
    "sel_wf s1" "registered s1 = [0 \<mapsto> (Logging_handlers, OP_WRITE, Some Log_ptr)]" "same_rest s s1"
    using register_st [OF s(2), of 0 Logging_handlers OP_WRITE Log_ptr ?w] s(3,4) by (auto simp: sizes)
  obtain s2 where s2: "selector_register (px_realloc (?w\<lparr>px_os := ?p\<rparr>) (pf_count ?p)) 5 (Some Listen_handler) OP_READ None s1 = Some (SELECTOR_SUCCESS, s2)"
    "sel_wf s2" "registered s2 = (registered s1)(5 \<mapsto> (Listen_handler, OP_READ, None))" "same_rest s1 s2"
    using register_room [OF s1(2), of 5] s1(3,4) s(4) by (fastforce simp: sizes same_rest_def)
  obtain s3 where s3: "register 6 Admin_handler OP_READ Admin_ptr (s2, ?w\<lparr>px_os := ?p\<rparr>) = Some (SELECTOR_SUCCESS, s3, ?w\<lparr>px_os := pf_next ?p\<rparr>)"
    "sel_wf s3" "registered s3 = (registered s2)(6 \<mapsto> (Admin_handler, OP_READ, Some Admin_ptr))" "same_rest s2 s3"
    using register_st [OF s2(2), of 6 Admin_handler OP_READ Admin_ptr "?w\<lparr>px_os := ?p\<rparr>"] s1(3,4) s2(3,4) s(4) by (auto simp: sizes same_rest_def)
  let ?w3 = "?w\<lparr>px_os := pf_next ?p, px_admin := (px_admin ?w)\<lparr>ad_queue := q_init 6 (Some 0) (ad_queue (px_admin ?w))\<rparr>\<rparr>"
  have st: "main_registers 5 6 (s, ?w) = Some (Inr (s3, ?w3))"
    using s1(1) s2(1) s3(1) by (simp add: main_registers_def log_example_def)
  obtain s4 where s4: "set_interest 6 OP_READ (s3, ?w3) = Some (s4, ?w3)" "same_rest s3 s4"
    using set_interest_any [OF s3(2), of 6] s3(3) by fastforce
  have e: "q_is_empty (ad_queue (px_admin ?w3))"
    by (simp add: q_is_empty_def q_init_def demo_proxy_def sample_admin_def q_empty_def)
  have "resolution_jobs s4 = []" "\<not> resolution_mutex s4" using s(5,6) s1(4) s2(4) s3(4) s4(2) by (simp_all add: same_rest_def)
  then have "\<exists>s5. main_round (\<lambda>_. []) 3 6 Errno_EINTR (s3, ?w3) = Some (Inr (s5, ?w3))"
    using s4(1) e by (simp add: main_round_def selector_select_def handle_block_notifications_def)
  then obtain s5 where step: "proxy_step (\<lambda>_. []) 6 (s3, ?w3) (s5, ?w3)" by (blast intro: loop_round)
  from proxy_types [OF s(1) _ st, of "\<lambda>_. []" "(s5, ?w3)"] step s(1) st show ?thesis
    by (intro exI [of _ s] exI [of _ "(s3, ?w3)"] exI [of _ "(s5, ?w3)"]) (auto simp: sizes)
qed

section \<open>A new connection\<close>

text \<open>A buffer as \<open>client_new\<close> makes it: empty, with the reserved zone behind it.\<close>

definition fresh_buffer :: "nat \<Rightarrow> buffer \<Rightarrow> bool" where
  "fresh_buffer bsize b \<longleftrightarrow> buf_inv b \<and> pending b = [] \<and> resv b = 0 \<and> room b = bsize - 255"

definition has_memory :: "proxy \<Rightarrow> bool" where
  "has_memory w \<longleftrightarrow> (\<forall>k. pf_blocks (px_os w) k \<noteq> None)"

text \<open>What the calls of the system during the creation leave alone.\<close>

definition same_program :: "proxy \<Rightarrow> proxy \<Rightarrow> bool" where
  "same_program w w' \<longleftrightarrow> px_clients w' = px_clients w \<and> px_admin w' = px_admin w \<and> px_log w' = px_log w \<and> px_lookups w' = px_lookups w
     \<and> px_realloc w' = px_realloc w \<and> pf_blocks (px_os w') = pf_blocks (px_os w) \<and> px_next w' = px_next w \<and> px_fresh w' = px_fresh w"

lemma same_program_refl [simp]: "same_program w w"
  by (simp add: same_program_def)

lemma same_program_calls [simp]:
  "same_program w (snd (os_call w')) = same_program w w'" "same_program w (snd (new_buffer k w')) = same_program w w'"
  "same_program w (snd (set_nio w')) = same_program w w'" "same_program w (snd (snd (transformations_new w'))) = same_program w w'"
  by (simp_all add: same_program_def os_call_def sys_call_def new_buffer_def sys_malloc_def pf_next_def set_nio_def transformations_new_def
      close_fd_def sys_close_def Let_def split_beta split: option.split)

lemma new_buffer_fresh:
  assumes "has_memory w" "same_program w w'" "255 \<le> bsize"
  shows "fresh_buffer bsize (fst (new_buffer bsize w'))"
proof -
  obtain m where "sys_malloc bsize (px_os w') = (Some m, pf_next (px_os w'))" "length m = bsize"
    using assms(1,2) by (auto simp: sys_malloc_def has_memory_def same_program_def dest: spec [of _ "pf_count (px_os w')"])
  then show ?thesis using assms(3) by (simp add: new_buffer_def fresh_buffer_def buf_inv_init_r init_r_view)
qed

text \<open>The struct that a connection gets, when nothing is wrong with the memory and the configuration.\<close>

definition fresh_client :: "int \<Rightarrow> nat \<Rightarrow> client \<Rightarrow> bool" where
  "fresh_client fd bsize c \<longleftrightarrow> cl_state c = NO_ORIGIN \<and> cl_err c = NO_ERROR \<and> client_fd c = fd \<and> origin_fd c = - 1 \<and> \<not> shouldTransform c
     \<and> no_host (cl_host c) \<and> hd_resolved (cl_host c) = None
     \<and> (\<exists>r. req_data c = defaultRequestStruct r) \<and> (\<exists>r. res_data c = defaultResponseStruct r)
     \<and> fresh_buffer bsize (pre_req_parse_buf c) \<and> fresh_buffer bsize (post_req_parse_buf c) \<and> fresh_buffer bsize (pre_res_parse_buf c)
     \<and> fresh_buffer bsize (post_res_parse_buf c) \<and> fresh_buffer bsize (pre_transf_buf c)"

lemma client_new_fresh:
  assumes "has_memory w" "buffers_size w = Some bsize" "255 \<le> bsize"
    "length (hd_fqdn (cl_host (px_fresh w (px_next w)))) = MAX_DOMAIN_NAME_LENGTH + 1"
  shows "\<exists>w' c b now. client_new fd (s, w) = Some (px_next w, s, w') \<and> px_clients w' = (px_clients w)(px_next w \<mapsto> c) \<and> fresh_client fd bsize c
    \<and> (connection_time c, ad_metrics (px_admin w')) = metric_new_connection b now (ad_metrics (px_admin w))
    \<and> ad_configs (px_admin w') = ad_configs (px_admin w) \<and> px_log w' = px_log w \<and> px_lookups w' = px_lookups w \<and> px_realloc w' = px_realloc w"
proof -
  let ?a = "px_next w"
  obtain f where f: "(hd_fqdn (cl_host (px_fresh w ?a)))[0 := 0] = f" "length f = MAX_DOMAIN_NAME_LENGTH + 1" "f ! 0 = 0"
    using assms(4) by (metis length_list_update nth_list_update_eq add_gr_0 zero_less_one)
  define c0 where "c0 = (px_fresh w ?a)\<lparr>cl_state := NO_ORIGIN, cl_err := NO_ERROR, client_fd := fd, origin_fd := - 1, shouldTransform := False,
       cl_host := (cl_host (px_fresh w ?a))\<lparr>hd_fqdn := f, hd_resolved := None\<rparr>\<rparr>"
  have c0: "client_default fd (px_fresh w ?a) = Some c0"
    using assms(4) f by (simp add: client_default_def c0_def)
  obtain m where m: "sys_malloc 1 (px_os w) = (Some m, pf_next (px_os w))"
    using assms(1) by (auto simp: sys_malloc_def has_memory_def dest: spec [of _ "pf_count (px_os w)"])
  define w0 where "w0 = w\<lparr>px_os := pf_next (px_os w), px_next := Suc ?a\<rparr>"
  define w1 where "w1 = snd (snd (transformations_new w0))"
  define fds where "fds = fst (snd (transformations_new w0))"
  define c1 where "c1 = (case fds of None \<Rightarrow> c0 | Some (i, out) \<Rightarrow> c0\<lparr>transf_in_fd := i, transf_out_fd := out\<rparr>)"
  define w2 where "w2 = set_client ?a c1 w1"
  define w3 where "w3 = snd (new_buffer bsize w2)"
  define w4 where "w4 = snd (new_buffer bsize w3)"
  define w5 where "w5 = snd (new_buffer bsize w4)"
  define w6 where "w6 = snd (new_buffer bsize w5)"
  define w7 where "w7 = snd (new_buffer bsize w6)"
  define w8 where "w8 = snd (os_call w7)"
  define w9 where "w9 = snd (os_call w8)"
  note worlds = w1_def w3_def w4_def w5_def w6_def w7_def w8_def w9_def
  have same: "same_program w2 w3" "same_program w2 w4" "same_program w2 w5" "same_program w2 w6" "same_program w2 w9" "same_program w0 w1" "same_program w2 w7"
    by (simp_all add: worlds)
  have mem: "has_memory w2" using assms(1) same(6) by (simp add: w2_def w0_def has_memory_def same_program_def pf_next_def)
  define c where "c = c1\<lparr>req_data := defaultRequestStruct (req_data c1), res_data := defaultResponseStruct (res_data c1),
    pre_req_parse_buf := fst (new_buffer bsize w2), post_req_parse_buf := fst (new_buffer bsize w3), pre_res_parse_buf := fst (new_buffer bsize w4),
    post_res_parse_buf := fst (new_buffer bsize w5), pre_transf_buf := fst (new_buffer bsize w6)\<rparr>"
  define b where "b = (if fst (os_call w7) = 0 then None else Some \<lparr>init_time = 0, end_time = 0\<rparr>)"
  define ct where "ct = metric_new_connection b (fst (os_call w8)) (ad_metrics (px_admin w7))"
  have c1: "\<not> shouldTransform c1" "px_clients w2 ?a = Some c1"
    by (auto simp: c1_def c0_def w2_def split: option.split)
  have "buffers_size w2 = Some bsize" using assms(2) same(6) by (simp add: buffers_size_def w2_def same_program_def w0_def)
  then have "client_new fd (s, w) = Some (?a, s, set_client ?a (c\<lparr>connection_time := fst ct\<rparr>) (with_metrics (\<lambda>_. snd ct) w9))"
    using m c0 c1
    by (simp add: client_new_def register_transformation_def Let_def split_beta w0_def [symmetric] w1_def [symmetric] fds_def [symmetric]
        c1_def [symmetric] w2_def [symmetric] w3_def [symmetric] w4_def [symmetric] w5_def [symmetric] w6_def [symmetric] w7_def [symmetric]
        w8_def [symmetric] w9_def [symmetric] b_def [symmetric] ct_def [symmetric]) (simp add: c_def)
  moreover have "fresh_client fd bsize (c\<lparr>connection_time := fst ct\<rparr>)"
    using new_buffer_fresh [OF mem same_program_refl assms(3)] new_buffer_fresh [OF mem same(1) assms(3)] new_buffer_fresh [OF mem same(2) assms(3)]
      new_buffer_fresh [OF mem same(3) assms(3)] new_buffer_fresh [OF mem same(4) assms(3)] f(2,3)
    by (auto simp: fresh_client_def c_def c1_def c0_def no_host_def split: option.split)
  ultimately show ?thesis using same(5-7)
    by (intro exI [of _ "set_client ?a (c\<lparr>connection_time := fst ct\<rparr>) (with_metrics (\<lambda>_. snd ct) w9)"]
        exI [of _ "c\<lparr>connection_time := fst ct\<rparr>"] exI [of _ b] exI [of _ "fst (os_call w8)"])
      (simp add: ct_def same_program_def w2_def w0_def with_metrics_def set_client_def)
qed

text \<open>C25
  A connection that is accepted becomes a client that waits for its first request: the struct is at a new
  address and has the descriptor, no host and no origin, new parser states and five empty buffers of the
  configured size less the reserved zone; it is registered to be read from, the metrics count the connection, and
  nothing else of the program changes. As long as the log has room the client is in the state from which
  \<open>program_forwards_request\<close> starts.\<close>

theorem accepted_client:
  assumes "sel_wf s" "has_memory w" "buffers_size w = Some bsize" "255 \<le> bsize"
    "length (hd_fqdn (cl_host (px_fresh w (px_next w)))) = MAX_DOMAIN_NAME_LENGTH + 1"
    "fst (os_call w) = fd" "0 \<le> fd" "fd < int (fd_size s)" "fd < int FD_SETSIZE" "registered s fd = None"
  shows "\<exists>s' w' c b now. listen_read_handler key (s, w) = Some (s', w') \<and> sel_wf s' \<and> px_clients w' = (px_clients w)(px_next w \<mapsto> c)
    \<and> fresh_client fd bsize c \<and> registered s' = (registered s)(fd \<mapsto> (Client_handlers, OP_READ, Some (Client_ptr (px_next w))))
    \<and> (connection_time c, ad_metrics (px_admin w')) = metric_new_connection b now (ad_metrics (px_admin w))
    \<and> ad_configs (px_admin w') = ad_configs (px_admin w) \<and> px_log w' = px_log w \<and> px_lookups w' = px_lookups w
    \<and> (connection_time c \<noteq> None \<longrightarrow> log_ready s' w' (length (resolving_line (map tolower h))) \<longrightarrow> expects_request s' w' (px_next w) c h)"
proof -
  define w1 where "w1 = snd (os_call w)"
  have same: "same_program w w1" by (simp add: w1_def)
  then have m: "has_memory w1" "buffers_size w1 = Some bsize" "length (hd_fqdn (cl_host (px_fresh w1 (px_next w1)))) = MAX_DOMAIN_NAME_LENGTH + 1"
    using assms(2,3,5) by (simp_all add: has_memory_def buffers_size_def same_program_def)
  obtain w2 c b now where n: "client_new fd (s, w1) = Some (px_next w1, s, w2)" "px_clients w2 = (px_clients w1)(px_next w1 \<mapsto> c)"
    "fresh_client fd bsize c" "(connection_time c, ad_metrics (px_admin w2)) = metric_new_connection b now (ad_metrics (px_admin w1))"
    "ad_configs (px_admin w2) = ad_configs (px_admin w1)" "px_log w2 = px_log w1" "px_lookups w2 = px_lookups w1"
    using client_new_fresh [OF m(1,2) assms(4) m(3), of fd s] by blast
  define w3 where "w3 = snd (set_nio w2)"
  obtain s' where r: "register fd Client_handlers OP_READ (Client_ptr (px_next w)) (s, w3) = Some (SELECTOR_SUCCESS, s', w3\<lparr>px_os := pf_next (px_os w3)\<rparr>)"
    "sel_wf s'" "registered s' = (registered s)(fd \<mapsto> (Client_handlers, OP_READ, Some (Client_ptr (px_next w))))"
    using register_st [OF assms(1,7-10), of Client_handlers OP_READ "Client_ptr (px_next w)" w3] by blast
  have a: "px_next w1 = px_next w" "px_clients w1 = px_clients w" "px_admin w1 = px_admin w" "px_log w1 = px_log w" "px_lookups w1 = px_lookups w"
    using same by (simp_all add: same_program_def)
  have "os_call w = (fd, w1)" using assms(6) by (simp add: w1_def prod_eq_iff)
  then have l: "listen_read_handler key (s, w) = Some (s', w3\<lparr>px_os := pf_next (px_os w3)\<rparr>)"
    using n(1) r(1) assms(7) a(1) by (simp add: listen_read_handler_def Let_def split_beta w3_def [symmetric])
  let ?w = "w3\<lparr>px_os := pf_next (px_os w3)\<rparr>"
  have "connection_time c \<noteq> None \<Longrightarrow> client_ok s' ?w (px_next w) c"
    using r(2,3) n(2,3) a assms(7) by (auto simp: client_ok_def w3_def fresh_client_def)
  then have "connection_time c \<noteq> None \<longrightarrow> log_ready s' ?w (length (resolving_line (map tolower h))) \<longrightarrow> expects_request s' ?w (px_next w) c h"
    using n(3) by (simp add: expects_request_def fresh_client_def fresh_buffer_def)
  with l r(2,3) n a show ?thesis
    by (intro exI [of _ s'] exI [of _ ?w] exI [of _ c] exI [of _ b] exI [of _ now]) (simp add: w3_def set_nio_view)
qed

definition accepting_proxy :: proxy where
  "accepting_proxy = (demo_proxy 5 [] demo_client)\<lparr>px_admin := sample_admin\<lparr>ad_configs :=
       [\<lparr>cf_name = strncpy 21 (str ''buffers_size''), cf_value = str ''300'' @ [0]\<rparr>]\<rparr>,
     px_os := (px_os (demo_proxy 5 [] demo_client))\<lparr>pf_blocks := (\<lambda>_. Some [])\<rparr>\<rparr>"

lemma accepting_view:
  "has_memory accepting_proxy" "px_next accepting_proxy = 1" "px_fresh accepting_proxy = (\<lambda>_. demo_client)" "fst (os_call accepting_proxy) = 5"
  by (simp_all add: accepting_proxy_def demo_proxy_def has_memory_def os_call_def sys_call_def Let_def)

lemma accepting_size: "buffers_size accepting_proxy = Some 300"
proof -
  have "strncmp_eq (Suc MAX_NAME) (str ''buffers_size'' @ [0]) (strncpy 21 (str ''buffers_size''))"
    by (simp add: strncpy_def MAX_NAME_def numeral_eq_Suc)
  moreover have "c_atoi (c_string (str ''300'' @ [0])) = 300"
    by (simp add: c_string_def c_atoi_def digits_value_def isspace_def isdigit_def c_int_def)
  ultimately show ?thesis by (simp add: buffers_size_def accepting_proxy_def config_get_def c_str_def)
qed

theorem accepted_client_witness:
  "\<exists>s' w' c b now. listen_read_handler \<lparr>key_fd = 1, key_data = None\<rparr> (demo_selector OP_NOOP None, accepting_proxy) = Some (s', w') \<and> sel_wf s'
    \<and> px_clients w' = (px_clients accepting_proxy)(px_next accepting_proxy \<mapsto> c) \<and> fresh_client 5 300 c
    \<and> registered s' = (registered (demo_selector OP_NOOP None))(5 \<mapsto> (Client_handlers, OP_READ, Some (Client_ptr (px_next accepting_proxy))))
    \<and> (connection_time c, ad_metrics (px_admin w')) = metric_new_connection b now (ad_metrics (px_admin accepting_proxy))
    \<and> ad_configs (px_admin w') = ad_configs (px_admin accepting_proxy) \<and> px_log w' = px_log accepting_proxy
    \<and> px_lookups w' = px_lookups accepting_proxy
    \<and> (connection_time c \<noteq> None \<longrightarrow> log_ready s' w' (length (resolving_line (map tolower (str ''ab''))))
        \<longrightarrow> expects_request s' w' (px_next accepting_proxy) c (str ''ab''))"
  by (rule accepted_client [OF demo_wf accepting_view(1) accepting_size])
    (simp_all add: accepting_view demo_registered sizes, simp_all add: demo_client_def demo_host_def strncpy_def MAX_DOMAIN_NAME_LENGTH_def demo_selector_def)

end
