(* ===== verification/MainSetup.thy ===== *)
theory MainSetup
  imports ProxyProperties
begin

unbundle bit_operations_syntax

text \<open>
  The set-up of \<open>main.c\<close>, from the options to the main loop: the sockets, the selector, the log and the first
  registrations. Every call of the system is answered with a number; the calls that make the sockets what
  they are are recorded. With the exit code comes what is printed before.
\<close>

section \<open>The sockets\<close>

datatype net_call = Socket string | Bind int int | Set_option int string | Listen int int

definition LISTENQ :: int where "LISTENQ = 10"

type_synonym net_state = "proxy \<times> net_call list"

type_synonym 'a outcome = "((int \<times> string) + 'a) \<times> net_state"

definition net :: "net_call \<Rightarrow> net_state \<Rightarrow> int \<times> net_state" where
  "net call n = (let (r, w) = os_call (fst n) in (r, w, snd n @ [call]))"

text \<open>\<open>main\<close> up to the second \<open>listen\<close>: the descriptors of the two sockets.\<close>

definition main_sockets :: "config list \<Rightarrow> net_state \<Rightarrow> (int \<times> int) outcome option" where
  "main_sockets cs n = do {
     proxy_port \<leftarrow> port_of ''proxy_port'' cs;
     let (admin_socket, n1) = net (Socket ''AF_INET IPPROTO_SCTP'') n;
     if admin_socket < 0 then Some (Inl (1, ''creating socket''), n1)
     else do {
       mgmt_port \<leftarrow> port_of ''mgmt_port'' cs;
       Some (let (r2, n2) = net (Bind admin_socket mgmt_port) n1
         in if r2 < 0 then (Inl (1, ''binding socket''), n2)
         else let (r3, n3) = net (Set_option admin_socket ''SCTP_EVENTS'') n2
         in if r3 < 0 then (Inl (1, ''setting socket's options''), n3)
         else let (r4, n4) = net (Listen admin_socket LISTENQ) n3
         in if r4 < 0 then (Inl (1, ''listening socket''), n4)
         else let (server, n5) = net (Socket ''AF_INET6 IPPROTO_TCP'') n4
         in if server < 0 then (Inl (1, ''unable to create socket''), n5)
         else let (_, n6) = net (Set_option server ''SO_REUSEADDR'') n5; (r7, n7) = net (Bind server proxy_port) n6
         in if r7 < 0 then (Inl (1, ''unable to bind socket''), n7)
         else let (r8, n8) = net (Listen server 20) n7
         in if r8 < 0 then (Inl (1, ''unable to listen''), n8)
         else (Inr (admin_socket, server), n8))
     }
   }"

section \<open>The selector and the log\<close>

text \<open>\<open>selector_init\<close> and \<open>selector_new(1024)\<close>, with \<open>calloc\<close> and \<open>realloc\<close> answered by the system.\<close>

definition new_selector :: "table \<Rightarrow> proxy \<Rightarrow> (selector option \<times> proxy) option" where
  "new_selector tab w =
     (let (mem, p) = sys_malloc 1 (px_os w)
      in selector_new tab (mem \<noteq> None) (px_realloc w (pf_count p)) 1024 (w\<lparr>px_os := pf_next p\<rparr>))"

definition main_selector :: "table \<Rightarrow> int \<Rightarrow> int \<Rightarrow> proxy \<Rightarrow> ((int \<times> string + selector) \<times> proxy) option" where
  "main_selector tab server admin_socket w =
     (let (r1, w1) = set_nio w
      in if r1 = - 1 then Some (Inl (1, ''getting server socket flags''), w1)
         else (let (r2, w2) = set_nio w1
           in if r2 = - 1 then Some (Inl (1, ''getting server socket flags''), w2)
              else (let (mask, w3) = os_call w2; (act, w4) = (if mask = - 1 then (0, w3) else os_call w3)
                in if fst (selector_init () mask act) \<noteq> SELECTOR_SUCCESS then Some (Inl (1, ''initializing selector''), w4)
                   else do {
                     (s, w5) \<leftarrow> new_selector tab w4;
                     case s of None \<Rightarrow> Some (Inl (1, ''unable to create selector''), w5) | Some s \<Rightarrow> Some (Inr s, w5)
                   })))"

text \<open>The result of \<open>log_start\<close> is not tested.\<close>

definition main_log :: "proxy \<Rightarrow> proxy" where
  "main_log w =
     (let (rc, w1) = os_call w; (fd0, w2) = os_call w1; (fd1, w3) = os_call w2; (mem, p) = sys_malloc 8192 (px_os w3)
      in w3\<lparr>px_os := p, px_log := snd (log_start rc (fd0, fd1) mem (px_log w3))\<rparr>)"

text \<open>
  All of it: the state in which the main loop starts, with the descriptor of the administration's socket, or
  the exit code and what is printed.
\<close>

definition main_start :: "table \<Rightarrow> (char \<times> byte list) list \<Rightarrow> proxy \<Rightarrow> ((int \<times> string + int \<times> st) \<times> net_call list) option" where
  "main_start tab opts w =
     (case main_configs opts (ad_configs (px_admin w)) of
        Inl code \<Rightarrow> Some (Inl (code, []), [])
      | Inr cs \<Rightarrow> do {
          (r, w1, calls) \<leftarrow> main_sockets cs (w\<lparr>px_admin := (px_admin w)\<lparr>ad_configs := cs\<rparr>\<rparr>, []);
          case r of
            Inl e \<Rightarrow> Some (Inl e, calls)
          | Inr (admin_socket, server) \<Rightarrow> do {
              (r', w2) \<leftarrow> main_selector tab server admin_socket w1;
              case r' of
                Inl e \<Rightarrow> Some (Inl e, calls)
              | Inr s \<Rightarrow> do {
                  r'' \<leftarrow> main_registers server admin_socket (s, main_log w2);
                  Some (case r'' of Inl e \<Rightarrow> Inl e | Inr st \<Rightarrow> Inr (admin_socket, st), calls)
                }
            }
        })"

section \<open>The options\<close>

text \<open>The configuration an option sets.\<close>

definition option_name :: "char \<Rightarrow> string option" where
  "option_name c = map_of [(CHR ''e'', ''error_file''), (CHR ''l'', ''proxy_addr''), (CHR ''L'', ''mgmt_addr''), (CHR ''M'', ''media_types''),
     (CHR ''o'', ''mgmt_port''), (CHR ''p'', ''proxy_port''), (CHR ''t'', ''cmd'')] c"

definition option_puts :: "(char \<times> byte list) list \<Rightarrow> (byte list \<times> byte list) list" where
  "option_puts opts = List.map_filter (\<lambda>(c, v). map_option (\<lambda>n. (str n, v)) (option_name c)) opts"

definition defaults :: "(string \<times> byte list) list" where
  "defaults = [(''media_types'', str ''text/plain''), (''cmd'', str ''cat''), (''buffers_size'', str ''8192''),
     (''proxy_port'', str ''8080''), (''mgmt_port'', str ''9090''), (''error_file'', str ''/dev/null'')]"

definition default_puts :: "(byte list \<times> byte list) list" where
  "default_puts = map (\<lambda>(n, v). (str n, v)) defaults"

definition stops :: "char \<Rightarrow> bool" where
  "stops c \<longleftrightarrow> c = CHR ''h'' \<or> c = CHR ''v''"

lemma puts_append: "snd (puts put (xs @ ys) s) = snd (puts put ys (snd (puts put xs s)))"
  by (induction xs arbitrary: s) (simp_all add: Let_def split_beta)

lemma argument_get_puts:
  "argument_get opts cs = (if \<exists>(c, v) \<in> set opts. stops c then Inl 0 else Inr (snd (puts config_create (option_puts opts) cs)))"
proof (induction opts arbitrary: cs)
  case (Cons co opts)
  obtain c v where co: "co = (c, v)" by fastforce
  show ?case
  proof (cases "stops c")
    case True
    then show ?thesis by (auto simp: co stops_def)
  next
    case False
    have "argument_get (co # opts) cs = argument_get opts (snd (puts config_create (option_puts [co]) cs))"
      using False by (simp add: co stops_def option_puts_def option_name_def map_filter_simps create_def Let_def split_beta)
    also have "\<dots> = (if \<exists>(c, v) \<in> set opts. stops c then Inl 0
        else Inr (snd (puts config_create (option_puts opts) (snd (puts config_create (option_puts [co]) cs)))))"
      by (rule Cons.IH)
    also have "snd (puts config_create (option_puts opts) (snd (puts config_create (option_puts [co]) cs))) =
        snd (puts config_create (option_puts (co # opts)) cs)"
      unfolding puts_append [symmetric] by (simp add: option_puts_def map_filter_def)
    finally show ?thesis using False by (simp add: co)
  qed
qed (simp add: option_puts_def map_filter_simps)

lemma main_configs_puts:
  "main_configs opts [] = (if \<exists>(c, v) \<in> set opts. stops c then Inl 0 else Inr (snd (puts config_create (default_puts @ option_puts opts) [])))"
  unfolding main_configs_def argument_get_puts puts_append
  by (simp add: initialize_configurations_def create_def default_puts_def defaults_def Let_def split_beta)

text \<open>The table never gets full: there are only so many names.\<close>

lemma config_create_names: "cf_name ` set (snd (config_create n v cs)) \<subseteq> insert (cf_key n) (cf_name ` set cs)"
proof (cases "config_find n cs")
  case (Some i)
  then have "snd (config_create n v cs) = cs[i := (cs ! i)\<lparr>cf_value := v @ [0]\<rparr>]" by (simp add: config_create_def)
  moreover have "cf_name c \<in> cf_name ` set cs" if "c \<in> set (cs[i := (cs ! i)\<lparr>cf_value := v @ [0]\<rparr>])" for c
  proof (cases "i < length cs")
    case True
    then show ?thesis using that set_update_subset_insert [of cs i] by (force intro: image_eqI [of _ _ "cs ! i"])
  qed (use that in \<open>simp add: list_update_beyond\<close>)
  ultimately show ?thesis by auto
qed (auto simp: config_create_def)

lemma puts_few:
  assumes "table_ok cs" "cf_name ` set cs \<subseteq> set K" "\<forall>(k, v) \<in> set kvs. c_name k \<and> cf_key k \<in> set K" "length K < MAX_CONFIG"
  shows "fst (puts config_create kvs cs)"
  using assms
proof (induction kvs arbitrary: cs)
  case (Cons kv kvs)
  let ?cs = "snd (config_create (fst kv) (snd kv) cs)"
  have "length cs = card (cf_name ` set cs)"
    using Cons.prems(1) distinct_card [of "map cf_name cs"] unfolding table_ok_def by simp
  also have "\<dots> \<le> length K" using card_mono [OF finite_set Cons.prems(2)] card_length [of K] by (rule le_trans)
  finally have len: "length cs < MAX_CONFIG" using Cons.prems(4) by (rule le_less_trans)
  have r: "fst (config_create (fst kv) (snd kv) cs) = 0" by (rule config_create_room [OF len])
  have n: "c_name (fst kv)" "cf_key (fst kv) \<in> set K" "\<forall>(k, v) \<in> set kvs. c_name k \<and> cf_key k \<in> set K"
    using Cons.prems(3) by (simp_all add: split_beta del: strncpy_simps)
  have t: "table_ok ?cs" by (rule config_create_table_ok [OF Cons.prems(1) n(1)])
  have "cf_name ` set ?cs \<subseteq> set K"
    by (rule order_trans [OF config_create_names]) (use n(2) Cons.prems(2) in \<open>simp only: insert_subset simp_thms\<close>)
  from Cons.IH [OF t this n(3) Cons.prems(4)] have "fst (puts config_create kvs ?cs)" .
  with r show ?case by (simp add: Let_def split_beta del: strncpy_simps)
qed simp

definition known_names :: "string list" where
  "known_names = [''error_file'', ''proxy_addr'', ''mgmt_addr'', ''media_types'', ''mgmt_port'', ''proxy_port'', ''cmd'', ''buffers_size'']"

lemma known_ok: "n \<in> set known_names \<Longrightarrow> c_name (str n) \<and> length (str n) \<le> MAX_NAME"
  by (auto simp: known_names_def c_name_def MAX_NAME_def)

lemma str_inj: "str n = str m \<longleftrightarrow> n = m"
proof -
  have u: "uint (of_char c :: byte) = of_char c" for c
    by (subst of_int_of_char [symmetric]) (simp add: uint_word_of_int)
  have "inj (of_char :: char \<Rightarrow> byte)"
    by (rule injI) (metis u of_char_eq_iff)
  then show ?thesis by (simp add: str_def inj_map_eq_map)
qed

lemma known_inj: "n \<in> set known_names \<Longrightarrow> m \<in> set known_names \<Longrightarrow> cf_key (str n) = cf_key (str m) \<longleftrightarrow> n = m"
  using key_inj [of "str n" "str m"] known_ok [of n] known_ok [of m] str_inj by blast

lemma option_known: "option_name c = Some n \<Longrightarrow> n \<in> set known_names"
  by (auto simp: option_name_def known_names_def split: if_splits)

lemma default_known: "(n, v) \<in> set defaults \<Longrightarrow> n \<in> set known_names"
  by (auto simp: defaults_def known_names_def)

lemma default_puts_known: "(k, v) \<in> set default_puts \<Longrightarrow> \<exists>n \<in> set known_names. k = str n"
  using default_known by (fastforce simp: default_puts_def)

lemma find_default:
  "distinct (map fst xs) \<Longrightarrow> set (map fst xs) \<subseteq> set known_names \<Longrightarrow> n \<in> set known_names \<Longrightarrow>
    find (\<lambda>(k, v). cf_key k = cf_key (str n)) (rev (map (\<lambda>(n, v). (str n, v)) xs)) = map_option (Pair (str n)) (map_of xs n)"
proof (induction xs)
  case (Cons x xs)
  have "cf_key (str (fst x)) = cf_key (str n) \<longleftrightarrow> fst x = n" using Cons.prems known_inj by simp
  moreover have "fst x = n \<Longrightarrow> map_of xs n = None" using Cons.prems(1) by (auto simp: map_of_eq_None_iff)
  ultimately show ?case using Cons by (auto simp: find_append split_beta split: option.split)
qed simp

lemma option_puts_known: "(k, v) \<in> set (option_puts opts) \<Longrightarrow> \<exists>n \<in> set known_names. k = str n"
  using option_known by (fastforce simp: option_puts_def map_filter_def)

lemma find_option:
  "n \<in> set known_names \<Longrightarrow> find (\<lambda>(k, v). cf_key k = cf_key (str n)) (rev (option_puts opts)) =
    map_option (\<lambda>(c, v). (str n, v)) (find (\<lambda>(c, v). option_name c = Some n) (rev opts))"
proof (induction opts rule: rev_induct)
  case (snoc co opts)
  have "rev (option_puts (opts @ [co])) = rev (option_puts [co]) @ rev (option_puts opts)"
    by (simp add: option_puts_def map_filter_def)
  moreover have "option_name (fst co) = Some m \<Longrightarrow> cf_key (str m) = cf_key (str n) \<longleftrightarrow> m = n" for m
    using known_inj [OF option_known snoc.prems] by blast
  ultimately show ?case using snoc
    by (cases "option_name (fst co)") (auto simp: option_puts_def map_filter_simps find_append split_beta split: option.split)
qed (simp add: option_puts_def map_filter_simps)

text \<open>C39
  The options and the defaults: unless an option ends the program, each configuration the program starts with
  has the argument of the last option for it, or its default when there is none; however many options are
  given, the table does not get full.\<close>

theorem main_configs_options:
  assumes "\<forall>(c, v) \<in> set opts. \<not> stops c"
  shows "\<exists>cs. main_configs opts [] = Inr cs \<and> table_ok cs \<and> (\<forall>(n, v0) \<in> set defaults. config_get (str n) cs =
      Some ((case find (\<lambda>(c, v). option_name c = Some n) (rev opts) of Some (c, v) \<Rightarrow> v | None \<Rightarrow> v0) @ [0]))"
proof -
  let ?kvs = "default_puts @ option_puts opts" and ?K = "map (\<lambda>n. cf_key (str n)) known_names"
  let ?cs = "snd (puts config_create ?kvs [])"
  have ok: "table_ok []" by (simp add: table_ok_def)
  have names: "\<forall>(k, v) \<in> set ?kvs. c_name k \<and> cf_key k \<in> set ?K"
    using default_puts_known option_puts_known known_ok by fastforce
  have full: "fst (puts config_create ?kvs [])"
    by (rule puts_few [OF ok _ names]) (simp_all add: known_names_def MAX_CONFIG_def)
  have c: "\<forall>(k, v) \<in> set ?kvs. c_name k" using names by auto
  have "main_configs opts [] = Inr ?cs" using assms by (auto simp: main_configs_puts)
  moreover have "table_ok ?cs" by (rule cfg.puts_ok [OF ok c])
  moreover have "config_get (str n) ?cs =
      Some ((case find (\<lambda>(c, v). option_name c = Some n) (rev opts) of Some (c, v) \<Rightarrow> v | None \<Rightarrow> v0) @ [0])"
    if n: "(n, v0) \<in> set defaults" for n v0
  proof -
    have k: "n \<in> set known_names" using default_known [OF n] .
    have d: "distinct (map fst defaults)" by (simp add: defaults_def)
    have "set (map fst defaults) \<subseteq> set known_names" using default_known by auto
    from find_default [OF d this k] map_of_is_SomeI [OF d n]
    have "find (\<lambda>(k, v). cf_key k = cf_key (str n)) (rev default_puts) = Some (str n, v0)" by (simp add: default_puts_def)
    then show ?thesis using cfg.puts_get [OF ok c _ full, of "str n"] known_ok [OF k] find_option [OF k, of opts]
      by (auto simp: find_append split: option.splits)
  qed
  ultimately show ?thesis by blast
qed

theorem main_configs_options_witness:
  "\<exists>cs. main_configs [(CHR ''p'', str ''81''), (CHR ''o'', str ''90''), (CHR ''p'', str ''82'')] [] = Inr cs
    \<and> config_get (str ''proxy_port'') cs = Some (str ''82'' @ [0]) \<and> config_get (str ''cmd'') cs = Some (str ''cat'' @ [0])"
  using main_configs_options [of "[(CHR ''p'', str ''81''), (CHR ''o'', str ''90''), (CHR ''p'', str ''82'')]"]
  by (auto simp: stops_def defaults_def option_name_def)

section \<open>The start\<close>

text \<open>The state after \<open>k\<close> calls of the system.\<close>

definition later :: "proxy \<Rightarrow> nat \<Rightarrow> proxy" where
  "later w k = w\<lparr>px_os := (px_os w)\<lparr>pf_count := pf_count (px_os w) + k\<rparr>\<rparr>"

definition answer :: "proxy \<Rightarrow> nat \<Rightarrow> int" where
  "answer w k = pf_results (px_os w) (pf_count (px_os w) + k)"

lemma os_call_later [simp]: "os_call (later w k) = (answer w k, later w (Suc k))"
  by (simp add: os_call_def sys_call_def later_def answer_def pf_next_def)

lemma net_later [simp]: "net call (later w k, calls) = (answer w k, later w (Suc k), calls @ [call])"
  by (simp add: net_def)

lemma later_0 [simp]: "later w 0 = w"
  by (simp add: later_def)

lemma later_view [simp]: "px_log (later w k) = px_log w" "px_admin (later w k) = px_admin w" "px_clients (later w k) = px_clients w"
  "px_realloc (later w k) = px_realloc w"
  by (simp_all add: later_def)

text \<open>
  The calls up to the one that allocates the selector whose result \<open>main\<close> tests, in order: the condition under which each
  fails, which presupposes that those before have not, and the message. The results of \<open>setsockopt(SO_REUSEADDR)\<close>
  (\<open>answer w 5\<close>) and of \<open>log_start\<close> are not tested.
\<close>

definition faults :: "proxy \<Rightarrow> (bool \<times> string) list" where
  "faults w = [(answer w 0 < 0, ''creating socket''), (answer w 1 < 0, ''binding socket''), (answer w 2 < 0, ''setting socket's options''),
     (answer w 3 < 0, ''listening socket''), (answer w 4 < 0, ''unable to create socket''), (answer w 6 < 0, ''unable to bind socket''),
     (answer w 7 < 0, ''unable to listen''),
     ((of_int (answer w 8) :: 32 word) = - 1 \<or> answer w 9 = - 1 \<or> (of_int (answer w 10) :: 32 word) = - 1 \<or> answer w 11 = - 1,
        ''getting server socket flags''),
     (answer w 12 = - 1 \<or> answer w 13 \<noteq> 0, ''initializing selector''),
     (pf_blocks (px_os w) (pf_count (px_os w) + 14) = None, ''unable to create selector'')]"

definition first_fault :: "proxy \<Rightarrow> string option" where
  "first_fault w = map_option snd (find fst (faults w))"

text \<open>The calls that have been made when nothing has gone wrong.\<close>

definition net_calls :: "proxy \<Rightarrow> int \<Rightarrow> int \<Rightarrow> net_call list" where
  "net_calls w mgmt_port proxy_port = (let admin_socket = answer w 0; server = answer w 4 in
     [Socket ''AF_INET IPPROTO_SCTP'', Bind admin_socket mgmt_port, Set_option admin_socket ''SCTP_EVENTS'', Listen admin_socket 10,
      Socket ''AF_INET6 IPPROTO_TCP'', Set_option server ''SO_REUSEADDR'', Bind server proxy_port, Listen server 20])"

lemma set_nio_later:
  "set_nio (later w k) = (if (of_int (answer w k) :: 32 word) = - 1 \<and> answer w k = - 1 then (- 1, later w (Suc k))
     else (if (of_int (answer w k) :: 32 word) = - 1 \<or> answer w (Suc k) = - 1 then - 1 else 0, later w (Suc (Suc k))))"
  by (auto simp: set_nio_def selector_fd_set_nio_def Let_def)

lemma main_sockets_good:
  assumes "port_of ''proxy_port'' cs = Some pp" "port_of ''mgmt_port'' cs = Some mp"
    "answer w 0 \<ge> 0" "answer w 1 \<ge> 0" "answer w 2 \<ge> 0" "answer w 3 \<ge> 0" "answer w 4 \<ge> 0" "answer w 6 \<ge> 0" "answer w 7 \<ge> 0"
  shows "main_sockets cs (w, []) = Some (Inr (answer w 0, answer w 4), later w 8, net_calls w mp pp)"
proof -
  have "net call (w, []) = (answer w 0, later w 1, [call])" for call using net_later [of call w 0 "[]"] by simp
  then show ?thesis using assms
    by (simp add: main_sockets_def net_calls_def LISTENQ_def eval_nat_numeral Let_def)
qed

lemma main_sockets_bad:
  assumes "port_of ''proxy_port'' cs = Some pp" "port_of ''mgmt_port'' cs = Some mp"
    "find fst (take 7 (faults w)) = Some (True, msg)"
  shows "\<exists>n. main_sockets cs (w, []) = Some (Inl (1, msg), n)"
proof -
  have "net call (w, []) = (answer w 0, later w 1, [call])" for call using net_later [of call w 0 "[]"] by simp
  then show ?thesis using assms
    by (simp add: main_sockets_def faults_def eval_nat_numeral split: if_splits)
qed

lemma main_selector_good:
  assumes "(of_int (answer w 8) :: 32 word) \<noteq> - 1" "answer w 9 \<noteq> - 1" "(of_int (answer w 10) :: 32 word) \<noteq> - 1" "answer w 11 \<noteq> - 1"
    "answer w 12 \<noteq> - 1" "answer w 13 = 0" "pf_blocks (px_os w) (pf_count (px_os w) + 14) \<noteq> None"
    "px_realloc w (pf_count (px_os w) + 15) = Some junk"
  shows "\<exists>s. main_selector tab server admin_socket (later w 8) = Some (Inr s, later w 16)
    \<and> sel_wf s \<and> registered s = Map.empty \<and> 1024 < fd_size s \<and> resolution_jobs s = [] \<and> \<not> resolution_mutex s"
proof -
  obtain s where s: "selector_new tab True (Some junk) 1024 (later w 16) = Some (Some s, later w 16)" "sel_wf s" "registered s = Map.empty" "1024 < fd_size s"
    "resolution_jobs s = []" "\<not> resolution_mutex s"
    using new_wf [of 1024 tab junk "later w 16"] by (auto simp: sizes)
  have "new_selector tab (later w 14) = selector_new tab True (Some junk) 1024 (later w 16)"
    using assms(7,8) by (simp add: new_selector_def sys_malloc_def later_def pf_next_def add.commute)
  moreover have "set_nio (later w 8) = (0, later w 10)" "set_nio (later w 10) = (0, later w 12)"
    using assms(1-4) by (simp_all add: set_nio_later eval_nat_numeral)
  ultimately show ?thesis using s assms(5,6)
    by (simp add: main_selector_def selector_init_def eval_nat_numeral)
qed

lemma main_selector_bad:
  assumes "find fst (drop 7 (faults w)) = Some (True, msg)"
  shows "\<exists>w'. main_selector tab server admin_socket (later w 8) = Some (Inl (1, msg), w')"
proof -
  let ?word = "of_int :: int \<Rightarrow> 32 word"
  consider (nio) "?word (answer w 8) = - 1 \<or> answer w 9 = - 1" | (nio2) "?word (answer w 8) \<noteq> - 1" "answer w 9 \<noteq> - 1" "?word (answer w 10) = - 1 \<or> answer w 11 = - 1"
    | (signal) "?word (answer w 8) \<noteq> - 1" "answer w 9 \<noteq> - 1" "?word (answer w 10) \<noteq> - 1" "answer w 11 \<noteq> - 1" "answer w 12 = - 1 \<or> answer w 13 \<noteq> 0"
    | (calloc) "?word (answer w 8) \<noteq> - 1" "answer w 9 \<noteq> - 1" "?word (answer w 10) \<noteq> - 1" "answer w 11 \<noteq> - 1" "answer w 12 \<noteq> - 1" "answer w 13 = 0"
      "pf_blocks (px_os w) (pf_count (px_os w) + 14) = None"
    using assms by (auto simp: faults_def split: if_splits)
  then show ?thesis
  proof cases
    case nio
    then have "\<exists>w'. set_nio (later w 8) = (- 1, w')" by (auto simp: set_nio_later eval_nat_numeral)
    then show ?thesis using nio assms by (auto simp: main_selector_def faults_def split: if_splits)
  next
    case nio2
    then have "set_nio (later w 8) = (0, later w 10)" "\<exists>w'. set_nio (later w 10) = (- 1, w')" by (auto simp: set_nio_later eval_nat_numeral)
    then show ?thesis using nio2 assms by (auto simp: main_selector_def faults_def split: if_splits)
  next
    case signal
    then have "set_nio (later w 8) = (0, later w 10)" "set_nio (later w 10) = (0, later w 12)" by (auto simp: set_nio_later eval_nat_numeral)
    moreover have "msg = ''initializing selector''" using signal assms by (auto simp: faults_def split: if_splits)
    ultimately show ?thesis using signal(5) by (auto simp: main_selector_def selector_init_def eval_nat_numeral)
  next
    case calloc
    then have "set_nio (later w 8) = (0, later w 10)" "set_nio (later w 10) = (0, later w 12)" by (auto simp: set_nio_later eval_nat_numeral)
    moreover have "msg = ''unable to create selector''" using calloc assms by (auto simp: faults_def split: if_splits)
    moreover have "\<exists>w'. new_selector tab (later w 14) = Some (None, w')"
      using calloc(7) by (simp add: new_selector_def sys_malloc_def selector_new_def later_def add.commute)
    ultimately show ?thesis using calloc(5,6) by (auto simp: main_selector_def selector_init_def eval_nat_numeral)
  qed
qed

text \<open>The state with the configurations of the options.\<close>

definition configured :: "config list \<Rightarrow> proxy \<Rightarrow> proxy" where
  "configured cs w = w\<lparr>px_admin := (px_admin w)\<lparr>ad_configs := cs\<rparr>\<rparr>"

lemma configured_view [simp]: "px_os (configured cs w) = px_os w" "answer (configured cs w) = answer w" "faults (configured cs w) = faults w"
  "px_realloc (configured cs w) = px_realloc w" "px_log (configured cs w) = px_log w" "px_clients (configured cs w) = px_clients w"
  "net_calls (configured cs w) = net_calls w" "px_admin (configured cs w) = (px_admin w)\<lparr>ad_configs := cs\<rparr>"
  by (simp_all add: configured_def answer_def faults_def net_calls_def fun_eq_iff)

lemma find_fst_True: "find fst xs = Some y \<Longrightarrow> fst y"
  by (induction xs) (auto split: if_splits)

lemma main_start_faulty:
  assumes "main_configs opts (ad_configs (px_admin w)) = Inr cs"
    "port_of ''proxy_port'' cs = Some pp" "port_of ''mgmt_port'' cs = Some mp" "first_fault w = Some msg"
  shows "\<exists>calls. main_start tab opts w = Some (Inl (1, msg), calls)"
proof -
  obtain y where y: "find fst (take 7 (faults w) @ drop 7 (faults w)) = Some y" "snd y = msg" using assms(4) by (auto simp: first_fault_def)
  then have y': "y = (True, msg)" using find_fst_True by (cases y) fastforce
  show ?thesis
  proof (cases "find fst (take 7 (faults w))")
    case (Some z)
    then have "find fst (take 7 (faults (configured cs w))) = Some (True, msg)" using y y' by (simp add: find_append del: append_take_drop_id)
    from main_sockets_bad [OF assms(2,3) this] obtain n where "main_sockets cs (configured cs w, []) = Some (Inl (1, msg), n)" by blast
    then show ?thesis using assms(1) by (cases n) (simp add: main_start_def configured_def)
  next
    case None
    then have d: "find fst (drop 7 (faults (configured cs w))) = Some (True, msg)" using y y' by (simp add: find_append del: append_take_drop_id)
    have "main_sockets cs (configured cs w, []) = Some (Inr (answer w 0, answer w 4), later (configured cs w) 8, net_calls w mp pp)"
      using main_sockets_good [OF assms(2,3), of "configured cs w"] None by (auto simp: faults_def split: if_splits)
    moreover obtain w' where "main_selector tab (answer w 4) (answer w 0) (later (configured cs w) 8) = Some (Inl (1, msg), w')"
      using main_selector_bad [OF d] by blast
    ultimately show ?thesis using assms(1) by (simp add: main_start_def configured_def)
  qed
qed

lemma main_log_good:
  assumes "answer w 16 \<noteq> - 1" "pf_blocks (px_os w) (pf_count (px_os w) + 19) \<noteq> None"
  shows "\<exists>l. main_log (later w 16) = (later w 20)\<lparr>px_log := l\<rparr> \<and> lg_writefd l = answer w 18 \<and> lg_readfd l = answer w 17
    \<and> buf_inv (logbuf l) \<and> pending (logbuf l) = [] \<and> room (logbuf l) = 8192"
proof -
  obtain m where m: "sys_malloc 8192 (px_os (later w 19)) = (Some m, px_os (later w 20))" "length m = 8192"
    using assms(2) by (auto simp: sys_malloc_def later_def pf_next_def add.commute)
  let ?l = "(px_log w)\<lparr>lg_readfd := answer w 17, lg_writefd := answer w 18, logbuf := buffer_init 8192 m\<rparr>"
  have "main_log (later w 16) = (later w 20)\<lparr>px_log := ?l\<rparr>"
    using m(1) assms(1) by (simp add: main_log_def log_start_def eval_nat_numeral) (simp add: later_def)
  then show ?thesis using m(2)
    by (intro exI [of _ ?l]) (simp add: buffer_init_def buf_inv_init_r init_r_view)
qed

text \<open>The descriptor the log writes to: when its pipe fails, it stays what it was.\<close>

definition log_fd :: "proxy \<Rightarrow> int" where
  "log_fd w = (if answer w 16 = - 1 then lg_writefd (px_log w) else answer w 18)"

lemma main_log_any: "\<exists>l. main_log (later w 16) = (later w 20)\<lparr>px_log := l\<rparr> \<and> lg_writefd l = log_fd w"
proof -
  obtain m where m: "sys_malloc 8192 (px_os (later w 19)) = (m, px_os (later w 20))"
    by (simp add: sys_malloc_def later_def pf_next_def)
  let ?l = "snd (log_start (answer w 16) (answer w 17, answer w 18) m (px_log w))"
  have "main_log (later w 16) = (later w 20)\<lparr>px_log := ?l\<rparr>"
    using m by (simp add: main_log_def eval_nat_numeral) (simp add: later_def)
  moreover have "lg_writefd ?l = log_fd w" by (simp add: log_start_def log_fd_def)
  ultimately show ?thesis by blast
qed

text \<open>A registration is refused for a descriptor out of range or in use.\<close>

definition refused :: "int \<Rightarrow> int list \<Rightarrow> bool" where
  "refused fd used_fds \<longleftrightarrow> INVALID_FD fd \<or> fd \<in> set used_fds"

lemma register_refused:
  assumes "sel_wf s" "1024 < fd_size s" "dom (registered s) = set used_fds"
  shows "\<exists>st s'. selector_register mem fd (Some h) i d s = Some (st, s') \<and> sel_wf s' \<and> (st = SELECTOR_SUCCESS \<longleftrightarrow> \<not> refused fd used_fds)
    \<and> (st = SELECTOR_SUCCESS \<longrightarrow> dom (registered s') = set (fd # used_fds) \<and> 1024 < fd_size s')"
proof (cases "INVALID_FD fd")
  case True
  then show ?thesis using assms(1) by (auto simp: selector_register_def refused_def)
next
  case valid: False
  then have fd: "0 \<le> fd" "fd < 1024" by (auto simp: INVALID_FD_def sizes)
  show ?thesis
  proof (cases "registered s fd")
    case None
    from register_room [OF assms(1) fd(1) _ _ None, of mem h i d] fd(2) assms(2)
    obtain s' where "selector_register mem fd (Some h) i d s = Some (SELECTOR_SUCCESS, s')" "sel_wf s'"
      "registered s' = (registered s)(fd \<mapsto> (h, i, d))" "same_rest s s'" by (auto simp: sizes)
    moreover have "fd \<notin> set used_fds" using None assms(3) by auto
    ultimately show ?thesis using assms(2,3) valid by (simp add: refused_def same_rest_def)
  next
    case (Some x)
    have "fd = int (nat fd)" "nat fd \<noteq> fd_size s" "nat fd < FD_SETSIZE" using fd assms(2) by (auto simp: sizes)
    with register_defined [OF assms(1), of "nat fd" mem h i d] Some
    have "\<exists>s'. selector_register mem fd (Some h) i d s = Some (SELECTOR_FDINUSE, s') \<and> sel_wf s'" by auto
    moreover have "fd \<in> set used_fds" using Some assms(3) by auto
    ultimately show ?thesis by (auto simp: refused_def)
  qed
qed

text \<open>All the ways in which the set-up ends the program, in order. The first two registrations print nothing.\<close>

definition exits :: "proxy \<Rightarrow> (bool \<times> string) list" where
  "exits w = faults w @
     [(px_realloc w (pf_count (px_os w) + 15) = None, ''unable to create selector''), (refused (log_fd w) [], []),
      (refused (answer w 4) [log_fd w], []), (refused (answer w 0) [answer w 4, log_fd w], ''registering admin_socket'')]"

lemma main_registers_any:
  assumes "sel_wf s" "registered s = Map.empty" "1024 < fd_size s"
  shows "case find fst [(refused (lg_writefd (px_log w)) [], []), (refused server [lg_writefd (px_log w)], []),
      (refused admin_socket [server, lg_writefd (px_log w)], ''registering admin_socket'')] of
    Some (_, msg) \<Rightarrow> main_registers server admin_socket (s, w) = Some (Inl (1, msg))
  | None \<Rightarrow> \<exists>st. main_registers server admin_socket (s, w) = Some (Inr st)"
proof -
  let ?l = "lg_writefd (px_log w)" and ?w = "w\<lparr>px_os := pf_next (px_os w)\<rparr>"
  obtain r1 s1 where 1: "register ?l Logging_handlers OP_WRITE Log_ptr (s, w) = Some (r1, s1, ?w)"
    "r1 = SELECTOR_SUCCESS \<longleftrightarrow> \<not> refused ?l []" "sel_wf s1" "r1 = SELECTOR_SUCCESS \<longrightarrow> dom (registered s1) = set [?l] \<and> 1024 < fd_size s1"
    using register_refused [OF assms(1,3), of "[]" "px_realloc w (pf_count (px_os w))" ?l Logging_handlers OP_WRITE "Some Log_ptr"] assms(2)
    by (auto simp: register_def)
  show ?thesis
  proof (cases "refused ?l []")
    case True
    then show ?thesis using 1 by (simp add: main_registers_def)
  next
    case ok1: False
    let ?mem = "px_realloc ?w (pf_count (px_os ?w))"
    obtain r2 s2 where 2: "selector_register ?mem server (Some Listen_handler) OP_READ None s1 = Some (r2, s2)"
      "r2 = SELECTOR_SUCCESS \<longleftrightarrow> \<not> refused server [?l]" "sel_wf s2" "r2 = SELECTOR_SUCCESS \<longrightarrow> dom (registered s2) = set [server, ?l] \<and> 1024 < fd_size s2"
      using register_refused [OF 1(3), of "[?l]" ?mem server Listen_handler OP_READ None] 1(2,4) ok1 by auto
    show ?thesis
    proof (cases "refused server [?l]")
      case True
      then show ?thesis using 1 2 ok1 by (simp add: main_registers_def)
    next
      case ok2: False
      obtain r3 s3 where "register admin_socket Admin_handler OP_READ Admin_ptr (s2, ?w) = Some (r3, s3, ?w\<lparr>px_os := pf_next (px_os ?w)\<rparr>)"
        "r3 = SELECTOR_SUCCESS \<longleftrightarrow> \<not> refused admin_socket [server, ?l]"
        using register_refused [OF 2(3), of "[server, ?l]" "px_realloc ?w (pf_count (px_os ?w))" admin_socket Admin_handler OP_READ "Some Admin_ptr"]
          2(2,4) ok2 by (auto simp: register_def)
      then show ?thesis using 1 2 ok1 ok2 by (simp add: main_registers_def)
    qed
  qed
qed

lemma main_selector_full:
  assumes "(of_int (answer w 8) :: 32 word) \<noteq> - 1" "answer w 9 \<noteq> - 1" "(of_int (answer w 10) :: 32 word) \<noteq> - 1" "answer w 11 \<noteq> - 1"
    "answer w 12 \<noteq> - 1" "answer w 13 = 0" "pf_blocks (px_os w) (pf_count (px_os w) + 14) \<noteq> None"
    "px_realloc w (pf_count (px_os w) + 15) = None"
  shows "\<exists>w'. main_selector tab server admin_socket (later w 8) = Some (Inl (1, ''unable to create selector''), w')"
proof -
  obtain m where "next_capacity 1024 = Some m" using next_capacity_grows [of 1024] by (auto simp: sizes)
  then have "\<exists>w'. new_selector tab (later w 14) = Some (None, w')"
    using assms(7,8) by (auto simp: new_selector_def sys_malloc_def later_def pf_next_def add.commute selector_new_def ensure_capacity_def
      zeroed_selector_def selector_destroy_def sizes)
  moreover have "set_nio (later w 8) = (0, later w 10)" "set_nio (later w 10) = (0, later w 12)"
    using assms(1-4) by (simp_all add: set_nio_later eval_nat_numeral)
  ultimately show ?thesis using assms(5,6) by (auto simp: main_selector_def selector_init_def eval_nat_numeral)
qed

lemma main_registers_good:
  assumes s: "sel_wf s" "registered s = Map.empty" "1024 < fd_size s"
    and d: "distinct [lg_writefd (px_log w), server, admin_socket]" "\<forall>fd \<in> {lg_writefd (px_log w), server, admin_socket}. 0 \<le> fd \<and> fd < 1024"
  shows "\<exists>s'. main_registers server admin_socket (s, w) = Some (Inr (s', (later w 2)\<lparr>px_admin := (px_admin w)\<lparr>ad_queue :=
      q_init admin_socket (Some 0) (ad_queue (px_admin w))\<rparr>\<rparr>)) \<and> sel_wf s' \<and> same_rest s s'
    \<and> registered s' = [lg_writefd (px_log w) \<mapsto> (Logging_handlers, OP_WRITE, Some Log_ptr), server \<mapsto> (Listen_handler, OP_READ, None),
        admin_socket \<mapsto> (Admin_handler, OP_READ, Some Admin_ptr)]"
proof -
  let ?l = "lg_writefd (px_log w)"
  obtain s1 where s1: "register ?l Logging_handlers OP_WRITE Log_ptr (s, w) = Some (SELECTOR_SUCCESS, s1, w\<lparr>px_os := pf_next (px_os w)\<rparr>)"
    "sel_wf s1" "registered s1 = [?l \<mapsto> (Logging_handlers, OP_WRITE, Some Log_ptr)]" "same_rest s s1"
    using register_st [OF s(1), of ?l Logging_handlers OP_WRITE Log_ptr w] s(2,3) d by (auto simp: sizes)
  let ?mem = "px_realloc (w\<lparr>px_os := pf_next (px_os w)\<rparr>) (pf_count (pf_next (px_os w)))"
  obtain s2 where s2: "selector_register ?mem server (Some Listen_handler) OP_READ None s1 = Some (SELECTOR_SUCCESS, s2)"
    "sel_wf s2" "registered s2 = (registered s1)(server \<mapsto> (Listen_handler, OP_READ, None))" "same_rest s1 s2"
    using register_room [OF s1(2), of server ?mem Listen_handler OP_READ None] s1(3,4) s(3) d by (auto simp: sizes same_rest_def)
  obtain s3 where s3: "register admin_socket Admin_handler OP_READ Admin_ptr (s2, w\<lparr>px_os := pf_next (px_os w)\<rparr>) =
      Some (SELECTOR_SUCCESS, s3, w\<lparr>px_os := pf_next (pf_next (px_os w))\<rparr>)"
    "sel_wf s3" "registered s3 = (registered s2)(admin_socket \<mapsto> (Admin_handler, OP_READ, Some Admin_ptr))" "same_rest s2 s3"
    using register_st [OF s2(2), of admin_socket Admin_handler OP_READ Admin_ptr "w\<lparr>px_os := pf_next (px_os w)\<rparr>"] s1(3,4) s2(3,4) s(3) d
    by (auto simp: sizes same_rest_def)
  have "w\<lparr>px_os := pf_next (pf_next (px_os w))\<rparr> = later w 2" by (simp add: later_def pf_next_def)
  moreover have "same_rest s s3" using s1(4) s2(4) s3(4) by (blast intro: same_rest_trans)
  ultimately show ?thesis using s1(1,3) s2(1,3) s3(1-3)
    by (intro exI [of _ s3]) (simp add: main_registers_def)
qed

lemma main_start_run:
  assumes "main_configs opts (ad_configs (px_admin w)) = Inr cs"
    "port_of ''proxy_port'' cs = Some pp" "port_of ''mgmt_port'' cs = Some mp" "first_fault w = None"
    "px_realloc w (pf_count (px_os w) + 15) = Some junk" "answer w 16 \<noteq> - 1" "pf_blocks (px_os w) (pf_count (px_os w) + 19) \<noteq> None"
    "distinct [answer w 18, answer w 4, answer w 0]" "\<forall>fd \<in> {answer w 18, answer w 4, answer w 0}. 0 \<le> fd \<and> fd < 1024"
  shows "\<exists>s w'. main_start tab opts w = Some (Inr (answer w 0, s, w'), net_calls w mp pp) \<and> sel_wf s
    \<and> registered s = [answer w 18 \<mapsto> (Logging_handlers, OP_WRITE, Some Log_ptr), answer w 4 \<mapsto> (Listen_handler, OP_READ, None),
        answer w 0 \<mapsto> (Admin_handler, OP_READ, Some Admin_ptr)]
    \<and> lg_writefd (px_log w') = answer w 18 \<and> buf_inv (logbuf (px_log w')) \<and> pending (logbuf (px_log w')) = []
    \<and> resolution_jobs s = [] \<and> \<not> resolution_mutex s \<and> q_is_empty (ad_queue (px_admin w')) = q_is_empty (ad_queue (px_admin w))
    \<and> px_clients w' = px_clients w \<and> ad_configs (px_admin w') = cs"
proof -
  let ?w = "configured cs w"
  have f: "find fst (faults w) = None" using assms(4) by (simp add: first_fault_def)
  have 1: "main_sockets cs (?w, []) = Some (Inr (answer w 0, answer w 4), later ?w 8, net_calls w mp pp)"
    using main_sockets_good [OF assms(2,3), of ?w] f by (auto simp: faults_def split: if_splits)
  obtain s where 2: "main_selector tab (answer w 4) (answer w 0) (later ?w 8) = Some (Inr s, later ?w 16)"
    "sel_wf s" "registered s = Map.empty" "1024 < fd_size s" "resolution_jobs s = []" "\<not> resolution_mutex s"
    using main_selector_good [of ?w junk tab "answer w 4" "answer w 0"] f assms(5) by (auto simp: faults_def split: if_splits)
  obtain l where 3: "main_log (later ?w 16) = (later ?w 20)\<lparr>px_log := l\<rparr>" "lg_writefd l = answer w 18" "buf_inv (logbuf l)" "pending (logbuf l) = []"
    using main_log_good [of ?w] assms(6,7) by auto
  let ?v = "(later ?w 20)\<lparr>px_log := l\<rparr>"
  obtain s' where 4: "main_registers (answer w 4) (answer w 0) (s, ?v) = Some (Inr (s', (later ?v 2)\<lparr>px_admin := (px_admin ?v)\<lparr>ad_queue :=
      q_init (answer w 0) (Some 0) (ad_queue (px_admin ?v))\<rparr>\<rparr>))" "sel_wf s'" "same_rest s s'"
    "registered s' = [answer w 18 \<mapsto> (Logging_handlers, OP_WRITE, Some Log_ptr), answer w 4 \<mapsto> (Listen_handler, OP_READ, None),
        answer w 0 \<mapsto> (Admin_handler, OP_READ, Some Admin_ptr)]"
    using main_registers_good [OF 2(2-4), of ?v "answer w 4" "answer w 0"] assms(8,9) 3(2) by auto
  show ?thesis using assms(1) 1 2(1,5,6) 3 4
    by (simp add: main_start_def configured_def [symmetric] same_rest_def q_is_empty_def q_init_def)
qed

definition first_exit :: "proxy \<Rightarrow> string option" where
  "first_exit w = map_option snd (find fst (exits w))"

lemma exits_configured [simp]: "exits (configured cs w) = exits w" "log_fd (configured cs w) = log_fd w"
  by (simp_all add: exits_def log_fd_def)

text \<open>C16
  Which set-ups end the program, and how. It ends with 1 when one of these is the case, with the message of the first that is:
  a call that makes the two sockets fails, but for the one that sets \<open>SO_REUSEADDR\<close>; one of the flags of a socket cannot be got
  or set; the selector cannot be initialized, or allocated; the descriptor of the log, of the listening socket or of
  the administration's socket is out of range or already registered, of which only the last prints a message. Otherwise the
  main loop is reached: a failed \<open>SO_REUSEADDR\<close> goes unnoticed, and so does a failed pipe of the log, whose descriptor is
  then the one the struct held before.\<close>

theorem main_start_faults:
  assumes "main_configs opts (ad_configs (px_admin w)) = Inr cs"
    "port_of ''proxy_port'' cs = Some pp" "port_of ''mgmt_port'' cs = Some mp"
  shows "case first_exit w of
      Some msg \<Rightarrow> \<exists>calls. main_start tab opts w = Some (Inl (1, msg), calls)
    | None \<Rightarrow> \<exists>st calls. main_start tab opts w = Some (Inr (answer w 0, st), calls)"
proof (cases "find fst (faults w)")
  case (Some y)
  then have "first_fault w = Some (snd y)" "first_exit w = Some (snd y)" by (simp_all add: first_fault_def first_exit_def exits_def find_append)
  with main_start_faulty [OF assms, of "snd y" tab] show ?thesis by simp
next
  case None
  let ?w = "configured cs w"
  have 1: "main_sockets cs (?w, []) = Some (Inr (answer w 0, answer w 4), later ?w 8, net_calls w mp pp)"
    using main_sockets_good [OF assms(2,3), of ?w] None by (auto simp: faults_def split: if_splits)
  have ok: "(of_int (answer w 8) :: 32 word) \<noteq> - 1" "answer w 9 \<noteq> - 1" "(of_int (answer w 10) :: 32 word) \<noteq> - 1" "answer w 11 \<noteq> - 1"
    "answer w 12 \<noteq> - 1" "answer w 13 = 0" "pf_blocks (px_os w) (pf_count (px_os w) + 14) \<noteq> None"
    using None by (auto simp: faults_def split: if_splits)
  show ?thesis
  proof (cases "px_realloc w (pf_count (px_os w) + 15)")
    case full: None
    then have "first_exit w = Some ''unable to create selector''" using None by (simp add: first_exit_def exits_def find_append)
    with main_selector_full [of ?w tab "answer w 4" "answer w 0"] ok full assms(1) 1 show ?thesis
      by (auto simp: main_start_def configured_def [symmetric])
  next
    case (Some junk)
    obtain s where 2: "main_selector tab (answer w 4) (answer w 0) (later ?w 8) = Some (Inr s, later ?w 16)"
      "sel_wf s" "registered s = Map.empty" "1024 < fd_size s"
      using main_selector_good [of ?w junk tab "answer w 4" "answer w 0"] ok Some by auto
    obtain l where 3: "main_log (later ?w 16) = (later ?w 20)\<lparr>px_log := l\<rparr>" "lg_writefd l = log_fd w" using main_log_any [of ?w] by auto
    let ?r = "main_registers (answer w 4) (answer w 0) (s, main_log (later ?w 16))"
    have "case first_exit w of Some msg \<Rightarrow> ?r = Some (Inl (1, msg)) | None \<Rightarrow> \<exists>st. ?r = Some (Inr st)"
      using main_registers_any [OF 2(2-4), where w = "main_log (later ?w 16)" and server = "answer w 4" and admin_socket = "answer w 0"] 3 None Some
      by (auto simp: first_exit_def exits_def find_append split: option.splits if_splits)
    then show ?thesis using assms(1) 1 2(1) by (auto simp: main_start_def configured_def [symmetric] split: option.splits)
  qed
qed

text \<open>C5
  When no call fails whose result is tested, the program starts: both sockets listen at the ports of the configurations, the selector
  holds exactly the log's pipe, the listening socket and the administration's socket, with their handlers and
  interests, no resolution is waiting, the log is empty, and queue and clients are those of before.\<close>

theorem main_start_listens:
  assumes "main_configs opts (ad_configs (px_admin w)) = Inr cs"
    "port_of ''proxy_port'' cs = Some pp" "port_of ''mgmt_port'' cs = Some mp" "first_fault w = None"
    "px_realloc w (pf_count (px_os w) + 15) = Some junk" "answer w 16 \<noteq> - 1" "pf_blocks (px_os w) (pf_count (px_os w) + 19) \<noteq> None"
    "distinct [answer w 18, answer w 4, answer w 0]" "\<forall>fd \<in> {answer w 18, answer w 4, answer w 0}. 0 \<le> fd \<and> fd < 1024"
  shows "\<exists>s w'. main_start tab opts w = Some (Inr (answer w 0, s, w'), net_calls w mp pp) \<and> sel_wf s
    \<and> registered s = [answer w 18 \<mapsto> (Logging_handlers, OP_WRITE, Some Log_ptr), answer w 4 \<mapsto> (Listen_handler, OP_READ, None),
        answer w 0 \<mapsto> (Admin_handler, OP_READ, Some Admin_ptr)]
    \<and> lg_writefd (px_log w') = answer w 18 \<and> buf_inv (logbuf (px_log w')) \<and> pending (logbuf (px_log w')) = []
    \<and> resolution_jobs s = [] \<and> \<not> resolution_mutex s \<and> q_is_empty (ad_queue (px_admin w')) = q_is_empty (ad_queue (px_admin w))
    \<and> px_clients w' = px_clients w \<and> ad_configs (px_admin w') = cs"
  using main_start_run [OF assms] .

text \<open>A first start without options: call \<open>k\<close> of the system is answered with \<open>k\<close>, but for \<open>sigaction\<close>.\<close>

definition booting :: proxy where
  "booting = (demo_proxy 0 [] demo_client)\<lparr>px_os := \<lparr>pf_reads = (\<lambda>_. None), pf_results = (\<lambda>k. if k = 13 then 0 else int k), pf_blocks = (\<lambda>_. Some []),
     pf_count = 0, pf_trace = []\<rparr>, px_admin := sample_admin\<lparr>ad_configs := []\<rparr>, px_clients := Map.empty, px_realloc := (\<lambda>_. Some (\<lambda>_. blank_item))\<rparr>"

lemma booting_answers: "answer booting k = (if k = 13 then 0 else int k)" "pf_blocks (px_os booting) k = Some []" "pf_count (px_os booting) = 0"
  "px_realloc booting k = Some (\<lambda>_. blank_item)" "ad_configs (px_admin booting) = []" "px_clients booting = Map.empty"
  by (simp_all add: booting_def answer_def)

lemma booting_fault: "first_fault booting = None"
  by (simp add: first_fault_def faults_def booting_answers)

lemma booting_ports:
  "case main_configs [] [] of Inl _ \<Rightarrow> False | Inr cs \<Rightarrow> port_of ''proxy_port'' cs = Some 8080 \<and> port_of ''mgmt_port'' cs = Some 9090"
  by code_simp

lemma booting_configs: "\<exists>cs. main_configs [] [] = Inr cs \<and> port_of ''proxy_port'' cs = Some 8080 \<and> port_of ''mgmt_port'' cs = Some 9090"
  using booting_ports by (auto split: sum.splits)

theorem main_start_listens_witness:
  "\<exists>s w'. main_start (proxy_callbacks (\<lambda>_. []) 3) [] booting = Some (Inr (0, s, w'), net_calls booting 9090 8080) \<and> sel_wf s
    \<and> registered s = [18 \<mapsto> (Logging_handlers, OP_WRITE, Some Log_ptr), 4 \<mapsto> (Listen_handler, OP_READ, None),
        0 \<mapsto> (Admin_handler, OP_READ, Some Admin_ptr)]"
proof -
  obtain cs where "main_configs [] [] = Inr cs" "port_of ''proxy_port'' cs = Some 8080" "port_of ''mgmt_port'' cs = Some 9090"
    using booting_configs by blast
  with main_start_listens [of "[]" booting cs 8080 9090 "\<lambda>_. blank_item" "proxy_callbacks (\<lambda>_. []) 3"] booting_fault show ?thesis
    by (auto simp: booting_answers)
qed

text \<open>The first starts but for one answer.\<close>

definition booting_but :: "nat \<Rightarrow> int \<Rightarrow> proxy" where
  "booting_but n r = booting\<lparr>px_os := (px_os booting)\<lparr>pf_results := (pf_results (px_os booting))(n := r)\<rparr>\<rparr>"

lemma booting_but_view: "answer (booting_but n r) k = (if k = n then r else answer booting k)" "px_log (booting_but n r) = px_log booting"
  "ad_configs (px_admin (booting_but n r)) = []" "pf_blocks (px_os (booting_but n r)) k = Some []" "pf_count (px_os (booting_but n r)) = 0"
  "px_realloc (booting_but n r) k = Some (\<lambda>_. blank_item)"
  by (simp_all add: booting_but_def answer_def booting_def)

theorem main_start_faults_witness:
  "(\<exists>calls. main_start (proxy_callbacks (\<lambda>_. []) 3) [] (booting_but 6 (- 1)) = Some (Inl (1, ''unable to bind socket''), calls))
    \<and> (\<exists>calls. main_start (proxy_callbacks (\<lambda>_. []) 3) [] (booting_but 18 4) = Some (Inl (1, []), calls))
    \<and> (\<exists>st calls. main_start (proxy_callbacks (\<lambda>_. []) 3) [] (booting_but 5 (- 1)) = Some (Inr (0, st), calls))"
proof -
  let ?tab = "proxy_callbacks (\<lambda>_. []) 3 :: table"
  obtain cs where "main_configs [] [] = Inr cs" "port_of ''proxy_port'' cs = Some 8080" "port_of ''mgmt_port'' cs = Some 9090"
    using booting_configs by blast
  then have start: "case first_exit (booting_but n r) of
      Some msg \<Rightarrow> \<exists>calls. main_start ?tab [] (booting_but n r) = Some (Inl (1, msg), calls)
    | None \<Rightarrow> \<exists>st calls. main_start ?tab [] (booting_but n r) = Some (Inr (answer (booting_but n r) 0, st), calls)" for n r
    by (intro main_start_faults) (simp_all add: booting_but_view)
  have "first_exit (booting_but 6 (- 1)) = Some ''unable to bind socket''" "first_exit (booting_but 18 4) = Some []"
    "first_exit (booting_but 5 (- 1)) = None"
    by (simp_all add: first_exit_def exits_def faults_def booting_but_view booting_answers log_fd_def refused_def INVALID_FD_def sizes)
  then show ?thesis using start [of 6 "- 1"] start [of 18 4] start [of 5 "- 1"] by (simp add: booting_but_view booting_answers)
qed

section \<open>The running program\<close>

lemma new_selector_typed:
  assumes "new_selector tab w = Some (Some s, w')"
  shows "st_ok (s, w'')"
proof -
  let ?ok = "fst (sys_malloc 1 (px_os w)) \<noteq> None" and ?p = "snd (sys_malloc 1 (px_os w))"
  have n: "selector_new tab ?ok (px_realloc w (pf_count ?p)) 1024 (w\<lparr>px_os := pf_next ?p\<rparr>) = Some (Some s, w')"
    using assms by (simp add: new_selector_def Let_def split_beta)
  then have ok: "?ok = True" by (auto simp: selector_new_def split: if_splits)
  show ?thesis
  proof (cases "px_realloc w (pf_count ?p)")
    case None
    then show ?thesis using n
      by (auto simp: selector_new_def ensure_capacity_def zeroed_selector_def split: if_splits bind_splits)
  next
    case (Some junk)
    have "selector_new tab True (Some junk) 1024 (w\<lparr>px_os := pf_next ?p\<rparr>) = Some (Some s, w')" using n unfolding ok Some .
    with new_wf [of 1024 tab junk "w\<lparr>px_os := pf_next ?p\<rparr>"] show ?thesis by (auto simp: typed_def sizes)
  qed
qed

lemma main_start_typed: "main_start tab opts w = Some (Inr (admin_socket, st), calls) \<Longrightarrow> st_ok st"
proof -
  assume "main_start tab opts w = Some (Inr (admin_socket, st), calls)"
  then obtain server w1 w2 s where s: "main_selector tab server admin_socket w1 = Some (Inr s, w2)"
    "main_registers server admin_socket (s, main_log w2) = Some (Inr st)"
    by (auto simp: main_start_def split: sum.splits bind_splits prod.splits)
  then have "st_ok (s, main_log w2)"
    by (auto simp: main_selector_def Let_def split: if_splits bind_splits option.splits prod.splits intro: new_selector_typed)
  with uponD [OF main_registers_keeps s(2)] show ?thesis by simp
qed

text \<open>C4
  In every state the program can reach from its start, by rounds of its loop with any answers of the system and by
  resolutions that end at any time, the selector is well-formed and each void pointer it holds is what the
  handlers it was registered with take it for: the handlers of clients, origins and transformations are
  registered with a client that exists, those of the log and the administration with their own data.\<close>

theorem program_types:
  assumes "main_start tab opts w = Some (Inr (admin_socket, st), calls)" "(proxy_step strerror admin_socket)\<^sup>*\<^sup>* st st'"
  shows "sel_wf (fst st') \<and> (\<forall>fd h i d. registered (fst st') fd = Some (h, i, d) \<longrightarrow> data_ok (snd st') h d)"
proof -
  from assms(2) main_start_typed [OF assms(1)] have "st_ok st'" by induction (auto intro: proxy_step_keeps)
  then show ?thesis by (simp add: typed_def)
qed

theorem program_types_witness:
  "\<exists>s w' calls st'. main_start (proxy_callbacks (\<lambda>_. []) 3) [] booting = Some (Inr (0, s, w'), calls) \<and> proxy_step (\<lambda>_. []) 0 (s, w') st'
    \<and> sel_wf (fst st') \<and> (\<forall>fd h i d. registered (fst st') fd = Some (h, i, d) \<longrightarrow> data_ok (snd st') h d)"
proof -
  let ?tab = "proxy_callbacks (\<lambda>_. []) 3 :: table"
  obtain cs where "main_configs [] [] = Inr cs" "port_of ''proxy_port'' cs = Some 8080" "port_of ''mgmt_port'' cs = Some 9090"
    using booting_configs by blast
  with main_start_run [of "[]" booting cs 8080 9090 "\<lambda>_. blank_item" ?tab] booting_fault obtain s w' where
    st: "main_start ?tab [] booting = Some (Inr (0, s, w'), net_calls booting 9090 8080)" "sel_wf s"
    "registered s 0 \<noteq> None" "resolution_jobs s = []" "\<not> resolution_mutex s" "q_is_empty (ad_queue (px_admin w'))"
    by (auto simp: booting_answers) (simp add: booting_def sample_admin_def q_is_empty_def q_empty_def)
  obtain s1 where s1: "set_interest 0 OP_READ (s, w') = Some (s1, w')" "same_rest s s1"
    using set_interest_any [OF st(2), of 0] st(3) by blast
  have "resolution_jobs s1 = []" "\<not> resolution_mutex s1" using st(4,5) s1(2) by (simp_all add: same_rest_def)
  then have "\<exists>s2. main_round (\<lambda>_. []) 3 0 Errno_EINTR (s, w') = Some (Inr (s2, w'))"
    using s1(1) st(6) by (simp add: main_round_def selector_select_def handle_block_notifications_def)
  then obtain s2 where step: "proxy_step (\<lambda>_. []) 0 (s, w') (s2, w')" by (blast intro: loop_round)
  from program_types [OF st(1), of "\<lambda>_. []" "(s2, w')"] step st(1) show ?thesis
    by (intro exI [of _ s] exI [of _ w'] exI [of _ "net_calls booting 9090 8080"] exI [of _ "(s2, w')"]) auto
qed

end
