(* ===== verification/MainLoop.thy ===== *)
theory MainLoop
  imports MainSetup ClientTransforms
begin

unbundle bit_operations_syntax

text \<open>
  The handlers in the main loop: when \<open>pselect\<close> reports one descriptor, a round of the loop is one call of its
  handler, so what the handlers do in turn is what the program does in as many rounds.
\<close>

section \<open>A round with one descriptor\<close>

lemma iteration_idle:
  assumes "sel_wf s" "i < length (fds s)" "int i \<notin> slave_r s" "int i \<notin> slave_w s"
  shows "iteration_step tab i (s, w) = Some (s, w)"
proof (cases "used (fds s) i")
  case True
  then have "it_fd (fds s ! i) = int i" "i < FD_SETSIZE" using used_fd [OF sel_wfD(4) [OF assms(1)]] by auto
  then show ?thesis using assms by (simp add: iteration_step_def item_at_def load_def FD_ISSET_def)
next
  case False
  then show ?thesis using assms(2) by (simp add: iteration_step_def item_at_def load_def used_def)
qed

text \<open>What \<open>pselect\<close> leaves in the two sets when it reports \<open>fd\<close>: the event is reading or writing.\<close>

definition reports :: "('h, 'd) fdselector \<Rightarrow> int \<Rightarrow> fd_event \<Rightarrow> bool" where
  "reports s fd ev \<longleftrightarrow> ev = HANDLE_READ \<and> slave_r s = {fd} \<and> slave_w s = {} \<or> ev = HANDLE_WRITE \<and> slave_r s = {} \<and> slave_w s = {fd}"

definition wanted :: "fd_event \<Rightarrow> fd_interest \<Rightarrow> bool" where
  "wanted ev i \<longleftrightarrow> ev = HANDLE_READ \<and> wants OP_READ i \<or> ev = HANDLE_WRITE \<and> wants OP_WRITE i"

lemma iteration_calls:
  assumes s: "sel_wf s" "registered s (int k) = Some (h, i, d)" "reports s (int k) ev" "wanted ev i"
    and f: "tab h ev = Some f" "f \<lparr>key_fd = int k, key_data = d\<rparr> (s, w) = Some (s1, w1)" "same_rest s s1"
  shows "iteration_step tab k (s, w) = Some (s1, w1)"
proof -
  have k: "used (fds s) k" "k < FD_SETSIZE" "fds s ! k = \<lparr>it_fd = int k, it_interest = i, it_handler = Some h, it_data = d\<rparr>"
    using registered_item [OF s(1,2)] by auto
  then have it: "item_at s k = Some \<lparr>it_fd = int k, it_interest = i, it_handler = Some h, it_data = d\<rparr>" "ITEM_USED (fds s ! k)"
    by (simp_all add: item_at_def load_def used_def)
  show ?thesis
  proof (cases "ev = HANDLE_READ")
    case True
    then have "slave_r s = {int k}" "slave_w s1 = {}" "wants OP_READ i" using s(3,4) f(3) by (auto simp: reports_def wanted_def same_rest_def)
    then show ?thesis using it k f True by (simp add: iteration_step_def FD_ISSET_def call_handler_def)
  next
    case False
    then have "slave_r s = {}" "slave_w s = {int k}" "wants OP_WRITE i" "ev = HANDLE_WRITE" using s(3,4) by (auto simp: reports_def wanted_def)
    then show ?thesis using it k f by (simp add: iteration_step_def FD_ISSET_def call_handler_def item_ref_def)
  qed
qed

lemma steps_append: "steps f (xs @ ys) x = Option.bind (steps f xs x) (steps f ys)"
  by (induction xs arbitrary: x) (simp_all split: bind_splits)

lemma steps_idle: "(\<And>i. i \<in> set is \<Longrightarrow> f i x = Some x) \<Longrightarrow> steps f is x = Some x"
  by (induction "is") simp_all

lemma handle_iteration_calls:
  assumes s: "sel_wf s" "registered s fd = Some (h, i, d)" "reports s fd ev" "wanted ev i"
    and f: "tab h ev = Some f" "f \<lparr>key_fd = fd, key_data = d\<rparr> (s, w) = Some (s1, w1)" "same_rest s s1" "sel_wf s1"
  shows "handle_iteration tab (s, w) = Some (s1, w1)"
proof -
  obtain k where k: "fd = int k" "used (fds s) k" using registered_index [OF s(1)] s(2) by blast
  let ?n = "nat (max_fd s + 1)"
  have n: "k < ?n" "?n \<le> length (fds s)"
    using k(2) sel_wfD(5) [OF s(1)] max_fd_bounds [OF s(1)] by (auto simp: is_top_def)
  have l: "length (fds s1) = length (fds s)" using sel_wfD(1) [OF s(1)] sel_wfD(1) [OF f(4)] f(3) by (simp add: same_rest_def)
  have upto: "[0..<?n] = [0..<k] @ k # [Suc k..<?n]"
    using n(1) by (metis le_add_diff_inverse less_imp_le_nat upt_add_eq_append upt_conv_Cons zero_le)
  have only: "j \<noteq> k \<Longrightarrow> int j \<notin> slave_r s \<and> int j \<notin> slave_w s" for j using s(3) k(1) by (auto simp: reports_def)
  have "steps (iteration_step tab) [0..<k] (s, w) = Some (s, w)"
    using only n by (intro steps_idle iteration_idle [OF s(1)]) auto
  moreover have "iteration_step tab k (s, w) = Some (s1, w1)"
    by (rule iteration_calls [where f = f and h = h and i = i and d = d and ev = ev]) (use s f k(1) in simp_all)
  moreover have "steps (iteration_step tab) [Suc k..<?n] (s1, w1) = Some (s1, w1)"
    using only n l f(3) by (intro steps_idle iteration_idle [OF f(4)]) (auto simp: same_rest_def)
  ultimately show ?thesis by (simp add: handle_iteration_def upto steps_append)
qed

text \<open>The loop is as the clients see it between two rounds: no answer waits for the administrator, no resolution has ended.\<close>

definition loop_ready :: "int \<Rightarrow> st \<Rightarrow> bool" where
  "loop_ready admin_socket st \<longleftrightarrow> sel_wf (fst st) \<and> q_is_empty (ad_queue (px_admin (snd st))) \<and> registered (fst st) admin_socket \<noteq> None
     \<and> resolution_jobs (fst st) = [] \<and> \<not> resolution_mutex (fst st)"

definition poll_of :: "int \<Rightarrow> fd_event \<Rightarrow> poll_result" where
  "poll_of fd ev = (if ev = HANDLE_READ then Ready {fd} {} else Ready {} {fd})"

text \<open>The selector as the handler of a round gets it.\<close>

definition at_handler :: "int \<Rightarrow> selector \<Rightarrow> int \<Rightarrow> fd_event \<Rightarrow> selector \<Rightarrow> bool" where
  "at_handler admin_socket s fd ev s2 \<longleftrightarrow> sel_wf s2 \<and> registered s2 = with_interest admin_socket OP_READ (registered s) \<and> reports s2 fd ev
     \<and> fd_size s2 = fd_size s \<and> block s2 = block s \<and> resolution_jobs s2 = [] \<and> \<not> resolution_mutex s2"

lemma main_round_calls:
  assumes l: "loop_ready admin_socket (s, w)" and r: "registered s fd = Some (h, i, d)" "fd \<noteq> admin_socket" "wanted ev i"
    and f: "proxy_callbacks strerror n h ev = Some f"
    and c: "\<And>s2. at_handler admin_socket s fd ev s2 \<Longrightarrow> \<exists>s3 w3. f \<lparr>key_fd = fd, key_data = d\<rparr> (s2, w) = Some (s3, w3)
      \<and> sel_wf s3 \<and> same_rest s2 s3 \<and> ad_queue (px_admin w3) = ad_queue (px_admin w) \<and> P s3 w3"
  shows "\<exists>s3 w3. main_round strerror n admin_socket (poll_of fd ev) (s, w) = Some (Inr (s3, w3)) \<and> P s3 w3
    \<and> (registered s3 admin_socket \<noteq> None \<longrightarrow> loop_ready admin_socket (s3, w3))"
proof -
  obtain s1 where s1: "set_interest admin_socket OP_READ (s, w) = Some (s1, w)" "sel_wf s1"
    "registered s1 = with_interest admin_socket OP_READ (registered s)" "same_rest s s1"
    using set_interest_any [of s admin_socket OP_READ w] l by (auto simp: loop_ready_def)
  have r1: "registered s1 fd = Some (h, i, d)" using r s1(3) by (simp add: with_interest_apply)
  obtain k where k: "fd = int k" "used (fds s1) k" "fds s1 ! k = \<lparr>it_fd = fd, it_interest = i, it_handler = Some h, it_data = d\<rparr>"
    using registered_item [OF s1(2) r1] by blast
  then have m: "wants OP_READ i \<Longrightarrow> fd \<in> master_r s1" "wants OP_WRITE i \<Longrightarrow> fd \<in> master_w s1"
    using sel_wfD(6,7) [OF s1(2)] by (auto simp: interested_def)
  define s2 where "s2 = s1\<lparr>slave_r := (if ev = HANDLE_READ then {fd} else {}), slave_w := (if ev = HANDLE_READ then {} else {fd})\<rparr>"
  have R: "registered s2 = registered s1" "sel_wf s2" "reports s2 fd ev" using s1(2) r(3) by (auto simp: s2_def reports_def wanted_def)
  have a: "at_handler admin_socket s fd ev s2"
    using R s1(3,4) l by (simp add: at_handler_def s2_def loop_ready_def same_rest_def)
  from c [OF this] obtain s3 w3 where s3: "f \<lparr>key_fd = fd, key_data = d\<rparr> (s2, w) = Some (s3, w3)" "sel_wf s3" "same_rest s2 s3"
    "ad_queue (px_admin w3) = ad_queue (px_admin w)" "P s3 w3" by blast
  have it: "handle_iteration (proxy_callbacks strerror n) (s2, w) = Some (s3, w3)"
    by (rule handle_iteration_calls [where f = f and h = h and i = i and d = d and ev = ev and fd = fd]) (use R r1 r(3) f s3 in simp_all)
  have j: "resolution_jobs s3 = []" "\<not> resolution_mutex s3" using s3(3) a by (simp_all add: same_rest_def at_handler_def)
  then have "handle_block_notifications (proxy_callbacks strerror n) (s3, w3) = Some (s3, w3)"
    by (simp add: handle_block_notifications_def)
  moreover have "s1\<lparr>slave_r := master_r s1, slave_w := master_w s1, slave_r := master_r s1 \<inter> (if ev = HANDLE_READ then {fd} else {}),
      slave_w := master_w s1 \<inter> (if ev = HANDLE_READ then {} else {fd})\<rparr> = s2"
    using m r(3) by (auto simp: s2_def wanted_def)
  ultimately have "selector_select (proxy_callbacks strerror n) (poll_of fd ev) (s1, w) = Some (SELECTOR_SUCCESS, s3, w3)"
    using it by (simp add: selector_select_def poll_of_def Let_def split: if_splits)
  then show ?thesis using s1(1) l s3 j by (auto simp: main_round_def loop_ready_def)
qed

lemma callbacks_3: "proxy_callbacks strerror 3 = handlers_of strerror (handlers_of strerror (handlers_of strerror (proxy_callbacks strerror 0)))"
  by (simp add: eval_nat_numeral)

lemma handlers_see_client: "client_ok s w a c \<Longrightarrow> at_handler admin_socket s fd ev s2 \<Longrightarrow> client_ok s2 w a c"
  by (rule client_ok_with) (auto simp: at_handler_def client_ok_def)

section \<open>Writing to the client\<close>

text \<open>Client \<open>a\<close> is waited for to be written to.\<close>

definition writable :: "selector \<Rightarrow> nat \<Rightarrow> client \<Rightarrow> bool" where
  "writable s a c \<longleftrightarrow> registered s (client_fd c) = Some (Client_handlers, OP_WRITE, Some (Client_ptr a))"

lemma wanted_write [simp]: "wanted HANDLE_WRITE OP_WRITE"
  by (simp add: wanted_def wants_def OP_WRITE_def)

lemma with_interest_other: "f \<noteq> fd \<Longrightarrow> with_interest fd i R f = R f"
  by (simp add: with_interest_apply)

lemma round_writes:
  assumes l: "loop_ready admin_socket (s, w)" and ok: "client_ok s w a c" "writable s a c" "admin_socket \<noteq> client_fd c"
    and c: "cl_state c = READ_RESP" "buf_inv (post_res_parse_buf c)" "pending (post_res_parse_buf c) \<noteq> []" "source_fd c = - 1"
    and r: "sys_write (client_fd c) (pending (post_res_parse_buf c)) (px_os w) = (n, p)" "n \<noteq> - 1"
  shows "\<exists>s' w' b. proxy_step strerror admin_socket (s, w) (s', w') \<and> client_ok s' w' a (c\<lparr>post_res_parse_buf := b\<rparr>)
    \<and> writable s' a (c\<lparr>post_res_parse_buf := b\<rparr>) \<and> buf_inv b \<and> moved (client_fd c) (post_res_parse_buf c) b w w' \<and> px_os w' = p
    \<and> loop_ready admin_socket (s', w')"
proof -
  let ?tab = "handlers_of strerror (handlers_of strerror (proxy_callbacks strerror 0))"
  let ?P = "\<lambda>s' w'. \<exists>b. client_ok s' w' a (c\<lparr>post_res_parse_buf := b\<rparr>) \<and> buf_inv b \<and> moved (client_fd c) (post_res_parse_buf c) b w w' \<and> px_os w' = p
      \<and> registered s' = with_interest (source_fd c) OP_READ (with_interest admin_socket OP_READ (registered s))"
  have reg: "registered s (client_fd c) = Some (Client_handlers, OP_WRITE, Some (Client_ptr a))" using ok(2) by (simp add: writable_def)
  have "\<exists>s' w'. main_round strerror 3 admin_socket (poll_of (client_fd c) HANDLE_WRITE) (s, w) = Some (Inr (s', w')) \<and> ?P s' w'
      \<and> (registered s' admin_socket \<noteq> None \<longrightarrow> loop_ready admin_socket (s', w'))"
  proof (rule main_round_calls [OF l reg])
    show "proxy_callbacks strerror 3 Client_handlers HANDLE_WRITE = Some (client_write ?tab)" by (simp add: callbacks_3)
    fix s2 assume a: "at_handler admin_socket s (client_fd c) HANDLE_WRITE s2"
    from client_write_sends [OF handlers_see_client [OF ok(1) a] c(1-3) _ r, of ?tab "client_fd c"] a c(4)
    show "\<exists>s3 w3. client_write ?tab (client_key (client_fd c) a) (s2, w) = Some (s3, w3) \<and> sel_wf s3 \<and> same_rest s2 s3
        \<and> ad_queue (px_admin w3) = ad_queue (px_admin w) \<and> ?P s3 w3"
      by (auto simp: at_handler_def client_ok_def)
  qed (use ok(3) in simp_all)
  then obtain s' w' b where r: "main_round strerror 3 admin_socket (poll_of (client_fd c) HANDLE_WRITE) (s, w) = Some (Inr (s', w'))"
    "client_ok s' w' a (c\<lparr>post_res_parse_buf := b\<rparr>)" "buf_inv b" "moved (client_fd c) (post_res_parse_buf c) b w w'" "px_os w' = p"
    "registered s' = with_interest (source_fd c) OP_READ (with_interest admin_socket OP_READ (registered s))"
    "registered s' admin_socket \<noteq> None \<longrightarrow> loop_ready admin_socket (s', w')" by blast
  moreover have "registered s' admin_socket \<noteq> None" using r(6) l by (auto simp: with_interest_apply loop_ready_def)
  moreover have "writable s' a (c\<lparr>post_res_parse_buf := b\<rparr>)"
    using r(6) reg ok(3) c(4) client_okD(5) [OF ok(1)] by (simp add: writable_def with_interest_apply)
  ultimately show ?thesis by (blast intro: loop_round)
qed

lemma round_closes:
  assumes l: "loop_ready admin_socket (s, w)" and ok: "client_ok s w a c" "writable s a c" "admin_socket \<noteq> client_fd c"
    and c: "cl_state c = READ_RESP" "buf_inv (post_res_parse_buf c)" "pending (post_res_parse_buf c) = []" "source_fd c = - 1"
  shows "\<exists>s' w'. proxy_step strerror admin_socket (s, w) (s', w') \<and> registered s' (client_fd c) = None
    \<and> pf_trace (px_os w') = pf_trace (px_os w) @ closing_trace c \<and> (origin_fd c \<noteq> admin_socket \<longrightarrow> loop_ready admin_socket (s', w'))"
proof -
  let ?tab = "handlers_of strerror (handlers_of strerror (proxy_callbacks strerror 0))"
  let ?P = "\<lambda>s' w'. registered s' (client_fd c) = None \<and> pf_trace (px_os w') = pf_trace (px_os w) @ closing_trace c
      \<and> (origin_fd c \<noteq> admin_socket \<longrightarrow> registered s' admin_socket \<noteq> None)"
  have reg: "registered s (client_fd c) = Some (Client_handlers, OP_WRITE, Some (Client_ptr a))" using ok(2) by (simp add: writable_def)
  have "\<exists>s' w'. main_round strerror 3 admin_socket (poll_of (client_fd c) HANDLE_WRITE) (s, w) = Some (Inr (s', w')) \<and> ?P s' w'
      \<and> (registered s' admin_socket \<noteq> None \<longrightarrow> loop_ready admin_socket (s', w'))"
  proof (rule main_round_calls [OF l reg])
    show "proxy_callbacks strerror 3 Client_handlers HANDLE_WRITE = Some (client_write ?tab)" by (simp add: callbacks_3)
    fix s2 assume a: "at_handler admin_socket s (client_fd c) HANDLE_WRITE s2"
    from client_write_closes [OF handlers_see_client [OF ok(1) a] c(1,2), of strerror "proxy_callbacks strerror 0" "client_fd c"] c(3,4) a l ok(3)
    show "\<exists>s3 w3. client_write ?tab (client_key (client_fd c) a) (s2, w) = Some (s3, w3) \<and> sel_wf s3 \<and> same_rest s2 s3
        \<and> ad_queue (px_admin w3) = ad_queue (px_admin w) \<and> ?P s3 w3"
      by (auto simp: client_closed_def at_handler_def with_interest_apply loop_ready_def)
  qed (use ok(3) in simp_all)
  then show ?thesis by (blast intro: loop_round)
qed

lemma program_delivers:
  assumes "loop_ready admin_socket (s, w)" "client_ok s w a c" "writable s a c" "admin_socket \<noteq> client_fd c"
    "cl_state c = READ_RESP" "source_fd c = - 1" "buf_inv (post_res_parse_buf c)" "writes_progress w" "origin_fd c \<noteq> admin_socket"
  shows "\<exists>s' w'. (proxy_step strerror admin_socket)\<^sup>*\<^sup>* (s, w) (s', w')
    \<and> written_to (client_fd c) (pf_trace (px_os w')) = written_to (client_fd c) (pf_trace (px_os w)) @ pending (post_res_parse_buf c)
    \<and> registered s' (client_fd c) = None \<and> Shut (client_fd c) \<in> set (pf_trace (px_os w'))
    \<and> loop_ready admin_socket (s', w')"
  using assms
proof (induction "length (pending (post_res_parse_buf c))" arbitrary: s w c rule: less_induct)
  case less
  show ?case
  proof (cases "pending (post_res_parse_buf c) = []")
    case True
    from round_closes [OF less.prems(1-5,7) True less.prems(6)] obtain s' w' where
      "proxy_step strerror admin_socket (s, w) (s', w')" "registered s' (client_fd c) = None"
      "pf_trace (px_os w') = pf_trace (px_os w) @ closing_trace c" "loop_ready admin_socket (s', w')" using less.prems(9) by blast
    then show ?thesis using True by (intro exI [of _ s'] exI [of _ w']) (auto simp: closing_trace_def)
  next
    case False
    obtain k where k: "sys_write (client_fd c) (pending (post_res_parse_buf c)) (px_os w) = (int k, (pf_next (px_os w))\<lparr>pf_trace :=
          pf_trace (px_os w) @ [Written (client_fd c) (take k (pending (post_res_parse_buf c)))]\<rparr>)" "1 \<le> k"
        "k \<le> length (pending (post_res_parse_buf c))"
      using sys_write_progress [OF less.prems(8) [unfolded writes_progress_def] False, of "client_fd c"] by blast
    from round_writes [OF less.prems(1-5,7) False less.prems(6) k(1), of strerror]
    obtain s1 w1 b where r: "proxy_step strerror admin_socket (s, w) (s1, w1)" "client_ok s1 w1 a (c\<lparr>post_res_parse_buf := b\<rparr>)"
      "writable s1 a (c\<lparr>post_res_parse_buf := b\<rparr>)" "buf_inv b" "moved (client_fd c) (post_res_parse_buf c) b w w1"
      "px_os w1 = (pf_next (px_os w))\<lparr>pf_trace := pf_trace (px_os w) @ [Written (client_fd c) (take k (pending (post_res_parse_buf c)))]\<rparr>"
      "loop_ready admin_socket (s1, w1)" by auto
    have "length (pending b) = length (pending (post_res_parse_buf c)) - k"
      using arg_cong [OF conjunct1 [OF r(5) [unfolded moved_def]], of length] r(6) k(3) by simp
    then have len: "length (pending b) < length (pending (post_res_parse_buf c))" using k(2,3) by simp
    have "writes_progress w1" "source_fd (c\<lparr>post_res_parse_buf := b\<rparr>) = - 1"
      using less.prems(6,8) r(6) by (auto simp: writes_progress_def pf_next_def source_fd_def)
    then obtain s' w' where "(proxy_step strerror admin_socket)\<^sup>*\<^sup>* (s1, w1) (s', w')"
      "written_to (client_fd c) (pf_trace (px_os w')) = written_to (client_fd c) (pf_trace (px_os w1)) @ pending b"
      "registered s' (client_fd c) = None" "Shut (client_fd c) \<in> set (pf_trace (px_os w'))" "loop_ready admin_socket (s', w')"
      using less.hyps [OF _ r(7,2,3)] less.prems(4,5,9) r(4) len by auto
    then show ?thesis using r(1,5)
      by (intro exI [of _ s'] exI [of _ w']) (simp add: moved_def converse_rtranclp_into_rtranclp)
  qed
qed

section \<open>Reading from the origin\<close>

text \<open>The origin of client \<open>a\<close> is waited for to be read.\<close>

definition origin_awaited :: "selector \<Rightarrow> nat \<Rightarrow> client \<Rightarrow> bool" where
  "origin_awaited s a c \<longleftrightarrow> (\<exists>i. registered s (origin_fd c) = Some (Remote_handlers, i, Some (Client_ptr a)) \<and> wants OP_READ i)"

lemma round_goes_on:
  assumes l: "loop_ready admin_socket (s, w)" and ok: "client_ok s w a c" "cl_state c = READ_RESP" "\<not> shouldTransform c" "buf_inv (pre_res_parse_buf c)"
    and r: "origin_awaited s a c" "admin_socket \<notin> {client_fd c, origin_fd c}"
    and x: "pf_reads (px_os w) (pf_count (px_os w)) = Some xs" "xs \<noteq> []" "length xs \<le> room (pre_res_parse_buf c)"
    and d: "checkResponse (res_data c) (pushes (pre_res_parse_buf c) xs) (post_res_parse_buf c) (pre_transf_buf c) = Some (g, d, bi, bo, pre_transf_buf c)"
      "rs_state d = RES_OK" "rs_parserState d = BODY_NORMAL"
  shows "\<exists>s' w' c'. proxy_step strerror admin_socket (s, w) (s', w') \<and> loop_ready admin_socket (s', w') \<and> client_ok s' w' a c' \<and> origin_awaited s' a c'
    \<and> c' = c\<lparr>res_data := d, pre_res_parse_buf := bi, post_res_parse_buf := bo\<rparr> \<and> px_os w' = pf_next (px_os w)"
proof -
  let ?tab = "handlers_of strerror (handlers_of strerror (proxy_callbacks strerror 0))" and ?fd = "origin_fd c"
  let ?c = "c\<lparr>res_data := d, pre_res_parse_buf := bi, post_res_parse_buf := bo\<rparr>"
  let ?P = "\<lambda>s' w'. client_ok s' w' a ?c \<and> px_os w' = pf_next (px_os w)
      \<and> registered s' = with_interest (client_fd c) OP_WRITE (with_interest admin_socket OP_READ (registered s))"
  obtain i where i: "registered s ?fd = Some (Remote_handlers, i, Some (Client_ptr a))" "wants OP_READ i" using r(1) by (auto simp: origin_awaited_def)
  have "\<exists>s' w'. main_round strerror 3 admin_socket (poll_of ?fd HANDLE_READ) (s, w) = Some (Inr (s', w')) \<and> ?P s' w'
      \<and> (registered s' admin_socket \<noteq> None \<longrightarrow> loop_ready admin_socket (s', w'))"
  proof (rule main_round_calls [OF l i(1)])
    show "proxy_callbacks strerror 3 Remote_handlers HANDLE_READ = Some (remote_read ?tab)" by (simp add: callbacks_3)
    fix s2 assume a: "at_handler admin_socket s ?fd HANDLE_READ s2"
    from piece_goes_on [OF handlers_see_client [OF ok(1) a] ok(2-4) x d, of ?tab ?fd] a
    show "\<exists>s3 w3. remote_read ?tab (client_key ?fd a) (s2, w) = Some (s3, w3) \<and> sel_wf s3 \<and> same_rest s2 s3
        \<and> ad_queue (px_admin w3) = ad_queue (px_admin w) \<and> ?P s3 w3"
      by (auto simp: at_handler_def dest: client_okD(1))
  qed (use r(2) i(2) in \<open>simp_all add: wanted_def\<close>)
  then obtain s' w' where t: "main_round strerror 3 admin_socket (poll_of ?fd HANDLE_READ) (s, w) = Some (Inr (s', w'))" "?P s' w'"
    "registered s' admin_socket \<noteq> None \<longrightarrow> loop_ready admin_socket (s', w')" by blast
  moreover have "registered s' admin_socket \<noteq> None" using t(2) l by (auto simp: with_interest_apply loop_ready_def)
  moreover have "?fd \<noteq> client_fd c" using ok(1) by (auto simp: client_ok_def)
  then have "origin_awaited s' a ?c" using t(2) i r(2) by (simp add: origin_awaited_def with_interest_other)
  ultimately show ?thesis by (blast intro: loop_round)
qed

lemma round_finishes:
  assumes l: "loop_ready admin_socket (s, w)" and ok: "client_ok s w a c" "cl_state c = READ_RESP" "\<not> shouldTransform c" "origin_fd c \<noteq> - 1"
      "buf_inv (pre_res_parse_buf c)"
    and r: "origin_awaited s a c" "admin_socket \<notin> {client_fd c, origin_fd c}"
    and x: "pf_reads (px_os w) (pf_count (px_os w)) = Some xs" "xs \<noteq> []" "length xs \<le> room (pre_res_parse_buf c)"
    and d: "checkResponse (res_data c) (pushes (pre_res_parse_buf c) xs) (post_res_parse_buf c) (pre_transf_buf c) = Some (g, d, bi, bo, pre_transf_buf c)"
      "rs_state d = RES_OK" "rs_parserState d = RES_FINISHED"
  shows "\<exists>s' w' c'. proxy_step strerror admin_socket (s, w) (s', w') \<and> client_ok s' w' a c' \<and> writable s' a c'
    \<and> cl_state c' = READ_RESP \<and> source_fd c' = - 1 \<and> origin_fd c' = - 1 \<and> client_fd c' = client_fd c \<and> post_res_parse_buf c' = bo
    \<and> pf_trace (px_os w') = pf_trace (px_os w) @ [Shut (origin_fd c)] \<and> pf_results (px_os w') = pf_results (px_os w)
    \<and> pf_count (px_os w') = Suc (pf_count (px_os w)) \<and> loop_ready admin_socket (s', w')"
proof -
  let ?tab = "handlers_of strerror (handlers_of strerror (proxy_callbacks strerror 0))" and ?fd = "origin_fd c"
  let ?P = "\<lambda>s' w'. \<exists>c'. client_ok s' w' a c' \<and> cl_state c' = READ_RESP \<and> source_fd c' = - 1 \<and> origin_fd c' = - 1 \<and> client_fd c' = client_fd c
      \<and> post_res_parse_buf c' = bo
      \<and> registered s' = with_interest (client_fd c) OP_WRITE ((with_interest admin_socket OP_READ (registered s))(?fd := None))
      \<and> pf_trace (px_os w') = pf_trace (px_os w) @ [Shut ?fd] \<and> pf_results (px_os w') = pf_results (px_os w)
      \<and> pf_count (px_os w') = Suc (pf_count (px_os w))"
  obtain i where i: "registered s ?fd = Some (Remote_handlers, i, Some (Client_ptr a))" "wants OP_READ i" using r(1) by (auto simp: origin_awaited_def)
  have "\<exists>s' w'. main_round strerror 3 admin_socket (poll_of ?fd HANDLE_READ) (s, w) = Some (Inr (s', w')) \<and> ?P s' w'
      \<and> (registered s' admin_socket \<noteq> None \<longrightarrow> loop_ready admin_socket (s', w'))"
  proof (rule main_round_calls [OF l i(1)])
    show "proxy_callbacks strerror 3 Remote_handlers HANDLE_READ = Some (remote_read ?tab)" by (simp add: callbacks_3)
    fix s2 assume a: "at_handler admin_socket s ?fd HANDLE_READ s2"
    from piece_finishes [OF handlers_see_client [OF ok(1) a] ok(2-5) x d, of strerror "handlers_of strerror (proxy_callbacks strerror 0)" ?fd] a
    show "\<exists>s3 w3. remote_read ?tab (client_key ?fd a) (s2, w) = Some (s3, w3) \<and> sel_wf s3 \<and> same_rest s2 s3
        \<and> ad_queue (px_admin w3) = ad_queue (px_admin w) \<and> ?P s3 w3"
      by (fastforce simp: at_handler_def client_ok_def)
  qed (use r(2) i(2) in \<open>simp_all add: wanted_def\<close>)
  then obtain s' w' c' where t: "main_round strerror 3 admin_socket (poll_of ?fd HANDLE_READ) (s, w) = Some (Inr (s', w'))"
    "client_ok s' w' a c'" "cl_state c' = READ_RESP" "source_fd c' = - 1" "origin_fd c' = - 1" "client_fd c' = client_fd c"
    "post_res_parse_buf c' = bo"
    "registered s' = with_interest (client_fd c) OP_WRITE ((with_interest admin_socket OP_READ (registered s))(?fd := None))"
    "pf_trace (px_os w') = pf_trace (px_os w) @ [Shut (origin_fd c)]" "pf_results (px_os w') = pf_results (px_os w)"
    "pf_count (px_os w') = Suc (pf_count (px_os w))"
    "registered s' admin_socket \<noteq> None \<longrightarrow> loop_ready admin_socket (s', w')" by blast
  moreover have "registered s' admin_socket \<noteq> None" using t(8) l r(2) by (auto simp: with_interest_apply loop_ready_def)
  moreover have "writable s' a c'" using t(2,6,8) by (auto simp: writable_def client_ok_def with_interest_apply split: if_splits)
  ultimately show ?thesis by (blast intro: loop_round)
qed

lemma round_reads_more:
  assumes l: "loop_ready admin_socket (s, w)" and e: "awaits_body s w a c n" "origin_awaited s a c" "admin_socket \<notin> {client_fd c, origin_fd c}"
    and x: "pf_reads (px_os w) (pf_count (px_os w)) = Some xs" "xs \<noteq> []" "length xs \<le> room (pre_res_parse_buf c)" "length xs < n"
  shows "\<exists>s' w' c'. proxy_step strerror admin_socket (s, w) (s', w') \<and> awaits_body s' w' a c' (n - length xs) \<and> origin_awaited s' a c'
    \<and> room (pre_res_parse_buf c') = room (pre_res_parse_buf c) \<and> client_fd c' = client_fd c \<and> origin_fd c' = origin_fd c
    \<and> post_res_parse_buf c' = pushes (post_res_parse_buf c) xs \<and> px_os w' = pf_next (px_os w) \<and> loop_ready admin_socket (s', w')"
proof -
  have ok: "client_ok s w a c" "cl_state c = READ_RESP" "\<not> shouldTransform c" "buf_inv (pre_res_parse_buf c)"
    using e(1) by (simp_all add: awaits_body_def)
  obtain d bi where p: "checkResponse (res_data c) (pushes (pre_res_parse_buf c) xs) (post_res_parse_buf c) (pre_transf_buf c) =
      Some (False, d, bi, pushes (post_res_parse_buf c) xs, pre_transf_buf c)"
    "rs_state d = RES_OK" "rs_bodyLength d = int (n - length xs)" "\<not> rs_isChunked d" "rs_parserState d = BODY_NORMAL"
    "buf_inv bi" "pending bi = []" "resv bi = 0" "room bi = room (pre_res_parse_buf c)"
    using body_parsed [OF e(1) x(3)] x(4) by auto
  let ?c = "c\<lparr>res_data := d, pre_res_parse_buf := bi, post_res_parse_buf := pushes (post_res_parse_buf c) xs\<rparr>"
  from round_goes_on [OF l ok e(2,3) x(1-3) p(1,2,5), of strerror] obtain s' w' where r: "proxy_step strerror admin_socket (s, w) (s', w')"
    "loop_ready admin_socket (s', w')" "client_ok s' w' a ?c" "origin_awaited s' a ?c" "px_os w' = pf_next (px_os w)" by blast
  moreover have "awaits_body s' w' a ?c (n - length xs)" using e(1) p r(3) by (simp add: awaits_body_def)
  ultimately show ?thesis using p(9) by (intro exI [of _ s'] exI [of _ w'] exI [of _ ?c]) simp
qed

lemma round_reads_last:
  assumes l: "loop_ready admin_socket (s, w)" and e: "awaits_body s w a c n" "origin_awaited s a c" "admin_socket \<notin> {client_fd c, origin_fd c}"
    and x: "pf_reads (px_os w) (pf_count (px_os w)) = Some xs" "xs \<noteq> []" "length xs \<le> room (pre_res_parse_buf c)" "n \<le> length xs"
  shows "\<exists>s' w' c'. proxy_step strerror admin_socket (s, w) (s', w') \<and> client_ok s' w' a c' \<and> writable s' a c'
    \<and> cl_state c' = READ_RESP \<and> source_fd c' = - 1 \<and> origin_fd c' = - 1 \<and> client_fd c' = client_fd c
    \<and> post_res_parse_buf c' = pushes (post_res_parse_buf c) (take n xs)
    \<and> pf_trace (px_os w') = pf_trace (px_os w) @ [Shut (origin_fd c)] \<and> pf_results (px_os w') = pf_results (px_os w)
    \<and> pf_count (px_os w') = Suc (pf_count (px_os w)) \<and> loop_ready admin_socket (s', w')"
proof -
  have ok: "client_ok s w a c" "cl_state c = READ_RESP" "\<not> shouldTransform c" "origin_fd c \<noteq> - 1" "buf_inv (pre_res_parse_buf c)"
    using e(1) by (simp_all add: awaits_body_def)
  obtain d bi where "checkResponse (res_data c) (pushes (pre_res_parse_buf c) xs) (post_res_parse_buf c) (pre_transf_buf c) =
      Some (True, d, bi, pushes (post_res_parse_buf c) (take n xs), pre_transf_buf c)" "rs_state d = RES_OK" "rs_parserState d = RES_FINISHED"
    using body_parsed [OF e(1) x(3)] x(4) by auto
  from round_finishes [OF l ok e(2,3) x(1-3) this] show ?thesis .
qed

lemma program_reads_body:
  assumes "awaits_body s w a c n" "\<forall>i < length xss. pf_reads (px_os w) (pf_count (px_os w) + i) = Some (xss ! i)"
    "\<forall>xs \<in> set xss. xs \<noteq> [] \<and> length xs \<le> room (pre_res_parse_buf c)" "length (concat (butlast xss)) < n" "n \<le> length (concat xss)"
    "loop_ready admin_socket (s, w)" "origin_awaited s a c" "admin_socket \<notin> {client_fd c, origin_fd c}"
  shows "\<exists>s' w' c'. (proxy_step strerror admin_socket)\<^sup>*\<^sup>* (s, w) (s', w') \<and> client_ok s' w' a c' \<and> writable s' a c'
    \<and> cl_state c' = READ_RESP \<and> source_fd c' = - 1 \<and> origin_fd c' = - 1 \<and> client_fd c' = client_fd c
    \<and> post_res_parse_buf c' = pushes (post_res_parse_buf c) (take n (concat xss))
    \<and> (\<forall>f. written_to f (pf_trace (px_os w')) = written_to f (pf_trace (px_os w))) \<and> pf_results (px_os w') = pf_results (px_os w)
    \<and> pf_count (px_os w') = pf_count (px_os w) + length xss \<and> loop_ready admin_socket (s', w')"
  using assms
proof (induction xss arbitrary: s w c n)
  case (Cons xs xss)
  have x: "pf_reads (px_os w) (pf_count (px_os w)) = Some xs" "xs \<noteq> []" "length xs \<le> room (pre_res_parse_buf c)"
    using Cons.prems(2) [rule_format, of 0] Cons.prems(3) by simp_all
  note loop = Cons.prems(6) Cons.prems(1) Cons.prems(7,8)
  show ?case
  proof (cases "xss = []")
    case True
    then have "n \<le> length xs" using Cons.prems(5) by simp
    from round_reads_last [OF loop x this, of strerror] obtain s' w' c' where
      "proxy_step strerror admin_socket (s, w) (s', w')" "client_ok s' w' a c'" "writable s' a c'" "cl_state c' = READ_RESP"
      "source_fd c' = - 1" "origin_fd c' = - 1" "client_fd c' = client_fd c" "post_res_parse_buf c' = pushes (post_res_parse_buf c) (take n xs)"
      "pf_trace (px_os w') = pf_trace (px_os w) @ [Shut (origin_fd c)]" "pf_results (px_os w') = pf_results (px_os w)"
      "pf_count (px_os w') = Suc (pf_count (px_os w))" "loop_ready admin_socket (s', w')" by blast
    then show ?thesis using True by (intro exI [of _ s'] exI [of _ w'] exI [of _ c']) auto
  next
    case False
    then have len: "length xs < n" using Cons.prems(4) by (auto simp: butlast_append)
    obtain s1 w1 c1 where r: "proxy_step strerror admin_socket (s, w) (s1, w1)" "awaits_body s1 w1 a c1 (n - length xs)" "origin_awaited s1 a c1"
      "room (pre_res_parse_buf c1) = room (pre_res_parse_buf c)" "client_fd c1 = client_fd c" "origin_fd c1 = origin_fd c"
      "post_res_parse_buf c1 = pushes (post_res_parse_buf c) xs" "px_os w1 = pf_next (px_os w)" "loop_ready admin_socket (s1, w1)"
      using round_reads_more [OF loop x len, of strerror] by blast
    have reads: "\<forall>i < length xss. pf_reads (px_os w1) (pf_count (px_os w1) + i) = Some (xss ! i)"
    proof (intro allI impI)
      fix i assume "i < length xss"
      then show "pf_reads (px_os w1) (pf_count (px_os w1) + i) = Some (xss ! i)"
        using Cons.prems(2) [rule_format, of "Suc i"] r(8) by (simp add: pf_next_def)
    qed
    have "length (concat (butlast xss)) < n - length xs" "n - length xs \<le> length (concat xss)"
      using Cons.prems(4,5) False len by auto
    then obtain s' w' c' where "(proxy_step strerror admin_socket)\<^sup>*\<^sup>* (s1, w1) (s', w')" "client_ok s' w' a c'" "writable s' a c'"
      "cl_state c' = READ_RESP" "source_fd c' = - 1" "origin_fd c' = - 1" "client_fd c' = client_fd c"
      "post_res_parse_buf c' = pushes (pushes (post_res_parse_buf c) xs) (take (n - length xs) (concat xss))"
      "\<forall>f. written_to f (pf_trace (px_os w')) = written_to f (pf_trace (px_os w))" "pf_results (px_os w') = pf_results (px_os w)"
      "pf_count (px_os w') = pf_count (px_os w) + length (xs # xss)" "loop_ready admin_socket (s', w')"
      using Cons.IH [OF r(2) reads _ _ _ r(9,3)] Cons.prems(3,8) r(4-8) by (auto simp: pf_next_def)
    then show ?thesis using r(1) len
      by (intro exI [of _ s'] exI [of _ w'] exI [of _ c']) (simp add: pushes_append [symmetric] converse_rtranclp_into_rtranclp)
  qed
qed simp

text \<open>
  The program relays a response. From a state between two rounds in which the client awaits \<open>n\<close> more bytes of the
  body, in whatever pieces the origin sends them, as long as the client takes at least a byte at a time: by rounds of the main
  loop in each of which \<open>pselect\<close> reports one descriptor, a state is reached in which the client has got what was waiting for it
  and then exactly the body, and is unregistered and closed; and the loop can go on.\<close>

theorem program_relays_response:
  assumes "loop_ready admin_socket (s, w)" "awaits_body s w a c n" "origin_awaited s a c" "admin_socket \<notin> {client_fd c, origin_fd c}"
    "\<forall>i < length xss. pf_reads (px_os w) (pf_count (px_os w) + i) = Some (xss ! i)"
    "\<forall>xs \<in> set xss. xs \<noteq> [] \<and> length xs \<le> room (pre_res_parse_buf c)" "length (concat (butlast xss)) < n" "n \<le> length (concat xss)"
    "n \<le> room (post_res_parse_buf c)" "\<forall>k \<ge> pf_count (px_os w) + length xss. pf_results (px_os w) k \<ge> 1"
  shows "\<exists>s' w'. (proxy_step strerror admin_socket)\<^sup>*\<^sup>* (s, w) (s', w')
    \<and> written_to (client_fd c) (pf_trace (px_os w')) =
        written_to (client_fd c) (pf_trace (px_os w)) @ pending (post_res_parse_buf c) @ take n (concat xss)
    \<and> registered s' (client_fd c) = None \<and> Shut (client_fd c) \<in> set (pf_trace (px_os w'))
    \<and> loop_ready admin_socket (s', w')"
proof -
  obtain s1 w1 c1 where r: "(proxy_step strerror admin_socket)\<^sup>*\<^sup>* (s, w) (s1, w1)" "client_ok s1 w1 a c1" "writable s1 a c1"
    "cl_state c1 = READ_RESP" "source_fd c1 = - 1" "origin_fd c1 = - 1" "client_fd c1 = client_fd c"
    "post_res_parse_buf c1 = pushes (post_res_parse_buf c) (take n (concat xss))"
    "written_to (client_fd c) (pf_trace (px_os w1)) = written_to (client_fd c) (pf_trace (px_os w))" "pf_results (px_os w1) = pf_results (px_os w)"
    "pf_count (px_os w1) = pf_count (px_os w) + length xss" "loop_ready admin_socket (s1, w1)"
    using program_reads_body [OF assms(2,5-8,1,3,4), of strerror] by blast
  have post: "buf_inv (post_res_parse_buf c)" using assms(2) by (simp add: awaits_body_def)
  then have p: "buf_inv (post_res_parse_buf c1)" "pending (post_res_parse_buf c1) = pending (post_res_parse_buf c) @ take n (concat xss)"
    using r(8) assms(9) by (simp_all add: pending_pushes)
  have "writes_progress w1" "origin_fd c1 \<noteq> admin_socket" "admin_socket \<noteq> client_fd c1" using assms(4,10) r(6,7,10,11) registered_iff [of s "- 1"] assms(1) by (auto simp: writes_progress_def loop_ready_def)
  from program_delivers [OF r(12,2,3) this(3) r(4,5) p(1) this(1,2), of strerror] r(1,6,7,9) p(2)
  show ?thesis by (metis rtranclp_trans)
qed

text \<open>The program with the administrator's socket as descriptor 5.\<close>

definition looping_selector :: selector where
  "looping_selector = snd (the (selector_register None 5 (Some Admin_handler) OP_READ (Some Admin_ptr) (demo_selector OP_NOOP (Some OP_READ))))"

lemma looping:
  "sel_wf looping_selector" "registered looping_selector = (registered (demo_selector OP_NOOP (Some OP_READ)))(5 \<mapsto> (Admin_handler, OP_READ, Some Admin_ptr))"
  "same_rest (demo_selector OP_NOOP (Some OP_READ)) looping_selector"
  using register_room [OF demo_wf, of 5 OP_NOOP "Some OP_READ" None Admin_handler OP_READ "Some Admin_ptr"] demo_registered [of OP_NOOP "Some OP_READ"]
  by (auto simp: looping_selector_def demo_selector_def sizes)

lemma looping_ready: "loop_ready 5 (looping_selector, demo_proxy r xs c)"
  using looping by (simp add: loop_ready_def same_rest_def demo_proxy_def sample_admin_def demo_selector_def zeroed_selector_def q_is_empty_def q_empty_def)

lemma looping_awaits: "awaits_body looping_selector (demo_proxy r xs relaying_client) 0 relaying_client 5" "origin_awaited looping_selector 0 relaying_client"
  using looping relaying_awaits [of OP_NOOP OP_READ r xs] by (auto simp: awaits_body_def client_ok_def origin_awaited_def demo_registered relaying_client_def demo_client_def)

theorem program_relays_response_witness:
  "\<exists>s' w'. (proxy_step (\<lambda>_. []) 5)\<^sup>*\<^sup>* (looping_selector, demo_proxy 2 (str ''abc'') relaying_client) (s', w')
    \<and> written_to (client_fd relaying_client) (pf_trace (px_os w')) =
        written_to (client_fd relaying_client) (pf_trace (px_os (demo_proxy 2 (str ''abc'') relaying_client)))
          @ pending (post_res_parse_buf relaying_client) @ take 5 (concat [str ''abc'', str ''abc''])
    \<and> registered s' (client_fd relaying_client) = None \<and> Shut (client_fd relaying_client) \<in> set (pf_trace (px_os w'))
    \<and> loop_ready 5 (s', w')"
  by (rule program_relays_response [OF looping_ready looping_awaits])
    (simp_all add: relaying_client_def demo_client_def less_Suc_eq)

end
