(* ===== verification/RequestLoop.thy ===== *)
theory RequestLoop
  imports MainLoop
begin

unbundle bit_operations_syntax

text \<open>
  The way of a request through the main loop: a round that reads it, the end of the resolution, a round that is interrupted
  by the resolving thread's signal and connects to the origin, and the rounds that write to the origin.
\<close>

section \<open>Reading the request\<close>

text \<open>Client \<open>a\<close> is waited for to be read.\<close>

definition readable :: "selector \<Rightarrow> nat \<Rightarrow> client \<Rightarrow> bool" where
  "readable s a c \<longleftrightarrow> (\<exists>i. registered s (client_fd c) = Some (Client_handlers, i, Some (Client_ptr a)) \<and> wants OP_READ i)"

lemma request_at_handler:
  "expects_request s w a c h \<Longrightarrow> at_handler admin_socket s fd ev s2 \<Longrightarrow> expects_request s2 w a c h"
  using handlers_see_client [of s w a c admin_socket fd ev s2]
  by (auto simp: expects_request_def log_ready_def at_handler_def with_interest_apply)

text \<open>The client after its request is taken: its host is asked for.\<close>

definition host_asked :: "client \<Rightarrow> byte list \<Rightarrow> int \<Rightarrow> byte list \<Rightarrow> client \<Rightarrow> bool" where
  "host_asked c h n req c' \<longleftrightarrow> request_complete c' \<and> client_fd c' = client_fd c \<and> origin_fd c' = - 1 \<and> hd_port (cl_host c') = n
     \<and> host_is (cl_host c') (map tolower h) \<and> same_response c c' \<and> post_req_parse_buf c' = pushes (post_req_parse_buf c) req"

lemma round_takes_request:
  assumes l: "loop_ready admin_socket (s, w)" and e: "expects_request s w a c h" "readable s a c" "admin_socket \<noteq> client_fd c"
    and q: "absolute_request m sp sch h p n rest"
    and x: "pf_reads (px_os w) (pf_count (px_os w)) = Some (m @ sp @ sch @ str ''://'' @ h @ p @ rest)"
    and r: "length (m @ sp @ sch @ str ''://'' @ h @ p @ rest) \<le> room (pre_req_parse_buf c)"
  shows "\<exists>s' w' c'. proxy_step strerror admin_socket (s, w) (s', w') \<and> loop_ready admin_socket (s', w') \<and> client_ok s' w' a c'
    \<and> host_asked c h n (request_text m sch h p rest) c' \<and> px_os w' = pf_next (px_os w) \<and> a \<in> set (px_lookups w')
    \<and> registered s' = with_interest (lg_writefd (px_log w)) OP_WRITE (with_interest admin_socket OP_READ (registered s)) \<and> fd_size s' = fd_size s"
proof -
  let ?tab = "handlers_of strerror (handlers_of strerror (proxy_callbacks strerror 0))" and ?fd = "client_fd c"
  let ?R = "with_interest (lg_writefd (px_log w)) OP_WRITE (with_interest admin_socket OP_READ (registered s))"
  let ?P = "\<lambda>s' w'. \<exists>c'. client_ok s' w' a c' \<and> host_asked c h n (request_text m sch h p rest) c' \<and> px_os w' = pf_next (px_os w)
      \<and> a \<in> set (px_lookups w') \<and> registered s' = ?R \<and> fd_size s' = fd_size s"
  obtain i where i: "registered s ?fd = Some (Client_handlers, i, Some (Client_ptr a))" "wants OP_READ i" using e(2) by (auto simp: readable_def)
  have "\<exists>s' w'. main_round strerror 3 admin_socket (poll_of ?fd HANDLE_READ) (s, w) = Some (Inr (s', w')) \<and> ?P s' w'
      \<and> (registered s' admin_socket \<noteq> None \<longrightarrow> loop_ready admin_socket (s', w'))"
  proof (rule main_round_calls [OF l i(1)])
    show "proxy_callbacks strerror 3 Client_handlers HANDLE_READ = Some (client_read ?tab)" by (simp add: callbacks_3)
    fix s2 assume a: "at_handler admin_socket s ?fd HANDLE_READ s2"
    from client_read_first [OF request_at_handler [OF e(1) a] q x r, of ?tab ?fd] obtain s3 w3 where
      "client_read ?tab (client_key ?fd a) (s2, w) = Some (s3, w3)" "request_taken a c h n (request_text m sch h p rest) (s2, w) (s3, w3)" by auto
    then show "\<exists>s3 w3. client_read ?tab (client_key ?fd a) (s2, w) = Some (s3, w3) \<and> sel_wf s3 \<and> same_rest s2 s3
        \<and> ad_queue (px_admin w3) = ad_queue (px_admin w) \<and> ?P s3 w3"
      using a by (intro exI [of _ s3] exI [of _ w3])
        (auto simp: request_taken_def host_asked_def at_handler_def same_rest_def dest: client_okD(1))
  qed (use e(3) i(2) in \<open>simp_all add: wanted_def\<close>)
  then obtain s' w' c' where t: "main_round strerror 3 admin_socket (poll_of ?fd HANDLE_READ) (s, w) = Some (Inr (s', w'))"
    "client_ok s' w' a c'" "host_asked c h n (request_text m sch h p rest) c'" "px_os w' = pf_next (px_os w)" "a \<in> set (px_lookups w')"
    "registered s' = ?R" "fd_size s' = fd_size s" "registered s' admin_socket \<noteq> None \<longrightarrow> loop_ready admin_socket (s', w')" by blast
  moreover have "registered s' admin_socket \<noteq> None" using t(6) l by (auto simp: with_interest_apply loop_ready_def)
  ultimately show ?thesis by (blast intro: loop_round)
qed

section \<open>The connection\<close>

text \<open>A round in which \<open>pselect\<close> is interrupted by the signal of the thread that has resolved the host of client \<open>a\<close>.\<close>

lemma round_connects:
  assumes l: "loop_ready admin_socket (s, w)" and ok: "client_ok s w a c" "admin_socket \<noteq> client_fd c"
    and c: "origin_fd c = - 1" "hd_resolved (cl_host c) = Some res"
    and o: "connects (px_os w) org" "0 \<le> org" "org < int (fd_size s)" "org < int FD_SETSIZE" "registered s org = None"
  shows "\<exists>s' w'. proxy_step strerror admin_socket (s\<lparr>resolution_jobs := [client_fd c]\<rparr>, w) (s', w')
    \<and> loop_ready admin_socket (s', w') \<and> client_ok s' w' a (with_origin org res c)
    \<and> registered s' = (with_interest (client_fd c) OP_NOOP (with_interest admin_socket OP_READ (registered s)))(org \<mapsto> (Remote_handlers, OP_WRITE, Some (Client_ptr a)))
    \<and> pf_trace (px_os w') = pf_trace (px_os w) \<and> pf_results (px_os w') = pf_results (px_os w) \<and> pf_count (px_os w') \<ge> pf_count (px_os w) + 4"
proof -
  let ?s = "s\<lparr>resolution_jobs := [client_fd c]\<rparr>"
  obtain s1 where s1: "set_interest admin_socket OP_READ (?s, w) = Some (s1, w)" "sel_wf s1"
    "registered s1 = with_interest admin_socket OP_READ (registered s)" "same_rest ?s s1"
    using set_interest_any [of ?s admin_socket OP_READ w] l by (auto simp: loop_ready_def)
  define s2 where "s2 = s1\<lparr>slave_r := master_r s1, slave_w := master_w s1, resolution_mutex := True\<rparr>"
  have R: "registered s2 = registered s1" "sel_wf s2" "fd_size s2 = fd_size s" "resolution_jobs s1 = [client_fd c]" "\<not> resolution_mutex s1"
    using s1(2,4) l by (simp_all add: s2_def same_rest_def loop_ready_def)
  have ok2: "client_ok s2 w a c" by (rule client_ok_with [OF ok(1) R(2)]) (use R(1) s1(3) client_okD(2) [OF ok(1)] in auto)
  have org: "org \<noteq> admin_socket" using o(5) l by (auto simp: loop_ready_def)
  obtain s3 w3 where b: "client_block strerror (handlers_of strerror (handlers_of strerror (proxy_callbacks strerror 0))) (client_key (client_fd c) a) (s2, w) = Some (s3, w3)"
    "client_ok s3 w3 a (with_origin org res c)"
    "registered s3 = (with_interest (client_fd c) OP_NOOP (registered s2))(org \<mapsto> (Remote_handlers, OP_WRITE, Some (Client_ptr a)))"
    "pf_trace (px_os w3) = pf_trace (px_os w)" "pf_results (px_os w3) = pf_results (px_os w)" "pf_count (px_os w3) \<ge> pf_count (px_os w) + 4"
    "same_rest s2 s3" "px_admin w3 = px_admin w"
    using client_connects [OF ok2 c o(1,2) _ o(4), of strerror "handlers_of strerror (handlers_of strerror (proxy_callbacks strerror 0))"]
      o(3,5) R(1,3) s1(3) org by (auto simp: with_interest_other)
  obtain i where "registered s2 (client_fd c) = Some (Client_handlers, i, Some (Client_ptr a))" using ok2 by (auto simp: client_ok_def)
  from notification_runs [OF R(2) this, of "proxy_callbacks strerror 3" _ w] b(1)
  have n: "notification_step (proxy_callbacks strerror 3) (client_fd c) (s2, w) = Some (s3, w3)" by (simp add: callbacks_3)
  let ?s' = "s3\<lparr>resolution_jobs := [], resolution_mutex := False\<rparr>"
  have "selector_select (proxy_callbacks strerror 3) Errno_EINTR (s1, w) = Some (SELECTOR_SUCCESS, ?s', w3)"
    using n R(4,5) by (simp add: selector_select_def handle_block_notifications_def s2_def)
  then have "main_round strerror 3 admin_socket Errno_EINTR (?s, w) = Some (Inr (?s', w3))"
    using s1(1) l b(8) by (simp add: main_round_def loop_ready_def)
  moreover have "loop_ready admin_socket (?s', w3)"
    using b(2,3,8) R(1) s1(3) l org ok(2) client_okD(1) [OF b(2)] by (auto simp: loop_ready_def with_interest_apply)
  ultimately show ?thesis using b R(1) s1(3)
    by (intro exI [of _ ?s'] exI [of _ w3]) (auto intro: loop_round)
qed

section \<open>Sending the request\<close>

text \<open>The origin of client \<open>a\<close> is waited for to be written to.\<close>

definition origin_writable :: "selector \<Rightarrow> nat \<Rightarrow> client \<Rightarrow> bool" where
  "origin_writable s a c \<longleftrightarrow> registered s (origin_fd c) = Some (Remote_handlers, OP_WRITE, Some (Client_ptr a))"

lemma round_sends:
  assumes l: "loop_ready admin_socket (s, w)" and ok: "client_ok s w a c" "origin_writable s a c" "admin_socket \<notin> {client_fd c, origin_fd c}"
    and c: "cl_state c = SEND_REQ" "origin_fd c \<noteq> - 1" "buf_inv (post_req_parse_buf c)" "pending (post_req_parse_buf c) \<noteq> []"
    and r: "sys_write (origin_fd c) (pending (post_req_parse_buf c)) (px_os w) = (n, p)" "n \<noteq> - 1"
  shows "\<exists>s' w' b. proxy_step strerror admin_socket (s, w) (s', w') \<and> loop_ready admin_socket (s', w')
    \<and> client_ok s' w' a (c\<lparr>post_req_parse_buf := b\<rparr>) \<and> origin_writable s' a (c\<lparr>post_req_parse_buf := b\<rparr>) \<and> buf_inv b
    \<and> moved (origin_fd c) (post_req_parse_buf c) b w w' \<and> px_os w' = p"
proof -
  let ?tab = "handlers_of strerror (handlers_of strerror (proxy_callbacks strerror 0))" and ?fd = "origin_fd c"
  let ?P = "\<lambda>s' w'. \<exists>b. client_ok s' w' a (c\<lparr>post_req_parse_buf := b\<rparr>) \<and> buf_inv b \<and> moved ?fd (post_req_parse_buf c) b w w' \<and> px_os w' = p
      \<and> registered s' = with_interest (client_fd c) OP_READ (with_interest admin_socket OP_READ (registered s))"
  have reg: "registered s ?fd = Some (Remote_handlers, OP_WRITE, Some (Client_ptr a))" using ok(2) by (simp add: origin_writable_def)
  have "\<exists>s' w'. main_round strerror 3 admin_socket (poll_of ?fd HANDLE_WRITE) (s, w) = Some (Inr (s', w')) \<and> ?P s' w'
      \<and> (registered s' admin_socket \<noteq> None \<longrightarrow> loop_ready admin_socket (s', w'))"
  proof (rule main_round_calls [OF l reg])
    show "proxy_callbacks strerror 3 Remote_handlers HANDLE_WRITE = Some (remote_write ?tab)" by (simp add: callbacks_3)
    fix s2 assume a: "at_handler admin_socket s ?fd HANDLE_WRITE s2"
    from remote_write_sends [OF handlers_see_client [OF ok(1) a] c r, of ?tab ?fd] a
    show "\<exists>s3 w3. remote_write ?tab (client_key ?fd a) (s2, w) = Some (s3, w3) \<and> sel_wf s3 \<and> same_rest s2 s3
        \<and> ad_queue (px_admin w3) = ad_queue (px_admin w) \<and> ?P s3 w3"
      by (auto simp: at_handler_def dest: client_okD(1))
  qed (use ok(3) in simp_all)
  then obtain s' w' b where t: "main_round strerror 3 admin_socket (poll_of ?fd HANDLE_WRITE) (s, w) = Some (Inr (s', w'))"
    "client_ok s' w' a (c\<lparr>post_req_parse_buf := b\<rparr>)" "buf_inv b" "moved ?fd (post_req_parse_buf c) b w w'" "px_os w' = p"
    "registered s' = with_interest (client_fd c) OP_READ (with_interest admin_socket OP_READ (registered s))"
    "registered s' admin_socket \<noteq> None \<longrightarrow> loop_ready admin_socket (s', w')" by blast
  moreover have "registered s' admin_socket \<noteq> None" using t(6) l by (auto simp: with_interest_apply loop_ready_def)
  moreover have "?fd \<noteq> client_fd c" using ok(1) by (auto simp: client_ok_def)
  then have "origin_writable s' a (c\<lparr>post_req_parse_buf := b\<rparr>)" using t(6) reg ok(3) by (simp add: origin_writable_def with_interest_other)
  ultimately show ?thesis by (blast intro: loop_round)
qed

lemma round_sent:
  assumes l: "loop_ready admin_socket (s, w)" and ok: "client_ok s w a c" "origin_writable s a c" "admin_socket \<notin> {client_fd c, origin_fd c}"
    and c: "cl_state c = SEND_REQ" "origin_fd c \<noteq> - 1" "buf_inv (post_req_parse_buf c)" "pending (post_req_parse_buf c) = []" "request_complete c"
  shows "\<exists>s' w'. proxy_step strerror admin_socket (s, w) (s', w') \<and> loop_ready admin_socket (s', w')
    \<and> client_ok s' w' a (c\<lparr>cl_state := READ_RESP\<rparr>) \<and> origin_awaited s' a (c\<lparr>cl_state := READ_RESP\<rparr>) \<and> px_os w' = px_os w"
proof -
  let ?tab = "handlers_of strerror (handlers_of strerror (proxy_callbacks strerror 0))" and ?fd = "origin_fd c"
  let ?P = "\<lambda>s' w'. client_ok s' w' a (c\<lparr>cl_state := READ_RESP\<rparr>) \<and> px_os w' = px_os w
      \<and> registered s' = with_interest ?fd OP_READ (with_interest admin_socket OP_READ (registered s))"
  have reg: "registered s ?fd = Some (Remote_handlers, OP_WRITE, Some (Client_ptr a))" using ok(2) by (simp add: origin_writable_def)
  have "\<exists>s' w'. main_round strerror 3 admin_socket (poll_of ?fd HANDLE_WRITE) (s, w) = Some (Inr (s', w')) \<and> ?P s' w'
      \<and> (registered s' admin_socket \<noteq> None \<longrightarrow> loop_ready admin_socket (s', w'))"
  proof (rule main_round_calls [OF l reg])
    show "proxy_callbacks strerror 3 Remote_handlers HANDLE_WRITE = Some (remote_write ?tab)" by (simp add: callbacks_3)
    fix s2 assume a: "at_handler admin_socket s ?fd HANDLE_WRITE s2"
    from remote_write_done [OF handlers_see_client [OF ok(1) a] c(1-4), of ?tab ?fd] a c(5)
    show "\<exists>s3 w3. remote_write ?tab (client_key ?fd a) (s2, w) = Some (s3, w3) \<and> sel_wf s3 \<and> same_rest s2 s3
        \<and> ad_queue (px_admin w3) = ad_queue (px_admin w) \<and> ?P s3 w3"
      by (auto simp: at_handler_def dest: client_okD(1))
  qed (use ok(3) in simp_all)
  then obtain s' w' where t: "main_round strerror 3 admin_socket (poll_of ?fd HANDLE_WRITE) (s, w) = Some (Inr (s', w'))" "?P s' w'"
    "registered s' admin_socket \<noteq> None \<longrightarrow> loop_ready admin_socket (s', w')" by blast
  moreover have "registered s' admin_socket \<noteq> None" using t(2) l by (auto simp: with_interest_apply loop_ready_def)
  moreover have "origin_awaited s' a (c\<lparr>cl_state := READ_RESP\<rparr>)"
    using t(2) reg ok(3) by (auto simp: origin_awaited_def with_interest_apply wants_def OP_READ_def)
  ultimately show ?thesis by (blast intro: loop_round)
qed

lemma program_sends:
  assumes "loop_ready admin_socket (s, w)" "client_ok s w a c" "origin_writable s a c" "admin_socket \<notin> {client_fd c, origin_fd c}"
    "cl_state c = SEND_REQ" "origin_fd c \<noteq> - 1" "buf_inv (post_req_parse_buf c)" "request_complete c" "writes_progress w"
  shows "\<exists>s' w' b. (proxy_step strerror admin_socket)\<^sup>*\<^sup>* (s, w) (s', w') \<and> loop_ready admin_socket (s', w')
    \<and> client_ok s' w' a (c\<lparr>post_req_parse_buf := b, cl_state := READ_RESP\<rparr>)
    \<and> origin_awaited s' a (c\<lparr>post_req_parse_buf := b, cl_state := READ_RESP\<rparr>) \<and> buf_inv b \<and> pending b = []
    \<and> written_to (origin_fd c) (pf_trace (px_os w')) = written_to (origin_fd c) (pf_trace (px_os w)) @ pending (post_req_parse_buf c)
    \<and> writes_progress w'"
  using assms
proof (induction "length (pending (post_req_parse_buf c))" arbitrary: s w c rule: less_induct)
  case less
  show ?case
  proof (cases "pending (post_req_parse_buf c) = []")
    case True
    from round_sent [OF less.prems(1-7) True less.prems(8), of strerror] obtain s' w' where
      "proxy_step strerror admin_socket (s, w) (s', w')" "loop_ready admin_socket (s', w')" "client_ok s' w' a (c\<lparr>cl_state := READ_RESP\<rparr>)"
      "origin_awaited s' a (c\<lparr>cl_state := READ_RESP\<rparr>)" "px_os w' = px_os w" by blast
    then show ?thesis using True less.prems(7,9)
      by (intro exI [of _ s'] exI [of _ w'] exI [of _ "post_req_parse_buf c"]) (auto simp: writes_progress_def)
  next
    case False
    obtain k where k: "sys_write (origin_fd c) (pending (post_req_parse_buf c)) (px_os w) = (int k, (pf_next (px_os w))\<lparr>pf_trace :=
          pf_trace (px_os w) @ [Written (origin_fd c) (take k (pending (post_req_parse_buf c)))]\<rparr>)" "1 \<le> k"
        "k \<le> length (pending (post_req_parse_buf c))"
      using sys_write_progress [OF less.prems(9) [unfolded writes_progress_def] False, of "origin_fd c"] by blast
    from round_sends [OF less.prems(1-7) False k(1), of strerror]
    obtain s1 w1 b where r: "proxy_step strerror admin_socket (s, w) (s1, w1)" "loop_ready admin_socket (s1, w1)"
      "client_ok s1 w1 a (c\<lparr>post_req_parse_buf := b\<rparr>)" "origin_writable s1 a (c\<lparr>post_req_parse_buf := b\<rparr>)" "buf_inv b"
      "moved (origin_fd c) (post_req_parse_buf c) b w w1"
      "px_os w1 = (pf_next (px_os w))\<lparr>pf_trace := pf_trace (px_os w) @ [Written (origin_fd c) (take k (pending (post_req_parse_buf c)))]\<rparr>" by auto
    have "length (pending b) = length (pending (post_req_parse_buf c)) - k"
      using arg_cong [OF conjunct1 [OF r(6) [unfolded moved_def]], of length] r(7) k(3) by simp
    then have len: "length (pending b) < length (pending (post_req_parse_buf c))" using k(2,3) by simp
    have "writes_progress w1" using less.prems(9) r(7) by (auto simp: writes_progress_def pf_next_def)
    with less.hyps [OF _ r(2-4)] less.prems(4-6,8) r(5) len
    obtain s' w' b' where "(proxy_step strerror admin_socket)\<^sup>*\<^sup>* (s1, w1) (s', w')" "loop_ready admin_socket (s', w')"
      "client_ok s' w' a (c\<lparr>post_req_parse_buf := b', cl_state := READ_RESP\<rparr>)"
      "origin_awaited s' a (c\<lparr>post_req_parse_buf := b', cl_state := READ_RESP\<rparr>)" "buf_inv b'" "pending b' = []"
      "written_to (origin_fd c) (pf_trace (px_os w')) = written_to (origin_fd c) (pf_trace (px_os w1)) @ pending b" "writes_progress w'" by auto
    then show ?thesis using r(1,6)
      by (intro exI [of _ s'] exI [of _ w'] exI [of _ b']) (simp add: moved_def converse_rtranclp_into_rtranclp)
  qed
qed

section \<open>From the client to the origin\<close>

lemma resolved_step:
  assumes "client_ok s w a c" "loop_ready admin_socket (s, w)" "a \<in> set (px_lookups w)"
  shows "\<exists>w'. proxy_step strerror admin_socket (s, w) (s\<lparr>resolution_jobs := [client_fd c]\<rparr>, w')
    \<and> client_ok s w' a (c\<lparr>cl_host := (cl_host c)\<lparr>hd_resolved := Some res\<rparr>\<rparr>) \<and> px_os w' = px_os w \<and> loop_ready admin_socket (s, w')"
proof -
  let ?w = "(set_client a (c\<lparr>cl_host := (cl_host c)\<lparr>hd_resolved := Some res\<rparr>\<rparr>) w)\<lparr>px_lookups := remove1 a (px_lookups w)\<rparr>"
  have "request_resolv_blocking a (Some res) True (s, w) = Some (s\<lparr>resolution_jobs := [client_fd c]\<rparr>, ?w)"
    using client_okD(2) [OF assms(1)] assms(2) by (simp add: request_resolv_blocking_def upd_client_def selector_notify_block_def loop_ready_def)
  then have "proxy_step strerror admin_socket (s, w) (s\<lparr>resolution_jobs := [client_fd c]\<rparr>, ?w)" using assms(3) by (auto intro: resolved)
  then show ?thesis using assms(1,2) by (intro exI [of _ ?w]) (simp add: client_ok_def set_client_def loop_ready_def)
qed

text \<open>The response's side of a client that has got nothing yet, and such a client when its origin has got the request.\<close>

definition response_fresh :: "client \<Rightarrow> bool" where
  "response_fresh c \<longleftrightarrow> (\<exists>r. res_data c = defaultResponseStruct r) \<and> \<not> shouldTransform c \<and> buf_inv (pre_res_parse_buf c)
     \<and> pending (pre_res_parse_buf c) = [] \<and> resv (pre_res_parse_buf c) = 0 \<and> buf_inv (post_res_parse_buf c)"

definition expects_response :: "selector \<Rightarrow> proxy \<Rightarrow> nat \<Rightarrow> client \<Rightarrow> bool" where
  "expects_response s w a c \<longleftrightarrow> client_ok s w a c \<and> cl_state c = READ_RESP \<and> origin_fd c \<noteq> - 1 \<and> response_fresh c"

text \<open>C1
  The program forwards a request. From a state between two rounds in which a client that has sent nothing yet is waited for, and
  sends a request for an absolute URI: by a round that reads it, the end of the resolution of its host, a round interrupted by the
  resolver's signal, and rounds that write to the origin, whatever part of it each takes, a state is reached in which the origin has
  got exactly the request, with one space for the spaces and tabs after the method, and its response is waited for; and the loop can go on.\<close>

theorem program_forwards_request:
  assumes "loop_ready admin_socket (s, w)" "expects_request s w a c h" "readable s a c" "admin_socket \<noteq> client_fd c" "response_fresh c"
    and q: "absolute_request m sp sch h p n rest"
    and x: "pf_reads (px_os w) (pf_count (px_os w)) = Some (m @ sp @ sch @ str ''://'' @ h @ p @ rest)"
    and l: "length (m @ sp @ sch @ str ''://'' @ h @ p @ rest) \<le> room (pre_req_parse_buf c)"
      "length (request_text m sch h p rest) \<le> room (post_req_parse_buf c)" "pending (post_req_parse_buf c) = []"
    and f: "\<forall>k \<ge> pf_count (px_os w) + 5. pf_results (px_os w) k \<ge> 1"
    and o: "connects (pf_next (px_os w)) org" "0 \<le> org" "org < int (fd_size s)" "org < int FD_SETSIZE" "registered s org = None"
  shows "\<exists>s' w' c'. (proxy_step strerror admin_socket)\<^sup>*\<^sup>* (s, w) (s', w') \<and> loop_ready admin_socket (s', w')
    \<and> expects_response s' w' a c' \<and> same_response c c' \<and> client_fd c' = client_fd c \<and> origin_fd c' = org \<and> origin_awaited s' a c'
    \<and> host_is (cl_host c') (map tolower h) \<and> hd_port (cl_host c') = n \<and> pending (post_req_parse_buf c') = []
    \<and> written_to org (pf_trace (px_os w')) = written_to org (pf_trace (px_os w)) @ request_text m sch h p rest"
proof -
  let ?req = "request_text m sch h p rest" and ?res = "\<lparr>ai_family = AF_INET, ai_port = 0\<rparr>"
  obtain s1 w1 c1 where r1: "proxy_step strerror admin_socket (s, w) (s1, w1)" "loop_ready admin_socket (s1, w1)" "client_ok s1 w1 a c1"
    "host_asked c h n ?req c1" "px_os w1 = pf_next (px_os w)" "a \<in> set (px_lookups w1)"
    "registered s1 = with_interest (lg_writefd (px_log w)) OP_WRITE (with_interest admin_socket OP_READ (registered s))" "fd_size s1 = fd_size s"
    using round_takes_request [OF assms(1-4) q x l(1), of strerror] by blast
  let ?c1 = "c1\<lparr>cl_host := (cl_host c1)\<lparr>hd_resolved := Some ?res\<rparr>\<rparr>"
  obtain w2 where r2: "proxy_step strerror admin_socket (s1, w1) (s1\<lparr>resolution_jobs := [client_fd c1]\<rparr>, w2)" "client_ok s1 w2 a ?c1"
    "px_os w2 = px_os w1" "loop_ready admin_socket (s1, w2)"
    using resolved_step [OF r1(3,2,6), of strerror ?res] by blast
  have c1: "client_fd c1 = client_fd c" "origin_fd ?c1 = - 1" "request_complete c1" "post_req_parse_buf c1 = pushes (post_req_parse_buf c) ?req"
    "hd_port (cl_host c1) = n" "host_is (cl_host c1) (map tolower h)" "same_response c c1" using r1(4) by (simp_all add: host_asked_def)
  have org: "registered s1 org = None" "org < int (fd_size s1)" "connects (px_os w2) org"
    using o r1(5,7,8) r2(3) by (auto simp: with_interest_apply)
  obtain s3 w3 where r3: "proxy_step strerror admin_socket (s1\<lparr>resolution_jobs := [client_fd c1]\<rparr>, w2) (s3, w3)" "loop_ready admin_socket (s3, w3)"
    "client_ok s3 w3 a (with_origin org ?res ?c1)" "registered s3 org = Some (Remote_handlers, OP_WRITE, Some (Client_ptr a))"
    "pf_trace (px_os w3) = pf_trace (px_os w2)" "pf_results (px_os w3) = pf_results (px_os w2)" "pf_count (px_os w3) \<ge> pf_count (px_os w2) + 4"
    using round_connects [OF r2(4,2) _ c1(2) _ org(3) o(2) org(2) o(4) org(1), of ?res strerror] assms(4) c1(1) by auto
  let ?c = "with_origin org ?res ?c1"
  have post: "buf_inv (post_req_parse_buf c)" using assms(2) by (simp add: expects_request_def)
  have p: "buf_inv (post_req_parse_buf ?c)" "pending (post_req_parse_buf ?c) = ?req"
    using c1(4) post l(2,3) by (simp_all add: with_origin_def pending_pushes)
  have c: "cl_state ?c = SEND_REQ" "origin_fd ?c = org" "request_complete ?c" "client_fd ?c = client_fd c" using c1 by (simp_all add: with_origin_def)
  have fds: "admin_socket \<notin> {client_fd ?c, origin_fd ?c}" "origin_fd ?c \<noteq> - 1" "origin_writable s3 a ?c"
    using c assms(1,4) o(2,5) r3(4) by (auto simp: loop_ready_def origin_writable_def)
  have "writes_progress w3" using f r1(5) r2(3) r3(6,7) by (auto simp: writes_progress_def pf_next_def)
  from program_sends [OF r3(2,3) fds(3,1) c(1) fds(2) p(1) c(3) this, of strerror] obtain s4 w4 b where
    r4: "(proxy_step strerror admin_socket)\<^sup>*\<^sup>* (s3, w3) (s4, w4)" "loop_ready admin_socket (s4, w4)"
    "client_ok s4 w4 a (?c\<lparr>post_req_parse_buf := b, cl_state := READ_RESP\<rparr>)"
    "origin_awaited s4 a (?c\<lparr>post_req_parse_buf := b, cl_state := READ_RESP\<rparr>)" "pending b = []"
    "written_to (origin_fd ?c) (pf_trace (px_os w4)) = written_to (origin_fd ?c) (pf_trace (px_os w3)) @ pending (post_req_parse_buf ?c)" by blast
  let ?c4 = "?c\<lparr>post_req_parse_buf := b, cl_state := READ_RESP\<rparr>"
  have "(proxy_step strerror admin_socket)\<^sup>*\<^sup>* (s, w) (s4, w4)"
    using r1(1) r2(1) r3(1) r4(1) by (meson converse_rtranclp_into_rtranclp)
  moreover have "host_is (cl_host ?c4) (map tolower h)" "hd_port (cl_host ?c4) = n" using c1(5,6) by (simp_all add: with_origin_def host_is_def)
  moreover have "same_response c ?c4" "response_fresh ?c4" using c1(7) assms(5) by (simp_all add: same_response_def with_origin_def response_fresh_def)
  ultimately show ?thesis using r4(2-6) c fds(2) p(2) r1(5) r2(3) r3(5)
    by (intro exI [of _ s4] exI [of _ w4] exI [of _ ?c4]) (simp add: expects_response_def)
qed

text \<open>The program of the example, with the administrator's socket as descriptor 4; the origin will be descriptor 5.\<close>

definition waiting_selector :: selector where
  "waiting_selector = snd (the (selector_register None 4 (Some Admin_handler) OP_READ (Some Admin_ptr) (demo_selector OP_READ None)))"

lemma waiting:
  "sel_wf waiting_selector" "registered waiting_selector = (registered (demo_selector OP_READ None))(4 \<mapsto> (Admin_handler, OP_READ, Some Admin_ptr))"
  "same_rest (demo_selector OP_READ None) waiting_selector"
  using register_room [OF demo_wf, of 4 OP_READ None None Admin_handler OP_READ "Some Admin_ptr"] demo_registered [of OP_READ None]
  by (auto simp: waiting_selector_def demo_selector_def sizes)

lemma waiting_ready: "loop_ready 4 (waiting_selector, asking_proxy)"
  using waiting by (simp add: loop_ready_def same_rest_def asking_proxy_def demo_proxy_def sample_admin_def demo_selector_def zeroed_selector_def
      q_is_empty_def q_empty_def)

lemma waiting_expects: "expects_request waiting_selector asking_proxy 0 demo_client (str ''ab'')"
  using asking_expects waiting by (auto simp: expects_request_def log_ready_def client_ok_def demo_client_def)

lemma waiting_readable: "readable waiting_selector 0 demo_client"
  by (simp add: readable_def waiting(2) demo_client_def demo_registered wants_def OP_READ_def)

lemma demo_fresh: "response_fresh demo_client"
  by (auto simp: response_fresh_def demo_client_def no_response_def)

theorem program_forwards_request_witness:
  "\<exists>s' w' c'. (proxy_step (\<lambda>_. []) 4)\<^sup>*\<^sup>* (waiting_selector, asking_proxy) (s', w') \<and> loop_ready 4 (s', w')
    \<and> expects_response s' w' 0 c' \<and> same_response demo_client c' \<and> client_fd c' = client_fd demo_client \<and> origin_fd c' = 5 \<and> origin_awaited s' 0 c'
    \<and> host_is (cl_host c') (map tolower (str ''ab'')) \<and> hd_port (cl_host c') = 80 \<and> pending (post_req_parse_buf c') = []
    \<and> written_to 5 (pf_trace (px_os w')) = written_to 5 (pf_trace (px_os asking_proxy))
        @ request_text (str ''GET'') (str ''http'') (str ''ab'') [] (str ''/ HTTP/1.0'')"
proof (rule program_forwards_request [OF waiting_ready waiting_expects waiting_readable _ demo_fresh, where sp = "[32]"])
  show "absolute_request (str ''GET'') [32] (str ''http'') (str ''ab'') [] 80 (str ''/ HTTP/1.0'')"
    by (simp add: absolute_request_def supported_def same_text_def toupper_def is_host_char_def tolower_def isalpha_def port_text_def
        DEFAULT_PORT_def HOST_MAX_SIZE_def ends_host_def isdigit_def)
  show "5 < int (fd_size waiting_selector)" using waiting(3) by (simp add: same_rest_def demo_selector_def)
qed (simp_all add: asking_view demo_client_def request_text_def connects_def pf_next_def EINPROGRESS_def waiting(2) demo_registered sizes)

end
