(* ===== verification/ResponseHead.thy ===== *)
theory ResponseHead
  imports ResponseProperties
begin

text \<open>
  The head of a response, from the start line to the empty line: what is forwarded of it, and what the parser learns
  from it.
\<close>

section \<open>The start line\<close>

lemma same_text_nul_free: "same_text xs fs \<Longrightarrow> 0 \<notin> set fs \<Longrightarrow> 0 \<notin> set xs"
proof (induction fs arbitrary: xs)
  case (Cons f fs)
  obtain x xs' where x: "xs = x # xs'" "toupper x = toupper f" "same_text xs' fs"
    using Cons.prems(1) by (cases xs) (auto simp: same_text_def)
  moreover have "x \<noteq> 0" using x(2) Cons.prems(2) toupper_eq_0 by (metis list.set_intros(1))
  ultimately show ?case using Cons.IH [OF x(3)] Cons.prems(2) by simp
qed (simp add: same_text_def)

lemma match_block:
  assumes "buf_inv b" "buf_inv bo" "resv b = 0" "pending b = xs @ ys" "same_text xs fs" "0 \<notin> set fs"
  shows "matchFormat fs b bo pre e = Some (True, advs (length xs) b, pushes bo xs, e)"
  using matchFormat_run [OF assms(1,2,4-6) refl] copies_block [OF assms(3,4) same_text_nul_free [OF assms(5,6)] refl] same_text_length [OF assms(5)]
  by simp

lemma version_run:
  assumes "buf_inv b" "buf_inv bo" "resv b = 0" "pending b = hv @ v # ys" "same_text hv (str ''HTTP/1.'')" "v \<in> {48, 49}"
  shows "rs_extractHttpVersion (d, b, bo) = Some (True, d\<lparr>rs_version := (if v = 48 then V_1_0 else V_1_1)\<rparr>,
    advs (length hv + 1) b, pushes bo (hv @ [v]))"
proof -
  let ?b = "advs (length hv) b" and ?o = "pushes bo hv"
  have "matchFormat (str ''HTTP/1.'') b bo [] (rs_isBufferEmpty d) = Some (True, ?b, ?o, rs_isBufferEmpty d)"
    by (rule match_block [OF assms(1-5)]) simp
  moreover have "readAndWrite ?b ?o = Some (v, advs (length hv + 1) b, push ?o v)"
    using assms(1-4,6) advs_advs [of 1 "length hv" b] by (auto simp: buf_eqs buf_view copy1_def advs_Suc)
  ultimately show ?thesis using assms(6) by (auto simp: rs_extractHttpVersion_def pushes_append pushes_Cons)
qed

lemma rs_checkSpaces_run:
  assumes "buf_inv b" "buf_inv bo" "pending b = sp @ x # ys" "set sp \<subseteq> {32, 9}" "x \<notin> {0, 9, 32}"
  shows "rs_checkSpaces (d, b, bo) = Some (True, d, advs (length sp) b, push bo 32)"
proof -
  have "takeWhile (\<lambda>c. c = 32 \<or> c = 9) (sp @ x # ys) = sp" using assms(4,5) by (subst takeWhile_append2) auto
  then have "span_len (\<lambda>c. c = 32 \<or> c = 9) (pending b) = length sp" using assms(3) by (simp add: span_len_def)
  with assms show ?thesis by (simp add: rs_checkSpaces_def buf_eqs Let_def)
qed

lemma number_run:
  assumes "buf_inv b" "buf_inv bo" "resv b = 0" "pending b = ds @ x # ys" "ds \<noteq> []" "list_all isdigit ds" "\<not> isdigit x" "x \<noteq> 0"
  shows "getNumber num b bo pre e = Some (True, dec_val 0 ds, advs (length ds) b, pushes bo ds, e)"
proof -
  have "takeWhile isdigit (ds @ x # ys) = ds" using assms(6,7) by (subst takeWhile_append2) (auto simp: list_all_iff)
  then have "span_len isdigit (pending b) = length ds" using assms(4) by (simp add: span_len_def)
  moreover have "0 \<notin> set ds" using assms(6) by (auto simp: list_all_iff dest: isdigit_nonzero)
  ultimately show ?thesis using assms copies_block [OF assms(3,4) _ refl, of bo]
    by (simp add: getNumber_eq starved_def Let_def)
qed

section \<open>Text of headers\<close>

text \<open>
  Text in which the parser recognizes no header, before \<open>ys\<close>: no letter \<open>c\<close> or \<open>t\<close> begins one of the headers it knows,
  as its next letter shows, and no line is empty.
\<close>

fun quiet :: "byte list \<Rightarrow> byte list \<Rightarrow> bool" where
  "quiet [] ys \<longleftrightarrow> True"
| "quiet (x # xs) ys \<longleftrightarrow> x \<noteq> 0
     \<and> (toupper x = 67 \<longrightarrow> toupper (peekl (xs @ ys)) \<notin> {0, 79}) \<and> (toupper x = 84 \<longrightarrow> toupper (peekl (xs @ ys)) \<notin> {0, 82})
     \<and> (x = 13 \<longrightarrow> xs \<noteq> [] \<and> hd xs = 10 \<and> peekl (tl xs @ ys) \<notin> {0, 13}) \<and> quiet xs ys"

lemma quiet_nul_free: "quiet xs ys \<Longrightarrow> 0 \<notin> set xs"
  by (induction xs ys rule: quiet.induct) auto

lemma quiet_more: "quiet xs ys \<Longrightarrow> length ys \<ge> 2 \<Longrightarrow> quiet xs (ys @ zs)"
proof (induction xs ys rule: quiet.induct)
  case (2 x xs ys)
  have "peekl (xs @ ys @ zs) = peekl (xs @ ys)" using "2.prems"(2) by (cases xs; cases ys) auto
  moreover have "peekl (tl xs @ ys @ zs) = peekl (tl xs @ ys)" using "2.prems"(2) by (cases "tl xs"; cases ys) auto
  ultimately show ?case using 2 by auto
qed simp

lemma toupper_13: "toupper x = 13 \<longleftrightarrow> x = 13"
  by (auto simp: toupper_def) (metis diff_eq_eq numeral_plus_numeral)?

lemma mismatch:
  assumes "buf_inv b" "buf_inv bo" "0 \<notin> set fs" "fs \<noteq> []" "toupper (peekl (pending b)) \<notin> {0, toupper (hd fs)}"
  shows "matchFormat fs b bo pre e = Some (False, b, bo, e)"
proof -
  have "match_len fs (pending b) = 0" using assms(4,5) by (cases fs; cases "pending b") auto
  moreover have "peekl (pending b) \<noteq> 0" using assms(5) by auto
  ultimately show ?thesis using assms(1-4) by (auto simp: matchFormat_eq starved_def Let_def)
qed

text \<open>One step of the loop over the headers in quiet text: a byte, or the end of a line.\<close>

lemma quiet_step:
  assumes "buf_inv b" "buf_inv bo" "resv b = 0" "pending b = x # xs @ ys" "quiet (x # xs) ys" "x \<noteq> 13" "\<not> rs_isBufferEmpty d"
  shows "checkHeaders_body (d, b, bo) = Some (False, d, adv1 b, push bo x)"
proof -
  have x: "x \<noteq> 0" "toupper x \<noteq> 0" using assms(5) by simp_all
  have rw: "readAndWrite b bo = Some (x, adv1 b, push bo x)" using assms(1-4) x by (simp add: buf_eqs copy1_def)
  have i: "buf_inv (adv1 b)" "buf_inv (push bo x)" "pending (adv1 b) = xs @ ys" using assms(1,2,4) by (simp_all add: buf_view)
  have e: "d\<lparr>rs_isBufferEmpty := False\<rparr> = d" using assms(7) by simp
  consider "toupper x = 67" | "toupper x = 84" | "toupper x \<notin> {67, 84}" by blast
  then show ?thesis
  proof cases
    case 1
    then have "matchFormat (str ''ON'') (adv1 b) (push bo x) (str ''C'') False = Some (False, adv1 b, push bo x, False)"
      using assms(5) i by (intro mismatch) (auto simp: toupper_def)
    then show ?thesis using rw x 1 assms(7) e by (simp add: checkHeaders_body_def checkHeaders_C_def)
  next
    case 2
    then have "matchFormat (str ''RANSFER-ENCODING:'') (adv1 b) (push bo x) (str ''T'') False = Some (False, adv1 b, push bo x, False)"
      using assms(5) i by (intro mismatch) (auto simp: toupper_def)
    then show ?thesis using rw x 2 assms(7) e by (simp add: checkHeaders_body_def content_header_def)
  next
    case 3
    then show ?thesis using rw x assms(6) by (auto simp: checkHeaders_body_def toupper_13)
  qed
qed

lemma quiet_line_end:
  assumes "buf_inv b" "buf_inv bo" "resv b = 0" "pending b = 13 # 10 # xs @ ys" "peekl (xs @ ys) \<notin> {0, 13}" "\<not> rs_isBufferEmpty d"
  shows "checkHeaders_body (d, b, bo) = Some (False, d, advs 2 b, pushes bo [13, 10])"
proof -
  have rw: "readAndWrite b bo = Some (13, adv1 b, push bo 13)" using assms(1-4) by (simp add: buf_eqs copy1_def)
  have i: "buf_inv (adv1 b)" "buf_inv (push bo 13)" "resv (adv1 b) = 0" "pending (adv1 b) = [10] @ xs @ ys"
    using assms(1-4) by (simp_all add: buf_view)
  have "matchFormat [10] (adv1 b) (push bo 13) [13] False = Some (True, advs (length [10 :: byte]) (adv1 b), pushes (push bo 13) [10], False)"
    by (rule match_block [OF i]) (simp_all add: same_text_def)
  moreover have "advs (length [10 :: byte]) (adv1 b) = advs 2 b" "pushes (push bo 13) [10] = pushes bo [13, 10]"
    by (simp_all add: advs_Suc numeral_2_eq_2 pushes_Cons)
  ultimately have "matchFormat [10] (adv1 b) (push bo 13) [13] False = Some (True, advs 2 b, pushes bo [13, 10], False)" by (simp only:)
  moreover have "pending (advs 2 b) = xs @ ys" "buf_inv (advs 2 b)" using assms(1,4) by (simp_all add: buf_view)
  moreover have "d\<lparr>rs_isBufferEmpty := False\<rparr> = d" "toupper (13 :: byte) = 13" using assms(6) by (simp_all add: toupper_def)
  ultimately show ?thesis using rw assms(5,6)
    by (simp add: checkHeaders_body_def checkHeaders_CR_def checkLF_def peek_eq)
qed

lemma quiet_run:
  assumes "buf_inv b" "buf_inv bo" "resv b = 0" "pending b = xs @ ys" "quiet xs ys" "\<not> rs_isBufferEmpty d"
  shows "c_loop checkHeaders_body (d, b, bo) = c_loop checkHeaders_body (d, advs (length xs) b, pushes bo xs)"
  using assms
proof (induction xs arbitrary: b bo rule: length_induct)
  case (1 xs)
  show ?case
  proof (cases xs)
    case (Cons x xs')
    show ?thesis
    proof (cases "x = 13")
      case True
      then obtain zs where z: "xs' = 10 # zs" "peekl (zs @ ys) \<notin> {0, 13}" "quiet zs ys"
        using "1.prems"(5) Cons by (cases xs') auto
      have "c_loop checkHeaders_body (d, b, bo) = c_loop checkHeaders_body (d, advs 2 b, pushes bo [13, 10])"
        using quiet_line_end [of b bo zs ys d] "1.prems" Cons True z by (intro c_loop_continue) simp
      also have "\<dots> = c_loop checkHeaders_body (d, advs (length zs) (advs 2 b), pushes (pushes bo [13, 10]) zs)"
        by (rule "1.IH" [rule_format]) (use "1.prems" Cons z True in \<open>simp_all add: buf_view\<close>)
      finally show ?thesis using Cons True z(1) by (simp add: advs_advs pushes_append [symmetric])
    next
      case False
      have "c_loop checkHeaders_body (d, b, bo) = c_loop checkHeaders_body (d, adv1 b, push bo x)"
        using quiet_step [of b bo x xs' ys d] "1.prems" Cons False by (intro c_loop_continue) simp
      also have "\<dots> = c_loop checkHeaders_body (d, advs (length xs') (adv1 b), pushes (push bo x) xs')"
        by (rule "1.IH" [rule_format]) (use "1.prems" Cons in \<open>simp_all add: buf_view\<close>)
      finally show ?thesis using Cons by (simp add: advs_Suc pushes_Cons)
    qed
  qed simp
qed

section \<open>The headers\<close>

lemma same_text_append: "same_text xs (fs @ gs) \<Longrightarrow> \<exists>ys zs. xs = ys @ zs \<and> same_text ys fs \<and> same_text zs gs"
  by (auto simp: same_text_def map_eq_append_conv) metis

lemma same_text_Cons: "same_text xs (f # fs) \<Longrightarrow> \<exists>y ys. xs = y # ys \<and> toupper y = toupper f \<and> same_text ys fs"
  unfolding same_text_def by (cases xs) auto

lemma content_length_parts:
  assumes "same_text cl (str ''CONTENT-LENGTH:'')"
  shows "\<exists>c0 c1 c2 c3 c4. cl = c0 # c1 @ c2 @ c3 # c4 \<and> toupper c0 = 67 \<and> same_text c1 (str ''ON'') \<and> same_text c2 (str ''TENT-'')
    \<and> toupper c3 = 76 \<and> same_text c4 (str ''ENGTH:'')"
proof -
  have e: "str ''CONTENT-LENGTH:'' = 67 # str ''ON'' @ str ''TENT-'' @ 76 # str ''ENGTH:''" by simp
  obtain c0 r0 where r0: "cl = c0 # r0" "toupper c0 = toupper 67" "same_text r0 (str ''ON'' @ str ''TENT-'' @ 76 # str ''ENGTH:'')"
    using same_text_Cons [OF assms [unfolded e]] by blast
  from same_text_append [OF r0(3)] obtain c1 r1 where r1: "r0 = c1 @ r1" "same_text c1 (str ''ON'')" "same_text r1 (str ''TENT-'' @ 76 # str ''ENGTH:'')" by blast
  from same_text_append [OF r1(3)] obtain c2 r2 where r2: "r1 = c2 @ r2" "same_text c2 (str ''TENT-'')" "same_text r2 (76 # str ''ENGTH:'')" by blast
  from same_text_Cons [OF r2(3)] obtain c3 c4 where r3: "r2 = c3 # c4" "toupper c3 = toupper 76" "same_text c4 (str ''ENGTH:'')" by blast
  have "cl = c0 # c1 @ c2 @ c3 # c4" "toupper c0 = 67" "toupper c3 = 76"
    using r0(1,2) r1(1) r2(1) r3(1,2) by (simp_all add: toupper_def)
  with r1(2) r2(2) r3(3) show ?thesis by blast
qed

lemma content_length_step:
  assumes "buf_inv b" "buf_inv bo" "resv b = 0" "pending b = cl @ ys" "same_text cl (str ''CONTENT-LENGTH:'')" "\<not> rs_isBufferEmpty d"
  shows "checkHeaders_body (d, b, bo) = Some (True, d\<lparr>rs_next := LENGTH_CHECK\<rparr>, advs (length cl) b, pushes bo cl)"
proof -
  have n: "length cl = 15" using same_text_length [OF assms(5)] by simp
  obtain c0 c1 c2 c3 c4 where cl: "cl = c0 # c1 @ c2 @ c3 # c4" and t: "toupper c0 = 67" "same_text c1 (str ''ON'')"
    "same_text c2 (str ''TENT-'')" "toupper c3 = 76" "same_text c4 (str ''ENGTH:'')"
    using content_length_parts [OF assms(5)] by blast
  have l: "length c1 = 2" "length c2 = 5" "length c4 = 6" using t same_text_length by fastforce+
  have nz: "c0 \<noteq> 0" "c3 \<noteq> 0" using t(1,4) by (auto simp: toupper_def)
  let ?o0 = "push bo c0"
  have rw: "readAndWrite b bo = Some (c0, adv1 b, ?o0)" using assms(1-4) cl nz by (simp add: buf_eqs copy1_def)
  have i0: "buf_inv (adv1 b)" "buf_inv ?o0" "resv (adv1 b) = 0" "pending (adv1 b) = c1 @ c2 @ c3 # c4 @ ys"
    using assms(1-4) cl by (simp_all add: buf_view)
  have z: "0 \<notin> set (str ''ON'')" "0 \<notin> set (str ''TENT-'')" "0 \<notin> set (str ''ENGTH:'')" by simp_all
  have m1: "matchFormat (str ''ON'') (adv1 b) ?o0 (str ''C'') False = Some (True, advs 3 b, pushes bo (c0 # c1), False)"
    using match_block [OF i0 t(2) z(1), of "str ''C''" False] l(1) advs_Suc [of 2 b] by (simp del: str_Cons add: pushes_Cons)
  have i1: "buf_inv (advs 3 b)" "buf_inv (pushes bo (c0 # c1))" "resv (advs 3 b) = 0" "pending (advs 3 b) = c2 @ c3 # c4 @ ys"
    using assms(1-4) cl l by (simp_all add: buf_view)
  have m2: "matchFormat (str ''TENT-'') (advs 3 b) (pushes bo (c0 # c1)) (str ''CON'') False =
      Some (True, advs 8 b, pushes bo (c0 # c1 @ c2), False)"
    using match_block [OF i1 t(3) z(2), of "str ''CON''" False] l(2) by (simp del: str_Cons add: advs_advs pushes_append pushes_Cons)
  have i2: "buf_inv (advs 8 b)" "buf_inv (pushes bo (c0 # c1 @ c2))" "resv (advs 8 b) = 0" "pending (advs 8 b) = c3 # c4 @ ys"
    using assms(1-4) cl l by (simp_all add: buf_view)
  have r3: "readAndWrite (advs 8 b) (pushes bo (c0 # c1 @ c2)) = Some (c3, advs 9 b, pushes bo (c0 # c1 @ c2 @ [c3]))"
    using i2 nz advs_advs [of 1 8 b] by (simp add: buf_eqs copy1_def pushes_append pushes_Cons advs_Suc)
  have i3: "buf_inv (advs 9 b)" "buf_inv (pushes bo (c0 # c1 @ c2 @ [c3]))" "resv (advs 9 b) = 0" "pending (advs 9 b) = c4 @ ys"
    using assms(1-4) cl l by (simp_all add: buf_view)
  have m4: "matchFormat (str ''ENGTH:'') (advs 9 b) (pushes bo (c0 # c1 @ c2 @ [c3])) (str ''CONTENT-L'') False =
      Some (True, advs 15 b, pushes bo cl, False)"
    using match_block [OF i3 t(5) z(3), of "str ''CONTENT-L''" False] l(3) by (simp del: str_Cons add: advs_advs pushes_append pushes_Cons cl)
  have e: "rs_isBufferEmpty d = False" "d\<lparr>rs_isBufferEmpty := False\<rparr> = d" using assms(6) by simp_all
  show ?thesis using rw m1 m2 r3 m4 t(1,4) e n nz
    by (simp del: str_Cons add: checkHeaders_body_def checkHeaders_C_def checkHeaders_content_def content_header_def)
qed

text \<open>Quiet text up to the length of the body, and up to the empty line.\<close>

lemma checkHeaders_length:
  assumes "buf_inv b" "buf_inv bo" "resv b = 0" "pending b = q @ cl @ ys" "quiet q (cl @ ys)" "same_text cl (str ''CONTENT-LENGTH:'')"
    "\<not> rs_isBufferEmpty d"
  shows "checkHeaders (d, b, bo) = Some (True, d\<lparr>rs_next := LENGTH_CHECK\<rparr>, advs (length q + length cl) b, pushes bo (q @ cl))"
proof -
  let ?d = "d\<lparr>rs_next := RES_HEADERS\<rparr>" and ?b = "advs (length q) b"
  have i: "buf_inv ?b" "resv ?b = 0" "pending ?b = cl @ ys" using assms(1,3,4) by (simp_all add: buf_view)
  have "c_loop checkHeaders_body (?d, b, bo) = c_loop checkHeaders_body (?d, ?b, pushes bo q)"
    by (rule quiet_run [OF assms(1-5)]) (simp add: assms(7))
  also have "\<dots> = Some (?d\<lparr>rs_next := LENGTH_CHECK\<rparr>, advs (length cl) ?b, pushes (pushes bo q) cl)"
    using content_length_step [OF i(1) _ i(2,3) assms(6), of "pushes bo q" ?d] assms(2,7) by (simp add: c_loop_break)
  finally show ?thesis by (simp add: checkHeaders_def advs_advs pushes_append)
qed

lemma checkHeaders_done:
  assumes "buf_inv b" "buf_inv bo" "resv b = 0" "pending b = q @ [13, 10, 13, 10] @ ys" "quiet q [13, 10, 13, 10]" "\<not> rs_isBufferEmpty d"
  shows "checkHeaders (d, b, bo) = Some (True, d\<lparr>rs_next := RES_FINISHED\<rparr>, advs (length q + 4) b, pushes bo (q @ [13, 10] @ header_end d))"
proof -
  let ?d = "d\<lparr>rs_next := RES_HEADERS\<rparr>" and ?b = "advs (length q) b"
  have i: "buf_inv ?b" "resv ?b = 0" "pending ?b = [13, 10, 13, 10] @ ys" using assms(1,3,4) by (simp_all add: buf_view)
  have q: "quiet q ([13, 10, 13, 10] @ ys)" using quiet_more [OF assms(5), of ys] by simp
  have "c_loop checkHeaders_body (?d, b, bo) = c_loop checkHeaders_body (?d, ?b, pushes bo q)"
    by (rule quiet_run [OF assms(1-4) q]) (simp add: assms(6))
  also have "\<dots> = Some (?d\<lparr>rs_next := RES_FINISHED\<rparr>, advs 4 ?b, pushes (pushes bo q) ([13, 10] @ header_end ?d))"
    using headers_end_step [OF i(1) _ i(2,3), of "pushes bo q" ?d] assms(2,6) by (simp add: c_loop_break)
  finally show ?thesis by (simp add: checkHeaders_def advs_advs pushes_append header_end_def)
qed

section \<open>The whole head\<close>

text \<open>
  A response with a body of known length: version, status, quiet text, the length, quiet text. What is forwarded has one space after the version
  and before the length, and the header that says that the connection will be closed.
\<close>

definition response_head :: "byte list \<Rightarrow> byte list \<Rightarrow> byte list \<Rightarrow> byte list \<Rightarrow> byte list \<Rightarrow> byte list \<Rightarrow> byte list \<Rightarrow> byte list \<Rightarrow> byte list" where
  "response_head hv sp ds q cl sp' ns q' = hv @ sp @ ds @ q @ cl @ sp' @ ns @ q' @ [13, 10, 13, 10]"

definition forwarded_head :: "byte list \<Rightarrow> byte list \<Rightarrow> byte list \<Rightarrow> byte list \<Rightarrow> byte list \<Rightarrow> byte list \<Rightarrow> byte list" where
  "forwarded_head hv ds q cl ns q' = hv @ [32] @ ds @ q @ cl @ [32] @ ns @ q' @ [13, 10] @ str ''Connection: close'' @ [13, 10, 13, 10]"

definition http_version :: "byte list \<Rightarrow> bool" where
  "http_version hv \<longleftrightarrow> (\<exists>h v. hv = h @ [v] \<and> same_text h (str ''HTTP/1.'') \<and> v \<in> {48, 49})"

definition number_text :: "byte list \<Rightarrow> byte \<Rightarrow> bool" where
  "number_text ds c \<longleftrightarrow> ds \<noteq> [] \<and> list_all isdigit ds \<and> \<not> isdigit c \<and> c \<noteq> 0"

definition head_ok :: "byte list \<Rightarrow> byte list \<Rightarrow> byte list \<Rightarrow> byte list \<Rightarrow> byte list \<Rightarrow> byte list \<Rightarrow> byte list \<Rightarrow> byte list \<Rightarrow> nat \<Rightarrow> bool" where
  "head_ok hv sp ds q cl sp' ns q' n \<longleftrightarrow> http_version hv \<and> set sp \<subseteq> {32, 9} \<and> number_text ds (hd (q @ cl))
     \<and> quiet q (cl @ sp' @ ns) \<and> same_text cl (str ''CONTENT-LENGTH:'') \<and> set sp' \<subseteq> {32, 9} \<and> number_text ns (hd (q' @ [13]))
     \<and> quiet q' [13, 10, 13, 10] \<and> dec_val 0 ns = int n"

lemma checkResponse_from:
  assumes "c_loop checkResponseInner_body (True, True, rData\<lparr>rs_isBufferEmpty := False\<rparr>, bIn, bOut, bT) =
      c_loop checkResponseInner_body (True, True, d, b, bo, bT)" "\<not> rs_isBufferEmpty d"
  shows "checkResponse rData bIn bOut bT = checkResponse d b bo bT"
proof -
  have "d\<lparr>rs_isBufferEmpty := False\<rparr> = d" using assms(2) by simp
  then show ?thesis using assms(1) by (simp add: checkResponse_def checkResponseInner_def)
qed

lemma number_text_first: "number_text ds c \<Longrightarrow> \<exists>x xs. ds = x # xs \<and> x \<notin> {0, 9, 32}"
  by (cases ds) (auto simp: number_text_def isdigit_def)

text \<open>One turn of the state machine in each state on the way, for input that is \<open>k\<close> bytes into \<open>bIn\<close>.\<close>

definition input_at :: "buffer \<Rightarrow> nat \<Rightarrow> byte list \<Rightarrow> bool" where
  "input_at bIn k p \<longleftrightarrow> buf_inv bIn \<and> resv bIn = 0 \<and> k \<le> length (pending bIn) \<and> drop k (pending bIn) = p"

lemma input_atD: "input_at bIn k p \<Longrightarrow> buf_inv (advs k bIn) \<and> resv (advs k bIn) = 0 \<and> pending (advs k bIn) = p"
  by (simp add: input_at_def buf_view)

lemma input_append:
  assumes "input_at bIn k (xs @ ys)"
  shows "input_at bIn (k + length xs) ys"
proof -
  have "length (drop k (pending bIn)) = length (xs @ ys)" using assms by (simp add: input_at_def)
  moreover have "drop (length xs) (drop k (pending bIn)) = ys" using assms by (simp only: input_at_def) simp
  ultimately show ?thesis using assms by (auto simp: input_at_def add.commute)
qed

lemma turn_version:
  assumes "input_at bIn k (hv @ ys)" "buf_inv bo" "http_version hv" "rs_parserState d = RES_VERSION"
  shows "\<exists>v. rs_switch (d, advs k bIn, bo, bT) = Some (True, True, d\<lparr>rs_version := v, rs_parserState := RES_SPACE_TRANSITION, rs_next := STATUS\<rparr>,
    advs (k + length hv) bIn, pushes bo hv, bT)"
proof -
  obtain h0 v where hv: "hv = h0 @ [v]" "same_text h0 (str ''HTTP/1.'')" "v \<in> {48, 49}" using assms(3) by (auto simp: http_version_def)
  have "rs_extractHttpVersion (d, advs k bIn, bo) = Some (True, d\<lparr>rs_version := (if v = 48 then V_1_0 else V_1_1)\<rparr>,
      advs (length h0 + 1) (advs k bIn), pushes bo (h0 @ [v]))"
    by (rule version_run) (use input_atD [OF assms(1)] assms(2) hv in auto)
  then show ?thesis using assms(4) hv(1) by (auto simp: rs_switch_def advs_advs)
qed

lemma turn_spaces:
  assumes "input_at bIn k (sp @ ys)" "buf_inv bo" "set sp \<subseteq> {32, 9}" "peekl ys \<notin> {0, 9, 32}" "rs_parserState d = RES_SPACE_TRANSITION"
  shows "rs_switch (d, advs k bIn, bo, bT) = Some (True, True, d\<lparr>rs_parserState := rs_next d\<rparr>, advs (k + length sp) bIn, pushes bo [32], bT)"
proof -
  obtain y ys' where y: "ys = y # ys'" "y \<notin> {0, 9, 32}" using assms(4) by (cases ys) auto
  have "rs_checkSpaces (d, advs k bIn, bo) = Some (True, d, advs (length sp) (advs k bIn), push bo 32)"
    by (rule rs_checkSpaces_run [OF _ assms(2) _ assms(3) y(2)]) (use input_atD [OF assms(1)] y(1) in auto)
  then show ?thesis using assms(5) by (simp add: rs_switch_def advs_advs pushes_Cons)
qed

lemma number_at:
  assumes "input_at bIn k (ds @ ys)" "buf_inv bo" "number_text ds (peekl ys)"
  shows "getNumber num (advs k bIn) bo [] e = Some (True, dec_val 0 ds, advs (k + length ds) bIn, pushes bo ds, e)"
proof -
  obtain y ys' where y: "ys = y # ys'" using assms(3) by (cases ys) (auto simp: number_text_def)
  have "getNumber num (advs k bIn) bo [] e = Some (True, dec_val 0 ds, advs (length ds) (advs k bIn), pushes bo ds, e)"
    by (rule number_run) (use input_atD [OF assms(1)] assms(2,3) y in \<open>auto simp: number_text_def\<close>)
  then show ?thesis by (simp add: advs_advs)
qed

lemma turn_status:
  assumes "input_at bIn k (ds @ ys)" "buf_inv bo" "number_text ds (peekl ys)" "rs_parserState d = STATUS" "\<not> rs_isBufferEmpty d"
  shows "rs_switch (d, advs k bIn, bo, bT) = Some (True, True, d\<lparr>rs_status := dec_val 0 ds, rs_parserState := RES_HEADERS\<rparr>,
    advs (k + length ds) bIn, pushes bo ds, bT)"
  using number_at [OF assms(1-3)] assms(4,5) by (simp add: rs_switch_def extractStatus_def isValidStatus_def)

lemma turn_length:
  assumes "input_at bIn k (ds @ ys)" "buf_inv bo" "number_text ds (peekl ys)" "rs_parserState d = LENGTH_CHECK" "\<not> rs_isBufferEmpty d"
  shows "rs_switch (d, advs k bIn, bo, bT) = Some (True, True, d\<lparr>rs_bodyLength := dec_val 0 ds, rs_parserState := RES_HEADERS\<rparr>,
    advs (k + length ds) bIn, pushes bo ds, bT)"
  using number_at [OF assms(1-3)] assms(4,5) by (simp add: rs_switch_def checkLength_def)

lemma turn_headers_length:
  assumes "input_at bIn k (q @ cl @ ys)" "buf_inv bo" "quiet q (cl @ ys)" "same_text cl (str ''CONTENT-LENGTH:'')" "rs_parserState d = RES_HEADERS"
    "\<not> rs_isBufferEmpty d"
  shows "rs_switch (d, advs k bIn, bo, bT) = Some (True, True, d\<lparr>rs_next := LENGTH_CHECK, rs_parserState := RES_SPACE_TRANSITION\<rparr>,
    advs (k + length q + length cl) bIn, pushes bo (q @ cl), bT)"
  using checkHeaders_length [of "advs k bIn" bo q cl ys d] input_atD [OF assms(1)] assms(2-6) by (simp add: rs_switch_def advs_advs add.assoc)

lemma turn_headers_done:
  assumes "input_at bIn k (q @ [13, 10, 13, 10] @ ys)" "buf_inv bo" "quiet q [13, 10, 13, 10]" "rs_parserState d = RES_HEADERS"
    "\<not> rs_isBufferEmpty d" "\<not> rs_withTransf d"
  shows "rs_switch (d, advs k bIn, bo, bT) = Some (True, True, d\<lparr>rs_next := RES_FINISHED, rs_parserState := BODY_NORMAL\<rparr>,
    advs (k + length q + 4) bIn, pushes bo (q @ [13, 10] @ header_end d), bT)"
  using checkHeaders_done [of "advs k bIn" bo q ys d] input_atD [OF assms(1)] assms(2-6) by (simp add: rs_switch_def advs_advs add.assoc)

lemma head_run:
  assumes "buf_inv bIn" "buf_inv bOut" "resv bIn = 0" "rData = defaultResponseStruct r"
    and p: "pending bIn = response_head hv sp ds q cl sp' ns q' @ body" and h: "head_ok hv sp ds q cl sp' ns q' n"
  shows "\<exists>d. checkResponse rData bIn bOut bT = checkResponse d (advs (length (response_head hv sp ds q cl sp' ns q')) bIn)
      (pushes bOut (forwarded_head hv ds q cl ns q')) bT
    \<and> rs_parserState d = BODY_NORMAL \<and> \<not> rs_isChunked d \<and> rs_bodyLength d = int n \<and> rs_state d = RES_OK \<and> rs_status d = dec_val 0 ds"
proof -
  let ?e = "[13, 10, 13, 10] @ body"
  have H: "http_version hv" "set sp \<subseteq> {32, 9}" "number_text ds (hd (q @ cl))" "quiet q (cl @ sp' @ ns)" "same_text cl (str ''CONTENT-LENGTH:'')"
    "set sp' \<subseteq> {32, 9}" "number_text ns (hd (q' @ [13]))" "quiet q' [13, 10, 13, 10]" "dec_val 0 ns = int n"
    using h by (simp_all add: head_ok_def)
  have cl: "length cl = 15" using same_text_length [OF H(5)] by auto
  have at0: "input_at bIn 0 (hv @ sp @ ds @ q @ cl @ sp' @ ns @ q' @ ?e)" using assms(1,3) p by (simp add: input_at_def response_head_def)
  note at1 = input_append [OF at0] note at2 = input_append [OF at1] note at3 = input_append [OF at2] note at4 = input_append [OF input_append [OF at3]]
  note at5 = input_append [OF at4] note at6 = input_append [OF at5]
  have first: "peekl (ds @ q @ cl @ sp' @ ns @ q' @ ?e) \<notin> {0, 9, 32}" "peekl (ns @ q' @ ?e) \<notin> {0, 9, 32}"
    using number_text_first [OF H(3)] number_text_first [OF H(7)] by (elim exE conjE; simp)+
  have peek: "peekl (q @ cl @ zs) = hd (q @ cl)" "peekl (q' @ ?e) = hd (q' @ [13])" for zs
    using cl by (auto simp: peekl_def hd_append)
  have nt: "number_text ds (peekl (q @ cl @ sp' @ ns @ q' @ ?e))" "number_text ns (peekl (q' @ ?e))"
    using H(3,7) peek by simp_all
  have qq: "quiet q (cl @ sp' @ ns @ q' @ ?e)" using quiet_more [OF H(4), of "q' @ ?e"] cl by simp
  define d0 where "d0 = rData\<lparr>rs_isBufferEmpty := False\<rparr>"
  have d0: "rs_parserState d0 = RES_VERSION" "\<not> rs_isBufferEmpty d0" "\<not> rs_withTransf d0" "\<not> rs_isChunked d0" "\<not> rs_isClose d0" "rs_state d0 = RES_OK"
    using assms(4) by (simp_all add: d0_def defaultResponseStruct_def)
  obtain v where s1: "rs_switch (d0, advs 0 bIn, bOut, bT) = Some (True, True,
      d0\<lparr>rs_version := v, rs_parserState := RES_SPACE_TRANSITION, rs_next := STATUS\<rparr>, advs (0 + length hv) bIn, pushes bOut hv, bT)"
    using turn_version [OF at0 assms(2) H(1) d0(1)] by blast
  define d1 where "d1 = d0\<lparr>rs_version := v, rs_parserState := RES_SPACE_TRANSITION, rs_next := STATUS\<rparr>"
  define d2 where "d2 = d1\<lparr>rs_parserState := rs_next d1\<rparr>"
  define d3 where "d3 = d2\<lparr>rs_status := dec_val 0 ds, rs_parserState := RES_HEADERS\<rparr>"
  define d4 where "d4 = d3\<lparr>rs_next := LENGTH_CHECK, rs_parserState := RES_SPACE_TRANSITION\<rparr>"
  define d5 where "d5 = d4\<lparr>rs_parserState := rs_next d4\<rparr>"
  define d6 where "d6 = d5\<lparr>rs_bodyLength := dec_val 0 ns, rs_parserState := RES_HEADERS\<rparr>"
  define d7 where "d7 = d6\<lparr>rs_next := RES_FINISHED, rs_parserState := BODY_NORMAL\<rparr>"
  note d = d1_def d2_def d3_def d4_def d5_def d6_def d7_def
  have t: "rs_parserState d1 = RES_SPACE_TRANSITION" "rs_parserState d2 = STATUS" "rs_parserState d3 = RES_HEADERS" "rs_parserState d4 = RES_SPACE_TRANSITION"
    "rs_parserState d5 = LENGTH_CHECK" "rs_parserState d6 = RES_HEADERS" "\<not> rs_isBufferEmpty d2" "\<not> rs_isBufferEmpty d3" "\<not> rs_isBufferEmpty d5"
    "\<not> rs_isBufferEmpty d6" "\<not> rs_isBufferEmpty d7" "\<not> rs_withTransf d6" using d0 by (simp_all add: d)
  have o: "buf_inv (pushes bOut xs)" for xs using assms(2) by simp
  let ?loop = "\<lambda>d k xs. c_loop checkResponseInner_body (True, True, d, advs k bIn, pushes bOut xs, bT)"
  have l1: "c_loop checkResponseInner_body (True, True, d0, advs 0 bIn, bOut, bT) = ?loop d1 (0 + length hv) hv"
    unfolding d1_def by (rule rs_step [OF s1])
  have l2: "?loop d1 (0 + length hv) xs = ?loop d2 (0 + length hv + length sp) (xs @ [32])" for xs
    unfolding d2_def pushes_append by (rule rs_step [OF turn_spaces [OF at1 o H(2) first(1) t(1)]])
  have l3: "?loop d2 (0 + length hv + length sp) xs = ?loop d3 (0 + length hv + length sp + length ds) (xs @ ds)" for xs
    unfolding d3_def pushes_append by (rule rs_step [OF turn_status [OF at2 o nt(1) t(2,7)]])
  have l4: "?loop d3 (0 + length hv + length sp + length ds) xs =
      ?loop d4 (0 + length hv + length sp + length ds + length q + length cl) (xs @ q @ cl)" for xs
    unfolding d4_def pushes_append [of bOut xs] by (rule rs_step [OF turn_headers_length [OF at3 o qq H(5) t(3,8)]])
  have l5: "?loop d4 (0 + length hv + length sp + length ds + length q + length cl) xs =
      ?loop d5 (0 + length hv + length sp + length ds + length q + length cl + length sp') (xs @ [32])" for xs
    unfolding d5_def pushes_append by (rule rs_step [OF turn_spaces [OF at4 o H(6) first(2) t(4)]])
  have l6: "?loop d5 (0 + length hv + length sp + length ds + length q + length cl + length sp') xs =
      ?loop d6 (0 + length hv + length sp + length ds + length q + length cl + length sp' + length ns) (xs @ ns)" for xs
    unfolding d6_def pushes_append by (rule rs_step [OF turn_length [OF at5 o nt(2) t(5,9)]])
  let ?K = "0 + length hv + length sp + length ds + length q + length cl + length sp' + length ns + length q' + 4"
  have l7: "?loop d6 (0 + length hv + length sp + length ds + length q + length cl + length sp' + length ns) xs =
      ?loop d7 ?K (xs @ q' @ [13, 10] @ header_end d6)" for xs
    unfolding d7_def pushes_append [of bOut xs] by (rule rs_step [OF turn_headers_done [OF at6 o H(8) t(6,10,12)]])
  have he: "header_end d6 = str ''Connection: close'' @ [13, 10, 13, 10]" using d0 by (simp add: header_end_def d)
  have "c_loop checkResponseInner_body (True, True, d0, advs 0 bIn, bOut, bT) = ?loop d7 ?K (forwarded_head hv ds q cl ns q')"
    unfolding l1 l2 l3 l4 l5 l6 l7 he forwarded_head_def append_assoc ..
  also have "?K = length (response_head hv sp ds q cl sp' ns q')" by (simp add: response_head_def)
  finally have "checkResponse rData bIn bOut bT = checkResponse d7 (advs (length (response_head hv sp ds q cl sp' ns q')) bIn)
      (pushes bOut (forwarded_head hv ds q cl ns q')) bT"
    by (intro checkResponse_from) (use t(11) in \<open>simp_all add: d0_def\<close>)
  then show ?thesis using d0 H(9) by (intro exI [of _ d7]) (simp add: d)
qed

text \<open>C7
  The head of a response and its body. From the start, a response with a body of known length whose head comes in one piece, with
  any headers besides the length that the parser does not treat, is taken in one call: version and status, the headers and the length are
  forwarded with single spaces, \<open>Connection: close\<close> is added before the empty line, what there is of the body
  follows, and either the parser has finished, or it knows how much of the body is missing.\<close>

theorem checkResponse_head:
  assumes "buf_inv bIn" "buf_inv bOut" "resv bIn = 0" "rData = defaultResponseStruct r"
    "pending bIn = response_head hv sp ds q cl sp' ns q' @ body" "head_ok hv sp ds q cl sp' ns q' n"
  shows "\<exists>d bIn' bOut'. checkResponse rData bIn bOut bT = Some (n \<le> length body, d, bIn', bOut', bT)
    \<and> pending bOut' = pending bOut @ take (room bOut) (forwarded_head hv ds q cl ns q' @ take n body)
    \<and> pending bIn' = drop n body \<and> rs_state d = RES_OK \<and> rs_bodyLength d = int (n - length body)
    \<and> rs_parserState d = (if n \<le> length body then RES_FINISHED else BODY_NORMAL)"
proof -
  let ?L = "length (response_head hv sp ds q cl sp' ns q')"
  obtain d where d: "checkResponse rData bIn bOut bT = checkResponse d (advs ?L bIn) (pushes bOut (forwarded_head hv ds q cl ns q')) bT"
    "rs_parserState d = BODY_NORMAL" "\<not> rs_isChunked d" "rs_bodyLength d = int n" "rs_state d = RES_OK"
    using head_run [OF assms, of bT] by blast
  have i: "buf_inv (advs ?L bIn)" "resv (advs ?L bIn) = 0" "pending (advs ?L bIn) = body" using assms(1,3,5) by (simp_all add: buf_view)
  from length_body_run [OF i(1) _ i(2) d(2-4), of "pushes bOut (forwarded_head hv ds q cl ns q')" bT] d i(3) assms(2)
  show ?thesis by (auto simp: pending_pushes room_pushes take_all_iff min_def)
qed

definition sample_head :: "byte list" where
  "sample_head = response_head (str ''HTTP/1.1'') (str '' '') (str ''200'') (str '' OK'' @ [13, 10] @ str ''Server: x'' @ [13, 10])
     (str ''Content-Length:'') (str '' '') (str ''5'') []"

lemma sample_head_ok: "head_ok (str ''HTTP/1.1'') (str '' '') (str ''200'') (str '' OK'' @ [13, 10] @ str ''Server: x'' @ [13, 10])
     (str ''Content-Length:'') (str '' '') (str ''5'') [] 5"
proof -
  have "http_version (str ''HTTP/1.1'')"
    unfolding http_version_def by (rule exI [of _ "str ''HTTP/1.''"], rule exI [of _ 49]) (simp add: same_text_def)
  then show ?thesis by (simp add: head_ok_def number_text_def isdigit_def same_text_def toupper_def c_int_def)
qed

theorem checkResponse_head_witness:
  "\<exists>d bIn' bOut'. checkResponse no_response (holding (sample_head @ str ''abc'')) (holding []) (holding []) =
      Some (5 \<le> length (str ''abc''), d, bIn', bOut', holding [])
    \<and> pending bOut' = pending (holding []) @ take (room (holding []))
        (forwarded_head (str ''HTTP/1.1'') (str ''200'') (str '' OK'' @ [13, 10] @ str ''Server: x'' @ [13, 10]) (str ''Content-Length:'') (str ''5'') []
          @ take 5 (str ''abc''))
    \<and> pending bIn' = drop 5 (str ''abc'') \<and> rs_state d = RES_OK \<and> rs_bodyLength d = int (5 - length (str ''abc''))
    \<and> rs_parserState d = (if 5 \<le> length (str ''abc'') then RES_FINISHED else BODY_NORMAL)"
  by (rule checkResponse_head [OF _ _ _ no_response_def _ sample_head_ok]) (simp_all add: sample_head_def response_head_def)

end
