(* ===== verification/ResponseLoop.thy ===== *)
theory ResponseLoop
  imports RequestLoop ResponseHead
begin

unbundle bit_operations_syntax

text \<open>
  The way of a whole response through the main loop: the head, the pieces of the body, the writes to the client.
\<close>

lemma head_parsed:
  assumes "res_data c = defaultResponseStruct r" "buf_inv (pre_res_parse_buf c)" "pending (pre_res_parse_buf c) = []"
    "resv (pre_res_parse_buf c) = 0" "buf_inv (post_res_parse_buf c)" "head_ok hv sp ds q cl sp' ns q' n"
    and x: "xs = response_head hv sp ds q cl sp' ns q' @ part" "length xs \<le> room (pre_res_parse_buf c)"
  shows "\<exists>d bi. checkResponse (res_data c) (pushes (pre_res_parse_buf c) xs) (post_res_parse_buf c) (pre_transf_buf c) =
      Some (n \<le> length part, d, bi, pushes (post_res_parse_buf c) (forwarded_head hv ds q cl ns q' @ take n part), pre_transf_buf c)
    \<and> rs_state d = RES_OK \<and> rs_bodyLength d = int (n - length part) \<and> \<not> rs_isChunked d
    \<and> rs_parserState d = (if n \<le> length part then RES_FINISHED else BODY_NORMAL)
    \<and> (length part \<le> n \<longrightarrow> buf_inv bi \<and> pending bi = [] \<and> resv bi = 0 \<and> room bi = room (pre_res_parse_buf c))"
proof -
  let ?L = "length (response_head hv sp ds q cl sp' ns q')" and ?p = "pushes (pre_res_parse_buf c) xs"
    and ?o = "pushes (post_res_parse_buf c) (forwarded_head hv ds q cl ns q')"
  have p: "buf_inv ?p" "resv ?p = 0" "pending ?p = response_head hv sp ds q cl sp' ns q' @ part"
    using assms(2-4) x by (simp_all add: buf_view)
  obtain d where d: "checkResponse (res_data c) ?p (post_res_parse_buf c) (pre_transf_buf c) = checkResponse d (advs ?L ?p) ?o (pre_transf_buf c)"
    "rs_parserState d = BODY_NORMAL" "\<not> rs_isChunked d" "rs_bodyLength d = int n" "rs_state d = RES_OK"
    using head_run [OF p(1) assms(5) p(2) assms(1) p(3) assms(6), of "pre_transf_buf c"] by blast
  have i: "buf_inv (advs ?L ?p)" "resv (advs ?L ?p) = 0" "pending (advs ?L ?p) = part" using p by (simp_all add: buf_view)
  obtain d' where d': "checkResponse d (advs ?L ?p) ?o (pre_transf_buf c) =
      Some (n \<le> length part, d', advs (min n (length part)) (advs ?L ?p), pushes ?o (take n part), pre_transf_buf c)"
    "rs_state d' = RES_OK" "rs_bodyLength d' = int (n - length part)" "\<not> rs_isChunked d'"
    "rs_parserState d' = (if n \<le> length part then RES_FINISHED else BODY_NORMAL)"
    using length_body_run [OF i(1) _ i(2) d(2-4), of ?o "pre_transf_buf c"] i(3) assms(5) d(3,5) by auto
  have "advs (min n (length part)) (advs ?L ?p) = advs (length xs) ?p" if "length part \<le> n" using that x(1) by (simp add: advs_advs min_absorb2)
  then have "length part \<le> n \<Longrightarrow> buf_inv (advs (min n (length part)) (advs ?L ?p)) \<and> pending (advs (min n (length part)) (advs ?L ?p)) = []
      \<and> resv (advs (min n (length part)) (advs ?L ?p)) = 0 \<and> room (advs (min n (length part)) (advs ?L ?p)) = room (pre_res_parse_buf c)"
    using drained_room [OF assms(2-4) x(2)] by simp
  with d(1) d' show ?thesis by (simp add: pushes_append)
qed

text \<open>C2
  The program delivers a response. From a state between two rounds in which the origin of a client has got the request, and sends a
  response with a body of known length, the head in one piece, by itself or with some of the body, and the rest of the body in any pieces,
  as long as the client takes at least a byte at a time: by rounds of the main loop a state is reached in which the client has got the head
  as the parser forwards it and exactly the body, and is unregistered and closed; and the loop can go on.\<close>

theorem program_delivers_response:
  assumes l: "loop_ready admin_socket (s, w)" and e: "expects_response s w a c" "origin_awaited s a c" "admin_socket \<notin> {client_fd c, origin_fd c}"
    and h: "head_ok hv sp ds q cl sp' ns q' n"
    and x: "\<forall>i < length (xs # xss). pf_reads (px_os w) (pf_count (px_os w) + i) = Some ((xs # xss) ! i)"
      "xs = response_head hv sp ds q cl sp' ns q' @ part" "\<forall>xs \<in> set (xs # xss). xs \<noteq> [] \<and> length xs \<le> room (pre_res_parse_buf c)"
    and n: "length (concat (butlast (part # xss))) < n" "n \<le> length (concat (part # xss))"
    and f: "length (forwarded_head hv ds q cl ns q') + n \<le> room (post_res_parse_buf c)"
      "\<forall>k \<ge> pf_count (px_os w) + length (xs # xss). pf_results (px_os w) k \<ge> 1"
  shows "\<exists>s' w'. (proxy_step strerror admin_socket)\<^sup>*\<^sup>* (s, w) (s', w')
    \<and> written_to (client_fd c) (pf_trace (px_os w')) = written_to (client_fd c) (pf_trace (px_os w)) @ pending (post_res_parse_buf c)
        @ forwarded_head hv ds q cl ns q' @ take n (concat (part # xss))
    \<and> registered s' (client_fd c) = None \<and> Shut (client_fd c) \<in> set (pf_trace (px_os w')) \<and> loop_ready admin_socket (s', w')"
proof -
  let ?F = "forwarded_head hv ds q cl ns q'" and ?b = "take n (concat (part # xss))"
  have ok: "client_ok s w a c" "cl_state c = READ_RESP" "\<not> shouldTransform c" "origin_fd c \<noteq> - 1" "buf_inv (pre_res_parse_buf c)"
    and c: "pending (pre_res_parse_buf c) = []" "resv (pre_res_parse_buf c) = 0" "buf_inv (post_res_parse_buf c)"
    using e(1) by (simp_all add: expects_response_def response_fresh_def)
  obtain r where rd: "res_data c = defaultResponseStruct r" using e(1) by (auto simp: expects_response_def response_fresh_def)
  have x0: "pf_reads (px_os w) (pf_count (px_os w)) = Some xs" "xs \<noteq> []" "length xs \<le> room (pre_res_parse_buf c)"
    using x(1) [rule_format, of 0] x(3) by simp_all
  obtain d bi where d: "checkResponse (res_data c) (pushes (pre_res_parse_buf c) xs) (post_res_parse_buf c) (pre_transf_buf c) =
      Some (n \<le> length part, d, bi, pushes (post_res_parse_buf c) (?F @ take n part), pre_transf_buf c)"
    "rs_state d = RES_OK" "rs_bodyLength d = int (n - length part)" "\<not> rs_isChunked d"
    "rs_parserState d = (if n \<le> length part then RES_FINISHED else BODY_NORMAL)"
    "length part \<le> n \<longrightarrow> buf_inv bi \<and> pending bi = [] \<and> resv bi = 0 \<and> room bi = room (pre_res_parse_buf c)"
    using head_parsed [OF rd ok(5) c h x(2) x0(3)] by blast
  have "\<exists>s1 w1 c1. (proxy_step strerror admin_socket)\<^sup>*\<^sup>* (s, w) (s1, w1) \<and> client_ok s1 w1 a c1 \<and> writable s1 a c1
    \<and> cl_state c1 = READ_RESP \<and> source_fd c1 = - 1 \<and> origin_fd c1 = - 1 \<and> client_fd c1 = client_fd c
    \<and> post_res_parse_buf c1 = pushes (post_res_parse_buf c) (?F @ ?b)
    \<and> written_to (client_fd c) (pf_trace (px_os w1)) = written_to (client_fd c) (pf_trace (px_os w)) \<and> pf_results (px_os w1) = pf_results (px_os w)
    \<and> pf_count (px_os w1) = pf_count (px_os w) + length (xs # xss) \<and> loop_ready admin_socket (s1, w1)"
  proof (cases "n \<le> length part")
    case True
    then have nil: "xss = []" using n(1) by (cases xss) auto
    have fin: "rs_parserState d = RES_FINISHED" using d(5) True by simp
    from round_finishes [OF l ok e(2,3) x0 d(1,2) fin, of strerror] obtain s1 w1 c1 where
      "proxy_step strerror admin_socket (s, w) (s1, w1)" "client_ok s1 w1 a c1" "writable s1 a c1" "cl_state c1 = READ_RESP" "source_fd c1 = - 1"
      "origin_fd c1 = - 1" "client_fd c1 = client_fd c" "post_res_parse_buf c1 = pushes (post_res_parse_buf c) (?F @ take n part)"
      "pf_trace (px_os w1) = pf_trace (px_os w) @ [Shut (origin_fd c)]" "pf_results (px_os w1) = pf_results (px_os w)"
      "pf_count (px_os w1) = Suc (pf_count (px_os w))" "loop_ready admin_socket (s1, w1)" by blast
    then show ?thesis using nil by (intro exI [of _ s1] exI [of _ w1] exI [of _ c1]) auto
  next
    case False
    let ?c = "c\<lparr>res_data := d, pre_res_parse_buf := bi, post_res_parse_buf := pushes (post_res_parse_buf c) (?F @ take n part)\<rparr>"
    have go: "rs_parserState d = BODY_NORMAL" and bi: "buf_inv bi" "pending bi = []" "resv bi = 0" "room bi = room (pre_res_parse_buf c)"
      using d(5,6) False by simp_all
    from round_goes_on [OF l ok(1-3,5) e(2,3) x0 d(1,2) go, of strerror] obtain s0 w0 where r: "proxy_step strerror admin_socket (s, w) (s0, w0)"
      "loop_ready admin_socket (s0, w0)" "client_ok s0 w0 a ?c" "origin_awaited s0 a ?c" "px_os w0 = pf_next (px_os w)" by blast
    have a: "awaits_body s0 w0 a ?c (n - length part)" using r(3) ok(2-4) go d(2-4) bi c(3) by (simp add: awaits_body_def)
    have reads: "\<forall>i < length xss. pf_reads (px_os w0) (pf_count (px_os w0) + i) = Some (xss ! i)"
    proof (intro allI impI)
      fix i assume "i < length xss"
      then show "pf_reads (px_os w0) (pf_count (px_os w0) + i) = Some (xss ! i)"
        using x(1) [rule_format, of "Suc i"] r(5) by (simp add: pf_next_def)
    qed
    have ne: "xss \<noteq> []" using False n(2) by auto
    have len: "length (concat (butlast xss)) < n - length part" "n - length part \<le> length (concat xss)" using n False ne by auto
    have fits: "\<forall>xs \<in> set xss. xs \<noteq> [] \<and> length xs \<le> room (pre_res_parse_buf ?c)" "admin_socket \<notin> {client_fd ?c, origin_fd ?c}"
      using x(3) bi(4) e(3) by simp_all
    from program_reads_body [OF a reads fits(1) len r(2,4) fits(2), of strerror] obtain s1 w1 c1 where
      "(proxy_step strerror admin_socket)\<^sup>*\<^sup>* (s0, w0) (s1, w1)" "client_ok s1 w1 a c1" "writable s1 a c1" "cl_state c1 = READ_RESP" "source_fd c1 = - 1"
      "origin_fd c1 = - 1" "client_fd c1 = client_fd c"
      "post_res_parse_buf c1 = pushes (post_res_parse_buf ?c) (take (n - length part) (concat xss))"
      "written_to (client_fd c) (pf_trace (px_os w1)) = written_to (client_fd c) (pf_trace (px_os w0))" "pf_results (px_os w1) = pf_results (px_os w0)"
      "pf_count (px_os w1) = pf_count (px_os w0) + length xss" "loop_ready admin_socket (s1, w1)" by auto
    then show ?thesis using r(1,5) False
      by (intro exI [of _ s1] exI [of _ w1] exI [of _ c1]) (simp add: pushes_append [symmetric] pf_next_def converse_rtranclp_into_rtranclp)
  qed
  then obtain s1 w1 c1 where r: "(proxy_step strerror admin_socket)\<^sup>*\<^sup>* (s, w) (s1, w1)" "client_ok s1 w1 a c1" "writable s1 a c1"
    "cl_state c1 = READ_RESP" "source_fd c1 = - 1" "origin_fd c1 = - 1" "client_fd c1 = client_fd c"
    "post_res_parse_buf c1 = pushes (post_res_parse_buf c) (?F @ ?b)"
    "written_to (client_fd c) (pf_trace (px_os w1)) = written_to (client_fd c) (pf_trace (px_os w))" "pf_results (px_os w1) = pf_results (px_os w)"
    "pf_count (px_os w1) = pf_count (px_os w) + length (xs # xss)" "loop_ready admin_socket (s1, w1)" by blast
  have "length ?b = n" using n(2) by simp
  then have p: "buf_inv (post_res_parse_buf c1)" "pending (post_res_parse_buf c1) = pending (post_res_parse_buf c) @ ?F @ ?b"
    using r(8) c(3) f(1) pending_pushes [OF c(3), of "?F @ ?b"] by (simp_all del: concat.simps)
  have "writes_progress w1" "origin_fd c1 \<noteq> admin_socket" "admin_socket \<noteq> client_fd c1"
    using e(3) f(2) r(6,7,10,11) registered_iff [of s "- 1"] l by (auto simp: writes_progress_def loop_ready_def)
  from program_delivers [OF r(12,2,3) this(3) r(4,5) p(1) this(1,2), of strerror] r(1,7,9) p(2)
  show ?thesis by (metis rtranclp_trans)
qed

definition answered_client :: client where
  "answered_client = demo_client\<lparr>cl_state := READ_RESP, origin_fd := 4\<rparr>"

definition answering_proxy :: proxy where
  "answering_proxy = (demo_proxy 2 [] answered_client)\<lparr>px_os := (px_os (demo_proxy 2 [] answered_client))
     \<lparr>pf_reads := (\<lambda>k. Some (if k = 0 then sample_head @ str ''abc'' else str ''de''))\<rparr>\<rparr>"

lemma answering_view: "px_clients answering_proxy = [0 \<mapsto> answered_client]" "pf_count (px_os answering_proxy) = 0"
  "pf_reads (px_os answering_proxy) = (\<lambda>k. Some (if k = 0 then sample_head @ str ''abc'' else str ''de''))"
  "pf_results (px_os answering_proxy) = (\<lambda>_. 2)" "pf_trace (px_os answering_proxy) = []"
  by (simp_all add: answering_proxy_def demo_proxy_def)

lemma answering_ready: "loop_ready 5 (looping_selector, answering_proxy)"
  using looping_ready [of 2 "[]" answered_client] by (simp add: loop_ready_def answering_proxy_def)

lemma answering_expects: "expects_response looping_selector answering_proxy 0 answered_client" "origin_awaited looping_selector 0 answered_client"
  using looping demo_fresh by (auto simp: expects_response_def response_fresh_def client_ok_def answering_view origin_awaited_def demo_registered
      answered_client_def demo_client_def wants_def OP_READ_def)

theorem program_delivers_response_witness:
  "\<exists>s' w'. (proxy_step (\<lambda>_. []) 5)\<^sup>*\<^sup>* (looping_selector, answering_proxy) (s', w')
    \<and> written_to (client_fd answered_client) (pf_trace (px_os w')) = written_to (client_fd answered_client) (pf_trace (px_os answering_proxy))
        @ pending (post_res_parse_buf answered_client)
        @ forwarded_head (str ''HTTP/1.1'') (str ''200'') (str '' OK'' @ [13, 10] @ str ''Server: x'' @ [13, 10]) (str ''Content-Length:'') (str ''5'') []
        @ take 5 (concat (str ''abc'' # [str ''de'']))
    \<and> registered s' (client_fd answered_client) = None \<and> Shut (client_fd answered_client) \<in> set (pf_trace (px_os w')) \<and> loop_ready 5 (s', w')"
  by (rule program_delivers_response [OF answering_ready answering_expects _ sample_head_ok, where xs = "sample_head @ str ''abc''"])
    (simp_all add: answering_view sample_head_def response_head_def forwarded_head_def answered_client_def demo_client_def less_Suc_eq)

end
