(* ===== verification/Transformations.thy ===== *)
theory Transformations
  imports MainSetup
begin

text \<open>
  The process of a transformation (\<open>transformations/transformations.c\<close>): what \<open>pipe\<close>, \<open>open\<close>, \<open>dup2\<close> and \<open>close\<close> make of the
  tables of descriptors of the proxy and of its child, and how the child ends: as the shell, or by returning.
\<close>

section \<open>Tables of descriptors\<close>

text \<open>A descriptor refers to an end of a pipe, to a file opened for appending, or to something else.\<close>

datatype opened = Reads_pipe nat | Writes_pipe nat | Appends "byte list" | Other_file nat

type_synonym file_table = "int \<Rightarrow> opened option"

definition ft_close :: "int \<Rightarrow> file_table \<Rightarrow> file_table" where
  "ft_close fd t = t(fd := None)"

definition ft_dup2 :: "int \<Rightarrow> int \<Rightarrow> file_table \<Rightarrow> file_table" where
  "ft_dup2 old new t = (case t old of None \<Rightarrow> t | Some f \<Rightarrow> t(new \<mapsto> f))"

definition ft_pipe :: "nat \<Rightarrow> int \<Rightarrow> int \<Rightarrow> file_table \<Rightarrow> file_table" where
  "ft_pipe n r w t = t(r \<mapsto> Reads_pipe n, w \<mapsto> Writes_pipe n)"

definition ft_open :: "byte list \<Rightarrow> int \<Rightarrow> file_table \<Rightarrow> file_table" where
  "ft_open name fd t = t(fd \<mapsto> Appends name)"

text \<open>A read from a pipe ends when no process has an end left that writes to it.\<close>

definition pipe_ends :: "nat \<Rightarrow> file_table list \<Rightarrow> bool" where
  "pipe_ends n ts \<longleftrightarrow> (\<forall>t \<in> set ts. \<forall>fd. t fd \<noteq> Some (Writes_pipe n))"

section \<open>The child\<close>

text \<open>A child becomes a program with its arguments, or goes on in the code of the caller with a result.\<close>

datatype child_end = Becomes "byte list list" file_table | Returns int file_table

text \<open>\<open>execs\<close> says whether \<open>execl\<close> finds the shell; if it does, it does not come back.\<close>

definition transformation_child :: "bool \<Rightarrow> config list \<Rightarrow> int \<Rightarrow> int \<Rightarrow> int \<Rightarrow> int \<Rightarrow> int \<Rightarrow> file_table \<Rightarrow> child_end" where
  "transformation_child execs cs in0 in1 out0 out1 error_fd t =
     (let t1 = ft_close out0 (ft_close in1 t);
          t2 = ft_dup2 error_fd 2 (ft_dup2 out1 1 (ft_dup2 in0 0 t1))
      in case config_get (str ''cmd'') cs of
           None \<Rightarrow> Returns (- 1) t2
         | Some cmd \<Rightarrow>
             if execs then Becomes [str ''sh'', str ''-c'', c_string cmd] t2
             else Returns (- 1) (ft_close out1 (ft_close in0 t2)))"

text \<open>
  \<open>transformations_new\<close> of both processes: with the result for the caller its table, and the child if there is one. The
  pipes are numbered from \<open>n\<close>.
\<close>

definition transformations_fork :: "nat \<Rightarrow> bool \<Rightarrow> proxy \<Rightarrow> file_table \<Rightarrow> (int \<times> (int \<times> int) option \<times> proxy) \<times> file_table \<times> child_end option" where
  "transformations_fork n execs w0 t0 =
     (let (rc, w1) = os_call w0; (in0, w2) = os_call w1; (in1, w3) = os_call w2
      in if rc < 0 then ((- 1, None, w1), t0, None)
         else
           (let t1 = ft_pipe n in0 in1 t0; (rc', w4) = os_call w3; (out0, w5) = os_call w4; (out1, w6) = os_call w5
            in if rc' < 0 then ((- 1, None, close_fd in1 (close_fd in0 w4)), ft_close in1 (ft_close in0 t1), None)
               else
                 (let t2 = ft_pipe (n + 1) out0 out1 t1; cs = ad_configs (px_admin w6)
                  in case config_get (str ''error_file'') cs of
                       None \<Rightarrow> ((- 1, None, w6), t2, None)
                     | Some error_file \<Rightarrow>
                         (let (error_fd, w7) = os_call w6
                          in if error_fd = - 1 then ((- 1, None, w7), t2, None)
                             else
                               (let t3 = ft_open (c_string error_file) error_fd t2; (pid, w8) = os_call w7
                                in if pid = - 1
                                   then ((- 1, None, close_fd error_fd (close_fd in1 (close_fd in0 (close_fd out1 (close_fd out0 w8))))),
                                     ft_close error_fd (ft_close in1 (ft_close in0 (ft_close out1 (ft_close out0 t3)))), None)
                                   else ((0, Some (in1, out0), close_fd out1 (close_fd in0 w8)), ft_close out1 (ft_close in0 t3),
                                     Some (transformation_child execs cs in0 in1 out0 out1 error_fd t3)))))))"

lemma fork_of_parent: "fst (transformations_fork n execs w t) = transformations_new w"
  by (simp add: transformations_fork_def transformations_new_def Let_def split_beta split: option.split)

section \<open>How the processes are wired\<close>

text \<open>The system answers as it should: nothing fails, and the descriptors are new and not those of the standard streams.\<close>

definition fork_fds :: "proxy \<Rightarrow> int list" where
  "fork_fds w = [answer w 1, answer w 2, answer w 4, answer w 5, answer w 6]"

definition forks :: "proxy \<Rightarrow> file_table \<Rightarrow> bool" where
  "forks w t \<longleftrightarrow> answer w 0 \<ge> 0 \<and> answer w 3 \<ge> 0 \<and> answer w 7 \<noteq> - 1 \<and> distinct (fork_fds w)
     \<and> (\<forall>fd \<in> set (fork_fds w). fd > 2 \<and> t fd = None)"

definition opened_fds :: "nat \<Rightarrow> byte list \<Rightarrow> proxy \<Rightarrow> file_table \<Rightarrow> file_table" where
  "opened_fds n errs w t = ft_open (c_string errs) (answer w 6) (ft_pipe (n + 1) (answer w 4) (answer w 5) (ft_pipe n (answer w 1) (answer w 2) t))"

text \<open>The table of the proxy.\<close>

definition wired :: "nat \<Rightarrow> byte list \<Rightarrow> proxy \<Rightarrow> file_table \<Rightarrow> file_table" where
  "wired n errs w t = t(answer w 2 \<mapsto> Writes_pipe n, answer w 4 \<mapsto> Reads_pipe (n + 1), answer w 6 \<mapsto> Appends (c_string errs))"

lemma parent_table:
  assumes "forks w t"
  shows "ft_close (answer w 5) (ft_close (answer w 1) (opened_fds n errs w t)) = wired n errs w t"
  using assms by (auto simp: forks_def fork_fds_def opened_fds_def ft_open_def ft_pipe_def ft_close_def fun_eq_iff wired_def)

lemma fork_run:
  assumes "forks w t" "config_get (str ''error_file'') (ad_configs (px_admin w)) = Some errs"
  shows "\<exists>w'. transformations_fork n execs w t = ((0, Some (answer w 2, answer w 4), w'),
      wired n errs w t,
      Some (transformation_child execs (ad_configs (px_admin w)) (answer w 1) (answer w 2) (answer w 4) (answer w 5) (answer w 6)
        (opened_fds n errs w t)))
    \<and> px_admin w' = px_admin w \<and> pf_count (px_os w') = pf_count (px_os w) + 8 \<and> pf_results (px_os w') = pf_results (px_os w)"
proof -
  have fd: "answer w 6 \<noteq> - 1" using assms(1) by (auto simp: forks_def fork_fds_def)
  have "transformations_fork n execs (later w 0) t = ((0, Some (answer w 2, answer w 4), close_fd (answer w 5) (close_fd (answer w 1) (later w 8))),
      wired n errs w t,
      Some (transformation_child execs (ad_configs (px_admin w)) (answer w 1) (answer w 2) (answer w 4) (answer w 5) (answer w 6)
        (opened_fds n errs w t)))"
    unfolding parent_table [OF assms(1), symmetric]
    using assms fd by (simp del: later_0 add: transformations_fork_def forks_def opened_fds_def eval_nat_numeral Let_def)
  then show ?thesis by (simp add: close_fd_def sys_close_def) (simp add: later_def)
qed

text \<open>What the child has: the ends as its standard streams, and nothing else is changed.\<close>

lemma child_table:
  assumes "forks w t" "config_get (str ''cmd'') cs = Some cmd"
  shows "\<exists>t'. transformation_child True cs (answer w 1) (answer w 2) (answer w 4) (answer w 5) (answer w 6) (opened_fds n errs w t) =
      Becomes [str ''sh'', str ''-c'', c_string cmd] t'
    \<and> t' 0 = Some (Reads_pipe n) \<and> t' 1 = Some (Writes_pipe (n + 1)) \<and> t' 2 = Some (Appends (c_string errs))
    \<and> t' (answer w 2) = None \<and> t' (answer w 4) = None \<and> (\<forall>fd > 2. fd \<notin> set (fork_fds w) \<longrightarrow> t' fd = t fd)
    \<and> t' (answer w 1) = Some (Reads_pipe n) \<and> t' (answer w 5) = Some (Writes_pipe (n + 1)) \<and> t' (answer w 6) = Some (Appends (c_string errs))"
  using assms by (auto simp: transformation_child_def forks_def fork_fds_def opened_fds_def ft_open_def ft_pipe_def ft_close_def ft_dup2_def)

definition no_pipe :: "nat \<Rightarrow> file_table \<Rightarrow> bool" where
  "no_pipe n t \<longleftrightarrow> (\<forall>fd. t fd \<noteq> Some (Reads_pipe n) \<and> t fd \<noteq> Some (Writes_pipe n))"

lemma child_table_all:
  assumes "forks w t" "config_get (str ''cmd'') cs = Some cmd" "no_pipe n t"
  shows "\<exists>t'. transformation_child True cs (answer w 1) (answer w 2) (answer w 4) (answer w 5) (answer w 6) (opened_fds n errs w t) =
      Becomes [str ''sh'', str ''-c'', c_string cmd] t'
    \<and> t' 0 = Some (Reads_pipe n) \<and> t' 1 = Some (Writes_pipe (n + 1)) \<and> t' 2 = Some (Appends (c_string errs))
    \<and> (\<forall>fd. t' fd \<noteq> Some (Writes_pipe n))"
  using assms by (auto simp: transformation_child_def forks_def fork_fds_def opened_fds_def ft_open_def ft_pipe_def ft_close_def ft_dup2_def no_pipe_def)

text \<open>C15
  The process of a transformation is wired to the proxy. When the calls of the system succeed, \<open>transformations_new\<close> gives the
  descriptors that write to the pipe from which the shell reads its standard input, and read from the pipe to which
  it writes its standard output; the errors of the command of the configuration go to the configured file. When the proxy closes
  its descriptor the program's input ends, and when the program is gone so does the proxy's. The descriptor of the file of errors
  stays open in the proxy.\<close>

theorem transformation_wired:
  assumes "forks w t" "config_get (str ''error_file'') (ad_configs (px_admin w)) = Some errs"
    "config_get (str ''cmd'') (ad_configs (px_admin w)) = Some cmd" "no_pipe n t" "no_pipe (n + 1) t"
  shows "\<exists>fd_in fd_out error_fd w' tp tc. transformations_new w = (0, Some (fd_in, fd_out), w')
    \<and> transformations_fork n True w t = ((0, Some (fd_in, fd_out), w'), tp, Some (Becomes [str ''sh'', str ''-c'', c_string cmd] tc))
    \<and> tp fd_in = Some (Writes_pipe n) \<and> tc 0 = Some (Reads_pipe n) \<and> tc 1 = Some (Writes_pipe (n + 1)) \<and> tp fd_out = Some (Reads_pipe (n + 1))
    \<and> tc 2 = Some (Appends (c_string errs)) \<and> pipe_ends n [ft_close fd_in tp, tc] \<and> pipe_ends (n + 1) [tp]
    \<and> t error_fd = None \<and> tp error_fd = Some (Appends (c_string errs))"
proof -
  obtain w' where w': "transformations_fork n True w t = ((0, Some (answer w 2, answer w 4), w'), wired n errs w t,
      Some (transformation_child True (ad_configs (px_admin w)) (answer w 1) (answer w 2) (answer w 4) (answer w 5) (answer w 6)
        (opened_fds n errs w t)))"
    using fork_run [OF assms(1,2), of n True] by blast
  obtain tc where tc: "transformation_child True (ad_configs (px_admin w)) (answer w 1) (answer w 2) (answer w 4) (answer w 5) (answer w 6)
      (opened_fds n errs w t) = Becomes [str ''sh'', str ''-c'', c_string cmd] tc" "tc 0 = Some (Reads_pipe n)" "tc 1 = Some (Writes_pipe (n + 1))"
      "tc 2 = Some (Appends (c_string errs))" "\<forall>fd. tc fd \<noteq> Some (Writes_pipe n)"
    using child_table_all [OF assms(1,3,4)] by blast
  have fds: "t (answer w 6) = None" "answer w 2 \<noteq> answer w 4" "answer w 2 \<noteq> answer w 6" "answer w 4 \<noteq> answer w 6"
    using assms(1) by (auto simp: forks_def fork_fds_def)
  have "transformations_new w = (0, Some (answer w 2, answer w 4), w')" using w' fork_of_parent [of n True w t] by simp
  moreover have "wired n errs w t (answer w 2) = Some (Writes_pipe n)" "wired n errs w t (answer w 4) = Some (Reads_pipe (n + 1))"
    "wired n errs w t (answer w 6) = Some (Appends (c_string errs))" using fds by (simp_all add: wired_def)
  moreover have "pipe_ends n [ft_close (answer w 2) (wired n errs w t), tc]" using tc(5) assms(4) by (auto simp: pipe_ends_def ft_close_def wired_def no_pipe_def)
  moreover have "pipe_ends (n + 1) [wired n errs w t]" using assms(5) by (auto simp: pipe_ends_def wired_def no_pipe_def)
  moreover have "transformations_fork n True w t = ((0, Some (answer w 2, answer w 4), w'), wired n errs w t,
      Some (Becomes [str ''sh'', str ''-c'', c_string cmd] tc))" using w' tc(1) by simp
  ultimately show ?thesis using tc(2-4) fds(1) by blast
qed

text \<open>C17
  A later process keeps an earlier one's input open. The child of a second transformation inherits the descriptor that
  writes to the first one's input, for it closes only its own: while the second program runs, the first does not see the
  end of its input though the proxy has closed it.\<close>

theorem transformation_inherits:
  assumes "forks w t" "config_get (str ''error_file'') (ad_configs (px_admin w)) = Some errs" "config_get (str ''cmd'') (ad_configs (px_admin w)) = Some cmd"
    and later: "transformations_fork n True w t = ((0, Some (fd_in, fd_out), w'), tp, Some c)" "forks w1 tp"
      "ad_configs (px_admin w1) = ad_configs (px_admin w)"
  shows "\<exists>r tp' argv tc'. transformations_fork (n + 2) True w1 tp = (r, tp', Some (Becomes argv tc')) \<and> tc' fd_in = Some (Writes_pipe n)
    \<and> \<not> pipe_ends n (ft_close fd_in tp' # tc' # ts)"
proof -
  have tp: "fd_in = answer w 2" "tp fd_in = Some (Writes_pipe n)"
    using fork_run [OF assms(1,2), of n True] later(1) assms(1) by (auto simp: wired_def forks_def fork_fds_def)
  have fd: "fd_in > 2" "fd_in \<notin> set (fork_fds w1)" using assms(1) tp later(2) by (auto simp: forks_def fork_fds_def)
  obtain tc' where "transformation_child True (ad_configs (px_admin w1)) (answer w1 1) (answer w1 2) (answer w1 4) (answer w1 5) (answer w1 6)
      (opened_fds (n + 2) errs w1 tp) = Becomes [str ''sh'', str ''-c'', c_string cmd] tc'" "tc' fd_in = tp fd_in"
    using child_table [OF later(2), where cs = "ad_configs (px_admin w1)" and cmd = cmd and n = "n + 2" and errs = errs] assms(3) later(3) fd by auto
  moreover obtain r where "transformations_fork (n + 2) True w1 tp = (r, wired (n + 2) errs w1 tp,
      Some (transformation_child True (ad_configs (px_admin w1)) (answer w1 1) (answer w1 2) (answer w1 4) (answer w1 5) (answer w1 6)
        (opened_fds (n + 2) errs w1 tp)))"
    using fork_run [OF later(2), where errs = errs and n = "n + 2" and execs = True] assms(2) later(3) by auto
  ultimately have "transformations_fork (n + 2) True w1 tp = (r, wired (n + 2) errs w1 tp, Some (Becomes [str ''sh'', str ''-c'', c_string cmd] tc'))"
    "tc' fd_in = Some (Writes_pipe n)" using tp(2) by simp_all
  moreover have "\<not> pipe_ends n (ft_close fd_in (wired (n + 2) errs w1 tp) # tc' # ts)" using calculation(2) by (auto simp: pipe_ends_def)
  ultimately show ?thesis by blast
qed

text \<open>
  When the shell cannot be started or there is no command, the child returns as the proxy does: two processes go on with the
  code of the caller, on the same sockets.
\<close>

lemma ft_others: "fd \<noteq> new \<Longrightarrow> ft_dup2 old new t fd = t fd" "fd \<noteq> new \<Longrightarrow> ft_close new t fd = t fd"
  by (simp_all add: ft_dup2_def ft_close_def split: option.split)

lemma opened_others: "fd \<notin> set (fork_fds w) \<Longrightarrow> opened_fds n errs w t fd = t fd"
  by (simp add: fork_fds_def opened_fds_def ft_open_def ft_pipe_def)

lemma transformation_returns_twice:
  assumes "forks w t" "config_get (str ''error_file'') (ad_configs (px_admin w)) = Some errs"
    "\<not> execs \<or> config_get (str ''cmd'') (ad_configs (px_admin w)) = None"
  shows "\<exists>r tp tc. transformations_fork n execs w t = ((0, r), tp, Some (Returns (- 1) tc)) \<and> (\<forall>fd > 2. fd \<notin> set (fork_fds w) \<longrightarrow> tc fd = t fd)"
proof -
  have "\<exists>tc. transformation_child execs (ad_configs (px_admin w)) (answer w 1) (answer w 2) (answer w 4) (answer w 5) (answer w 6)
      (opened_fds n errs w t) = Returns (- 1) tc \<and> (\<forall>fd > 2. fd \<notin> set (fork_fds w) \<longrightarrow> tc fd = t fd)"
  proof (cases "config_get (str ''cmd'') (ad_configs (px_admin w))")
    case None
    then show ?thesis by (auto simp: transformation_child_def ft_others opened_others fork_fds_def)
  next
    case (Some cmd)
    then show ?thesis using assms(3) by (auto simp: transformation_child_def ft_others opened_others fork_fds_def)
  qed
  then show ?thesis using fork_run [OF assms(1,2), of n execs] by auto
qed

text \<open>A program that starts two of them.\<close>

definition forking :: proxy where
  "forking = (demo_proxy 0 [] demo_client)\<lparr>px_os := (px_os (demo_proxy 0 [] demo_client))\<lparr>pf_results := (\<lambda>k. int k + 10)\<rparr>,
     px_admin := sample_admin\<lparr>ad_configs := [\<lparr>cf_name = strncpy 21 (str ''error_file''), cf_value = str ''err'' @ [0]\<rparr>,
       \<lparr>cf_name = strncpy 21 (str ''cmd''), cf_value = str ''cat'' @ [0]\<rparr>]\<rparr>\<rparr>"

lemma forking_configs:
  "config_get (str ''error_file'') (ad_configs (px_admin forking)) = Some (str ''err'' @ [0])"
  "config_get (str ''cmd'') (ad_configs (px_admin forking)) = Some (str ''cat'' @ [0])"
  by (simp_all add: forking_def config_get_def config_create_def strncpy_def MAX_NAME_def eval_nat_numeral)

lemma forking_forks: "forks forking Map.empty"
  by (simp add: forks_def fork_fds_def forking_def answer_def demo_proxy_def)

lemma later_forks: "forks (later forking 8) (wired n errs forking Map.empty)"
  by (simp add: forks_def fork_fds_def forking_def answer_def demo_proxy_def later_def wired_def)

theorem transformation_wired_witness:
  "\<exists>fd_in fd_out error_fd w' tp tc. transformations_new forking = (0, Some (fd_in, fd_out), w')
    \<and> transformations_fork 0 True forking Map.empty = ((0, Some (fd_in, fd_out), w'), tp,
        Some (Becomes [str ''sh'', str ''-c'', c_string (str ''cat'' @ [0])] tc))
    \<and> tp fd_in = Some (Writes_pipe 0) \<and> tc 0 = Some (Reads_pipe 0) \<and> tc 1 = Some (Writes_pipe (0 + 1)) \<and> tp fd_out = Some (Reads_pipe (0 + 1))
    \<and> tc 2 = Some (Appends (c_string (str ''err'' @ [0]))) \<and> pipe_ends 0 [ft_close fd_in tp, tc] \<and> pipe_ends (0 + 1) [tp]
    \<and> Map.empty error_fd = None \<and> tp error_fd = Some (Appends (c_string (str ''err'' @ [0])))"
  using transformation_wired [OF forking_forks forking_configs, of 0] by (simp only: no_pipe_def) simp

theorem transformation_inherits_witness:
  "\<exists>fd_in r tp' argv tc'. transformations_fork (0 + 2) True (later forking 8) (wired 0 (str ''err'' @ [0]) forking Map.empty) =
      (r, tp', Some (Becomes argv tc')) \<and> tc' fd_in = Some (Writes_pipe 0) \<and> \<not> pipe_ends 0 (ft_close fd_in tp' # tc' # [])"
proof -
  obtain w' c where "transformations_fork 0 True forking Map.empty =
      ((0, Some (answer forking 2, answer forking 4), w'), wired 0 (str ''err'' @ [0]) forking Map.empty, Some c)"
    using fork_run [OF forking_forks forking_configs(1), of 0 True] by blast
  from transformation_inherits [OF forking_forks forking_configs this later_forks, of "[]"] show ?thesis by auto
qed

text \<open>
  Without a configuration there is no transformation: \<open>tests/transformation_test.c\<close>, which makes one before any
  configuration exists, gets \<open>-1\<close> and ends with an error.
\<close>

lemma transformations_unconfigured:
  assumes "ad_configs (px_admin w) = []"
  shows "fst (transformations_new w) = - 1" "fst (snd (transformations_new w)) = None"
  using assms by (auto simp: transformations_new_def config_get_def Let_def split_beta)

end
