(* ===== verification/DummyParsers.thy ===== *)
theory DummyParsers
  imports Platform
begin

text \<open>
  The predecessors of the two parsers (\<open>response_parser/dummy_response_parser.c\<close>, \<open>request_parser/dummy_request_parser.c\<close>),
  which are in the tree but in no build file. A parser holds pointers to two buffers, which are fields of its record.
\<close>

section \<open>The response parser\<close>

record response_parser =
  rs_in :: buffer
  rs_out :: buffer

text \<open>\<open>mem\<close> says whether \<open>malloc\<close> gives memory.\<close>

definition response_parser_new :: "bool \<Rightarrow> buffer \<Rightarrow> buffer \<Rightarrow> response_parser option" where
  "response_parser_new mem in_buffer out_buffer = (if mem then Some \<lparr>rs_in = in_buffer, rs_out = out_buffer\<rparr> else None)"

text \<open>\<open>memcpy\<close> of \<open>n\<close> bytes between the two buffers, and both pointers moved.\<close>

definition dump_bytes :: "nat \<Rightarrow> buffer \<Rightarrow> buffer \<Rightarrow> (buffer \<times> buffer) option" where
  "dump_bytes n b_in b_out = do {
     (p, _) \<leftarrow> buffer_read_ptr b_in;
     (q, _) \<leftarrow> buffer_write_ptr b_out;
     xs \<leftarrow> load_block (data b_in) p n;
     d \<leftarrow> store_block (data b_out) q xs;
     b_in' \<leftarrow> buffer_read_adv b_in (int n);
     b_out' \<leftarrow> buffer_write_adv (b_out\<lparr>data := d\<rparr>) (int n);
     Some (b_in', b_out')
   }"

definition bytes_to_parse :: "buffer \<Rightarrow> buffer \<Rightarrow> nat option" where
  "bytes_to_parse b_in b_out = do {
     (_, in_buffer_available) \<leftarrow> buffer_read_ptr b_in;
     (_, out_buffer_space) \<leftarrow> buffer_write_ptr b_out;
     Some (if in_buffer_available < out_buffer_space then in_buffer_available else out_buffer_space)
   }"

definition response_parser_parse :: "response_parser \<Rightarrow> (int \<times> response_parser) option" where
  "response_parser_parse p = do {
     n \<leftarrow> bytes_to_parse (rs_in p) (rs_out p);
     (b_in, b_out) \<leftarrow> dump_bytes n (rs_in p) (rs_out p);
     Some (0, \<lparr>rs_in = b_in, rs_out = b_out\<rparr>)
   }"

lemma bytes_to_parse_eq:
  "buf_inv b_in \<Longrightarrow> buf_inv b_out \<Longrightarrow> bytes_to_parse b_in b_out = Some (min (length (pending b_in)) (room b_out))"
  by (auto simp: bytes_to_parse_def buffer_read_ptr_def buffer_write_ptr_def pending_length room_def dest: buf_invD)

lemma dump_bytes_eq:
  assumes "buf_inv b_in" "buf_inv b_out" "n \<le> length (pending b_in)" "n \<le> room b_out"
  shows "dump_bytes n b_in b_out = Some (skip n b_in, pushes b_out (take n (pending b_in)))"
proof -
  note i = buf_invD [OF assms(1)] and o = buf_invD [OF assms(2)]
  let ?xs = "take n (pending b_in)"
  have len: "length ?xs = n" using assms(3) by simp
  have xs: "load_block (data b_in) (rd b_in) n = Some ?xs"
    using assms(3) i pending_length [OF assms(1)] by (simp add: load_block_def pending_def min_def)
  have "store_block (data b_out) (wr b_out) ?xs = Some (take (wr b_out) (data b_out) @ ?xs @ drop (wr b_out + n) (data b_out))"
    using len assms(4) o by (simp add: store_block_def room_def)
  moreover have "buffer_write_adv (b_out\<lparr>data := take (wr b_out) (data b_out) @ ?xs @ drop (wr b_out + n) (data b_out)\<rparr>) (int n) = Some (pushes b_out ?xs)"
    using assms(4) o len pushes_closed [OF assms(2), of ?xs] by (simp add: buffer_write_adv_def room_def Let_def)
  ultimately show ?thesis using i o xs buffer_read_adv_eq [OF assms(1,3)]
    by (simp add: dump_bytes_def buffer_read_ptr_def buffer_write_ptr_def)
qed

text \<open>It forwards what there is and what fits, and nothing else.\<close>

lemma response_parser_forwards:
  assumes "buf_inv (rs_in p)" "buf_inv (rs_out p)"
  shows "\<exists>p'. response_parser_parse p = Some (0, p') \<and> buf_inv (rs_in p') \<and> buf_inv (rs_out p')
    \<and> pending (rs_out p') @ pending (rs_in p') = pending (rs_out p) @ pending (rs_in p)
    \<and> length (pending (rs_out p')) = length (pending (rs_out p)) + min (length (pending (rs_in p))) (room (rs_out p))"
proof -
  let ?n = "min (length (pending (rs_in p))) (room (rs_out p))"
  show ?thesis using assms dump_bytes_eq [OF assms, of ?n] bytes_to_parse_eq [OF assms]
    by (simp add: response_parser_parse_def pending_skip pending_pushes)
qed

section \<open>The request parser\<close>

datatype dummy_state = DP_METHOD | DP_TARGET | DP_VERSION | DP_HEADER | DP_HEADER_VALUE | DP_BODY | DP_SPAC_HVALUE

text \<open>
  The callback is there or not; its calls are recorded, with the host and the port. The arrays of the current header are
  blocks of memory or null pointers; \<open>dp_os\<close> gives the memory, and \<open>ready\<close> is the flag the configuration points to.
\<close>

record request_parser =
  dp_state :: dummy_state
  dp_in :: buffer
  dp_out :: buffer
  host_found_callback :: bool
  current_header_name :: "byte list option"
  current_header_value :: "byte list option"
  header_index :: nat
  ready :: bool
  dp_calls :: "(byte list \<times> int) list"
  dp_os :: platform

definition HEADER_NAME_PREALLOC :: nat where
  "HEADER_NAME_PREALLOC = 20"

definition request_parser_new :: "bool \<Rightarrow> buffer \<Rightarrow> buffer \<Rightarrow> bool \<Rightarrow> platform \<Rightarrow> request_parser option" where
  "request_parser_new mem in_buffer out_buffer callback os =
     (if mem then Some \<lparr>dp_state = DP_METHOD, dp_in = in_buffer, dp_out = out_buffer, host_found_callback = callback,
        current_header_name = None, current_header_value = None, header_index = 0, ready = False, dp_calls = [], dp_os = os\<rparr>
      else None)"

text \<open>The result of \<open>request_parser_destroy\<close>, and the blocks it frees besides the parser itself.\<close>

definition request_parser_destroy :: "request_parser \<Rightarrow> int \<times> byte list list" where
  "request_parser_destroy p =
     (0, (case current_header_value p of None \<Rightarrow> [] | Some b \<Rightarrow> [b]) @ (case current_header_name p of None \<Rightarrow> [] | Some b \<Rightarrow> [b]))"

text \<open>\<open>realloc\<close> keeps what fits of the old block and fills up with what the memory holds; the result is not tested.\<close>

definition dp_realloc :: "byte list option \<Rightarrow> nat \<Rightarrow> platform \<Rightarrow> byte list option \<times> platform" where
  "dp_realloc old n p =
     (map_option (\<lambda>junk. take n ((case old of None \<Rightarrow> [] | Some b \<Rightarrow> b) @ junk @ replicate n 0)) (pf_blocks p (pf_count p)), pf_next p)"

text \<open>A byte is put at \<open>header_index\<close> of the header's name or value; \<open>current\<close> enters the size.\<close>

definition grown :: "nat \<Rightarrow> nat \<Rightarrow> byte list option \<Rightarrow> platform \<Rightarrow> byte list option \<times> platform" where
  "grown current index block os =
     (if index mod HEADER_NAME_PREALLOC = 0 then dp_realloc block (HEADER_NAME_PREALLOC + current) os else (block, os))"

definition name_put :: "nat \<Rightarrow> byte \<Rightarrow> request_parser \<Rightarrow> request_parser option" where
  "name_put current c p =
     (case grown current (header_index p) (current_header_name p) (dp_os p) of
        (None, _) \<Rightarrow> None
      | (Some b, os) \<Rightarrow> do { b' \<leftarrow> store b (header_index p) c; Some (p\<lparr>current_header_name := Some b', dp_os := os\<rparr>) })"

definition value_put :: "nat \<Rightarrow> byte \<Rightarrow> request_parser \<Rightarrow> request_parser option" where
  "value_put current c p =
     (case grown current (header_index p) (current_header_value p) (dp_os p) of
        (None, _) \<Rightarrow> None
      | (Some b, os) \<Rightarrow> do { b' \<leftarrow> store b (header_index p) c; Some (p\<lparr>current_header_value := Some b', dp_os := os\<rparr>) })"

text \<open>A block read as a C string: there must be a NUL in it.\<close>

definition string_at :: "byte list option \<Rightarrow> byte list option" where
  "string_at b = (case b of None \<Rightarrow> None | Some b \<Rightarrow> if 0 \<in> set b then Some (c_string b) else None)"

text \<open>A line feed after a carriage return or line feed is taken with it.\<close>

definition line_end :: "nat \<Rightarrow> request_parser \<Rightarrow> nat option" where
  "line_end current p = do {
     c \<leftarrow> load (data (dp_in p)) (rd (dp_in p) + (current + 1));
     Some (if c = 10 then current + 2 else current + 1)
   }"

text \<open>The end of a header: its value is terminated, printed and, for \<open>Host\<close>, handed to the callback.\<close>

definition header_found :: "nat \<Rightarrow> request_parser \<Rightarrow> request_parser option" where
  "header_found current p = do {
     p1 \<leftarrow> value_put current 0 p;
     name \<leftarrow> string_at (current_header_name p1);
     val \<leftarrow> string_at (current_header_value p1);
     Some (p1\<lparr>header_index := 0,
       dp_calls := dp_calls p1 @ (if name = str ''Host'' \<and> host_found_callback p1 then [(val, 80)] else []),
       current_header_name := None, current_header_value := None, dp_state := DP_HEADER\<rparr>)
   }"

definition header_value :: "nat \<Rightarrow> request_parser \<Rightarrow> (nat \<times> request_parser) option" where
  "header_value current p = do {
     c \<leftarrow> load (data (dp_in p)) (rd (dp_in p) + current);
     if c = 10 \<or> c = 13 then do {
       i \<leftarrow> line_end current p;
       p' \<leftarrow> header_found i p;
       Some (i, p')
     }
     else do {
       p1 \<leftarrow> value_put current c p;
       Some (current + 1, p1\<lparr>header_index := header_index p1 + 1\<rparr>)
     }
   }"

text \<open>The loop: its state is whether the request is complete, \<open>current\<close> and the parser.\<close>

definition request_parser_body :: "nat \<Rightarrow> bool \<times> nat \<times> request_parser \<Rightarrow> (bool \<times> bool \<times> nat \<times> request_parser) option" where
  "request_parser_body n st = (case st of (_, current, p) \<Rightarrow>
     if \<not> current \<le> n then Some (True, False, current, p)
     else do {
       c \<leftarrow> load (data (dp_in p)) (rd (dp_in p) + current);
       case dp_state p of
         DP_METHOD \<Rightarrow>
           if isalpha c then Some (False, False, current + 1, p)
           else if c = 32 then Some (False, False, current + 1, p\<lparr>dp_state := DP_TARGET\<rparr>)
           else Some (False, False, current, p)
       | DP_TARGET \<Rightarrow> Some (False, False, current + 1, if c = 32 then p\<lparr>dp_state := DP_VERSION\<rparr> else p)
       | DP_VERSION \<Rightarrow>
           if c = 10 \<or> c = 13 then do { i \<leftarrow> line_end current p; Some (False, False, i, p\<lparr>dp_state := DP_HEADER\<rparr>) }
           else Some (False, False, current + 1, p)
       | DP_HEADER \<Rightarrow>
           if c = 10 then Some (True, True, current + 1, p\<lparr>ready := True\<rparr>)
           else if c = 58 then do {
             p1 \<leftarrow> name_put current 0 p;
             Some (False, False, current + 1, p1\<lparr>header_index := 0, dp_state := DP_SPAC_HVALUE\<rparr>)
           }
           else do {
             p1 \<leftarrow> name_put current c p;
             Some (False, False, current + 1, p1\<lparr>header_index := header_index p1 + 1\<rparr>)
           }
       | DP_SPAC_HVALUE \<Rightarrow> do {
           (i, p1) \<leftarrow> (if c \<noteq> 32 then header_value current (p\<lparr>dp_state := DP_HEADER_VALUE\<rparr>) else header_value (current + 1) p);
           Some (False, False, i, p1)
         }
       | DP_HEADER_VALUE \<Rightarrow> do { (i, p1) \<leftarrow> header_value current p; Some (False, False, i, p1) }
       | DP_BODY \<Rightarrow> Some (False, False, current, p)
     })"

text \<open>
  A complete request is copied to the output. After an incomplete one the output's free memory is copied onto itself, and the pointers
  are moved just the same.
\<close>

definition request_parser_parse :: "request_parser \<Rightarrow> (int \<times> request_parser) option" where
  "request_parser_parse p0 = do {
     n \<leftarrow> bytes_to_parse (dp_in p0) (dp_out p0);
     (complete, _, p) \<leftarrow> c_loop (request_parser_body n) (False, 0, p0);
     if complete then do {
       (b_in, b_out) \<leftarrow> dump_bytes n (dp_in p) (dp_out p);
       Some (0, p\<lparr>dp_in := b_in, dp_out := b_out\<rparr>)
     }
     else do {
       (q, _) \<leftarrow> buffer_write_ptr (dp_out p);
       xs \<leftarrow> load_block (data (dp_out p)) q n;
       d \<leftarrow> store_block (data (dp_out p)) q xs;
       b_in \<leftarrow> buffer_read_adv (dp_in p) (int n);
       b_out \<leftarrow> buffer_write_adv ((dp_out p)\<lparr>data := d\<rparr>) (int n);
       Some (0, p\<lparr>dp_in := b_in, dp_out := b_out\<rparr>)
     }
   }"

lemma c_steps_snoc: "c_steps body s t \<Longrightarrow> body t = Some (False, u) \<Longrightarrow> c_steps body s u"
  by (induction rule: c_steps.induct) (auto intro: c_steps.intros)

lemma method_letters:
  assumes "dp_state p = DP_METHOD" "i \<le> n" "rd (dp_in p) + i < length (data (dp_in p))" "\<forall>j < i. isalpha (data (dp_in p) ! (rd (dp_in p) + j))"
  shows "c_steps (request_parser_body n) (False, 0, p) (False, i, p)"
  using assms
proof (induction i)
  case (Suc i)
  then have "request_parser_body n (False, i, p) = Some (False, False, Suc i, p)" by (simp add: request_parser_body_def)
  with Suc show ?case by (auto intro: c_steps_snoc)
qed (simp add: c_steps_refl)

text \<open>
  The loop takes one byte more than there is, and in the method stays for ever at a byte that is neither a letter nor a space:
  a method that comes in two pieces stops the program when the memory after the first piece holds, say, a NUL.
\<close>

lemma request_parser_spins:
  assumes "buf_inv (dp_in p)" "buf_inv (dp_out p)" "dp_state p = DP_METHOD"
    and "i \<le> min (length (pending (dp_in p))) (room (dp_out p))" "rd (dp_in p) + i < length (data (dp_in p))"
    and "\<forall>j < i. isalpha (data (dp_in p) ! (rd (dp_in p) + j))"
    and "\<not> isalpha (data (dp_in p) ! (rd (dp_in p) + i))" "data (dp_in p) ! (rd (dp_in p) + i) \<noteq> 32"
  shows "request_parser_parse p = None"
proof -
  let ?n = "min (length (pending (dp_in p))) (room (dp_out p))"
  have "request_parser_body ?n (False, i, p) = Some (False, False, i, p)" using assms by (simp add: request_parser_body_def)
  then have "c_loop (request_parser_body ?n) (False, i, p) = None" by (rule c_loop_diverges)
  moreover have "c_loop (request_parser_body ?n) (False, 0, p) = c_loop (request_parser_body ?n) (False, i, p)"
    by (rule c_steps_loop [OF method_letters]) (use assms in auto)
  ultimately show ?thesis by (simp add: request_parser_parse_def bytes_to_parse_eq [OF assms(1,2)])
qed

lemma target_bytes:
  assumes "dp_state p = DP_TARGET" "i \<le> Suc n" "rd (dp_in p) + i \<le> length (data (dp_in p))" "\<forall>j < i. data (dp_in p) ! (rd (dp_in p) + j) \<noteq> 32"
  shows "c_steps (request_parser_body n) (False, 0, p) (False, i, p)"
  using assms
proof (induction i)
  case (Suc i)
  then have "request_parser_body n (False, i, p) = Some (False, False, Suc i, p)" by (simp add: request_parser_body_def)
  with Suc show ?case by (auto intro: c_steps_snoc)
qed (simp add: c_steps_refl)

text \<open>
  An incomplete request is lost: what is forwarded are not its bytes but those the output's free memory happens to hold.
\<close>

lemma request_parser_forwards_stale:
  assumes "buf_inv (dp_in p)" "buf_inv (dp_out p)" "dp_state p = DP_TARGET"
  defines "n \<equiv> min (length (pending (dp_in p))) (room (dp_out p))"
  assumes "rd (dp_in p) + n < length (data (dp_in p))" "\<forall>j \<le> n. data (dp_in p) ! (rd (dp_in p) + j) \<noteq> 32"
  shows "\<exists>p'. request_parser_parse p = Some (0, p') \<and> pending (dp_in p') = drop n (pending (dp_in p)) \<and> ready p' = ready p
    \<and> pending (dp_out p') = pending (dp_out p) @ take n (drop (wr (dp_out p)) (data (dp_out p)))"
proof -
  note i = buf_invD [OF assms(1)] and o = buf_invD [OF assms(2)]
  let ?xs = "take n (drop (wr (dp_out p)) (data (dp_out p)))"
  have n: "n \<le> length (pending (dp_in p))" "n \<le> room (dp_out p)" by (simp_all add: n_def)
  have len: "length ?xs = n" "wr (dp_out p) + n \<le> length (data (dp_out p))" using n(2) o by (simp_all add: room_def)
  have "c_loop (request_parser_body n) (False, 0, p) = c_loop (request_parser_body n) (False, Suc n, p)"
    by (rule c_steps_loop [OF target_bytes]) (use assms(3,5,6) in auto)
  also have "\<dots> = Some (False, Suc n, p)" by (rule c_loop_break) (simp add: request_parser_body_def)
  finally have l: "c_loop (request_parser_body n) (False, 0, p) = Some (False, Suc n, p)" .
  have same: "take (wr (dp_out p)) (data (dp_out p)) @ ?xs @ drop (wr (dp_out p) + n) (data (dp_out p)) = data (dp_out p)"
    using append_take_drop_id [of "wr (dp_out p)" "data (dp_out p)"] append_take_drop_id [of n "drop (wr (dp_out p)) (data (dp_out p))"]
    by (simp add: add.commute)
  have b: "pushes (dp_out p) ?xs = (dp_out p)\<lparr>wr := wr (dp_out p) + n\<rparr>"
    using pushes_closed [OF assms(2), of ?xs] len n(2) same by simp
  have "load_block (data (dp_out p)) (wr (dp_out p)) n = Some ?xs" "store_block (data (dp_out p)) (wr (dp_out p)) ?xs = Some (data (dp_out p))"
    using len same by (simp_all add: load_block_def store_block_def)
  moreover have "buffer_write_adv (dp_out p) (int n) = Some (pushes (dp_out p) ?xs)"
    using n(2) o b by (simp add: buffer_write_adv_def room_def Let_def)
  ultimately have "request_parser_parse p = Some (0, p\<lparr>dp_in := skip n (dp_in p), dp_out := pushes (dp_out p) ?xs\<rparr>)"
    using l i o buffer_read_adv_eq [OF assms(1) n(1)] bytes_to_parse_eq [OF assms(1,2)]
    by (simp add: request_parser_parse_def buffer_write_ptr_def n_def)
  then show ?thesis using assms(1,2) n len(1) by (simp add: pending_skip pending_pushes)
qed

text \<open>A request that comes in one piece, as the parser means it.\<close>

definition dummy_request :: "byte list" where
  "dummy_request = str ''GET / HTTP/1.1'' @ [13, 10] @ str ''Host: a.b'' @ [13, 10, 10]"

definition dummy_parser :: "byte list \<Rightarrow> request_parser" where
  "dummy_parser xs = the (request_parser_new True \<lparr>data = xs @ replicate 4 0, infLimit = 0, limit = length xs + 4, rd = 0, wr = length xs\<rparr>
     (buffer_init 40 (replicate 40 0)) True \<lparr>pf_reads = (\<lambda>_. None), pf_results = (\<lambda>_. 0), pf_blocks = (\<lambda>_. Some []), pf_count = 0, pf_trace = []\<rparr>)"

lemma dummy_request_parsed:
  "map_option (\<lambda>(r, p). (r, ready p, dp_calls p, pending (dp_out p), pending (dp_in p))) (request_parser_parse (dummy_parser dummy_request)) =
    Some (0, True, [(str ''a.b'', 80)], dummy_request, [])"
  by code_simp

end
