(* ===== verification/UtilsTests.thy ===== *)
theory UtilsTests
  imports MyParserUtils
begin

text \<open>
  The test programs \<open>tests/bufferTest.c\<close> and \<open>tests/myParserUtilsTest.c\<close>, run on the model: each test
  function is the list of its calls and assertions, a program runs its tests on one state, and it gives
  \<open>Some\<close> when every assertion holds. A state of the second program is its two buffers with the flag
  \<open>bEmpty\<close> of the test; \<open>CR\<close> and \<open>LF\<close> are written as numbers. The memory of the buffers, which the
  programs leave as the stack has it, is an argument.
\<close>

section \<open>Tests as lists of steps\<close>

text \<open>The steps of a test, and an \<open>assert\<close> on the state: \<open>None\<close> is a failed one.\<close>

primrec test_steps :: "('s \<Rightarrow> 's option) list \<Rightarrow> 's \<Rightarrow> 's option" where
  "test_steps [] s = Some s"
| "test_steps (t # ts) s = Option.bind (t s) (test_steps ts)"

definition asserts :: "('s \<Rightarrow> bool) \<Rightarrow> 's \<Rightarrow> 's option" where
  "asserts P s = (if P s then Some s else None)"

text \<open>Reads, each with the byte that the test expects.\<close>

primrec reads_as :: "byte list \<Rightarrow> buffer \<Rightarrow> buffer option" where
  "reads_as [] b = Some b"
| "reads_as (x # xs) b = do { (c, b') \<leftarrow> buffer_read b; if c = x then reads_as xs b' else None }"

definition crlf :: "byte list" where "crlf = [13, 10]"

section \<open>The buffer\<close>

type_synonym bf_test = "buffer \<Rightarrow> buffer option"

definition bf_write :: "byte list \<Rightarrow> bf_test" where "bf_write xs = writeToBuf xs"

definition bf_write_reverse :: "char \<Rightarrow> bf_test" where "bf_write_reverse c b = buffer_write_reverse b (of_char c)"

definition bf_read :: "byte list \<Rightarrow> bf_test" where "bf_read xs = reads_as xs"

definition bf_any :: bf_test where "bf_any b = map_option snd (buffer_read b)"

definition bf_peeks :: "byte \<Rightarrow> bf_test" where "bf_peeks c = asserts (\<lambda>b. buffer_peek b = Some c)"

definition bf_reset :: bf_test where "bf_reset b = Some (buffer_reset b)"

definition bf_assertReservedRead :: bf_test where
  "bf_assertReservedRead = test_steps [bf_write (str ''L''), bf_write_reverse (CHR ''O''), bf_write (str ''A''), bf_write_reverse (CHR ''H''),
  bf_write_reverse (CHR ''N''), asserts is_reserved, bf_read (str ''H''), asserts is_reserved, bf_read (str ''O''),
  asserts (\<lambda>b. \<not> is_reserved b), bf_read (str ''L''), asserts (\<lambda>b. \<not> is_reserved b), bf_read (str ''A'')]"

definition bf_assertCompactLimit :: bf_test where
  "bf_assertCompactLimit = test_steps [bf_write (str ''H''), bf_read (str ''H''), bf_write (str ''HO''), asserts buffer_can_write,
  bf_write (str ''L''), asserts buffer_can_write, bf_write (str ''A''), asserts (\<lambda>b. \<not> buffer_can_write b), bf_any, bf_any, bf_any,
  asserts (\<lambda>b. \<not> buffer_can_write b), bf_any, asserts buffer_can_write]"

definition bf_assertPeek :: bf_test where
  "bf_assertPeek = test_steps [bf_write (str ''H''), bf_peeks 72, bf_read (str ''H''), bf_read [0]]"

definition bf_assertPeek2 :: bf_test where
  "bf_assertPeek2 = test_steps [bf_write [0], bf_write (str ''H''), bf_peeks 0, bf_read [0], bf_peeks 72]"

definition bufferTest :: "byte list \<Rightarrow> buffer option" where
  "bufferTest mem = test_steps [bf_assertReservedRead, bf_reset, bf_assertCompactLimit, bf_reset, bf_assertPeek, bf_reset, bf_assertPeek2]
     (buffer_init_r 2 6 mem)"

section \<open>The utilities of the parsers\<close>

type_synonym pu_test = "buffer \<times> buffer \<times> bool \<Rightarrow> (buffer \<times> buffer \<times> bool) option"

definition on_b :: "bf_test \<Rightarrow> pu_test" where "on_b f = (\<lambda>(b, bOut, e). map_option (\<lambda>b'. (b', bOut, e)) (f b))"

definition on_out :: "bf_test \<Rightarrow> pu_test" where "on_out f = (\<lambda>(b, bOut, e). map_option (\<lambda>bOut'. (b, bOut', e)) (f bOut))"

definition pu_readAndWrite :: "byte \<Rightarrow> pu_test" where
  "pu_readAndWrite x = (\<lambda>(b, bOut, e). do { (c, b', bOut') \<leftarrow> readAndWrite b bOut; if c = x then Some (b', bOut', e) else None })"

definition pu_readAndWriteWithZero :: "byte \<Rightarrow> pu_test" where
  "pu_readAndWriteWithZero x = (\<lambda>(b, bOut, e). do { (c, b', bOut', e') \<leftarrow> readAndWriteWithZero b bOut e; if c = x then Some (b', bOut', e') else None })"

definition pu_reset :: pu_test where "pu_reset = (\<lambda>(b, bOut, e). Some (buffer_reset b, buffer_reset bOut, False))"
definition pu_assertReadAndWrite :: pu_test where
  "pu_assertReadAndWrite = test_steps [pu_readAndWrite 0, on_b (bf_write_reverse (CHR ''H'')), on_b (bf_write (str ''OL'')),
  pu_readAndWrite 72, on_out (bf_read [0]), pu_readAndWrite 79, on_out (bf_read (str ''O'')), pu_readAndWrite 76, on_out (bf_read (str ''L''))]"

definition pu_assertReadAndWriteWithZero :: pu_test where
  "pu_assertReadAndWriteWithZero = test_steps [pu_readAndWriteWithZero 0, on_b (\<lambda>b. buffer_write_reverse b 0), on_b (bf_write_reverse (CHR ''H'')),
  on_b (bf_write (str ''O'' @ [0] @ str ''L'')), pu_readAndWriteWithZero 72, pu_readAndWriteWithZero 0, pu_readAndWriteWithZero 79, on_out (bf_read (str ''O'')),
  pu_readAndWriteWithZero 0, on_out (bf_read [0]), pu_readAndWriteWithZero 76, on_out (bf_read (str ''L''))]"

definition pu_assertWriteToBuffer :: pu_test where
  "pu_assertWriteToBuffer = test_steps [on_out (bf_write (str ''Hola'')), on_out (bf_read (str ''Hola'' @ [0]))]"

definition pu_spaces :: pu_test where
  "pu_spaces = on_b (\<lambda>b. map_option snd (moveThroughSpaces b))"

definition pu_assertSpaces :: pu_test where
  "pu_assertSpaces = test_steps [on_b (bf_write (str '' a'')), pu_spaces, on_b (bf_read (str ''a'')),
  on_b (bf_write ([9] @ str '' 2'')), pu_spaces, on_b (bf_read (str ''2'')),
  on_b (bf_write (str '' '' @ [9] @ str '' b'')), pu_spaces, on_b (bf_read (str ''b''))]"

definition pu_assertWriteToBufferReverse :: pu_test where
  "pu_assertWriteToBufferReverse = test_steps [on_b (\<lambda>b. writeToBufReverse (str ''Hola'') b 4), on_b (bf_read (str ''Hola'' @ [0]))]"

definition pu_assertWriteToTransfBuf :: pu_test where
  "pu_assertWriteToTransfBuf = test_steps [on_b (bf_write (str ''Hola'')),
  (\<lambda>(b, bOut, e). do { (r, _, b', bOut') \<leftarrow> writeToTransfBuf b bOut 4; if r then Some (b', bOut', e) else None }), on_out (bf_read (str ''Hola'' @ [0]))]"

definition pu_assertWriteToTransfBufWithZero :: pu_test where
  "pu_assertWriteToTransfBufWithZero = test_steps [on_b (bf_write (str ''H'' @ [0] @ str ''la'')),
  (\<lambda>(b, bOut, e). do { (r, _, b', bOut', e') \<leftarrow> writeToTransfBufWithZero b bOut 4 e; if r then Some (b', bOut', e') else None }),
  on_out (bf_read (str ''H'' @ [0] @ str ''la'')), on_out (asserts (\<lambda>b. \<not> buffer_can_read b)), on_out (bf_read [0])]"

definition pu_matches :: "byte list \<Rightarrow> byte list \<Rightarrow> bool \<Rightarrow> pu_test" where
  "pu_matches format prefix r = (\<lambda>(b, bOut, e). do { (r', b', bOut', e') \<leftarrow> matchFormat format b bOut prefix e; if r' = r then Some (b', bOut', e') else None })"

primrec reads_upper :: "byte list \<Rightarrow> buffer \<Rightarrow> buffer option" where
  "reads_upper [] b = Some b"
| "reads_upper (x # xs) b = do { (c, b') \<leftarrow> buffer_read b; if toupper c = toupper x then reads_upper xs b' else None }"

definition pu_empty :: pu_test where
  "pu_empty = asserts (\<lambda>(b, bOut, e). e)"

definition pu_assertFormatNormal :: pu_test where
  "pu_assertFormatNormal = test_steps [on_b (bf_write (str ''HOlA'')), pu_matches (str ''Hola'') [] True, on_out (reads_upper (str ''Hola'')), on_out (bf_read [0])]"

definition pu_assertFormatMissing :: pu_test where
  "pu_assertFormatMissing = test_steps [on_b (bf_write (str ''HOl'')), pu_matches (str ''Hola'') [] False, pu_empty, on_b (bf_write (str ''a'')),
  pu_matches (str ''Hola'') [] True, on_out (reads_upper (str ''Hola'')), on_out (bf_read [0])]"

definition pu_assertFormatPrefix :: pu_test where
  "pu_assertFormatPrefix = test_steps [on_b (bf_write (str ''MUnd'')), pu_matches (str ''Mundo'') (str ''HolA '') False, pu_empty, on_b (bf_write (str ''O'')),
  pu_matches (str ''Hola Mundo'') [] True, on_out (reads_upper (str ''Mundo'')), on_out (bf_read [0])]"

definition pu_number :: "(buffer \<Rightarrow> buffer \<Rightarrow> byte list \<Rightarrow> bool \<Rightarrow> (bool \<times> int \<times> buffer \<times> buffer \<times> bool) option) \<Rightarrow> byte list \<Rightarrow> int option \<Rightarrow> pu_test" where
  "pu_number get prefix r = (\<lambda>(b, bOut, e). do { (r', n, b', bOut', e') \<leftarrow> get b bOut prefix e;
     if (if r' then Some n else None) = r then Some (b', bOut', e') else None })"

definition pu_assertNumber :: pu_test where
  "pu_assertNumber = test_steps [on_b (bf_write (str ''g'')), pu_number (getNumber 0) [] None, on_b (bf_read (str ''g'')),
  on_b (bf_write (str ''54a'')), pu_number (getNumber 0) [] (Some 54), on_b (bf_read (str ''a'')),
  on_b (bf_write (str ''51'')), pu_number (getNumber 0) (str ''1'') None, pu_empty, on_b (bf_write (str ''a'')), pu_number (getNumber 0) [] (Some 151)]"

definition pu_assertHexNumber :: pu_test where
  "pu_assertHexNumber = test_steps [on_b (bf_write (str ''g'')), pu_number (getHexNumber 0) [] None, on_b (bf_read (str ''g'')),
  on_b (bf_write (str ''1A '')), pu_number (getHexNumber 0) [] (Some 26), on_b bf_any,
  on_b (bf_write (str ''A'')), pu_number (getHexNumber 0) (str ''1'') None, pu_empty, on_b (bf_write (str '' '')), pu_number (getHexNumber 0) [] (Some 26), on_b bf_any, on_b bf_any,
  on_b (bf_write (str ''F '')), pu_number (getHexNumber 0) [] (Some 15)]"

definition pu_assertWriteHexToBufReverse :: pu_test where
  "pu_assertWriteHexToBufReverse = on_b (test_steps [bf_read [0], writeHexToBufReverse 5, bf_read (str ''5'' @ [0]),
  writeHexToBufReverse 15, bf_read (str ''F'' @ [0]), writeHexToBufReverse 31, bf_read (str ''1F'' @ [0])])"

definition myParserUtilsTest :: "byte list \<Rightarrow> byte list \<Rightarrow> (buffer \<times> buffer \<times> bool) option" where
  "myParserUtilsTest mem memOut = test_steps [pu_assertReadAndWrite, pu_reset, pu_assertReadAndWriteWithZero, pu_reset, pu_assertWriteToBuffer,
     pu_reset, pu_assertSpaces, pu_reset, pu_assertWriteToBufferReverse, pu_reset, pu_assertWriteToTransfBuf, pu_reset,
     pu_assertWriteToTransfBufWithZero, pu_reset, pu_assertFormatNormal, pu_reset, pu_assertFormatMissing, pu_reset, pu_assertFormatPrefix,
     pu_reset, pu_assertNumber, pu_reset, pu_assertHexNumber, pu_reset, pu_assertWriteHexToBufReverse]
     (buffer_init_r 10 100 mem, buffer_init 30 memOut, False)"

section \<open>The programs succeed\<close>

lemma bufferTest_passes: "bufferTest (replicate 6 0) \<noteq> None"
  by code_simp

lemma myParserUtilsTest_passes: "myParserUtilsTest (replicate 100 0) (replicate 30 0) \<noteq> None"
  by code_simp

end
