(* ===== verification/RequestTests.thy ===== *)
theory RequestTests
  imports RequestParser UtilsTests
begin

text \<open>
  The test program \<open>tests/requestParserTest.c\<close>, run on the model of the request parser: its tests call the
  static functions of the parser and \<open>checkRequestInner\<close> with a request in one piece and in several; the two that
  write it byte by byte are left out. The tests never set \<open>hostCallback\<close>, which \<open>checkRequestInner\<close> calls when
  it has found the host: the model shows what they assert of a run in which that call returns.
\<close>

section \<open>Steps\<close>

type_synonym rq_test = "rq_bufs \<Rightarrow> rq_bufs option"

definition rq_insert :: "byte list \<Rightarrow> rq_test" where
  "rq_insert xs s = (case s of (d, b, bOut) \<Rightarrow> map_option (\<lambda>b'. (d, b', bOut)) (writeToBuf xs b))"

definition rq_resetData :: rq_test where
  "rq_resetData s = (case s of (d, b, bOut) \<Rightarrow> Some
     (d\<lparr>rq_parserState := METHOD, rq_isBufferEmpty := False, rq_state := OK, rq_version := UNDEFINED, rq_method := UNDEFINED_M,
        rq_port := DEFAULT_PORT, rq_isLocalHost := False,
        rq_host := (let n = length (c_string (take HOST_MAX_SIZE (rq_host d))) in replicate n 0 @ drop n (rq_host d))\<rparr>,
      buffer_reset b, buffer_reset bOut))"

definition rq_insertToBuffer :: "byte list \<Rightarrow> rq_test" where
  "rq_insertToBuffer xs = test_steps [rq_resetData, rq_insert xs]"

definition rq_answers :: "(rq_bufs \<Rightarrow> (bool \<times> rq_bufs) option) \<Rightarrow> bool \<Rightarrow> rq_test" where
  "rq_answers f r s = do { (r', s') \<leftarrow> f s; if r' = r then Some s' else None }"

definition rq_returns :: "bool \<Rightarrow> rq_test" where
  "rq_returns r s = do { (r', d', b', bOut', _) \<leftarrow> checkRequestInner s; if r' = r then Some (d', b', bOut') else None }"

definition rq_has :: "(RequestData \<Rightarrow> bool) \<Rightarrow> rq_test" where
  "rq_has P = asserts (\<lambda>(d, _). P d)"

definition rq_host_is :: "string \<Rightarrow> RequestData \<Rightarrow> bool" where
  "rq_host_is h d \<longleftrightarrow> c_string (rq_host d) = str h"

definition rq_peeks :: "byte \<Rightarrow> rq_test" where
  "rq_peeks c = asserts (\<lambda>(_, b, _). map_option toupper (buffer_peek b) = Some c)"

section \<open>Tests\<close>

definition rq_assertCompleteMethod :: rq_test where
  "rq_assertCompleteMethod = test_steps [
  rq_insertToBuffer (str ''Get''), rq_answers extractHttpMethod True, rq_has (\<lambda>d. rq_method d = GET),
  rq_insertToBuffer (str ''HeaD''), rq_answers extractHttpMethod True, rq_has (\<lambda>d. rq_method d = HEAD),
  rq_insertToBuffer (str ''POST''), rq_answers extractHttpMethod True, rq_has (\<lambda>d. rq_method d = POST),
  rq_insertToBuffer (str ''PUT''), rq_answers extractHttpMethod False, rq_has (\<lambda>d. rq_method d = PUT)]"

definition rq_assertIncompleteMethod :: rq_test where
  "rq_assertIncompleteMethod = test_steps [
  rq_insertToBuffer (str ''HeA''), rq_answers extractHttpMethod False, rq_has (\<lambda>d. rq_method d = UNDEFINED_M \<and> rq_isBufferEmpty d),
  rq_insert (str ''d''), rq_answers extractHttpMethod True, rq_has (\<lambda>d. rq_method d = HEAD)]"

definition rq_assertCompleteUriHost :: rq_test where
  "rq_assertCompleteUriHost = test_steps [
  rq_insertToBuffer (str ''example.org/''), rq_answers checkUriForHost True, rq_has (rq_host_is ''example.org''),
  rq_insertToBuffer (str ''userinfo@example.org/''), rq_answers checkUriForHost True, rq_has (rq_host_is ''example.org''),
  rq_insertToBuffer (str ''userinfo@example.org:8080/''), rq_answers checkUriForHost True, rq_has (rq_host_is ''example.org''),
  rq_has (\<lambda>d. rq_port d = 8080)]"

definition rq_assertIncompleteUriHost :: rq_test where
  "rq_assertIncompleteUriHost = test_steps [
  rq_insertToBuffer (str ''example.o''), rq_answers checkUriForHost False, rq_has (\<lambda>d. \<not> rq_host_is ''example.org'' d),
  rq_insert (str ''rg/''), rq_has (\<lambda>d. rq_port d = 80),
  rq_insertToBuffer (str ''example.org:''), rq_answers checkUriForHost False, rq_insert (str ''9''), rq_answers checkUriForHost False,
  rq_has (\<lambda>d. rq_port d = 80), rq_insert (str '' ''), rq_answers checkUriForHost True, rq_has (\<lambda>d. rq_port d = 9)]"

definition rq_assertCompleteHost :: rq_test where
  "rq_assertCompleteHost = test_steps [
  rq_insertToBuffer (str ''example.org'' @ [13]), rq_answers extractHost True, rq_has (rq_host_is ''example.org''),
  rq_insertToBuffer (str ''example2.org:h8080'' @ [13]), rq_answers extractHost False,
  rq_insertToBuffer (str ''example2.org:8080'' @ [13]), rq_answers extractHost True, rq_has (rq_host_is ''example2.org''),
  rq_has (\<lambda>d. rq_port d = 8080)]"

definition rq_assertIncompleteHost :: rq_test where
  "rq_assertIncompleteHost = test_steps [
  rq_insertToBuffer (str ''example.o''), rq_answers extractHost False, rq_has (\<lambda>d. \<not> rq_host_is ''example.org'' d),
  rq_insert (str ''rg'' @ [13]), rq_has (\<lambda>d. rq_port d = 80),
  rq_insertToBuffer (str ''example.org:''), rq_answers extractHost False, rq_insert (str ''9''), rq_answers extractHost False,
  rq_has (\<lambda>d. rq_port d = 80), rq_insert (str '' ''), rq_answers extractHost True, rq_has (\<lambda>d. rq_port d = 9)]"

definition rq_assertVersion :: rq_test where
  "rq_assertVersion = test_steps [
  rq_insertToBuffer (str ''hTt''), rq_answers rq_extractHttpVersion False, rq_insert (str ''p/1.''), rq_answers rq_extractHttpVersion False,
  rq_insert (str ''1''), rq_has (\<lambda>d. rq_version d = UNDEFINED), rq_answers rq_extractHttpVersion True, rq_has (\<lambda>d. rq_version d = V_1_1)]"

definition rq_assertUri :: rq_test where
  "rq_assertUri = test_steps [
  rq_insertToBuffer (str ''ht''), rq_answers checkUri False, rq_peeks 72, rq_insert (str ''tp''), rq_answers checkUri False, rq_peeks 72,
  rq_insert (str ''://''), rq_answers checkUri False, rq_peeks 0,
  rq_insert (str ''http://userinfo@example.org/''), rq_answers checkUri True, rq_has (rq_host_is ''example.org''),
  rq_insertToBuffer (str ''http://userinfo@example.org:8080/''), rq_answers checkUri True, rq_has (rq_host_is ''example.org''),
  rq_has (\<lambda>d. rq_port d = 8080)]"

definition rq_assertLocalHost :: rq_test where
  "rq_assertLocalHost = test_steps [
  rq_insertToBuffer (str ''Test:'' @ crlf), rq_answers checkLocalHost False, rq_has (\<lambda>d. \<not> rq_isLocalHost d),
  rq_insertToBuffer (str ''X-LOCaL''), rq_answers checkLocalHost False, rq_has (\<lambda>d. \<not> rq_isLocalHost d),
  rq_insert (str ''HOST:'' @ crlf), rq_answers checkLocalHost True, rq_has rq_isLocalHost]"

definition rq_assertHostHeader :: rq_test where
  "rq_assertHostHeader = test_steps [
  rq_insertToBuffer (str ''gdgd'' @ crlf @ [13]), rq_answers checkHostHeader False, rq_has rq_isBufferEmpty,
  rq_insert [10], rq_peeks 13, rq_answers checkHostHeader False, rq_peeks 0,
  rq_insertToBuffer (str ''Hos''), rq_answers checkHostHeader False, rq_peeks 72, rq_insert (str ''t:''), rq_answers checkHostHeader True, rq_peeks 0]"

definition rq_assertCompleteRequest :: rq_test where
  "rq_assertCompleteRequest = test_steps [
  rq_insertToBuffer (str ''gEt /foo HTtP/1.1'' @ crlf @ str ''Host: example.org:8080'' @ crlf), rq_returns True,
  rq_has (\<lambda>d. rq_method d = GET \<and> rq_version d = V_1_1 \<and> rq_host_is ''example.org'' d \<and> rq_port d = 8080)]"

definition rq_assertIncompleteRequestWithHost :: rq_test where
  "rq_assertIncompleteRequestWithHost = test_steps [
  rq_insertToBuffer (str ''gE''), rq_has (\<lambda>d. rq_parserState d = METHOD), rq_returns False,
  rq_insert (str ''t''), rq_returns False, rq_has (\<lambda>d. rq_method d = GET \<and> rq_parserState d = SPACE_TRANSITION \<and> rq_next d = URI),
  rq_insert (str '' /fo''), rq_returns False, rq_has (\<lambda>d. rq_parserState d = RELATIVE_URI),
  rq_insert (str ''o HTtP/1.''), rq_returns False, rq_has (\<lambda>d. rq_parserState d = VERSION),
  rq_insert (str ''1''), rq_returns False, rq_has (\<lambda>d. rq_version d = V_1_1 \<and> rq_parserState d = START_LINE_END),
  rq_insert [13], rq_returns False, rq_has (\<lambda>d. rq_parserState d = START_LINE_END),
  rq_insert [10], rq_returns False, rq_has (\<lambda>d. rq_parserState d = LOCALHOST_HEADER_CHECK),
  rq_insert (str ''Host''), rq_returns False, rq_has (\<lambda>d. rq_parserState d = HEADERS),
  rq_insert (str '':''), rq_returns False, rq_has (\<lambda>d. rq_parserState d = SPACE_TRANSITION \<and> rq_next d = HOST),
  rq_insert (str '' example.org''), rq_returns False, rq_insert (str '':8080'' @ [13]), rq_returns True,
  rq_has (\<lambda>d. rq_parserState d = FINISHED \<and> rq_host_is ''example.org'' d \<and> rq_port d = 8080)]"

definition rq_assertIncompleteRequestWithUriHost :: rq_test where
  "rq_assertIncompleteRequestWithUriHost = test_steps [
  rq_insertToBuffer (str ''gEt http:/''), rq_returns False, rq_has (\<lambda>d. rq_parserState d = URI),
  rq_insert (str ''/user''), rq_returns False, rq_has (\<lambda>d. rq_parserState d = URI_HOST),
  rq_insert (str ''info@example.org:8080/''), rq_returns True,
  rq_has (\<lambda>d. rq_parserState d = FINISHED \<and> rq_host_is ''example.org'' d \<and> rq_port d = 8080)]"

section \<open>The tests succeed\<close>

text \<open>
  Each test begins with a reset, so each is run from the state the program starts with, on memory of zero bytes.
\<close>

text \<open>The struct as \<open>malloc\<close> may leave it.\<close>

definition rq_junk :: RequestData where
  "rq_junk = \<lparr>rq_parserState = FINISHED, rq_next = FINISHED, rq_isBufferEmpty = True, rq_state = HOST_ERROR, rq_version = V_1_0,
     rq_method = TRACE, rq_host = str ''junk'' @ replicate 251 0, rq_port = 7, rq_isLocalHost = True\<rparr>"

definition rq_start :: rq_bufs where
  "rq_start = (rq_junk, buffer_init_r 20 100 (replicate 100 0), buffer_init 100 (replicate 100 0))"

lemma rq_assertCompleteMethod_passes: "rq_assertCompleteMethod rq_start \<noteq> None"
  by code_simp

lemma rq_assertIncompleteMethod_passes: "rq_assertIncompleteMethod rq_start \<noteq> None"
  by code_simp

lemma rq_assertCompleteUriHost_passes: "rq_assertCompleteUriHost rq_start \<noteq> None"
  by code_simp

lemma rq_assertIncompleteUriHost_passes: "rq_assertIncompleteUriHost rq_start \<noteq> None"
  by code_simp

lemma rq_assertCompleteHost_passes: "rq_assertCompleteHost rq_start \<noteq> None"
  by code_simp

lemma rq_assertIncompleteHost_passes: "rq_assertIncompleteHost rq_start \<noteq> None"
  by code_simp

lemma rq_assertVersion_passes: "rq_assertVersion rq_start \<noteq> None"
  by code_simp

lemma rq_assertUri_passes: "rq_assertUri rq_start \<noteq> None"
  by code_simp

lemma rq_assertLocalHost_passes: "rq_assertLocalHost rq_start \<noteq> None"
  by code_simp

lemma rq_assertHostHeader_passes: "rq_assertHostHeader rq_start \<noteq> None"
  by code_simp

lemma rq_assertCompleteRequest_passes: "rq_assertCompleteRequest rq_start \<noteq> None"
  by code_simp

lemma rq_assertIncompleteRequestWithHost_passes: "rq_assertIncompleteRequestWithHost rq_start \<noteq> None"
  by code_simp

lemma rq_assertIncompleteRequestWithUriHost_passes: "rq_assertIncompleteRequestWithUriHost rq_start \<noteq> None"
  by code_simp

end
