(* ===== verification/ResponseTests.thy ===== *)
theory ResponseTests
  imports ResponseParser UtilsTests
begin

text \<open>
  The test program \<open>tests/responseParserTest.c\<close>, run on the model of the response parser: responses with a length
  and in chunks, with and without a transformation, with zero bytes in the body, in one piece and in several; the five
  tests that write a response byte by byte are left out.
\<close>

section \<open>Steps\<close>

type_synonym rs_test = "rs_all \<Rightarrow> rs_all option"

definition rs_insert :: "byte list \<Rightarrow> rs_all \<Rightarrow> rs_all option" where
  "rs_insert xs s = (case s of (d, b, bOut, bTransf) \<Rightarrow>
     map_option (\<lambda>b'. (d, b', bOut, bTransf)) (writeToBuf xs b))"

definition rs_resetData :: "rs_all \<Rightarrow> rs_all option" where
  "rs_resetData s = (case s of (d, b, bOut, bTransf) \<Rightarrow> Some
     (d\<lparr>rs_parserState := RES_VERSION, rs_isBufferEmpty := False, rs_state := RES_OK, rs_version := UNDEFINED,
        rs_status := 0, rs_bodyLength := NO_BODY_LENGTH, rs_cEncoding := IDENTITY, rs_isClose := False,
        rs_isChunked := False, rs_withTransf := False\<rparr>, buffer_reset b, buffer_reset bOut, bTransf))"

definition rs_returns :: "bool \<Rightarrow> rs_all \<Rightarrow> rs_all option" where
  "rs_returns r s = do { (r', s') \<leftarrow> checkResponseInner s; if r' = r then Some s' else None }"

definition rs_answers :: "(rs_bufs \<Rightarrow> (bool \<times> rs_bufs) option) \<Rightarrow> bool \<Rightarrow> rs_all \<Rightarrow> rs_all option" where
  "rs_answers f r s = (case s of (d, b, bOut, bTransf) \<Rightarrow>
     do { (r', d', b', bOut') \<leftarrow> f (d, b, bOut); if r' = r then Some (d', b', bOut', bTransf) else None })"

definition rs_has :: "(ResponseData \<Rightarrow> bool) \<Rightarrow> rs_all \<Rightarrow> rs_all option" where
  "rs_has P = asserts (\<lambda>(d, _). P d)"

definition rs_set :: "(ResponseData \<Rightarrow> ResponseData) \<Rightarrow> rs_all \<Rightarrow> rs_all option" where
  "rs_set f = (\<lambda>(d, s). Some (f d, s))"

definition rs_output :: "byte list \<Rightarrow> rs_all \<Rightarrow> rs_all option" where
  "rs_output xs s = (case s of (d, b, bOut, bTransf) \<Rightarrow> map_option (\<lambda>bOut'. (d, b, bOut', bTransf)) (reads_as xs bOut))"

definition rs_transf_output :: "byte list \<Rightarrow> rs_all \<Rightarrow> rs_all option" where
  "rs_transf_output xs s = (case s of (d, b, bOut, bTransf) \<Rightarrow> map_option (\<lambda>bTransf'. (d, b, bOut, bTransf')) (reads_as xs bTransf))"

section \<open>Tests\<close>

definition rs_assertVersion :: rs_test where
  "rs_assertVersion = test_steps [rs_resetData, rs_insert (str ''hTt''), rs_answers rs_extractHttpVersion False,
     rs_insert (str ''p/1.''), rs_answers rs_extractHttpVersion False, rs_insert (str ''1''),
     rs_has (\<lambda>d. rs_version d = UNDEFINED), rs_answers rs_extractHttpVersion True, rs_has (\<lambda>d. rs_version d = V_1_1),
     rs_resetData, rs_insert (str ''hTtp/1.2''), rs_answers rs_extractHttpVersion False, rs_has (\<lambda>d. rs_version d = UNDEFINED)]"

definition rs_assertStatus :: rs_test where
  "rs_assertStatus = test_steps [rs_resetData, rs_insert (str ''d200''), rs_answers extractStatus False,
     (\<lambda>(d, b, r). map_option (\<lambda>(_, b'). (d, b', r)) (buffer_read b)),
     rs_answers extractStatus False, rs_insert (str '' ''), rs_answers extractStatus True, rs_has (\<lambda>d. rs_status d = 200)]"

definition ok_head :: "byte list" where "ok_head = str ''HTTP/1.1 200 OK'' @ crlf"

definition rs_assertCompleteResponseWithLength :: rs_test where
  "rs_assertCompleteResponseWithLength = test_steps [rs_resetData,
   rs_insert (ok_head @ str ''conTeNt-lengTh:3'' @ crlf @ crlf @ str ''Wikipedia''),
   rs_returns True, rs_has (\<lambda>d. rs_parserState d = RES_FINISHED \<and> rs_version d = V_1_1 \<and> rs_status d = 200 \<and> rs_bodyLength d = 0),
   rs_transf_output [0],
   rs_output (ok_head @ str ''conTeNt-lengTh: 3'' @ crlf @ str ''Connection: close'' @ crlf @ crlf @ str ''Wik'' @ [0])]"

definition rs_assertConnection :: rs_test where
  "rs_assertConnection = test_steps [rs_resetData,
   rs_insert (ok_head @ str ''Connection: keep-alive'' @ crlf @ str ''conTeNt-lengTh:3'' @ crlf @ crlf @ str ''Wik''),
   rs_returns True, rs_has (\<lambda>d. rs_parserState d = RES_FINISHED),
   rs_output (ok_head @ str ''Connection: close'' @ crlf @ str ''conTeNt-lengTh: 3'' @ crlf @ crlf @ str ''Wik'' @ [0])]"

definition rs_assertCompleteResponseWithLengthAndTransf :: rs_test where
  "rs_assertCompleteResponseWithLengthAndTransf = test_steps [rs_resetData,
   rs_insert (ok_head @ str ''conTeNt-lengTh:3'' @ crlf @ crlf @ str ''Wikipedia''), rs_set (\<lambda>d. d\<lparr>rs_withTransf := True\<rparr>),
   rs_returns True, rs_has (\<lambda>d. rs_version d = V_1_1 \<and> rs_status d = 200 \<and> rs_bodyLength d = 0),
   rs_transf_output (str ''Wik'' @ [0])]"

definition chunks_11 :: "byte list" where
  "chunks_11 = str ''11'' @ crlf @ str ''0123456789 Wikipe'' @ crlf @ str ''3'' @ crlf @ str ''dia'' @ crlf @ str ''0'' @ crlf @ crlf"

definition rs_assertCompleteResponseWithChunk :: rs_test where
  "rs_assertCompleteResponseWithChunk = test_steps [rs_resetData,
   rs_insert (ok_head @ str ''transfer-encoDing:chunkEd'' @ crlf @ crlf @ chunks_11),
   rs_returns True, rs_has (\<lambda>d. rs_parserState d = RES_FINISHED \<and> rs_version d = V_1_1 \<and> rs_status d = 200 \<and> rs_isChunked d),
   rs_transf_output [0],
   rs_output (ok_head @ str ''transfer-encoDing: chunkEd'' @ crlf @ str ''Connection: close'' @ crlf @ crlf @ chunks_11 @ [0])]"

definition zero_chunks :: "byte list" where
  "zero_chunks = str ''11'' @ crlf @ str ''01'' @ [0] @ str ''l4'' @ [0] @ str ''k789 Wikipe'' @ crlf @ str ''3'' @ crlf @ str ''dia'' @ crlf @ str ''0'' @ crlf @ crlf"

definition rs_assertCompleteResponseWithChunkAndZeros :: rs_test where
  "rs_assertCompleteResponseWithChunkAndZeros = test_steps [rs_resetData,
   rs_insert (ok_head @ str ''transfer-encoDing:chunkEd'' @ crlf @ crlf @ zero_chunks),
   rs_returns True, rs_has (\<lambda>d. rs_parserState d = RES_FINISHED \<and> rs_version d = V_1_1 \<and> rs_status d = 200 \<and> rs_isChunked d),
   rs_transf_output [0],
   rs_output (ok_head @ str ''transfer-encoDing: chunkEd'' @ crlf @ str ''Connection: close'' @ crlf @ crlf @ zero_chunks),
   asserts (\<lambda>(_, _, bOut, _). \<not> buffer_can_read bOut)]"

definition rs_assertCompleteResponseWithChunkAndTransf :: rs_test where
  "rs_assertCompleteResponseWithChunkAndTransf = test_steps [rs_resetData,
   rs_insert (ok_head @ str ''transfer-encoDing:chunkEd'' @ crlf @ crlf @ str ''4'' @ crlf @ str ''Wiki'' @ crlf @ str ''5'' @ crlf @ str ''pedia'' @ crlf @ str ''0'' @ crlf @ crlf),
   rs_set (\<lambda>d. d\<lparr>rs_withTransf := True\<rparr>),
   rs_returns True, rs_has (\<lambda>d. rs_version d = V_1_1 \<and> rs_status d = 200 \<and> rs_isChunked d),
   rs_transf_output (str ''Wikipedia'' @ [0])]"

definition rs_assertIncompleteResponseWithChunk :: rs_test where
  "rs_assertIncompleteResponseWithChunk = test_steps [rs_resetData, rs_insert (str ''HTTP/1.''),
   rs_has (\<lambda>d. rs_parserState d = RES_VERSION), rs_returns False, rs_insert (str ''1 20''), rs_returns False,
   rs_has (\<lambda>d. rs_version d = V_1_1 \<and> rs_parserState d = STATUS), rs_insert (str ''0 OK'' @ crlf @ str ''transfer-enc''),
   rs_returns False, rs_has (\<lambda>d. rs_status d = 200 \<and> rs_parserState d = RES_HEADERS), rs_insert (str ''oDing:c''),
   rs_returns False, rs_has (\<lambda>d. rs_parserState d = CHUNKED_CHECK), rs_insert (str ''hunkEd'' @ crlf @ crlf),
   rs_returns False, rs_has (\<lambda>d. rs_isChunked d \<and> rs_parserState d = BODY_NORMAL), rs_insert (str ''4'' @ crlf @ str ''Wi''),
   rs_returns False, rs_insert (str ''ki'' @ crlf @ str ''5'' @ crlf @ str ''pedia'' @ crlf @ str ''0'' @ crlf @ crlf),
   rs_returns True, rs_has (\<lambda>d. rs_parserState d = RES_FINISHED)]"

definition rs_assertIncompleteResponseWithChunkAndTransf :: rs_test where
  "rs_assertIncompleteResponseWithChunkAndTransf = test_steps [rs_resetData,
   rs_insert (ok_head @ str ''transfer-encoDing:chunkEd'' @ crlf @ crlf), rs_set (\<lambda>d. d\<lparr>rs_withTransf := True\<rparr>),
   rs_returns False, rs_has (\<lambda>d. rs_isChunked d \<and> rs_parserState d = BODY_TRANSFORMATION), rs_insert (str ''4'' @ crlf @ str ''Wi''),
   rs_returns False, rs_insert (str ''ki'' @ crlf @ str ''5'' @ crlf @ str ''pedia'' @ [13]), rs_returns False,
   rs_insert ([10] @ str ''0'' @ crlf @ [13]), rs_returns False, rs_insert [10], rs_returns True,
   rs_has (\<lambda>d. rs_parserState d = RES_FINISHED), rs_transf_output (str ''Wikipedia'' @ [0])]"

section \<open>The tests succeed\<close>

text \<open>
  Each test begins with a reset, so each is run from the state the program starts with, on memory of zero bytes.
\<close>

text \<open>The struct as \<open>malloc\<close> may leave it.\<close>

definition rs_junk :: ResponseData where
  "rs_junk = \<lparr>rs_parserState = RES_FINISHED, rs_next = RES_FINISHED, rs_isBufferEmpty = True, rs_state = CHUNKS_ERROR, rs_version = V_1_0,
     rs_status = 7, rs_isClose = True, rs_bodyLength = 7, rs_cEncoding = GZIP, rs_isChunked = True, rs_withTransf = True\<rparr>"

definition rs_start :: rs_all where
  "rs_start = (rs_junk, buffer_init_r 20 200 (replicate 200 0), buffer_init 200 (replicate 200 0), buffer_init 200 (replicate 200 0))"

lemma rs_assertVersion_passes: "rs_assertVersion rs_start \<noteq> None"
  by code_simp

lemma rs_assertStatus_passes: "rs_assertStatus rs_start \<noteq> None"
  by code_simp

lemma rs_assertCompleteResponseWithLength_passes: "rs_assertCompleteResponseWithLength rs_start \<noteq> None"
  by code_simp

lemma rs_assertConnection_passes: "rs_assertConnection rs_start \<noteq> None"
  by code_simp

lemma rs_assertCompleteResponseWithLengthAndTransf_passes: "rs_assertCompleteResponseWithLengthAndTransf rs_start \<noteq> None"
  by code_simp

lemma rs_assertCompleteResponseWithChunk_passes: "rs_assertCompleteResponseWithChunk rs_start \<noteq> None"
  by code_simp

lemma rs_assertCompleteResponseWithChunkAndZeros_passes: "rs_assertCompleteResponseWithChunkAndZeros rs_start \<noteq> None"
  by code_simp

lemma rs_assertCompleteResponseWithChunkAndTransf_passes: "rs_assertCompleteResponseWithChunkAndTransf rs_start \<noteq> None"
  by code_simp

lemma rs_assertIncompleteResponseWithChunk_passes: "rs_assertIncompleteResponseWithChunk rs_start \<noteq> None"
  by code_simp

lemma rs_assertIncompleteResponseWithChunkAndTransf_passes: "rs_assertIncompleteResponseWithChunkAndTransf rs_start \<noteq> None"
  by code_simp

end
