(* ===== verification/Spec2Isabelle.thy ===== *)
theory Spec2Isabelle
  imports RequestProperties ResponseProperties AdminMain Messages ClientFaults ResponseLoop Transformations DummyParsers RequestTests ResponseTests
begin

text \<open>
  A verification development for the HTTP proxy under \<open>src/proxy_http\<close> and the client that administrates it
  under \<open>src/admin_client\<close>.

  \<^bold>\<open>The program.\<close> A single thread runs a loop over \<open>pselect\<close>. The selector keeps, for each descriptor, an interest, a
  struct of handlers and a void pointer, and calls the handlers of the descriptors that are ready. An accepted
  connection becomes a client: what it sends is read into one buffer, goes through the request parser into a
  second one, and the parser calls back with the host it finds. A thread resolves the host and notifies the
  selector, whose loop then calls the client's block handler, which connects to the origin. The second buffer is
  written to the origin; what the origin answers goes through the response parser into the buffer that is
  written to the client, or, for a transformation, through an external program that is fed and read over pipes and
  whose output is wrapped in chunks. Lines for the log go through a buffer and a pipe to a thread that calls
  \<open>syslog\<close>. The administration speaks a binary protocol of messages: the proxy answers requests for metrics and
  configurations through a queue of messages; its client turns typed lines into requests and shows the answers.

  \<^bold>\<open>Conventions.\<close> A value of type \<open>option\<close> is the outcome of an operation: \<open>None\<close> says that it does not come back, because
  an assertion fails, memory outside an object is used, a null pointer or freed memory is followed, \<open>exit\<close> is
  called, or a loop does not end; \<open>Some\<close> has the result and the new state. Memory is a list of bytes, read and
  written by \<open>load\<close> and \<open>store\<close>, which fail outside it. Bytes are 8-bit words; an \<open>int\<close> is an integer wrapped by \<open>c_int\<close>
  after each operation that can overflow; sizes and indices are naturals. A C string is the list of its
  characters, with the NUL written where the array matters. A loop that need not end is \<open>c_loop\<close> of its body, a
  partial function, so that termination is a theorem and not a convention; loops over a given list or bound are
  recursive functions. Null pointers are \<open>None\<close>. What the program does not control is an argument or part of the
  state: the answers of \<open>malloc\<close>, \<open>read\<close>, \<open>write\<close>, \<open>pselect\<close> and of every other call of the system, the contents of fresh
  memory, the addresses \<open>getaddrinfo\<close> stores. Of these it is assumed only that \<open>read\<close> and \<open>write\<close> do not move more than
  they were asked to, and that a block has the size that was asked for; theorems that need more, such as writes
  that take at least a byte, say so. What goes to the standard output of the proxy is left out.

  \<^bold>\<open>Theories and sources\<close>, in the order of their use:
  \<^item> \<open>Prelude\<close>: C strings, character classes, \<open>int\<close>, checked memory, \<open>c_loop\<close> and the rules for it; the collections of
    rewrite rules that the proofs share are declared with what they are about.
  \<^item> \<open>Buffer\<close> (\<open>buffer/buffer.c\<close>): the byte buffer with its reserved zone. A C buffer is the record \<open>buffer\<close> with indices
    for its pointers. \<open>buf_inv\<close> is its invariant, \<open>pending\<close>, \<open>room\<close> and \<open>resv\<close> are its abstract view: the bytes to be
    read, the free space, and how many of the pending bytes lie in the reserved zone. \<open>buf_eqs\<close> turns operations into
    total functions on buffers, \<open>buf_view\<close> gives the view of their results.
  \<^item> \<open>MyParserUtils\<close> (\<open>myParserUtils/myParserUtils.c\<close>): the routines of both parsers; \<open>StreamView\<close> describes each by what it
    takes from the input's pending bytes and adds to the output; \<open>Resume\<close> shows that matching a text and reading a number
    may be cut anywhere, and that numbers that are pushed back are read again.
  \<^item> \<open>RequestParser\<close> (\<open>request_parser/requestParser.c\<close>), \<open>RequestFacts\<close> (its invariant, safety, and when it returns),
    \<open>RequestProperties\<close>. The callback for the host is the list of its calls.
  \<^item> \<open>ResponseParser\<close> (\<open>response_parser/responseParser.c\<close>), \<open>ResponseFacts\<close> (invariant, termination), \<open>ResponseProperties\<close>,
    \<open>ResponseHead\<close> (start line and headers).
  \<^item> \<open>Chunks\<close> (\<open>client/chunks.c\<close>): a transformation's output in chunks; what it makes is what the response parser takes.
  \<^item> \<open>Serializer\<close> (\<open>serializer/serializer.c\<close>, \<open>include/protocol/protocol.h\<close> of both programs): the messages on the wire;
    \<open>MsgQueue\<close> (\<open>msg_queue/msg_queue.c\<close>): the linked queue over a store of nodes, and a locale for queues of which it is
    an instance; \<open>Config\<close> (\<open>config/config.c\<close>): the table of configurations and the reader of the file;
    \<open>Metric\<close> (\<open>metric/metric.c\<close>): the metrics. A \<open>double\<close> is a rational, rounded to 53 bits after each operation; overflow to
    infinity is not reached by counters.
  \<^item> \<open>AdminActions\<close> (\<open>admin_actions/admin_actions.c\<close>, \<open>admin_handlers/admin_handlers.c\<close>), \<open>AdminFacts\<close>, \<open>AdminProperties\<close>: the
    answers of the proxy to the administrator, against a specification of what each request is to be answered with.
  \<^item> \<open>AdminClient\<close> (\<open>messages/messages.c\<close>, \<open>actions/actions.c\<close>, \<open>main.c\<close> of \<open>admin_client\<close>), \<open>Management\<close>,
    \<open>AdminMain\<close>: the client of the administration, both programs together, and the client's \<open>main\<close> as a whole.
  \<^item> \<open>Messages\<close> (\<open>messages/messages.c\<close> of the proxy): linked into the program, whose handlers send and receive themselves.
  \<^item> \<open>Selector\<close> (\<open>selector/selector.c\<close>, \<open>selector.h\<close>): the multiplexer, for any type of handlers and data and any state \<open>'w\<close> of
    the rest of the program; callbacks get the selector and may call it again. An \<open>fd_set\<close> is a set. A pointer to an
    item that is kept over calls is good as long as the table has not moved, which the number \<open>block\<close> records.
    \<open>SelectorFacts\<close> has the invariant \<open>sel_wf\<close> and the view \<open>registered\<close>, a map from descriptors to what was registered;
    \<open>SelectorProperties\<close> the effect of each operation on this map, the locale \<open>fd_table\<close> with its interpretation, and the
    invariants \<open>typed T\<close> that every operation keeps if the callbacks do.
  \<^item> \<open>Platform\<close>: the calls of the system. The \<open>k\<close>-th call of a run is answered by the \<open>k\<close>-th entry of streams of
    answers; what is written and closed is recorded in a trace, and \<open>written_to\<close> reads off the bytes a descriptor got.
  \<^item> \<open>Logger\<close> (\<open>logger/logger.c\<close>): the buffer, the handlers and the thread of the log.
  \<^item> \<open>Client\<close> (\<open>client/client.c\<close>, \<open>client_private.h\<close>, \<open>client_handlers.c\<close>, \<open>remote_handlers.c\<close>, \<open>transformation_handlers.c\<close>,
    \<open>transformations/transformations.c\<close>): the structs of the clients are a heap, a map from addresses to records, in the
    state \<open>proxy\<close> of the program; a handler takes its key and the pair of the selector and this state. \<open>free\<close> takes a
    buffer's block away.
  \<^item> \<open>Proxy\<close> (\<open>main.c\<close>, \<open>argument/argument.c\<close>): options and configurations, the accepting handler, the table of the
    handlers, one round of the main loop, and the step relation \<open>proxy_step\<close>: a round with any answer of \<open>pselect\<close>, or a
    thread that ends a resolution. The handlers call the selector, which calls handlers: \<open>proxy_callbacks n\<close> are the
    handlers for calls nested at most \<open>n\<close> deep. The deepest nesting of the program is a handler that unregisters a
    client, whose close handler unregisters the origin, whose close handler calls nothing: 3 levels are all, and the
    step relation takes 3. The rules \<open>keeps\<close> show for each handler that the types of the registrations are kept.
  \<^item> \<open>ClientFacts\<close>, \<open>ClientExamples\<close>, \<open>ClientProperties\<close>, \<open>ClientRequests\<close>, \<open>ClientResponses\<close>, \<open>ClientTransforms\<close>,
    \<open>ClientFaults\<close>, \<open>ProxyProperties\<close>: what the operations of the selector mean for a client that is being served
    (\<open>client_ok\<close>), the handlers one by one and then in the order of a request, of a response and of the output of a
    transformation, where they stall, and the invariant of the program.
  \<^item> \<open>MainLoop\<close>: when \<open>pselect\<close> reports one descriptor, a round of the main loop is one call of its handler (\<open>main_round_calls\<close>),
    so the theorems about handlers become theorems about \<open>proxy_step\<close>; \<open>loop_ready\<close> is the state between two rounds. \<open>RequestLoop\<close> and
    \<open>ResponseLoop\<close> put the rounds of a request and of a response together.
  \<^item> \<open>Transformations\<close> (\<open>transformations/transformations.c\<close>): the process of a transformation on tables of descriptors, with its
    child up to the point where it is the shell, or returns. The first eight answers of the system decide what happens.
  \<^item> \<open>DummyParsers\<close> (\<open>request_parser/dummy_request_parser.c\<close>, \<open>response_parser/dummy_response_parser.c\<close>): the predecessors of the
    two parsers, which are in no build file.
  \<^item> \<open>UtilsTests\<close>, \<open>RequestTests\<close>, \<open>ResponseTests\<close> (\<open>tests/\<close>): the repository's own test functions as lists of steps. That
    each of them succeeds on the model is evaluated by the kernel.
  \<^item> \<open>MainSetup\<close> (\<open>main.c\<close>): from the options to the main loop. The calls that make the two sockets are recorded with their
    arguments; \<open>faults\<close> and \<open>exits\<close> list what ends the program there, in the order of the calls.

  \<^bold>\<open>What the theorems show.\<close>
  \<^item> The whole way: \<open>accepted_client\<close> (a connection becomes a client that waits for a request), \<open>program_forwards_request\<close>
    (the request it sends is what its origin gets, by rounds of the main loop and the end of a resolution) and
    \<open>program_delivers_response\<close> (head and body of the response, in any pieces, are what the client gets, by rounds of the main
    loop), the second from the state in which the first ends, in a program that may have other connections. They rest on the theorems about
    the handlers one by one, \<open>request_reaches_origin\<close> and \<open>response_reaches_client\<close> among them. \<open>transformation_reaches_client\<close> is the
    same for what a transformation prints, and \<open>transformation_wired\<close> shows that its pipes lead where they should. All go through the
    actual handlers, parsers, buffers and selector. They are about an absolute URI, a body of known length and headers besides the length
    that the parser does not treat, all of which fit the buffers; the branches of the handlers on the way are the subject of
    \<open>remote_write_forwards\<close>, \<open>client_write_delivers\<close>, \<open>transf_read_outcomes\<close>, \<open>transf_write_forwards\<close> and \<open>client_set_host_outcomes\<close>.
  \<^item> The start: \<open>main_configs_options\<close>, \<open>main_start_listens\<close> and \<open>main_start_faults\<close>, from the options to a program that
    listens, and exactly which failures end it instead, with which message.
  \<^item> Invariants: \<open>selector_wf\<close> for the selector alone with any callbacks, \<open>program_types\<close> for every state the program
    reaches from its start; the buffers' and parsers' invariants with each operation.
  \<^item> The parsers: that they stay in their objects and return, what they make of requests, of chunked bodies and bodies
    of known length, and that input may come in pieces; the two routines that are cut most, matching and numbers, are
    proved equal to themselves run in one piece.
  \<^item> Refinements: the selector's registrations are a map, the message queue is a list, the answers to the administrator
    are those of a specification, the metrics are counters; round trips for numbers, messages, chunks, log lines and
    configurations.
  \<^item> Where the code goes wrong: the theorems \<open>checkRequest_spins\<close>, \<open>selector_register_off_by_one\<close> and others state the inputs on
    which it does not return or leaves an object. Other theorems have as hypotheses that these are avoided.

  \<^bold>\<open>Not modelled.\<close> What the program of a transformation does once it runs; the header \<open>print_queue.h\<close>, which has no implementation; of the tests, those that write byte by byte and
  the tests of the transformations. The resolving thread runs as one
  step between two rounds of the loop: its interleaving with a round, and the race on the list of the resolutions, are
  not part of the model. Time is what the calls of the system answer.
\<close>

end
